(* ===== verification/Prelude.thy ===== *)
theory Prelude
  imports Main "HOL-Library.Word" "HOL-Library.Signed_Division"
begin

text \<open>
  Shared vocabulary of the development: names for the machine types of the C++ sources, the
  simplification collections the component theories fill, and generic lemmas on bit fields,
  sign extension and shifts. A field of an instruction word is always brought into the form
  \<open>push_bit s (take_bit w (drop_bit l x))\<close>; the lemmas of the collection \<open>rv_fields\<close> then
  extract one field from a disjunction of fields by arithmetic on positions and widths only.
\<close>

unbundle bit_operations_syntax

type_synonym u8 = "8 word"
type_synonym u16 = "16 word"
type_synonym u32 = "32 word"
type_synonym u64 = "64 word"

text \<open>\<open>intx_t\<close>, \<open>uintx_t\<close>, \<open>intptr_t\<close> and \<open>uword\<close> of a 64-bit target; \<open>sint\<close> and
  \<open>unat\<close> choose the signed or the unsigned reading.\<close>

type_synonym intx = "64 word"

named_theorems rv_fields \<open>extraction of one bit field from an instruction word\<close>
named_theorems rv_consts \<open>membership of literal values in their encodable ranges\<close>

section \<open>Bit fields\<close>

lemma and_numeral_take_bit [rv_fields]:
  fixes x :: "'a::len word"
  shows "x AND 1 = take_bit 1 x" "x AND 3 = take_bit 2 x" "x AND 7 = take_bit 3 x"
    "x AND 15 = take_bit 4 x" "x AND 31 = take_bit 5 x" "x AND 63 = take_bit 6 x"
    "x AND 127 = take_bit 7 x" "x AND 255 = take_bit 8 x" "x AND 1023 = take_bit 10 x"
    "x AND 4095 = take_bit 12 x"
  by (simp_all add: take_bit_eq_mask mask_numeral mask_Suc_exp numeral_eq_Suc mask_eq_exp_minus_1)

lemma take_bit_signed_drop_bit [rv_fields]:
  fixes x :: "'a::len word"
  shows "l + w \<le> LENGTH('a) \<Longrightarrow> take_bit w (signed_drop_bit l x) = take_bit w (drop_bit l x)"
  by (rule bit_word_eqI) (auto simp: bit_simps)

lemma ucast_push_bit_64 [rv_fields]:
  "(ucast (push_bit s (x :: u64)) :: u32) = push_bit s (ucast x)"
  by (rule bit_word_eqI) (auto simp: bit_simps)

lemma ucast_take_bit_64 [rv_fields]:
  "(ucast (take_bit w (x :: u64)) :: u32) = take_bit w (ucast x)"
  by (rule bit_word_eqI) (auto simp: bit_simps)

lemma take_bit_ucast_drop_bit_64 [rv_fields]:
  "l + w \<le> 32 \<Longrightarrow>
   take_bit w (ucast (drop_bit l (x :: u64)) :: u32) = take_bit w (drop_bit l (ucast x))"
  by (rule bit_word_eqI) (auto simp: bit_simps)

lemma take_bit_field_same [rv_fields]:
  fixes y :: "'a::len word"
  shows "s + w \<le> LENGTH('a) \<Longrightarrow>
    take_bit w (drop_bit s (push_bit s (take_bit w y))) = take_bit w y"
  by (rule bit_word_eqI) (auto simp: bit_simps)

lemma take_bit_field_above [rv_fields]:
  fixes y :: "'a::len word"
  shows "a + w \<le> s \<Longrightarrow> take_bit w (drop_bit a (push_bit s y)) = 0"
  by (rule bit_word_eqI) (auto simp: bit_simps)

lemma take_bit_field_above0 [rv_fields]:
  fixes y :: "'a::len word"
  shows "w \<le> s \<Longrightarrow> take_bit w (push_bit s y) = 0"
  by (rule bit_word_eqI) (auto simp: bit_simps)

lemma drop_bit_field_below [rv_fields]:
  fixes y :: "'a::len word"
  shows "s + w \<le> a \<Longrightarrow> drop_bit a (push_bit s (take_bit w y)) = 0"
  by (rule bit_word_eqI) (auto simp: bit_simps)

lemma take_bit_1_mod_2 [rv_fields]:
  fixes y :: "'a::len word"
  shows "take_bit 1 (y mod 2) = take_bit 1 y"
proof -
  have "y mod 2 = take_bit 1 y" by (simp add: take_bit_Suc)
  then show ?thesis by (simp only: take_bit_take_bit min.idem)
qed

lemma even_bit_pos: "\<not> bit x 0 \<Longrightarrow> bit x i \<Longrightarrow> 1 \<le> i"
  by (cases i) auto

lemma bit_ucast_32: "bit (ucast (x :: u64) :: u32) i \<longleftrightarrow> i < 32 \<and> bit x i"
  by (auto simp: bit_simps)

lemma drop_bit_take_bit_below [rv_fields]:
  fixes y :: "'a::len word"
  shows "w \<le> a \<Longrightarrow> drop_bit a (take_bit w y) = 0"
  by (rule bit_word_eqI) (auto simp: bit_simps)

lemma drop_bit_push_bit_top [rv_fields]:
  "l \<le> 32 \<Longrightarrow> drop_bit l (push_bit l (y :: u32)) = take_bit (32 - l) y"
  by (rule bit_word_eqI) (auto simp: bit_simps)

lemma drop_bit_reg_below [rv_fields]:
  "s + 5 \<le> a \<Longrightarrow> drop_bit a (push_bit s (ucast (r :: 5 word)) :: u32) = 0"
  by (rule bit_word_eqI) (auto simp: bit_simps dest: bit_imp_le_length)

lemma take_bit_reg_same [rv_fields]:
  "s + 5 \<le> 32 \<Longrightarrow> take_bit 5 (drop_bit s (push_bit s (ucast (r :: 5 word)) :: u32)) = ucast r"
  by (rule bit_word_eqI) (auto simp: bit_simps dest: bit_imp_le_length)

lemma take_bit_ucast_reg [simp]: "take_bit 5 (ucast (r :: 5 word) :: u32) = ucast r"
  by (rule bit_word_eqI) (auto simp: bit_simps dest: bit_imp_le_length)

lemma ucast_ucast_reg [simp]: "(ucast (ucast (r :: 5 word) :: u32) :: 5 word) = r"
  by (rule bit_word_eqI) (auto simp: bit_simps dest: bit_imp_le_length)

lemma bit_field_in_place:
  fixes x :: "'a::len word"
  shows "bit (push_bit l (take_bit w (drop_bit l x))) i \<longleftrightarrow> l \<le> i \<and> i < l + w \<and> bit x i"
  by (auto simp: bit_simps dest: bit_imp_le_length)

lemma field_in_place:
  fixes x :: "'a::len word"
  shows "push_bit l (take_bit w (drop_bit l x)) = x AND push_bit l (mask w)"
  by (rule bit_word_eqI) (auto simp: bit_simps)

lemma field_in_place0:
  fixes x :: "'a::len word"
  shows "take_bit w x = x AND mask w"
  by (rule bit_word_eqI) (auto simp: bit_simps)

lemma and_or_collect:
  fixes x :: "'a::len word"
  shows "x AND m OR x AND n = x AND (m OR n)" "x AND m OR (x AND n OR y) = x AND (m OR n) OR y"
  by (rule bit_word_eqI, auto simp: bit_simps)+

section \<open>Sign extension\<close>

lemma sint_signed_take_bit:
  fixes w :: "'a::len word"
  assumes "n < LENGTH('a)"
  shows "sint (signed_take_bit n w) = signed_take_bit n (sint w)"
proof (rule bit_eqI)
  fix i
  have "n = LENGTH('a) - Suc 0" if "LENGTH('a) - Suc 0 \<le> n"
    using assms that by simp
  then show "bit (sint (signed_take_bit n w)) i \<longleftrightarrow> bit (signed_take_bit n (sint w)) i"
    using assms by (auto simp: bit_simps min_def)
qed

lemma signed_take_bit_word_eq_iff:
  fixes w :: "'a::len word"
  assumes "n < LENGTH('a)"
  shows "signed_take_bit n w = w \<longleftrightarrow> - (2 ^ n) \<le> sint w \<and> sint w < 2 ^ n"
proof -
  have "signed_take_bit n w = w \<longleftrightarrow> sint (signed_take_bit n w) = sint w"
    by (metis signed_word_eqI)
  also have "\<dots> \<longleftrightarrow> signed_take_bit n (sint w) = sint w"
    using assms by (simp add: sint_signed_take_bit)
  also have "\<dots> \<longleftrightarrow> - (2 ^ n) \<le> sint w \<and> sint w < 2 ^ n"
    by (simp add: signed_take_bit_int_eq_self_iff)
  finally show ?thesis .
qed

lemma scast_signed_take_bit_32:
  "n < 32 \<Longrightarrow> (scast (signed_take_bit n (v :: u32)) :: u64) = signed_take_bit n (ucast v)"
  by (rule bit_word_eqI) (auto simp: bit_simps min_def)

lemma signed_take_bit_ucast_32:
  "n < 32 \<Longrightarrow> signed_take_bit n (ucast (ucast (x :: u64) :: u32) :: u64) = signed_take_bit n x"
  by (rule bit_word_eqI) (auto simp: bit_simps min_def)

lemma signed_take_bit_ucast_take_bit:
  "n < w \<Longrightarrow> n < 32 \<Longrightarrow>
   signed_take_bit n (ucast (take_bit w (v :: u32)) :: u64) = signed_take_bit n (ucast v)"
  by (rule bit_word_eqI) (auto simp: bit_simps min_def)

lemma shift_pair_signed_take_bit:
  fixes v :: "'a::len word"
  assumes "0 < N" "N \<le> LENGTH('a)"
  shows "signed_drop_bit (LENGTH('a) - N) (push_bit (LENGTH('a) - N) v) = signed_take_bit (N - 1) v"
proof (rule bit_word_eqI)
  fix n
  assume "n < LENGTH('a)"
  moreover have "n = N - Suc 0" if "n < N" "N - Suc 0 \<le> n" using that by simp
  ultimately show "bit (signed_drop_bit (LENGTH('a) - N) (push_bit (LENGTH('a) - N) v)) n
      \<longleftrightarrow> bit (signed_take_bit (N - 1) v) n"
    using assms by (auto simp: bit_simps min_def)
qed

lemma signed_take_bit_cong:
  fixes v w :: "'a::len word"
  assumes "\<And>i. i \<le> n \<Longrightarrow> bit v i \<longleftrightarrow> bit w i"
  shows "signed_take_bit n v = signed_take_bit n w"
  by (rule bit_word_eqI) (use assms in \<open>auto simp: bit_simps min_def\<close>)

section \<open>Shifts as arithmetic\<close>

lemma sint_signed_drop_bit: "sint (signed_drop_bit n (w :: 'a::len word)) = sint w div 2 ^ n"
  by (simp add: sint_signed_drop_bit_eq drop_bit_eq_div)

lemma word_of_int_sint [simp]: "word_of_int (sint w) = (w :: 'a::len word)"
  by (metis scast_eq scast_id)

lemma sint_word_of_int_64:
  "- (2 ^ 63) \<le> k \<Longrightarrow> k < 2 ^ 63 \<Longrightarrow> sint (word_of_int k :: intx) = k"
  by (simp add: sint_sbintrunc' signed_take_bit_int_eq_self_iff)

lemma sint_eq_uint_64: "uint (v :: intx) < 2 ^ 63 \<Longrightarrow> sint v = uint v"
  using sint_word_of_int_64 [of "uint v"] uint_ge_0 [of v] by simp

lemma take_bit_diff_zero:
  fixes v w :: "'a::len word"
  assumes "n \<le> LENGTH('a)" "take_bit n v = take_bit n w"
  shows "take_bit n (v - w) = 0"
proof -
  have eq: "take_bit n (uint v) = take_bit n (uint w)"
    using assms(2) by (metis unsigned_take_bit_eq)
  have "uint (take_bit n (v - w)) = take_bit n (uint v - uint w)"
    using assms(1) unfolding unsigned_take_bit_eq uint_word_ariths
    by (simp add: take_bit_eq_mod mod_mod_cancel le_imp_power_dvd)
  also have "\<dots> = take_bit n (take_bit n (uint v) - take_bit n (uint w))"
    by (simp only: take_bit_diff)
  finally have "uint (take_bit n (v - w)) = uint (0 :: 'a word)" by (simp add: eq)
  then show ?thesis by (rule word_uint_eqI)
qed

lemma take_bit_add_word:
  fixes v w :: "'a::len word"
  assumes "n \<le> LENGTH('a)"
  shows "take_bit n (take_bit n v + take_bit n w) = take_bit n (v + w)"
  using assms by transfer (simp add: min_def take_bit_add)

text \<open>Truncation to 32 bits commutes with the ring operations.\<close>

lemma word_of_int_mod_64: "(word_of_int (k mod 2 ^ 64) :: u32) = word_of_int k"
  unfolding word_of_int_eq_iff take_bit_eq_mod by (rule mod_mod_cancel) simp

lemma ucast_add_32: "(ucast (x + y) :: u32) = ucast (x :: u64) + ucast y"
  unfolding ucast_eq uint_word_ariths wi_hom_add using word_of_int_mod_64 by simp

lemma ucast_diff_32: "(ucast (x - y) :: u32) = ucast (x :: u64) - ucast y"
  unfolding ucast_eq uint_word_ariths wi_hom_sub using word_of_int_mod_64 by simp

lemma ucast_mult_32: "(ucast (x * y) :: u32) = ucast (x :: u64) * ucast y"
  unfolding ucast_eq uint_word_ariths wi_hom_mult using word_of_int_mod_64 by simp

lemma ucast_push_bit_32: "(ucast (push_bit n x) :: u32) = push_bit n (ucast (x :: u64))"
  by (rule bit_word_eqI) (auto simp: bit_simps)

lemma ucast_xor_32: "(ucast (x XOR y) :: u32) = ucast (x :: u64) XOR ucast y"
  by (rule bit_word_eqI) (auto simp: bit_simps)

end
