(* ===== verification/PlatformUtils.thy ===== *)
theory PlatformUtils
  imports Prelude
begin

text \<open>
  The integer helpers of \<^verbatim>\<open>runtime/platform/utils.h\<close> that the RISC-V back end uses, on 64-bit
  values: range tests, alignment, powers of two, bit counts. A template over \<open>T\<close> is one
  definition per instance the sources use; a suffix \<open>_signed\<close> marks the instance for a signed
  \<open>T\<close>. \<open>ASSERT\<close> is compiled out of a release build: its condition is a hypothesis of the lemmas.
\<close>

section \<open>Bit counting of the C++ standard library\<close>

definition countl_zero :: "'a::len word \<Rightarrow> nat" where
  "countl_zero w = length (takeWhile (\<lambda>i. \<not> bit w i) (rev [0..<LENGTH('a)]))"

definition countr_zero :: "'a::len word \<Rightarrow> nat" where
  "countr_zero w = length (takeWhile (\<lambda>i. \<not> bit w i) [0..<LENGTH('a)])"

definition popcount :: "'a::len word \<Rightarrow> nat" where
  "popcount w = length (filter (bit w) [0..<LENGTH('a)])"

section \<open>Definitions of \<^verbatim>\<open>class Utils\<close>\<close>

definition IsPowerOfTwo :: "intx \<Rightarrow> bool" where
  "IsPowerOfTwo x = (popcount x = 1)"

function ShiftForPowerOfTwo :: "intx \<Rightarrow> nat" where
  "ShiftForPowerOfTwo x = (if 1 < x then Suc (ShiftForPowerOfTwo (drop_bit 1 x)) else 0)"
  by pat_completeness auto
termination
proof (relation "measure unat")
  fix x :: intx
  assume "1 < x"
  then have "unat x div 2 < unat x" by (simp add: word_less_nat_alt)
  then show "(drop_bit 1 x, x) \<in> measure unat"
    by (simp add: unat_drop_bit_eq drop_bit_eq_div unat_div_distrib)
qed simp

declare ShiftForPowerOfTwo.simps [simp del]

function ShiftForPowerOfTwo_signed :: "intx \<Rightarrow> nat" where
  "ShiftForPowerOfTwo_signed x =
     (if 1 < sint x then Suc (ShiftForPowerOfTwo_signed (signed_drop_bit 1 x)) else 0)"
  by pat_completeness auto
termination
  by (relation "measure (\<lambda>x. nat (sint x))") (auto simp: sint_signed_drop_bit)

declare ShiftForPowerOfTwo_signed.simps [simp del]

definition IsAligned :: "intx \<Rightarrow> u64 \<Rightarrow> u64 \<Rightarrow> bool" where
  "IsAligned x alignment offset = (x AND (alignment - 1) = offset)"

definition RoundDown :: "intx \<Rightarrow> intx \<Rightarrow> intx" where
  "RoundDown x alignment = x AND (- alignment)"

definition RoundUp :: "intx \<Rightarrow> u64 \<Rightarrow> u64 \<Rightarrow> intx" where
  "RoundUp x alignment offset = RoundDown (x + alignment - 1 + offset) alignment - offset"

function bit_ceil :: "nat \<Rightarrow> nat" where
  "bit_ceil x = (if x \<le> 1 then 1 else 2 * bit_ceil ((x + 1) div 2))"
  by pat_completeness auto
termination by (relation "measure id") auto

declare bit_ceil.simps [simp del]

definition RoundUpToPowerOfTwo :: "nat \<Rightarrow> nat" where
  "RoundUpToPowerOfTwo x = (if x = 0 then 0 else bit_ceil x)"

definition CountTrailingZeros64 :: "u64 \<Rightarrow> nat" where
  "CountTrailingZeros64 x = countr_zero x"

definition IsInt :: "nat \<Rightarrow> intx \<Rightarrow> bool" where
  "IsInt N value =
     (if N \<ge> 64 then True
      else let limit = push_bit (N - 1) 1 :: intx
           in sint (- limit) \<le> sint value \<and> sint value < sint limit)"

definition IsUint :: "nat \<Rightarrow> intx \<Rightarrow> bool" where
  "IsUint N value =
     (if sint value < 0 then False
      else if N \<ge> 63 then True
      else let limit = push_bit N 1 - 1 :: intx in sint value \<le> sint limit)"

definition WillAddOverflow :: "intx \<Rightarrow> intx \<Rightarrow> bool" where
  "WillAddOverflow a b =
     ((sint b > 0 \<and> sint a > sint (0x7FFFFFFFFFFFFFFF - b)) \<or>
      (sint b < 0 \<and> sint a < sint (0x8000000000000000 - b)))"

definition WillSubOverflow :: "intx \<Rightarrow> intx \<Rightarrow> bool" where
  "WillSubOverflow a b =
     ((sint b > 0 \<and> sint a < sint (0x8000000000000000 + b)) \<or>
      (sint b < 0 \<and> sint a > sint (0x7FFFFFFFFFFFFFFF + b)))"

section \<open>Range tests\<close>

lemma sint_push_bit_1:
  assumes "n < 63"
  shows "sint (push_bit n 1 :: intx) = 2 ^ n" and "sint (- push_bit n 1 :: intx) = - (2 ^ n)"
proof -
  have le: "(2::int) ^ n < 2 ^ 63" using assms by (intro power_strict_increasing) auto
  have ge: "(0::int) < 2 ^ n" "(0::int) < 2 ^ 63" by simp_all
  have "sint (word_of_int (2 ^ n) :: intx) = 2 ^ n"
    by (rule sint_word_of_int_64) (use le ge in linarith)+
  then show "sint (push_bit n 1 :: intx) = 2 ^ n" by (simp add: push_bit_eq_mult)
  have "sint (word_of_int (- (2 ^ n)) :: intx) = - (2 ^ n)"
    by (rule sint_word_of_int_64) (use le ge in linarith)+
  then show "sint (- push_bit n 1 :: intx) = - (2 ^ n)" by (simp add: push_bit_eq_mult)
qed

lemma IsInt_iff:
  assumes "0 < N" "N < 64"
  shows "IsInt N v \<longleftrightarrow> - (2 ^ (N - 1)) \<le> sint v \<and> sint v < 2 ^ (N - 1)"
  using assms sint_push_bit_1 [of "N - 1"] by (simp add: IsInt_def Let_def)

lemma IsInt_signed_take_bit:
  assumes "0 < N" "N < 64"
  shows "IsInt N v \<longleftrightarrow> signed_take_bit (N - 1) v = v"
  using assms by (simp add: IsInt_iff signed_take_bit_word_eq_iff)

lemma IsUint_iff:
  assumes "N < 63"
  shows "IsUint N v \<longleftrightarrow> 0 \<le> sint v \<and> sint v < 2 ^ N"
proof -
  have le: "(2::int) ^ N < 2 ^ 63" using assms by (intro power_strict_increasing) auto
  have ge: "(0::int) < 2 ^ N" "(0::int) < 2 ^ 63" by simp_all
  have "sint (word_of_int (2 ^ N - 1) :: intx) = 2 ^ N - 1"
    by (rule sint_word_of_int_64) (use le ge in linarith)+
  then have "sint (push_bit N 1 - 1 :: intx) = 2 ^ N - 1" by (simp add: push_bit_eq_mult)
  then show ?thesis using assms by (auto simp: IsUint_def Let_def)
qed

lemma IsUint_take_bit:
  assumes "N < 63"
  shows "IsUint N v \<longleftrightarrow> take_bit N v = v"
proof -
  have "take_bit N v = v \<longleftrightarrow> uint v < 2 ^ N"
    by (metis take_bit_int_eq_self_iff uint_lt2p unsigned_take_bit_eq word_uint_eqI uint_ge_0)
  moreover have "0 \<le> sint v \<and> sint v < 2 ^ N \<longleftrightarrow> uint v < 2 ^ N"
  proof
    assume "0 \<le> sint v \<and> sint v < 2 ^ N"
    moreover have "sint v < 2 ^ 64" using sint_lt [of v] by simp
    ultimately show "uint v < 2 ^ N"
      by (simp add: uint_sint take_bit_int_eq_self)
  next
    assume a: "uint v < 2 ^ N"
    have "(2::int) ^ N \<le> 2 ^ 62" using assms by (intro power_increasing) auto
    with a have "uint v < 2 ^ 63" by simp
    then have "sint v = uint v" by (rule sint_eq_uint_64)
    with a show "0 \<le> sint v \<and> sint v < 2 ^ N" by simp
  qed
  ultimately show ?thesis using assms by (simp add: IsUint_iff)
qed

lemma IsUint_bit: "IsUint N v \<Longrightarrow> N < 63 \<Longrightarrow> bit v i \<Longrightarrow> i < N"
  by (metis IsUint_take_bit bit_take_bit_iff)

lemma IsAligned_bit:
  assumes "IsAligned x alignment 0" "alignment - 1 = mask k" "bit x i"
  shows "k \<le> i"
proof -
  have "take_bit k x = 0" using assms(1,2) by (simp add: IsAligned_def take_bit_eq_mask)
  then show ?thesis using assms(3) by (metis bit_0_eq bit_take_bit_iff bot_apply bot_bool_def not_le)
qed

lemma IsAligned_literal_bit:
  "IsAligned x 2 0 \<Longrightarrow> bit x i \<Longrightarrow> 1 \<le> i" "IsAligned x 4 0 \<Longrightarrow> bit x i \<Longrightarrow> 2 \<le> i"
  "IsAligned x 8 0 \<Longrightarrow> bit x i \<Longrightarrow> 3 \<le> i" "IsAligned x 16 0 \<Longrightarrow> bit x i \<Longrightarrow> 4 \<le> i"
  "IsAligned x (push_bit 12 1) 0 \<Longrightarrow> bit x i \<Longrightarrow> 12 \<le> i"
  by (rule IsAligned_bit; simp add: mask_eq_exp_minus_1)+

lemma IsUint_literal_bit:
  "IsUint 2 v \<Longrightarrow> bit v i \<Longrightarrow> i < 2" "IsUint 7 v \<Longrightarrow> bit v i \<Longrightarrow> i < 7"
  "IsUint 8 v \<Longrightarrow> bit v i \<Longrightarrow> i < 8" "IsUint 9 v \<Longrightarrow> bit v i \<Longrightarrow> i < 9"
  by (auto dest: IsUint_bit)

section \<open>Trailing zeros and powers of two\<close>

lemma countr_zero_bits:
  fixes x :: "'a::len word"
  assumes "x \<noteq> 0"
  shows "countr_zero x < LENGTH('a)" "bit x (countr_zero x)" "\<And>i. i < countr_zero x \<Longrightarrow> \<not> bit x i"
proof -
  let ?P = "\<lambda>i. \<not> bit x i" and ?xs = "[0..<LENGTH('a)]"
  have le: "countr_zero x \<le> LENGTH('a)"
    unfolding countr_zero_def using length_takeWhile_le [of ?P ?xs] by simp
  show lt: "countr_zero x < LENGTH('a)"
  proof (rule ccontr)
    assume "\<not> countr_zero x < LENGTH('a)"
    then have "takeWhile ?P ?xs = ?xs"
      using le takeWhile_eq_take [of ?P ?xs] unfolding countr_zero_def by simp
    then have "\<forall>i < LENGTH('a). \<not> bit x i" by (auto simp: takeWhile_eq_all_conv)
    then have "x = 0" by (auto intro!: bit_word_eqI)
    then show False using assms by simp
  qed
  show "bit x (countr_zero x)"
    using nth_length_takeWhile [of ?P ?xs] lt unfolding countr_zero_def by simp
  show "\<not> bit x i" if "i < countr_zero x" for i
  proof -
    have "takeWhile ?P ?xs ! i \<in> set (takeWhile ?P ?xs)" using that unfolding countr_zero_def by simp
    moreover have "takeWhile ?P ?xs ! i = i"
      using that lt takeWhile_nth [of i ?P ?xs] unfolding countr_zero_def by simp
    ultimately show ?thesis using set_takeWhileD by metis
  qed
qed

lemma take_bit_countr_zero: "take_bit (countr_zero x) x = (0 :: 'a::len word)"
proof (cases "x = 0")
  case False
  show ?thesis
    by (rule bit_word_eqI) (use countr_zero_bits(3) [OF False] in \<open>auto simp: bit_take_bit_iff\<close>)
qed simp

lemma countr_zero_ge:
  assumes "take_bit k x = (0 :: 'a::len word)" "x \<noteq> 0"
  shows "k \<le> countr_zero x"
proof (rule ccontr)
  assume "\<not> k \<le> countr_zero x"
  then have "bit (take_bit k x) (countr_zero x)"
    using countr_zero_bits(2) [OF assms(2)] by (simp add: bit_take_bit_iff)
  then show False using assms(1) by simp
qed

lemma push_signed_drop_bit:
  fixes x :: intx
  assumes "take_bit k x = 0" "k < 64"
  shows "push_bit k (signed_drop_bit k x) = x"
proof (rule bit_word_eqI)
  fix i assume i: "i < LENGTH(64)"
  have "\<not> bit x i" if "i < k" using assms(1) that by (metis bit_take_bit_iff bit_0_eq bot_apply bot_bool_def)
  then show "bit (push_bit k (signed_drop_bit k x)) i = bit x i"
    using i assms(2) by (cases "i < k") (auto simp: bit_push_bit_iff bit_signed_drop_bit_iff)
qed

lemma popcount_1:
  fixes x :: intx
  shows "popcount x = 1 \<longleftrightarrow> (\<exists>k < 64. x = push_bit k 1)"
proof
  assume "popcount x = 1"
  then obtain k where k: "filter (bit x) [0..<64] = [k]"
    by (auto simp: popcount_def length_Suc_conv)
  then have "set (filter (bit x) [0..<64]) = {k}" by simp
  then have "\<And>i. i < 64 \<Longrightarrow> bit x i \<longleftrightarrow> i = k" "k < 64" by auto
  then show "\<exists>k < 64. x = push_bit k 1"
    by (intro exI [of _ k] conjI bit_word_eqI) (auto simp: bit_push_bit_iff bit_1_iff bit_exp_iff)
next
  assume "\<exists>k < 64. x = push_bit k 1"
  then obtain k where k: "k < 64" "x = push_bit k 1" by blast
  then have "{i. i < 64 \<and> bit x i} = {k}" by (auto simp: bit_push_bit_iff bit_1_iff bit_exp_iff)
  moreover have "popcount x = card {i. i < 64 \<and> bit x i}"
    unfolding popcount_def length_filter_conv_card by (rule arg_cong [of _ _ card]) auto
  ultimately show "popcount x = 1" by simp
qed

lemma IsPowerOfTwo_iff: "IsPowerOfTwo x \<longleftrightarrow> (\<exists>k < 64. x = push_bit k 1)"
  unfolding IsPowerOfTwo_def by (rule popcount_1)

lemma one_less_push_bit:
  assumes "0 < k" "k < 64"
  shows "1 < (push_bit k 1 :: intx)"
proof -
  have le: "(2::int) ^ k \<le> 2 ^ 63" using assms by (intro power_increasing) auto
  have "(1::int) < 2 ^ k" using assms by (intro one_less_power) auto
  moreover have "(push_bit k 1 :: intx) = word_of_int (2 ^ k)" by (simp add: push_bit_eq_mult)
  then have "uint (push_bit k 1 :: intx) = take_bit 64 (2 ^ k)" by (simp only: uint_word_of_int_eq) simp
  then have "uint (push_bit k 1 :: intx) = 2 ^ k" using le by (simp only: take_bit_int_eq_self_iff) simp
  ultimately show ?thesis by (simp add: word_less_def)
qed

lemma ShiftForPowerOfTwo_power:
  "k < 64 \<Longrightarrow> ShiftForPowerOfTwo (push_bit k 1) = k"
proof (induction k)
  case 0
  then show ?case by (subst ShiftForPowerOfTwo.simps) simp
next
  case (Suc k)
  have "drop_bit 1 (push_bit (Suc k) 1 :: intx) = push_bit k 1"
    by (rule bit_word_eqI) (use Suc.prems in \<open>auto simp: bit_simps\<close>)
  moreover have "1 < (push_bit (Suc k) 1 :: intx)"
    using one_less_push_bit [of "Suc k"] Suc.prems by simp
  ultimately show ?case using Suc by (subst ShiftForPowerOfTwo.simps) simp
qed

lemma ShiftForPowerOfTwo_signed_power:
  "k < 63 \<Longrightarrow> ShiftForPowerOfTwo_signed (push_bit k 1) = k"
proof (induction k)
  case 0
  then show ?case by (subst ShiftForPowerOfTwo_signed.simps) simp
next
  case (Suc k)
  have "signed_drop_bit 1 (push_bit (Suc k) 1 :: intx) = push_bit k 1"
    by (rule bit_word_eqI) (use Suc.prems in \<open>auto simp: bit_simps\<close>)
  moreover have "1 < sint (push_bit (Suc k) 1 :: intx)"
    unfolding sint_push_bit_1(1) [OF Suc.prems] by (rule one_less_power) simp_all
  ultimately show ?case using Suc by (subst ShiftForPowerOfTwo_signed.simps) simp
qed

text \<open>The signed instance sees the top bit as a sign: for the least 64-bit integer, which
  \<open>IsPowerOfTwo\<close> accepts, it returns 0 instead of 63.\<close>

lemma ShiftForPowerOfTwo_signed_min:
  "IsPowerOfTwo 0x8000000000000000" "ShiftForPowerOfTwo_signed 0x8000000000000000 = 0"
proof -
  have "(0x8000000000000000 :: intx) = push_bit 63 1" by simp
  then show "IsPowerOfTwo 0x8000000000000000" unfolding IsPowerOfTwo_def popcount_1
    by (intro exI [of _ 63] conjI) simp_all
  show "ShiftForPowerOfTwo_signed 0x8000000000000000 = 0"
    by (subst ShiftForPowerOfTwo_signed.simps) simp
qed
end
