(* ===== verification/RiscvEncoding.thy ===== *)
theory RiscvEncoding
  imports PlatformUtils
begin

text \<open>
  The 32-bit instruction format of \<^verbatim>\<open>runtime/vm/constants_riscv.h\<close>: registers, the opcode and
  function-code enumerations, the \<open>Encode\<close>/\<open>Decode\<close>/\<open>Is\<close> functions of every field and immediate,
  and the accessors of \<open>class Instr\<close>, for \<open>XLEN = 64\<close>.

  The enumerations repeat values (\<open>BEQ\<close>, \<open>LB\<close>, \<open>ADD\<close> and \<open>MUL\<close> are all \<open>0\<close>), so their members
  are names for 32-bit numbers rather than constructors; a name that Isabelle reserves carries the
  prefix \<open>F3_\<close>. A \<open>Register\<close> is its number, a 5-bit word, which makes the check
  \<open>IsRd (r)\<close>, that is \<open>r < 32\<close>, true by typing. The lemmas show that every immediate format
  survives an encode/decode round trip wherever its \<open>Is\<close> test accepts it, also when the other
  fields of the instruction are present.
\<close>

section \<open>Registers\<close>

type_synonym Register = "5 word"
type_synonym FRegister = "5 word"

abbreviation (input) ZR :: Register where "ZR \<equiv> 0"
abbreviation (input) RA :: Register where "RA \<equiv> 1"
abbreviation (input) SP :: Register where "SP \<equiv> 2"
abbreviation (input) T0 :: Register where "T0 \<equiv> 5"
abbreviation (input) T1 :: Register where "T1 \<equiv> 6"
abbreviation (input) T2 :: Register where "T2 \<equiv> 7"
abbreviation (input) FP :: Register where "FP \<equiv> 8"
abbreviation (input) A0 :: Register where "A0 \<equiv> 10"
abbreviation (input) A1 :: Register where "A1 \<equiv> 11"
abbreviation (input) A2 :: Register where "A2 \<equiv> 12"
abbreviation (input) A3 :: Register where "A3 \<equiv> 13"
abbreviation (input) A4 :: Register where "A4 \<equiv> 14"
abbreviation (input) A5 :: Register where "A5 \<equiv> 15"
abbreviation (input) PP :: Register where "PP \<equiv> A5"
abbreviation (input) TMP :: Register where "TMP \<equiv> A3"
abbreviation (input) TMP2 :: Register where "TMP2 \<equiv> A4"
abbreviation (input) FAR_TMP :: Register where "FAR_TMP \<equiv> T2"

section \<open>Operation codes\<close>

subsection \<open>enum Opcode\<close>

abbreviation (input) LUI :: u32 where "LUI \<equiv> 0b0110111"
abbreviation (input) AUIPC :: u32 where "AUIPC \<equiv> 0b0010111"
abbreviation (input) JAL :: u32 where "JAL \<equiv> 0b1101111"
abbreviation (input) JALR :: u32 where "JALR \<equiv> 0b1100111"
abbreviation (input) BRANCH :: u32 where "BRANCH \<equiv> 0b1100011"
abbreviation (input) LOAD :: u32 where "LOAD \<equiv> 0b0000011"
abbreviation (input) STORE :: u32 where "STORE \<equiv> 0b0100011"
abbreviation (input) OPIMM :: u32 where "OPIMM \<equiv> 0b0010011"
abbreviation (input) OP :: u32 where "OP \<equiv> 0b0110011"
abbreviation (input) MISCMEM :: u32 where "MISCMEM \<equiv> 0b0001111"
abbreviation (input) SYSTEM :: u32 where "SYSTEM \<equiv> 0b1110011"
abbreviation (input) OP32 :: u32 where "OP32 \<equiv> 0b0111011"
abbreviation (input) OPIMM32 :: u32 where "OPIMM32 \<equiv> 0b0011011"
abbreviation (input) AMO :: u32 where "AMO \<equiv> 0b0101111"
abbreviation (input) LOADFP :: u32 where "LOADFP \<equiv> 0b0000111"
abbreviation (input) STOREFP :: u32 where "STOREFP \<equiv> 0b0100111"
abbreviation (input) FMADD :: u32 where "FMADD \<equiv> 0b1000011"
abbreviation (input) FMSUB :: u32 where "FMSUB \<equiv> 0b1000111"
abbreviation (input) FNMSUB :: u32 where "FNMSUB \<equiv> 0b1001011"
abbreviation (input) FNMADD :: u32 where "FNMADD \<equiv> 0b1001111"
abbreviation (input) OPFP :: u32 where "OPFP \<equiv> 0b1010011"
abbreviation (input) OPV :: u32 where "OPV \<equiv> 0b1010111"

subsection \<open>enum Funct12\<close>

abbreviation (input) ECALL :: u32 where "ECALL \<equiv> 0"
abbreviation (input) EBREAK :: u32 where "EBREAK \<equiv> 1"
abbreviation (input) WRS_NTO :: u32 where "WRS_NTO \<equiv> 0x0d"
abbreviation (input) WRS_STO :: u32 where "WRS_STO \<equiv> 0x1d"
abbreviation (input) MOP_R_MASK :: u32 where "MOP_R_MASK \<equiv> 0b101100111100"
abbreviation (input) MOP_R :: u32 where "MOP_R \<equiv> 0b100000011100"
abbreviation (input) SSPOPCHK :: u32 where "SSPOPCHK \<equiv> 0b110011011100"
abbreviation (input) SSRDP :: u32 where "SSRDP \<equiv> 0b110011011100"

subsection \<open>enum Funct3\<close>

abbreviation (input) F3_0 :: u32 where "F3_0 \<equiv> 0"
abbreviation (input) F3_1 :: u32 where "F3_1 \<equiv> 1"
abbreviation (input) BEQ :: u32 where "BEQ \<equiv> 0b000"
abbreviation (input) BNE :: u32 where "BNE \<equiv> 0b001"
abbreviation (input) BLT :: u32 where "BLT \<equiv> 0b100"
abbreviation (input) BGE :: u32 where "BGE \<equiv> 0b101"
abbreviation (input) BLTU :: u32 where "BLTU \<equiv> 0b110"
abbreviation (input) BGEU :: u32 where "BGEU \<equiv> 0b111"
abbreviation (input) LB :: u32 where "LB \<equiv> 0b000"
abbreviation (input) LH :: u32 where "LH \<equiv> 0b001"
abbreviation (input) LW :: u32 where "LW \<equiv> 0b010"
abbreviation (input) LBU :: u32 where "LBU \<equiv> 0b100"
abbreviation (input) LHU :: u32 where "LHU \<equiv> 0b101"
abbreviation (input) LWU :: u32 where "LWU \<equiv> 0b110"
abbreviation (input) LD :: u32 where "LD \<equiv> 0b011"
abbreviation (input) SB :: u32 where "SB \<equiv> 0b000"
abbreviation (input) SH :: u32 where "SH \<equiv> 0b001"
abbreviation (input) SW :: u32 where "SW \<equiv> 0b010"
abbreviation (input) SD :: u32 where "SD \<equiv> 0b011"
abbreviation (input) ADDI :: u32 where "ADDI \<equiv> 0b000"
abbreviation (input) SLLI :: u32 where "SLLI \<equiv> 0b001"
abbreviation (input) SLTI :: u32 where "SLTI \<equiv> 0b010"
abbreviation (input) SLTIU :: u32 where "SLTIU \<equiv> 0b011"
abbreviation (input) XORI :: u32 where "XORI \<equiv> 0b100"
abbreviation (input) SRI :: u32 where "SRI \<equiv> 0b101"
abbreviation (input) ORI :: u32 where "ORI \<equiv> 0b110"
abbreviation (input) ANDI :: u32 where "ANDI \<equiv> 0b111"
abbreviation (input) ADD :: u32 where "ADD \<equiv> 0b000"
abbreviation (input) SLL :: u32 where "SLL \<equiv> 0b001"
abbreviation (input) SLT :: u32 where "SLT \<equiv> 0b010"
abbreviation (input) SLTU :: u32 where "SLTU \<equiv> 0b011"
abbreviation (input) F3_XOR :: u32 where "F3_XOR \<equiv> 0b100"
abbreviation (input) SR :: u32 where "SR \<equiv> 0b101"
abbreviation (input) F3_OR :: u32 where "F3_OR \<equiv> 0b110"
abbreviation (input) F3_AND :: u32 where "F3_AND \<equiv> 0b111"
abbreviation (input) FENCE :: u32 where "FENCE \<equiv> 0b000"
abbreviation (input) FENCEI :: u32 where "FENCEI \<equiv> 0b001"
abbreviation (input) PRIV :: u32 where "PRIV \<equiv> 0b000"
abbreviation (input) CSRRW :: u32 where "CSRRW \<equiv> 0b001"
abbreviation (input) CSRRS :: u32 where "CSRRS \<equiv> 0b010"
abbreviation (input) CSRRC :: u32 where "CSRRC \<equiv> 0b011"
abbreviation (input) CSRRWI :: u32 where "CSRRWI \<equiv> 0b101"
abbreviation (input) CSRRSI :: u32 where "CSRRSI \<equiv> 0b110"
abbreviation (input) CSRRCI :: u32 where "CSRRCI \<equiv> 0b111"
abbreviation (input) MOP :: u32 where "MOP \<equiv> 0b100"
abbreviation (input) MUL :: u32 where "MUL \<equiv> 0b000"
abbreviation (input) MULH :: u32 where "MULH \<equiv> 0b001"
abbreviation (input) MULHSU :: u32 where "MULHSU \<equiv> 0b010"
abbreviation (input) MULHU :: u32 where "MULHU \<equiv> 0b011"
abbreviation (input) DIV :: u32 where "DIV \<equiv> 0b100"
abbreviation (input) DIVU :: u32 where "DIVU \<equiv> 0b101"
abbreviation (input) REM :: u32 where "REM \<equiv> 0b110"
abbreviation (input) REMU :: u32 where "REMU \<equiv> 0b111"
abbreviation (input) MULW :: u32 where "MULW \<equiv> 0b000"
abbreviation (input) DIVW :: u32 where "DIVW \<equiv> 0b100"
abbreviation (input) DIVUW :: u32 where "DIVUW \<equiv> 0b101"
abbreviation (input) REMW :: u32 where "REMW \<equiv> 0b110"
abbreviation (input) REMUW :: u32 where "REMUW \<equiv> 0b111"
abbreviation (input) WIDTH8 :: u32 where "WIDTH8 \<equiv> 0b000"
abbreviation (input) WIDTH16 :: u32 where "WIDTH16 \<equiv> 0b001"
abbreviation (input) WIDTH32 :: u32 where "WIDTH32 \<equiv> 0b010"
abbreviation (input) WIDTH64 :: u32 where "WIDTH64 \<equiv> 0b011"
abbreviation (input) WIDTH128 :: u32 where "WIDTH128 \<equiv> 0b100"
abbreviation (input) F3_S :: u32 where "F3_S \<equiv> 0b010"
abbreviation (input) F3_D :: u32 where "F3_D \<equiv> 0b011"
abbreviation (input) SH1ADD :: u32 where "SH1ADD \<equiv> 0b010"
abbreviation (input) SH2ADD :: u32 where "SH2ADD \<equiv> 0b100"
abbreviation (input) SH3ADD :: u32 where "SH3ADD \<equiv> 0b110"
abbreviation (input) F3_COUNT :: u32 where "F3_COUNT \<equiv> 0b001"
abbreviation (input) F3_MAX :: u32 where "F3_MAX \<equiv> 0b110"
abbreviation (input) F3_MAXU :: u32 where "F3_MAXU \<equiv> 0b111"
abbreviation (input) F3_MIN :: u32 where "F3_MIN \<equiv> 0b100"
abbreviation (input) F3_MINU :: u32 where "F3_MINU \<equiv> 0b101"
abbreviation (input) CLMUL :: u32 where "CLMUL \<equiv> 0b001"
abbreviation (input) CLMULH :: u32 where "CLMULH \<equiv> 0b011"
abbreviation (input) CLMULR :: u32 where "CLMULR \<equiv> 0b010"
abbreviation (input) SEXT :: u32 where "SEXT \<equiv> 0b001"
abbreviation (input) ZEXT :: u32 where "ZEXT \<equiv> 0b100"
abbreviation (input) ROL :: u32 where "ROL \<equiv> 0b001"
abbreviation (input) ROR :: u32 where "ROR \<equiv> 0b101"
abbreviation (input) BCLR :: u32 where "BCLR \<equiv> 0b001"
abbreviation (input) BEXT :: u32 where "BEXT \<equiv> 0b101"
abbreviation (input) F3_BINV :: u32 where "F3_BINV \<equiv> 0b001"
abbreviation (input) F3_BSET :: u32 where "F3_BSET \<equiv> 0b001"
abbreviation (input) CZEROEQZ :: u32 where "CZEROEQZ \<equiv> 0b101"
abbreviation (input) CZERONEZ :: u32 where "CZERONEZ \<equiv> 0b111"
abbreviation (input) OPIVV :: u32 where "OPIVV \<equiv> 0b000"
abbreviation (input) OPFVV :: u32 where "OPFVV \<equiv> 0b001"
abbreviation (input) OPMVV :: u32 where "OPMVV \<equiv> 0b010"
abbreviation (input) OPIVI :: u32 where "OPIVI \<equiv> 0b011"
abbreviation (input) OPIVX :: u32 where "OPIVX \<equiv> 0b100"
abbreviation (input) OPFVF :: u32 where "OPFVF \<equiv> 0b101"
abbreviation (input) OPMVX :: u32 where "OPMVX \<equiv> 0b110"
abbreviation (input) OPCFG :: u32 where "OPCFG \<equiv> 0b111"

subsection \<open>enum Funct7 and enum Funct5\<close>

abbreviation (input) F7_0 :: u32 where "F7_0 \<equiv> 0"
abbreviation (input) SRA :: u32 where "SRA \<equiv> 0b0100000"
abbreviation (input) SUB :: u32 where "SUB \<equiv> 0b0100000"
abbreviation (input) MULDIV :: u32 where "MULDIV \<equiv> 0b0000001"
abbreviation (input) ADDUW :: u32 where "ADDUW \<equiv> 0b0000100"
abbreviation (input) SHADD :: u32 where "SHADD \<equiv> 0b0010000"
abbreviation (input) SLLIUW :: u32 where "SLLIUW \<equiv> 0b0000100"
abbreviation (input) COUNT :: u32 where "COUNT \<equiv> 0b0110000"
abbreviation (input) MINMAXCLMUL :: u32 where "MINMAXCLMUL \<equiv> 0b0000101"
abbreviation (input) ROTATE :: u32 where "ROTATE \<equiv> 0b0110000"
abbreviation (input) BCLRBEXT :: u32 where "BCLRBEXT \<equiv> 0b0100100"
abbreviation (input) BINV :: u32 where "BINV \<equiv> 0b0110100"
abbreviation (input) BSET :: u32 where "BSET \<equiv> 0b0010100"
abbreviation (input) CZERO :: u32 where "CZERO \<equiv> 0b0000111"
abbreviation (input) MOP_RR_MASK :: u32 where "MOP_RR_MASK \<equiv> 0b1011001"
abbreviation (input) MOP_RR :: u32 where "MOP_RR \<equiv> 0b1000001"
abbreviation (input) SSPUSH :: u32 where "SSPUSH \<equiv> 0b1100111"

abbreviation (input) VADD :: u32 where "VADD \<equiv> 0b000000"
abbreviation (input) VMV :: u32 where "VMV \<equiv> 0b010111"

abbreviation (input) LR :: u32 where "LR \<equiv> 0b00010"
abbreviation (input) SC :: u32 where "SC \<equiv> 0b00011"
abbreviation (input) AMOSWAP :: u32 where "AMOSWAP \<equiv> 0b00001"
abbreviation (input) AMOADD :: u32 where "AMOADD \<equiv> 0b00000"
abbreviation (input) AMOXOR :: u32 where "AMOXOR \<equiv> 0b00100"
abbreviation (input) AMOAND :: u32 where "AMOAND \<equiv> 0b01100"
abbreviation (input) AMOOR :: u32 where "AMOOR \<equiv> 0b01000"
abbreviation (input) AMOMIN :: u32 where "AMOMIN \<equiv> 0b10000"
abbreviation (input) AMOMAX :: u32 where "AMOMAX \<equiv> 0b10100"
abbreviation (input) AMOMINU :: u32 where "AMOMINU \<equiv> 0b11000"
abbreviation (input) AMOMAXU :: u32 where "AMOMAXU \<equiv> 0b11100"
abbreviation (input) LOADORDERED :: u32 where "LOADORDERED \<equiv> 0b00110"
abbreviation (input) STOREORDERED :: u32 where "STOREORDERED \<equiv> 0b00111"
abbreviation (input) SSAMOSWAP :: u32 where "SSAMOSWAP \<equiv> 0b01001"
abbreviation (input) AMOCAS :: u32 where "AMOCAS \<equiv> 0b00101"

section \<open>Fields\<close>

definition SignExtend :: "nat \<Rightarrow> u32 \<Rightarrow> u32" where
  "SignExtend N value = signed_drop_bit (32 - N) (push_bit (32 - N) value)"

definition EncodeRd :: "Register \<Rightarrow> u32" where "EncodeRd r = push_bit 7 (ucast r)"
definition DecodeRd :: "u32 \<Rightarrow> Register" where "DecodeRd e = ucast (drop_bit 7 e AND 31)"
definition EncodeRs1 :: "Register \<Rightarrow> u32" where "EncodeRs1 r = push_bit 15 (ucast r)"
definition DecodeRs1 :: "u32 \<Rightarrow> Register" where "DecodeRs1 e = ucast (drop_bit 15 e AND 31)"
definition EncodeRs2 :: "Register \<Rightarrow> u32" where "EncodeRs2 r = push_bit 20 (ucast r)"
definition DecodeRs2 :: "u32 \<Rightarrow> Register" where "DecodeRs2 e = ucast (drop_bit 20 e AND 31)"

definition IsOpcode :: "u32 \<Rightarrow> bool" where "IsOpcode f = (f AND 0x7F = f)"
definition EncodeOpcode :: "u32 \<Rightarrow> u32" where "EncodeOpcode f = push_bit 0 f"
definition DecodeOpcode :: "u32 \<Rightarrow> u32" where "DecodeOpcode e = drop_bit 0 e AND 0x7F"
definition IsFunct3 :: "u32 \<Rightarrow> bool" where "IsFunct3 f = (f AND 0x7 = f)"
definition EncodeFunct3 :: "u32 \<Rightarrow> u32" where "EncodeFunct3 f = push_bit 12 f"
definition DecodeFunct3 :: "u32 \<Rightarrow> u32" where "DecodeFunct3 e = drop_bit 12 e AND 0x7"
definition IsFunct5 :: "u32 \<Rightarrow> bool" where "IsFunct5 f = (f AND 0x1F = f)"
definition EncodeFunct5 :: "u32 \<Rightarrow> u32" where "EncodeFunct5 f = push_bit 27 f"
definition DecodeFunct5 :: "u32 \<Rightarrow> u32" where "DecodeFunct5 e = drop_bit 27 e AND 0x1F"
definition IsFunct7 :: "u32 \<Rightarrow> bool" where "IsFunct7 f = (f AND 0x7F = f)"
definition EncodeFunct7 :: "u32 \<Rightarrow> u32" where "EncodeFunct7 f = push_bit 25 f"
definition DecodeFunct7 :: "u32 \<Rightarrow> u32" where "DecodeFunct7 e = drop_bit 25 e AND 0x7F"
definition IsFunct12 :: "u32 \<Rightarrow> bool" where "IsFunct12 f = (f AND 0xFFF = f)"
definition EncodeFunct12 :: "u32 \<Rightarrow> u32" where "EncodeFunct12 f = push_bit 20 f"
definition DecodeFunct12 :: "u32 \<Rightarrow> u32" where "DecodeFunct12 e = drop_bit 20 e AND 0xFFF"
definition IsShamt :: "u32 \<Rightarrow> bool" where "IsShamt f = (f AND 0x3F = f)"
definition EncodeShamt :: "u32 \<Rightarrow> u32" where "EncodeShamt f = push_bit 20 f"
definition DecodeShamt :: "u32 \<Rightarrow> u32" where "DecodeShamt e = drop_bit 20 e AND 0x3F"

section \<open>Immediates\<close>

definition ImmLo :: "intx \<Rightarrow> intx" where
  "ImmLo imm = signed_drop_bit (64 - 12) (push_bit (64 - 12) imm)"

definition ImmHi :: "intx \<Rightarrow> intx" where
  "ImmHi imm = signed_drop_bit (64 - 32) (push_bit (64 - 32) (imm - ImmLo imm))"

definition IsBTypeImm :: "intx \<Rightarrow> bool" where
  "IsBTypeImm imm = (IsInt 12 imm \<and> IsAligned imm 2 0)"

definition EncodeBTypeImm :: "intx \<Rightarrow> u32" where
  "EncodeBTypeImm imm =
     0 OR ucast (push_bit 31 (signed_drop_bit 12 imm AND 0x1))
       OR ucast (push_bit 25 (signed_drop_bit 5 imm AND 0x3f))
       OR ucast (push_bit 8 (signed_drop_bit 1 imm AND 0xf))
       OR ucast (push_bit 7 (signed_drop_bit 11 imm AND 0x1))"

definition DecodeBTypeImm :: "u32 \<Rightarrow> intx" where
  "DecodeBTypeImm encoded =
     (let imm = 0 OR push_bit 12 (drop_bit 31 encoded AND 0x1)
                  OR push_bit 5 (drop_bit 25 encoded AND 0x3f)
                  OR push_bit 1 (drop_bit 8 encoded AND 0xf)
                  OR push_bit 11 (drop_bit 7 encoded AND 0x1)
      in scast (SignExtend 12 imm))"

definition IsJTypeImm :: "intx \<Rightarrow> bool" where
  "IsJTypeImm imm = (IsInt 20 imm \<and> IsAligned imm 2 0)"

definition EncodeJTypeImm :: "intx \<Rightarrow> u32" where
  "EncodeJTypeImm imm =
     0 OR ucast (push_bit 31 (signed_drop_bit 20 imm AND 0x1))
       OR ucast (push_bit 21 (signed_drop_bit 1 imm AND 0x3ff))
       OR ucast (push_bit 20 (signed_drop_bit 11 imm AND 0x1))
       OR ucast (push_bit 12 (signed_drop_bit 12 imm AND 0xff))"

definition DecodeJTypeImm :: "u32 \<Rightarrow> intx" where
  "DecodeJTypeImm encoded =
     (let imm = 0 OR push_bit 20 (drop_bit 31 encoded AND 0x1)
                  OR push_bit 1 (drop_bit 21 encoded AND 0x3ff)
                  OR push_bit 11 (drop_bit 20 encoded AND 0x1)
                  OR push_bit 12 (drop_bit 12 encoded AND 0xff)
      in scast (SignExtend 20 imm))"

definition IsITypeImm :: "intx \<Rightarrow> bool" where
  "IsITypeImm imm = IsInt 12 imm"

definition EncodeITypeImm :: "intx \<Rightarrow> u32" where
  "EncodeITypeImm imm = push_bit 20 (ucast imm)"

definition DecodeITypeImm :: "u32 \<Rightarrow> intx" where
  "DecodeITypeImm encoded = scast (SignExtend 12 (drop_bit 20 encoded))"

definition IsUTypeImm :: "intx \<Rightarrow> bool" where
  "IsUTypeImm imm = (IsInt 32 imm \<and> IsAligned imm (push_bit 12 1) 0)"

definition EncodeUTypeImm :: "intx \<Rightarrow> u32" where
  "EncodeUTypeImm imm = ucast imm"

definition DecodeUTypeImm :: "u32 \<Rightarrow> intx" where
  "DecodeUTypeImm encoded = scast (SignExtend 32 (encoded AND NOT (push_bit 12 1 - 1)))"

definition IsSTypeImm :: "intx \<Rightarrow> bool" where
  "IsSTypeImm imm = IsInt 12 imm"

definition EncodeSTypeImm :: "intx \<Rightarrow> u32" where
  "EncodeSTypeImm imm =
     0 OR ucast (push_bit 25 (signed_drop_bit 5 imm AND 0x7f))
       OR ucast (push_bit 7 (signed_drop_bit 0 imm AND 0x1f))"

definition DecodeSTypeImm :: "u32 \<Rightarrow> intx" where
  "DecodeSTypeImm encoded =
     (let imm = 0 OR push_bit 5 (drop_bit 25 encoded AND 0x7f)
                  OR push_bit 0 (drop_bit 7 encoded AND 0x1f)
      in scast (SignExtend 12 imm))"

definition IsMoprn :: "intx \<Rightarrow> bool" where
  "IsMoprn imm = IsUint 5 imm"

definition EncodeMoprn :: "intx \<Rightarrow> u32" where
  "EncodeMoprn imm =
     0 OR ucast (push_bit 30 (signed_drop_bit 4 imm AND 0x1))
       OR ucast (push_bit 26 (signed_drop_bit 2 imm AND 0x3))
       OR ucast (push_bit 20 (signed_drop_bit 0 imm AND 0x3))"

definition DecodeMoprn :: "u32 \<Rightarrow> intx" where
  "DecodeMoprn encoded =
     ucast (0 OR push_bit 4 (drop_bit 30 encoded AND 0x1)
              OR push_bit 2 (drop_bit 26 encoded AND 0x3)
              OR push_bit 0 (drop_bit 20 encoded AND 0x3))"

definition IsMoprrn :: "intx \<Rightarrow> bool" where
  "IsMoprrn imm = IsUint 3 imm"

definition EncodeMoprrn :: "intx \<Rightarrow> u32" where
  "EncodeMoprrn imm =
     0 OR ucast (push_bit 30 (signed_drop_bit 2 imm AND 0x1))
       OR ucast (push_bit 26 (signed_drop_bit 0 imm AND 0x3))"

definition DecodeMoprrn :: "u32 \<Rightarrow> intx" where
  "DecodeMoprrn encoded =
     ucast (0 OR push_bit 2 (drop_bit 30 encoded AND 0x1)
              OR push_bit 0 (drop_bit 26 encoded AND 0x3))"

definition IsCInstruction :: "u16 \<Rightarrow> bool" where
  "IsCInstruction parcel = (parcel AND 3 \<noteq> 3)"

section \<open>class Instr\<close>

datatype memory_order =
  memory_order_relaxed | memory_order_acquire | memory_order_release | memory_order_acq_rel

definition Instr_opcode :: "u32 \<Rightarrow> u32" where "Instr_opcode = DecodeOpcode"
definition Instr_rd :: "u32 \<Rightarrow> Register" where "Instr_rd = DecodeRd"
definition Instr_rs1 :: "u32 \<Rightarrow> Register" where "Instr_rs1 = DecodeRs1"
definition Instr_rs2 :: "u32 \<Rightarrow> Register" where "Instr_rs2 = DecodeRs2"
definition Instr_funct3 :: "u32 \<Rightarrow> u32" where "Instr_funct3 = DecodeFunct3"
definition Instr_funct5 :: "u32 \<Rightarrow> u32" where "Instr_funct5 = DecodeFunct5"
definition Instr_funct7 :: "u32 \<Rightarrow> u32" where "Instr_funct7 = DecodeFunct7"
definition Instr_funct12 :: "u32 \<Rightarrow> u32" where "Instr_funct12 = DecodeFunct12"
definition Instr_shamt :: "u32 \<Rightarrow> u32" where "Instr_shamt = DecodeShamt"
definition Instr_itype_imm :: "u32 \<Rightarrow> intx" where "Instr_itype_imm = DecodeITypeImm"
definition Instr_stype_imm :: "u32 \<Rightarrow> intx" where "Instr_stype_imm = DecodeSTypeImm"
definition Instr_btype_imm :: "u32 \<Rightarrow> intx" where "Instr_btype_imm = DecodeBTypeImm"
definition Instr_utype_imm :: "u32 \<Rightarrow> intx" where "Instr_utype_imm = DecodeUTypeImm"
definition Instr_jtype_imm :: "u32 \<Rightarrow> intx" where "Instr_jtype_imm = DecodeJTypeImm"
definition Instr_csr :: "u32 \<Rightarrow> u32" where "Instr_csr encoding = drop_bit 20 encoding"
definition Instr_zimm :: "u32 \<Rightarrow> u32" where "Instr_zimm encoding = ucast (Instr_rs1 encoding)"

definition Instr_funct6 :: "u32 \<Rightarrow> u32" where "Instr_funct6 encoding = drop_bit 26 encoding AND 0x3F"
definition Instr_vm :: "u32 \<Rightarrow> bool" where "Instr_vm encoding = (encoding AND push_bit 25 1 = 0)"
definition Instr_memory_order :: "u32 \<Rightarrow> memory_order" where
  "Instr_memory_order encoding =
     (let acquire = (drop_bit 26 encoding AND 1 \<noteq> 0);
          release = (drop_bit 25 encoding AND 1 \<noteq> 0)
      in if acquire \<and> release then memory_order_acq_rel
         else if acquire then memory_order_acquire
         else if release then memory_order_release
         else memory_order_relaxed)"

section \<open>Instruction words\<close>

text \<open>The words that the \<open>EmitRType\<close>, \<open>EmitIType\<close>, \dots, \<open>EmitJType\<close> methods of the assembler
  build before they hand them to \<open>Emit32\<close>.\<close>

definition RTypeWord :: "u32 \<Rightarrow> Register \<Rightarrow> Register \<Rightarrow> u32 \<Rightarrow> Register \<Rightarrow> u32 \<Rightarrow> u32" where
  "RTypeWord funct7 rs2 rs1 funct3 rd opcode =
     0 OR EncodeFunct7 funct7 OR EncodeRs2 rs2 OR EncodeRs1 rs1 OR EncodeFunct3 funct3
       OR EncodeRd rd OR EncodeOpcode opcode"

definition RTypeShamtWord :: "u32 \<Rightarrow> intx \<Rightarrow> Register \<Rightarrow> u32 \<Rightarrow> Register \<Rightarrow> u32 \<Rightarrow> u32" where
  "RTypeShamtWord funct7 shamt rs1 funct3 rd opcode =
     0 OR EncodeFunct7 funct7 OR EncodeShamt (ucast shamt) OR EncodeRs1 rs1 OR EncodeFunct3 funct3
       OR EncodeRd rd OR EncodeOpcode opcode"

definition ITypeFunct12Word :: "u32 \<Rightarrow> Register \<Rightarrow> u32 \<Rightarrow> Register \<Rightarrow> u32 \<Rightarrow> u32" where
  "ITypeFunct12Word funct12 rs1 funct3 rd opcode =
     0 OR EncodeFunct12 funct12 OR EncodeRs1 rs1 OR EncodeFunct3 funct3 OR EncodeRd rd
       OR EncodeOpcode opcode"

definition ITypeWord :: "intx \<Rightarrow> Register \<Rightarrow> u32 \<Rightarrow> Register \<Rightarrow> u32 \<Rightarrow> u32" where
  "ITypeWord imm rs1 funct3 rd opcode =
     0 OR EncodeITypeImm imm OR EncodeRs1 rs1 OR EncodeFunct3 funct3 OR EncodeRd rd
       OR EncodeOpcode opcode"

definition STypeWord :: "intx \<Rightarrow> Register \<Rightarrow> Register \<Rightarrow> u32 \<Rightarrow> u32 \<Rightarrow> u32" where
  "STypeWord imm rs2 rs1 funct3 opcode =
     0 OR EncodeSTypeImm imm OR EncodeRs2 rs2 OR EncodeRs1 rs1 OR EncodeFunct3 funct3
       OR EncodeOpcode opcode"

definition BTypeWord :: "intx \<Rightarrow> Register \<Rightarrow> Register \<Rightarrow> u32 \<Rightarrow> u32 \<Rightarrow> u32" where
  "BTypeWord imm rs2 rs1 funct3 opcode =
     0 OR EncodeBTypeImm imm OR EncodeRs2 rs2 OR EncodeRs1 rs1 OR EncodeFunct3 funct3
       OR EncodeOpcode opcode"

definition UTypeWord :: "intx \<Rightarrow> Register \<Rightarrow> u32 \<Rightarrow> u32" where
  "UTypeWord imm rd opcode = 0 OR EncodeUTypeImm imm OR EncodeRd rd OR EncodeOpcode opcode"

definition JTypeWord :: "intx \<Rightarrow> Register \<Rightarrow> u32 \<Rightarrow> u32" where
  "JTypeWord imm rd opcode = 0 OR EncodeJTypeImm imm OR EncodeRd rd OR EncodeOpcode opcode"

section \<open>Decoding an encoded word\<close>

lemmas Instr_defs =
  Instr_opcode_def Instr_rd_def Instr_rs1_def Instr_rs2_def Instr_funct3_def Instr_funct5_def
  Instr_funct7_def Instr_funct12_def Instr_shamt_def Instr_itype_imm_def Instr_stype_imm_def
  Instr_btype_imm_def Instr_utype_imm_def Instr_jtype_imm_def

lemmas Is_field_defs [rv_consts] =
  IsOpcode_def IsFunct3_def IsFunct5_def IsFunct7_def IsFunct12_def IsShamt_def

lemmas field_codec_defs =
  EncodeRd_def DecodeRd_def EncodeRs1_def DecodeRs1_def EncodeRs2_def DecodeRs2_def
  EncodeOpcode_def DecodeOpcode_def EncodeFunct3_def DecodeFunct3_def
  EncodeFunct7_def DecodeFunct7_def EncodeFunct12_def DecodeFunct12_def
  EncodeShamt_def DecodeShamt_def

lemma Is_field_take_bit:
  "IsOpcode f \<longleftrightarrow> take_bit 7 f = f" "IsFunct3 f \<longleftrightarrow> take_bit 3 f = f"
  "IsFunct5 f \<longleftrightarrow> take_bit 5 f = f" "IsFunct7 f \<longleftrightarrow> take_bit 7 f = f"
  "IsFunct12 f \<longleftrightarrow> take_bit 12 f = f" "IsShamt f \<longleftrightarrow> take_bit 6 f = f"
  by (simp_all add: Is_field_defs and_numeral_take_bit)

lemma SignExtend_eq:
  "0 < N \<Longrightarrow> N \<le> 32 \<Longrightarrow> SignExtend N v = signed_take_bit (N - 1) v"
  using shift_pair_signed_take_bit [of N v] by (simp add: SignExtend_def)

lemma SignExtend_fields:
  assumes "0 < N" "N \<le> 32" "\<And>i. i < N \<Longrightarrow> bit v i \<longleftrightarrow> bit (x :: intx) i"
  shows "scast (SignExtend N v) = signed_take_bit (N - 1) x"
proof -
  have "scast (SignExtend N v) = signed_take_bit (N - 1) (ucast v :: intx)"
    using assms(1,2) by (simp add: SignExtend_eq scast_signed_take_bit_32)
  also have "\<dots> = signed_take_bit (N - 1) x"
    by (rule signed_take_bit_cong) (use assms in \<open>auto simp: bit_simps\<close>)
  finally show ?thesis .
qed

lemma RTypeWord_decode:
  assumes "IsFunct7 f7" "IsFunct3 f3" "IsOpcode opc"
  shows "DecodeOpcode (RTypeWord f7 rs2 rs1 f3 rd opc) = opc"
    and "DecodeRd (RTypeWord f7 rs2 rs1 f3 rd opc) = rd"
    and "DecodeFunct3 (RTypeWord f7 rs2 rs1 f3 rd opc) = f3"
    and "DecodeRs1 (RTypeWord f7 rs2 rs1 f3 rd opc) = rs1"
    and "DecodeRs2 (RTypeWord f7 rs2 rs1 f3 rd opc) = rs2"
    and "DecodeFunct7 (RTypeWord f7 rs2 rs1 f3 rd opc) = f7"
proof -
  obtain g7 g3 gopc where eqs: "f7 = take_bit 7 g7" "f3 = take_bit 3 g3" "opc = take_bit 7 gopc"
    using assms unfolding Is_field_take_bit by metis
  show "DecodeOpcode (RTypeWord f7 rs2 rs1 f3 rd opc) = opc"
    "DecodeRd (RTypeWord f7 rs2 rs1 f3 rd opc) = rd"
    "DecodeFunct3 (RTypeWord f7 rs2 rs1 f3 rd opc) = f3"
    "DecodeRs1 (RTypeWord f7 rs2 rs1 f3 rd opc) = rs1"
    "DecodeRs2 (RTypeWord f7 rs2 rs1 f3 rd opc) = rs2"
    "DecodeFunct7 (RTypeWord f7 rs2 rs1 f3 rd opc) = f7"
    unfolding eqs RTypeWord_def field_codec_defs
    by (simp_all add: rv_fields del: One_nat_def)
qed

lemma RTypeShamtWord_decode:
  assumes "IsFunct7 f7" "IsFunct3 f3" "IsOpcode opc" "IsShamt (ucast shamt)" "\<not> bit f7 0"
  shows "DecodeOpcode (RTypeShamtWord f7 shamt rs1 f3 rd opc) = opc"
    and "DecodeRd (RTypeShamtWord f7 shamt rs1 f3 rd opc) = rd"
    and "DecodeFunct3 (RTypeShamtWord f7 shamt rs1 f3 rd opc) = f3"
    and "DecodeRs1 (RTypeShamtWord f7 shamt rs1 f3 rd opc) = rs1"
    and "DecodeShamt (RTypeShamtWord f7 shamt rs1 f3 rd opc) = ucast shamt"
proof -
  have f7: "EncodeFunct7 f7 = push_bit 26 (take_bit 6 (drop_bit 1 f7))"
  proof (rule bit_word_eqI)
    fix n
    have "bit f7 (n - 25) \<longleftrightarrow> n - 25 < 7 \<and> bit f7 (n - 25)"
      using assms(1) unfolding Is_field_take_bit by (metis bit_take_bit_iff)
    moreover have "0 < n - 25" if "bit f7 (n - 25)" using assms(5) that by (cases "n - 25") auto
    ultimately show "bit (EncodeFunct7 f7) n \<longleftrightarrow>
        bit (push_bit 26 (take_bit 6 (drop_bit 1 f7))) n"
      unfolding EncodeFunct7_def
      by (cases "26 \<le> n") (auto simp: bit_simps Suc_diff_le [symmetric])
  qed
  obtain g3 gopc sh where eqs: "f3 = take_bit 3 g3" "opc = take_bit 7 gopc"
      "(ucast shamt :: u32) = take_bit 6 sh"
    using assms(2-4) unfolding Is_field_take_bit by metis
  show "DecodeOpcode (RTypeShamtWord f7 shamt rs1 f3 rd opc) = opc"
    "DecodeRd (RTypeShamtWord f7 shamt rs1 f3 rd opc) = rd"
    "DecodeFunct3 (RTypeShamtWord f7 shamt rs1 f3 rd opc) = f3"
    "DecodeRs1 (RTypeShamtWord f7 shamt rs1 f3 rd opc) = rs1"
    "DecodeShamt (RTypeShamtWord f7 shamt rs1 f3 rd opc) = ucast shamt"
    unfolding RTypeShamtWord_def f7 unfolding eqs field_codec_defs
    by (simp_all add: rv_fields del: One_nat_def)
qed

lemma RTypeShamtWord_funct7:
  assumes "IsFunct7 f7" "IsFunct3 f3" "IsOpcode opc" "take_bit 5 (ucast shamt :: u32) = ucast shamt"
  shows "DecodeOpcode (RTypeShamtWord f7 shamt rs1 f3 rd opc) = opc"
    and "DecodeRd (RTypeShamtWord f7 shamt rs1 f3 rd opc) = rd"
    and "DecodeFunct3 (RTypeShamtWord f7 shamt rs1 f3 rd opc) = f3"
    and "DecodeRs1 (RTypeShamtWord f7 shamt rs1 f3 rd opc) = rs1"
    and "DecodeFunct7 (RTypeShamtWord f7 shamt rs1 f3 rd opc) = f7"
proof -
  obtain g7 g3 gopc sh where eqs: "f7 = take_bit 7 g7" "f3 = take_bit 3 g3" "opc = take_bit 7 gopc"
      "(ucast shamt :: u32) = take_bit 5 sh"
    using assms unfolding Is_field_take_bit by metis
  show "DecodeOpcode (RTypeShamtWord f7 shamt rs1 f3 rd opc) = opc"
    "DecodeRd (RTypeShamtWord f7 shamt rs1 f3 rd opc) = rd"
    "DecodeFunct3 (RTypeShamtWord f7 shamt rs1 f3 rd opc) = f3"
    "DecodeRs1 (RTypeShamtWord f7 shamt rs1 f3 rd opc) = rs1"
    "DecodeFunct7 (RTypeShamtWord f7 shamt rs1 f3 rd opc) = f7"
    unfolding RTypeShamtWord_def eqs field_codec_defs
    by (simp_all add: rv_fields del: One_nat_def)
qed

lemma RTypeShamtWord_funct7_masked:
  assumes "IsFunct7 f7" "IsFunct3 f3" "IsOpcode opc" "IsShamt (ucast shamt)" "\<not> bit f7 0"
  shows "DecodeFunct7 (RTypeShamtWord f7 shamt rs1 f3 rd opc) AND 126 = f7"
proof (rule bit_word_eqI)
  fix i
  obtain g3 gopc sh where eqs: "f3 = take_bit 3 g3" "opc = take_bit 7 gopc"
      "(ucast shamt :: u32) = take_bit 6 sh"
    using assms(2-4) unfolding Is_field_take_bit by metis
  have b7: "bit f7 i \<longleftrightarrow> i < 7 \<and> bit f7 i"
    using assms(1) unfolding Is_field_take_bit by (metis bit_take_bit_iff)
  have "(126 :: u32) = push_bit 1 (mask 6)" by (simp add: mask_eq_exp_minus_1)
  then have b126: "bit (126 :: u32) i \<longleftrightarrow> 0 < i \<and> i < 7"
    by (auto simp only: bit_push_bit_iff bit_mask_iff) auto
  have hi: "bit (DecodeFunct7 (RTypeShamtWord f7 shamt rs1 f3 rd opc)) i \<longleftrightarrow> bit f7 i"
    if "0 < i" "i < 7"
    using that unfolding RTypeShamtWord_def eqs field_codec_defs
    by (auto simp: bit_simps and_numeral_take_bit dest: bit_imp_le_length)
  show "bit (DecodeFunct7 (RTypeShamtWord f7 shamt rs1 f3 rd opc) AND 126) i \<longleftrightarrow> bit f7 i"
    using b7 b126 hi assms(5) by (cases "i = 0") (auto simp only: bit_and_iff)
qed

lemma ITypeWord_decode_fields:
  assumes "IsFunct3 f3" "IsOpcode opc"
  shows "DecodeOpcode (ITypeWord imm rs1 f3 rd opc) = opc"
    and "DecodeRd (ITypeWord imm rs1 f3 rd opc) = rd"
    and "DecodeFunct3 (ITypeWord imm rs1 f3 rd opc) = f3"
    and "DecodeRs1 (ITypeWord imm rs1 f3 rd opc) = rs1"
proof -
  obtain g3 gopc where eqs: "f3 = take_bit 3 g3" "opc = take_bit 7 gopc"
    using assms unfolding Is_field_take_bit by metis
  show "DecodeOpcode (ITypeWord imm rs1 f3 rd opc) = opc"
    "DecodeRd (ITypeWord imm rs1 f3 rd opc) = rd"
    "DecodeFunct3 (ITypeWord imm rs1 f3 rd opc) = f3"
    "DecodeRs1 (ITypeWord imm rs1 f3 rd opc) = rs1"
    unfolding eqs ITypeWord_def field_codec_defs EncodeITypeImm_def
    by (simp_all add: rv_fields del: One_nat_def)
qed

lemma ITypeWord_decode_imm:
  assumes "IsFunct3 f3" "IsOpcode opc" "IsITypeImm imm"
  shows "DecodeITypeImm (ITypeWord imm rs1 f3 rd opc) = imm"
proof -
  obtain g3 gopc where eqs: "f3 = take_bit 3 g3" "opc = take_bit 7 gopc"
    using assms unfolding Is_field_take_bit by metis
  have "DecodeITypeImm (ITypeWord imm rs1 f3 rd opc) = scast (SignExtend 12 (take_bit 12 (ucast imm)))"
    unfolding eqs ITypeWord_def field_codec_defs EncodeITypeImm_def DecodeITypeImm_def
    by (simp add: rv_fields del: One_nat_def)
  also have "\<dots> = signed_take_bit 11 imm"
    by (simp add: SignExtend_eq scast_signed_take_bit_32 signed_take_bit_ucast_32
        signed_take_bit_ucast_take_bit)
  also have "\<dots> = imm" using assms by (simp add: IsITypeImm_def IsInt_signed_take_bit)
  finally show ?thesis .
qed

lemma ITypeFunct12Word_decode:
  assumes "IsFunct12 f12" "IsFunct3 f3" "IsOpcode opc"
  shows "DecodeOpcode (ITypeFunct12Word f12 rs1 f3 rd opc) = opc"
    and "DecodeRd (ITypeFunct12Word f12 rs1 f3 rd opc) = rd"
    and "DecodeFunct3 (ITypeFunct12Word f12 rs1 f3 rd opc) = f3"
    and "DecodeRs1 (ITypeFunct12Word f12 rs1 f3 rd opc) = rs1"
    and "DecodeFunct12 (ITypeFunct12Word f12 rs1 f3 rd opc) = f12"
proof -
  obtain g12 g3 gopc where eqs: "f12 = take_bit 12 g12" "f3 = take_bit 3 g3" "opc = take_bit 7 gopc"
    using assms unfolding Is_field_take_bit by metis
  show "DecodeOpcode (ITypeFunct12Word f12 rs1 f3 rd opc) = opc"
    "DecodeRd (ITypeFunct12Word f12 rs1 f3 rd opc) = rd"
    "DecodeFunct3 (ITypeFunct12Word f12 rs1 f3 rd opc) = f3"
    "DecodeRs1 (ITypeFunct12Word f12 rs1 f3 rd opc) = rs1"
    "DecodeFunct12 (ITypeFunct12Word f12 rs1 f3 rd opc) = f12"
    unfolding eqs ITypeFunct12Word_def field_codec_defs
    by (simp_all add: rv_fields del: One_nat_def)
qed

lemma STypeWord_decode_fields:
  assumes "IsFunct3 f3" "IsOpcode opc"
  shows "DecodeOpcode (STypeWord imm rs2 rs1 f3 opc) = opc"
    and "DecodeRs2 (STypeWord imm rs2 rs1 f3 opc) = rs2"
    and "DecodeFunct3 (STypeWord imm rs2 rs1 f3 opc) = f3"
    and "DecodeRs1 (STypeWord imm rs2 rs1 f3 opc) = rs1"
proof -
  obtain g3 gopc where eqs: "f3 = take_bit 3 g3" "opc = take_bit 7 gopc"
    using assms unfolding Is_field_take_bit by metis
  show "DecodeOpcode (STypeWord imm rs2 rs1 f3 opc) = opc"
    "DecodeRs2 (STypeWord imm rs2 rs1 f3 opc) = rs2"
    "DecodeFunct3 (STypeWord imm rs2 rs1 f3 opc) = f3"
    "DecodeRs1 (STypeWord imm rs2 rs1 f3 opc) = rs1"
    unfolding eqs STypeWord_def field_codec_defs EncodeSTypeImm_def
    by (simp_all add: rv_fields del: One_nat_def)
qed

lemma STypeWord_decode_imm:
  assumes "IsFunct3 f3" "IsOpcode opc" "IsSTypeImm imm"
  shows "DecodeSTypeImm (STypeWord imm rs2 rs1 f3 opc) = imm"
proof -
  obtain g3 gopc where eqs: "f3 = take_bit 3 g3" "opc = take_bit 7 gopc"
    using assms unfolding Is_field_take_bit by metis
  have "DecodeSTypeImm (STypeWord imm rs2 rs1 f3 opc) =
      scast (SignExtend 12 (push_bit 5 (take_bit 7 (drop_bit 5 (ucast imm))) OR take_bit 5 (ucast imm)))"
    unfolding eqs STypeWord_def field_codec_defs EncodeSTypeImm_def DecodeSTypeImm_def
    by (simp add: rv_fields del: One_nat_def)
  also have "\<dots> = signed_take_bit (12 - 1) imm"
    by (rule SignExtend_fields) (auto simp only: bit_or_iff bit_field_in_place bit_take_bit_iff bit_ucast_32)
  also have "\<dots> = imm" using assms by (simp add: IsSTypeImm_def IsInt_signed_take_bit)
  finally show ?thesis .
qed

lemma BTypeWord_decode_fields:
  assumes "IsFunct3 f3" "IsOpcode opc"
  shows "DecodeOpcode (BTypeWord imm rs2 rs1 f3 opc) = opc"
    and "DecodeRs2 (BTypeWord imm rs2 rs1 f3 opc) = rs2"
    and "DecodeFunct3 (BTypeWord imm rs2 rs1 f3 opc) = f3"
    and "DecodeRs1 (BTypeWord imm rs2 rs1 f3 opc) = rs1"
proof -
  obtain g3 gopc where eqs: "f3 = take_bit 3 g3" "opc = take_bit 7 gopc"
    using assms unfolding Is_field_take_bit by metis
  show "DecodeOpcode (BTypeWord imm rs2 rs1 f3 opc) = opc"
    "DecodeRs2 (BTypeWord imm rs2 rs1 f3 opc) = rs2"
    "DecodeFunct3 (BTypeWord imm rs2 rs1 f3 opc) = f3"
    "DecodeRs1 (BTypeWord imm rs2 rs1 f3 opc) = rs1"
    unfolding eqs BTypeWord_def field_codec_defs EncodeBTypeImm_def
    by (simp_all add: rv_fields del: One_nat_def)
qed

lemma IsAligned_2: "IsAligned imm 2 0 \<longleftrightarrow> \<not> bit imm 0"
  by (simp add: IsAligned_def and_one_eq bit_0 even_iff_mod_2_eq_zero odd_iff_mod_2_eq_one)

lemma BTypeWord_decode_imm:
  assumes "IsFunct3 f3" "IsOpcode opc" "IsBTypeImm imm"
  shows "DecodeBTypeImm (BTypeWord imm rs2 rs1 f3 opc) = imm"
proof -
  obtain g3 gopc where eqs: "f3 = take_bit 3 g3" "opc = take_bit 7 gopc"
    using assms unfolding Is_field_take_bit by metis
  have "DecodeBTypeImm (BTypeWord imm rs2 rs1 f3 opc) =
      scast (SignExtend 12 (push_bit 12 (take_bit 1 (drop_bit 12 (ucast imm)))
        OR push_bit 5 (take_bit 6 (drop_bit 5 (ucast imm)))
        OR push_bit 1 (take_bit 4 (drop_bit 1 (ucast imm)))
        OR push_bit 11 (take_bit 1 (drop_bit 11 (ucast imm)))))"
    unfolding eqs BTypeWord_def field_codec_defs EncodeBTypeImm_def DecodeBTypeImm_def
    by (simp add: rv_fields del: One_nat_def)
  also have "\<dots> = signed_take_bit (12 - 1) imm"
    by (rule SignExtend_fields)
      (use assms(3) in \<open>auto simp only: IsBTypeImm_def IsAligned_2 bit_or_iff bit_field_in_place
         bit_ucast_32 dest: even_bit_pos\<close>)
  also have "\<dots> = imm" using assms by (simp add: IsBTypeImm_def IsInt_signed_take_bit)
  finally show ?thesis .
qed

lemma UTypeWord_decode:
  assumes "IsOpcode opc" "IsUTypeImm imm"
  shows "DecodeOpcode (UTypeWord imm rd opc) = opc"
    and "DecodeRd (UTypeWord imm rd opc) = rd"
    and "DecodeUTypeImm (UTypeWord imm rd opc) = imm"
proof -
  obtain gopc where opc: "opc = take_bit 7 gopc"
    using assms(1) unfolding Is_field_take_bit by metis
  have low: "\<not> bit imm i" if "i < 12" for i
  proof -
    have "take_bit 12 imm = 0"
      using assms(2) by (simp add: IsUTypeImm_def IsAligned_def take_bit_eq_mask mask_eq_exp_minus_1)
    then show ?thesis using that by (metis bit_0_eq bit_take_bit_iff bot_apply bot_bool_def)
  qed
  have enc: "EncodeUTypeImm imm = push_bit 12 (take_bit 20 (drop_bit 12 (ucast imm)))"
  proof (rule bit_word_eqI)
    fix i
    show "bit (EncodeUTypeImm imm) i \<longleftrightarrow> bit (push_bit 12 (take_bit 20 (drop_bit 12 (ucast imm))) :: u32) i"
      using low [of i]
      by (auto simp add: EncodeUTypeImm_def bit_field_in_place bit_ucast_32 not_less [symmetric])
  qed
  show "DecodeOpcode (UTypeWord imm rd opc) = opc" "DecodeRd (UTypeWord imm rd opc) = rd"
    unfolding opc UTypeWord_def enc field_codec_defs
    by (simp_all add: rv_fields del: One_nat_def)
  have bits: "bit (UTypeWord imm rd opc AND NOT (push_bit 12 1 - 1)) i \<longleftrightarrow> bit imm i" if "i < 32" for i
  proof -
    have "(push_bit 12 1 - 1 :: u32) = mask 12" by (simp add: mask_eq_exp_minus_1)
    then have "bit (NOT (push_bit 12 1 - 1) :: u32) i \<longleftrightarrow> 12 \<le> i"
      using that by (simp only: bit_not_iff bit_mask_iff) auto
    then show ?thesis using that low [of i]
      unfolding opc UTypeWord_def field_codec_defs EncodeUTypeImm_def
      by (auto simp: bit_simps not_less [symmetric] dest: bit_imp_le_length)
  qed
  have "DecodeUTypeImm (UTypeWord imm rd opc) = signed_take_bit (32 - 1) imm"
    unfolding DecodeUTypeImm_def by (rule SignExtend_fields [OF _ _ bits]) simp_all
  then show "DecodeUTypeImm (UTypeWord imm rd opc) = imm"
    using assms(2) by (simp add: IsUTypeImm_def IsInt_signed_take_bit)
qed

lemma JTypeWord_decode:
  assumes "IsOpcode opc"
  shows "DecodeOpcode (JTypeWord imm rd opc) = opc"
    and "DecodeRd (JTypeWord imm rd opc) = rd"
proof -
  obtain gopc where opc: "opc = take_bit 7 gopc"
    using assms(1) unfolding Is_field_take_bit by metis
  show "DecodeOpcode (JTypeWord imm rd opc) = opc" "DecodeRd (JTypeWord imm rd opc) = rd"
    unfolding opc JTypeWord_def EncodeJTypeImm_def field_codec_defs
    by (simp_all add: rv_fields del: One_nat_def)
qed

lemma JTypeWord_decode_imm:
  assumes "IsOpcode opc" "IsJTypeImm imm"
  shows "DecodeJTypeImm (JTypeWord imm rd opc) = imm"
proof -
  obtain gopc where opc: "opc = take_bit 7 gopc"
    using assms(1) unfolding Is_field_take_bit by metis
  have "DecodeJTypeImm (JTypeWord imm rd opc) =
      scast (SignExtend 20 (push_bit 20 (take_bit 1 (drop_bit 20 (ucast imm)))
        OR push_bit 1 (take_bit 10 (drop_bit 1 (ucast imm)))
        OR push_bit 11 (take_bit 1 (drop_bit 11 (ucast imm)))
        OR push_bit 12 (take_bit 8 (drop_bit 12 (ucast imm)))))"
    unfolding opc JTypeWord_def field_codec_defs EncodeJTypeImm_def DecodeJTypeImm_def
    by (simp add: rv_fields del: One_nat_def)
  also have "\<dots> = signed_take_bit (20 - 1) imm"
    by (rule SignExtend_fields)
      (use assms(2) in \<open>auto simp only: IsJTypeImm_def IsAligned_2 bit_or_iff bit_field_in_place
         bit_ucast_32 dest: even_bit_pos\<close>)
  also have "\<dots> = imm" using assms by (simp add: IsJTypeImm_def IsInt_signed_take_bit)
  finally show ?thesis .
qed

section \<open>Splitting an immediate into a high and a low part\<close>

lemma ImmLo_eq: "ImmLo imm = signed_take_bit 11 imm"
  using shift_pair_signed_take_bit [of 12 imm] by (simp add: ImmLo_def)

lemma ImmHi_eq: "ImmHi imm = signed_take_bit 31 (imm - ImmLo imm)"
  using shift_pair_signed_take_bit [of 32 "imm - ImmLo imm"] by (simp add: ImmHi_def)

lemma sint_ImmLo: "sint (ImmLo imm) = signed_take_bit 11 (sint imm)"
  by (simp add: ImmLo_eq sint_signed_take_bit)

lemma ImmLo_bounds: "- 2048 \<le> sint (ImmLo imm)" "sint (ImmLo imm) < 2048"
  using signed_take_bit_int_greater_eq_minus_exp [of 11 "sint imm"]
    signed_take_bit_int_less_exp [of 11 "sint imm"] by (simp_all add: sint_ImmLo)

lemma IsITypeImm_ImmLo [simp]: "IsITypeImm (ImmLo imm)"
  using ImmLo_bounds [of imm] by (simp add: IsITypeImm_def IsInt_iff)

lemma ImmHi_low_bits: "take_bit 12 (ImmHi imm) = 0"
proof -
  have "take_bit 12 (ImmLo imm) = take_bit 12 imm"
    by (simp add: ImmLo_eq take_bit_signed_take_bit)
  then have "take_bit 12 (imm - ImmLo imm) = 0"
    by (intro take_bit_diff_zero) simp_all
  moreover have "take_bit 12 (ImmHi imm) = take_bit 12 (imm - ImmLo imm)"
    by (simp add: ImmHi_eq take_bit_signed_take_bit)
  ultimately show ?thesis by simp
qed

lemma IsUTypeImm_ImmHi [simp]: "IsUTypeImm (ImmHi imm)"
proof -
  have "signed_take_bit 31 (ImmHi imm) = ImmHi imm"
    by (simp add: ImmHi_eq)
  moreover have "ImmHi imm AND 4095 = 0"
    using ImmHi_low_bits [of imm] by (simp add: and_numeral_take_bit)
  ultimately show ?thesis
    by (simp add: IsUTypeImm_def IsInt_signed_take_bit IsAligned_def)
qed

end
