(* ===== verification/RiscvCEncoding.thy ===== *)
theory RiscvCEncoding
  imports RiscvEncoding
begin

text \<open>
  The 16-bit (compressed) instruction format of \<^verbatim>\<open>runtime/vm/constants_riscv.h\<close>: the
  \<open>COpcode\<close> enumeration with its masks, the fields, the immediates of the load, store, branch and
  arithmetic forms, the accessors of \<open>class CInstr\<close>, and the extension sets. As for the 32-bit
  format, an \<open>Is\<close> test delimits the values for which \<open>Encode\<close> followed by \<open>Decode\<close> is the
  identity; a field decodes to what was encoded in the 16-bit parcel that holds all of them.
\<close>

section \<open>Registers of compressed instructions\<close>

definition EncodeCRd :: "Register \<Rightarrow> u32" where "EncodeCRd r = push_bit 7 (ucast r)"
definition DecodeCRd :: "u32 \<Rightarrow> Register" where "DecodeCRd e = ucast (drop_bit 7 e AND 31)"
definition EncodeCRs1 :: "Register \<Rightarrow> u32" where "EncodeCRs1 r = push_bit 7 (ucast r)"
definition DecodeCRs1 :: "u32 \<Rightarrow> Register" where "DecodeCRs1 e = ucast (drop_bit 7 e AND 31)"
definition EncodeCRs2 :: "Register \<Rightarrow> u32" where "EncodeCRs2 r = push_bit 2 (ucast r)"
definition DecodeCRs2 :: "u32 \<Rightarrow> Register" where "DecodeCRs2 e = ucast (drop_bit 2 e AND 31)"

definition IsCRdp :: "Register \<Rightarrow> bool" where "IsCRdp r = (r \<ge> 8 \<and> r < 16)"
definition EncodeCRdp :: "Register \<Rightarrow> u32" where "EncodeCRdp r = push_bit 2 (ucast r AND 7)"
definition DecodeCRdp :: "u32 \<Rightarrow> Register" where "DecodeCRdp e = ucast ((drop_bit 2 e AND 7) + 8)"
definition IsCRs1p :: "Register \<Rightarrow> bool" where "IsCRs1p r = (r \<ge> 8 \<and> r < 16)"
definition EncodeCRs1p :: "Register \<Rightarrow> u32" where "EncodeCRs1p r = push_bit 7 (ucast r AND 7)"
definition DecodeCRs1p :: "u32 \<Rightarrow> Register" where "DecodeCRs1p e = ucast ((drop_bit 7 e AND 7) + 8)"
definition IsCRs2p :: "Register \<Rightarrow> bool" where "IsCRs2p r = (r \<ge> 8 \<and> r < 16)"
definition EncodeCRs2p :: "Register \<Rightarrow> u32" where "EncodeCRs2p r = push_bit 2 (ucast r AND 7)"
definition DecodeCRs2p :: "u32 \<Rightarrow> Register" where "DecodeCRs2p e = ucast ((drop_bit 2 e AND 7) + 8)"

section \<open>Immediates of compressed instructions\<close>

definition IsCSPLoad4Imm :: "intx \<Rightarrow> bool" where
  "IsCSPLoad4Imm imm = (IsUint 8 imm \<and> IsAligned imm 4 0)"

definition EncodeCSPLoad4Imm :: "intx \<Rightarrow> u32" where
  "EncodeCSPLoad4Imm imm =
     0 OR ucast (push_bit 12 (signed_drop_bit 5 imm AND 0x1))
       OR ucast (push_bit 4 (signed_drop_bit 2 imm AND 0x7))
       OR ucast (push_bit 2 (signed_drop_bit 6 imm AND 0x3))"

definition DecodeCSPLoad4Imm :: "u32 \<Rightarrow> intx" where
  "DecodeCSPLoad4Imm encoding =
     (let imm = 0 OR push_bit 5 (drop_bit 12 encoding AND 0x1)
                  OR push_bit 2 (drop_bit 4 encoding AND 0x7)
                  OR push_bit 6 (drop_bit 2 encoding AND 0x3)
      in ucast imm)"

definition IsCSPLoad8Imm :: "intx \<Rightarrow> bool" where
  "IsCSPLoad8Imm imm = (IsUint 9 imm \<and> IsAligned imm 8 0)"

definition EncodeCSPLoad8Imm :: "intx \<Rightarrow> u32" where
  "EncodeCSPLoad8Imm imm =
     0 OR ucast (push_bit 12 (signed_drop_bit 5 imm AND 0x1))
       OR ucast (push_bit 5 (signed_drop_bit 3 imm AND 0x3))
       OR ucast (push_bit 2 (signed_drop_bit 6 imm AND 0x7))"

definition DecodeCSPLoad8Imm :: "u32 \<Rightarrow> intx" where
  "DecodeCSPLoad8Imm encoding =
     (let imm = 0 OR push_bit 5 (drop_bit 12 encoding AND 0x1)
                  OR push_bit 3 (drop_bit 5 encoding AND 0x3)
                  OR push_bit 6 (drop_bit 2 encoding AND 0x7)
      in ucast imm)"

definition IsCSPStore4Imm :: "intx \<Rightarrow> bool" where
  "IsCSPStore4Imm imm = (IsUint 8 imm \<and> IsAligned imm 4 0)"

definition EncodeCSPStore4Imm :: "intx \<Rightarrow> u32" where
  "EncodeCSPStore4Imm imm =
     0 OR ucast (push_bit 9 (signed_drop_bit 2 imm AND 0xF))
       OR ucast (push_bit 7 (signed_drop_bit 6 imm AND 0x3))"

definition DecodeCSPStore4Imm :: "u32 \<Rightarrow> intx" where
  "DecodeCSPStore4Imm encoding =
     (let imm = 0 OR push_bit 2 (drop_bit 9 encoding AND 0xF)
                  OR push_bit 6 (drop_bit 7 encoding AND 0x3)
      in ucast imm)"

definition IsCSPStore8Imm :: "intx \<Rightarrow> bool" where
  "IsCSPStore8Imm imm = (IsUint 9 imm \<and> IsAligned imm 8 0)"

definition EncodeCSPStore8Imm :: "intx \<Rightarrow> u32" where
  "EncodeCSPStore8Imm imm =
     0 OR ucast (push_bit 10 (signed_drop_bit 3 imm AND 0x7))
       OR ucast (push_bit 7 (signed_drop_bit 6 imm AND 0x7))"

definition DecodeCSPStore8Imm :: "u32 \<Rightarrow> intx" where
  "DecodeCSPStore8Imm encoding =
     (let imm = 0 OR push_bit 3 (drop_bit 10 encoding AND 0x7)
                  OR push_bit 6 (drop_bit 7 encoding AND 0x7)
      in ucast imm)"

definition IsCMem1Imm :: "intx \<Rightarrow> bool" where
  "IsCMem1Imm imm = (IsUint 2 imm \<and> IsAligned imm 1 0)"

definition EncodeCMem1Imm :: "intx \<Rightarrow> u32" where
  "EncodeCMem1Imm imm =
     0 OR ucast (push_bit 5 (signed_drop_bit 1 imm AND 0x1))
       OR ucast (push_bit 6 (signed_drop_bit 0 imm AND 0x1))"

definition DecodeCMem1Imm :: "u32 \<Rightarrow> intx" where
  "DecodeCMem1Imm encoding =
     (let imm = 0 OR push_bit 1 (drop_bit 5 encoding AND 0x1)
                  OR push_bit 0 (drop_bit 6 encoding AND 0x1)
      in ucast imm)"

definition IsCMem2Imm :: "intx \<Rightarrow> bool" where
  "IsCMem2Imm imm = (IsUint 2 imm \<and> IsAligned imm 2 0)"

definition EncodeCMem2Imm :: "intx \<Rightarrow> u32" where
  "EncodeCMem2Imm imm =
     0 OR ucast (push_bit 5 (signed_drop_bit 1 imm AND 0x1))"

definition DecodeCMem2Imm :: "u32 \<Rightarrow> intx" where
  "DecodeCMem2Imm encoding =
     (let imm = 0 OR push_bit 1 (drop_bit 5 encoding AND 0x1)
      in ucast imm)"

definition IsCMem4Imm :: "intx \<Rightarrow> bool" where
  "IsCMem4Imm imm = (IsUint 7 imm \<and> IsAligned imm 4 0)"

definition EncodeCMem4Imm :: "intx \<Rightarrow> u32" where
  "EncodeCMem4Imm imm =
     0 OR ucast (push_bit 10 (signed_drop_bit 3 imm AND 0x7))
       OR ucast (push_bit 6 (signed_drop_bit 2 imm AND 0x1))
       OR ucast (push_bit 5 (signed_drop_bit 6 imm AND 0x1))"

definition DecodeCMem4Imm :: "u32 \<Rightarrow> intx" where
  "DecodeCMem4Imm encoding =
     (let imm = 0 OR push_bit 3 (drop_bit 10 encoding AND 0x7)
                  OR push_bit 2 (drop_bit 6 encoding AND 0x1)
                  OR push_bit 6 (drop_bit 5 encoding AND 0x1)
      in ucast imm)"

definition IsCMem8Imm :: "intx \<Rightarrow> bool" where
  "IsCMem8Imm imm = (IsUint 8 imm \<and> IsAligned imm 8 0)"

definition EncodeCMem8Imm :: "intx \<Rightarrow> u32" where
  "EncodeCMem8Imm imm =
     0 OR ucast (push_bit 10 (signed_drop_bit 3 imm AND 0x7))
       OR ucast (push_bit 5 (signed_drop_bit 6 imm AND 0x3))"

definition DecodeCMem8Imm :: "u32 \<Rightarrow> intx" where
  "DecodeCMem8Imm encoding =
     (let imm = 0 OR push_bit 3 (drop_bit 10 encoding AND 0x7)
                  OR push_bit 6 (drop_bit 5 encoding AND 0x3)
      in ucast imm)"

definition IsCJImm :: "intx \<Rightarrow> bool" where
  "IsCJImm imm = (IsInt 11 imm \<and> IsAligned imm 2 0)"

definition EncodeCJImm :: "intx \<Rightarrow> u32" where
  "EncodeCJImm imm =
     0 OR ucast (push_bit 12 (signed_drop_bit 11 imm AND 0x1))
       OR ucast (push_bit 11 (signed_drop_bit 4 imm AND 0x1))
       OR ucast (push_bit 9 (signed_drop_bit 8 imm AND 0x3))
       OR ucast (push_bit 8 (signed_drop_bit 10 imm AND 0x1))
       OR ucast (push_bit 7 (signed_drop_bit 6 imm AND 0x1))
       OR ucast (push_bit 6 (signed_drop_bit 7 imm AND 0x1))
       OR ucast (push_bit 3 (signed_drop_bit 1 imm AND 0x7))
       OR ucast (push_bit 2 (signed_drop_bit 5 imm AND 0x1))"

definition DecodeCJImm :: "u32 \<Rightarrow> intx" where
  "DecodeCJImm encoding =
     (let imm = 0 OR push_bit 11 (drop_bit 12 encoding AND 0x1)
                  OR push_bit 4 (drop_bit 11 encoding AND 0x1)
                  OR push_bit 8 (drop_bit 9 encoding AND 0x3)
                  OR push_bit 10 (drop_bit 8 encoding AND 0x1)
                  OR push_bit 6 (drop_bit 7 encoding AND 0x1)
                  OR push_bit 7 (drop_bit 6 encoding AND 0x1)
                  OR push_bit 1 (drop_bit 3 encoding AND 0x7)
                  OR push_bit 5 (drop_bit 2 encoding AND 0x1)
      in scast (SignExtend 11 imm))"

definition IsCBImm :: "intx \<Rightarrow> bool" where
  "IsCBImm imm = (IsInt 8 imm \<and> IsAligned imm 2 0)"

definition EncodeCBImm :: "intx \<Rightarrow> u32" where
  "EncodeCBImm imm =
     0 OR ucast (push_bit 12 (signed_drop_bit 8 imm AND 0x1))
       OR ucast (push_bit 10 (signed_drop_bit 3 imm AND 0x3))
       OR ucast (push_bit 5 (signed_drop_bit 6 imm AND 0x3))
       OR ucast (push_bit 3 (signed_drop_bit 1 imm AND 0x3))
       OR ucast (push_bit 2 (signed_drop_bit 5 imm AND 0x1))"

definition DecodeCBImm :: "u32 \<Rightarrow> intx" where
  "DecodeCBImm encoding =
     (let imm = 0 OR push_bit 8 (drop_bit 12 encoding AND 0x1)
                  OR push_bit 3 (drop_bit 10 encoding AND 0x3)
                  OR push_bit 6 (drop_bit 5 encoding AND 0x3)
                  OR push_bit 1 (drop_bit 3 encoding AND 0x3)
                  OR push_bit 5 (drop_bit 2 encoding AND 0x1)
      in scast (SignExtend 8 imm))"

definition IsCIImm :: "intx \<Rightarrow> bool" where
  "IsCIImm imm = (IsInt 6 imm \<and> IsAligned imm 1 0)"

definition EncodeCIImm :: "intx \<Rightarrow> u32" where
  "EncodeCIImm imm =
     0 OR ucast (push_bit 12 (signed_drop_bit 5 imm AND 0x1))
       OR ucast (push_bit 2 (signed_drop_bit 0 imm AND 0x1F))"

definition DecodeCIImm :: "u32 \<Rightarrow> intx" where
  "DecodeCIImm encoding =
     (let imm = 0 OR push_bit 5 (drop_bit 12 encoding AND 0x1)
                  OR push_bit 0 (drop_bit 2 encoding AND 0x1F)
      in scast (SignExtend 6 imm))"

definition IsCUImm :: "intx \<Rightarrow> bool" where
  "IsCUImm imm = (IsInt 17 imm \<and> IsAligned imm (push_bit 12 1) 0)"

definition EncodeCUImm :: "intx \<Rightarrow> u32" where
  "EncodeCUImm imm =
     0 OR ucast (push_bit 12 (signed_drop_bit 17 imm AND 0x1))
       OR ucast (push_bit 2 (signed_drop_bit 12 imm AND 0x1F))"

definition DecodeCUImm :: "u32 \<Rightarrow> intx" where
  "DecodeCUImm encoding =
     (let imm = 0 OR push_bit 17 (drop_bit 12 encoding AND 0x1)
                  OR push_bit 12 (drop_bit 2 encoding AND 0x1F)
      in scast (SignExtend 17 imm))"

definition IsCI16Imm :: "intx \<Rightarrow> bool" where
  "IsCI16Imm imm = (IsInt 10 imm \<and> IsAligned imm 16 0)"

definition EncodeCI16Imm :: "intx \<Rightarrow> u32" where
  "EncodeCI16Imm imm =
     0 OR ucast (push_bit 12 (signed_drop_bit 9 imm AND 0x1))
       OR ucast (push_bit 6 (signed_drop_bit 4 imm AND 0x1))
       OR ucast (push_bit 5 (signed_drop_bit 6 imm AND 0x1))
       OR ucast (push_bit 3 (signed_drop_bit 7 imm AND 0x3))
       OR ucast (push_bit 2 (signed_drop_bit 5 imm AND 0x1))"

definition DecodeCI16Imm :: "u32 \<Rightarrow> intx" where
  "DecodeCI16Imm encoding =
     (let imm = 0 OR push_bit 9 (drop_bit 12 encoding AND 0x1)
                  OR push_bit 4 (drop_bit 6 encoding AND 0x1)
                  OR push_bit 6 (drop_bit 5 encoding AND 0x1)
                  OR push_bit 7 (drop_bit 3 encoding AND 0x3)
                  OR push_bit 5 (drop_bit 2 encoding AND 0x1)
      in scast (SignExtend 10 imm))"

definition IsCI4SPNImm :: "intx \<Rightarrow> bool" where
  "IsCI4SPNImm imm = (IsUint 9 imm \<and> IsAligned imm 4 0)"

definition EncodeCI4SPNImm :: "intx \<Rightarrow> u32" where
  "EncodeCI4SPNImm imm =
     0 OR ucast (push_bit 11 (signed_drop_bit 4 imm AND 0x3))
       OR ucast (push_bit 7 (signed_drop_bit 6 imm AND 0xF))
       OR ucast (push_bit 6 (signed_drop_bit 2 imm AND 0x1))
       OR ucast (push_bit 5 (signed_drop_bit 3 imm AND 0x1))"

definition DecodeCI4SPNImm :: "u32 \<Rightarrow> intx" where
  "DecodeCI4SPNImm encoding =
     (let imm = 0 OR push_bit 4 (drop_bit 11 encoding AND 0x3)
                  OR push_bit 6 (drop_bit 7 encoding AND 0xF)
                  OR push_bit 2 (drop_bit 6 encoding AND 0x1)
                  OR push_bit 3 (drop_bit 5 encoding AND 0x1)
      in ucast imm)"

definition IsCShamt :: "u32 \<Rightarrow> bool" where
  "IsCShamt imm = (imm < 64)"

definition EncodeCShamt :: "u32 \<Rightarrow> u32" where
  "EncodeCShamt imm =
     0 OR push_bit 12 (drop_bit 5 imm AND 0x1)
       OR push_bit 2 (drop_bit 0 imm AND 0x1F)"

definition DecodeCShamt :: "u32 \<Rightarrow> u32" where
  "DecodeCShamt encoding =
     (let imm = 0 OR push_bit 5 (drop_bit 12 encoding AND 0x1)
                  OR push_bit 0 (drop_bit 2 encoding AND 0x1F)
      in imm)"

definition IsCMopn :: "u32 \<Rightarrow> bool" where
  "IsCMopn imm = (imm < 16 \<and> imm AND 1 = 1)"

definition EncodeCMopn :: "intx \<Rightarrow> u32" where
  "EncodeCMopn imm =
     0 OR ucast (push_bit 7 (signed_drop_bit 0 imm AND 0xF))"

definition DecodeCMopn :: "u32 \<Rightarrow> intx" where
  "DecodeCMopn encoding =
     (let imm = 0 OR push_bit 0 (drop_bit 7 encoding AND 0xF)
      in ucast imm)"

section \<open>enum COpcode\<close>

abbreviation (input) C_OP_MASK :: u32 where "C_OP_MASK \<equiv> 0b1110000000000011"
abbreviation (input) C_ADDI4SPN :: u32 where "C_ADDI4SPN \<equiv> 0b0000000000000000"
abbreviation (input) C_FLD :: u32 where "C_FLD \<equiv> 0b0010000000000000"
abbreviation (input) C_LW :: u32 where "C_LW \<equiv> 0b0100000000000000"
abbreviation (input) C_FLW :: u32 where "C_FLW \<equiv> 0b0110000000000000"
abbreviation (input) C_LD :: u32 where "C_LD \<equiv> 0b0110000000000000"
abbreviation (input) C_FSD :: u32 where "C_FSD \<equiv> 0b1010000000000000"
abbreviation (input) C_SW :: u32 where "C_SW \<equiv> 0b1100000000000000"
abbreviation (input) C_FSW :: u32 where "C_FSW \<equiv> 0b1110000000000000"
abbreviation (input) C_SD :: u32 where "C_SD \<equiv> 0b1110000000000000"
abbreviation (input) C_ADDI :: u32 where "C_ADDI \<equiv> 0b0000000000000001"
abbreviation (input) C_JAL :: u32 where "C_JAL \<equiv> 0b0010000000000001"
abbreviation (input) C_ADDIW :: u32 where "C_ADDIW \<equiv> 0b0010000000000001"
abbreviation (input) C_LI :: u32 where "C_LI \<equiv> 0b0100000000000001"
abbreviation (input) C_ADDI16SP :: u32 where "C_ADDI16SP \<equiv> 0b0110000000000001"
abbreviation (input) C_LUI :: u32 where "C_LUI \<equiv> 0b0110000000000001"
abbreviation (input) C_MISCALU :: u32 where "C_MISCALU \<equiv> 0b1000000000000001"
abbreviation (input) C_MISCALU_MASK :: u32 where "C_MISCALU_MASK \<equiv> 0b1110110000000011"
abbreviation (input) C_SRLI :: u32 where "C_SRLI \<equiv> 0b1000000000000001"
abbreviation (input) C_SRAI :: u32 where "C_SRAI \<equiv> 0b1000010000000001"
abbreviation (input) C_ANDI :: u32 where "C_ANDI \<equiv> 0b1000100000000001"
abbreviation (input) C_RR :: u32 where "C_RR \<equiv> 0b1000110000000001"
abbreviation (input) C_RR_MASK :: u32 where "C_RR_MASK \<equiv> 0b1111110001100011"
abbreviation (input) C_SUB :: u32 where "C_SUB \<equiv> 0b1000110000000001"
abbreviation (input) C_XOR :: u32 where "C_XOR \<equiv> 0b1000110000100001"
abbreviation (input) C_OR :: u32 where "C_OR \<equiv> 0b1000110001000001"
abbreviation (input) C_AND :: u32 where "C_AND \<equiv> 0b1000110001100001"
abbreviation (input) C_SUBW :: u32 where "C_SUBW \<equiv> 0b1001110000000001"
abbreviation (input) C_ADDW :: u32 where "C_ADDW \<equiv> 0b1001110000100001"
abbreviation (input) C_MUL :: u32 where "C_MUL \<equiv> 0b1001110001000001"
abbreviation (input) C_EXT :: u32 where "C_EXT \<equiv> 0b1001110001100001"
abbreviation (input) C_EXT_MASK :: u32 where "C_EXT_MASK \<equiv> 0b1111110001111111"
abbreviation (input) C_ZEXTB :: u32 where "C_ZEXTB \<equiv> 0b1001110001100001"
abbreviation (input) C_SEXTB :: u32 where "C_SEXTB \<equiv> 0b1001110001100101"
abbreviation (input) C_ZEXTH :: u32 where "C_ZEXTH \<equiv> 0b1001110001101001"
abbreviation (input) C_SEXTH :: u32 where "C_SEXTH \<equiv> 0b1001110001101101"
abbreviation (input) C_ZEXTW :: u32 where "C_ZEXTW \<equiv> 0b1001110001110001"
abbreviation (input) C_NOT :: u32 where "C_NOT \<equiv> 0b1001110001110101"
abbreviation (input) C_J :: u32 where "C_J \<equiv> 0b1010000000000001"
abbreviation (input) C_BEQZ :: u32 where "C_BEQZ \<equiv> 0b1100000000000001"
abbreviation (input) C_BNEZ :: u32 where "C_BNEZ \<equiv> 0b1110000000000001"
abbreviation (input) C_SLLI :: u32 where "C_SLLI \<equiv> 0b0000000000000010"
abbreviation (input) C_FLDSP :: u32 where "C_FLDSP \<equiv> 0b0010000000000010"
abbreviation (input) C_LWSP :: u32 where "C_LWSP \<equiv> 0b0100000000000010"
abbreviation (input) C_FLWSP :: u32 where "C_FLWSP \<equiv> 0b0110000000000010"
abbreviation (input) C_LDSP :: u32 where "C_LDSP \<equiv> 0b0110000000000010"
abbreviation (input) C_JR :: u32 where "C_JR \<equiv> 0b1000000000000010"
abbreviation (input) C_MV :: u32 where "C_MV \<equiv> 0b1000000000000010"
abbreviation (input) C_JALR :: u32 where "C_JALR \<equiv> 0b1001000000000010"
abbreviation (input) C_ADD :: u32 where "C_ADD \<equiv> 0b1001000000000010"
abbreviation (input) C_FSDSP :: u32 where "C_FSDSP \<equiv> 0b1010000000000010"
abbreviation (input) C_SWSP :: u32 where "C_SWSP \<equiv> 0b1100000000000010"
abbreviation (input) C_FSWSP :: u32 where "C_FSWSP \<equiv> 0b1110000000000010"
abbreviation (input) C_SDSP :: u32 where "C_SDSP \<equiv> 0b1110000000000010"
abbreviation (input) C_NOP :: u32 where "C_NOP \<equiv> 0b0000000000000001"
abbreviation (input) C_EBREAK :: u32 where "C_EBREAK \<equiv> 0b1001000000000010"
abbreviation (input) C_LBU :: u32 where "C_LBU \<equiv> 0b1000000000000000"
abbreviation (input) C_LH :: u32 where "C_LH \<equiv> 0b1000010001000000"
abbreviation (input) C_LHU :: u32 where "C_LHU \<equiv> 0b1000010000000000"
abbreviation (input) C_SB :: u32 where "C_SB \<equiv> 0b1000100000000000"
abbreviation (input) C_SH :: u32 where "C_SH \<equiv> 0b1000110000000000"
abbreviation (input) C_MOP_MASK :: u32 where "C_MOP_MASK \<equiv> 0b1111100011111111"
abbreviation (input) C_MOP :: u32 where "C_MOP \<equiv> 0b0110000010000001"
abbreviation (input) C_SSPUSH :: u32 where "C_SSPUSH \<equiv> 0b0110000010000001"
abbreviation (input) C_SSPOPCHK :: u32 where "C_SSPOPCHK \<equiv> 0b0110001010000001"

section \<open>class CInstr\<close>

definition CInstr_opcode :: "u16 \<Rightarrow> u32" where "CInstr_opcode encoding = ucast encoding AND C_OP_MASK"
definition CInstr_rd :: "u16 \<Rightarrow> Register" where "CInstr_rd encoding = DecodeCRd (ucast encoding)"
definition CInstr_rs1 :: "u16 \<Rightarrow> Register" where "CInstr_rs1 encoding = DecodeCRd (ucast encoding)"
definition CInstr_rs2 :: "u16 \<Rightarrow> Register" where "CInstr_rs2 encoding = DecodeCRs2 (ucast encoding)"
definition CInstr_rdp :: "u16 \<Rightarrow> Register" where "CInstr_rdp encoding = DecodeCRdp (ucast encoding)"
definition CInstr_rs1p :: "u16 \<Rightarrow> Register" where "CInstr_rs1p encoding = DecodeCRs1p (ucast encoding)"
definition CInstr_rs2p :: "u16 \<Rightarrow> Register" where "CInstr_rs2p encoding = DecodeCRs2p (ucast encoding)"
definition CInstr_spload4_imm :: "u16 \<Rightarrow> intx" where "CInstr_spload4_imm encoding = DecodeCSPLoad4Imm (ucast encoding)"
definition CInstr_spload8_imm :: "u16 \<Rightarrow> intx" where "CInstr_spload8_imm encoding = DecodeCSPLoad8Imm (ucast encoding)"
definition CInstr_spstore4_imm :: "u16 \<Rightarrow> intx" where "CInstr_spstore4_imm encoding = DecodeCSPStore4Imm (ucast encoding)"
definition CInstr_spstore8_imm :: "u16 \<Rightarrow> intx" where "CInstr_spstore8_imm encoding = DecodeCSPStore8Imm (ucast encoding)"
definition CInstr_mem1_imm :: "u16 \<Rightarrow> intx" where "CInstr_mem1_imm encoding = DecodeCMem1Imm (ucast encoding)"
definition CInstr_mem2_imm :: "u16 \<Rightarrow> intx" where "CInstr_mem2_imm encoding = DecodeCMem2Imm (ucast encoding)"
definition CInstr_mem4_imm :: "u16 \<Rightarrow> intx" where "CInstr_mem4_imm encoding = DecodeCMem4Imm (ucast encoding)"
definition CInstr_mem8_imm :: "u16 \<Rightarrow> intx" where "CInstr_mem8_imm encoding = DecodeCMem8Imm (ucast encoding)"
definition CInstr_j_imm :: "u16 \<Rightarrow> intx" where "CInstr_j_imm encoding = DecodeCJImm (ucast encoding)"
definition CInstr_b_imm :: "u16 \<Rightarrow> intx" where "CInstr_b_imm encoding = DecodeCBImm (ucast encoding)"
definition CInstr_i_imm :: "u16 \<Rightarrow> intx" where "CInstr_i_imm encoding = DecodeCIImm (ucast encoding)"
definition CInstr_u_imm :: "u16 \<Rightarrow> intx" where "CInstr_u_imm encoding = DecodeCUImm (ucast encoding)"
definition CInstr_i16_imm :: "u16 \<Rightarrow> intx" where "CInstr_i16_imm encoding = DecodeCI16Imm (ucast encoding)"
definition CInstr_i4spn_imm :: "u16 \<Rightarrow> intx" where "CInstr_i4spn_imm encoding = DecodeCI4SPNImm (ucast encoding)"
definition CInstr_shamt :: "u16 \<Rightarrow> u32" where "CInstr_shamt encoding = DecodeCShamt (ucast encoding)"

section \<open>Extension sets\<close>

text \<open>An \<open>Extension\<close> is its bit number and an \<open>ExtensionSet\<close> its \<open>uint32_t\<close> bit set.\<close>

abbreviation (input) RV_I :: nat where "RV_I \<equiv> 0"
abbreviation (input) RV_M :: nat where "RV_M \<equiv> 1"
abbreviation (input) RV_A :: nat where "RV_A \<equiv> 2"
abbreviation (input) RV_F :: nat where "RV_F \<equiv> 3"
abbreviation (input) RV_D :: nat where "RV_D \<equiv> 4"
abbreviation (input) RV_Q :: nat where "RV_Q \<equiv> 5"
abbreviation (input) RV_C :: nat where "RV_C \<equiv> 6"
abbreviation (input) RV_Zba :: nat where "RV_Zba \<equiv> 7"
abbreviation (input) RV_Zbb :: nat where "RV_Zbb \<equiv> 8"
abbreviation (input) RV_Zbs :: nat where "RV_Zbs \<equiv> 9"
abbreviation (input) RV_Zbc :: nat where "RV_Zbc \<equiv> 10"
abbreviation (input) RV_V :: nat where "RV_V \<equiv> 11"
abbreviation (input) RV_Zicond :: nat where "RV_Zicond \<equiv> 12"
abbreviation (input) RV_Zcb :: nat where "RV_Zcb \<equiv> 13"
abbreviation (input) RV_Zfa :: nat where "RV_Zfa \<equiv> 14"
abbreviation (input) RV_Zimop :: nat where "RV_Zimop \<equiv> 15"
abbreviation (input) RV_Zcmop :: nat where "RV_Zcmop \<equiv> 16"
abbreviation (input) RV_Zawrs :: nat where "RV_Zawrs \<equiv> 17"
abbreviation (input) RV_Zicfiss :: nat where "RV_Zicfiss \<equiv> 18"
abbreviation (input) RV_Zabha :: nat where "RV_Zabha \<equiv> 19"
abbreviation (input) RV_Zalasr :: nat where "RV_Zalasr \<equiv> 20"
abbreviation (input) RV_Zfhmin :: nat where "RV_Zfhmin \<equiv> 21"
abbreviation (input) RV_Zacas :: nat where "RV_Zacas \<equiv> 22"

type_synonym ExtensionSet = u32

definition ExtensionSet_of :: "nat \<Rightarrow> ExtensionSet" where
  "ExtensionSet_of element = push_bit element 1"

definition ExtensionSet_Includes :: "ExtensionSet \<Rightarrow> nat \<Rightarrow> bool" where
  "ExtensionSet_Includes encoding r = (encoding AND push_bit r 1 \<noteq> 0)"

definition ExtensionSet_IncludesAll :: "ExtensionSet \<Rightarrow> ExtensionSet \<Rightarrow> bool" where
  "ExtensionSet_IncludesAll encoding other = (encoding AND other = other)"

definition RV_G :: ExtensionSet where
  "RV_G = ExtensionSet_of RV_I OR ExtensionSet_of RV_M OR ExtensionSet_of RV_A
     OR ExtensionSet_of RV_F OR ExtensionSet_of RV_D"

definition RV_GC :: ExtensionSet where "RV_GC = RV_G OR ExtensionSet_of RV_C"

definition RVA20 :: ExtensionSet where "RVA20 = RV_GC"

definition RV_B :: ExtensionSet where
  "RV_B = ExtensionSet_of RV_Zba OR ExtensionSet_of RV_Zbb OR ExtensionSet_of RV_Zbs"

definition RV_GCB :: ExtensionSet where "RV_GCB = RV_GC OR RV_B"

definition RVA22 :: ExtensionSet where "RVA22 = RV_GCB"

definition RVA23 :: ExtensionSet where
  "RVA23 = RVA22 OR ExtensionSet_of RV_V OR ExtensionSet_of RV_Zicond OR ExtensionSet_of RV_Zcb
     OR ExtensionSet_of RV_Zfa OR ExtensionSet_of RV_Zimop OR ExtensionSet_of RV_Zcmop
     OR ExtensionSet_of RV_Zawrs"

section \<open>Decoding a parcel\<close>

text \<open>Every encoder writes, and every decoder reads, a fixed set of bit positions, its footprint.
  A decoder ignores whatever lies outside its footprint, so the decoding of a whole parcel reduces
  to one encode/decode pair.\<close>

named_theorems rv_footprint \<open>encoders stay within, and decoders depend only on, their footprint\<close>

lemmas CInstr_defs =
  CInstr_opcode_def CInstr_rd_def CInstr_rs1_def CInstr_rs2_def CInstr_rdp_def CInstr_rs1p_def
  CInstr_rs2p_def CInstr_spload4_imm_def CInstr_spload8_imm_def CInstr_spstore4_imm_def
  CInstr_spstore8_imm_def CInstr_mem1_imm_def CInstr_mem2_imm_def CInstr_mem4_imm_def
  CInstr_mem8_imm_def CInstr_j_imm_def CInstr_b_imm_def CInstr_i_imm_def CInstr_u_imm_def
  CInstr_i16_imm_def CInstr_i4spn_imm_def CInstr_shamt_def

lemma footprint_disjoint:
  fixes x :: u32
  assumes "x AND k = x" "m AND k = 0"
  shows "x AND m = 0"
proof -
  have "x AND m = (x AND k) AND m" by (simp only: assms(1))
  also have "\<dots> = x AND (m AND k)" by (simp only: ac_simps)
  finally show ?thesis by (simp add: assms(2))
qed

lemma footprint_or:
  fixes D :: "u32 \<Rightarrow> 'b"
  assumes "\<And>e. D (e AND k) = D e" "x AND k = 0"
  shows "D (x OR e) = D e" "D (e OR x) = D e"
proof -
  have "D (x OR e) = D ((x OR e) AND k)" using assms(1) by simp
  also have "(x OR e) AND k = e AND k"
    by (simp add: bit.conj_disj_distrib2 assms(2))
  finally show "D (x OR e) = D e" using assms(1) by simp
  then show "D (e OR x) = D e" by (simp only: or.commute)
qed

lemma footprint_parcel:
  fixes D :: "u32 \<Rightarrow> 'b"
  assumes "\<And>e. D (e AND k) = D e" "k AND 0xFFFF = k"
  shows "D (ucast (ucast e :: u16)) = D e"
proof -
  have "(ucast (ucast e :: u16) :: u32) = e AND mask 16"
    by (rule bit_word_eqI) (auto simp: bit_simps)
  also have "(mask 16 :: u32) = 0xFFFF" by (simp add: mask_eq_exp_minus_1)
  finally have "(ucast (ucast e :: u16) :: u32) AND k = e AND k"
    using assms(2) by (simp add: ac_simps)
  then show ?thesis using assms(1) [of "ucast (ucast e :: u16)"] assms(1) [of e] by simp
qed

lemma encode_field_footprint:
  fixes c k y :: u32
  assumes "push_bit s c AND k = push_bit s c"
  shows "push_bit s (y AND c) AND k = push_bit s (y AND c)"
proof -
  have "push_bit s (y AND c) = push_bit s y AND push_bit s c" by simp
  then show ?thesis using assms by (simp only: and.assoc)
qed

lemma encode_reg_footprint:
  fixes k :: u32 and r :: "5 word"
  assumes "push_bit s 31 AND k = push_bit s 31"
  shows "push_bit s (ucast r) AND k = push_bit s (ucast r)"
  using encode_field_footprint [OF assms, of "ucast r"]
  by (simp add: and_numeral_take_bit)

lemma creg_footprint:
  shows "EncodeCRd r AND 0xf80 = EncodeCRd r" and "DecodeCRd (e AND 0xf80) = DecodeCRd e"
    and "EncodeCRs1 r AND 0xf80 = EncodeCRs1 r" and "DecodeCRs1 (e AND 0xf80) = DecodeCRs1 e"
    and "EncodeCRs2 r AND 0x7c = EncodeCRs2 r" and "DecodeCRs2 (e AND 0x7c) = DecodeCRs2 e"
    and "EncodeCRdp r AND 0x1c = EncodeCRdp r" and "DecodeCRdp (e AND 0x1c) = DecodeCRdp e"
    and "EncodeCRs1p r AND 0x380 = EncodeCRs1p r" and "DecodeCRs1p (e AND 0x380) = DecodeCRs1p e"
    and "EncodeCRs2p r AND 0x1c = EncodeCRs2p r" and "DecodeCRs2p (e AND 0x1c) = DecodeCRs2p e"
  by (simp_all add: EncodeCRd_def EncodeCRs1_def EncodeCRs2_def EncodeCRdp_def EncodeCRs1p_def
      EncodeCRs2p_def DecodeCRd_def DecodeCRs1_def DecodeCRs2_def DecodeCRdp_def DecodeCRs1p_def
      DecodeCRs2p_def encode_reg_footprint and.assoc)

lemma CSPLoad4Imm_footprint:
  shows "EncodeCSPLoad4Imm imm AND 0x107c = EncodeCSPLoad4Imm imm" and "DecodeCSPLoad4Imm (e AND 0x107c) = DecodeCSPLoad4Imm e"
  by (simp_all add: EncodeCSPLoad4Imm_def DecodeCSPLoad4Imm_def bit.conj_disj_distrib2
      unsigned_and_eq and.assoc)

lemma CSPLoad8Imm_footprint:
  shows "EncodeCSPLoad8Imm imm AND 0x107c = EncodeCSPLoad8Imm imm" and "DecodeCSPLoad8Imm (e AND 0x107c) = DecodeCSPLoad8Imm e"
  by (simp_all add: EncodeCSPLoad8Imm_def DecodeCSPLoad8Imm_def bit.conj_disj_distrib2
      unsigned_and_eq and.assoc)

lemma CSPStore4Imm_footprint:
  shows "EncodeCSPStore4Imm imm AND 0x1f80 = EncodeCSPStore4Imm imm" and "DecodeCSPStore4Imm (e AND 0x1f80) = DecodeCSPStore4Imm e"
  by (simp_all add: EncodeCSPStore4Imm_def DecodeCSPStore4Imm_def bit.conj_disj_distrib2
      unsigned_and_eq and.assoc)

lemma CSPStore8Imm_footprint:
  shows "EncodeCSPStore8Imm imm AND 0x1f80 = EncodeCSPStore8Imm imm" and "DecodeCSPStore8Imm (e AND 0x1f80) = DecodeCSPStore8Imm e"
  by (simp_all add: EncodeCSPStore8Imm_def DecodeCSPStore8Imm_def bit.conj_disj_distrib2
      unsigned_and_eq and.assoc)

lemma CMem1Imm_footprint:
  shows "EncodeCMem1Imm imm AND 0x60 = EncodeCMem1Imm imm" and "DecodeCMem1Imm (e AND 0x60) = DecodeCMem1Imm e"
  by (simp_all add: EncodeCMem1Imm_def DecodeCMem1Imm_def bit.conj_disj_distrib2
      unsigned_and_eq and.assoc)

lemma CMem2Imm_footprint:
  shows "EncodeCMem2Imm imm AND 0x20 = EncodeCMem2Imm imm" and "DecodeCMem2Imm (e AND 0x20) = DecodeCMem2Imm e"
  by (simp_all add: EncodeCMem2Imm_def DecodeCMem2Imm_def bit.conj_disj_distrib2
      unsigned_and_eq and.assoc)

lemma CMem4Imm_footprint:
  shows "EncodeCMem4Imm imm AND 0x1c60 = EncodeCMem4Imm imm" and "DecodeCMem4Imm (e AND 0x1c60) = DecodeCMem4Imm e"
  by (simp_all add: EncodeCMem4Imm_def DecodeCMem4Imm_def bit.conj_disj_distrib2
      unsigned_and_eq and.assoc)

lemma CMem8Imm_footprint:
  shows "EncodeCMem8Imm imm AND 0x1c60 = EncodeCMem8Imm imm" and "DecodeCMem8Imm (e AND 0x1c60) = DecodeCMem8Imm e"
  by (simp_all add: EncodeCMem8Imm_def DecodeCMem8Imm_def bit.conj_disj_distrib2
      unsigned_and_eq and.assoc)

lemma CJImm_footprint:
  shows "EncodeCJImm imm AND 0x1ffc = EncodeCJImm imm" and "DecodeCJImm (e AND 0x1ffc) = DecodeCJImm e"
  by (simp_all add: EncodeCJImm_def DecodeCJImm_def bit.conj_disj_distrib2
      unsigned_and_eq and.assoc)

lemma CBImm_footprint:
  shows "EncodeCBImm imm AND 0x1c7c = EncodeCBImm imm" and "DecodeCBImm (e AND 0x1c7c) = DecodeCBImm e"
  by (simp_all add: EncodeCBImm_def DecodeCBImm_def bit.conj_disj_distrib2
      unsigned_and_eq and.assoc)

lemma CIImm_footprint:
  shows "EncodeCIImm imm AND 0x107c = EncodeCIImm imm" and "DecodeCIImm (e AND 0x107c) = DecodeCIImm e"
  by (simp_all add: EncodeCIImm_def DecodeCIImm_def bit.conj_disj_distrib2
      unsigned_and_eq and.assoc)

lemma CUImm_footprint:
  shows "EncodeCUImm imm AND 0x107c = EncodeCUImm imm" and "DecodeCUImm (e AND 0x107c) = DecodeCUImm e"
  by (simp_all add: EncodeCUImm_def DecodeCUImm_def bit.conj_disj_distrib2
      unsigned_and_eq and.assoc)

lemma CI16Imm_footprint:
  shows "EncodeCI16Imm imm AND 0x107c = EncodeCI16Imm imm" and "DecodeCI16Imm (e AND 0x107c) = DecodeCI16Imm e"
  by (simp_all add: EncodeCI16Imm_def DecodeCI16Imm_def bit.conj_disj_distrib2
      unsigned_and_eq and.assoc)

lemma CI4SPNImm_footprint:
  shows "EncodeCI4SPNImm imm AND 0x1fe0 = EncodeCI4SPNImm imm" and "DecodeCI4SPNImm (e AND 0x1fe0) = DecodeCI4SPNImm e"
  by (simp_all add: EncodeCI4SPNImm_def DecodeCI4SPNImm_def bit.conj_disj_distrib2
      unsigned_and_eq and.assoc)

lemma CShamt_footprint:
  shows "EncodeCShamt imm AND 0x107c = EncodeCShamt imm" and "DecodeCShamt (e AND 0x107c) = DecodeCShamt e"
  by (simp_all add: EncodeCShamt_def DecodeCShamt_def bit.conj_disj_distrib2
      unsigned_and_eq and.assoc)

lemma CMopn_footprint:
  shows "EncodeCMopn imm AND 0x780 = EncodeCMopn imm" and "DecodeCMopn (e AND 0x780) = DecodeCMopn e"
  by (simp_all add: EncodeCMopn_def DecodeCMopn_def bit.conj_disj_distrib2
      unsigned_and_eq and.assoc)

lemma ucast_fields:
  fixes v :: u32 and x :: u64
  assumes "\<And>i. bit v i \<longleftrightarrow> bit x i"
  shows "ucast v = x"
  by (rule bit_word_eqI) (use assms in \<open>auto simp: bit_simps dest: bit_imp_le_length\<close>)

lemma IsCShamt_bit: "IsCShamt imm \<Longrightarrow> bit imm i \<Longrightarrow> i < 6"
proof -
  assume "IsCShamt imm" "bit imm i"
  then have "unat (take_bit 6 imm) = unat imm"
    by (simp add: IsCShamt_def unsigned_take_bit_eq take_bit_nat_eq_self_iff word_less_nat_alt)
  then have "take_bit 6 imm = imm" by (rule unsigned_word_eqI)
  then show ?thesis using \<open>bit imm i\<close> by (metis bit_take_bit_iff)
qed

lemma bit_mask_32: "bit (mask w :: u32) i \<longleftrightarrow> i < w \<and> i < 32"
  by (auto simp: bit_simps)

lemma bit_push_mask: "bit (push_bit k (mask w) :: u32) i \<longleftrightarrow> k \<le> i \<and> i < k + w \<and> i < 32"
  by (auto simp: bit_simps)

lemma Decode_EncodeCSPLoad4Imm:
  assumes "IsCSPLoad4Imm imm"
  shows "DecodeCSPLoad4Imm (EncodeCSPLoad4Imm imm) = imm"
proof -
  have "DecodeCSPLoad4Imm (EncodeCSPLoad4Imm imm) = ucast (ucast imm AND push_bit 2 (mask 6) :: u32)"
    unfolding EncodeCSPLoad4Imm_def DecodeCSPLoad4Imm_def
    by (simp add: rv_fields del: One_nat_def)
      (simp_all only: field_in_place, simp_all only: field_in_place0 and_or_collect,
       simp_all add: mask_eq_exp_minus_1)
  also have "\<dots> = imm"
    by (rule ucast_fields)
      (use assms in \<open>auto simp only: IsCSPLoad4Imm_def bit_and_iff bit_push_mask bit_mask_32
         bit_ucast_32
         dest: IsAligned_literal_bit IsUint_literal_bit\<close>)
  finally show ?thesis .
qed

lemma Decode_EncodeCSPLoad8Imm:
  assumes "IsCSPLoad8Imm imm"
  shows "DecodeCSPLoad8Imm (EncodeCSPLoad8Imm imm) = imm"
proof -
  have "DecodeCSPLoad8Imm (EncodeCSPLoad8Imm imm) = ucast (ucast imm AND push_bit 3 (mask 6) :: u32)"
    unfolding EncodeCSPLoad8Imm_def DecodeCSPLoad8Imm_def
    by (simp add: rv_fields del: One_nat_def)
      (simp_all only: field_in_place, simp_all only: field_in_place0 and_or_collect,
       simp_all add: mask_eq_exp_minus_1)
  also have "\<dots> = imm"
    by (rule ucast_fields)
      (use assms in \<open>auto simp only: IsCSPLoad8Imm_def bit_and_iff bit_push_mask bit_mask_32
         bit_ucast_32
         dest: IsAligned_literal_bit IsUint_literal_bit\<close>)
  finally show ?thesis .
qed

lemma Decode_EncodeCSPStore4Imm:
  assumes "IsCSPStore4Imm imm"
  shows "DecodeCSPStore4Imm (EncodeCSPStore4Imm imm) = imm"
proof -
  have "DecodeCSPStore4Imm (EncodeCSPStore4Imm imm) = ucast (ucast imm AND push_bit 2 (mask 6) :: u32)"
    unfolding EncodeCSPStore4Imm_def DecodeCSPStore4Imm_def
    by (simp add: rv_fields del: One_nat_def)
      (simp_all only: field_in_place, simp_all only: field_in_place0 and_or_collect,
       simp_all add: mask_eq_exp_minus_1)
  also have "\<dots> = imm"
    by (rule ucast_fields)
      (use assms in \<open>auto simp only: IsCSPStore4Imm_def bit_and_iff bit_push_mask bit_mask_32
         bit_ucast_32
         dest: IsAligned_literal_bit IsUint_literal_bit\<close>)
  finally show ?thesis .
qed

lemma Decode_EncodeCSPStore8Imm:
  assumes "IsCSPStore8Imm imm"
  shows "DecodeCSPStore8Imm (EncodeCSPStore8Imm imm) = imm"
proof -
  have "DecodeCSPStore8Imm (EncodeCSPStore8Imm imm) = ucast (ucast imm AND push_bit 3 (mask 6) :: u32)"
    unfolding EncodeCSPStore8Imm_def DecodeCSPStore8Imm_def
    by (simp add: rv_fields del: One_nat_def)
      (simp_all only: field_in_place, simp_all only: field_in_place0 and_or_collect,
       simp_all add: mask_eq_exp_minus_1)
  also have "\<dots> = imm"
    by (rule ucast_fields)
      (use assms in \<open>auto simp only: IsCSPStore8Imm_def bit_and_iff bit_push_mask bit_mask_32
         bit_ucast_32
         dest: IsAligned_literal_bit IsUint_literal_bit\<close>)
  finally show ?thesis .
qed

lemma Decode_EncodeCMem1Imm:
  assumes "IsCMem1Imm imm"
  shows "DecodeCMem1Imm (EncodeCMem1Imm imm) = imm"
proof -
  have "DecodeCMem1Imm (EncodeCMem1Imm imm) = ucast (ucast imm AND mask 2 :: u32)"
    unfolding EncodeCMem1Imm_def DecodeCMem1Imm_def
    by (simp add: rv_fields del: One_nat_def)
      (simp_all only: field_in_place, simp_all only: field_in_place0 and_or_collect,
       simp_all add: mask_eq_exp_minus_1)
  also have "\<dots> = imm"
    by (rule ucast_fields)
      (use assms in \<open>auto simp only: IsCMem1Imm_def bit_and_iff bit_push_mask bit_mask_32
         bit_ucast_32
         dest: IsAligned_literal_bit IsUint_literal_bit\<close>)
  finally show ?thesis .
qed

lemma Decode_EncodeCMem2Imm:
  assumes "IsCMem2Imm imm"
  shows "DecodeCMem2Imm (EncodeCMem2Imm imm) = imm"
proof -
  have "DecodeCMem2Imm (EncodeCMem2Imm imm) = ucast (ucast imm AND push_bit 1 (mask 1) :: u32)"
    unfolding EncodeCMem2Imm_def DecodeCMem2Imm_def
    by (simp add: rv_fields del: One_nat_def)
      (simp_all only: field_in_place)
  also have "\<dots> = imm"
    by (rule ucast_fields)
      (use assms in \<open>auto simp only: IsCMem2Imm_def bit_and_iff bit_push_mask bit_mask_32
         bit_ucast_32
         dest: IsAligned_literal_bit IsUint_literal_bit\<close>)
  finally show ?thesis .
qed

lemma Decode_EncodeCMem4Imm:
  assumes "IsCMem4Imm imm"
  shows "DecodeCMem4Imm (EncodeCMem4Imm imm) = imm"
proof -
  have "DecodeCMem4Imm (EncodeCMem4Imm imm) = ucast (ucast imm AND push_bit 2 (mask 5) :: u32)"
    unfolding EncodeCMem4Imm_def DecodeCMem4Imm_def
    by (simp add: rv_fields del: One_nat_def)
      (simp_all only: field_in_place, simp_all only: field_in_place0 and_or_collect,
       simp_all add: mask_eq_exp_minus_1)
  also have "\<dots> = imm"
    by (rule ucast_fields)
      (use assms in \<open>auto simp only: IsCMem4Imm_def bit_and_iff bit_push_mask bit_mask_32
         bit_ucast_32
         dest: IsAligned_literal_bit IsUint_literal_bit\<close>)
  finally show ?thesis .
qed

lemma Decode_EncodeCMem8Imm:
  assumes "IsCMem8Imm imm"
  shows "DecodeCMem8Imm (EncodeCMem8Imm imm) = imm"
proof -
  have "DecodeCMem8Imm (EncodeCMem8Imm imm) = ucast (ucast imm AND push_bit 3 (mask 5) :: u32)"
    unfolding EncodeCMem8Imm_def DecodeCMem8Imm_def
    by (simp add: rv_fields del: One_nat_def)
      (simp_all only: field_in_place, simp_all only: field_in_place0 and_or_collect,
       simp_all add: mask_eq_exp_minus_1)
  also have "\<dots> = imm"
    by (rule ucast_fields)
      (use assms in \<open>auto simp only: IsCMem8Imm_def bit_and_iff bit_push_mask bit_mask_32
         bit_ucast_32
         dest: IsAligned_literal_bit IsUint_literal_bit\<close>)
  finally show ?thesis .
qed

lemma Decode_EncodeCJImm:
  assumes "IsCJImm imm"
  shows "DecodeCJImm (EncodeCJImm imm) = imm"
proof -
  have "DecodeCJImm (EncodeCJImm imm) = scast (SignExtend 11 (ucast imm AND push_bit 1 (mask 11)))"
    unfolding EncodeCJImm_def DecodeCJImm_def
    by (simp add: rv_fields del: One_nat_def)
      (simp_all only: field_in_place, simp_all only: field_in_place0 and_or_collect,
       simp_all add: mask_eq_exp_minus_1)
  also have "\<dots> = signed_take_bit (11 - 1) imm"
    by (rule SignExtend_fields)
      (use assms in \<open>auto simp only: IsCJImm_def bit_and_iff bit_push_mask bit_mask_32
         bit_ucast_32
         dest: IsAligned_literal_bit\<close>)
  also have "\<dots> = imm" using assms by (simp add: IsCJImm_def IsInt_signed_take_bit)
  finally show ?thesis .
qed

lemma Decode_EncodeCBImm:
  assumes "IsCBImm imm"
  shows "DecodeCBImm (EncodeCBImm imm) = imm"
proof -
  have "DecodeCBImm (EncodeCBImm imm) = scast (SignExtend 8 (ucast imm AND push_bit 1 (mask 8)))"
    unfolding EncodeCBImm_def DecodeCBImm_def
    by (simp add: rv_fields del: One_nat_def)
      (simp_all only: field_in_place, simp_all only: field_in_place0 and_or_collect,
       simp_all add: mask_eq_exp_minus_1)
  also have "\<dots> = signed_take_bit (8 - 1) imm"
    by (rule SignExtend_fields)
      (use assms in \<open>auto simp only: IsCBImm_def bit_and_iff bit_push_mask bit_mask_32
         bit_ucast_32
         dest: IsAligned_literal_bit\<close>)
  also have "\<dots> = imm" using assms by (simp add: IsCBImm_def IsInt_signed_take_bit)
  finally show ?thesis .
qed

lemma Decode_EncodeCIImm:
  assumes "IsCIImm imm"
  shows "DecodeCIImm (EncodeCIImm imm) = imm"
proof -
  have "DecodeCIImm (EncodeCIImm imm) = scast (SignExtend 6 (ucast imm AND mask 6))"
    unfolding EncodeCIImm_def DecodeCIImm_def
    by (simp add: rv_fields del: One_nat_def)
      (simp_all only: field_in_place, simp_all only: field_in_place0 and_or_collect,
       simp_all add: mask_eq_exp_minus_1)
  also have "\<dots> = signed_take_bit (6 - 1) imm"
    by (rule SignExtend_fields)
      (use assms in \<open>auto simp only: IsCIImm_def bit_and_iff bit_push_mask bit_mask_32
         bit_ucast_32
         dest: IsAligned_literal_bit\<close>)
  also have "\<dots> = imm" using assms by (simp add: IsCIImm_def IsInt_signed_take_bit)
  finally show ?thesis .
qed

lemma Decode_EncodeCUImm:
  assumes "IsCUImm imm"
  shows "DecodeCUImm (EncodeCUImm imm) = imm"
proof -
  have "DecodeCUImm (EncodeCUImm imm) = scast (SignExtend 17 (ucast imm AND push_bit 12 (mask 6)))"
    unfolding EncodeCUImm_def DecodeCUImm_def
    by (simp add: rv_fields del: One_nat_def)
      (simp_all only: field_in_place, simp_all only: field_in_place0 and_or_collect,
       simp_all add: mask_eq_exp_minus_1)
  also have "\<dots> = signed_take_bit (17 - 1) imm"
    by (rule SignExtend_fields)
      (use assms in \<open>auto simp only: IsCUImm_def bit_and_iff bit_push_mask bit_mask_32
         bit_ucast_32
         dest: IsAligned_literal_bit\<close>)
  also have "\<dots> = imm" using assms by (simp add: IsCUImm_def IsInt_signed_take_bit)
  finally show ?thesis .
qed

lemma Decode_EncodeCI16Imm:
  assumes "IsCI16Imm imm"
  shows "DecodeCI16Imm (EncodeCI16Imm imm) = imm"
proof -
  have "DecodeCI16Imm (EncodeCI16Imm imm) = scast (SignExtend 10 (ucast imm AND push_bit 4 (mask 6)))"
    unfolding EncodeCI16Imm_def DecodeCI16Imm_def
    by (simp add: rv_fields del: One_nat_def)
      (simp_all only: field_in_place, simp_all only: field_in_place0 and_or_collect,
       simp_all add: mask_eq_exp_minus_1)
  also have "\<dots> = signed_take_bit (10 - 1) imm"
    by (rule SignExtend_fields)
      (use assms in \<open>auto simp only: IsCI16Imm_def bit_and_iff bit_push_mask bit_mask_32
         bit_ucast_32
         dest: IsAligned_literal_bit\<close>)
  also have "\<dots> = imm" using assms by (simp add: IsCI16Imm_def IsInt_signed_take_bit)
  finally show ?thesis .
qed

lemma Decode_EncodeCI4SPNImm:
  assumes "IsCI4SPNImm imm"
  shows "DecodeCI4SPNImm (EncodeCI4SPNImm imm) = imm"
proof -
  have "DecodeCI4SPNImm (EncodeCI4SPNImm imm) = ucast (ucast imm AND push_bit 2 (mask 8) :: u32)"
    unfolding EncodeCI4SPNImm_def DecodeCI4SPNImm_def
    by (simp add: rv_fields del: One_nat_def)
      (simp_all only: field_in_place, simp_all only: field_in_place0 and_or_collect,
       simp_all add: mask_eq_exp_minus_1)
  also have "\<dots> = imm"
    by (rule ucast_fields)
      (use assms in \<open>auto simp only: IsCI4SPNImm_def bit_and_iff bit_push_mask bit_mask_32
         bit_ucast_32
         dest: IsAligned_literal_bit IsUint_literal_bit\<close>)
  finally show ?thesis .
qed

lemma Decode_EncodeCShamt:
  assumes "IsCShamt imm"
  shows "DecodeCShamt (EncodeCShamt imm) = imm"
proof -
  have "DecodeCShamt (EncodeCShamt imm) = imm AND mask 6"
    unfolding EncodeCShamt_def DecodeCShamt_def
    by (simp add: rv_fields del: One_nat_def)
      (simp_all only: field_in_place, simp_all only: field_in_place0 and_or_collect,
       simp_all add: mask_eq_exp_minus_1)
  also have "\<dots> = imm"
    by (rule bit_word_eqI)
      (use assms in \<open>auto simp only: bit_and_iff bit_push_mask bit_mask_32
         bit_ucast_32
         dest: IsCShamt_bit\<close>)
  finally show ?thesis .
qed

lemma creg_prime_roundtrip:
  fixes r :: Register
  assumes "8 \<le> r" "r < 16"
  shows "(ucast ((ucast r AND 7 :: u32) + 8) :: Register) = r"
proof -
  have "unat r < 16" "8 \<le> unat r" using assms by (simp_all add: word_less_nat_alt word_le_nat_alt)
  then have "unat r \<in> {8, 9, 10, 11, 12, 13, 14, 15}" by auto
  then have "r \<in> {8, 9, 10, 11, 12, 13, 14, 15}"
    by (auto dest!: arg_cong [of "unat r" _ "of_nat :: nat \<Rightarrow> 5 word"])
  then show ?thesis by auto
qed

lemma creg_roundtrip:
  shows "DecodeCRd (EncodeCRd r) = r" and "DecodeCRd (EncodeCRs1 r) = r"
    and "DecodeCRs1 (EncodeCRs1 r) = r" and "DecodeCRs2 (EncodeCRs2 r) = r"
    and "IsCRdp r \<Longrightarrow> DecodeCRdp (EncodeCRdp r) = r"
    and "IsCRs1p r \<Longrightarrow> DecodeCRs1p (EncodeCRs1p r) = r"
    and "IsCRs2p r \<Longrightarrow> DecodeCRs2p (EncodeCRs2p r) = r"
  unfolding EncodeCRd_def EncodeCRs1_def EncodeCRs2_def DecodeCRd_def DecodeCRs1_def DecodeCRs2_def
    EncodeCRdp_def EncodeCRs1p_def EncodeCRs2p_def DecodeCRdp_def DecodeCRs1p_def DecodeCRs2p_def
    IsCRdp_def IsCRs1p_def IsCRs2p_def
  by (simp_all add: rv_fields del: One_nat_def)
    (simp_all add: and_numeral_take_bit [symmetric] creg_prime_roundtrip)

lemmas encode_footprint_disjoint [rv_footprint] =
  creg_footprint(1) [THEN footprint_disjoint] creg_footprint(3) [THEN footprint_disjoint]
  creg_footprint(5) [THEN footprint_disjoint] creg_footprint(7) [THEN footprint_disjoint]
  creg_footprint(9) [THEN footprint_disjoint] creg_footprint(11) [THEN footprint_disjoint]
  CSPLoad4Imm_footprint(1) [THEN footprint_disjoint]
  CSPLoad8Imm_footprint(1) [THEN footprint_disjoint]
  CSPStore4Imm_footprint(1) [THEN footprint_disjoint]
  CSPStore8Imm_footprint(1) [THEN footprint_disjoint]
  CMem1Imm_footprint(1) [THEN footprint_disjoint] CMem2Imm_footprint(1) [THEN footprint_disjoint]
  CMem4Imm_footprint(1) [THEN footprint_disjoint] CMem8Imm_footprint(1) [THEN footprint_disjoint]
  CJImm_footprint(1) [THEN footprint_disjoint] CBImm_footprint(1) [THEN footprint_disjoint]
  CIImm_footprint(1) [THEN footprint_disjoint] CUImm_footprint(1) [THEN footprint_disjoint]
  CI16Imm_footprint(1) [THEN footprint_disjoint] CI4SPNImm_footprint(1) [THEN footprint_disjoint]
  CShamt_footprint(1) [THEN footprint_disjoint] CMopn_footprint(1) [THEN footprint_disjoint]

lemmas decode_footprint_or [rv_footprint] =
  footprint_or [of DecodeCRd, OF creg_footprint(2)]
  footprint_or [of DecodeCRs1, OF creg_footprint(4)]
  footprint_or [of DecodeCRs2, OF creg_footprint(6)]
  footprint_or [of DecodeCRdp, OF creg_footprint(8)]
  footprint_or [of DecodeCRs1p, OF creg_footprint(10)]
  footprint_or [of DecodeCRs2p, OF creg_footprint(12)]
  footprint_or [of DecodeCSPLoad4Imm, OF CSPLoad4Imm_footprint(2)]
  footprint_or [of DecodeCSPLoad8Imm, OF CSPLoad8Imm_footprint(2)]
  footprint_or [of DecodeCSPStore4Imm, OF CSPStore4Imm_footprint(2)]
  footprint_or [of DecodeCSPStore8Imm, OF CSPStore8Imm_footprint(2)]
  footprint_or [of DecodeCMem1Imm, OF CMem1Imm_footprint(2)]
  footprint_or [of DecodeCMem2Imm, OF CMem2Imm_footprint(2)]
  footprint_or [of DecodeCMem4Imm, OF CMem4Imm_footprint(2)]
  footprint_or [of DecodeCMem8Imm, OF CMem8Imm_footprint(2)]
  footprint_or [of DecodeCJImm, OF CJImm_footprint(2)]
  footprint_or [of DecodeCBImm, OF CBImm_footprint(2)]
  footprint_or [of DecodeCIImm, OF CIImm_footprint(2)]
  footprint_or [of DecodeCUImm, OF CUImm_footprint(2)]
  footprint_or [of DecodeCI16Imm, OF CI16Imm_footprint(2)]
  footprint_or [of DecodeCI4SPNImm, OF CI4SPNImm_footprint(2)]
  footprint_or [of DecodeCShamt, OF CShamt_footprint(2)]
  footprint_or [of DecodeCMopn, OF CMopn_footprint(2)]

lemmas decode_footprint_parcel [rv_footprint] =
  footprint_parcel [of DecodeCRd, OF creg_footprint(2)]
  footprint_parcel [of DecodeCRs1, OF creg_footprint(4)]
  footprint_parcel [of DecodeCRs2, OF creg_footprint(6)]
  footprint_parcel [of DecodeCRdp, OF creg_footprint(8)]
  footprint_parcel [of DecodeCRs1p, OF creg_footprint(10)]
  footprint_parcel [of DecodeCRs2p, OF creg_footprint(12)]
  footprint_parcel [of DecodeCSPLoad4Imm, OF CSPLoad4Imm_footprint(2)]
  footprint_parcel [of DecodeCSPLoad8Imm, OF CSPLoad8Imm_footprint(2)]
  footprint_parcel [of DecodeCSPStore4Imm, OF CSPStore4Imm_footprint(2)]
  footprint_parcel [of DecodeCSPStore8Imm, OF CSPStore8Imm_footprint(2)]
  footprint_parcel [of DecodeCMem1Imm, OF CMem1Imm_footprint(2)]
  footprint_parcel [of DecodeCMem2Imm, OF CMem2Imm_footprint(2)]
  footprint_parcel [of DecodeCMem4Imm, OF CMem4Imm_footprint(2)]
  footprint_parcel [of DecodeCMem8Imm, OF CMem8Imm_footprint(2)]
  footprint_parcel [of DecodeCJImm, OF CJImm_footprint(2)]
  footprint_parcel [of DecodeCBImm, OF CBImm_footprint(2)]
  footprint_parcel [of DecodeCIImm, OF CIImm_footprint(2)]
  footprint_parcel [of DecodeCUImm, OF CUImm_footprint(2)]
  footprint_parcel [of DecodeCI16Imm, OF CI16Imm_footprint(2)]
  footprint_parcel [of DecodeCI4SPNImm, OF CI4SPNImm_footprint(2)]
  footprint_parcel [of DecodeCShamt, OF CShamt_footprint(2)]
  footprint_parcel [of DecodeCMopn, OF CMopn_footprint(2)]

lemmas c_roundtrip [rv_footprint] =
  creg_roundtrip Decode_EncodeCSPLoad4Imm Decode_EncodeCSPLoad8Imm Decode_EncodeCSPStore4Imm
  Decode_EncodeCSPStore8Imm Decode_EncodeCMem1Imm Decode_EncodeCMem2Imm Decode_EncodeCMem4Imm
  Decode_EncodeCMem8Imm Decode_EncodeCJImm Decode_EncodeCBImm Decode_EncodeCIImm
  Decode_EncodeCUImm Decode_EncodeCI16Imm Decode_EncodeCI4SPNImm Decode_EncodeCShamt

lemma parcel_and [rv_footprint]:
  "m AND 0xFFFF = m \<Longrightarrow> (ucast (ucast (e :: u32) :: u16) :: u32) AND m = e AND m"
  using footprint_parcel [of "\<lambda>e. e AND m" m e] by (simp add: and.assoc)

lemma and_or_footprint [rv_footprint]:
  fixes a b m :: u32
  shows "(a OR b) AND m = a AND m OR b AND m"
  by (rule bit.conj_disj_distrib2)

end
