(* ===== verification/RiscvArith.thy ===== *)
theory RiscvArith
  imports PlatformUtils
begin

text \<open>
  The arithmetic helpers of the simulator, the \<open>static\<close> functions in front of
  \<open>Interpret (CInstr)\<close> in \<^verbatim>\<open>runtime/vm/simulator_riscv.cc\<close>, under their source names with the
  prefix \<open>sim_\<close>. Signed C++ arithmetic is arithmetic on \<open>sint\<close>, unsigned on the word itself; a
  loop over a counter is a fold over the same counter values. The lemmas relate each helper to the
  mathematical function that the RISC-V manual gives for the instruction: the high half of a
  128-bit product, division rounding to zero with the two defined corner cases, the carry-less
  product, bit and byte manipulation.
\<close>

abbreviation (input) kMinIntX :: u64 where "kMinIntX \<equiv> 0x8000000000000000"
abbreviation (input) kMaxUIntX :: u64 where "kMaxUIntX \<equiv> 0xFFFFFFFFFFFFFFFF"
abbreviation (input) kMinInt32 :: u32 where "kMinInt32 \<equiv> 0x80000000"
abbreviation (input) kMaxUint32 :: u32 where "kMaxUint32 \<equiv> 0xFFFFFFFF"

definition sim_mul :: "u64 \<Rightarrow> u64 \<Rightarrow> u64" where
  "sim_mul a b = a * b"

definition sim_mulh :: "u64 \<Rightarrow> u64 \<Rightarrow> u64" where
  "sim_mulh a b =
     (let kLoMask = push_bit (64 div 2) 1 - 1;
          kHiShift = 64 div 2;
          a_lo = a AND kLoMask;
          a_hi = signed_drop_bit kHiShift a;
          b_lo = b AND kLoMask;
          b_hi = signed_drop_bit kHiShift b;
          x = a_lo * b_lo;
          y = a_hi * b_lo;
          z = a_lo * b_hi;
          w = a_hi * b_hi;
          r0 = drop_bit kHiShift x + y;
          r1 = (r0 AND kLoMask) + z
      in w + signed_drop_bit kHiShift r0 + signed_drop_bit kHiShift r1)"

definition sim_mulhu :: "u64 \<Rightarrow> u64 \<Rightarrow> u64" where
  "sim_mulhu a b =
     (let kLoMask = push_bit (64 div 2) 1 - 1;
          kHiShift = 64 div 2;
          a_lo = a AND kLoMask;
          a_hi = drop_bit kHiShift a;
          b_lo = b AND kLoMask;
          b_hi = drop_bit kHiShift b;
          x = a_lo * b_lo;
          y = a_hi * b_lo;
          z = a_lo * b_hi;
          w = a_hi * b_hi;
          r0 = drop_bit kHiShift x + y;
          r1 = (r0 AND kLoMask) + z
      in w + drop_bit kHiShift r0 + drop_bit kHiShift r1)"

definition sim_mulhsu :: "u64 \<Rightarrow> u64 \<Rightarrow> u64" where
  "sim_mulhsu a b =
     (let kLoMask = push_bit (64 div 2) 1 - 1;
          kHiShift = 64 div 2;
          a_lo = a AND kLoMask;
          a_hi = signed_drop_bit kHiShift a;
          b_lo = b AND kLoMask;
          b_hi = drop_bit kHiShift b;
          x = a_lo * b_lo;
          y = a_hi * b_lo;
          z = a_lo * b_hi;
          w = a_hi * b_hi;
          r0 = drop_bit kHiShift x + y;
          r1 = (r0 AND kLoMask) + z
      in w + signed_drop_bit kHiShift r0 + drop_bit kHiShift r1)"

definition sim_div :: "u64 \<Rightarrow> u64 \<Rightarrow> u64" where
  "sim_div a b =
     (if b = 0 then -1
      else if b = -1 \<and> a = kMinIntX then kMinIntX
      else word_of_int (sint a sdiv sint b))"

definition sim_divu :: "u64 \<Rightarrow> u64 \<Rightarrow> u64" where
  "sim_divu a b = (if b = 0 then kMaxUIntX else a div b)"

definition sim_rem :: "u64 \<Rightarrow> u64 \<Rightarrow> u64" where
  "sim_rem a b =
     (if b = 0 then a
      else if b = -1 \<and> a = kMinIntX then 0
      else word_of_int (sint a smod sint b))"

definition sim_remu :: "u64 \<Rightarrow> u64 \<Rightarrow> u64" where
  "sim_remu a b = (if b = 0 then a else a mod b)"

definition sim_mulw :: "u32 \<Rightarrow> u32 \<Rightarrow> u32" where
  "sim_mulw a b = a * b"

definition sim_divw :: "u32 \<Rightarrow> u32 \<Rightarrow> u32" where
  "sim_divw a b =
     (if b = 0 then -1
      else if b = -1 \<and> a = kMinInt32 then kMinInt32
      else word_of_int (sint a sdiv sint b))"

definition sim_divuw :: "u32 \<Rightarrow> u32 \<Rightarrow> u32" where
  "sim_divuw a b = (if b = 0 then kMaxUint32 else a div b)"

definition sim_remw :: "u32 \<Rightarrow> u32 \<Rightarrow> u32" where
  "sim_remw a b =
     (if b = 0 then a
      else if b = -1 \<and> a = kMinInt32 then 0
      else word_of_int (sint a smod sint b))"

definition sim_remuw :: "u32 \<Rightarrow> u32 \<Rightarrow> u32" where
  "sim_remuw a b = (if b = 0 then a else a mod b)"

definition sim_clz :: "u64 \<Rightarrow> u64" where "sim_clz a = of_nat (countl_zero a)"
definition sim_ctz :: "u64 \<Rightarrow> u64" where "sim_ctz a = of_nat (countr_zero a)"
definition sim_cpop :: "u64 \<Rightarrow> u64" where "sim_cpop a = of_nat (popcount a)"
definition sim_clzw :: "u32 \<Rightarrow> u64" where "sim_clzw a = of_nat (countl_zero a)"
definition sim_ctzw :: "u32 \<Rightarrow> u64" where "sim_ctzw a = of_nat (countr_zero a)"
definition sim_cpopw :: "u32 \<Rightarrow> u64" where "sim_cpopw a = of_nat (popcount a)"

definition sim_max :: "u64 \<Rightarrow> u64 \<Rightarrow> u64" where "sim_max a b = (if sint a > sint b then a else b)"
definition sim_maxu :: "u64 \<Rightarrow> u64 \<Rightarrow> u64" where "sim_maxu a b = (if a > b then a else b)"
definition sim_min :: "u64 \<Rightarrow> u64 \<Rightarrow> u64" where "sim_min a b = (if sint a < sint b then a else b)"
definition sim_minu :: "u64 \<Rightarrow> u64 \<Rightarrow> u64" where "sim_minu a b = (if a < b then a else b)"

definition sim_clmul :: "u64 \<Rightarrow> u64 \<Rightarrow> u64" where
  "sim_clmul a b =
     foldl (\<lambda>result i. if drop_bit i b AND 1 \<noteq> 0 then result XOR push_bit i a else result) 0 [0..<64]"

definition sim_clmulh :: "u64 \<Rightarrow> u64 \<Rightarrow> u64" where
  "sim_clmulh a b =
     foldl (\<lambda>result i. if drop_bit i b AND 1 \<noteq> 0 then result XOR drop_bit (64 - i) a else result)
       0 [1..<64]"

definition sim_clmulr :: "u64 \<Rightarrow> u64 \<Rightarrow> u64" where
  "sim_clmulr a b =
     foldl (\<lambda>result i. if drop_bit i b AND 1 \<noteq> 0 then result XOR drop_bit (64 - i - 1) a else result)
       0 [0..<64]"

definition sim_sextb :: "u64 \<Rightarrow> u64" where
  "sim_sextb a = signed_drop_bit (64 - 8) (push_bit (64 - 8) a)"
definition sim_zextb :: "u64 \<Rightarrow> u64" where
  "sim_zextb a = drop_bit (64 - 8) (push_bit (64 - 8) a)"
definition sim_sexth :: "u64 \<Rightarrow> u64" where
  "sim_sexth a = signed_drop_bit (64 - 16) (push_bit (64 - 16) a)"
definition sim_zexth :: "u64 \<Rightarrow> u64" where
  "sim_zexth a = drop_bit (64 - 16) (push_bit (64 - 16) a)"
definition sim_zextw :: "u64 \<Rightarrow> u64" where
  "sim_zextw a = drop_bit (64 - 32) (push_bit (64 - 32) a)"

definition sim_ror :: "u64 \<Rightarrow> u64 \<Rightarrow> u64" where
  "sim_ror a b = word_rotr (unat (b AND (64 - 1))) a"
definition sim_rol :: "u64 \<Rightarrow> u64 \<Rightarrow> u64" where
  "sim_rol a b = word_rotl (unat (b AND (64 - 1))) a"
definition sim_rorw :: "u64 \<Rightarrow> u64 \<Rightarrow> u64" where
  "sim_rorw a b = scast (word_rotr (unat (b AND (64 - 1))) (ucast a :: u32))"
definition sim_rolw :: "u64 \<Rightarrow> u64 \<Rightarrow> u64" where
  "sim_rolw a b = scast (word_rotl (unat (b AND (64 - 1))) (ucast a :: u32))"

definition sim_orcb :: "u64 \<Rightarrow> u64" where
  "sim_orcb a =
     foldl (\<lambda>result shift. if drop_bit shift a AND 0xFF \<noteq> 0 then result OR push_bit shift 0xFF else result)
       0 [0, 8, 16, 24, 32, 40, 48, 56]"

definition sim_rev8 :: "u64 \<Rightarrow> u64" where
  "sim_rev8 a =
     foldl (\<lambda>result shift. push_bit 8 result OR (drop_bit shift a AND 0xFF))
       0 [0, 8, 16, 24, 32, 40, 48, 56]"

definition sim_bclr :: "u64 \<Rightarrow> u64 \<Rightarrow> u64" where
  "sim_bclr a b = a AND NOT (push_bit (unat (b AND (64 - 1))) 1)"
definition sim_bext :: "u64 \<Rightarrow> u64 \<Rightarrow> u64" where
  "sim_bext a b = drop_bit (unat (b AND (64 - 1))) a AND 1"
definition sim_binv :: "u64 \<Rightarrow> u64 \<Rightarrow> u64" where
  "sim_binv a b = a XOR push_bit (unat (b AND (64 - 1))) 1"
definition sim_bset :: "u64 \<Rightarrow> u64 \<Rightarrow> u64" where
  "sim_bset a b = a OR push_bit (unat (b AND (64 - 1))) 1"

section \<open>The high half of a product\<close>

lemma drop_bit_word_of_int:
  assumes "0 \<le> k" "k < 2 ^ 64"
  shows "drop_bit n (word_of_int k :: u64) = word_of_int (k div 2 ^ n)"
proof -
  have "uint (word_of_int k :: u64) = k"
    using assms by (simp add: uint_word_of_int_eq take_bit_int_eq_self)
  then have "uint (drop_bit n (word_of_int k :: u64)) = k div 2 ^ n"
    unfolding unsigned_drop_bit_eq using assms by (simp add: drop_bit_eq_div take_bit_int_eq_self)
  then show ?thesis by (metis word_of_int_uint)
qed

lemma signed_drop_bit_word_of_int:
  assumes "- (2 ^ 63) \<le> k" "k < 2 ^ 63"
  shows "signed_drop_bit n (word_of_int k :: u64) = word_of_int (k div 2 ^ n)"
proof -
  have "sint (signed_drop_bit n (word_of_int k :: u64)) = k div 2 ^ n"
    using sint_word_of_int_64 [OF assms] by (simp add: sint_signed_drop_bit)
  then show ?thesis by (metis word_of_int_sint)
qed

lemma and_lo_mask: "(word_of_int k :: u64) AND (push_bit 32 1 - 1) = word_of_int (k mod 2 ^ 32)"
proof -
  have "(push_bit 32 1 - 1 :: u64) = mask 32" by (simp add: mask_eq_exp_minus_1)
  then have "(word_of_int k :: u64) AND (push_bit 32 1 - 1) = take_bit 32 (word_of_int k)"
    by (simp only: take_bit_eq_mask)
  also have "\<dots> = word_of_int (take_bit 32 k)"
    by (rule bit_word_eqI) (auto simp: bit_simps)
  finally show ?thesis by (simp only: take_bit_eq_mod)
qed

lemma high_product:
  fixes ah al bh bl M :: int
  assumes "0 < M"
  defines "R \<equiv> al * bl div M + ah * bl"
  shows "ah * bh + R div M + (R mod M + al * bh) div M = (ah * M + al) * (bh * M + bl) div (M * M)"
proof -
  let ?X = "(ah * bl + al * bh) * M + al * bl"
  have M: "M \<noteq> 0" "M * M \<noteq> 0" using assms(1) by auto
  have "(ah * M + al) * (bh * M + bl) = ?X + ah * bh * (M * M)" by algebra
  then have "(ah * M + al) * (bh * M + bl) div (M * M) = ah * bh + ?X div (M * M)"
    by (simp only: div_mult_self1 [OF M(2)])
  also have "?X div (M * M) = ?X div M div M" using assms(1) by (simp add: zdiv_zmult2_eq)
  also have "?X div M = R + al * bh" unfolding R_def using M(1) by simp
  also have "R + al * bh = (R mod M + al * bh) + R div M * M"
    using div_mult_mod_eq [of R M] by linarith
  also have "\<dots> div M = R div M + (R mod M + al * bh) div M" by (simp only: div_mult_self1 [OF M(1)])
  finally show ?thesis by simp
qed

lemma high_product_64:
  fixes ah al bh bl :: int
  shows "ah * bh + (al * bl div 2 ^ 32 + ah * bl) div 2 ^ 32
      + ((al * bl div 2 ^ 32 + ah * bl) mod 2 ^ 32 + al * bh) div 2 ^ 32
    = (ah * 2 ^ 32 + al) * (bh * 2 ^ 32 + bl) div 2 ^ 64"
proof -
  have "(2 ^ 64 :: int) = 2 ^ 32 * 2 ^ 32" by simp
  then show ?thesis using high_product [of "2 ^ 32"] by (simp only: zero_less_power zero_less_numeral)
qed

lemma half_bounds:
  fixes k :: int
  shows "0 \<le> k mod 2 ^ 32" "k mod 2 ^ 32 \<le> 2 ^ 32 - 1"
  using pos_mod_bound [of "2 ^ 32" k] by simp_all

lemma mult_bounds:
  fixes a b :: int
  assumes "0 \<le> a" "a \<le> A" "0 \<le> b" "b \<le> B"
  shows "0 \<le> a * b" "a * b \<le> A * B"
  using assms by (auto intro: mult_mono)

lemma mult_signed_bounds:
  fixes h l :: int
  assumes "- (2 ^ 31) \<le> h" "h \<le> 2 ^ 31 - 1" "0 \<le> l" "l \<le> 2 ^ 32 - 1"
  shows "- (2 ^ 31) * (2 ^ 32 - 1) \<le> h * l" "h * l \<le> (2 ^ 31 - 1) * (2 ^ 32 - 1)"
proof -
  have "- (2 ^ 31) * l \<le> h * l" using assms(1,3) by (rule mult_right_mono)
  moreover have "- (2 ^ 31) * (2 ^ 32 - 1) \<le> - (2 ^ 31) * l" using assms(4) by simp
  ultimately show "- (2 ^ 31) * (2 ^ 32 - 1) \<le> h * l" by linarith
  have "h * l \<le> (2 ^ 31 - 1) * l" using assms(2,3) by (rule mult_right_mono)
  also have "\<dots> \<le> (2 ^ 31 - 1) * (2 ^ 32 - 1)" using assms(4) by simp
  finally show "h * l \<le> (2 ^ 31 - 1) * (2 ^ 32 - 1)" .
qed

lemma sint_half_bounds:
  fixes a :: u64
  shows "- (2 ^ 31) \<le> sint a div 2 ^ 32" "sint a div 2 ^ 32 \<le> 2 ^ 31 - 1"
  using sint_ge [of a] sint_lt [of a] by simp_all

lemma shift_32: "(64::nat) div 2 = 32" by simp

text \<open>The common shape of the three products: the operands are given by their halves, each high
  half with the reading, signed or unsigned, that the function uses.\<close>

lemma product_halves:
  fixes ah al bh bl :: int
  assumes "0 \<le> al" "al \<le> 2 ^ 32 - 1" "0 \<le> bl" "bl \<le> 2 ^ 32 - 1"
  defines "R \<equiv> al * bl div 2 ^ 32 + ah * bl"
  shows "drop_bit 32 (word_of_int (al * bl) :: u64) + word_of_int (ah * bl) = word_of_int R"
    and "0 \<le> al * bl div 2 ^ 32" and "al * bl div 2 ^ 32 \<le> 2 ^ 32 - 1"
proof -
  note x = mult_bounds [OF assms(1-4)]
  have "drop_bit 32 (word_of_int (al * bl) :: u64) = word_of_int (al * bl div 2 ^ 32)"
    using x by (intro drop_bit_word_of_int) simp_all
  then show "drop_bit 32 (word_of_int (al * bl) :: u64) + word_of_int (ah * bl) = word_of_int R"
    unfolding R_def by (simp only: of_int_add)
  show "0 \<le> al * bl div 2 ^ 32" "al * bl div 2 ^ 32 \<le> 2 ^ 32 - 1"
    using x zdiv_mono1 [of "al * bl" "(2 ^ 32 - 1) * (2 ^ 32 - 1)" "2 ^ 32"] by simp_all
qed

lemmas word_of_int_collect = of_int_mult [symmetric] of_int_add [symmetric]

lemma signed_halves:
  fixes a :: u64
  shows "a AND (push_bit 32 1 - 1) = word_of_int (sint a mod 2 ^ 32)"
    and "signed_drop_bit 32 a = word_of_int (sint a div 2 ^ 32)"
  using and_lo_mask [of "sint a"] signed_drop_bit_word_of_int [of "sint a" 32]
    sint_ge [of a] sint_lt [of a] by simp_all

lemma unsigned_halves:
  fixes a :: u64
  shows "a AND (push_bit 32 1 - 1) = word_of_int (uint a mod 2 ^ 32)"
    and "drop_bit 32 a = word_of_int (uint a div 2 ^ 32)"
  using and_lo_mask [of "uint a"] drop_bit_word_of_int [of "uint a" 32]
    uint_ge_0 [of a] uint_lt2p [of a] by simp_all

lemma uint_half_bounds:
  fixes a :: u64
  shows "0 \<le> uint a div 2 ^ 32" "uint a div 2 ^ 32 \<le> 2 ^ 32 - 1"
  using uint_lt2p [of a] by (simp_all add: pos_imp_zdiv_nonneg_iff)

lemma sim_mulh_eq: "sim_mulh a b = word_of_int (sint a * sint b div 2 ^ 64)"
proof -
  define ah al bh bl where defs: "ah = sint a div 2 ^ 32" "al = sint a mod 2 ^ 32"
    "bh = sint b div 2 ^ 32" "bl = sint b mod 2 ^ 32"
  define R where "R = al * bl div 2 ^ 32 + ah * bl"
  note halves = signed_halves [of a, folded defs] signed_halves [of b, folded defs]
  have bnd: "0 \<le> al" "al \<le> 2 ^ 32 - 1" "0 \<le> bl" "bl \<le> 2 ^ 32 - 1"
    "- (2 ^ 31) \<le> ah" "ah \<le> 2 ^ 31 - 1" "- (2 ^ 31) \<le> bh" "bh \<le> 2 ^ 31 - 1"
    unfolding defs by (rule half_bounds sint_half_bounds)+
  note r0 = product_halves(1) [OF bnd(1-4), of ah, folded R_def]
  have R: "- (2 ^ 63) \<le> R" "R < 2 ^ 63"
    using mult_signed_bounds [OF bnd(5,6,3,4)] product_halves(2,3) [OF bnd(1-4)] unfolding R_def by simp_all
  have R1: "- (2 ^ 63) \<le> R mod 2 ^ 32 + al * bh" "R mod 2 ^ 32 + al * bh < 2 ^ 63"
    using mult_signed_bounds [OF bnd(7,8,1,2)] half_bounds [of R] by (simp_all add: mult.commute)
  have "sim_mulh a b = word_of_int (ah * bh + R div 2 ^ 32 + (R mod 2 ^ 32 + al * bh) div 2 ^ 32)"
    unfolding sim_mulh_def Let_def shift_32 halves word_of_int_collect(1) r0
    by (simp only: and_lo_mask word_of_int_collect signed_drop_bit_word_of_int [OF R]
        signed_drop_bit_word_of_int [OF R1])
  also have "\<dots> = word_of_int ((ah * 2 ^ 32 + al) * (bh * 2 ^ 32 + bl) div 2 ^ 64)"
    unfolding R_def by (simp only: high_product_64)
  also have "ah * 2 ^ 32 + al = sint a" by (simp only: defs div_mult_mod_eq)
  also have "bh * 2 ^ 32 + bl = sint b" by (simp only: defs div_mult_mod_eq)
  finally show ?thesis .
qed

lemma sim_mulhu_eq: "sim_mulhu a b = word_of_int (uint a * uint b div 2 ^ 64)"
proof -
  define ah al bh bl where defs: "ah = uint a div 2 ^ 32" "al = uint a mod 2 ^ 32"
    "bh = uint b div 2 ^ 32" "bl = uint b mod 2 ^ 32"
  define R where "R = al * bl div 2 ^ 32 + ah * bl"
  note halves = unsigned_halves [of a, folded defs] unsigned_halves [of b, folded defs]
  have bnd: "0 \<le> al" "al \<le> 2 ^ 32 - 1" "0 \<le> bl" "bl \<le> 2 ^ 32 - 1"
    "0 \<le> ah" "ah \<le> 2 ^ 32 - 1" "0 \<le> bh" "bh \<le> 2 ^ 32 - 1"
    unfolding defs by (rule half_bounds uint_half_bounds)+
  note r0 = product_halves(1) [OF bnd(1-4), of ah, folded R_def]
  have R: "0 \<le> R" "R < 2 ^ 64"
    using mult_bounds [OF bnd(5,6,3,4)] product_halves(2,3) [OF bnd(1-4)] unfolding R_def by simp_all
  have R1: "0 \<le> R mod 2 ^ 32 + al * bh" "R mod 2 ^ 32 + al * bh < 2 ^ 64"
    using mult_bounds [OF bnd(1,2,7,8)] half_bounds [of R] by simp_all
  have "sim_mulhu a b = word_of_int (ah * bh + R div 2 ^ 32 + (R mod 2 ^ 32 + al * bh) div 2 ^ 32)"
    unfolding sim_mulhu_def Let_def shift_32 halves word_of_int_collect(1) r0
    by (simp only: and_lo_mask word_of_int_collect drop_bit_word_of_int [OF R]
        drop_bit_word_of_int [OF R1])
  also have "\<dots> = word_of_int ((ah * 2 ^ 32 + al) * (bh * 2 ^ 32 + bl) div 2 ^ 64)"
    unfolding R_def by (simp only: high_product_64)
  also have "ah * 2 ^ 32 + al = uint a" by (simp only: defs div_mult_mod_eq)
  also have "bh * 2 ^ 32 + bl = uint b" by (simp only: defs div_mult_mod_eq)
  finally show ?thesis .
qed

lemma sim_mulhsu_eq: "sim_mulhsu a b = word_of_int (sint a * uint b div 2 ^ 64)"
proof -
  define ah al bh bl where defs: "ah = sint a div 2 ^ 32" "al = sint a mod 2 ^ 32"
    "bh = uint b div 2 ^ 32" "bl = uint b mod 2 ^ 32"
  define R where "R = al * bl div 2 ^ 32 + ah * bl"
  note halves = signed_halves [of a, folded defs] unsigned_halves [of b, folded defs]
  have bnd: "0 \<le> al" "al \<le> 2 ^ 32 - 1" "0 \<le> bl" "bl \<le> 2 ^ 32 - 1"
    "- (2 ^ 31) \<le> ah" "ah \<le> 2 ^ 31 - 1" "0 \<le> bh" "bh \<le> 2 ^ 32 - 1"
    unfolding defs by (rule half_bounds sint_half_bounds uint_half_bounds)+
  note r0 = product_halves(1) [OF bnd(1-4), of ah, folded R_def]
  have R: "- (2 ^ 63) \<le> R" "R < 2 ^ 63"
    using mult_signed_bounds [OF bnd(5,6,3,4)] product_halves(2,3) [OF bnd(1-4)]
    unfolding R_def by simp_all
  have R1: "0 \<le> R mod 2 ^ 32 + al * bh" "R mod 2 ^ 32 + al * bh < 2 ^ 64"
    using mult_bounds [OF bnd(1,2,7,8)] half_bounds [of R] by simp_all
  have "sim_mulhsu a b = word_of_int (ah * bh + R div 2 ^ 32 + (R mod 2 ^ 32 + al * bh) div 2 ^ 32)"
    unfolding sim_mulhsu_def Let_def shift_32 halves word_of_int_collect(1) r0
    by (simp only: and_lo_mask word_of_int_collect signed_drop_bit_word_of_int [OF R]
        drop_bit_word_of_int [OF R1])
  also have "\<dots> = word_of_int ((ah * 2 ^ 32 + al) * (bh * 2 ^ 32 + bl) div 2 ^ 64)"
    unfolding R_def by (simp only: high_product_64)
  also have "ah * 2 ^ 32 + al = sint a" by (simp only: defs div_mult_mod_eq)
  also have "bh * 2 ^ 32 + bl = uint b" by (simp only: defs div_mult_mod_eq)
  finally show ?thesis .
qed

section \<open>Division\<close>

lemma sdiv_smod_eq: "x sdiv y * y + x smod y = (x :: int)"
proof -
  have "x sdiv y * y + x smod y = sgn x * (\<bar>x\<bar> div \<bar>y\<bar> * (y * sgn y) + \<bar>x\<bar> mod \<bar>y\<bar>)"
    by (simp add: signed_divide_int_def signed_modulo_int_def algebra_simps)
  also have "y * sgn y = \<bar>y\<bar>" by (simp only: abs_sgn)
  finally show ?thesis by (simp add: sgn_mult_abs)
qed

lemma sim_div_rem:
  assumes "b \<noteq> 0"
  shows "sim_div a b * b + sim_rem a b = a"
proof -
  have "sint a sdiv sint b * sint b + sint a smod sint b = sint a" by (rule sdiv_smod_eq)
  then have "word_of_int (sint a sdiv sint b) * b + word_of_int (sint a smod sint b) = a"
    by (metis of_int_add of_int_mult word_of_int_sint)
  then show ?thesis using assms by (auto simp: sim_div_def sim_rem_def)
qed

lemma smod_bounds:
  fixes x y :: int
  assumes "y \<noteq> 0"
  shows "\<bar>x smod y\<bar> < \<bar>y\<bar>" "x smod y = 0 \<or> sgn (x smod y) = sgn x"
proof -
  have e: "x smod y = sgn x * (\<bar>x\<bar> mod \<bar>y\<bar>)"
    by (simp add: signed_modulo_int_def signed_divide_int_def minus_div_mult_eq_mod [symmetric] algebra_simps)
  have "0 \<le> \<bar>x\<bar> mod \<bar>y\<bar>" "\<bar>x\<bar> mod \<bar>y\<bar> < \<bar>y\<bar>" using assms by simp_all
  then show "\<bar>x smod y\<bar> < \<bar>y\<bar>" "x smod y = 0 \<or> sgn (x smod y) = sgn x"
    unfolding e using assms by (auto simp: abs_mult sgn_mult abs_sgn_eq sgn_1_pos order_le_less)
qed

lemma sint_sim_rem:
  assumes "b \<noteq> 0"
  shows "sint (sim_rem a b) = sint a smod sint b"
proof -
  have b: "sint b \<noteq> 0" using assms by (metis word_of_int_sint of_int_0)
  have "\<bar>sint b\<bar> \<le> 2 ^ 63" using sint_ge [of b] sint_lt [of b] by simp
  then have "\<bar>sint a smod sint b\<bar> < 2 ^ 63" using smod_bounds(1) [OF b, of "sint a"] by linarith
  then have "sint (word_of_int (sint a smod sint b) :: u64) = sint a smod sint b"
    by (simp add: signed_of_int signed_take_bit_int_eq_self_iff abs_less_iff)
  moreover have "x smod (-1) = 0" for x :: int using smod_bounds(1) [of "-1" x] by simp
  ultimately show ?thesis using assms by (auto simp: sim_rem_def)
qed
lemma sdiv_bounds:
  fixes x y :: int
  assumes "- (2 ^ 63) \<le> x" "x < 2 ^ 63" "y \<noteq> 0" "\<not> (y = -1 \<and> x = - (2 ^ 63))"
  shows "- (2 ^ 63) \<le> x sdiv y" "x sdiv y < 2 ^ 63"
proof -
  have "\<bar>x sdiv y\<bar> = \<bar>x\<bar> div \<bar>y\<bar>"
    using assms(3)
    by (cases "x = 0") (simp_all add: signed_divide_int_def abs_mult abs_sgn_eq pos_imp_zdiv_nonneg_iff)
  moreover have "\<bar>x\<bar> div \<bar>y\<bar> \<le> \<bar>x\<bar>"
  proof -
    have "0 \<le> \<bar>x\<bar> div \<bar>y\<bar>" using assms(3) by (simp add: pos_imp_zdiv_nonneg_iff)
    then have "\<bar>x\<bar> div \<bar>y\<bar> * 1 \<le> \<bar>x\<bar> div \<bar>y\<bar> * \<bar>y\<bar>" using assms(3) by (intro mult_left_mono) auto
    also have "\<dots> \<le> \<bar>x\<bar>"
      using div_mult_mod_eq [of "\<bar>x\<bar>" "\<bar>y\<bar>"] pos_mod_sign [of "\<bar>y\<bar>" "\<bar>x\<bar>"] assms(3) by linarith
    finally show ?thesis by simp
  qed
  moreover have "\<bar>x\<bar> \<le> 2 ^ 63" using assms(1,2) by simp
  ultimately have *: "\<bar>x sdiv y\<bar> \<le> 2 ^ 63" by linarith
  then show "- (2 ^ 63) \<le> x sdiv y" by linarith
  have "x sdiv y \<noteq> 2 ^ 63"
  proof
    assume eq: "x sdiv y = 2 ^ 63"
    then have "\<bar>x\<bar> div \<bar>y\<bar> = 2 ^ 63" using \<open>\<bar>x sdiv y\<bar> = \<bar>x\<bar> div \<bar>y\<bar>\<close> by simp
    moreover have "\<bar>x\<bar> div \<bar>y\<bar> < \<bar>x\<bar>" if "1 < \<bar>y\<bar>" "0 < \<bar>x\<bar>"
      using that by (rule int_div_less_self [rotated])
    ultimately have "\<bar>y\<bar> = 1" using \<open>\<bar>x\<bar> \<le> 2 ^ 63\<close> assms(3) by fastforce
    then have "y = 1 \<or> y = -1" by linarith
    then show False using eq assms(1,2,4) by (auto simp: signed_divide_int_def sgn_if split: if_splits)
  qed
  then show "x sdiv y < 2 ^ 63" using * by linarith
qed

section \<open>Single bits and extensions\<close>

lemma unat_and_63: "unat ((b :: u64) AND (64 - 1)) = unat b mod 64"
proof -
  have "(64 - 1 :: u64) = 63" by simp
  then have "unat (b AND (64 - 1)) = take_bit 6 (unat b)"
    by (simp only: and_numeral_take_bit unsigned_take_bit_eq)
  then show ?thesis by (simp add: take_bit_eq_mod)
qed

lemma drop_bit_and_1: "drop_bit i (b :: u64) AND 1 \<noteq> 0 \<longleftrightarrow> bit b i"
proof -
  have "drop_bit i b AND 1 = of_bool (bit b i)"
    by (rule bit_word_eqI) (auto simp: bit_simps)
  then show ?thesis by simp
qed

lemma bit_sim_single:
  fixes a b :: u64
  assumes "i < 64"
  shows "bit (sim_bset a b) i \<longleftrightarrow> bit a i \<or> i = unat b mod 64"
    and "bit (sim_bclr a b) i \<longleftrightarrow> bit a i \<and> i \<noteq> unat b mod 64"
    and "bit (sim_binv a b) i \<longleftrightarrow> bit a i \<noteq> (i = unat b mod 64)"
    and "sim_bext a b \<noteq> 0 \<longleftrightarrow> bit a (unat b mod 64)"
  unfolding sim_bset_def sim_bclr_def sim_binv_def sim_bext_def unat_and_63 drop_bit_and_1
  using assms by (auto simp: bit_simps)

lemma sim_extend_eq:
  "sim_sextb a = signed_take_bit 7 a" "sim_sexth a = signed_take_bit 15 a"
  "sim_zextb a = take_bit 8 a" "sim_zexth a = take_bit 16 a" "sim_zextw a = take_bit 32 a"
  using shift_pair_signed_take_bit [of 8 a] shift_pair_signed_take_bit [of 16 a]
  by (simp_all add: sim_sextb_def sim_sexth_def sim_zextb_def sim_zexth_def sim_zextw_def
      bit_eq_iff bit_simps)

section \<open>Carry-less products\<close>

definition clmul_bit :: "u64 \<Rightarrow> u64 \<Rightarrow> nat \<Rightarrow> bool" where
  "clmul_bit a b k = odd (card {j. j < 64 \<and> j \<le> k \<and> bit b j \<and> bit a (k - j)})"

lemma bit_foldl_xor:
  fixes r :: "'a::len word"
  shows "bit (foldl (\<lambda>result i. if P i then result XOR f i else result) r xs) k \<longleftrightarrow>
    bit r k \<noteq> odd (length (filter (\<lambda>i. P i \<and> bit (f i) k) xs))"
  by (induction xs arbitrary: r) (auto simp: bit_simps)

lemma odd_length_filter_upt:
  "odd (length (filter Q [m..<n])) \<longleftrightarrow> odd (card {j. m \<le> j \<and> j < n \<and> Q j})"
proof -
  have "distinct (filter Q [m..<n])" by simp
  then have "length (filter Q [m..<n]) = card (set (filter Q [m..<n]))"
    by (simp only: distinct_card)
  also have "set (filter Q [m..<n]) = {j. m \<le> j \<and> j < n \<and> Q j}" by auto
  finally show ?thesis by simp
qed

lemma bit_sim_clmul:
  assumes "i < 64"
  shows "bit (sim_clmul a b) i \<longleftrightarrow> clmul_bit a b i"
    and "bit (sim_clmulh a b) i \<longleftrightarrow> clmul_bit a b (64 + i)"
    and "bit (sim_clmulr a b) i \<longleftrightarrow> clmul_bit a b (63 + i)"
proof -
  have "{j. 0 \<le> j \<and> j < 64 \<and> bit b j \<and> bit (push_bit j a) i} =
      {j. j < 64 \<and> j \<le> i \<and> bit b j \<and> bit a (i - j)}"
    using assms by (auto simp: bit_simps)
  then show "bit (sim_clmul a b) i \<longleftrightarrow> clmul_bit a b i"
    unfolding sim_clmul_def clmul_bit_def drop_bit_and_1 bit_foldl_xor odd_length_filter_upt by simp
  have "{j. 1 \<le> j \<and> j < 64 \<and> bit b j \<and> bit (drop_bit (64 - j) a) i} =
      {j. j < 64 \<and> j \<le> 64 + i \<and> bit b j \<and> bit a (64 + i - j)}"
    using assms by (auto simp: bit_simps dest: bit_imp_le_length)
  then show "bit (sim_clmulh a b) i \<longleftrightarrow> clmul_bit a b (64 + i)"
    unfolding sim_clmulh_def clmul_bit_def drop_bit_and_1 bit_foldl_xor odd_length_filter_upt by simp
  have "{j. 0 \<le> j \<and> j < 64 \<and> bit b j \<and> bit (drop_bit (64 - j - 1) a) i} =
      {j. j < 64 \<and> j \<le> 63 + i \<and> bit b j \<and> bit a (63 + i - j)}"
    using assms by (auto simp: bit_simps)
  then show "bit (sim_clmulr a b) i \<longleftrightarrow> clmul_bit a b (63 + i)"
    unfolding sim_clmulr_def clmul_bit_def drop_bit_and_1 bit_foldl_xor odd_length_filter_upt by simp
qed

section \<open>The helpers as mathematical functions\<close>

lemma min_div_rem:
  "(- (2 ^ 63) :: int) sdiv (- 1) = 2 ^ 63" "(- (2 ^ 63) :: int) smod (- 1) = 0"
  "(- (2 ^ 31) :: int) sdiv (- 1) = 2 ^ 31" "(- (2 ^ 31) :: int) smod (- 1) = 0"
  by (simp_all add: signed_divide_int_def signed_modulo_int_def)

lemma sint_min: "sint (kMinIntX :: u64) = - (2 ^ 63)" "sint (kMinInt32 :: u32) = - (2 ^ 31)"
  by (simp_all add: sint_uint)

lemma smod_one: "(n :: int) smod 1 = 0"
  by (simp add: signed_modulo_int_def signed_divide_int_def sgn_if)

text \<open>Division rounds toward zero, and the quotient that overflows wraps around.\<close>

lemma sim_division_functions:
  "sim_div = (\<lambda>x y. if y = 0 then - 1 else word_of_int (sint x sdiv sint y))"
  "sim_rem = (\<lambda>x y. if y = 0 then x else word_of_int (sint x smod sint y))"
  "sim_divu = (\<lambda>x y. if y = 0 then - 1 else x div y)" "sim_remu = (\<lambda>x y. x mod y)"
  "sim_divw = (\<lambda>x y. if y = 0 then - 1 else word_of_int (sint x sdiv sint y))"
  "sim_remw = (\<lambda>x y. if y = 0 then x else word_of_int (sint x smod sint y))"
  "sim_divuw = (\<lambda>x y. if y = 0 then - 1 else x div y)" "sim_remuw = (\<lambda>x y. x mod y)"
  unfolding fun_eq_iff
  by (simp_all add: sim_div_def sim_rem_def sim_divu_def sim_remu_def sim_divw_def sim_remw_def sim_divuw_def sim_remuw_def
      sint_min min_div_rem smod_one)

lemma sim_product_functions:
  "sim_mul = (\<lambda>x y. x * y)" "sim_mulw = (\<lambda>x y. x * y)" "sim_mulh = (\<lambda>x y. word_of_int (sint x * sint y div 2 ^ 64))"
  "sim_mulhu = (\<lambda>x y. word_of_int (uint x * uint y div 2 ^ 64))"
  "sim_mulhsu = (\<lambda>x y. word_of_int (sint x * uint y div 2 ^ 64))"
  unfolding fun_eq_iff by (simp_all only: sim_mul_def sim_mulw_def sim_mulh_eq sim_mulhu_eq sim_mulhsu_eq simp_thms)

lemma sim_order_functions:
  "sim_max = (\<lambda>x y. if sint x > sint y then x else y)" "sim_min = (\<lambda>x y. if sint x < sint y then x else y)"
  "sim_maxu = (\<lambda>x y. max x y)" "sim_minu = (\<lambda>x y. min x y)"
  unfolding fun_eq_iff
  by (auto simp: sim_max_def sim_min_def sim_maxu_def sim_minu_def max_def min_def)

lemma sim_bit_functions:
  "sim_bset = (\<lambda>x y. set_bit (unat y mod 64) x)" "sim_bclr = (\<lambda>x y. unset_bit (unat y mod 64) x)"
  "sim_binv = (\<lambda>x y. flip_bit (unat y mod 64) x)" "sim_bext = (\<lambda>x y. of_bool (bit x (unat y mod 64)))"
  unfolding fun_eq_iff sim_bset_def sim_bclr_def sim_binv_def sim_bext_def unat_and_63
  by (simp_all add: set_bit_eq_or unset_bit_eq_and_not flip_bit_eq_xor bit_iff_odd_drop_bit and_one_eq mod_2_eq_odd)

lemma rotate_mod:
  "word_rotr (n mod LENGTH('a)) w = word_rotr n (w :: 'a::len word)" "word_rotl (n mod LENGTH('a)) w = word_rotl n (w :: 'a::len word)"
proof -
  show "word_rotr (n mod LENGTH('a)) w = word_rotr n w"
    by (rule bit_word_eqI) (simp add: bit_word_rotr_iff mod_add_left_eq mod_add_right_eq)
  show "word_rotl (n mod LENGTH('a)) w = word_rotl n w" by (simp add: word_rotl_eq_word_rotr)
qed

lemma sim_rotate_functions:
  "sim_rol = (\<lambda>x y. word_rotl (unat y mod 64) x)" "sim_ror = (\<lambda>x y. word_rotr (unat y mod 64) x)"
  "sim_rolw = (\<lambda>x y. scast (word_rotl (unat y mod 32) (ucast x :: u32)))"
  "sim_rorw = (\<lambda>x y. scast (word_rotr (unat y mod 32) (ucast x :: u32)))"
proof -
  have "word_rotl (n mod 64) w = word_rotl (n mod 32) w" "word_rotr (n mod 64) w = word_rotr (n mod 32) w" for n and w :: u32
    using rotate_mod [of n w] rotate_mod [of "n mod 64" w] by (simp_all add: mod_mod_cancel)
  then show "sim_rolw = (\<lambda>x y. scast (word_rotl (unat y mod 32) (ucast x :: u32)))"
    "sim_rorw = (\<lambda>x y. scast (word_rotr (unat y mod 32) (ucast x :: u32)))"
    unfolding fun_eq_iff sim_rolw_def sim_rorw_def unat_and_63 by simp_all
qed (unfold fun_eq_iff sim_rol_def sim_ror_def unat_and_63, simp_all)

lemma bit_horner_clmul:
  "i < 64 \<Longrightarrow> bit (horner_sum of_bool 2 (map f [m..<m + 64]) :: u64) i \<longleftrightarrow> f (m + i)"
  by (simp add: bit_horner_sum_bit_word_iff)

lemma sim_clmul_functions:
  "sim_clmul = (\<lambda>x y. horner_sum of_bool 2 (map (clmul_bit x y) [0..<64]))"
  "sim_clmulh = (\<lambda>x y. horner_sum of_bool 2 (map (clmul_bit x y) [64..<128]))"
  "sim_clmulr = (\<lambda>x y. horner_sum of_bool 2 (map (clmul_bit x y) [63..<127]))"
proof -
  show "sim_clmul = (\<lambda>x y. horner_sum of_bool 2 (map (clmul_bit x y) [0..<64]))"
    by (intro ext bit_word_eqI) (use bit_horner_clmul [of _ _ 0] in \<open>simp add: bit_sim_clmul\<close>)
  show "sim_clmulh = (\<lambda>x y. horner_sum of_bool 2 (map (clmul_bit x y) [64..<128]))"
    by (intro ext bit_word_eqI) (use bit_horner_clmul [of _ _ 64] in \<open>simp add: bit_sim_clmul\<close>)
  show "sim_clmulr = (\<lambda>x y. horner_sum of_bool 2 (map (clmul_bit x y) [63..<127]))"
    by (intro ext bit_word_eqI) (use bit_horner_clmul [of _ _ 63] in \<open>simp add: bit_sim_clmul\<close>)
qed

lemmas sim_functions = sim_division_functions sim_product_functions sim_order_functions sim_bit_functions
  sim_rotate_functions sim_clmul_functions

end
