(* ===== verification/SimMemory.thy ===== *)
theory SimMemory
  imports PlatformUtils
begin

text \<open>
  The memory of the simulator, \<^verbatim>\<open>runtime/vm/simulator_memory.h\<close>. Host memory is a total function
  from 64-bit addresses to bytes, little-endian; a template instance for \<open>T\<close> is the operation at
  \<open>sizeof (T)\<close> bytes, with the value in the low bits of a 64-bit word. \<open>BufferedSimulatorMemory\<close>
  keeps up to 16 pending words and writes them back late; the first \<open>size_\<close> elements of its array
  are the list \<open>buffer_m\<close> of the model. A data member \<open>x_\<close> of a C++ class is the field \<open>x_m\<close>
  throughout, since no Isabelle name ends in an underscore.

  A locale states what a client may rely on, in terms of the memory the client observes; the direct
  memory, the buffered memory and the switch between them are interpretations of it, so for
  accesses that are not atomic the store buffer cannot be observed. Atomic accesses bypass the
  buffer after \<open>FlushAddress\<close>; they agree with the observed memory when the address is aligned to
  a word; that a narrow access can miss a buffered store otherwise is among the properties of the root
  theory.
\<close>

section \<open>Bytes\<close>

type_synonym ram = "u64 \<Rightarrow> u8"

fun load_le :: "nat \<Rightarrow> ram \<Rightarrow> u64 \<Rightarrow> u64" where
  "load_le 0 m a = 0"
| "load_le (Suc n) m a = ucast (m a) OR push_bit 8 (load_le n m (a + 1))"

fun store_le :: "nat \<Rightarrow> ram \<Rightarrow> u64 \<Rightarrow> u64 \<Rightarrow> ram" where
  "store_le 0 m a v = m"
| "store_le (Suc n) m a v = store_le n (m(a := ucast v)) (a + 1) (drop_bit 8 v)"

definition byte_of :: "u64 \<Rightarrow> nat \<Rightarrow> u8" where
  "byte_of v k = ucast (drop_bit (8 * k) v)"

section \<open>Direct memory\<close>

definition Direct_Load :: "nat \<Rightarrow> ram \<Rightarrow> u64 \<Rightarrow> u64 \<times> ram" where
  "Direct_Load n m addr = (load_le n m addr, m)"

definition Direct_Store :: "nat \<Rightarrow> ram \<Rightarrow> u64 \<Rightarrow> u64 \<Rightarrow> ram" where
  "Direct_Store n m addr val = store_le n m addr val"

text \<open>\<open>spurious\<close> is the freedom that \<open>compare_exchange_weak\<close> has to fail although the values
  agree. The result is the success flag and the value left in \<open>old_value\<close>.\<close>

definition Direct_CompareExchange ::
    "bool \<Rightarrow> nat \<Rightarrow> ram \<Rightarrow> u64 \<Rightarrow> u64 \<Rightarrow> u64 \<Rightarrow> (bool \<times> u64) \<times> ram" where
  "Direct_CompareExchange spurious n m addr old_value val =
     (let current = load_le n m addr
      in if current = take_bit (8 * n) old_value \<and> \<not> spurious
         then ((True, old_value), store_le n m addr val)
         else ((False, current), m))"

section \<open>Buffered memory\<close>

datatype Entry = Entry (e_addr: u64) (e_value: u64)

abbreviation (input) kCapacity :: nat where "kCapacity \<equiv> 16"

record BufferedSimulatorMemory =
  host_m :: ram
  buffer_m :: "Entry list"

fun find_entry :: "Entry list \<Rightarrow> u64 \<Rightarrow> nat \<Rightarrow> nat option" where
  "find_entry b word_addr 0 = None"
| "find_entry b word_addr (Suc i) =
     (if e_addr (b ! i) = word_addr then Some i else find_entry b word_addr i)"

definition swap_remove :: "'a list \<Rightarrow> nat \<Rightarrow> 'a list" where
  "swap_remove b i = butlast (b[i := last b])"

fun flush_entries :: "Entry list \<Rightarrow> ram \<Rightarrow> ram" where
  "flush_entries [] m = m"
| "flush_entries (e # es) m = flush_entries es (store_le 8 m (e_addr e) (e_value e))"

definition FlushAll :: "'a BufferedSimulatorMemory_scheme \<Rightarrow> 'a BufferedSimulatorMemory_scheme" where
  "FlushAll s = s\<lparr>host_m := flush_entries (buffer_m s) (host_m s), buffer_m := []\<rparr>"

definition flush_index :: "u64 \<Rightarrow> nat \<Rightarrow> int" where
  "flush_index val n =
     (let i = val;
          i = i XOR signed_drop_bit 4 i;
          i = i XOR signed_drop_bit 8 i
      in sint i smod int n)"

function FlushSome_loop :: "ram \<Rightarrow> Entry list \<Rightarrow> ram \<times> Entry list" where
  "FlushSome_loop m b =
     (if length b > kCapacity div 2
      then let i = nat (flush_index (e_value (b ! 0)) (length b))
           in FlushSome_loop (store_le 8 m (e_addr (b ! i)) (e_value (b ! i))) (swap_remove b i)
      else (m, b))"
  by pat_completeness auto
termination
  by (relation "measure (\<lambda>(m, b). length b)") (auto simp: swap_remove_def)

declare FlushSome_loop.simps [simp del]

definition FlushSome :: "'a BufferedSimulatorMemory_scheme \<Rightarrow> 'a BufferedSimulatorMemory_scheme" where
  "FlushSome s = (let (m, b) = FlushSome_loop (host_m s) (buffer_m s) in s\<lparr>host_m := m, buffer_m := b\<rparr>)"

definition needs_flush :: "nat \<Rightarrow> u64 \<Rightarrow> bool" where
  "needs_flush n addr = (n > 8 \<or> addr AND (of_nat n - 1) \<noteq> 0)"

definition Buffered_Load ::
    "nat \<Rightarrow> 'a BufferedSimulatorMemory_scheme \<Rightarrow> u64 \<Rightarrow> u64 \<times> 'a BufferedSimulatorMemory_scheme" where
  "Buffered_Load n s addr =
     (if needs_flush n addr
      then let s = FlushAll s in (load_le n (host_m s) addr, s)
      else let word_addr = addr AND NOT 7;
               word_offset = addr - word_addr
           in case find_entry (buffer_m s) word_addr (length (buffer_m s)) of
                Some i \<Rightarrow> (take_bit (8 * n) (drop_bit (8 * unat word_offset) (e_value (buffer_m s ! i))), s)
              | None \<Rightarrow> (load_le n (host_m s) addr, s))"

definition put_bytes :: "nat \<Rightarrow> u64 \<Rightarrow> u64 \<Rightarrow> u64 \<Rightarrow> u64" where
  "put_bytes n word word_offset val =
     (word AND NOT (push_bit (8 * unat word_offset) (mask (8 * n))))
       OR push_bit (8 * unat word_offset) (take_bit (8 * n) val)"

definition Buffered_Store ::
    "nat \<Rightarrow> 'a BufferedSimulatorMemory_scheme \<Rightarrow> u64 \<Rightarrow> u64 \<Rightarrow> 'a BufferedSimulatorMemory_scheme" where
  "Buffered_Store n s addr val =
     (if needs_flush n addr
      then let s = FlushAll s in s\<lparr>host_m := store_le n (host_m s) addr val\<rparr>
      else let word_addr = addr AND NOT 7;
               word_offset = addr - word_addr
           in case find_entry (buffer_m s) word_addr (length (buffer_m s)) of
                Some i \<Rightarrow>
                  s\<lparr>buffer_m := (buffer_m s)[i := Entry (e_addr (buffer_m s ! i))
                       (put_bytes n (e_value (buffer_m s ! i)) word_offset val)]\<rparr>
              | None \<Rightarrow>
                  (let s = s\<lparr>buffer_m := buffer_m s @
                         [Entry word_addr (put_bytes n (load_le 8 (host_m s) word_addr) word_offset val)]\<rparr>
                   in if length (buffer_m s) = kCapacity then FlushSome s else s))"

function FlushAddress_loop :: "u64 \<Rightarrow> nat \<Rightarrow> ram \<Rightarrow> Entry list \<Rightarrow> ram \<times> Entry list" where
  "FlushAddress_loop addr i m b =
     (if i < length b
      then if e_addr (b ! i) = addr
           then FlushAddress_loop addr (Suc i) (store_le 8 m (e_addr (b ! i)) (e_value (b ! i)))
                  (swap_remove b i)
           else FlushAddress_loop addr (Suc i) m b
      else (m, b))"
  by pat_completeness auto
termination
  by (relation "measure (\<lambda>(addr, i, m, b). length b - i)") (auto simp: swap_remove_def)

declare FlushAddress_loop.simps [simp del]

definition FlushAddress :: "'a BufferedSimulatorMemory_scheme \<Rightarrow> u64 \<Rightarrow> 'a BufferedSimulatorMemory_scheme" where
  "FlushAddress s addr =
     (let (m, b) = FlushAddress_loop addr 0 (host_m s) (buffer_m s) in s\<lparr>host_m := m, buffer_m := b\<rparr>)"

definition Buffered_Load_atomic ::
    "nat \<Rightarrow> 'a BufferedSimulatorMemory_scheme \<Rightarrow> u64 \<Rightarrow> u64 \<times> 'a BufferedSimulatorMemory_scheme" where
  "Buffered_Load_atomic n s addr = (let s = FlushAddress s addr in (load_le n (host_m s) addr, s))"

definition Buffered_Store_atomic ::
    "nat \<Rightarrow> 'a BufferedSimulatorMemory_scheme \<Rightarrow> u64 \<Rightarrow> u64 \<Rightarrow> 'a BufferedSimulatorMemory_scheme" where
  "Buffered_Store_atomic n s addr val =
     (let s = FlushAddress s addr in s\<lparr>host_m := store_le n (host_m s) addr val\<rparr>)"

definition Buffered_CompareExchange ::
    "bool \<Rightarrow> nat \<Rightarrow> 'a BufferedSimulatorMemory_scheme \<Rightarrow> u64 \<Rightarrow> u64 \<Rightarrow> u64 \<Rightarrow>
     (bool \<times> u64) \<times> 'a BufferedSimulatorMemory_scheme" where
  "Buffered_CompareExchange spurious n s addr old_value val =
     (let s = FlushAddress s addr;
          (r, m) = Direct_CompareExchange spurious n (host_m s) addr old_value val
      in (r, s\<lparr>host_m := m\<rparr>))"

section \<open>The switch between the two\<close>

record SimulatorMemory = BufferedSimulatorMemory +
  use_buffered_m :: bool

definition Memory_Load :: "nat \<Rightarrow> SimulatorMemory \<Rightarrow> u64 \<Rightarrow> u64 \<times> SimulatorMemory" where
  "Memory_Load n s addr =
     (if use_buffered_m s then Buffered_Load n s addr
      else let (v, m) = Direct_Load n (host_m s) addr in (v, s\<lparr>host_m := m\<rparr>))"

definition Memory_Store :: "nat \<Rightarrow> SimulatorMemory \<Rightarrow> u64 \<Rightarrow> u64 \<Rightarrow> SimulatorMemory" where
  "Memory_Store n s addr val =
     (if use_buffered_m s then Buffered_Store n s addr val
      else s\<lparr>host_m := Direct_Store n (host_m s) addr val\<rparr>)"

definition Memory_Load_atomic :: "nat \<Rightarrow> SimulatorMemory \<Rightarrow> u64 \<Rightarrow> u64 \<times> SimulatorMemory" where
  "Memory_Load_atomic n s addr =
     (if use_buffered_m s then Buffered_Load_atomic n s addr
      else let (v, m) = Direct_Load n (host_m s) addr in (v, s\<lparr>host_m := m\<rparr>))"

definition Memory_Store_atomic :: "nat \<Rightarrow> SimulatorMemory \<Rightarrow> u64 \<Rightarrow> u64 \<Rightarrow> SimulatorMemory" where
  "Memory_Store_atomic n s addr val =
     (if use_buffered_m s then Buffered_Store_atomic n s addr val
      else s\<lparr>host_m := Direct_Store n (host_m s) addr val\<rparr>)"

definition Memory_CompareExchange ::
    "bool \<Rightarrow> nat \<Rightarrow> SimulatorMemory \<Rightarrow> u64 \<Rightarrow> u64 \<Rightarrow> u64 \<Rightarrow> (bool \<times> u64) \<times> SimulatorMemory" where
  "Memory_CompareExchange spurious n s addr old_value val =
     (if use_buffered_m s then Buffered_CompareExchange spurious n s addr old_value val
      else let (r, m) = Direct_CompareExchange spurious n (host_m s) addr old_value val
           in (r, s\<lparr>host_m := m\<rparr>))"

definition Memory_FlushAddress :: "SimulatorMemory \<Rightarrow> u64 \<Rightarrow> SimulatorMemory" where
  "Memory_FlushAddress s addr = (if use_buffered_m s then FlushAddress s addr else s)"

definition Memory_FlushAll :: "SimulatorMemory \<Rightarrow> SimulatorMemory" where
  "Memory_FlushAll s = (if use_buffered_m s then FlushAll s else s)"

section \<open>Bytes of loads and stores\<close>

lemma store_le_apply:
  assumes "n \<le> 16"
  shows "store_le n m a v x =
    (if unat (x - a) < n then byte_of v (unat (x - a)) else m x)"
  using assms
proof (induction n arbitrary: m a v)
  case (Suc n)
  show ?case
  proof (cases "x = a")
    case True
    have "\<not> unat (a - (a + 1)) < n"
      using Suc.prems by (simp add: unsigned_minus_1_eq_mask mask_eq_exp_minus_1)
    then show ?thesis using True Suc by (simp add: byte_of_def)
  next
    case False
    then have pos: "x - a \<noteq> 0" by simp
    have "x - (a + 1) = (x - a) - 1" by simp
    then have "unat (x - (a + 1)) = unat (x - a) - 1"
      using unat_minus_one [OF pos] by (simp only:)
    moreover have "0 < unat (x - a)" using pos by (simp add: unat_gt_0)
    moreover have "byte_of (drop_bit 8 v) k = byte_of v (Suc k)" for k
      by (simp add: byte_of_def drop_bit_drop_bit add.commute)
    ultimately show ?thesis
      using Suc False by (cases "unat (x - a)") auto
  qed
qed simp

lemma word_split: "(x :: u64) = (x AND NOT 7) + (x AND 7)"
proof -
  have "(x AND NOT 7) AND (x AND 7) = 0" by (rule bit_word_eqI) (auto simp: bit_simps)
  then have "(x AND NOT 7) + (x AND 7) = (x AND NOT 7) OR (x AND 7)"
    by (rule disjunctive_add_eq_or)
  also have "\<dots> = x" by (rule bit_word_eqI) (auto simp: bit_simps)
  finally show ?thesis by simp
qed

lemma word_offset_eq: "x - (x AND NOT 7) = (x :: u64) AND 7"
  using word_split [of x] by (metis add_diff_cancel_left')

lemma unat_and_7: "unat ((x :: u64) AND 7) < 8"
proof -
  have "unat (x AND 7) = unat x mod 8"
    by (simp only: and_numeral_take_bit unsigned_take_bit_eq) (simp add: take_bit_eq_mod)
  then show ?thesis by simp
qed

lemma and_7_self: "unat (d :: u64) < 8 \<Longrightarrow> d AND 7 = d"
proof -
  assume "unat d < 8"
  then have "unat (take_bit 3 d) = unat d"
    by (simp add: unsigned_take_bit_eq take_bit_nat_eq_self_iff)
  then have "take_bit 3 d = d" by (rule unsigned_word_eqI)
  then show ?thesis by (simp add: and_numeral_take_bit)
qed

lemma in_word_iff:
  fixes a x :: u64
  assumes "a AND 7 = 0"
  shows "unat (x - a) < 8 \<longleftrightarrow> x AND NOT 7 = a"
proof
  assume "unat (x - a) < 8"
  then have d: "(x - a) AND 7 = x - a" by (rule and_7_self)
  have "a AND (x - a) = (a AND 7) AND (x - a)" by (subst d [symmetric]) (simp only: ac_simps)
  then have "a AND (x - a) = 0" by (simp add: assms)
  then have "a + (x - a) = a OR (x - a)" by (rule disjunctive_add_eq_or)
  then have x: "x = a OR (x - a)" by simp
  have "(x - a) AND NOT 7 = (x - a) AND (7 AND NOT 7)"
    by (subst d [symmetric]) (simp only: ac_simps)
  then have "(x - a) AND NOT 7 = 0" by simp
  moreover have "a AND NOT 7 = a" using word_split [of a] assms by simp
  ultimately have "(a OR (x - a)) AND NOT 7 = a" by (simp add: bit.conj_disj_distrib2)
  then show "x AND NOT 7 = a" by (simp only: x [symmetric])
next
  assume "x AND NOT 7 = a"
  then show "unat (x - a) < 8" using word_offset_eq [of x] unat_and_7 [of x] by simp
qed

lemma bit_load_le:
  "bit (load_le n m a) i \<longleftrightarrow> i < 64 \<and> i div 8 < n \<and> bit (m (a + of_nat (i div 8))) (i mod 8)"
proof (induction n arbitrary: a i)
  case (Suc n)
  show ?case
  proof (cases "i < 8")
    case True
    then show ?thesis by (auto simp: bit_simps)
  next
    case False
    define j where "j = i - 8"
    have i: "i = 8 + j" using False by (simp add: j_def)
    have "i div 8 = Suc (j div 8)" "i mod 8 = j mod 8" unfolding i by simp_all
    moreover have "a + 1 + of_nat (j div 8) = a + of_nat (Suc (j div 8))" by simp
    moreover have "bit (load_le (Suc n) m a) i \<longleftrightarrow> i < 64 \<and> bit (load_le n m (a + 1)) j"
      using False by (auto simp: i bit_simps dest: bit_imp_le_length)
    ultimately show ?thesis using Suc.IH [of "a + 1" j] i by (auto simp: add.assoc)
  qed
qed simp

lemma load_le_cong:
  "(\<And>k. k < n \<Longrightarrow> m (a + of_nat k) = m' (a + of_nat k)) \<Longrightarrow> load_le n m a = load_le n m' a"
  by (rule bit_word_eqI) (auto simp: bit_load_le)

lemma load_le_bytes:
  assumes "\<And>k. k < n \<Longrightarrow> m (a + of_nat k) = byte_of v (c + k)" "n \<le> 8"
  shows "load_le n m a = take_bit (8 * n) (drop_bit (8 * c) v)"
proof (rule bit_word_eqI)
  fix i
  have "8 * (c + i div 8) + i mod 8 = 8 * c + i" by simp
  moreover have "i div 8 < n \<longleftrightarrow> i < 8 * n" by auto
  moreover assume "i < LENGTH(64)"
  ultimately show "bit (load_le n m a) i \<longleftrightarrow> bit (take_bit (8 * n) (drop_bit (8 * c) v)) i"
    using assms(1) [of "i div 8"]
    by (auto simp: bit_load_le byte_of_def bit_take_bit_iff bit_drop_bit_eq bit_ucast_iff
        add.commute)
qed

section \<open>What a client observes\<close>

definition entry_at :: "Entry list \<Rightarrow> u64 \<rightharpoonup> u64" where
  "entry_at b = map_of (map (\<lambda>e. (e_addr e, e_value e)) b)"

definition overlay :: "ram \<Rightarrow> Entry list \<Rightarrow> ram" where
  "overlay m b x =
     (case entry_at b (x AND NOT 7) of
        Some v \<Rightarrow> byte_of v (unat (x AND 7))
      | None \<Rightarrow> m x)"

definition buffer_ok :: "Entry list \<Rightarrow> bool" where
  "buffer_ok b = (distinct (map e_addr b) \<and> (\<forall>e \<in> set b. e_addr e AND 7 = 0))"

definition buffered_view :: "'a BufferedSimulatorMemory_scheme \<Rightarrow> ram" where
  "buffered_view s = overlay (host_m s) (buffer_m s)"

definition buffered_ok :: "'a BufferedSimulatorMemory_scheme \<Rightarrow> bool" where
  "buffered_ok s = (buffer_ok (buffer_m s) \<and> length (buffer_m s) < kCapacity)"

lemma store_le_8_aligned:
  assumes "a AND 7 = 0"
  shows "store_le 8 m a v x = (if x AND NOT 7 = a then byte_of v (unat (x AND 7)) else m x)"
proof (cases "x AND NOT 7 = a")
  case True
  then have "x - a = x AND 7" using word_offset_eq [of x] by simp
  then show ?thesis using True unat_and_7 [of x] by (simp add: store_le_apply)
next
  case False
  then show ?thesis using in_word_iff [OF assms, of x] by (simp add: store_le_apply)
qed

lemma entry_at_Some:
  assumes "distinct (map e_addr b)"
  shows "entry_at b w = Some v \<longleftrightarrow> Entry w v \<in> set b"
proof -
  have "distinct (map fst (map (\<lambda>e. (e_addr e, e_value e)) b))"
    using assms by (simp add: comp_def)
  then have "entry_at b w = Some v \<longleftrightarrow> (w, v) \<in> (\<lambda>e. (e_addr e, e_value e)) ` set b"
    unfolding entry_at_def by (simp only: map_of_eq_Some_iff set_map)
  also have "\<dots> \<longleftrightarrow> Entry w v \<in> set b"
    by (auto intro: image_eqI [of _ _ "Entry w v"])
  finally show ?thesis .
qed

lemma swap_remove_snoc:
  "i \<le> length ys \<Longrightarrow> swap_remove (ys @ [z]) i = (if i < length ys then ys[i := z] else ys)"
  by (auto simp: swap_remove_def list_update_append butlast_append)

lemma swap_remove_distinct:
  assumes "distinct b" "i < length b"
  shows "set (swap_remove b i) = set b - {b ! i}" and "distinct (swap_remove b i)"
proof -
  obtain ys z where b: "b = ys @ [z]" using assms(2) by (cases b rule: rev_cases) auto
  show "set (swap_remove b i) = set b - {b ! i}" "distinct (swap_remove b i)"
    using assms
    by (auto simp: b swap_remove_snoc set_update_distinct nth_append distinct_list_update)
qed

lemma map_swap_remove: "i < length b \<Longrightarrow> map f (swap_remove b i) = swap_remove (map f b) i"
  by (cases b rule: rev_cases) (auto simp: swap_remove_snoc map_update)

lemma length_swap_remove: "length (swap_remove b i) = length b - 1"
  by (simp add: swap_remove_def)

lemma entry_at_None: "entry_at b w = None \<longleftrightarrow> w \<notin> e_addr ` set b"
  by (simp add: entry_at_def map_of_eq_None_iff image_image)

lemma entry_at_cong:
  assumes "distinct (map e_addr b)" "distinct (map e_addr b')"
    and "\<And>v. Entry w v \<in> set b' \<longleftrightarrow> Entry w v \<in> set b"
  shows "entry_at b' w = entry_at b w"
proof -
  have "entry_at b' w = Some v \<longleftrightarrow> entry_at b w = Some v" for v
    using assms by (simp add: entry_at_Some)
  then show ?thesis by (cases "entry_at b w"; cases "entry_at b' w") auto
qed

lemma overlay_write_back:
  assumes "buffer_ok b" "e \<in> set b" "distinct (map e_addr b')" "set b' = set b - {e}"
  shows "overlay (store_le 8 m (e_addr e) (e_value e)) b' = overlay m b"
proof
  fix x
  have d: "distinct (map e_addr b)" and al: "e_addr e AND 7 = 0"
    using assms(1,2) by (auto simp: buffer_ok_def)
  have notin: "e_addr e \<notin> e_addr ` set b'"
    using d assms(2,4) by (auto simp: distinct_map inj_on_def)
  show "overlay (store_le 8 m (e_addr e) (e_value e)) b' x = overlay m b x"
  proof (cases "x AND NOT 7 = e_addr e")
    case True
    have "entry_at b' (x AND NOT 7) = None" using notin True by (simp add: entry_at_None)
    moreover have "entry_at b (x AND NOT 7) = Some (e_value e)"
      using assms(2) True by (simp add: entry_at_Some [OF d])
    ultimately show ?thesis using True al by (simp add: overlay_def store_le_8_aligned)
  next
    case False
    have "entry_at b' (x AND NOT 7) = entry_at b (x AND NOT 7)"
    proof (rule entry_at_cong [OF d assms(3)])
      fix v
      have "Entry (x AND NOT 7) v \<noteq> e" using False by (metis Entry.sel(1))
      then show "Entry (x AND NOT 7) v \<in> set b' \<longleftrightarrow> Entry (x AND NOT 7) v \<in> set b"
        by (simp only: assms(4) Diff_iff singleton_iff) simp
    qed
    then show ?thesis using False al by (simp add: overlay_def store_le_8_aligned split: option.split)
  qed
qed

lemma buffer_ok_swap_remove:
  assumes "buffer_ok b" "i < length b"
  shows "buffer_ok (swap_remove b i)"
    and "overlay (store_le 8 m (e_addr (b ! i)) (e_value (b ! i))) (swap_remove b i) = overlay m b"
proof -
  have d: "distinct (map e_addr b)" "distinct b" using assms(1) by (auto simp: buffer_ok_def distinct_map)
  have d': "distinct (map e_addr (swap_remove b i))"
    using swap_remove_distinct(2) [OF d(1)] assms(2) by (simp add: map_swap_remove)
  have st: "set (swap_remove b i) = set b - {b ! i}" by (rule swap_remove_distinct(1) [OF d(2) assms(2)])
  show "buffer_ok (swap_remove b i)" using assms(1) d' st by (auto simp: buffer_ok_def)
  show "overlay (store_le 8 m (e_addr (b ! i)) (e_value (b ! i))) (swap_remove b i) = overlay m b"
    using assms d' st by (intro overlay_write_back) auto
qed

lemma overlay_flush_entries:
  "buffer_ok b \<Longrightarrow> flush_entries b m = overlay m b"
proof (induction b arbitrary: m)
  case Nil
  show ?case by (rule ext) (simp add: overlay_def entry_at_def)
next
  case (Cons e es)
  then have ok: "buffer_ok es" by (auto simp: buffer_ok_def)
  have "e \<notin> set es" using Cons.prems by (auto simp: buffer_ok_def)
  then have "overlay (store_le 8 m (e_addr e) (e_value e)) es = overlay m (e # es)"
    using Cons.prems by (intro overlay_write_back) (auto simp: buffer_ok_def)
  then show ?case using Cons.IH [OF ok] by simp
qed

lemma FlushAll_view:
  assumes "buffered_ok s"
  shows "buffered_ok (FlushAll s)" and "host_m (FlushAll s) = buffered_view s"
    and "buffered_view (FlushAll s) = buffered_view s"
  using assms
  by (auto simp: buffered_ok_def FlushAll_def buffered_view_def overlay_flush_entries buffer_ok_def
      overlay_def entry_at_def)

lemma flush_index_range:
  assumes "0 < n"
  shows "0 \<le> flush_index v n" and "flush_index v n < int n"
proof -
  define i where "i = v XOR signed_drop_bit 4 v"
  have "\<not> bit i 63" by (simp add: i_def bit_simps)
  then have "\<not> bit (i XOR signed_drop_bit 8 i) 63" by (simp add: bit_simps)
  then have nn: "0 \<le> sint (i XOR signed_drop_bit 8 i)"
    using bit_last_iff [of "i XOR signed_drop_bit 8 i"] by simp
  have "flush_index v n = sint (i XOR signed_drop_bit 8 i) smod int n"
    by (simp add: flush_index_def i_def Let_def)
  also have "\<dots> = sint (i XOR signed_drop_bit 8 i) mod int n"
    using nn assms
    by (cases "sint (i XOR signed_drop_bit 8 i) = 0")
      (simp_all add: signed_modulo_int_def signed_divide_int_def minus_div_mult_eq_mod)
  finally have "flush_index v n = sint (i XOR signed_drop_bit 8 i) mod int n" .
  then show "0 \<le> flush_index v n" "flush_index v n < int n" using assms by simp_all
qed

lemma FlushSome_loop_view:
  assumes "buffer_ok b"
  shows "case FlushSome_loop m b of (m', b') \<Rightarrow>
    buffer_ok b' \<and> length b' \<le> 8 \<and> overlay m' b' = overlay m b"
  using assms
proof (induction m b rule: FlushSome_loop.induct)
  case (1 m b)
  define i where "i = nat (flush_index (e_value (b ! 0)) (length b))"
  show ?case
  proof (cases "length b > 8")
    case True
    then have "0 < length b" by linarith
    then have i: "i < length b"
      using flush_index_range [of "length b" "e_value (b ! 0)"] unfolding i_def by linarith
    show ?thesis
      using True 1 buffer_ok_swap_remove(1) [OF "1.prems" i]
        buffer_ok_swap_remove(2) [OF "1.prems" i, of m]
      by (subst FlushSome_loop.simps) (simp add: Let_def i_def [symmetric])
  next
    case False
    then show ?thesis using 1 by (subst FlushSome_loop.simps) simp
  qed
qed

lemma FlushSome_view:
  assumes "buffer_ok (buffer_m s)"
  shows "buffered_ok (FlushSome s)" and "buffered_view (FlushSome s) = buffered_view s"
  using FlushSome_loop_view [OF assms, of "host_m s"]
  by (auto simp: FlushSome_def buffered_ok_def buffered_view_def split: prod.splits)

lemma find_entry_Some: "find_entry b w n = Some i \<Longrightarrow> i < n \<and> e_addr (b ! i) = w"
  by (induction n) (auto split: if_splits)

lemma find_entry_None: "find_entry b w n = None \<Longrightarrow> i < n \<Longrightarrow> e_addr (b ! i) \<noteq> w"
  by (induction n) (auto split: if_splits simp: less_Suc_eq)

lemma word_of_offset:
  fixes addr :: u64
  assumes "unat (addr AND 7) + k < 8"
  shows "(addr + of_nat k) AND NOT 7 = addr AND NOT 7"
    and "unat ((addr + of_nat k) AND 7) = unat (addr AND 7) + k"
proof -
  define a where "a = addr AND NOT 7"
  have al: "a AND 7 = 0" by (simp add: a_def and.assoc)
  have d: "(addr + of_nat k) - a = (addr AND 7) + of_nat k"
    using word_offset_eq [of addr] by (simp add: a_def algebra_simps)
  have "take_bit 64 k = k" using assms by (intro take_bit_nat_eq_self) simp
  then have "unat ((addr AND 7) + of_nat k) = unat (addr AND 7) + k"
    using assms by (simp add: unat_word_ariths unsigned_of_nat)
  then have u: "unat ((addr + of_nat k) - a) = unat (addr AND 7) + k" by (simp only: d)
  then have "(addr + of_nat k) AND NOT 7 = a"
    using in_word_iff [OF al, of "addr + of_nat k"] assms by (simp only:)
  then show "(addr + of_nat k) AND NOT 7 = addr AND NOT 7"
    and "unat ((addr + of_nat k) AND 7) = unat (addr AND 7) + k"
    using u word_offset_eq [of "addr + of_nat k"] by (simp_all add: a_def)
qed

lemma in_range_iff:
  fixes addr x :: u64
  assumes "unat (addr AND 7) + n \<le> 8"
  shows "unat (x - addr) < n \<longleftrightarrow>
      x AND NOT 7 = addr AND NOT 7 \<and> unat (addr AND 7) \<le> unat (x AND 7) \<and>
      unat (x AND 7) < unat (addr AND 7) + n" (is "?L \<longleftrightarrow> ?R")
    and "unat (x - addr) < n \<Longrightarrow> unat (x - addr) = unat (x AND 7) - unat (addr AND 7)"
proof -
  have fwd: "?R \<and> unat (x - addr) = unat (x AND 7) - unat (addr AND 7)" if "?L"
  proof -
    have "unat (addr AND 7) + unat (x - addr) < 8" using assms that by simp
    from word_of_offset [OF this] show ?thesis using that by simp
  qed
  have "?L" if "?R"
  proof -
    have "x - addr = (x - (x AND NOT 7)) - (addr - (addr AND NOT 7))"
      by (simp only: that [THEN conjunct1]) simp
    then have "x - addr = (x AND 7) - (addr AND 7)" by (simp only: word_offset_eq)
    moreover have "addr AND 7 \<le> x AND 7" using that by (simp add: word_le_nat_alt)
    ultimately show ?thesis using that by (simp add: unat_sub less_diff_conv2)
  qed
  with fwd show "?L \<longleftrightarrow> ?R" "?L \<Longrightarrow> unat (x - addr) = unat (x AND 7) - unat (addr AND 7)" by blast+
qed

lemma unat_and_numeral:
  "unat ((x :: u64) AND 1) = unat x mod 2" "unat (x AND 3) = unat x mod 4"
  "unat (x AND 7) = unat x mod 8"
  by (simp_all only: and_numeral_take_bit unsigned_take_bit_eq) (simp_all add: take_bit_eq_mod)

lemma aligned_fits:
  assumes "n \<in> {1, 2, 4, 8}" "\<not> needs_flush n addr"
  shows "unat (addr AND 7) + n \<le> 8"
proof -
  have "unat (addr AND (of_nat n - 1)) = 0" using assms(2) by (simp add: needs_flush_def)
  then show ?thesis using assms(1) unat_and_7 [of addr]
    by (auto simp: unat_and_numeral) presburger+
qed

lemma byte_of_put_bytes:
  assumes "unat off + n \<le> 8" "j < 8"
  shows "byte_of (put_bytes n w off v) j =
    (if unat off \<le> j \<and> j < unat off + n then byte_of v (j - unat off) else byte_of w j)"
proof (rule bit_word_eqI)
  fix i
  assume i: "i < LENGTH(8)"
  define c where "c = unat off"
  have in_iff: "8 * c \<le> 8 * j + i \<and> 8 * j + i - 8 * c < 8 * n \<longleftrightarrow> c \<le> j \<and> j < c + n"
    using i by auto
  have "8 * j + i - 8 * c = 8 * (j - c) + i" if "c \<le> j" using that by (simp add: diff_mult_distrib2)
  then show "bit (byte_of (put_bytes n w off v) j) i \<longleftrightarrow> bit (if unat off \<le> j \<and> j < unat off + n
      then byte_of v (j - unat off) else byte_of w j) i"
    using i assms in_iff
    by (auto simp: byte_of_def put_bytes_def c_def [symmetric] bit_simps add.commute)
qed

lemma overlay_in_word:
  "x AND NOT 7 = w \<Longrightarrow> overlay m b x =
     (case entry_at b w of Some v \<Rightarrow> byte_of v (unat (x AND 7)) | None \<Rightarrow> m x)"
  by (simp add: overlay_def)

lemma Buffered_Load_correct:
  assumes "buffered_ok s" "n \<in> {1, 2, 4, 8}"
  shows "fst (Buffered_Load n s addr) = load_le n (buffered_view s) addr"
    and "buffered_ok (snd (Buffered_Load n s addr))"
    and "buffered_view (snd (Buffered_Load n s addr)) = buffered_view s"
proof -
  define w where "w = addr AND NOT 7"
  define b where "b = buffer_m s"
  have d: "distinct (map e_addr b)" using assms(1) by (simp add: buffered_ok_def buffer_ok_def b_def)
  have "fst (Buffered_Load n s addr) = load_le n (buffered_view s) addr \<and>
      buffered_ok (snd (Buffered_Load n s addr)) \<and>
      buffered_view (snd (Buffered_Load n s addr)) = buffered_view s"
  proof (cases "needs_flush n addr")
    case True
    then show ?thesis using FlushAll_view [OF assms(1)] by (simp add: Buffered_Load_def Let_def)
  next
    case False
    have fits: "unat (addr AND 7) + n \<le> 8" by (rule aligned_fits [OF assms(2) False])
    have wd: "(addr + of_nat k) AND NOT 7 = w"
      "unat ((addr + of_nat k) AND 7) = unat (addr AND 7) + k" if "k < n" for k
      using word_of_offset [of addr k] fits that by (simp_all add: w_def)
    show ?thesis
    proof (cases "find_entry b w (length b)")
      case None
      then have "entry_at b w = None"
        by (auto simp: entry_at_None in_set_conv_nth dest: find_entry_None)
      then have "load_le n (host_m s) addr = load_le n (buffered_view s) addr"
        by (intro load_le_cong) (simp add: buffered_view_def b_def [symmetric] overlay_in_word [OF wd(1)])
      then show ?thesis using False None assms(1)
        unfolding Buffered_Load_def Let_def w_def [symmetric] b_def [symmetric] by simp
    next
      case (Some i)
      then have "i < length b" "e_addr (b ! i) = w" using find_entry_Some by auto
      then have "entry_at b w = Some (e_value (b ! i))"
        using d by (metis Entry.collapse entry_at_Some nth_mem)
      then have "load_le n (buffered_view s) addr =
          take_bit (8 * n) (drop_bit (8 * unat (addr AND 7)) (e_value (b ! i)))"
        using assms(2) by (intro load_le_bytes)
          (auto simp: buffered_view_def b_def [symmetric] overlay_in_word [OF wd(1)] wd(2))
      moreover have "addr - w = addr AND 7" by (simp only: w_def word_offset_eq)
      ultimately show ?thesis using False Some assms(1)
        unfolding Buffered_Load_def Let_def w_def [symmetric] b_def [symmetric] by simp
    qed
  qed
  then show "fst (Buffered_Load n s addr) = load_le n (buffered_view s) addr"
    and "buffered_ok (snd (Buffered_Load n s addr))"
    and "buffered_view (snd (Buffered_Load n s addr)) = buffered_view s" by blast+
qed

lemma overlay_store:
  assumes "unat (addr AND 7) + n \<le> 8"
    and "entry_at b' = (entry_at b)(addr AND NOT 7 \<mapsto> put_bytes n c (addr AND 7) v)"
    and "\<And>x. x AND NOT 7 = addr AND NOT 7 \<Longrightarrow> overlay m b x = byte_of c (unat (x AND 7))"
  shows "overlay m b' = store_le n (overlay m b) addr v"
proof
  fix x
  have n: "n \<le> 16" using assms(1) by simp
  note range = in_range_iff [OF assms(1), of x]
  show "overlay m b' x = store_le n (overlay m b) addr v x"
  proof (cases "x AND NOT 7 = addr AND NOT 7")
    case True
    then have "overlay m b' x = byte_of (put_bytes n c (addr AND 7) v) (unat (x AND 7))"
      unfolding overlay_def assms(2) by (simp only: fun_upd_same option.case)
    then show ?thesis
      using range True assms(3) [OF True] byte_of_put_bytes [OF assms(1) unat_and_7 [of x], of c v]
      by (auto simp only: store_le_apply [OF n] split: if_splits)
  next
    case False
    then have "overlay m b' x = overlay m b x"
      unfolding overlay_def assms(2) by (simp only: fun_upd_other not_False_eq_True)
    then show ?thesis using range False by (simp only: store_le_apply [OF n]) simp
  qed
qed

lemma byte_of_load_le: "j < 8 \<Longrightarrow> byte_of (load_le 8 m a) j = m (a + of_nat j)"
proof (rule bit_word_eqI)
  fix i
  assume "j < 8" "i < LENGTH(8)"
  moreover then have "(8 * j + i) div 8 = j" "(8 * j + i) mod 8 = i" by simp_all
  ultimately show "bit (byte_of (load_le 8 m a) j) i \<longleftrightarrow> bit (m (a + of_nat j)) i"
    by (simp add: byte_of_def bit_simps bit_load_le add.commute)
qed

lemma entry_at_list_update:
  assumes "distinct (map e_addr b)" "i < length b"
  shows "entry_at (b[i := Entry (e_addr (b ! i)) v]) = (entry_at b)(e_addr (b ! i) \<mapsto> v)"
proof
  fix w
  let ?b = "b[i := Entry (e_addr (b ! i)) v]"
  have m: "map e_addr ?b = map e_addr b"
    using assms(2) by (simp add: map_update list_update_same_conv)
  then have d: "distinct (map e_addr ?b)" using assms(1) by simp
  have st: "set ?b = insert (Entry (e_addr (b ! i)) v) (set b - {b ! i})"
    using assms by (intro set_update_distinct) (auto simp: distinct_map)
  show "entry_at ?b w = ((entry_at b)(e_addr (b ! i) \<mapsto> v)) w"
  proof (cases "w = e_addr (b ! i)")
    case True
    then show ?thesis using st by (simp add: entry_at_Some [OF d])
  next
    case False
    then have "Entry w u \<noteq> b ! i" for u by (metis Entry.sel(1))
    then show ?thesis using False st by (simp add: entry_at_cong [OF assms(1) d])
  qed
qed

lemma entry_at_snoc:
  "w \<notin> e_addr ` set b \<Longrightarrow> entry_at (b @ [Entry w v]) = (entry_at b)(w \<mapsto> v)"
  using entry_at_None [of b w]
  by (auto simp: entry_at_def map_of_append fun_eq_iff map_add_def split: option.split)

lemma overlay_word_host:
  assumes "w AND 7 = 0" "w \<notin> e_addr ` set b" "x AND NOT 7 = w"
  shows "overlay m b x = byte_of (load_le 8 m w) (unat (x AND 7))"
proof -
  have "overlay m b x = m x"
    using assms(2) by (simp add: overlay_in_word [OF assms(3)] entry_at_None [THEN iffD2])
  moreover have "x = w + of_nat (unat (x AND 7))"
    using word_split [of x] assms(3) by simp
  ultimately show ?thesis using byte_of_load_le [OF unat_and_7 [of x], of m w] by simp
qed

lemma Buffered_Store_correct:
  assumes "buffered_ok s" "n \<in> {1, 2, 4, 8}"
  shows "buffered_ok (Buffered_Store n s addr v) \<and>
    buffered_view (Buffered_Store n s addr v) = store_le n (buffered_view s) addr v"
proof (cases "needs_flush n addr")
  case True
  then show ?thesis using FlushAll_view [OF assms(1)]
    by (simp add: Buffered_Store_def Let_def buffered_view_def buffered_ok_def)
      (simp add: FlushAll_def overlay_def entry_at_def fun_eq_iff)
next
  case False
  define w where "w = addr AND NOT 7"
  define b where "b = buffer_m s"
  have ok: "buffer_ok b" "length b < 16" using assms(1) by (simp_all add: buffered_ok_def b_def)
  then have d: "distinct (map e_addr b)" by (simp add: buffer_ok_def)
  have wal: "w AND 7 = 0" by (simp add: w_def and.assoc)
  have off: "addr - w = addr AND 7" by (simp only: w_def word_offset_eq)
  note fits = aligned_fits [OF assms(2) False]
  note unf = Buffered_Store_def Let_def w_def [symmetric] b_def [symmetric] off
  show ?thesis
  proof (cases "find_entry b w (length b)")
    case None
    then have notin: "w \<notin> e_addr ` set b"
      by (auto simp: in_set_conv_nth dest: find_entry_None)
    let ?v = "put_bytes n (load_le 8 (host_m s) w) (addr AND 7) v"
    let ?b = "b @ [Entry w ?v]"
    have ok': "buffer_ok ?b" using ok notin wal by (auto simp: buffer_ok_def)
    have "overlay (host_m s) ?b = store_le n (overlay (host_m s) b) addr v"
      using fits entry_at_snoc [OF notin, of ?v] overlay_word_host [OF wal notin, of _ "host_m s"]
      by (intro overlay_store) (auto simp only: w_def)
    then show ?thesis
      using False None ok' ok(2) FlushSome_view [of "s\<lparr>buffer_m := ?b\<rparr>"]
      unfolding unf by (auto simp: buffered_ok_def buffered_view_def b_def [symmetric])
  next
    case (Some i)
    then have i: "i < length b" "e_addr (b ! i) = w" using find_entry_Some by auto
    let ?v = "put_bytes n (e_value (b ! i)) (addr AND 7) v"
    let ?b = "b[i := Entry (e_addr (b ! i)) ?v]"
    have "map e_addr ?b = map e_addr b"
      using i by (simp add: map_update list_update_same_conv)
    then have ok': "buffer_ok ?b" using ok i wal
      by (auto simp: buffer_ok_def dest: set_update_subset_insert [THEN subsetD])
    have at: "entry_at b w = Some (e_value (b ! i))"
      using i entry_at_Some [OF d] by (metis Entry.collapse nth_mem)
    have "overlay (host_m s) ?b = store_le n (overlay (host_m s) b) addr v"
      using fits entry_at_list_update [OF d i(1), of ?v] at i(2)
      by (intro overlay_store) (auto simp only: w_def overlay_def option.case)
    then show ?thesis using False Some ok' ok(2)
      unfolding unf by (simp add: buffered_ok_def buffered_view_def b_def [symmetric])
  qed
qed

lemma FlushAddress_loop_view:
  assumes "buffer_ok b"
  shows "case FlushAddress_loop addr i m b of (m', b') \<Rightarrow>
    buffer_ok b' \<and> length b' \<le> length b \<and> overlay m' b' = overlay m b"
  using assms
proof (induction addr i m b rule: FlushAddress_loop.induct)
  case (1 addr i m b)
  show ?case
  proof (cases "i < length b \<and> e_addr (b ! i) = addr")
    case True
    then show ?thesis
      using 1 buffer_ok_swap_remove(1) [OF "1.prems"] buffer_ok_swap_remove(2) [OF "1.prems", of i m]
      by (subst FlushAddress_loop.simps) (fastforce simp: length_swap_remove)
  next
    case False
    then show ?thesis using 1 by (subst FlushAddress_loop.simps) auto
  qed
qed

lemma FlushAddress_view:
  assumes "buffered_ok s"
  shows "buffered_ok (FlushAddress s addr)" and "buffered_view (FlushAddress s addr) = buffered_view s"
  using FlushAddress_loop_view [where b = "buffer_m s" and addr = addr and i = 0 and m = "host_m s"]
    assms
  by (auto simp: FlushAddress_def buffered_ok_def buffered_view_def split: prod.splits)

section \<open>Atomic accesses to aligned words\<close>

lemma FlushAddress_loop_absent:
  "addr \<notin> e_addr ` set b \<Longrightarrow> FlushAddress_loop addr i m b = (m, b)"
proof (induction addr i m b rule: FlushAddress_loop.induct)
  case (1 addr i m b)
  then show ?case by (subst FlushAddress_loop.simps) (auto simp: image_iff dest: nth_mem)
qed

lemma FlushAddress_loop_removes:
  assumes "buffer_ok b" "\<And>j. j < i \<Longrightarrow> j < length b \<Longrightarrow> e_addr (b ! j) \<noteq> addr"
  shows "addr \<notin> e_addr ` set (snd (FlushAddress_loop addr i m b))"
  using assms
proof (induction addr i m b rule: FlushAddress_loop.induct)
  case (1 addr i m b)
  consider (hit) "i < length b" "e_addr (b ! i) = addr" | (miss) "i < length b" "e_addr (b ! i) \<noteq> addr"
    | (past) "\<not> i < length b" by blast
  then show ?case
  proof cases
    case hit
    have d: "distinct (map e_addr b)" using "1.prems"(1) by (simp add: buffer_ok_def)
    have "set (map e_addr (swap_remove b i)) = set (map e_addr b) - {addr}"
      using swap_remove_distinct(1) [OF d] hit by (simp add: map_swap_remove)
    then have "addr \<notin> e_addr ` set (swap_remove b i)" by simp
    then show ?thesis using hit by (subst FlushAddress_loop.simps) (simp add: FlushAddress_loop_absent)
  next
    case miss
    then have "\<And>j. j < Suc i \<Longrightarrow> j < length b \<Longrightarrow> e_addr (b ! j) \<noteq> addr"
      using "1.prems"(2) by (auto simp: less_Suc_eq)
    then show ?thesis using miss 1 by (subst FlushAddress_loop.simps) simp
  next
    case past
    then have "e_addr (b ! j) \<noteq> addr" if "j < length b" for j
      using "1.prems"(2) [of j] that by simp
    then show ?thesis using past by (subst FlushAddress_loop.simps) (force simp: in_set_conv_nth)
  qed
qed

lemma FlushAddress_removes:
  "buffered_ok s \<Longrightarrow> addr \<notin> e_addr ` set (buffer_m (FlushAddress s addr))"
  using FlushAddress_loop_removes [of "buffer_m s" 0 addr "host_m s"]
  by (simp add: FlushAddress_def buffered_ok_def case_prod_unfold Let_def)

lemma host_agrees:
  assumes "addr AND 7 = 0" "addr \<notin> e_addr ` set (buffer_m s)" "k < 8"
  shows "host_m s (addr + of_nat k) = buffered_view s (addr + of_nat k)"
proof -
  have "addr AND NOT 7 = addr" using word_split [of addr] assms(1) by simp
  then have "(addr + of_nat k) AND NOT 7 = addr"
    using word_of_offset(1) [of addr k] assms(1,3) by simp
  then show ?thesis
    using assms(2) by (simp add: buffered_view_def overlay_in_word entry_at_None [THEN iffD2])
qed

lemma Buffered_Load_atomic_correct:
  assumes "buffered_ok s" "addr AND 7 = 0" "n \<le> 8"
  shows "fst (Buffered_Load_atomic n s addr) = load_le n (buffered_view s) addr"
    and "buffered_ok (snd (Buffered_Load_atomic n s addr))"
    and "buffered_view (snd (Buffered_Load_atomic n s addr)) = buffered_view s"
proof -
  have "load_le n (host_m (FlushAddress s addr)) addr = load_le n (buffered_view (FlushAddress s addr)) addr"
    by (rule load_le_cong)
      (use host_agrees [OF assms(2) FlushAddress_removes [OF assms(1)]] assms(3) in simp)
  then show "fst (Buffered_Load_atomic n s addr) = load_le n (buffered_view s) addr"
    "buffered_ok (snd (Buffered_Load_atomic n s addr))"
    "buffered_view (snd (Buffered_Load_atomic n s addr)) = buffered_view s"
    using FlushAddress_view [OF assms(1), of addr] by (simp_all add: Buffered_Load_atomic_def Let_def)
qed

lemma Buffered_Store_atomic_correct:
  assumes "buffered_ok s" "addr AND 7 = 0" "n \<le> 8"
  shows "buffered_ok (Buffered_Store_atomic n s addr v)"
    and "buffered_view (Buffered_Store_atomic n s addr v) = store_le n (buffered_view s) addr v"
proof -
  let ?f = "FlushAddress s addr"
  have ok: "buffered_ok ?f" and eq: "buffered_view ?f = buffered_view s"
    using FlushAddress_view [OF assms(1), of addr] by simp_all
  show "buffered_ok (Buffered_Store_atomic n s addr v)"
    using ok by (simp add: Buffered_Store_atomic_def Let_def buffered_ok_def)
  have w: "addr AND NOT 7 = addr" using word_split [of addr] assms(2) by simp
  have none: "entry_at (buffer_m ?f) addr = None"
    using FlushAddress_removes [OF assms(1)] by (simp add: entry_at_None)
  have "overlay (store_le n (host_m ?f) addr v) (buffer_m ?f) x =
      store_le n (overlay (host_m ?f) (buffer_m ?f)) addr v x" for x
  proof (cases "x AND NOT 7 = addr")
    case True
    then show ?thesis using none assms(3) by (simp add: overlay_in_word store_le_apply)
  next
    case False
    then have "\<not> unat (x - addr) < n" using in_word_iff [OF assms(2), of x] assms(3) by auto
    then show ?thesis
      using assms(3) by (simp add: overlay_def store_le_apply split: option.split)
  qed
  then show "buffered_view (Buffered_Store_atomic n s addr v) = store_le n (buffered_view s) addr v"
    unfolding eq [symmetric] by (simp add: Buffered_Store_atomic_def Let_def buffered_view_def fun_eq_iff)
qed

section \<open>The interface of a memory\<close>

locale client_memory =
  fixes load :: "nat \<Rightarrow> 's \<Rightarrow> u64 \<Rightarrow> u64 \<times> 's"
    and store :: "nat \<Rightarrow> 's \<Rightarrow> u64 \<Rightarrow> u64 \<Rightarrow> 's"
    and view :: "'s \<Rightarrow> ram"
    and ok :: "'s \<Rightarrow> bool"
  assumes load_value: "ok s \<Longrightarrow> n \<in> {1, 2, 4, 8} \<Longrightarrow> fst (load n s a) = load_le n (view s) a"
    and load_ok: "ok s \<Longrightarrow> n \<in> {1, 2, 4, 8} \<Longrightarrow> ok (snd (load n s a))"
    and load_view: "ok s \<Longrightarrow> n \<in> {1, 2, 4, 8} \<Longrightarrow> view (snd (load n s a)) = view s"
    and store_ok: "ok s \<Longrightarrow> n \<in> {1, 2, 4, 8} \<Longrightarrow> ok (store n s a v)"
    and store_view: "ok s \<Longrightarrow> n \<in> {1, 2, 4, 8} \<Longrightarrow> view (store n s a v) = store_le n (view s) a v"

text \<open>A sequence of accesses, each with its size in bytes, and the values its loads return.\<close>

datatype mem_op = Ld nat u64 | St nat u64 u64

fun mem_op_ok :: "mem_op \<Rightarrow> bool" where
  "mem_op_ok (Ld n a) = (n \<in> {1, 2, 4, 8})"
| "mem_op_ok (St n a v) = (n \<in> {1, 2, 4, 8})"

fun run_ops ::
    "(nat \<Rightarrow> 's \<Rightarrow> u64 \<Rightarrow> u64 \<times> 's) \<Rightarrow> (nat \<Rightarrow> 's \<Rightarrow> u64 \<Rightarrow> u64 \<Rightarrow> 's) \<Rightarrow>
     mem_op list \<Rightarrow> 's \<Rightarrow> u64 list \<times> 's" where
  "run_ops ld st [] s = ([], s)"
| "run_ops ld st (Ld n a # ops) s =
     (let (v, s) = ld n s a; (vs, s) = run_ops ld st ops s in (v # vs, s))"
| "run_ops ld st (St n a v # ops) s = run_ops ld st ops (st n s a v)"

lemma load_le_store_le_same:
  assumes "n \<le> 8"
  shows "load_le n (store_le n m a v) a = take_bit (8 * n) v"
proof -
  have "store_le n m a v (a + of_nat k) = byte_of v (0 + k)" if "k < n" for k
  proof -
    have "take_bit 64 k = k" using that assms by (intro take_bit_nat_eq_self) simp
    then have "unat (a + of_nat k - a) = k" by (simp add: unsigned_of_nat)
    then show ?thesis using that assms by (simp add: store_le_apply)
  qed
  from load_le_bytes [OF this assms] show ?thesis by simp
qed

context client_memory
begin

lemma load_after_store:
  assumes "ok s" "n \<in> {1, 2, 4, 8}"
  shows "fst (load n (store n s a v) a) = take_bit (8 * n) v"
proof -
  have "fst (load n (store n s a v) a) = load_le n (store_le n (view s) a v) a"
    using assms by (simp add: load_value store_ok store_view)
  also have "\<dots> = take_bit (8 * n) v" using assms(2) by (intro load_le_store_le_same) auto
  finally show ?thesis .
qed

lemma run_ops_view:
  assumes "ok s" "list_all mem_op_ok ops"
  shows "fst (run_ops load store ops s) = fst (run_ops Direct_Load Direct_Store ops (view s))"
    and "view (snd (run_ops load store ops s)) = snd (run_ops Direct_Load Direct_Store ops (view s))"
    and "ok (snd (run_ops load store ops s))"
proof -
  have "fst (run_ops load store ops s) = fst (run_ops Direct_Load Direct_Store ops (view s)) \<and>
      view (snd (run_ops load store ops s)) = snd (run_ops Direct_Load Direct_Store ops (view s)) \<and>
      ok (snd (run_ops load store ops s))"
    using assms
  proof (induction ops arbitrary: s)
    case (Cons oper ops)
    show ?case
    proof (cases oper)
      case (Ld n a)
      then have "n \<in> {1, 2, 4, 8}" using Cons.prems(2) by simp
      then show ?thesis
        using Cons.IH [of "snd (load n s a)"] Cons.prems Ld load_ok [of s n a] load_view [of s n a]
          load_value [of s n a]
        by (simp add: case_prod_unfold Let_def Direct_Load_def)
    next
      case (St n a v)
      then have "n \<in> {1, 2, 4, 8}" using Cons.prems(2) by simp
      then show ?thesis
        using Cons.IH [of "store n s a v"] Cons.prems St store_ok [of s n a v] store_view [of s n a v]
        by (simp add: Direct_Store_def)
    qed
  qed simp
  then show "fst (run_ops load store ops s) = fst (run_ops Direct_Load Direct_Store ops (view s))"
    "view (snd (run_ops load store ops s)) = snd (run_ops Direct_Load Direct_Store ops (view s))"
    "ok (snd (run_ops load store ops s))" by blast+
qed

end

interpretation direct_mem: client_memory Direct_Load Direct_Store id "\<lambda>_. True"
  by unfold_locales (simp_all add: Direct_Load_def Direct_Store_def)

interpretation buffered_mem: client_memory Buffered_Load Buffered_Store buffered_view buffered_ok
  by unfold_locales (simp_all only: Buffered_Load_correct Buffered_Store_correct)

definition memory_view :: "SimulatorMemory \<Rightarrow> ram" where
  "memory_view s = (if use_buffered_m s then buffered_view s else host_m s)"

definition memory_ok :: "SimulatorMemory \<Rightarrow> bool" where
  "memory_ok s = (use_buffered_m s \<longrightarrow> buffered_ok s)"

lemma use_buffered_kept [simp]:
  fixes s :: SimulatorMemory
  shows "use_buffered_m (FlushAll s) = use_buffered_m s"
    and "use_buffered_m (FlushSome s) = use_buffered_m s"
    and "use_buffered_m (FlushAddress s addr) = use_buffered_m s"
    and "use_buffered_m (snd (Buffered_Load n s addr)) = use_buffered_m s"
    and "use_buffered_m (Buffered_Store n s addr v) = use_buffered_m s"
  by (simp_all add: FlushAll_def FlushSome_def FlushAddress_def Buffered_Load_def Buffered_Store_def
      Let_def split: prod.split option.split)

interpretation sim_mem: client_memory Memory_Load Memory_Store memory_view memory_ok
proof unfold_locales
  fix s :: SimulatorMemory and n a v
  assume ok: "memory_ok s" and n: "n \<in> {1, 2, 4, 8::nat}"
  show "fst (Memory_Load n s a) = load_le n (memory_view s) a"
    "memory_ok (snd (Memory_Load n s a))" "memory_view (snd (Memory_Load n s a)) = memory_view s"
    using ok Buffered_Load_correct [of s n a] n
    by (auto simp: Memory_Load_def memory_view_def memory_ok_def Direct_Load_def)
  show "memory_ok (Memory_Store n s a v)"
    "memory_view (Memory_Store n s a v) = store_le n (memory_view s) a v"
    using ok Buffered_Store_correct [of s n a v] n
    by (auto simp: Memory_Store_def memory_view_def memory_ok_def Direct_Store_def)
qed

end
