(* ===== verification/RiscvSimulator.thy ===== *)
theory RiscvSimulator
  imports RiscvCEncoding RiscvArith SimMemory
begin

text \<open>
  The instruction interpreter of \<^verbatim>\<open>runtime/vm/simulator_riscv.cc\<close> and its state from
  \<^verbatim>\<open>simulator_riscv.h\<close>: one definition per \<open>Interpret\<close> method, a \<open>switch\<close> as a chain of tests in
  the order of its cases. \<open>IllegalInstruction\<close>, \<open>Fault\<close> and \<open>UNIMPLEMENTED\<close> do not return in C++;
  here they are the left values of the result type. The floating-point registers hold their 64-bit
  patterns.

  Two groups of handlers are arguments of the model, collected in the record \<open>host\<close>: calls out of
  simulated code (\<open>InterpretECALL\<close>), which run code of the host, and floating-point arithmetic
  (\<open>InterpretFMADD\<close> to \<open>InterpretFNMSUB\<close>, \<open>InterpretOPFP\<close>), which runs on the floating-point unit of
  the host. Its last field says whether a \<open>compare_exchange_weak\<close> of the host fails although the
  values agree.
\<close>

section \<open>State\<close>

record Simulator =
  pc_m :: u64
  xregs_m :: "Register \<Rightarrow> u64"
  instret_m :: u64
  reserved_address_m :: u64
  reserved_value_m :: u64
  fregs_m :: "FRegister \<Rightarrow> u64"
  fcsr_m :: u32
  lp_enabled_m :: bool
  ss_enabled_m :: bool
  ssp_m :: u64
  vregs_m :: "nat \<Rightarrow> u8"
  vl_m :: u64
  vtype_m :: u64
  random_m :: u64
  memory_m :: SimulatorMemory

datatype sim_error =
  IllegalInstruction u32
| IllegalCInstruction u16
| Fault string
| UNIMPLEMENTED

type_synonym result = "sim_error + Simulator"

record host =
  host_ECALL :: "u32 \<Rightarrow> Simulator \<Rightarrow> result"
  host_FP :: "u32 \<Rightarrow> Simulator \<Rightarrow> result"
  host_weak_fails :: "Simulator \<Rightarrow> bool"

abbreviation (input) kBadLR :: u64 where "kBadLR \<equiv> -1"
abbreviation (input) kEndSimulatingPC :: u64 where "kEndSimulatingPC \<equiv> -2"
abbreviation (input) kNaNBox :: u64 where "kNaNBox \<equiv> 0xFFFFFFFF00000000"
abbreviation (input) VLEN :: nat where "VLEN \<equiv> 128"

definition get_xreg :: "Simulator \<Rightarrow> Register \<Rightarrow> u64" where
  "get_xreg s rs = xregs_m s rs"

definition set_xreg :: "Simulator \<Rightarrow> Register \<Rightarrow> u64 \<Rightarrow> Simulator" where
  "set_xreg s rd val = (if rd \<noteq> ZR then s\<lparr>xregs_m := (xregs_m s)(rd := val)\<rparr> else s)"

definition get_fregd :: "Simulator \<Rightarrow> FRegister \<Rightarrow> u64" where
  "get_fregd s rs = fregs_m s rs"

definition set_fregd :: "Simulator \<Rightarrow> FRegister \<Rightarrow> u64 \<Rightarrow> Simulator" where
  "set_fregd s rd val = s\<lparr>fregs_m := (fregs_m s)(rd := val)\<rparr>"

definition get_fregs :: "Simulator \<Rightarrow> FRegister \<Rightarrow> u32" where
  "get_fregs s rs =
     (let bits64 = fregs_m s rs
      in if bits64 AND kNaNBox \<noteq> kNaNBox then 0x7fc00000 else ucast bits64)"

definition set_fregs :: "Simulator \<Rightarrow> FRegister \<Rightarrow> u32 \<Rightarrow> Simulator" where
  "set_fregs s rd val = s\<lparr>fregs_m := (fregs_m s)(rd := ucast val OR kNaNBox)\<rparr>"

definition next_instr :: "u64 \<Rightarrow> Simulator \<Rightarrow> result" where
  "next_instr len s = Inr (s\<lparr>pc_m := pc_m s + len\<rparr>)"

definition sext :: "nat \<Rightarrow> u64 \<Rightarrow> u64" where
  "sext n v = signed_take_bit (8 * n - 1) v"

text \<open>\<open>sign_extend\<close> of a 32-bit value.\<close>

definition sign_extend :: "u32 \<Rightarrow> u64" where
  "sign_extend x = scast x"

section \<open>Random numbers\<close>

definition NextState :: "u64 \<Rightarrow> u64" where
  "NextState state =
     (let MASK_32 = 0xffffffff;
          A = 0xffffda61;
          state_lo = state AND MASK_32;
          state_hi = drop_bit 32 state AND MASK_32
      in A * state_lo + state_hi)"

definition NextUInt32 :: "u64 \<Rightarrow> u32 \<times> u64" where
  "NextUInt32 state = (let state = NextState state in (ucast (state AND 0xffffffff), state))"

section \<open>Memory access and control registers\<close>

definition MemoryRead :: "nat \<Rightarrow> Simulator \<Rightarrow> u64 \<Rightarrow> u64 \<times> Simulator" where
  "MemoryRead n s addr =
     (let (v, m) = Memory_Load n (memory_m s) addr in (v, s\<lparr>memory_m := m\<rparr>))"

definition MemoryWrite :: "nat \<Rightarrow> Simulator \<Rightarrow> u64 \<Rightarrow> u64 \<Rightarrow> Simulator" where
  "MemoryWrite n s addr val = s\<lparr>memory_m := Memory_Store n (memory_m s) addr val\<rparr>"

definition CheckLandingPad :: "Register \<Rightarrow> Simulator \<Rightarrow> result" where
  "CheckLandingPad rs1 s =
     (if \<not> lp_enabled_m s then Inr s
      else if rs1 = 1 \<or> rs1 = 5 \<or> rs1 = 7 then Inr s
      else if pc_m s AND 3 \<noteq> 0 then Inl (Fault ''Landing pad misaligned'')
      else let instr = ucast (load_le 4 (host_m (memory_m s)) (pc_m s)) :: u32
           in if Instr_opcode instr \<noteq> AUIPC \<or> Instr_rd instr \<noteq> ZR
              then Inl (Fault ''Landing pad expected'')
              else let label = Instr_utype_imm instr
                   in if label \<noteq> 0 \<and> (label XOR get_xreg s 7) AND 0xFFFFF000 \<noteq> 0
                      then Inl (Fault ''Landing pad mismatch'')
                      else Inr s)"

definition CSRRead :: "u32 \<Rightarrow> Simulator \<Rightarrow> sim_error + u64" where
  "CSRRead csr s =
     (if csr = 0x003 then Inr (ucast (fcsr_m s))
      else if csr = 0x011 then Inr (ssp_m s)
      else if csr = 0xC00 then Inr (instret_m s div 2)
      else if csr = 0xC01 then Inr 0
      else if csr = 0xC02 then Inr (instret_m s)
      else if csr = 0xC20 then Inr (vl_m s)
      else if csr = 0xC21 then Inr (vtype_m s)
      else if csr = 0xC22 then Inr (of_nat (VLEN div 8))
      else Inl (Fault ''Unknown CSR''))"

definition CSRWrite :: "u32 \<Rightarrow> u64 \<Rightarrow> Simulator \<Rightarrow> result" where
  "CSRWrite csr val s = (if csr = 0x011 then Inr (s\<lparr>ssp_m := val\<rparr>) else Inl UNIMPLEMENTED)"

definition CSRSet :: "u32 \<Rightarrow> u64 \<Rightarrow> Simulator \<Rightarrow> result" where
  "CSRSet csr msk s = Inl UNIMPLEMENTED"

definition CSRClear :: "u32 \<Rightarrow> u64 \<Rightarrow> Simulator \<Rightarrow> result" where
  "CSRClear csr msk s = Inl UNIMPLEMENTED"

section \<open>Control transfer\<close>

definition InterpretLUI :: "u32 \<Rightarrow> Simulator \<Rightarrow> result" where
  "InterpretLUI instr s = next_instr 4 (set_xreg s (Instr_rd instr) (Instr_utype_imm instr))"

definition InterpretAUIPC :: "u32 \<Rightarrow> Simulator \<Rightarrow> result" where
  "InterpretAUIPC instr s =
     next_instr 4 (set_xreg s (Instr_rd instr) (pc_m s + Instr_utype_imm instr))"

definition InterpretJAL :: "u32 \<Rightarrow> Simulator \<Rightarrow> result" where
  "InterpretJAL instr s =
     next_instr (Instr_jtype_imm instr) (set_xreg s (Instr_rd instr) (pc_m s + 4))"

definition InterpretJALR :: "u32 \<Rightarrow> Simulator \<Rightarrow> result" where
  "InterpretJALR instr s =
     (let base = get_xreg s (Instr_rs1 instr);
          offset = Instr_itype_imm instr;
          s = set_xreg s (Instr_rd instr) (pc_m s + 4);
          s = s\<lparr>pc_m := base + offset\<rparr>
      in CheckLandingPad (Instr_rs1 instr) s)"

definition branch_if :: "bool \<Rightarrow> u32 \<Rightarrow> Simulator \<Rightarrow> result" where
  "branch_if taken instr s = (if taken then next_instr (Instr_btype_imm instr) s else next_instr 4 s)"

definition InterpretBRANCH :: "u32 \<Rightarrow> Simulator \<Rightarrow> result" where
  "InterpretBRANCH instr s =
     (let a = get_xreg s (Instr_rs1 instr);
          b = get_xreg s (Instr_rs2 instr)
      in if Instr_funct3 instr = BEQ then branch_if (a = b) instr s
         else if Instr_funct3 instr = BNE then branch_if (a \<noteq> b) instr s
         else if Instr_funct3 instr = BLT then branch_if (sint a < sint b) instr s
         else if Instr_funct3 instr = BGE then branch_if (sint a \<ge> sint b) instr s
         else if Instr_funct3 instr = BLTU then branch_if (a < b) instr s
         else if Instr_funct3 instr = BGEU then branch_if (a \<ge> b) instr s
         else Inl (IllegalInstruction instr))"

section \<open>Loads and stores\<close>

definition load_into :: "nat \<Rightarrow> (u64 \<Rightarrow> u64) \<Rightarrow> Register \<Rightarrow> u64 \<Rightarrow> u64 \<Rightarrow> Simulator \<Rightarrow> result" where
  "load_into n convert rd addr len s =
     (let (v, s) = MemoryRead n s addr in next_instr len (set_xreg s rd (convert v)))"

definition InterpretLOAD :: "u32 \<Rightarrow> Simulator \<Rightarrow> result" where
  "InterpretLOAD instr s =
     (let addr = get_xreg s (Instr_rs1 instr) + Instr_itype_imm instr;
          rd = Instr_rd instr
      in if Instr_funct3 instr = LB then load_into 1 (sext 1) rd addr 4 s
         else if Instr_funct3 instr = LH then load_into 2 (sext 2) rd addr 4 s
         else if Instr_funct3 instr = LW then load_into 4 (sext 4) rd addr 4 s
         else if Instr_funct3 instr = LBU then load_into 1 id rd addr 4 s
         else if Instr_funct3 instr = LHU then load_into 2 id rd addr 4 s
         else if Instr_funct3 instr = LWU then load_into 4 id rd addr 4 s
         else if Instr_funct3 instr = LD then load_into 8 id rd addr 4 s
         else Inl (IllegalInstruction instr))"

definition InterpretSTORE :: "u32 \<Rightarrow> Simulator \<Rightarrow> result" where
  "InterpretSTORE instr s =
     (let addr = get_xreg s (Instr_rs1 instr) + Instr_stype_imm instr;
          val = get_xreg s (Instr_rs2 instr)
      in if Instr_funct3 instr = SB then next_instr 4 (MemoryWrite 1 s addr val)
         else if Instr_funct3 instr = SH then next_instr 4 (MemoryWrite 2 s addr val)
         else if Instr_funct3 instr = SW then next_instr 4 (MemoryWrite 4 s addr val)
         else if Instr_funct3 instr = SD then next_instr 4 (MemoryWrite 8 s addr val)
         else Inl (IllegalInstruction instr))"

text \<open>\<open>vregs_\<close> is one block of 32 registers of \<open>VLEN / 8\<close> bytes; element \<open>i\<close> of a register seen as
  an array of \<open>T\<close> lies \<open>i * sizeof (T)\<close> bytes after its start.\<close>

definition vreg_offset :: "Register \<Rightarrow> nat \<Rightarrow> nat \<Rightarrow> nat" where
  "vreg_offset v n i = unat v * (VLEN div 8) + i * n"

fun store_vbytes :: "nat \<Rightarrow> (nat \<Rightarrow> u8) \<Rightarrow> nat \<Rightarrow> u64 \<Rightarrow> nat \<Rightarrow> u8" where
  "store_vbytes 0 m a v = m"
| "store_vbytes (Suc n) m a v = store_vbytes n (m(a := ucast v)) (a + 1) (drop_bit 8 v)"

fun load_vbytes :: "nat \<Rightarrow> (nat \<Rightarrow> u8) \<Rightarrow> nat \<Rightarrow> u64" where
  "load_vbytes 0 m a = 0"
| "load_vbytes (Suc n) m a = ucast (m a) OR push_bit 8 (load_vbytes n m (a + 1))"

fun LOADV_loop :: "nat \<Rightarrow> Register \<Rightarrow> u64 \<Rightarrow> nat \<Rightarrow> nat \<Rightarrow> Simulator \<Rightarrow> Simulator" where
  "LOADV_loop n vd base i 0 s = s"
| "LOADV_loop n vd base i (Suc left) s =
     (let (v, s) = MemoryRead n s (base + of_nat i * of_nat n)
      in LOADV_loop n vd base (Suc i) left
           (s\<lparr>vregs_m := store_vbytes n (vregs_m s) (vreg_offset vd n i) v\<rparr>))"

definition InterpretLOADV :: "nat \<Rightarrow> u32 \<Rightarrow> Simulator \<Rightarrow> result" where
  "InterpretLOADV n instr s =
     (if instr AND 0xFFF00000 \<noteq> 0x02000000 then Inl UNIMPLEMENTED
      else Inr (LOADV_loop n (Instr_rd instr) (get_xreg s (Instr_rs1 instr)) 0 (unat (vl_m s)) s))"

fun STOREV_loop :: "nat \<Rightarrow> Register \<Rightarrow> u64 \<Rightarrow> nat \<Rightarrow> nat \<Rightarrow> Simulator \<Rightarrow> Simulator" where
  "STOREV_loop n vs3 base i 0 s = s"
| "STOREV_loop n vs3 base i (Suc left) s =
     STOREV_loop n vs3 base (Suc i) left
       (MemoryWrite n s (base + of_nat i * of_nat n) (load_vbytes n (vregs_m s) (vreg_offset vs3 n i)))"

definition InterpretSTOREV :: "nat \<Rightarrow> u32 \<Rightarrow> Simulator \<Rightarrow> result" where
  "InterpretSTOREV n instr s =
     (if instr AND 0xFFF00000 \<noteq> 0x02000000 then Inl UNIMPLEMENTED
      else Inr (STOREV_loop n (Instr_rd instr) (get_xreg s (Instr_rs1 instr)) 0 (unat (vl_m s)) s))"

definition then_next :: "u64 \<Rightarrow> result \<Rightarrow> result" where
  "then_next len r = (case r of Inl e \<Rightarrow> Inl e | Inr s \<Rightarrow> next_instr len s)"

definition InterpretLOADFP :: "u32 \<Rightarrow> Simulator \<Rightarrow> result" where
  "InterpretLOADFP instr s =
     (let addr = get_xreg s (Instr_rs1 instr) + Instr_itype_imm instr;
          frd = Instr_rd instr
      in if Instr_funct3 instr = F3_S
         then let (v, s) = MemoryRead 4 s addr in next_instr 4 (set_fregs s frd (ucast v))
         else if Instr_funct3 instr = F3_D
         then let (v, s) = MemoryRead 8 s addr in next_instr 4 (set_fregd s frd v)
         else if Instr_funct3 instr = 0b000 then then_next 4 (InterpretLOADV 1 instr s)
         else if Instr_funct3 instr = 0b101 then then_next 4 (InterpretLOADV 2 instr s)
         else if Instr_funct3 instr = 0b110 then then_next 4 (InterpretLOADV 4 instr s)
         else if Instr_funct3 instr = 0b111 then then_next 4 (InterpretLOADV 8 instr s)
         else Inl (IllegalInstruction instr))"

definition InterpretSTOREFP :: "u32 \<Rightarrow> Simulator \<Rightarrow> result" where
  "InterpretSTOREFP instr s =
     (let addr = get_xreg s (Instr_rs1 instr) + Instr_stype_imm instr;
          frs2 = Instr_rs2 instr
      in if Instr_funct3 instr = F3_S
         then next_instr 4 (MemoryWrite 4 s addr (ucast (get_fregs s frs2)))
         else if Instr_funct3 instr = F3_D
         then next_instr 4 (MemoryWrite 8 s addr (get_fregd s frs2))
         else if Instr_funct3 instr = 0b000 then then_next 4 (InterpretSTOREV 1 instr s)
         else if Instr_funct3 instr = 0b101 then then_next 4 (InterpretSTOREV 2 instr s)
         else if Instr_funct3 instr = 0b110 then then_next 4 (InterpretSTOREV 4 instr s)
         else if Instr_funct3 instr = 0b111 then then_next 4 (InterpretSTOREV 8 instr s)
         else Inl (IllegalInstruction instr))"

section \<open>Register-immediate operations\<close>

definition set_rd :: "u32 \<Rightarrow> Simulator \<Rightarrow> u64 \<Rightarrow> result" where
  "set_rd instr s val = next_instr 4 (set_xreg s (Instr_rd instr) val)"

definition InterpretOPIMM :: "u32 \<Rightarrow> Simulator \<Rightarrow> result" where
  "InterpretOPIMM instr s =
     (let a = get_xreg s (Instr_rs1 instr);
          imm = Instr_itype_imm instr;
          shamt = Instr_shamt instr;
          funct7 = Instr_funct7 instr
      in if Instr_funct3 instr = ADDI then set_rd instr s (a + imm)
         else if Instr_funct3 instr = SLTI then set_rd instr s (if sint a < sint imm then 1 else 0)
         else if Instr_funct3 instr = SLTIU then set_rd instr s (if a < imm then 1 else 0)
         else if Instr_funct3 instr = XORI then set_rd instr s (a XOR imm)
         else if Instr_funct3 instr = ORI then set_rd instr s (a OR imm)
         else if Instr_funct3 instr = ANDI then set_rd instr s (a AND imm)
         else if Instr_funct3 instr = SLLI then
           (if funct7 = COUNT then
              (if shamt = 0b00000 then set_rd instr s (sim_clz a)
               else if shamt = 0b00001 then set_rd instr s (sim_ctz a)
               else if shamt = 0b00010 then set_rd instr s (sim_cpop a)
               else if shamt = 0b00100 then set_rd instr s (sim_sextb a)
               else if shamt = 0b00101 then set_rd instr s (sim_sexth a)
               else Inl (IllegalInstruction instr))
            else if funct7 AND 0b1111110 = BCLRBEXT then set_rd instr s (sim_bclr a (ucast shamt))
            else if funct7 AND 0b1111110 = BINV then set_rd instr s (sim_binv a (ucast shamt))
            else if funct7 AND 0b1111110 = BSET then set_rd instr s (sim_bset a (ucast shamt))
            else set_rd instr s (push_bit (unat shamt) a))
         else if Instr_funct3 instr = SRI then
           (if funct7 AND 0b1111110 = SRA then set_rd instr s (signed_drop_bit (unat shamt) a)
            else if funct7 AND 0b1111110 = ROTATE then set_rd instr s (sim_ror a (ucast shamt))
            else if funct7 = 0b0010100 then set_rd instr s (sim_orcb a)
            else if funct7 = 0b0110101 then set_rd instr s (sim_rev8 a)
            else if funct7 AND 0b1111110 = BCLRBEXT then set_rd instr s (sim_bext a (ucast shamt))
            else set_rd instr s (drop_bit (unat shamt) a))
         else Inl (IllegalInstruction instr))"

definition InterpretOPIMM32 :: "u32 \<Rightarrow> Simulator \<Rightarrow> result" where
  "InterpretOPIMM32 instr s =
     (let a = ucast (get_xreg s (Instr_rs1 instr)) :: u32;
          shamt = Instr_shamt instr;
          funct7 = Instr_funct7 instr
      in if Instr_funct3 instr = ADDI then
           set_rd instr s (sign_extend (a + ucast (Instr_itype_imm instr)))
         else if Instr_funct3 instr = SLLI then
           (if funct7 = SLLIUW then set_rd instr s (push_bit (unat shamt) (ucast a))
            else if funct7 = COUNT then
              (if shamt = 0b00000 then set_rd instr s (sim_clzw a)
               else if shamt = 0b00001 then set_rd instr s (sim_ctzw a)
               else if shamt = 0b00010 then set_rd instr s (sim_cpopw a)
               else Inl (IllegalInstruction instr))
            else set_rd instr s (sign_extend (push_bit (unat shamt) a)))
         else if Instr_funct3 instr = SRI then
           (if funct7 = SRA then set_rd instr s (sign_extend (signed_drop_bit (unat shamt) a))
            else if funct7 = ROTATE then
              set_rd instr s (sim_rorw (get_xreg s (Instr_rs1 instr)) (ucast shamt))
            else set_rd instr s (sign_extend (drop_bit (unat shamt) a)))
         else Inl (IllegalInstruction instr))"

section \<open>Register-register operations\<close>

definition InterpretOP_0 :: "u32 \<Rightarrow> Simulator \<Rightarrow> result" where
  "InterpretOP_0 instr s =
     (let a = get_xreg s (Instr_rs1 instr);
          b = get_xreg s (Instr_rs2 instr);
          shamt = unat (b AND (64 - 1))
      in if Instr_funct3 instr = ADD then set_rd instr s (a + b)
         else if Instr_funct3 instr = SLL then set_rd instr s (push_bit shamt a)
         else if Instr_funct3 instr = SLT then set_rd instr s (if sint a < sint b then 1 else 0)
         else if Instr_funct3 instr = SLTU then set_rd instr s (if a < b then 1 else 0)
         else if Instr_funct3 instr = F3_XOR then set_rd instr s (a XOR b)
         else if Instr_funct3 instr = SR then set_rd instr s (drop_bit shamt a)
         else if Instr_funct3 instr = F3_OR then set_rd instr s (a OR b)
         else if Instr_funct3 instr = F3_AND then set_rd instr s (a AND b)
         else Inl (IllegalInstruction instr))"

definition InterpretOP_MULDIV :: "u32 \<Rightarrow> Simulator \<Rightarrow> result" where
  "InterpretOP_MULDIV instr s =
     (let a = get_xreg s (Instr_rs1 instr);
          b = get_xreg s (Instr_rs2 instr)
      in if Instr_funct3 instr = MUL then set_rd instr s (sim_mul a b)
         else if Instr_funct3 instr = MULH then set_rd instr s (sim_mulh a b)
         else if Instr_funct3 instr = MULHSU then set_rd instr s (sim_mulhsu a b)
         else if Instr_funct3 instr = MULHU then set_rd instr s (sim_mulhu a b)
         else if Instr_funct3 instr = DIV then set_rd instr s (sim_div a b)
         else if Instr_funct3 instr = DIVU then set_rd instr s (sim_divu a b)
         else if Instr_funct3 instr = REM then set_rd instr s (sim_rem a b)
         else if Instr_funct3 instr = REMU then set_rd instr s (sim_remu a b)
         else Inl (IllegalInstruction instr))"

definition InterpretOP_SUB :: "u32 \<Rightarrow> Simulator \<Rightarrow> result" where
  "InterpretOP_SUB instr s =
     (let a = get_xreg s (Instr_rs1 instr);
          b = get_xreg s (Instr_rs2 instr)
      in if Instr_funct3 instr = ADD then set_rd instr s (a - b)
         else if Instr_funct3 instr = SR then
           set_rd instr s (signed_drop_bit (unat (b AND (64 - 1))) a)
         else if Instr_funct3 instr = F3_AND then set_rd instr s (a AND NOT b)
         else if Instr_funct3 instr = F3_OR then set_rd instr s (a OR NOT b)
         else if Instr_funct3 instr = F3_XOR then set_rd instr s (a XOR NOT b)
         else Inl (IllegalInstruction instr))"

definition InterpretOP_SHADD :: "u32 \<Rightarrow> Simulator \<Rightarrow> result" where
  "InterpretOP_SHADD instr s =
     (let a = get_xreg s (Instr_rs1 instr);
          b = get_xreg s (Instr_rs2 instr)
      in if Instr_funct3 instr = SH1ADD then set_rd instr s (push_bit 1 a + b)
         else if Instr_funct3 instr = SH2ADD then set_rd instr s (push_bit 2 a + b)
         else if Instr_funct3 instr = SH3ADD then set_rd instr s (push_bit 3 a + b)
         else Inl (IllegalInstruction instr))"

definition InterpretOP_MINMAXCLMUL :: "u32 \<Rightarrow> Simulator \<Rightarrow> result" where
  "InterpretOP_MINMAXCLMUL instr s =
     (let a = get_xreg s (Instr_rs1 instr);
          b = get_xreg s (Instr_rs2 instr)
      in if Instr_funct3 instr = F3_MAX then set_rd instr s (sim_max a b)
         else if Instr_funct3 instr = F3_MAXU then set_rd instr s (sim_maxu a b)
         else if Instr_funct3 instr = F3_MIN then set_rd instr s (sim_min a b)
         else if Instr_funct3 instr = F3_MINU then set_rd instr s (sim_minu a b)
         else if Instr_funct3 instr = CLMUL then set_rd instr s (sim_clmul a b)
         else if Instr_funct3 instr = CLMULH then set_rd instr s (sim_clmulh a b)
         else if Instr_funct3 instr = CLMULR then set_rd instr s (sim_clmulr a b)
         else Inl (IllegalInstruction instr))"

definition InterpretOP_ROTATE :: "u32 \<Rightarrow> Simulator \<Rightarrow> result" where
  "InterpretOP_ROTATE instr s =
     (let a = get_xreg s (Instr_rs1 instr);
          b = get_xreg s (Instr_rs2 instr)
      in if Instr_funct3 instr = ROR then set_rd instr s (sim_ror a b)
         else if Instr_funct3 instr = ROL then set_rd instr s (sim_rol a b)
         else Inl (IllegalInstruction instr))"

definition InterpretOP_BCLRBEXT :: "u32 \<Rightarrow> Simulator \<Rightarrow> result" where
  "InterpretOP_BCLRBEXT instr s =
     (let a = get_xreg s (Instr_rs1 instr);
          b = get_xreg s (Instr_rs2 instr)
      in if Instr_funct3 instr = BCLR then set_rd instr s (sim_bclr a b)
         else if Instr_funct3 instr = BEXT then set_rd instr s (sim_bext a b)
         else Inl (IllegalInstruction instr))"

definition InterpretOP_CZERO :: "u32 \<Rightarrow> Simulator \<Rightarrow> result" where
  "InterpretOP_CZERO instr s =
     (let a = get_xreg s (Instr_rs1 instr);
          b = get_xreg s (Instr_rs2 instr)
      in if Instr_funct3 instr = CZEROEQZ then set_rd instr s (if b = 0 then 0 else a)
         else if Instr_funct3 instr = CZERONEZ then set_rd instr s (if b \<noteq> 0 then 0 else a)
         else Inl (IllegalInstruction instr))"

definition InterpretOP :: "u32 \<Rightarrow> Simulator \<Rightarrow> result" where
  "InterpretOP instr s =
     (let funct7 = Instr_funct7 instr
      in if funct7 = 0 then InterpretOP_0 instr s
         else if funct7 = SUB then InterpretOP_SUB instr s
         else if funct7 = MULDIV then InterpretOP_MULDIV instr s
         else if funct7 = SHADD then InterpretOP_SHADD instr s
         else if funct7 = MINMAXCLMUL then InterpretOP_MINMAXCLMUL instr s
         else if funct7 = ROTATE then InterpretOP_ROTATE instr s
         else if funct7 = BCLRBEXT then InterpretOP_BCLRBEXT instr s
         else if funct7 = BINV then
           set_rd instr s (sim_binv (get_xreg s (Instr_rs1 instr)) (get_xreg s (Instr_rs2 instr)))
         else if funct7 = BSET then
           set_rd instr s (sim_bset (get_xreg s (Instr_rs1 instr)) (get_xreg s (Instr_rs2 instr)))
         else if funct7 = CZERO then InterpretOP_CZERO instr s
         else Inl (IllegalInstruction instr))"

definition InterpretOP32_0 :: "u32 \<Rightarrow> Simulator \<Rightarrow> result" where
  "InterpretOP32_0 instr s =
     (let a = ucast (get_xreg s (Instr_rs1 instr)) :: u32;
          b = ucast (get_xreg s (Instr_rs2 instr)) :: u32;
          shamt = unat (get_xreg s (Instr_rs2 instr) AND (32 - 1))
      in if Instr_funct3 instr = ADD then set_rd instr s (sign_extend (a + b))
         else if Instr_funct3 instr = SLL then set_rd instr s (sign_extend (push_bit shamt a))
         else if Instr_funct3 instr = SR then set_rd instr s (sign_extend (drop_bit shamt a))
         else Inl (IllegalInstruction instr))"

definition InterpretOP32_SUB :: "u32 \<Rightarrow> Simulator \<Rightarrow> result" where
  "InterpretOP32_SUB instr s =
     (let a = ucast (get_xreg s (Instr_rs1 instr)) :: u32;
          b = ucast (get_xreg s (Instr_rs2 instr)) :: u32;
          shamt = unat (get_xreg s (Instr_rs2 instr) AND (32 - 1))
      in if Instr_funct3 instr = ADD then set_rd instr s (sign_extend (a - b))
         else if Instr_funct3 instr = SR then set_rd instr s (sign_extend (signed_drop_bit shamt a))
         else Inl (IllegalInstruction instr))"

definition InterpretOP32_MULDIV :: "u32 \<Rightarrow> Simulator \<Rightarrow> result" where
  "InterpretOP32_MULDIV instr s =
     (let a = ucast (get_xreg s (Instr_rs1 instr)) :: u32;
          b = ucast (get_xreg s (Instr_rs2 instr)) :: u32
      in if Instr_funct3 instr = MULW then set_rd instr s (sign_extend (sim_mulw a b))
         else if Instr_funct3 instr = DIVW then set_rd instr s (sign_extend (sim_divw a b))
         else if Instr_funct3 instr = DIVUW then set_rd instr s (sign_extend (sim_divuw a b))
         else if Instr_funct3 instr = REMW then set_rd instr s (sign_extend (sim_remw a b))
         else if Instr_funct3 instr = REMUW then set_rd instr s (sign_extend (sim_remuw a b))
         else Inl (IllegalInstruction instr))"

definition InterpretOP32_SHADD :: "u32 \<Rightarrow> Simulator \<Rightarrow> result" where
  "InterpretOP32_SHADD instr s =
     (let a = ucast (ucast (get_xreg s (Instr_rs1 instr)) :: u32) :: u64;
          b = get_xreg s (Instr_rs2 instr)
      in if Instr_funct3 instr = SH1ADD then set_rd instr s (push_bit 1 a + b)
         else if Instr_funct3 instr = SH2ADD then set_rd instr s (push_bit 2 a + b)
         else if Instr_funct3 instr = SH3ADD then set_rd instr s (push_bit 3 a + b)
         else Inl (IllegalInstruction instr))"

definition InterpretOP32_ADDUW :: "u32 \<Rightarrow> Simulator \<Rightarrow> result" where
  "InterpretOP32_ADDUW instr s =
     (let a = ucast (ucast (get_xreg s (Instr_rs1 instr)) :: u32) :: u64;
          b = get_xreg s (Instr_rs2 instr)
      in if Instr_funct3 instr = F3_0 then set_rd instr s (a + b)
         else if Instr_funct3 instr = ZEXT then set_rd instr s (sim_zexth (get_xreg s (Instr_rs1 instr)))
         else Inl (IllegalInstruction instr))"

definition InterpretOP32_ROTATE :: "u32 \<Rightarrow> Simulator \<Rightarrow> result" where
  "InterpretOP32_ROTATE instr s =
     (let a = get_xreg s (Instr_rs1 instr);
          b = get_xreg s (Instr_rs2 instr)
      in if Instr_funct3 instr = ROR then set_rd instr s (sim_rorw a b)
         else if Instr_funct3 instr = ROL then set_rd instr s (sim_rolw a b)
         else Inl (IllegalInstruction instr))"

definition InterpretOP32 :: "u32 \<Rightarrow> Simulator \<Rightarrow> result" where
  "InterpretOP32 instr s =
     (let funct7 = Instr_funct7 instr
      in if funct7 = 0 then InterpretOP32_0 instr s
         else if funct7 = SUB then InterpretOP32_SUB instr s
         else if funct7 = MULDIV then InterpretOP32_MULDIV instr s
         else if funct7 = SHADD then InterpretOP32_SHADD instr s
         else if funct7 = ADDUW then InterpretOP32_ADDUW instr s
         else if funct7 = ROTATE then InterpretOP32_ROTATE instr s
         else Inl (IllegalInstruction instr))"

section \<open>Fences and system instructions\<close>

definition InterpretMISCMEM :: "u32 \<Rightarrow> Simulator \<Rightarrow> result" where
  "InterpretMISCMEM instr s =
     (if Instr_funct3 instr = FENCE then next_instr 4 (s\<lparr>memory_m := Memory_FlushAll (memory_m s)\<rparr>)
      else if Instr_funct3 instr = FENCEI then next_instr 4 s
      else Inl (IllegalInstruction instr))"

definition csr_read_write :: "u32 \<Rightarrow> u64 \<Rightarrow> Simulator \<Rightarrow> result" where
  "csr_read_write instr val s =
     (if Instr_rd instr = ZR then then_next 4 (CSRWrite (Instr_csr instr) val s)
      else case CSRRead (Instr_csr instr) s of
             Inl e \<Rightarrow> Inl e
           | Inr res \<Rightarrow>
               (case CSRWrite (Instr_csr instr) val s of
                  Inl e \<Rightarrow> Inl e
                | Inr s \<Rightarrow> next_instr 4 (set_xreg s (Instr_rd instr) res)))"

definition csr_read_modify :: "u32 \<Rightarrow> bool \<Rightarrow> (Simulator \<Rightarrow> result) \<Rightarrow> Simulator \<Rightarrow> result" where
  "csr_read_modify instr no_write modify s =
     (case CSRRead (Instr_csr instr) s of
        Inl e \<Rightarrow> Inl e
      | Inr res \<Rightarrow>
          (case (if no_write then Inr s else modify s) of
             Inl e \<Rightarrow> Inl e
           | Inr s \<Rightarrow> next_instr 4 (set_xreg s (Instr_rd instr) res)))"

definition InterpretSYSTEM :: "host \<Rightarrow> u32 \<Rightarrow> Simulator \<Rightarrow> result" where
  "InterpretSYSTEM h instr s =
     (if Instr_funct3 instr = PRIV then
        (if Instr_funct12 instr = ECALL then host_ECALL h instr s
         else if Instr_funct12 instr = EBREAK then Inl (Fault ''EBREAK'')
         else if Instr_funct12 instr = WRS_NTO \<or> Instr_funct12 instr = WRS_STO then next_instr 4 s
         else Inl (IllegalInstruction instr))
      else if Instr_funct3 instr = MOP then
        (if Instr_funct7 instr = SSPUSH \<and> Instr_rd instr = ZR \<and> Instr_rs1 instr = ZR \<and>
            (Instr_rs2 instr = 1 \<or> Instr_rs2 instr = 5) then
           (if ss_enabled_m s
            then let ra = get_xreg s (Instr_rs2 instr);
                     s = s\<lparr>ssp_m := ssp_m s - 8\<rparr>
                 in next_instr 4 (MemoryWrite 8 s (ssp_m s) ra)
            else next_instr 4 s)
         else if Instr_funct12 instr = SSPOPCHK \<and> Instr_rd instr = ZR \<and>
            (Instr_rs1 instr = 1 \<or> Instr_rs1 instr = 5) then
           (if ss_enabled_m s
            then let (ra, s) = MemoryRead 8 s (ssp_m s);
                     s = s\<lparr>ssp_m := ssp_m s + 8\<rparr>
                 in if ra \<noteq> get_xreg s (Instr_rs1 instr) then Inl (Fault ''Corrupt control flow'')
                    else next_instr 4 s
            else next_instr 4 s)
         else if Instr_funct12 instr = SSRDP \<and> Instr_rs1 instr = ZR then
           set_rd instr s (if ss_enabled_m s then ssp_m s else 0)
         else if Instr_funct12 instr AND MOP_R_MASK = MOP_R then set_rd instr s 0
         else if Instr_funct7 instr AND MOP_RR_MASK = MOP_RR then set_rd instr s 0
         else Inl (IllegalInstruction instr))
      else if Instr_funct3 instr = CSRRW then csr_read_write instr (get_xreg s (Instr_rs1 instr)) s
      else if Instr_funct3 instr = CSRRS then
        csr_read_modify instr (Instr_rs1 instr = ZR)
          (CSRSet (Instr_csr instr) (get_xreg s (Instr_rs1 instr))) s
      else if Instr_funct3 instr = CSRRC then
        csr_read_modify instr (Instr_rs1 instr = ZR)
          (CSRClear (Instr_csr instr) (get_xreg s (Instr_rs1 instr))) s
      else if Instr_funct3 instr = CSRRWI then csr_read_write instr (ucast (Instr_zimm instr)) s
      else if Instr_funct3 instr = CSRRSI then
        csr_read_modify instr (Instr_zimm instr = 0) (CSRSet (Instr_csr instr) (ucast (Instr_zimm instr))) s
      else if Instr_funct3 instr = CSRRCI then
        csr_read_modify instr (Instr_zimm instr = 0) (CSRClear (Instr_csr instr) (ucast (Instr_zimm instr))) s
      else Inl (IllegalInstruction instr))"

section \<open>Atomic operations\<close>

text \<open>The template argument \<open>type\<close> is its size \<open>n\<close> in bytes, with a flag for its signedness where the
  handler compares. A read-modify-write goes to host memory directly, after \<open>FlushAddress\<close>. The
  loops around \<open>compare_exchange_weak\<close> in \<open>InterpretAMOMIN\<close> and \<open>InterpretAMOMAX\<close> end at the first
  attempt that does not fail spuriously, which sees the value loaded before.\<close>

definition misaligned :: "nat \<Rightarrow> u64 \<Rightarrow> bool" where
  "misaligned n addr = (addr AND (of_nat n - 1) \<noteq> 0)"

definition atomic_rmw :: "nat \<Rightarrow> (u64 \<Rightarrow> u64 \<Rightarrow> u64) \<Rightarrow> u32 \<Rightarrow> Simulator \<Rightarrow> result" where
  "atomic_rmw n f instr s =
     (let addr = get_xreg s (Instr_rs1 instr)
      in if misaligned n addr then Inl (Fault ''Misaligned atomic memory operation'')
         else let m = Memory_FlushAddress (memory_m s) addr;
                  res = load_le n (host_m m) addr;
                  m = m\<lparr>host_m := store_le n (host_m m) addr (f res (get_xreg s (Instr_rs2 instr)))\<rparr>
              in Inr (set_xreg (s\<lparr>memory_m := m\<rparr>) (Instr_rd instr) (sext n res)))"

definition InterpretLR :: "nat \<Rightarrow> u32 \<Rightarrow> Simulator \<Rightarrow> result" where
  "InterpretLR n instr s =
     (let addr = get_xreg s (Instr_rs1 instr)
      in if misaligned n addr then Inl (Fault ''Misaligned atomic memory operation'')
         else let (v, m) = Memory_Load_atomic n (memory_m s) addr;
                  s = s\<lparr>reserved_address_m := addr, reserved_value_m := sext n v, memory_m := m\<rparr>
              in Inr (set_xreg s (Instr_rd instr) (reserved_value_m s)))"

definition InterpretSC :: "host \<Rightarrow> nat \<Rightarrow> u32 \<Rightarrow> Simulator \<Rightarrow> result" where
  "InterpretSC h n instr s =
     (let addr = get_xreg s (Instr_rs1 instr)
      in if misaligned n addr then Inl (Fault ''Misaligned atomic memory operation'')
         else if addr \<noteq> reserved_address_m s
         then Inr (set_xreg (s\<lparr>reserved_address_m := 0\<rparr>) (Instr_rd instr) 1)
         else let (r, state) = NextUInt32 (random_m s);
                  s = s\<lparr>random_m := state\<rparr>
              in if r mod 16 = 0
                 then Inr (set_xreg (s\<lparr>reserved_address_m := 0\<rparr>) (Instr_rd instr) 1)
                 else let ((success, _), m) =
                            Memory_CompareExchange (host_weak_fails h s) n (memory_m s) addr
                              (reserved_value_m s) (get_xreg s (Instr_rs2 instr));
                          s = set_xreg (s\<lparr>memory_m := m\<rparr>) (Instr_rd instr) (if success then 0 else 1)
                      in Inr (s\<lparr>reserved_address_m := 0\<rparr>))"

definition InterpretAMOSWAP :: "nat \<Rightarrow> u32 \<Rightarrow> Simulator \<Rightarrow> result" where
  "InterpretAMOSWAP n = atomic_rmw n (\<lambda>old arg. arg)"

definition InterpretAMOADD :: "nat \<Rightarrow> u32 \<Rightarrow> Simulator \<Rightarrow> result" where
  "InterpretAMOADD n = atomic_rmw n (\<lambda>old arg. old + arg)"

definition InterpretAMOXOR :: "nat \<Rightarrow> u32 \<Rightarrow> Simulator \<Rightarrow> result" where
  "InterpretAMOXOR n = atomic_rmw n (\<lambda>old arg. old XOR arg)"

definition InterpretAMOAND :: "nat \<Rightarrow> u32 \<Rightarrow> Simulator \<Rightarrow> result" where
  "InterpretAMOAND n = atomic_rmw n (\<lambda>old arg. old AND arg)"

definition InterpretAMOOR :: "nat \<Rightarrow> u32 \<Rightarrow> Simulator \<Rightarrow> result" where
  "InterpretAMOOR n = atomic_rmw n (\<lambda>old arg. old OR arg)"

definition type_value :: "nat \<Rightarrow> bool \<Rightarrow> u64 \<Rightarrow> int" where
  "type_value n is_signed v = (if is_signed then sint (sext n v) else uint (take_bit (8 * n) v))"

definition InterpretAMOMIN :: "nat \<Rightarrow> bool \<Rightarrow> u32 \<Rightarrow> Simulator \<Rightarrow> result" where
  "InterpretAMOMIN n is_signed =
     atomic_rmw n (\<lambda>old arg. if type_value n is_signed old < type_value n is_signed arg then old else arg)"

definition InterpretAMOMAX :: "nat \<Rightarrow> bool \<Rightarrow> u32 \<Rightarrow> Simulator \<Rightarrow> result" where
  "InterpretAMOMAX n is_signed =
     atomic_rmw n (\<lambda>old arg. if type_value n is_signed old > type_value n is_signed arg then old else arg)"

definition InterpretLOADORDERED :: "nat \<Rightarrow> u32 \<Rightarrow> Simulator \<Rightarrow> result" where
  "InterpretLOADORDERED n instr s =
     (let addr = get_xreg s (Instr_rs1 instr)
      in if misaligned n addr then Inl (Fault ''Misaligned atomic memory operation'')
         else let m = Memory_FlushAddress (memory_m s) addr;
                  val = load_le n (host_m m) addr
              in Inr (set_xreg (s\<lparr>memory_m := m\<rparr>) (Instr_rd instr) (sext n val)))"

definition InterpretSTOREORDERED :: "nat \<Rightarrow> u32 \<Rightarrow> Simulator \<Rightarrow> result" where
  "InterpretSTOREORDERED n instr s =
     (let addr = get_xreg s (Instr_rs1 instr)
      in if misaligned n addr then Inl (Fault ''Misaligned atomic memory operation'')
         else let m = Memory_FlushAddress (memory_m s) addr;
                  m = m\<lparr>host_m := store_le n (host_m m) addr (get_xreg s (Instr_rs2 instr))\<rparr>
              in Inr (s\<lparr>memory_m := m\<rparr>))"

definition InterpretAMOCAS :: "host \<Rightarrow> nat \<Rightarrow> u32 \<Rightarrow> Simulator \<Rightarrow> result" where
  "InterpretAMOCAS h n instr s =
     (let addr = get_xreg s (Instr_rs1 instr)
      in if misaligned n addr then Inl (Fault ''Misaligned atomic memory operation'')
         else let ((_, expected), ram) =
                    Direct_CompareExchange (host_weak_fails h s) n (host_m (memory_m s)) addr
                      (get_xreg s (Instr_rd instr)) (get_xreg s (Instr_rs2 instr))
              in Inr (set_xreg (s\<lparr>memory_m := (memory_m s)\<lparr>host_m := ram\<rparr>\<rparr>) (Instr_rd instr)
                        (sext n expected)))"

text \<open>The cases that \<open>InterpretAMO8\<close>, \<open>InterpretAMO16\<close>, \<open>InterpretAMO32\<close> and \<open>InterpretAMO64\<close> have in
  common; the last two also have \<open>LR\<close> and \<open>SC\<close>.\<close>

definition InterpretAMO_n :: "host \<Rightarrow> nat \<Rightarrow> u32 \<Rightarrow> Simulator \<Rightarrow> result" where
  "InterpretAMO_n h n instr s =
     (let funct5 = Instr_funct5 instr
      in if funct5 = AMOSWAP then InterpretAMOSWAP n instr s
         else if funct5 = AMOADD then InterpretAMOADD n instr s
         else if funct5 = AMOXOR then InterpretAMOXOR n instr s
         else if funct5 = AMOAND then InterpretAMOAND n instr s
         else if funct5 = AMOOR then InterpretAMOOR n instr s
         else if funct5 = AMOMIN then InterpretAMOMIN n True instr s
         else if funct5 = AMOMAX then InterpretAMOMAX n True instr s
         else if funct5 = AMOMINU then InterpretAMOMIN n False instr s
         else if funct5 = AMOMAXU then InterpretAMOMAX n False instr s
         else if funct5 = LOADORDERED then InterpretLOADORDERED n instr s
         else if funct5 = STOREORDERED then InterpretSTOREORDERED n instr s
         else if funct5 = AMOCAS then InterpretAMOCAS h n instr s
         else Inl (IllegalInstruction instr))"

definition InterpretAMO8 :: "host \<Rightarrow> u32 \<Rightarrow> Simulator \<Rightarrow> result" where
  "InterpretAMO8 h = InterpretAMO_n h 1"

definition InterpretAMO16 :: "host \<Rightarrow> u32 \<Rightarrow> Simulator \<Rightarrow> result" where
  "InterpretAMO16 h = InterpretAMO_n h 2"

definition InterpretAMO32 :: "host \<Rightarrow> u32 \<Rightarrow> Simulator \<Rightarrow> result" where
  "InterpretAMO32 h instr s =
     (if Instr_funct5 instr = LR then InterpretLR 4 instr s
      else if Instr_funct5 instr = SC then InterpretSC h 4 instr s
      else InterpretAMO_n h 4 instr s)"

definition InterpretAMO64 :: "host \<Rightarrow> u32 \<Rightarrow> Simulator \<Rightarrow> result" where
  "InterpretAMO64 h instr s =
     (if Instr_funct5 instr = LR then InterpretLR 8 instr s
      else if Instr_funct5 instr = SC then InterpretSC h 8 instr s
      else InterpretAMO_n h 8 instr s)"

definition InterpretAMO128 :: "u32 \<Rightarrow> Simulator \<Rightarrow> result" where
  "InterpretAMO128 instr s =
     (if Instr_funct5 instr = AMOCAS then Inl UNIMPLEMENTED else Inl (IllegalInstruction instr))"

definition InterpretAMO :: "host \<Rightarrow> u32 \<Rightarrow> Simulator \<Rightarrow> result" where
  "InterpretAMO h instr s =
     (let funct3 = Instr_funct3 instr
      in if funct3 = WIDTH8 then then_next 4 (InterpretAMO8 h instr s)
         else if funct3 = WIDTH16 then then_next 4 (InterpretAMO16 h instr s)
         else if funct3 = WIDTH32 then then_next 4 (InterpretAMO32 h instr s)
         else if funct3 = WIDTH64 then then_next 4 (InterpretAMO64 h instr s)
         else if funct3 = WIDTH128 then then_next 4 (InterpretAMO128 instr s)
         else Inl (IllegalInstruction instr))"

section \<open>Vector operations\<close>

definition vsew :: "Simulator \<Rightarrow> u64" where
  "vsew s = drop_bit 3 (vtype_m s) AND 7"

fun IVX_loop :: "nat \<Rightarrow> (u64 \<Rightarrow> u64) \<Rightarrow> Register \<Rightarrow> Register \<Rightarrow> nat \<Rightarrow> nat \<Rightarrow> (nat \<Rightarrow> u8) \<Rightarrow> nat \<Rightarrow> u8" where
  "IVX_loop n f vd vs2 i 0 v = v"
| "IVX_loop n f vd vs2 i (Suc left) v =
     IVX_loop n f vd vs2 (Suc i) left
       (store_vbytes n v (vreg_offset vd n i) (f (load_vbytes n v (vreg_offset vs2 n i))))"

definition InterpretOPV_IVX_n :: "nat \<Rightarrow> u32 \<Rightarrow> Simulator \<Rightarrow> result" where
  "InterpretOPV_IVX_n n instr s =
     (let rs1 = get_xreg s (Instr_rs1 instr);
          loop = (\<lambda>f. Inr (s\<lparr>vregs_m := IVX_loop n f (Instr_rd instr) (Instr_rs2 instr) 0
                                          (unat (vl_m s)) (vregs_m s)\<rparr>))
      in if Instr_vm instr then Inl UNIMPLEMENTED
         else if Instr_funct6 instr = VADD then loop (\<lambda>v. rs1 + v)
         else if Instr_funct6 instr = VMV then loop (\<lambda>v. rs1)
         else Inl (IllegalInstruction instr))"

definition InterpretOPV_IVX :: "u32 \<Rightarrow> Simulator \<Rightarrow> result" where
  "InterpretOPV_IVX instr s =
     (if vsew s = 0b000 then InterpretOPV_IVX_n 1 instr s
      else if vsew s = 0b001 then InterpretOPV_IVX_n 2 instr s
      else if vsew s = 0b010 then InterpretOPV_IVX_n 4 instr s
      else if vsew s = 0b011 then InterpretOPV_IVX_n 8 instr s
      else Inl (Fault ''Invalid SEW''))"

definition cfg_sew :: "u64 \<Rightarrow> u64 option" where
  "cfg_sew vtype =
     (let e = drop_bit 3 vtype AND 0b111
      in if e = 0b000 then Some 8
         else if e = 0b001 then Some 16
         else if e = 0b010 then Some 32
         else if e = 0b011 then Some 64
         else None)"

definition cfg_lmul :: "u64 \<Rightarrow> int option" where
  "cfg_lmul vtype =
     (let m = vtype AND 0b111
      in if m = 0b101 then Some (-8)
         else if m = 0b110 then Some (-4)
         else if m = 0b111 then Some (-2)
         else if m = 0b000 then Some 1
         else if m = 0b001 then Some 2
         else if m = 0b010 then Some 4
         else if m = 0b011 then Some 8
         else None)"

definition InterpretOPV_CFG :: "u32 \<Rightarrow> Simulator \<Rightarrow> result" where
  "InterpretOPV_CFG instr s =
     (if instr AND 0x80000000 = 0 then
        let avl = get_xreg s (Instr_rs1 instr);
            vtype = Instr_itype_imm instr
        in case cfg_sew vtype of
             None \<Rightarrow> Inl (Fault ''Invalid SEW'')
           | Some sew \<Rightarrow>
               (case cfg_lmul vtype of
                  None \<Rightarrow> Inl (Fault ''Invalid LMUL'')
                | Some lmul \<Rightarrow>
                    (let vlmax = (if lmul < 0 then of_nat VLEN div sew div word_of_int (- lmul)
                                  else of_nat VLEN div sew * word_of_int lmul);
                         vl = (if Instr_rs1 instr = ZR \<and> Instr_rd instr \<noteq> ZR then vlmax
                               else if Instr_rs1 instr = ZR then vl_m s
                               else if avl < vlmax then avl
                               else vlmax);
                         s = s\<lparr>vl_m := vl, vtype_m := vtype\<rparr>
                     in Inr (set_xreg s (Instr_rd instr) (vl_m s))))
      else Inl (IllegalInstruction instr))"

definition InterpretOPV :: "u32 \<Rightarrow> Simulator \<Rightarrow> result" where
  "InterpretOPV instr s =
     (let funct3 = Instr_funct3 instr
      in if funct3 = OPIVX then then_next 4 (InterpretOPV_IVX instr s)
         else if funct3 = OPCFG then then_next 4 (InterpretOPV_CFG instr s)
         else Inl (IllegalInstruction instr))"

section \<open>Dispatch of 32-bit instructions\<close>

definition Interpret :: "host \<Rightarrow> u32 \<Rightarrow> Simulator \<Rightarrow> result" where
  "Interpret h instr s =
     (let opcode = Instr_opcode instr
      in if opcode = LUI then InterpretLUI instr s
         else if opcode = AUIPC then InterpretAUIPC instr s
         else if opcode = JAL then InterpretJAL instr s
         else if opcode = JALR then InterpretJALR instr s
         else if opcode = BRANCH then InterpretBRANCH instr s
         else if opcode = LOAD then InterpretLOAD instr s
         else if opcode = STORE then InterpretSTORE instr s
         else if opcode = OPIMM then InterpretOPIMM instr s
         else if opcode = OPIMM32 then InterpretOPIMM32 instr s
         else if opcode = OP then InterpretOP instr s
         else if opcode = OP32 then InterpretOP32 instr s
         else if opcode = MISCMEM then InterpretMISCMEM instr s
         else if opcode = SYSTEM then InterpretSYSTEM h instr s
         else if opcode = AMO then InterpretAMO h instr s
         else if opcode = LOADFP then InterpretLOADFP instr s
         else if opcode = STOREFP then InterpretSTOREFP instr s
         else if opcode = FMADD \<or> opcode = FMSUB \<or> opcode = FNMADD \<or> opcode = FNMSUB \<or> opcode = OPFP
         then host_FP h instr s
         else if opcode = OPV then InterpretOPV instr s
         else Inl (IllegalInstruction instr))"

section \<open>Compressed instructions\<close>

definition set_c :: "Register \<Rightarrow> Simulator \<Rightarrow> u64 \<Rightarrow> result" where
  "set_c rd s val = next_instr 2 (set_xreg s rd val)"

definition Interpret_C_JR :: "u16 \<Rightarrow> Simulator \<Rightarrow> result" where
  "Interpret_C_JR instr s =
     (let rs1 = CInstr_rs1 instr;
          rs2 = CInstr_rs2 instr
      in if ucast instr AND (C_JALR XOR C_JR) \<noteq> 0 then
           (if rs1 = ZR \<and> rs2 = ZR then Inl (Fault ''EBREAK'')
            else if rs2 = ZR then
              (let target = get_xreg s rs1;
                   s = set_xreg s RA (pc_m s + 2);
                   s = s\<lparr>pc_m := target\<rparr>
               in CheckLandingPad rs1 s)
            else set_c (CInstr_rd instr) s (get_xreg s rs1 + get_xreg s rs2))
         else
           (if CInstr_rd instr \<noteq> ZR \<and> rs2 \<noteq> ZR then set_c (CInstr_rd instr) s (get_xreg s rs2)
            else if rs2 \<noteq> ZR then Inl (IllegalCInstruction instr)
            else CheckLandingPad rs1 (s\<lparr>pc_m := get_xreg s rs1\<rparr>)))"

definition Interpret_C_LUI :: "u16 \<Rightarrow> Simulator \<Rightarrow> result" where
  "Interpret_C_LUI instr s =
     (if CInstr_rd instr = SP then
        (if CInstr_i16_imm instr = 0 then Inl (IllegalCInstruction instr)
         else set_c (CInstr_rd instr) s (get_xreg s (CInstr_rs1 instr) + CInstr_i16_imm instr))
      else if CInstr_rd instr \<noteq> ZR \<and> CInstr_u_imm instr \<noteq> 0 then
        set_c (CInstr_rd instr) s (CInstr_u_imm instr)
      else if ucast instr = C_SSPUSH then
        (if ss_enabled_m s
         then let ra = get_xreg s 1;
                  s = s\<lparr>ssp_m := ssp_m s - 8\<rparr>
              in next_instr 2 (MemoryWrite 8 s (ssp_m s) ra)
         else next_instr 2 s)
      else if ucast instr = C_SSPOPCHK then
        (if ss_enabled_m s
         then let (ra, s) = MemoryRead 8 s (ssp_m s);
                  s = s\<lparr>ssp_m := ssp_m s + 8\<rparr>
              in if ra \<noteq> get_xreg s 5 then Inl (Fault ''Corrupt control flow'') else next_instr 2 s
         else next_instr 2 s)
      else if ucast instr AND C_MOP_MASK = C_MOP then next_instr 2 s
      else Inl (IllegalCInstruction instr))"

definition Interpret_C_EXT :: "u16 \<Rightarrow> Simulator \<Rightarrow> result" where
  "Interpret_C_EXT instr s =
     (let rs1p = CInstr_rs1p instr;
          a = get_xreg s rs1p;
          ext = ucast instr AND C_EXT_MASK
      in if ext = C_ZEXTB then set_c rs1p s (sim_zextb a)
         else if ext = C_SEXTB then set_c rs1p s (sim_sextb a)
         else if ext = C_ZEXTH then set_c rs1p s (sim_zexth a)
         else if ext = C_SEXTH then set_c rs1p s (sim_sexth a)
         else if ext = C_ZEXTW then set_c rs1p s (sim_zextw a)
         else if ext = C_NOT then set_c rs1p s (NOT a)
         else Inl (IllegalCInstruction instr))"

definition Interpret_C_RR :: "u16 \<Rightarrow> Simulator \<Rightarrow> result" where
  "Interpret_C_RR instr s =
     (let rs1p = CInstr_rs1p instr;
          a = get_xreg s rs1p;
          b = get_xreg s (CInstr_rs2p instr);
          rr = ucast instr AND C_RR_MASK
      in if rr = C_AND then set_c rs1p s (a AND b)
         else if rr = C_OR then set_c rs1p s (a OR b)
         else if rr = C_XOR then set_c rs1p s (a XOR b)
         else if rr = C_SUB then set_c rs1p s (a - b)
         else if rr = C_ADDW then set_c rs1p s (sign_extend (ucast a + ucast b))
         else if rr = C_SUBW then set_c rs1p s (sign_extend (ucast a - ucast b))
         else if rr = C_MUL then set_c rs1p s (sim_mul a b)
         else if rr = C_EXT then Interpret_C_EXT instr s
         else Inl (IllegalCInstruction instr))"

definition Interpret_C_MISCALU :: "u16 \<Rightarrow> Simulator \<Rightarrow> result" where
  "Interpret_C_MISCALU instr s =
     (let rs1p = CInstr_rs1p instr;
          a = get_xreg s rs1p;
          shamt = CInstr_shamt instr;
          alu = ucast instr AND C_MISCALU_MASK
      in if alu = C_SRLI then
           (if shamt \<ge> 64 then Inl (IllegalCInstruction instr)
            else set_c rs1p s (drop_bit (unat shamt) a))
         else if alu = C_SRAI then
           (if shamt \<ge> 64 then Inl (IllegalCInstruction instr)
            else set_c rs1p s (signed_drop_bit (unat shamt) a))
         else if alu = C_ANDI then set_c rs1p s (a AND CInstr_i_imm instr)
         else if alu = C_RR then Interpret_C_RR instr s
         else Inl (IllegalCInstruction instr))"

definition Interpret_C_LBU :: "u16 \<Rightarrow> Simulator \<Rightarrow> result" where
  "Interpret_C_LBU instr s =
     (let base = get_xreg s (CInstr_rs1p instr);
          op = ucast instr AND 0b1111110000000011 :: u32
      in if op = C_LBU then load_into 1 id (CInstr_rdp instr) (base + CInstr_mem1_imm instr) 2 s
         else if op = C_LHU then
           (if ucast instr AND (0b1000000 :: u32) = 0
            then load_into 2 id (CInstr_rdp instr) (base + CInstr_mem2_imm instr) 2 s
            else load_into 2 (sext 2) (CInstr_rdp instr) (base + CInstr_mem2_imm instr) 2 s)
         else if op = C_SB then
           next_instr 2 (MemoryWrite 1 s (base + CInstr_mem1_imm instr) (get_xreg s (CInstr_rs2p instr)))
         else if op = C_SH then
           next_instr 2 (MemoryWrite 2 s (base + CInstr_mem2_imm instr) (get_xreg s (CInstr_rs2p instr)))
         else Inl (IllegalCInstruction instr))"

definition Interpret_C :: "u16 \<Rightarrow> Simulator \<Rightarrow> result" where
  "Interpret_C instr s =
     (let opcode = CInstr_opcode instr;
          rd = CInstr_rd instr;
          rs1 = CInstr_rs1 instr;
          sp = get_xreg s SP;
          base = get_xreg s (CInstr_rs1p instr)
      in if opcode = C_LWSP then load_into 4 (sext 4) rd (sp + CInstr_spload4_imm instr) 2 s
         else if opcode = C_LDSP then load_into 8 id rd (sp + CInstr_spload8_imm instr) 2 s
         else if opcode = C_FLDSP then
           (let (v, s) = MemoryRead 8 s (sp + CInstr_spload8_imm instr)
            in next_instr 2 (set_fregd s rd v))
         else if opcode = C_SWSP then
           next_instr 2 (MemoryWrite 4 s (sp + CInstr_spstore4_imm instr) (get_xreg s (CInstr_rs2 instr)))
         else if opcode = C_SDSP then
           next_instr 2 (MemoryWrite 8 s (sp + CInstr_spstore8_imm instr) (get_xreg s (CInstr_rs2 instr)))
         else if opcode = C_FSDSP then
           next_instr 2 (MemoryWrite 8 s (sp + CInstr_spstore8_imm instr) (get_fregd s (CInstr_rs2 instr)))
         else if opcode = C_LW then
           load_into 4 (sext 4) (CInstr_rdp instr) (base + CInstr_mem4_imm instr) 2 s
         else if opcode = C_LD then load_into 8 id (CInstr_rdp instr) (base + CInstr_mem8_imm instr) 2 s
         else if opcode = C_FLD then
           (let (v, s) = MemoryRead 8 s (base + CInstr_mem8_imm instr)
            in next_instr 2 (set_fregd s (CInstr_rdp instr) v))
         else if opcode = C_SW then
           next_instr 2 (MemoryWrite 4 s (base + CInstr_mem4_imm instr) (get_xreg s (CInstr_rs2p instr)))
         else if opcode = C_SD then
           next_instr 2 (MemoryWrite 8 s (base + CInstr_mem8_imm instr) (get_xreg s (CInstr_rs2p instr)))
         else if opcode = C_FSD then
           next_instr 2 (MemoryWrite 8 s (base + CInstr_mem8_imm instr) (get_fregd s (CInstr_rs2p instr)))
         else if opcode = C_J then next_instr (sign_extend (ucast (CInstr_j_imm instr))) s
         else if opcode = C_JR then Interpret_C_JR instr s
         else if opcode = C_BEQZ then
           (if base = 0 then next_instr (CInstr_b_imm instr) s else next_instr 2 s)
         else if opcode = C_BNEZ then
           (if base \<noteq> 0 then next_instr (CInstr_b_imm instr) s else next_instr 2 s)
         else if opcode = C_LI then
           (if rd = ZR then Inl (IllegalCInstruction instr) else set_c rd s (CInstr_i_imm instr))
         else if opcode = C_LUI then Interpret_C_LUI instr s
         else if opcode = C_ADDI then set_c rd s (get_xreg s rs1 + CInstr_i_imm instr)
         else if opcode = C_ADDIW then
           set_c rd s (sign_extend (ucast (get_xreg s rs1) + ucast (CInstr_i_imm instr)))
         else if opcode = C_ADDI4SPN then
           (if CInstr_i4spn_imm instr = 0 then Inl (IllegalCInstruction instr)
            else set_c (CInstr_rdp instr) s (sp + CInstr_i4spn_imm instr))
         else if opcode = C_SLLI then
           (if rd = ZR then Inl (IllegalCInstruction instr)
            else set_c rd s (push_bit (unat (CInstr_shamt instr)) (get_xreg s rs1)))
         else if opcode = C_MISCALU then Interpret_C_MISCALU instr s
         else if opcode = C_LBU then Interpret_C_LBU instr s
         else Inl (IllegalCInstruction instr))"

section \<open>The execution loop\<close>

text \<open>Instructions are read from host memory, past the store buffer.\<close>

definition fetch :: "nat \<Rightarrow> Simulator \<Rightarrow> u64" where
  "fetch n s = load_le n (host_m (memory_m s)) (pc_m s)"

definition step :: "host \<Rightarrow> Simulator \<Rightarrow> result" where
  "step h s =
     (let parcel = ucast (fetch 2 s) :: u16;
          r = (if IsCInstruction parcel then Interpret_C parcel s
               else Interpret h (ucast (fetch 4 s)) s)
      in case r of Inl e \<Rightarrow> Inl e | Inr s \<Rightarrow> Inr (s\<lparr>instret_m := instret_m s + 1\<rparr>))"

partial_function (option) ExecuteNoTrace :: "host \<Rightarrow> Simulator \<Rightarrow> result option" where
  "ExecuteNoTrace h s =
     (if pc_m s = kEndSimulatingPC then Some (Inr s)
      else case step h s of
             Inl e \<Rightarrow> Some (Inl e)
           | Inr s \<Rightarrow> ExecuteNoTrace h s)"

declare ExecuteNoTrace.simps [code]

definition RunCall :: "host \<Rightarrow> u64 \<Rightarrow> Simulator \<Rightarrow> result option" where
  "RunCall h entry s =
     (let s = s\<lparr>pc_m := entry\<rparr>;
          s = set_xreg s RA kEndSimulatingPC
      in case ExecuteNoTrace h s of
           None \<Rightarrow> None
         | Some (Inl e) \<Rightarrow> Some (Inl e)
         | Some (Inr s) \<Rightarrow> Some (Inr (s\<lparr>memory_m := Memory_FlushAll (memory_m s)\<rparr>)))"

text \<open>\<open>Call\<close> with \<open>fp_return = fp_args = false\<close>; \<open>alignment\<close> is \<open>OS::ActivationFrameAlignment()\<close>.\<close>

definition Call ::
    "host \<Rightarrow> intx \<Rightarrow> u64 \<Rightarrow> u64 \<Rightarrow> u64 \<Rightarrow> u64 \<Rightarrow> u64 \<Rightarrow> Simulator \<Rightarrow> (sim_error + u64 \<times> Simulator) option" where
  "Call h alignment entry p0 p1 p2 p3 s =
     (let sp_before_call = get_xreg s SP;
          s = set_xreg (set_xreg (set_xreg (set_xreg s A0 p0) A1 p1) A2 p2) A3 p3;
          stack_pointer = (if sint alignment > 1 then RoundDown sp_before_call alignment
                           else sp_before_call);
          s = set_xreg s SP stack_pointer;
          s = s\<lparr>pc_m := entry\<rparr>;
          s = set_xreg s RA kEndSimulatingPC
      in case ExecuteNoTrace h s of
           None \<Rightarrow> None
         | Some (Inl e) \<Rightarrow> Some (Inl e)
         | Some (Inr s) \<Rightarrow>
             (let s = set_xreg s SP sp_before_call;
                  return_value = get_xreg s A0
              in Some (Inr (return_value, s\<lparr>memory_m := Memory_FlushAll (memory_m s)\<rparr>))))"

section \<open>What every instruction keeps\<close>

text \<open>\<open>keeps P r\<close>: a handler that returns leaves \<open>P\<close> true. The collection \<open>sim_keeps\<close> has one lemma per
  building block of the handlers, for any \<open>P\<close> that does not look at the fields the block writes.\<close>

definition keeps :: "(Simulator \<Rightarrow> bool) \<Rightarrow> result \<Rightarrow> bool" where
  "keeps P r = (case r of Inl e \<Rightarrow> True | Inr s \<Rightarrow> P s)"

definition zr_zero :: "Simulator \<Rightarrow> bool" where
  "zr_zero s = (xregs_m s ZR = 0)"

named_theorems sim_keeps

lemma keeps_Inl [sim_keeps, simp]: "keeps P (Inl e)"
  by (simp add: keeps_def)

lemma keeps_Inr [sim_keeps, simp]: "keeps P (Inr s) = P s"
  by (simp add: keeps_def)

lemma zr_zero_updates [sim_keeps, simp]:
  "zr_zero (s\<lparr>pc_m := a\<rparr>) = zr_zero s"
  "zr_zero (s\<lparr>instret_m := a\<rparr>) = zr_zero s"
  "zr_zero (s\<lparr>memory_m := m\<rparr>) = zr_zero s"
  "zr_zero (s\<lparr>ssp_m := a\<rparr>) = zr_zero s"
  "zr_zero (s\<lparr>random_m := a\<rparr>) = zr_zero s"
  "zr_zero (s\<lparr>reserved_address_m := a\<rparr>) = zr_zero s"
  "zr_zero (s\<lparr>reserved_value_m := a\<rparr>) = zr_zero s"
  "zr_zero (s\<lparr>vregs_m := v\<rparr>) = zr_zero s"
  "zr_zero (s\<lparr>vl_m := a\<rparr>) = zr_zero s"
  "zr_zero (s\<lparr>vtype_m := a\<rparr>) = zr_zero s"
  by (simp_all add: zr_zero_def)

lemma zr_zero_set [sim_keeps, simp]:
  "zr_zero (set_xreg s rd v) = zr_zero s"
  "zr_zero (set_fregd s frd v) = zr_zero s"
  "zr_zero (set_fregs s frd w) = zr_zero s"
  by (simp_all add: zr_zero_def set_xreg_def set_fregd_def set_fregs_def)

lemma zr_zero_next [sim_keeps, simp]:
  "keeps zr_zero (next_instr n s) = zr_zero s"
  "keeps zr_zero (set_rd instr s v) = zr_zero s"
  "keeps zr_zero (set_c rd s v) = zr_zero s"
  "keeps zr_zero (then_next n r) = keeps zr_zero r"
  by (simp_all add: next_instr_def set_rd_def set_c_def then_next_def split: sum.split)

lemma zr_zero_memory [sim_keeps, simp]:
  "zr_zero (MemoryWrite n s a v) = zr_zero s"
  "zr_zero (snd (MemoryRead n s a)) = zr_zero s"
  by (simp_all add: MemoryWrite_def MemoryRead_def split_beta)

lemma zr_zero_load_into [sim_keeps, simp]: "keeps zr_zero (load_into n f rd a len s) = zr_zero s"
  by (simp add: load_into_def split_beta)

lemma zr_zero_LOADV_loop [sim_keeps, simp]: "zr_zero (LOADV_loop n vd base i left s) = zr_zero s"
  by (induction n vd base i left s rule: LOADV_loop.induct) (simp_all add: split_beta)

lemma zr_zero_STOREV_loop [sim_keeps, simp]: "zr_zero (STOREV_loop n vd base i left s) = zr_zero s"
  by (induction n vd base i left s rule: STOREV_loop.induct) simp_all

lemma zr_zero_CheckLandingPad [sim_keeps]: "zr_zero s \<Longrightarrow> keeps zr_zero (CheckLandingPad r s)"
  by (simp add: CheckLandingPad_def Let_def)

lemma zr_zero_CSR [sim_keeps]:
  assumes "zr_zero s"
  shows "keeps zr_zero (csr_read_write instr v s)"
    and "keeps zr_zero (csr_read_modify instr b (CSRSet csr v) s)"
    and "keeps zr_zero (csr_read_modify instr b (CSRClear csr v) s)"
  using assms
  by (simp_all add: csr_read_write_def csr_read_modify_def CSRWrite_def CSRSet_def CSRClear_def
        split: sum.split)

lemma zr_zero_atomic [sim_keeps]:
  assumes "zr_zero s"
  shows "keeps zr_zero (atomic_rmw n f instr s)"
    and "keeps zr_zero (InterpretLR n instr s)"
    and "keeps zr_zero (InterpretSC h n instr s)"
    and "keeps zr_zero (InterpretLOADORDERED n instr s)"
    and "keeps zr_zero (InterpretSTOREORDERED n instr s)"
    and "keeps zr_zero (InterpretAMOCAS h n instr s)"
  using assms
  by (simp_all add: atomic_rmw_def InterpretLR_def InterpretSC_def InterpretLOADORDERED_def
        InterpretSTOREORDERED_def InterpretAMOCAS_def Let_def split_beta)

lemma zr_zero_AMO [sim_keeps]: "zr_zero s \<Longrightarrow> keeps zr_zero (InterpretAMO h instr s)"
  by (simp add: InterpretAMO_def InterpretAMO8_def InterpretAMO16_def InterpretAMO32_def
        InterpretAMO64_def InterpretAMO128_def InterpretAMO_n_def Let_def sim_keeps
        InterpretAMOSWAP_def InterpretAMOADD_def InterpretAMOXOR_def InterpretAMOAND_def
        InterpretAMOOR_def InterpretAMOMIN_def InterpretAMOMAX_def)

lemma zr_zero_OPV [sim_keeps]: "zr_zero s \<Longrightarrow> keeps zr_zero (InterpretOPV instr s)"
  by (simp add: InterpretOPV_def InterpretOPV_IVX_def InterpretOPV_IVX_n_def InterpretOPV_CFG_def
        Let_def split: option.split)

lemma zr_zero_control [sim_keeps]:
  assumes "zr_zero s"
  shows "keeps zr_zero (InterpretLUI instr s)" "keeps zr_zero (InterpretAUIPC instr s)"
    "keeps zr_zero (InterpretJAL instr s)" "keeps zr_zero (InterpretJALR instr s)"
    "keeps zr_zero (InterpretBRANCH instr s)"
  using assms
  by (simp_all add: InterpretLUI_def InterpretAUIPC_def InterpretJAL_def InterpretJALR_def
        InterpretBRANCH_def branch_if_def Let_def zr_zero_CheckLandingPad)

lemma zr_zero_loads [sim_keeps]:
  assumes "zr_zero s"
  shows "keeps zr_zero (InterpretLOAD instr s)" "keeps zr_zero (InterpretSTORE instr s)"
    "keeps zr_zero (InterpretLOADFP instr s)" "keeps zr_zero (InterpretSTOREFP instr s)"
  using assms
  by (simp_all add: InterpretLOAD_def InterpretSTORE_def InterpretLOADFP_def InterpretSTOREFP_def
        InterpretLOADV_def InterpretSTOREV_def Let_def split_beta)

lemma zr_zero_OPIMM [sim_keeps]:
  assumes "zr_zero s"
  shows "keeps zr_zero (InterpretOPIMM instr s)" "keeps zr_zero (InterpretOPIMM32 instr s)"
  using assms by (simp_all add: InterpretOPIMM_def InterpretOPIMM32_def Let_def)

lemma zr_zero_OP [sim_keeps]:
  assumes "zr_zero s"
  shows "keeps zr_zero (InterpretOP instr s)" "keeps zr_zero (InterpretOP32 instr s)"
  using assms
  by (simp_all add: InterpretOP_def InterpretOP_0_def InterpretOP_SUB_def InterpretOP_MULDIV_def
        InterpretOP_SHADD_def InterpretOP_MINMAXCLMUL_def InterpretOP_ROTATE_def
        InterpretOP_BCLRBEXT_def InterpretOP_CZERO_def InterpretOP32_def InterpretOP32_0_def
        InterpretOP32_SUB_def InterpretOP32_MULDIV_def InterpretOP32_SHADD_def
        InterpretOP32_ADDUW_def InterpretOP32_ROTATE_def Let_def)

lemma zr_zero_SYSTEM [sim_keeps]:
  assumes "zr_zero s" "keeps zr_zero (host_ECALL h instr s)"
  shows "keeps zr_zero (InterpretSYSTEM h instr s)"
  using assms by (simp add: InterpretSYSTEM_def Let_def split_beta zr_zero_CSR)

lemma zr_zero_MISCMEM [sim_keeps]: "zr_zero s \<Longrightarrow> keeps zr_zero (InterpretMISCMEM instr s)"
  by (simp add: InterpretMISCMEM_def)

lemma zr_zero_Interpret:
  assumes "zr_zero s"
    and "\<And>i t. zr_zero t \<Longrightarrow> keeps zr_zero (host_ECALL h i t)"
    and "\<And>i t. zr_zero t \<Longrightarrow> keeps zr_zero (host_FP h i t)"
  shows "keeps zr_zero (Interpret h instr s)"
  using assms by (simp add: Interpret_def Let_def sim_keeps)

lemma zr_zero_Interpret_C_parts [sim_keeps]:
  assumes "zr_zero s"
  shows "keeps zr_zero (Interpret_C_JR instr s)" "keeps zr_zero (Interpret_C_LUI instr s)"
    "keeps zr_zero (Interpret_C_EXT instr s)" "keeps zr_zero (Interpret_C_LBU instr s)"
  using assms
  by (simp_all add: Interpret_C_JR_def Interpret_C_LUI_def Interpret_C_EXT_def Interpret_C_LBU_def
        Let_def split_beta zr_zero_CheckLandingPad)

lemma zr_zero_Interpret_C_RR [sim_keeps]:
  "zr_zero s \<Longrightarrow> keeps zr_zero (Interpret_C_RR instr s)"
  by (simp add: Interpret_C_RR_def Let_def zr_zero_Interpret_C_parts)

lemma zr_zero_Interpret_C_MISCALU [sim_keeps]:
  "zr_zero s \<Longrightarrow> keeps zr_zero (Interpret_C_MISCALU instr s)"
  by (simp add: Interpret_C_MISCALU_def Let_def zr_zero_Interpret_C_RR)

lemma zr_zero_Interpret_C:
  assumes "zr_zero s"
  shows "keeps zr_zero (Interpret_C instr s)"
  using assms
  by (simp add: Interpret_C_def Let_def split_beta zr_zero_Interpret_C_parts
        zr_zero_Interpret_C_MISCALU)

lemma keeps_retired [sim_keeps, simp]:
  "keeps zr_zero (case r of Inl e \<Rightarrow> Inl e | Inr s \<Rightarrow> Inr (s\<lparr>instret_m := f s\<rparr>)) = keeps zr_zero r"
  by (simp add: keeps_def split: sum.split)

text \<open>What the handlers outside the model have to promise.\<close>

definition host_keeps :: "(Simulator \<Rightarrow> bool) \<Rightarrow> host \<Rightarrow> bool" where
  "host_keeps P h =
     (\<forall>i t. P t \<longrightarrow> keeps P (host_ECALL h i t) \<and> keeps P (host_FP h i t))"

lemma zr_zero_step:
  assumes "zr_zero s" "host_keeps zr_zero h"
  shows "keeps zr_zero (step h s)"
  using assms
  by (simp add: step_def Let_def host_keeps_def zr_zero_Interpret zr_zero_Interpret_C)

lemma zr_zero_ExecuteNoTrace:
  assumes "ExecuteNoTrace h s = Some r" "zr_zero s" "host_keeps zr_zero h"
  shows "keeps zr_zero r"
  using assms
proof (induction rule: ExecuteNoTrace.raw_induct [rotated, consumes 1])
  case (1 exec h s r)
  show ?case
  proof (cases "pc_m s = kEndSimulatingPC")
    case True
    then show ?thesis using 1 by auto
  next
    case False
    with 1(2) consider e where "r = Inl e" | t where "step h s = Inr t" "exec h t = Some r"
      by (cases "step h s") auto
    then show ?thesis
    proof cases
      case 2
      then have "zr_zero t" using zr_zero_step [OF 1(3,4)] by simp
      then show ?thesis using 1(1) 2(2) 1(4) by blast
    qed simp
  qed
qed

end
