(* ===== verification/RiscvAssembler.thy ===== *)
theory RiscvAssembler
  imports RiscvSimulator
begin

text \<open>
  \<open>class MicroAssembler\<close> of \<^verbatim>\<open>runtime/vm/compiler/assembler/assembler_riscv.cc\<close>: the buffer,
  the emitters of the instruction formats, and one definition per instruction, which emits exactly
  one instruction and picks a compressed encoding where the extension set and the operands allow it.
  An \<open>ASSERT\<close> has no effect in a release build and is not part of the definitions; the theorems that
  depend on one have it as a hypothesis. A name that Isabelle reserves or that ends in an underscore
  has the suffix \<open>_r\<close>; the overloads of the loads and stores with a memory order have the suffix
  \<open>_ordered\<close>.
\<close>

section \<open>State and emitters\<close>

record MicroAssembler =
  buffer_m :: "u8 list"
  extensions_m :: ExtensionSet
  far_branch_level_m :: int

type_synonym 'z asm = "'z MicroAssembler_scheme \<Rightarrow> 'z MicroAssembler_scheme"

text \<open>The ways in which generating code can fail: \<open>FATAL\<close>, a bailout that asks for longer branches,
  \<open>UNREACHABLE\<close>, an access outside the buffer, and a failure of the object pool.\<close>

datatype asm_error = Fatal | BranchOffsetError | Unreachable | BadPosition | PoolFailure

definition and_then :: "(asm_error + 'a) \<Rightarrow> ('a \<Rightarrow> asm_error + 'b) \<Rightarrow> asm_error + 'b" where
  "and_then r f = (case r of Inl e \<Rightarrow> Inl e | Inr a \<Rightarrow> f a)"

datatype Address = Address (addr_base: Register) (addr_offset: intx)

definition Supports :: "'z MicroAssembler_scheme \<Rightarrow> nat \<Rightarrow> bool" where
  "Supports a extension = ExtensionSet_Includes (extensions_m a) extension"

definition bytes_le :: "nat \<Rightarrow> u64 \<Rightarrow> u8 list" where
  "bytes_le n v = map (byte_of v) [0..<n]"

definition Emit16 :: "u16 \<Rightarrow> 'z asm" where
  "Emit16 instruction a = a\<lparr>buffer_m := buffer_m a @ bytes_le 2 (ucast instruction)\<rparr>"

definition Emit32 :: "u32 \<Rightarrow> 'z asm" where
  "Emit32 instruction a = a\<lparr>buffer_m := buffer_m a @ bytes_le 4 (ucast instruction)\<rparr>"

definition EmitRType :: "u32 \<Rightarrow> Register \<Rightarrow> Register \<Rightarrow> u32 \<Rightarrow> Register \<Rightarrow> u32 \<Rightarrow> 'z asm" where
  "EmitRType funct7 rs2 rs1 funct3 rd opcode = Emit32 (RTypeWord funct7 rs2 rs1 funct3 rd opcode)"

definition EmitRType_order ::
    "u32 \<Rightarrow> memory_order \<Rightarrow> Register \<Rightarrow> Register \<Rightarrow> u32 \<Rightarrow> Register \<Rightarrow> u32 \<Rightarrow> 'z asm" where
  "EmitRType_order funct5 order rs2 rs1 funct3 rd opcode =
     (let funct7 = push_bit 2 funct5;
          funct7 = (case order of
                      memory_order_acq_rel \<Rightarrow> funct7 OR 0b11
                    | memory_order_acquire \<Rightarrow> funct7 OR 0b10
                    | memory_order_release \<Rightarrow> funct7 OR 0b01
                    | memory_order_relaxed \<Rightarrow> funct7 OR 0b00)
      in EmitRType funct7 rs2 rs1 funct3 rd opcode)"

definition EmitRType_shamt :: "u32 \<Rightarrow> intx \<Rightarrow> Register \<Rightarrow> u32 \<Rightarrow> Register \<Rightarrow> u32 \<Rightarrow> 'z asm" where
  "EmitRType_shamt funct7 shamt rs1 funct3 rd opcode =
     Emit32 (RTypeShamtWord funct7 shamt rs1 funct3 rd opcode)"

definition EmitIType :: "intx \<Rightarrow> Register \<Rightarrow> u32 \<Rightarrow> Register \<Rightarrow> u32 \<Rightarrow> 'z asm" where
  "EmitIType imm rs1 funct3 rd opcode = Emit32 (ITypeWord imm rs1 funct3 rd opcode)"

definition EmitIType_funct12 :: "u32 \<Rightarrow> Register \<Rightarrow> u32 \<Rightarrow> Register \<Rightarrow> u32 \<Rightarrow> 'z asm" where
  "EmitIType_funct12 funct12 rs1 funct3 rd opcode =
     Emit32 (ITypeFunct12Word funct12 rs1 funct3 rd opcode)"

definition EmitSType :: "intx \<Rightarrow> Register \<Rightarrow> Register \<Rightarrow> u32 \<Rightarrow> u32 \<Rightarrow> 'z asm" where
  "EmitSType imm rs2 rs1 funct3 opcode = Emit32 (STypeWord imm rs2 rs1 funct3 opcode)"

definition EmitBType :: "intx \<Rightarrow> Register \<Rightarrow> Register \<Rightarrow> u32 \<Rightarrow> u32 \<Rightarrow> 'z asm" where
  "EmitBType imm rs2 rs1 funct3 opcode = Emit32 (BTypeWord imm rs2 rs1 funct3 opcode)"

definition EmitUType :: "intx \<Rightarrow> Register \<Rightarrow> u32 \<Rightarrow> 'z asm" where
  "EmitUType imm rd opcode = Emit32 (UTypeWord imm rd opcode)"

definition EmitJType :: "intx \<Rightarrow> Register \<Rightarrow> u32 \<Rightarrow> 'z asm" where
  "EmitJType imm rd opcode = Emit32 (JTypeWord imm rd opcode)"

section \<open>Compressed instructions\<close>

definition c_lwsp :: "Register \<Rightarrow> Address \<Rightarrow> 'z asm" where
  "c_lwsp rd addr = Emit16 (ucast (C_LWSP OR EncodeCRd rd OR EncodeCSPLoad4Imm (addr_offset addr)))"

definition c_ldsp :: "Register \<Rightarrow> Address \<Rightarrow> 'z asm" where
  "c_ldsp rd addr = Emit16 (ucast (C_LDSP OR EncodeCRd rd OR EncodeCSPLoad8Imm (addr_offset addr)))"

definition c_swsp :: "Register \<Rightarrow> Address \<Rightarrow> 'z asm" where
  "c_swsp rs2 addr = Emit16 (ucast (C_SWSP OR EncodeCRs2 rs2 OR EncodeCSPStore4Imm (addr_offset addr)))"

definition c_sdsp :: "Register \<Rightarrow> Address \<Rightarrow> 'z asm" where
  "c_sdsp rs2 addr = Emit16 (ucast (C_SDSP OR EncodeCRs2 rs2 OR EncodeCSPStore8Imm (addr_offset addr)))"

definition c_lw :: "Register \<Rightarrow> Address \<Rightarrow> 'z asm" where
  "c_lw rd addr = Emit16 (ucast (C_LW OR EncodeCRdp rd OR EncodeCRs1p (addr_base addr) OR EncodeCMem4Imm (addr_offset addr)))"

definition c_ld :: "Register \<Rightarrow> Address \<Rightarrow> 'z asm" where
  "c_ld rd addr = Emit16 (ucast (C_LD OR EncodeCRdp rd OR EncodeCRs1p (addr_base addr) OR EncodeCMem8Imm (addr_offset addr)))"

definition c_lbu :: "Register \<Rightarrow> Address \<Rightarrow> 'z asm" where
  "c_lbu rd addr = Emit16 (ucast (C_LBU OR EncodeCRdp rd OR EncodeCRs1p (addr_base addr) OR EncodeCMem1Imm (addr_offset addr)))"

definition c_lhu :: "Register \<Rightarrow> Address \<Rightarrow> 'z asm" where
  "c_lhu rd addr = Emit16 (ucast (C_LHU OR EncodeCRdp rd OR EncodeCRs1p (addr_base addr) OR EncodeCMem2Imm (addr_offset addr)))"

definition c_lh :: "Register \<Rightarrow> Address \<Rightarrow> 'z asm" where
  "c_lh rd addr = Emit16 (ucast (C_LH OR EncodeCRdp rd OR EncodeCRs1p (addr_base addr) OR EncodeCMem2Imm (addr_offset addr)))"

definition c_sw :: "Register \<Rightarrow> Address \<Rightarrow> 'z asm" where
  "c_sw rs2 addr = Emit16 (ucast (C_SW OR EncodeCRs1p (addr_base addr) OR EncodeCRs2p rs2 OR EncodeCMem4Imm (addr_offset addr)))"

definition c_sd :: "Register \<Rightarrow> Address \<Rightarrow> 'z asm" where
  "c_sd rs2 addr = Emit16 (ucast (C_SD OR EncodeCRs1p (addr_base addr) OR EncodeCRs2p rs2 OR EncodeCMem8Imm (addr_offset addr)))"

definition c_sb :: "Register \<Rightarrow> Address \<Rightarrow> 'z asm" where
  "c_sb rs2 addr = Emit16 (ucast (C_SB OR EncodeCRs1p (addr_base addr) OR EncodeCRs2p rs2 OR EncodeCMem1Imm (addr_offset addr)))"

definition c_sh :: "Register \<Rightarrow> Address \<Rightarrow> 'z asm" where
  "c_sh rs2 addr = Emit16 (ucast (C_SH OR EncodeCRs1p (addr_base addr) OR EncodeCRs2p rs2 OR EncodeCMem2Imm (addr_offset addr)))"

definition c_jr :: "Register \<Rightarrow> 'z asm" where
  "c_jr rs1 = Emit16 (ucast (C_JR OR EncodeCRs1 rs1 OR EncodeCRs2 ZR))"

definition c_jalr :: "Register \<Rightarrow> 'z asm" where
  "c_jalr rs1 = Emit16 (ucast (C_JALR OR EncodeCRs1 rs1 OR EncodeCRs2 ZR))"

definition c_li :: "Register \<Rightarrow> intx \<Rightarrow> 'z asm" where
  "c_li rd imm = Emit16 (ucast (C_LI OR EncodeCRd rd OR EncodeCIImm imm))"

definition c_lui :: "Register \<Rightarrow> intx \<Rightarrow> 'z asm" where
  "c_lui rd imm = Emit16 (ucast (C_LUI OR EncodeCRd rd OR EncodeCUImm imm))"

definition c_addi :: "Register \<Rightarrow> Register \<Rightarrow> intx \<Rightarrow> 'z asm" where
  "c_addi rd rs1 imm = Emit16 (ucast (C_ADDI OR EncodeCRd rd OR EncodeCIImm imm))"

definition c_addiw :: "Register \<Rightarrow> Register \<Rightarrow> intx \<Rightarrow> 'z asm" where
  "c_addiw rd rs1 imm = Emit16 (ucast (C_ADDIW OR EncodeCRd rd OR EncodeCIImm imm))"

definition c_addi16sp :: "Register \<Rightarrow> Register \<Rightarrow> intx \<Rightarrow> 'z asm" where
  "c_addi16sp rd rs1 imm = Emit16 (ucast (C_ADDI16SP OR EncodeCRd rd OR EncodeCI16Imm imm))"

definition c_addi4spn :: "Register \<Rightarrow> Register \<Rightarrow> intx \<Rightarrow> 'z asm" where
  "c_addi4spn rdp rs1 imm = Emit16 (ucast (C_ADDI4SPN OR EncodeCRdp rdp OR EncodeCI4SPNImm imm))"

definition c_slli :: "Register \<Rightarrow> Register \<Rightarrow> intx \<Rightarrow> 'z asm" where
  "c_slli rd rs1 imm = Emit16 (ucast (C_SLLI OR EncodeCRd rd OR EncodeCShamt (ucast imm)))"

definition c_srli :: "Register \<Rightarrow> Register \<Rightarrow> intx \<Rightarrow> 'z asm" where
  "c_srli rd rs1 imm = Emit16 (ucast (C_SRLI OR EncodeCRs1p rd OR EncodeCShamt (ucast imm)))"

definition c_srai :: "Register \<Rightarrow> Register \<Rightarrow> intx \<Rightarrow> 'z asm" where
  "c_srai rd rs1 imm = Emit16 (ucast (C_SRAI OR EncodeCRs1p rd OR EncodeCShamt (ucast imm)))"

definition c_andi :: "Register \<Rightarrow> Register \<Rightarrow> intx \<Rightarrow> 'z asm" where
  "c_andi rd rs1 imm = Emit16 (ucast (C_ANDI OR EncodeCRs1p rd OR EncodeCIImm imm))"

definition c_mv :: "Register \<Rightarrow> Register \<Rightarrow> 'z asm" where
  "c_mv rd rs2 = Emit16 (ucast (C_MV OR EncodeCRd rd OR EncodeCRs2 rs2))"

definition c_add :: "Register \<Rightarrow> Register \<Rightarrow> Register \<Rightarrow> 'z asm" where
  "c_add rd rs1 rs2 = Emit16 (ucast (C_ADD OR EncodeCRd rd OR EncodeCRs2 rs2))"

definition c_and :: "Register \<Rightarrow> Register \<Rightarrow> Register \<Rightarrow> 'z asm" where
  "c_and rd rs1 rs2 = Emit16 (ucast (C_AND OR EncodeCRs1p rs1 OR EncodeCRs2p rs2))"

definition c_or :: "Register \<Rightarrow> Register \<Rightarrow> Register \<Rightarrow> 'z asm" where
  "c_or rd rs1 rs2 = Emit16 (ucast (C_OR OR EncodeCRs1p rs1 OR EncodeCRs2p rs2))"

definition c_xor :: "Register \<Rightarrow> Register \<Rightarrow> Register \<Rightarrow> 'z asm" where
  "c_xor rd rs1 rs2 = Emit16 (ucast (C_XOR OR EncodeCRs1p rs1 OR EncodeCRs2p rs2))"

definition c_sub :: "Register \<Rightarrow> Register \<Rightarrow> Register \<Rightarrow> 'z asm" where
  "c_sub rd rs1 rs2 = Emit16 (ucast (C_SUB OR EncodeCRs1p rs1 OR EncodeCRs2p rs2))"

definition c_addw :: "Register \<Rightarrow> Register \<Rightarrow> Register \<Rightarrow> 'z asm" where
  "c_addw rd rs1 rs2 = Emit16 (ucast (C_ADDW OR EncodeCRs1p rs1 OR EncodeCRs2p rs2))"

definition c_subw :: "Register \<Rightarrow> Register \<Rightarrow> Register \<Rightarrow> 'z asm" where
  "c_subw rd rs1 rs2 = Emit16 (ucast (C_SUBW OR EncodeCRs1p rs1 OR EncodeCRs2p rs2))"

definition c_mul :: "Register \<Rightarrow> Register \<Rightarrow> Register \<Rightarrow> 'z asm" where
  "c_mul rd rs1 rs2 = Emit16 (ucast (C_MUL OR EncodeCRs1p rs1 OR EncodeCRs2p rs2))"

definition c_zextb :: "Register \<Rightarrow> Register \<Rightarrow> 'z asm" where
  "c_zextb rd rs1 = Emit16 (ucast (C_ZEXTB OR EncodeCRs1p rs1))"

definition c_sextb :: "Register \<Rightarrow> Register \<Rightarrow> 'z asm" where
  "c_sextb rd rs1 = Emit16 (ucast (C_SEXTB OR EncodeCRs1p rs1))"

definition c_zexth :: "Register \<Rightarrow> Register \<Rightarrow> 'z asm" where
  "c_zexth rd rs1 = Emit16 (ucast (C_ZEXTH OR EncodeCRs1p rs1))"

definition c_sexth :: "Register \<Rightarrow> Register \<Rightarrow> 'z asm" where
  "c_sexth rd rs1 = Emit16 (ucast (C_SEXTH OR EncodeCRs1p rs1))"

definition c_zextw :: "Register \<Rightarrow> Register \<Rightarrow> 'z asm" where
  "c_zextw rd rs1 = Emit16 (ucast (C_ZEXTW OR EncodeCRs1p rs1))"

definition c_not :: "Register \<Rightarrow> Register \<Rightarrow> 'z asm" where
  "c_not rd rs1 = Emit16 (ucast (C_NOT OR EncodeCRs1p rs1))"

definition c_nop :: "'z asm" where
  "c_nop = Emit16 (ucast C_NOP)"

definition c_ebreak :: "'z asm" where
  "c_ebreak = Emit16 (ucast C_EBREAK)"

section \<open>Base instructions\<close>

definition lui :: "Register \<Rightarrow> intx \<Rightarrow> 'z asm" where
  "lui rd imm a =
     (if Supports a RV_C \<and> rd \<noteq> ZR \<and> rd \<noteq> SP \<and> IsCUImm imm then c_lui rd imm a
      else EmitUType imm rd LUI a)"

definition lui_fixed :: "Register \<Rightarrow> intx \<Rightarrow> 'z asm" where
  "lui_fixed rd imm = EmitUType imm rd LUI"

definition auipc :: "Register \<Rightarrow> intx \<Rightarrow> 'z asm" where
  "auipc rd imm = EmitUType imm rd AUIPC"

definition jalr :: "Register \<Rightarrow> Register \<Rightarrow> intx \<Rightarrow> 'z asm" where
  "jalr rd rs1 offset a =
     (if Supports a RV_C \<and> rs1 \<noteq> ZR \<and> offset = 0 \<and> rd = ZR then c_jr rs1 a
      else if Supports a RV_C \<and> rs1 \<noteq> ZR \<and> offset = 0 \<and> rd = RA then c_jalr rs1 a
      else EmitIType offset rs1 F3_0 rd JALR a)"

definition jalr_fixed :: "Register \<Rightarrow> Register \<Rightarrow> intx \<Rightarrow> 'z asm" where
  "jalr_fixed rd rs1 offset = EmitIType offset rs1 F3_0 rd JALR"

definition lb :: "Register \<Rightarrow> Address \<Rightarrow> 'z asm" where
  "lb rd addr = EmitIType (addr_offset addr) (addr_base addr) LB rd LOAD"

definition lh :: "Register \<Rightarrow> Address \<Rightarrow> 'z asm" where
  "lh rd addr a =
     (if Supports a RV_Zcb \<and> IsCRdp rd \<and> IsCRs1p (addr_base addr) \<and> IsCMem2Imm (addr_offset addr) then c_lh rd addr a
      else EmitIType (addr_offset addr) (addr_base addr) LH rd LOAD a)"

definition lw :: "Register \<Rightarrow> Address \<Rightarrow> 'z asm" where
  "lw rd addr a =
     (if Supports a RV_C \<and> rd \<noteq> ZR \<and> addr_base addr = SP \<and> IsCSPLoad4Imm (addr_offset addr) then c_lwsp rd addr a
      else if Supports a RV_C \<and> IsCRdp rd \<and> IsCRs1p (addr_base addr) \<and> IsCMem4Imm (addr_offset addr) then c_lw rd addr a
      else EmitIType (addr_offset addr) (addr_base addr) LW rd LOAD a)"

definition lbu :: "Register \<Rightarrow> Address \<Rightarrow> 'z asm" where
  "lbu rd addr a =
     (if Supports a RV_Zcb \<and> IsCRdp rd \<and> IsCRs1p (addr_base addr) \<and> IsCMem1Imm (addr_offset addr) then c_lbu rd addr a
      else EmitIType (addr_offset addr) (addr_base addr) LBU rd LOAD a)"

definition lhu :: "Register \<Rightarrow> Address \<Rightarrow> 'z asm" where
  "lhu rd addr a =
     (if Supports a RV_Zcb \<and> IsCRdp rd \<and> IsCRs1p (addr_base addr) \<and> IsCMem2Imm (addr_offset addr) then c_lhu rd addr a
      else EmitIType (addr_offset addr) (addr_base addr) LHU rd LOAD a)"

definition lwu :: "Register \<Rightarrow> Address \<Rightarrow> 'z asm" where
  "lwu rd addr = EmitIType (addr_offset addr) (addr_base addr) LWU rd LOAD"

definition ld :: "Register \<Rightarrow> Address \<Rightarrow> 'z asm" where
  "ld rd addr a =
     (if Supports a RV_C \<and> rd \<noteq> ZR \<and> addr_base addr = SP \<and> IsCSPLoad8Imm (addr_offset addr) then c_ldsp rd addr a
      else if Supports a RV_C \<and> IsCRdp rd \<and> IsCRs1p (addr_base addr) \<and> IsCMem8Imm (addr_offset addr) then c_ld rd addr a
      else EmitIType (addr_offset addr) (addr_base addr) LD rd LOAD a)"

definition sb :: "Register \<Rightarrow> Address \<Rightarrow> 'z asm" where
  "sb rs2 addr a =
     (if Supports a RV_Zcb \<and> IsCRs2p rs2 \<and> IsCRs1p (addr_base addr) \<and> IsCMem1Imm (addr_offset addr) then c_sb rs2 addr a
      else EmitSType (addr_offset addr) rs2 (addr_base addr) SB STORE a)"

definition sh :: "Register \<Rightarrow> Address \<Rightarrow> 'z asm" where
  "sh rs2 addr a =
     (if Supports a RV_Zcb \<and> IsCRs2p rs2 \<and> IsCRs1p (addr_base addr) \<and> IsCMem2Imm (addr_offset addr) then c_sh rs2 addr a
      else EmitSType (addr_offset addr) rs2 (addr_base addr) SH STORE a)"

definition sw :: "Register \<Rightarrow> Address \<Rightarrow> 'z asm" where
  "sw rs2 addr a =
     (if Supports a RV_C \<and> addr_base addr = SP \<and> IsCSPStore4Imm (addr_offset addr) then c_swsp rs2 addr a
      else if Supports a RV_C \<and> IsCRs2p rs2 \<and> IsCRs1p (addr_base addr) \<and> IsCMem4Imm (addr_offset addr) then c_sw rs2 addr a
      else EmitSType (addr_offset addr) rs2 (addr_base addr) SW STORE a)"

definition sd :: "Register \<Rightarrow> Address \<Rightarrow> 'z asm" where
  "sd rs2 addr a =
     (if Supports a RV_C \<and> addr_base addr = SP \<and> IsCSPStore8Imm (addr_offset addr) then c_sdsp rs2 addr a
      else if Supports a RV_C \<and> IsCRs2p rs2 \<and> IsCRs1p (addr_base addr) \<and> IsCMem8Imm (addr_offset addr) then c_sd rs2 addr a
      else EmitSType (addr_offset addr) rs2 (addr_base addr) SD STORE a)"

definition addi :: "Register \<Rightarrow> Register \<Rightarrow> intx \<Rightarrow> 'z asm" where
  "addi rd rs1 imm a =
     (if Supports a RV_C \<and> rd \<noteq> ZR \<and> rs1 = ZR \<and> IsCIImm imm then c_li rd imm a
      else if Supports a RV_C \<and> rd = rs1 \<and> IsCIImm imm \<and> imm \<noteq> 0 then c_addi rd rs1 imm a
      else if Supports a RV_C \<and> rd = SP \<and> rs1 = SP \<and> IsCI16Imm imm \<and> imm \<noteq> 0
        then c_addi16sp rd rs1 imm a
      else if Supports a RV_C \<and> IsCRdp rd \<and> rs1 = SP \<and> IsCI4SPNImm imm \<and> imm \<noteq> 0
        then c_addi4spn rd rs1 imm a
      else if Supports a RV_C \<and> imm = 0 \<and> rd = ZR \<and> rs1 = ZR then c_nop a
      else if Supports a RV_C \<and> imm = 0 \<and> rd \<noteq> ZR \<and> rs1 \<noteq> ZR then c_mv rd rs1 a
      else EmitIType imm rs1 ADDI rd OPIMM a)"

definition slti :: "Register \<Rightarrow> Register \<Rightarrow> intx \<Rightarrow> 'z asm" where
  "slti rd rs1 imm = EmitIType imm rs1 SLTI rd OPIMM"

definition sltiu :: "Register \<Rightarrow> Register \<Rightarrow> intx \<Rightarrow> 'z asm" where
  "sltiu rd rs1 imm = EmitIType imm rs1 SLTIU rd OPIMM"

definition xori :: "Register \<Rightarrow> Register \<Rightarrow> intx \<Rightarrow> 'z asm" where
  "xori rd rs1 imm a =
     (if Supports a RV_Zcb \<and> rd = rs1 \<and> IsCRs1p rs1 \<and> imm = -1 then c_not rd rs1 a
      else EmitIType imm rs1 XORI rd OPIMM a)"

definition ori :: "Register \<Rightarrow> Register \<Rightarrow> intx \<Rightarrow> 'z asm" where
  "ori rd rs1 imm = EmitIType imm rs1 ORI rd OPIMM"

definition andi :: "Register \<Rightarrow> Register \<Rightarrow> intx \<Rightarrow> 'z asm" where
  "andi rd rs1 imm a =
     (if Supports a RV_C \<and> rd = rs1 \<and> IsCRs1p rs1 \<and> IsCIImm imm then c_andi rd rs1 imm a
      else if Supports a RV_C \<and> Supports a RV_Zcb \<and> rd = rs1 \<and> IsCRs1p rs1 \<and> imm = 0xFF
        then c_zextb rd rs1 a
      else EmitIType imm rs1 ANDI rd OPIMM a)"

definition slli :: "Register \<Rightarrow> Register \<Rightarrow> intx \<Rightarrow> 'z asm" where
  "slli rd rs1 shamt a =
     (if Supports a RV_C \<and> rd = rs1 \<and> rd \<noteq> ZR \<and> IsCShamt (ucast shamt) then c_slli rd rs1 shamt a
      else EmitRType_shamt F7_0 shamt rs1 SLLI rd OPIMM a)"

definition srli :: "Register \<Rightarrow> Register \<Rightarrow> intx \<Rightarrow> 'z asm" where
  "srli rd rs1 shamt a =
     (if Supports a RV_C \<and> rd = rs1 \<and> IsCRs1p rs1 \<and> IsCShamt (ucast shamt) then c_srli rd rs1 shamt a
      else EmitRType_shamt F7_0 shamt rs1 SRI rd OPIMM a)"

definition srai :: "Register \<Rightarrow> Register \<Rightarrow> intx \<Rightarrow> 'z asm" where
  "srai rd rs1 shamt a =
     (if Supports a RV_C \<and> rd = rs1 \<and> IsCRs1p rs1 \<and> IsCShamt (ucast shamt) then c_srai rd rs1 shamt a
      else EmitRType_shamt SRA shamt rs1 SRI rd OPIMM a)"

definition add :: "Register \<Rightarrow> Register \<Rightarrow> Register \<Rightarrow> 'z asm" where
  "add rd rs1 rs2 a =
     (if Supports a RV_C \<and> rd = rs1 \<and> rs2 \<noteq> ZR then c_add rd rs1 rs2 a
      else if Supports a RV_C \<and> rd = rs2 \<and> rs1 \<noteq> ZR then c_add rd rs2 rs1 a
      else EmitRType F7_0 rs2 rs1 ADD rd OP a)"

definition sub :: "Register \<Rightarrow> Register \<Rightarrow> Register \<Rightarrow> 'z asm" where
  "sub rd rs1 rs2 a =
     (if Supports a RV_C \<and> rd = rs1 \<and> IsCRs1p rs1 \<and> IsCRs2p rs2 then c_sub rd rs1 rs2 a
      else EmitRType SUB rs2 rs1 ADD rd OP a)"

definition sll :: "Register \<Rightarrow> Register \<Rightarrow> Register \<Rightarrow> 'z asm" where
  "sll rd rs1 rs2 = EmitRType F7_0 rs2 rs1 SLL rd OP"

definition slt :: "Register \<Rightarrow> Register \<Rightarrow> Register \<Rightarrow> 'z asm" where
  "slt rd rs1 rs2 = EmitRType F7_0 rs2 rs1 SLT rd OP"

definition sltu :: "Register \<Rightarrow> Register \<Rightarrow> Register \<Rightarrow> 'z asm" where
  "sltu rd rs1 rs2 = EmitRType F7_0 rs2 rs1 SLTU rd OP"

definition xor_r :: "Register \<Rightarrow> Register \<Rightarrow> Register \<Rightarrow> 'z asm" where
  "xor_r rd rs1 rs2 a =
     (if Supports a RV_C \<and> rd = rs1 \<and> IsCRs1p rs1 \<and> IsCRs2p rs2 then c_xor rd rs1 rs2 a
      else if Supports a RV_C \<and> rd = rs2 \<and> IsCRs1p rs1 \<and> IsCRs2p rs2 then c_xor rd rs2 rs1 a
      else EmitRType F7_0 rs2 rs1 F3_XOR rd OP a)"

definition srl :: "Register \<Rightarrow> Register \<Rightarrow> Register \<Rightarrow> 'z asm" where
  "srl rd rs1 rs2 = EmitRType F7_0 rs2 rs1 SR rd OP"

definition sra :: "Register \<Rightarrow> Register \<Rightarrow> Register \<Rightarrow> 'z asm" where
  "sra rd rs1 rs2 = EmitRType SRA rs2 rs1 SR rd OP"

definition or_r :: "Register \<Rightarrow> Register \<Rightarrow> Register \<Rightarrow> 'z asm" where
  "or_r rd rs1 rs2 a =
     (if Supports a RV_C \<and> rd = rs1 \<and> IsCRs1p rs1 \<and> IsCRs2p rs2 then c_or rd rs1 rs2 a
      else if Supports a RV_C \<and> rd = rs2 \<and> IsCRs1p rs1 \<and> IsCRs2p rs2 then c_or rd rs2 rs1 a
      else EmitRType F7_0 rs2 rs1 F3_OR rd OP a)"

definition and_r :: "Register \<Rightarrow> Register \<Rightarrow> Register \<Rightarrow> 'z asm" where
  "and_r rd rs1 rs2 a =
     (if Supports a RV_C \<and> rd = rs1 \<and> IsCRs1p rs1 \<and> IsCRs2p rs2 then c_and rd rs1 rs2 a
      else if Supports a RV_C \<and> rd = rs2 \<and> IsCRs1p rs1 \<and> IsCRs2p rs2 then c_and rd rs2 rs1 a
      else EmitRType F7_0 rs2 rs1 F3_AND rd OP a)"

definition fence :: "intx \<Rightarrow> intx \<Rightarrow> 'z asm" where
  "fence predecessor successor = EmitIType (push_bit 4 predecessor OR successor) ZR FENCE ZR MISCMEM"

definition fencei :: "'z asm" where
  "fencei = EmitIType 0 ZR FENCEI ZR MISCMEM"

definition ecall :: "'z asm" where
  "ecall = EmitIType_funct12 ECALL ZR PRIV ZR SYSTEM"

definition ebreak :: "'z asm" where
  "ebreak a = (if Supports a RV_C then c_ebreak a else EmitIType_funct12 EBREAK ZR PRIV ZR SYSTEM a)"

definition trap :: "'z asm" where
  "trap a = (if Supports a RV_C then Emit16 0 a else Emit32 0 a)"

definition addiw :: "Register \<Rightarrow> Register \<Rightarrow> intx \<Rightarrow> 'z asm" where
  "addiw rd rs1 imm a =
     (if Supports a RV_C \<and> rd \<noteq> ZR \<and> rs1 = ZR \<and> IsCIImm imm then c_li rd imm a
      else if Supports a RV_C \<and> rd = rs1 \<and> rd \<noteq> ZR \<and> IsCIImm imm then c_addiw rd rs1 imm a
      else EmitIType imm rs1 ADDI rd OPIMM32 a)"

definition slliw :: "Register \<Rightarrow> Register \<Rightarrow> intx \<Rightarrow> 'z asm" where
  "slliw rd rs1 shamt = EmitRType_shamt F7_0 shamt rs1 SLLI rd OPIMM32"

definition srliw :: "Register \<Rightarrow> Register \<Rightarrow> intx \<Rightarrow> 'z asm" where
  "srliw rd rs1 shamt = EmitRType_shamt F7_0 shamt rs1 SRI rd OPIMM32"

definition sraiw :: "Register \<Rightarrow> Register \<Rightarrow> intx \<Rightarrow> 'z asm" where
  "sraiw rd rs1 shamt = EmitRType_shamt SRA shamt rs1 SRI rd OPIMM32"

definition addw :: "Register \<Rightarrow> Register \<Rightarrow> Register \<Rightarrow> 'z asm" where
  "addw rd rs1 rs2 a =
     (if Supports a RV_C \<and> rd = rs1 \<and> IsCRs1p rs1 \<and> IsCRs2p rs2 then c_addw rd rs1 rs2 a
      else if Supports a RV_C \<and> rd = rs2 \<and> IsCRs1p rs1 \<and> IsCRs2p rs2 then c_addw rd rs2 rs1 a
      else EmitRType F7_0 rs2 rs1 ADD rd OP32 a)"

definition subw :: "Register \<Rightarrow> Register \<Rightarrow> Register \<Rightarrow> 'z asm" where
  "subw rd rs1 rs2 a =
     (if Supports a RV_C \<and> rd = rs1 \<and> IsCRs1p rs1 \<and> IsCRs2p rs2 then c_subw rd rs1 rs2 a
      else EmitRType SUB rs2 rs1 ADD rd OP32 a)"

definition sllw :: "Register \<Rightarrow> Register \<Rightarrow> Register \<Rightarrow> 'z asm" where
  "sllw rd rs1 rs2 = EmitRType F7_0 rs2 rs1 SLL rd OP32"

definition srlw :: "Register \<Rightarrow> Register \<Rightarrow> Register \<Rightarrow> 'z asm" where
  "srlw rd rs1 rs2 = EmitRType F7_0 rs2 rs1 SR rd OP32"

definition sraw :: "Register \<Rightarrow> Register \<Rightarrow> Register \<Rightarrow> 'z asm" where
  "sraw rd rs1 rs2 = EmitRType SRA rs2 rs1 SR rd OP32"

section \<open>Multiplication and division\<close>

definition mul :: "Register \<Rightarrow> Register \<Rightarrow> Register \<Rightarrow> 'z asm" where
  "mul rd rs1 rs2 a =
     (if Supports a RV_Zcb \<and> rd = rs1 \<and> IsCRs1p rs1 \<and> IsCRs2p rs2 then c_mul rd rs1 rs2 a
      else if Supports a RV_Zcb \<and> rd = rs2 \<and> IsCRs1p rs1 \<and> IsCRs2p rs2 then c_mul rd rs2 rs1 a
      else EmitRType MULDIV rs2 rs1 MUL rd OP a)"

definition mulh :: "Register \<Rightarrow> Register \<Rightarrow> Register \<Rightarrow> 'z asm" where
  "mulh rd rs1 rs2 = EmitRType MULDIV rs2 rs1 MULH rd OP"

definition mulhsu :: "Register \<Rightarrow> Register \<Rightarrow> Register \<Rightarrow> 'z asm" where
  "mulhsu rd rs1 rs2 = EmitRType MULDIV rs2 rs1 MULHSU rd OP"

definition mulhu :: "Register \<Rightarrow> Register \<Rightarrow> Register \<Rightarrow> 'z asm" where
  "mulhu rd rs1 rs2 = EmitRType MULDIV rs2 rs1 MULHU rd OP"

definition div_r :: "Register \<Rightarrow> Register \<Rightarrow> Register \<Rightarrow> 'z asm" where
  "div_r rd rs1 rs2 = EmitRType MULDIV rs2 rs1 DIV rd OP"

definition divu :: "Register \<Rightarrow> Register \<Rightarrow> Register \<Rightarrow> 'z asm" where
  "divu rd rs1 rs2 = EmitRType MULDIV rs2 rs1 DIVU rd OP"

definition rem_r :: "Register \<Rightarrow> Register \<Rightarrow> Register \<Rightarrow> 'z asm" where
  "rem_r rd rs1 rs2 = EmitRType MULDIV rs2 rs1 REM rd OP"

definition remu :: "Register \<Rightarrow> Register \<Rightarrow> Register \<Rightarrow> 'z asm" where
  "remu rd rs1 rs2 = EmitRType MULDIV rs2 rs1 REMU rd OP"

definition mulw :: "Register \<Rightarrow> Register \<Rightarrow> Register \<Rightarrow> 'z asm" where
  "mulw rd rs1 rs2 = EmitRType MULDIV rs2 rs1 MULW rd OP32"

definition divw :: "Register \<Rightarrow> Register \<Rightarrow> Register \<Rightarrow> 'z asm" where
  "divw rd rs1 rs2 = EmitRType MULDIV rs2 rs1 DIVW rd OP32"

definition divuw :: "Register \<Rightarrow> Register \<Rightarrow> Register \<Rightarrow> 'z asm" where
  "divuw rd rs1 rs2 = EmitRType MULDIV rs2 rs1 DIVUW rd OP32"

definition remw :: "Register \<Rightarrow> Register \<Rightarrow> Register \<Rightarrow> 'z asm" where
  "remw rd rs1 rs2 = EmitRType MULDIV rs2 rs1 REMW rd OP32"

definition remuw :: "Register \<Rightarrow> Register \<Rightarrow> Register \<Rightarrow> 'z asm" where
  "remuw rd rs1 rs2 = EmitRType MULDIV rs2 rs1 REMUW rd OP32"

section \<open>Bit manipulation and conditional zero\<close>

definition adduw :: "Register \<Rightarrow> Register \<Rightarrow> Register \<Rightarrow> 'z asm" where
  "adduw rd rs1 rs2 a =
     (if Supports a RV_Zcb \<and> rd = rs1 \<and> IsCRs1p rs1 \<and> rs2 = ZR then c_zextw rd rs1 a
      else EmitRType ADDUW rs2 rs1 F3_0 rd OP32 a)"

definition sh1add :: "Register \<Rightarrow> Register \<Rightarrow> Register \<Rightarrow> 'z asm" where
  "sh1add rd rs1 rs2 = EmitRType SHADD rs2 rs1 SH1ADD rd OP"

definition sh1adduw :: "Register \<Rightarrow> Register \<Rightarrow> Register \<Rightarrow> 'z asm" where
  "sh1adduw rd rs1 rs2 = EmitRType SHADD rs2 rs1 SH1ADD rd OP32"

definition sh2add :: "Register \<Rightarrow> Register \<Rightarrow> Register \<Rightarrow> 'z asm" where
  "sh2add rd rs1 rs2 = EmitRType SHADD rs2 rs1 SH2ADD rd OP"

definition sh2adduw :: "Register \<Rightarrow> Register \<Rightarrow> Register \<Rightarrow> 'z asm" where
  "sh2adduw rd rs1 rs2 = EmitRType SHADD rs2 rs1 SH2ADD rd OP32"

definition sh3add :: "Register \<Rightarrow> Register \<Rightarrow> Register \<Rightarrow> 'z asm" where
  "sh3add rd rs1 rs2 = EmitRType SHADD rs2 rs1 SH3ADD rd OP"

definition sh3adduw :: "Register \<Rightarrow> Register \<Rightarrow> Register \<Rightarrow> 'z asm" where
  "sh3adduw rd rs1 rs2 = EmitRType SHADD rs2 rs1 SH3ADD rd OP32"

definition slliuw :: "Register \<Rightarrow> Register \<Rightarrow> intx \<Rightarrow> 'z asm" where
  "slliuw rd rs1 shamt = EmitRType_shamt SLLIUW shamt rs1 SLLI rd OPIMM32"

definition andn :: "Register \<Rightarrow> Register \<Rightarrow> Register \<Rightarrow> 'z asm" where
  "andn rd rs1 rs2 = EmitRType SUB rs2 rs1 F3_AND rd OP"

definition orn :: "Register \<Rightarrow> Register \<Rightarrow> Register \<Rightarrow> 'z asm" where
  "orn rd rs1 rs2 = EmitRType SUB rs2 rs1 F3_OR rd OP"

definition xnor :: "Register \<Rightarrow> Register \<Rightarrow> Register \<Rightarrow> 'z asm" where
  "xnor rd rs1 rs2 = EmitRType SUB rs2 rs1 F3_XOR rd OP"

definition clz :: "Register \<Rightarrow> Register \<Rightarrow> 'z asm" where
  "clz rd rs1 = EmitRType_shamt COUNT 0b00000 rs1 F3_COUNT rd OPIMM"

definition clzw :: "Register \<Rightarrow> Register \<Rightarrow> 'z asm" where
  "clzw rd rs1 = EmitRType_shamt COUNT 0b00000 rs1 F3_COUNT rd OPIMM32"

definition ctz :: "Register \<Rightarrow> Register \<Rightarrow> 'z asm" where
  "ctz rd rs1 = EmitRType_shamt COUNT 0b00001 rs1 F3_COUNT rd OPIMM"

definition ctzw :: "Register \<Rightarrow> Register \<Rightarrow> 'z asm" where
  "ctzw rd rs1 = EmitRType_shamt COUNT 0b00001 rs1 F3_COUNT rd OPIMM32"

definition cpop :: "Register \<Rightarrow> Register \<Rightarrow> 'z asm" where
  "cpop rd rs1 = EmitRType_shamt COUNT 0b00010 rs1 F3_COUNT rd OPIMM"

definition cpopw :: "Register \<Rightarrow> Register \<Rightarrow> 'z asm" where
  "cpopw rd rs1 = EmitRType_shamt COUNT 0b00010 rs1 F3_COUNT rd OPIMM32"

definition max_r :: "Register \<Rightarrow> Register \<Rightarrow> Register \<Rightarrow> 'z asm" where
  "max_r rd rs1 rs2 = EmitRType MINMAXCLMUL rs2 rs1 F3_MAX rd OP"

definition maxu :: "Register \<Rightarrow> Register \<Rightarrow> Register \<Rightarrow> 'z asm" where
  "maxu rd rs1 rs2 = EmitRType MINMAXCLMUL rs2 rs1 F3_MAXU rd OP"

definition min_r :: "Register \<Rightarrow> Register \<Rightarrow> Register \<Rightarrow> 'z asm" where
  "min_r rd rs1 rs2 = EmitRType MINMAXCLMUL rs2 rs1 F3_MIN rd OP"

definition minu :: "Register \<Rightarrow> Register \<Rightarrow> Register \<Rightarrow> 'z asm" where
  "minu rd rs1 rs2 = EmitRType MINMAXCLMUL rs2 rs1 F3_MINU rd OP"

definition sextb :: "Register \<Rightarrow> Register \<Rightarrow> 'z asm" where
  "sextb rd rs1 a =
     (if Supports a RV_Zcb \<and> rd = rs1 \<and> IsCRs1p rs1 then c_sextb rd rs1 a
      else EmitRType_shamt 0b0110000 0b00100 rs1 SEXT rd OPIMM a)"

definition sexth :: "Register \<Rightarrow> Register \<Rightarrow> 'z asm" where
  "sexth rd rs1 a =
     (if Supports a RV_Zcb \<and> rd = rs1 \<and> IsCRs1p rs1 then c_sexth rd rs1 a
      else EmitRType_shamt 0b0110000 0b00101 rs1 SEXT rd OPIMM a)"

definition zexth :: "Register \<Rightarrow> Register \<Rightarrow> 'z asm" where
  "zexth rd rs1 a =
     (if Supports a RV_Zcb \<and> rd = rs1 \<and> IsCRs1p rs1 then c_zexth rd rs1 a
      else EmitRType_shamt 0b0000100 0b00000 rs1 ZEXT rd OP32 a)"

definition rol :: "Register \<Rightarrow> Register \<Rightarrow> Register \<Rightarrow> 'z asm" where
  "rol rd rs1 rs2 = EmitRType ROTATE rs2 rs1 ROL rd OP"

definition rolw :: "Register \<Rightarrow> Register \<Rightarrow> Register \<Rightarrow> 'z asm" where
  "rolw rd rs1 rs2 = EmitRType ROTATE rs2 rs1 ROL rd OP32"

definition ror :: "Register \<Rightarrow> Register \<Rightarrow> Register \<Rightarrow> 'z asm" where
  "ror rd rs1 rs2 = EmitRType ROTATE rs2 rs1 ROR rd OP"

definition rori :: "Register \<Rightarrow> Register \<Rightarrow> intx \<Rightarrow> 'z asm" where
  "rori rd rs1 shamt = EmitRType_shamt ROTATE shamt rs1 ROR rd OPIMM"

definition roriw :: "Register \<Rightarrow> Register \<Rightarrow> intx \<Rightarrow> 'z asm" where
  "roriw rd rs1 shamt = EmitRType_shamt ROTATE shamt rs1 ROR rd OPIMM32"

definition rorw :: "Register \<Rightarrow> Register \<Rightarrow> Register \<Rightarrow> 'z asm" where
  "rorw rd rs1 rs2 = EmitRType ROTATE rs2 rs1 ROR rd OP32"

definition orcb :: "Register \<Rightarrow> Register \<Rightarrow> 'z asm" where
  "orcb rd rs1 = EmitRType_shamt 0b0010100 0b00111 rs1 0b101 rd OPIMM"

definition rev8 :: "Register \<Rightarrow> Register \<Rightarrow> 'z asm" where
  "rev8 rd rs1 = EmitRType_shamt 0b0110101 0b11000 rs1 0b101 rd OPIMM"

definition clmul :: "Register \<Rightarrow> Register \<Rightarrow> Register \<Rightarrow> 'z asm" where
  "clmul rd rs1 rs2 = EmitRType MINMAXCLMUL rs2 rs1 CLMUL rd OP"

definition clmulh :: "Register \<Rightarrow> Register \<Rightarrow> Register \<Rightarrow> 'z asm" where
  "clmulh rd rs1 rs2 = EmitRType MINMAXCLMUL rs2 rs1 CLMULH rd OP"

definition clmulr :: "Register \<Rightarrow> Register \<Rightarrow> Register \<Rightarrow> 'z asm" where
  "clmulr rd rs1 rs2 = EmitRType MINMAXCLMUL rs2 rs1 CLMULR rd OP"

definition bclr :: "Register \<Rightarrow> Register \<Rightarrow> Register \<Rightarrow> 'z asm" where
  "bclr rd rs1 rs2 = EmitRType BCLRBEXT rs2 rs1 BCLR rd OP"

definition bclri :: "Register \<Rightarrow> Register \<Rightarrow> intx \<Rightarrow> 'z asm" where
  "bclri rd rs1 shamt = EmitRType_shamt BCLRBEXT shamt rs1 BCLR rd OPIMM"

definition bext :: "Register \<Rightarrow> Register \<Rightarrow> Register \<Rightarrow> 'z asm" where
  "bext rd rs1 rs2 = EmitRType BCLRBEXT rs2 rs1 BEXT rd OP"

definition bexti :: "Register \<Rightarrow> Register \<Rightarrow> intx \<Rightarrow> 'z asm" where
  "bexti rd rs1 shamt = EmitRType_shamt BCLRBEXT shamt rs1 BEXT rd OPIMM"

definition binv :: "Register \<Rightarrow> Register \<Rightarrow> Register \<Rightarrow> 'z asm" where
  "binv rd rs1 rs2 = EmitRType BINV rs2 rs1 F3_BINV rd OP"

definition binvi :: "Register \<Rightarrow> Register \<Rightarrow> intx \<Rightarrow> 'z asm" where
  "binvi rd rs1 shamt = EmitRType_shamt BINV shamt rs1 F3_BINV rd OPIMM"

definition bset :: "Register \<Rightarrow> Register \<Rightarrow> Register \<Rightarrow> 'z asm" where
  "bset rd rs1 rs2 = EmitRType BSET rs2 rs1 F3_BSET rd OP"

definition bseti :: "Register \<Rightarrow> Register \<Rightarrow> intx \<Rightarrow> 'z asm" where
  "bseti rd rs1 shamt = EmitRType_shamt BSET shamt rs1 F3_BSET rd OPIMM"

definition czeroeqz :: "Register \<Rightarrow> Register \<Rightarrow> Register \<Rightarrow> 'z asm" where
  "czeroeqz rd rs1 rs2 = EmitRType CZERO rs2 rs1 CZEROEQZ rd OP"

definition czeronez :: "Register \<Rightarrow> Register \<Rightarrow> Register \<Rightarrow> 'z asm" where
  "czeronez rd rs1 rs2 = EmitRType CZERO rs2 rs1 CZERONEZ rd OP"

section \<open>Atomic instructions\<close>

definition lrw :: "Register \<Rightarrow> Address \<Rightarrow> memory_order \<Rightarrow> 'z asm" where
  "lrw rd addr order = EmitRType_order LR order ZR (addr_base addr) WIDTH32 rd AMO"

definition scw :: "Register \<Rightarrow> Register \<Rightarrow> Address \<Rightarrow> memory_order \<Rightarrow> 'z asm" where
  "scw rd rs2 addr order = EmitRType_order SC order rs2 (addr_base addr) WIDTH32 rd AMO"

definition amoswapw :: "Register \<Rightarrow> Register \<Rightarrow> Address \<Rightarrow> memory_order \<Rightarrow> 'z asm" where
  "amoswapw rd rs2 addr order = EmitRType_order AMOSWAP order rs2 (addr_base addr) WIDTH32 rd AMO"

definition amoaddw :: "Register \<Rightarrow> Register \<Rightarrow> Address \<Rightarrow> memory_order \<Rightarrow> 'z asm" where
  "amoaddw rd rs2 addr order = EmitRType_order AMOADD order rs2 (addr_base addr) WIDTH32 rd AMO"

definition amoxorw :: "Register \<Rightarrow> Register \<Rightarrow> Address \<Rightarrow> memory_order \<Rightarrow> 'z asm" where
  "amoxorw rd rs2 addr order = EmitRType_order AMOXOR order rs2 (addr_base addr) WIDTH32 rd AMO"

definition amoandw :: "Register \<Rightarrow> Register \<Rightarrow> Address \<Rightarrow> memory_order \<Rightarrow> 'z asm" where
  "amoandw rd rs2 addr order = EmitRType_order AMOAND order rs2 (addr_base addr) WIDTH32 rd AMO"

definition amoorw :: "Register \<Rightarrow> Register \<Rightarrow> Address \<Rightarrow> memory_order \<Rightarrow> 'z asm" where
  "amoorw rd rs2 addr order = EmitRType_order AMOOR order rs2 (addr_base addr) WIDTH32 rd AMO"

definition amominw :: "Register \<Rightarrow> Register \<Rightarrow> Address \<Rightarrow> memory_order \<Rightarrow> 'z asm" where
  "amominw rd rs2 addr order = EmitRType_order AMOMIN order rs2 (addr_base addr) WIDTH32 rd AMO"

definition amomaxw :: "Register \<Rightarrow> Register \<Rightarrow> Address \<Rightarrow> memory_order \<Rightarrow> 'z asm" where
  "amomaxw rd rs2 addr order = EmitRType_order AMOMAX order rs2 (addr_base addr) WIDTH32 rd AMO"

definition amominuw :: "Register \<Rightarrow> Register \<Rightarrow> Address \<Rightarrow> memory_order \<Rightarrow> 'z asm" where
  "amominuw rd rs2 addr order = EmitRType_order AMOMINU order rs2 (addr_base addr) WIDTH32 rd AMO"

definition amomaxuw :: "Register \<Rightarrow> Register \<Rightarrow> Address \<Rightarrow> memory_order \<Rightarrow> 'z asm" where
  "amomaxuw rd rs2 addr order = EmitRType_order AMOMAXU order rs2 (addr_base addr) WIDTH32 rd AMO"

definition lrd :: "Register \<Rightarrow> Address \<Rightarrow> memory_order \<Rightarrow> 'z asm" where
  "lrd rd addr order = EmitRType_order LR order ZR (addr_base addr) WIDTH64 rd AMO"

definition scd :: "Register \<Rightarrow> Register \<Rightarrow> Address \<Rightarrow> memory_order \<Rightarrow> 'z asm" where
  "scd rd rs2 addr order = EmitRType_order SC order rs2 (addr_base addr) WIDTH64 rd AMO"

definition amoswapd :: "Register \<Rightarrow> Register \<Rightarrow> Address \<Rightarrow> memory_order \<Rightarrow> 'z asm" where
  "amoswapd rd rs2 addr order = EmitRType_order AMOSWAP order rs2 (addr_base addr) WIDTH64 rd AMO"

definition amoaddd :: "Register \<Rightarrow> Register \<Rightarrow> Address \<Rightarrow> memory_order \<Rightarrow> 'z asm" where
  "amoaddd rd rs2 addr order = EmitRType_order AMOADD order rs2 (addr_base addr) WIDTH64 rd AMO"

definition amoxord :: "Register \<Rightarrow> Register \<Rightarrow> Address \<Rightarrow> memory_order \<Rightarrow> 'z asm" where
  "amoxord rd rs2 addr order = EmitRType_order AMOXOR order rs2 (addr_base addr) WIDTH64 rd AMO"

definition amoandd :: "Register \<Rightarrow> Register \<Rightarrow> Address \<Rightarrow> memory_order \<Rightarrow> 'z asm" where
  "amoandd rd rs2 addr order = EmitRType_order AMOAND order rs2 (addr_base addr) WIDTH64 rd AMO"

definition amoord :: "Register \<Rightarrow> Register \<Rightarrow> Address \<Rightarrow> memory_order \<Rightarrow> 'z asm" where
  "amoord rd rs2 addr order = EmitRType_order AMOOR order rs2 (addr_base addr) WIDTH64 rd AMO"

definition amomind :: "Register \<Rightarrow> Register \<Rightarrow> Address \<Rightarrow> memory_order \<Rightarrow> 'z asm" where
  "amomind rd rs2 addr order = EmitRType_order AMOMIN order rs2 (addr_base addr) WIDTH64 rd AMO"

definition amomaxd :: "Register \<Rightarrow> Register \<Rightarrow> Address \<Rightarrow> memory_order \<Rightarrow> 'z asm" where
  "amomaxd rd rs2 addr order = EmitRType_order AMOMAX order rs2 (addr_base addr) WIDTH64 rd AMO"

definition amominud :: "Register \<Rightarrow> Register \<Rightarrow> Address \<Rightarrow> memory_order \<Rightarrow> 'z asm" where
  "amominud rd rs2 addr order = EmitRType_order AMOMINU order rs2 (addr_base addr) WIDTH64 rd AMO"

definition amomaxud :: "Register \<Rightarrow> Register \<Rightarrow> Address \<Rightarrow> memory_order \<Rightarrow> 'z asm" where
  "amomaxud rd rs2 addr order = EmitRType_order AMOMAXU order rs2 (addr_base addr) WIDTH64 rd AMO"

definition amoswapb :: "Register \<Rightarrow> Register \<Rightarrow> Address \<Rightarrow> memory_order \<Rightarrow> 'z asm" where
  "amoswapb rd rs2 addr order = EmitRType_order AMOSWAP order rs2 (addr_base addr) WIDTH8 rd AMO"

definition amoaddb :: "Register \<Rightarrow> Register \<Rightarrow> Address \<Rightarrow> memory_order \<Rightarrow> 'z asm" where
  "amoaddb rd rs2 addr order = EmitRType_order AMOADD order rs2 (addr_base addr) WIDTH8 rd AMO"

definition amoxorb :: "Register \<Rightarrow> Register \<Rightarrow> Address \<Rightarrow> memory_order \<Rightarrow> 'z asm" where
  "amoxorb rd rs2 addr order = EmitRType_order AMOXOR order rs2 (addr_base addr) WIDTH8 rd AMO"

definition amoandb :: "Register \<Rightarrow> Register \<Rightarrow> Address \<Rightarrow> memory_order \<Rightarrow> 'z asm" where
  "amoandb rd rs2 addr order = EmitRType_order AMOAND order rs2 (addr_base addr) WIDTH8 rd AMO"

definition amoorb :: "Register \<Rightarrow> Register \<Rightarrow> Address \<Rightarrow> memory_order \<Rightarrow> 'z asm" where
  "amoorb rd rs2 addr order = EmitRType_order AMOOR order rs2 (addr_base addr) WIDTH8 rd AMO"

definition amominb :: "Register \<Rightarrow> Register \<Rightarrow> Address \<Rightarrow> memory_order \<Rightarrow> 'z asm" where
  "amominb rd rs2 addr order = EmitRType_order AMOMIN order rs2 (addr_base addr) WIDTH8 rd AMO"

definition amomaxb :: "Register \<Rightarrow> Register \<Rightarrow> Address \<Rightarrow> memory_order \<Rightarrow> 'z asm" where
  "amomaxb rd rs2 addr order = EmitRType_order AMOMAX order rs2 (addr_base addr) WIDTH8 rd AMO"

definition amominub :: "Register \<Rightarrow> Register \<Rightarrow> Address \<Rightarrow> memory_order \<Rightarrow> 'z asm" where
  "amominub rd rs2 addr order = EmitRType_order AMOMINU order rs2 (addr_base addr) WIDTH8 rd AMO"

definition amomaxub :: "Register \<Rightarrow> Register \<Rightarrow> Address \<Rightarrow> memory_order \<Rightarrow> 'z asm" where
  "amomaxub rd rs2 addr order = EmitRType_order AMOMAXU order rs2 (addr_base addr) WIDTH8 rd AMO"

definition amoswaph :: "Register \<Rightarrow> Register \<Rightarrow> Address \<Rightarrow> memory_order \<Rightarrow> 'z asm" where
  "amoswaph rd rs2 addr order = EmitRType_order AMOSWAP order rs2 (addr_base addr) WIDTH16 rd AMO"

definition amoaddh :: "Register \<Rightarrow> Register \<Rightarrow> Address \<Rightarrow> memory_order \<Rightarrow> 'z asm" where
  "amoaddh rd rs2 addr order = EmitRType_order AMOADD order rs2 (addr_base addr) WIDTH16 rd AMO"

definition amoxorh :: "Register \<Rightarrow> Register \<Rightarrow> Address \<Rightarrow> memory_order \<Rightarrow> 'z asm" where
  "amoxorh rd rs2 addr order = EmitRType_order AMOXOR order rs2 (addr_base addr) WIDTH16 rd AMO"

definition amoandh :: "Register \<Rightarrow> Register \<Rightarrow> Address \<Rightarrow> memory_order \<Rightarrow> 'z asm" where
  "amoandh rd rs2 addr order = EmitRType_order AMOAND order rs2 (addr_base addr) WIDTH16 rd AMO"

definition amoorh :: "Register \<Rightarrow> Register \<Rightarrow> Address \<Rightarrow> memory_order \<Rightarrow> 'z asm" where
  "amoorh rd rs2 addr order = EmitRType_order AMOOR order rs2 (addr_base addr) WIDTH16 rd AMO"

definition amominh :: "Register \<Rightarrow> Register \<Rightarrow> Address \<Rightarrow> memory_order \<Rightarrow> 'z asm" where
  "amominh rd rs2 addr order = EmitRType_order AMOMIN order rs2 (addr_base addr) WIDTH16 rd AMO"

definition amomaxh :: "Register \<Rightarrow> Register \<Rightarrow> Address \<Rightarrow> memory_order \<Rightarrow> 'z asm" where
  "amomaxh rd rs2 addr order = EmitRType_order AMOMAX order rs2 (addr_base addr) WIDTH16 rd AMO"

definition amominuh :: "Register \<Rightarrow> Register \<Rightarrow> Address \<Rightarrow> memory_order \<Rightarrow> 'z asm" where
  "amominuh rd rs2 addr order = EmitRType_order AMOMINU order rs2 (addr_base addr) WIDTH16 rd AMO"

definition amomaxuh :: "Register \<Rightarrow> Register \<Rightarrow> Address \<Rightarrow> memory_order \<Rightarrow> 'z asm" where
  "amomaxuh rd rs2 addr order = EmitRType_order AMOMAXU order rs2 (addr_base addr) WIDTH16 rd AMO"

definition lb_ordered :: "Register \<Rightarrow> Address \<Rightarrow> memory_order \<Rightarrow> 'z asm" where
  "lb_ordered rd addr order = EmitRType_order LOADORDERED order ZR (addr_base addr) WIDTH8 rd AMO"

definition sb_ordered :: "Register \<Rightarrow> Address \<Rightarrow> memory_order \<Rightarrow> 'z asm" where
  "sb_ordered rs2 addr order = EmitRType_order STOREORDERED order rs2 (addr_base addr) WIDTH8 ZR AMO"

definition amocasb :: "Register \<Rightarrow> Register \<Rightarrow> Address \<Rightarrow> memory_order \<Rightarrow> 'z asm" where
  "amocasb rd rs2 addr order = EmitRType_order AMOCAS order rs2 (addr_base addr) WIDTH8 rd AMO"

definition lh_ordered :: "Register \<Rightarrow> Address \<Rightarrow> memory_order \<Rightarrow> 'z asm" where
  "lh_ordered rd addr order = EmitRType_order LOADORDERED order ZR (addr_base addr) WIDTH16 rd AMO"

definition sh_ordered :: "Register \<Rightarrow> Address \<Rightarrow> memory_order \<Rightarrow> 'z asm" where
  "sh_ordered rs2 addr order = EmitRType_order STOREORDERED order rs2 (addr_base addr) WIDTH16 ZR AMO"

definition amocash :: "Register \<Rightarrow> Register \<Rightarrow> Address \<Rightarrow> memory_order \<Rightarrow> 'z asm" where
  "amocash rd rs2 addr order = EmitRType_order AMOCAS order rs2 (addr_base addr) WIDTH16 rd AMO"

definition lw_ordered :: "Register \<Rightarrow> Address \<Rightarrow> memory_order \<Rightarrow> 'z asm" where
  "lw_ordered rd addr order = EmitRType_order LOADORDERED order ZR (addr_base addr) WIDTH32 rd AMO"

definition sw_ordered :: "Register \<Rightarrow> Address \<Rightarrow> memory_order \<Rightarrow> 'z asm" where
  "sw_ordered rs2 addr order = EmitRType_order STOREORDERED order rs2 (addr_base addr) WIDTH32 ZR AMO"

definition amocasw :: "Register \<Rightarrow> Register \<Rightarrow> Address \<Rightarrow> memory_order \<Rightarrow> 'z asm" where
  "amocasw rd rs2 addr order = EmitRType_order AMOCAS order rs2 (addr_base addr) WIDTH32 rd AMO"

definition ld_ordered :: "Register \<Rightarrow> Address \<Rightarrow> memory_order \<Rightarrow> 'z asm" where
  "ld_ordered rd addr order = EmitRType_order LOADORDERED order ZR (addr_base addr) WIDTH64 rd AMO"

definition sd_ordered :: "Register \<Rightarrow> Address \<Rightarrow> memory_order \<Rightarrow> 'z asm" where
  "sd_ordered rs2 addr order = EmitRType_order STOREORDERED order rs2 (addr_base addr) WIDTH64 ZR AMO"

definition amocasd :: "Register \<Rightarrow> Register \<Rightarrow> Address \<Rightarrow> memory_order \<Rightarrow> 'z asm" where
  "amocasd rd rs2 addr order = EmitRType_order AMOCAS order rs2 (addr_base addr) WIDTH64 rd AMO"

section \<open>Shadow stack\<close>

definition mopr :: "intx \<Rightarrow> Register \<Rightarrow> Register \<Rightarrow> 'z asm" where
  "mopr n rd rs1 = 
     Emit32 (EncodeMoprn n OR EncodeFunct12 MOP_R OR EncodeRs1 rs1 OR EncodeFunct3 MOP OR EncodeRd rd
             OR EncodeOpcode SYSTEM)"

definition moprr :: "intx \<Rightarrow> Register \<Rightarrow> Register \<Rightarrow> Register \<Rightarrow> 'z asm" where
  "moprr n rd rs1 rs2 = 
     Emit32 (EncodeMoprrn n OR EncodeFunct7 MOP_RR OR EncodeRs2 rs2 OR EncodeRs1 rs1 OR EncodeFunct3 MOP
             OR EncodeRd rd OR EncodeOpcode SYSTEM)"

definition cmop :: "intx \<Rightarrow> 'z asm" where
  "cmop n = Emit16 (ucast (C_LUI OR EncodeCMopn n))"

definition sspush :: "Register \<Rightarrow> 'z asm" where
  "sspush rs2 a =
     (if Supports a RV_Zcmop \<and> rs2 = 1 then cmop 1 a else moprr 7 ZR ZR rs2 a)"

definition sspopchk :: "Register \<Rightarrow> 'z asm" where
  "sspopchk rs1 a =
     (if Supports a RV_Zcmop \<and> rs1 = 5 then cmop 5 a else mopr 28 ZR rs1 a)"

definition ssrdp :: "Register \<Rightarrow> 'z asm" where
  "ssrdp rd = mopr 28 rd ZR"

section \<open>Pseudo-instructions\<close>

definition subi :: "Register \<Rightarrow> Register \<Rightarrow> intx \<Rightarrow> 'z asm" where
  "subi rd rs1 imm = addi rd rs1 (- imm)"

definition nop :: "'z asm" where
  "nop = addi ZR ZR 0"

definition li :: "Register \<Rightarrow> intx \<Rightarrow> 'z asm" where
  "li rd imm = addi rd ZR imm"

definition mv :: "Register \<Rightarrow> Register \<Rightarrow> 'z asm" where
  "mv rd rs = addi rd rs 0"

definition not_r :: "Register \<Rightarrow> Register \<Rightarrow> 'z asm" where
  "not_r rd rs = xori rd rs (- 1)"

definition neg :: "Register \<Rightarrow> Register \<Rightarrow> 'z asm" where
  "neg rd rs = sub rd ZR rs"

definition zextb :: "Register \<Rightarrow> Register \<Rightarrow> 'z asm" where
  "zextb rd rs = andi rd rs 0xFF"

definition snez :: "Register \<Rightarrow> Register \<Rightarrow> 'z asm" where
  "snez rd rs = sltu rd ZR rs"

definition seqz :: "Register \<Rightarrow> Register \<Rightarrow> 'z asm" where
  "seqz rd rs = sltiu rd rs 1"

definition sltz :: "Register \<Rightarrow> Register \<Rightarrow> 'z asm" where
  "sltz rd rs = slt rd rs ZR"

definition sgtz :: "Register \<Rightarrow> Register \<Rightarrow> 'z asm" where
  "sgtz rd rs = slt rd ZR rs"

definition subiw :: "Register \<Rightarrow> Register \<Rightarrow> intx \<Rightarrow> 'z asm" where
  "subiw rd rs1 imm = addiw rd rs1 (- imm)"

definition negw :: "Register \<Rightarrow> Register \<Rightarrow> 'z asm" where
  "negw rd rs = subw rd ZR rs"

definition sextw :: "Register \<Rightarrow> Register \<Rightarrow> 'z asm" where
  "sextw rd rs = addiw rd rs 0"

definition zextw :: "Register \<Rightarrow> Register \<Rightarrow> 'z asm" where
  "zextw rd rs = adduw rd rs ZR"

definition lx :: "Register \<Rightarrow> Address \<Rightarrow> 'z asm" where
  "lx rd addr = ld rd addr"

definition sx :: "Register \<Rightarrow> Address \<Rightarrow> 'z asm" where
  "sx rs2 addr = sd rs2 addr"

end
