(* ===== verification/RiscvMicro.thy ===== *)
theory RiscvMicro
  imports RiscvAssembler
begin

text \<open>
  The instructions of the assembler against the simulator. \<open>computes a a' g\<close> says that the step from
  assembler state \<open>a\<close> to \<open>a'\<close> appends some bytes, and that a simulator which finds these bytes at its
  program counter runs through them and changes its integer registers by \<open>g\<close>, whatever the host
  handlers are. The relation composes, so the macro instructions are proved from the single ones.

  For every instruction the same \<open>g\<close> is proved whether or not a compressed encoding is chosen, so
  the two encodings are equivalent.
\<close>

section \<open>Running code\<close>

type_synonym regs = "Register \<Rightarrow> u64"

fun run :: "host \<Rightarrow> nat \<Rightarrow> Simulator \<Rightarrow> result" where
  "run h 0 s = Inr s"
| "run h (Suc n) s = (case step h s of Inl e \<Rightarrow> Inl e | Inr s' \<Rightarrow> run h n s')"

lemma zr_zero_run: "zr_zero s \<Longrightarrow> host_keeps zr_zero h \<Longrightarrow> keeps zr_zero (run h n s)"
proof (induction n arbitrary: s)
  case (Suc n)
  show ?case
  proof (cases "step h s")
    case (Inr t)
    then have "zr_zero t" using zr_zero_step [OF Suc.prems] by (simp add: keeps_def)
    then show ?thesis using Suc.IH [of t] Suc.prems(2) Inr by simp
  qed simp
qed simp

definition code_at :: "u8 list \<Rightarrow> ram \<Rightarrow> u64 \<Rightarrow> bool" where
  "code_at bs m a = (\<forall>i < length bs. m (a + of_nat i) = bs ! i)"

definition wr :: "Register \<Rightarrow> u64 \<Rightarrow> regs \<Rightarrow> regs" where
  "wr rd v R = (if rd = ZR then R else R(rd := v))"

definition retire :: "nat \<Rightarrow> nat \<Rightarrow> (regs \<Rightarrow> regs) \<Rightarrow> Simulator \<Rightarrow> Simulator" where
  "retire n len g s =
     s\<lparr>pc_m := pc_m s + of_nat len, xregs_m := g (xregs_m s), instret_m := instret_m s + of_nat n\<rparr>"

definition executes :: "u8 list \<Rightarrow> (regs \<Rightarrow> regs) \<Rightarrow> bool" where
  "executes bs g =
     (even (length bs) \<and> (\<exists>n. \<forall>h s. code_at bs (host_m (memory_m s)) (pc_m s) \<longrightarrow> zr_zero s \<longrightarrow>
        run h n s = Inr (retire n (length bs) g s)))"

definition computes :: "'z MicroAssembler_scheme \<Rightarrow> 'z MicroAssembler_scheme \<Rightarrow> (regs \<Rightarrow> regs) \<Rightarrow> bool" where
  "computes a a' g = (\<exists>bs. a' = a\<lparr>buffer_m := buffer_m a @ bs\<rparr> \<and> executes bs g)"

lemma run_add: "run h (m + n) s = (case run h m s of Inl e \<Rightarrow> Inl e | Inr s' \<Rightarrow> run h n s')"
  by (induction m arbitrary: s) (simp_all split: sum.split)

lemma code_at_append:
  "code_at (bs @ cs) m a \<longleftrightarrow> code_at bs m a \<and> code_at cs m (a + of_nat (length bs))"
proof
  assume *: "code_at (bs @ cs) m a"
  have "m (a + of_nat (length bs) + of_nat i) = cs ! i" if "i < length cs" for i
    using * that unfolding code_at_def
    by (auto dest!: spec [of _ "length bs + i"] simp: nth_append add.assoc)
  moreover have "m (a + of_nat i) = bs ! i" if "i < length bs" for i
    using * that unfolding code_at_def by (auto dest!: spec [of _ i] simp: nth_append)
  ultimately show "code_at bs m a \<and> code_at cs m (a + of_nat (length bs))"
    by (simp add: code_at_def)
next
  assume *: "code_at bs m a \<and> code_at cs m (a + of_nat (length bs))"
  show "code_at (bs @ cs) m a"
    unfolding code_at_def
  proof (intro allI impI)
    fix i assume "i < length (bs @ cs)"
    then show "m (a + of_nat i) = (bs @ cs) ! i"
      using * unfolding code_at_def
      by (cases "i < length bs")
        (auto dest: spec [of _ "i - length bs"] simp: nth_append of_nat_diff algebra_simps)
  qed
qed

lemma length_bytes_le [simp]: "length (bytes_le n v) = n"
  by (simp add: bytes_le_def)

lemma load_code:
  assumes "code_at (bytes_le n v) m a" "k \<le> n" "n \<le> 8"
  shows "load_le k m a = take_bit (8 * k) v"
  using load_le_bytes [of k m a v 0] assms by (simp add: code_at_def bytes_le_def)

lemma wr_simps [simp]:
  "wr ZR v R = R" "wr rd v R ZR = R ZR"
  by (simp_all add: wr_def)

lemma wr_apply: "wr rd v R r = (if r = rd \<and> rd \<noteq> ZR then v else R r)"
  by (simp add: wr_def)

lemma set_xreg_wr: "set_xreg s rd v = s\<lparr>xregs_m := wr rd v (xregs_m s)\<rparr>"
  by (simp add: set_xreg_def wr_def)

section \<open>Composition\<close>

lemma executes_append:
  assumes "executes bs g" "executes cs g'" "\<And>R. R ZR = 0 \<Longrightarrow> g R ZR = 0"
  shows "executes (bs @ cs) (\<lambda>R. g' (g R))"
proof -
  obtain n where n: "\<And>h s. code_at bs (host_m (memory_m s)) (pc_m s) \<Longrightarrow> zr_zero s \<Longrightarrow>
      run h n s = Inr (retire n (length bs) g s)"
    using assms(1) unfolding executes_def by blast
  obtain n' where n': "\<And>h s. code_at cs (host_m (memory_m s)) (pc_m s) \<Longrightarrow> zr_zero s \<Longrightarrow>
      run h n' s = Inr (retire n' (length cs) g' s)"
    using assms(2) unfolding executes_def by blast
  have "run h (n + n') s = Inr (retire (n + n') (length (bs @ cs)) (\<lambda>R. g' (g R)) s)"
    if c: "code_at (bs @ cs) (host_m (memory_m s)) (pc_m s)" and z: "zr_zero s" for h s
  proof -
    have "run h n' (retire n (length bs) g s) =
        Inr (retire n' (length cs) g' (retire n (length bs) g s))"
      by (rule n') (use c z assms(3) in \<open>simp_all add: retire_def code_at_append zr_zero_def\<close>)
    then show ?thesis using n [of s h] c z by (simp add: run_add code_at_append retire_def add.assoc)
  qed
  moreover have "even (length (bs @ cs))" using assms(1,2) by (simp add: executes_def)
  ultimately show ?thesis unfolding executes_def by blast
qed

lemma executes_Nil: "executes [] (\<lambda>R. R)"
  unfolding executes_def by (rule conjI, simp, rule exI [of _ 0]) (simp add: retire_def)

lemma computes_refl [simp]: "computes a a (\<lambda>R. R)"
  unfolding computes_def by (rule exI [of _ "[]"]) (simp add: executes_Nil)

lemma computes_trans:
  assumes "computes a b g" "computes b c g'" "\<And>R. R ZR = 0 \<Longrightarrow> g R ZR = 0"
  shows "computes a c (\<lambda>R. g' (g R))"
proof -
  obtain bs cs where "b = a\<lparr>buffer_m := buffer_m a @ bs\<rparr>" "executes bs g"
      "c = b\<lparr>buffer_m := buffer_m b @ cs\<rparr>" "executes cs g'"
    using assms(1,2) unfolding computes_def by blast
  moreover from this have "executes (bs @ cs) (\<lambda>R. g' (g R))"
    using executes_append [of bs g cs g'] assms(3) by simp
  ultimately show ?thesis unfolding computes_def by (intro exI [of _ "bs @ cs"]) simp
qed

lemma computes_cong:
  assumes "computes a b g" "\<And>R. R ZR = 0 \<Longrightarrow> g R = g' R"
  shows "computes a b g'"
proof -
  have "retire n len g s = retire n len g' s" if "zr_zero s" for n len s
    using assms(2) that by (simp add: retire_def zr_zero_def)
  then have "executes bs g'" if "executes bs g" for bs
    using that unfolding executes_def by simp
  then show ?thesis using assms(1) unfolding computes_def by blast
qed

lemma computes_extensions:
  "computes a b g \<Longrightarrow> extensions_m b = extensions_m a \<and> far_branch_level_m b = far_branch_level_m a"
  unfolding computes_def by auto

lemma computes_Supports: "computes a b g \<Longrightarrow> Supports b e = Supports a e"
  using computes_extensions unfolding Supports_def by metis

section \<open>One instruction\<close>

lemma ucast_bytes_32: "(ucast (take_bit 32 (ucast (w :: u32) :: u64)) :: u32) = w"
  by (rule bit_word_eqI) (auto simp: bit_simps)

lemma ucast_bytes_16: "(ucast (take_bit 16 (ucast (w :: u16) :: u64)) :: u16) = w"
  by (rule bit_word_eqI) (auto simp: bit_simps)

lemma low_parcel: "(ucast (take_bit 16 (ucast (w :: u32) :: u64)) :: u16) = ucast w"
  by (rule bit_word_eqI) (auto simp: bit_simps)

lemma IsCInstruction_ucast: "IsCInstruction (ucast (w :: u32)) \<longleftrightarrow> w AND 3 \<noteq> 3"
proof -
  have "(ucast w AND 3 :: u16) = ucast (w AND 3)" by (simp add: unsigned_and_eq)
  moreover have "(ucast (w AND 3) :: u16) = 3 \<longleftrightarrow> w AND 3 = 3"
  proof
    assume "(ucast (w AND 3) :: u16) = 3"
    then have "(ucast (ucast (w AND 3) :: u16) :: u32) = 3" by simp
    moreover have "(ucast (ucast (w AND 3) :: u16) :: u32) = w AND 3"
      by (rule bit_word_eqI) (auto simp: bit_simps and_numeral_take_bit)
    ultimately show "w AND 3 = 3" by simp
  qed simp
  ultimately show ?thesis by (simp add: IsCInstruction_def)
qed

lemma executes_32:
  assumes "w AND 3 = 3"
    and "\<And>h s. zr_zero s \<Longrightarrow> Interpret h w s = next_instr 4 (s\<lparr>xregs_m := g (xregs_m s)\<rparr>)"
  shows "executes (bytes_le 4 (ucast w)) g"
  unfolding executes_def
proof (intro conjI exI allI impI)
  show "even (length (bytes_le 4 (ucast w)))" by simp
  fix h s
  assume c: "code_at (bytes_le 4 (ucast w)) (host_m (memory_m s)) (pc_m s)" and z: "zr_zero s"
  have "fetch 4 s = take_bit 32 (ucast w)" "fetch 2 s = take_bit 16 (ucast w)"
    using load_code [OF c, of 4] load_code [OF c, of 2] by (simp_all add: fetch_def)
  then show "run h 1 s = Inr (retire 1 (length (bytes_le 4 (ucast w))) g s)"
    using assms z
    by (simp add: step_def low_parcel ucast_bytes_32 IsCInstruction_ucast next_instr_def retire_def)
qed

lemma executes_16:
  assumes "IsCInstruction w"
    and "\<And>s. zr_zero s \<Longrightarrow> Interpret_C w s = next_instr 2 (s\<lparr>xregs_m := g (xregs_m s)\<rparr>)"
  shows "executes (bytes_le 2 (ucast w)) g"
  unfolding executes_def
proof (intro conjI exI allI impI)
  show "even (length (bytes_le 2 (ucast w)))" by simp
  fix h s
  assume c: "code_at (bytes_le 2 (ucast w)) (host_m (memory_m s)) (pc_m s)" and z: "zr_zero s"
  have "fetch 2 s = take_bit 16 (ucast w)"
    using load_code [OF c, of 2] by (simp add: fetch_def)
  then show "run h 1 s = Inr (retire 1 (length (bytes_le 2 (ucast w))) g s)"
    using assms z
    by (simp add: step_def ucast_bytes_16 next_instr_def retire_def)
qed

lemma computes_Emit32:
  assumes "w AND 3 = 3"
    and "\<And>h s. zr_zero s \<Longrightarrow> Interpret h w s = next_instr 4 (s\<lparr>xregs_m := g (xregs_m s)\<rparr>)"
  shows "computes a (Emit32 w a) g"
  unfolding computes_def Emit32_def using executes_32 [OF assms] by blast

lemma computes_Emit16:
  assumes "IsCInstruction w"
    and "\<And>s. zr_zero s \<Longrightarrow> Interpret_C w s = next_instr 2 (s\<lparr>xregs_m := g (xregs_m s)\<rparr>)"
  shows "computes a (Emit16 w a) g"
  unfolding computes_def Emit16_def using executes_16 [OF assms] by blast

section \<open>Instruction words seen by the simulator\<close>

named_theorems rv_word \<open>fields of the words that the emitters build\<close>

lemmas RTypeWord_Instr [rv_word] = RTypeWord_decode [folded Instr_defs]
lemmas ITypeWord_Instr [rv_word] = ITypeWord_decode_fields [folded Instr_defs]
  ITypeWord_decode_imm [folded Instr_defs]
lemmas STypeWord_Instr [rv_word] = STypeWord_decode_fields [folded Instr_defs]
  STypeWord_decode_imm [folded Instr_defs]
lemmas UTypeWord_Instr [rv_word] = UTypeWord_decode [folded Instr_defs]
lemmas RTypeShamtWord_Instr = RTypeShamtWord_decode [folded Instr_defs]
  RTypeShamtWord_funct7_masked [folded Instr_defs]
lemmas RTypeShamtWord_Instr5 = RTypeShamtWord_funct7 [folded Instr_defs]

lemma opcode_low: "Instr_opcode w AND 3 = 3 \<Longrightarrow> w AND 3 = 3"
  by (simp add: Instr_opcode_def DecodeOpcode_def and.assoc)

lemma set_rd_wr: "set_rd instr s v = next_instr 4 (s\<lparr>xregs_m := wr (Instr_rd instr) v (xregs_m s)\<rparr>)"
  by (simp add: set_rd_def set_xreg_wr)

lemma set_c_wr: "set_c rd s v = next_instr 2 (s\<lparr>xregs_m := wr rd v (xregs_m s)\<rparr>)"
  by (simp add: set_c_def set_xreg_wr)

lemma computes_RType:
  assumes "IsFunct7 f7" "IsFunct3 f3" "IsOpcode opc" "opc AND 3 = 3"
    and "\<And>h instr s. Instr_opcode instr = opc \<Longrightarrow> Instr_funct3 instr = f3 \<Longrightarrow> Instr_funct7 instr = f7 \<Longrightarrow>
      Interpret h instr s =
        set_rd instr s (f (xregs_m s (Instr_rs1 instr)) (xregs_m s (Instr_rs2 instr)))"
  shows "computes a (EmitRType f7 rs2 rs1 f3 rd opc a) (\<lambda>R. wr rd (f (R rs1) (R rs2)) R)"
  unfolding EmitRType_def
  by (rule computes_Emit32) (simp_all add: opcode_low assms rv_word set_rd_wr)

lemma computes_IType:
  assumes "IsFunct3 f3" "IsOpcode opc" "opc AND 3 = 3" "IsITypeImm imm"
    and "\<And>h instr s. Instr_opcode instr = opc \<Longrightarrow> Instr_funct3 instr = f3 \<Longrightarrow>
      Interpret h instr s =
        set_rd instr s (f (xregs_m s (Instr_rs1 instr)) (Instr_itype_imm instr))"
  shows "computes a (EmitIType imm rs1 f3 rd opc a) (\<lambda>R. wr rd (f (R rs1) imm) R)"
  unfolding EmitIType_def
  by (rule computes_Emit32) (simp_all add: opcode_low assms rv_word set_rd_wr)

lemma computes_RType_shamt:
  assumes "IsFunct7 f7" "IsFunct3 f3" "IsOpcode opc" "opc AND 3 = 3" "IsShamt (ucast shamt)"
    "\<not> bit f7 0"
    and "\<And>h instr s. Instr_opcode instr = opc \<Longrightarrow> Instr_funct3 instr = f3 \<Longrightarrow>
      Instr_funct7 instr AND 126 = f7 \<Longrightarrow>
      Interpret h instr s = set_rd instr s (f (xregs_m s (Instr_rs1 instr)) (Instr_shamt instr))"
  shows "computes a (EmitRType_shamt f7 shamt rs1 f3 rd opc a) (\<lambda>R. wr rd (f (R rs1) (ucast shamt)) R)"
  unfolding EmitRType_shamt_def
  by (rule computes_Emit32) (simp_all add: opcode_low assms RTypeShamtWord_Instr set_rd_wr)

lemma computes_RType_shamt5:
  assumes "IsFunct7 f7" "IsFunct3 f3" "IsOpcode opc" "opc AND 3 = 3"
    "take_bit 5 (ucast shamt :: u32) = ucast shamt"
    and "\<And>h instr s. Instr_opcode instr = opc \<Longrightarrow> Instr_funct3 instr = f3 \<Longrightarrow> Instr_funct7 instr = f7 \<Longrightarrow>
      (\<not> bit f7 0 \<Longrightarrow> Instr_shamt instr = ucast shamt) \<Longrightarrow>
      Interpret h instr s = set_rd instr s (f (xregs_m s (Instr_rs1 instr)))"
  shows "computes a (EmitRType_shamt f7 shamt rs1 f3 rd opc a) (\<lambda>R. wr rd (f (R rs1)) R)"
proof -
  have "take_bit 6 (ucast shamt :: u32) = take_bit 6 (take_bit 5 (ucast shamt))"
    by (simp only: assms(5))
  also have "\<dots> = take_bit 5 (ucast shamt)" unfolding take_bit_take_bit by simp
  also note assms(5)
  finally have "IsShamt (ucast shamt)" unfolding Is_field_take_bit .
  then show ?thesis
    unfolding EmitRType_shamt_def
    by (intro computes_Emit32)
      (simp_all add: opcode_low assms RTypeShamtWord_Instr(5) RTypeShamtWord_Instr5 set_rd_wr)
qed

lemmas interpret_op_defs =
  Interpret_def Let_def get_xreg_def InterpretOP_def InterpretOP_0_def InterpretOP_SUB_def
  InterpretOP_MULDIV_def InterpretOP_SHADD_def InterpretOP_MINMAXCLMUL_def InterpretOP_ROTATE_def
  InterpretOP_BCLRBEXT_def InterpretOP_CZERO_def InterpretOP32_def InterpretOP32_0_def
  InterpretOP32_SUB_def InterpretOP32_MULDIV_def InterpretOP32_SHADD_def InterpretOP32_ADDUW_def
  InterpretOP32_ROTATE_def

section \<open>Register-register instructions\<close>

lemma computes_sltu:
  "computes a (sltu rd rs1 rs2 a) (\<lambda>R. wr rd (if R rs1 < R rs2 then 1 else 0) R)"
  unfolding sltu_def by (rule computes_RType) (simp_all add: rv_consts interpret_op_defs)

lemma computes_mulh: "computes a (mulh rd rs1 rs2 a) (\<lambda>R. wr rd (sim_mulh (R rs1) (R rs2)) R)"
  unfolding mulh_def by (rule computes_RType) (simp_all add: rv_consts interpret_op_defs)

section \<open>Compressed instructions\<close>

lemmas interpret_c_defs =
  Interpret_C_def Interpret_C_JR_def Interpret_C_LUI_def Interpret_C_MISCALU_def Interpret_C_RR_def
  Interpret_C_EXT_def Let_def get_xreg_def

lemmas c_simps = IsCInstruction_ucast rv_footprint CInstr_defs interpret_c_defs set_c_wr

lemma IsCShamt_less: "IsCShamt x \<Longrightarrow> \<not> 64 \<le> x"
  by (simp add: IsCShamt_def IsUint_def not_le)

lemma computes_c_add:
  "rs2 \<noteq> ZR \<Longrightarrow> computes a (c_add rd rs1 rs2 a) (\<lambda>R. wr rd (R rd + R rs2) R)"
  unfolding c_add_def
  by (rule computes_Emit16) (simp_all add: c_simps)

lemma computes_c_mv:
  "rd \<noteq> ZR \<Longrightarrow> rs2 \<noteq> ZR \<Longrightarrow> computes a (c_mv rd rs2 a) (\<lambda>R. wr rd (R rs2) R)"
  unfolding c_mv_def
  by (rule computes_Emit16) (simp_all add: c_simps)

lemma computes_c_li:
  "rd \<noteq> ZR \<Longrightarrow> IsCIImm imm \<Longrightarrow> computes a (c_li rd imm a) (\<lambda>R. wr rd imm R)"
  unfolding c_li_def
  by (rule computes_Emit16) (simp_all add: c_simps)

lemma computes_c_lui:
  "rd \<noteq> ZR \<Longrightarrow> rd \<noteq> SP \<Longrightarrow> IsCUImm imm \<Longrightarrow> imm \<noteq> 0 \<Longrightarrow> computes a (c_lui rd imm a) (\<lambda>R. wr rd imm R)"
  unfolding c_lui_def
  by (rule computes_Emit16) (simp_all add: c_simps)

lemma computes_c_addi:
  "IsCIImm imm \<Longrightarrow> computes a (c_addi rd rs1 imm a) (\<lambda>R. wr rd (R rd + imm) R)"
  unfolding c_addi_def
  by (rule computes_Emit16) (simp_all add: c_simps)

lemma computes_c_addiw:
  "IsCIImm imm \<Longrightarrow> computes a (c_addiw rd rs1 imm a) (\<lambda>R. wr rd (sign_extend (ucast (R rd) + ucast imm)) R)"
  unfolding c_addiw_def
  by (rule computes_Emit16) (simp_all add: c_simps)

lemma computes_c_addi16sp:
  "IsCI16Imm imm \<Longrightarrow> imm \<noteq> 0 \<Longrightarrow> computes a (c_addi16sp SP rs1 imm a) (\<lambda>R. wr SP (R SP + imm) R)"
  unfolding c_addi16sp_def
  by (rule computes_Emit16) (simp_all add: c_simps)

lemma computes_c_addi4spn:
  "IsCRdp rdp \<Longrightarrow> IsCI4SPNImm imm \<Longrightarrow> imm \<noteq> 0 \<Longrightarrow> computes a (c_addi4spn rdp rs1 imm a) (\<lambda>R. wr rdp (R SP + imm) R)"
  unfolding c_addi4spn_def
  by (rule computes_Emit16) (simp_all add: c_simps)

lemma computes_c_slli:
  "rd \<noteq> ZR \<Longrightarrow> IsCShamt (ucast imm) \<Longrightarrow> computes a (c_slli rd rs1 imm a) (\<lambda>R. wr rd (push_bit (unat (ucast imm :: u32)) (R rd)) R)"
  unfolding c_slli_def
  by (rule computes_Emit16) (simp_all add: c_simps)

lemma computes_c_srli:
  "IsCRs1p rd \<Longrightarrow> IsCShamt (ucast imm) \<Longrightarrow> computes a (c_srli rd rs1 imm a) (\<lambda>R. wr rd (drop_bit (unat (ucast imm :: u32)) (R rd)) R)"
  unfolding c_srli_def
  by (rule computes_Emit16) (simp_all add: c_simps IsCShamt_less)

lemma computes_c_srai:
  "IsCRs1p rd \<Longrightarrow> IsCShamt (ucast imm) \<Longrightarrow> computes a (c_srai rd rs1 imm a) (\<lambda>R. wr rd (signed_drop_bit (unat (ucast imm :: u32)) (R rd)) R)"
  unfolding c_srai_def
  by (rule computes_Emit16) (simp_all add: c_simps IsCShamt_less)

lemma computes_c_andi:
  "IsCRs1p rd \<Longrightarrow> IsCIImm imm \<Longrightarrow> computes a (c_andi rd rs1 imm a) (\<lambda>R. wr rd (R rd AND imm) R)"
  unfolding c_andi_def
  by (rule computes_Emit16) (simp_all add: c_simps)

lemma computes_c_and:
  "IsCRs1p rs1 \<Longrightarrow> IsCRs2p rs2 \<Longrightarrow> computes a (c_and rd rs1 rs2 a) (\<lambda>R. wr rs1 (R rs1 AND R rs2) R)"
  unfolding c_and_def
  by (rule computes_Emit16) (simp_all add: c_simps)

lemma computes_c_or:
  "IsCRs1p rs1 \<Longrightarrow> IsCRs2p rs2 \<Longrightarrow> computes a (c_or rd rs1 rs2 a) (\<lambda>R. wr rs1 (R rs1 OR R rs2) R)"
  unfolding c_or_def
  by (rule computes_Emit16) (simp_all add: c_simps)

lemma computes_c_xor:
  "IsCRs1p rs1 \<Longrightarrow> IsCRs2p rs2 \<Longrightarrow> computes a (c_xor rd rs1 rs2 a) (\<lambda>R. wr rs1 (R rs1 XOR R rs2) R)"
  unfolding c_xor_def
  by (rule computes_Emit16) (simp_all add: c_simps)

lemma computes_c_sub:
  "IsCRs1p rs1 \<Longrightarrow> IsCRs2p rs2 \<Longrightarrow> computes a (c_sub rd rs1 rs2 a) (\<lambda>R. wr rs1 (R rs1 - R rs2) R)"
  unfolding c_sub_def
  by (rule computes_Emit16) (simp_all add: c_simps)

lemma computes_c_addw:
  "IsCRs1p rs1 \<Longrightarrow> IsCRs2p rs2 \<Longrightarrow> computes a (c_addw rd rs1 rs2 a) (\<lambda>R. wr rs1 (sign_extend (ucast (R rs1) + ucast (R rs2))) R)"
  unfolding c_addw_def
  by (rule computes_Emit16) (simp_all add: c_simps)

lemma computes_c_subw:
  "IsCRs1p rs1 \<Longrightarrow> IsCRs2p rs2 \<Longrightarrow> computes a (c_subw rd rs1 rs2 a) (\<lambda>R. wr rs1 (sign_extend (ucast (R rs1) - ucast (R rs2))) R)"
  unfolding c_subw_def
  by (rule computes_Emit16) (simp_all add: c_simps)

lemma computes_c_mul:
  "IsCRs1p rs1 \<Longrightarrow> IsCRs2p rs2 \<Longrightarrow> computes a (c_mul rd rs1 rs2 a) (\<lambda>R. wr rs1 (sim_mul (R rs1) (R rs2)) R)"
  unfolding c_mul_def
  by (rule computes_Emit16) (simp_all add: c_simps)

lemma computes_c_zextb:
  "IsCRs1p rs1 \<Longrightarrow> computes a (c_zextb rd rs1 a) (\<lambda>R. wr rs1 (sim_zextb (R rs1)) R)"
  unfolding c_zextb_def
  by (rule computes_Emit16) (simp_all add: c_simps)

lemma computes_c_sextb:
  "IsCRs1p rs1 \<Longrightarrow> computes a (c_sextb rd rs1 a) (\<lambda>R. wr rs1 (sim_sextb (R rs1)) R)"
  unfolding c_sextb_def
  by (rule computes_Emit16) (simp_all add: c_simps)

lemma computes_c_zexth:
  "IsCRs1p rs1 \<Longrightarrow> computes a (c_zexth rd rs1 a) (\<lambda>R. wr rs1 (sim_zexth (R rs1)) R)"
  unfolding c_zexth_def
  by (rule computes_Emit16) (simp_all add: c_simps)

lemma computes_c_sexth:
  "IsCRs1p rs1 \<Longrightarrow> computes a (c_sexth rd rs1 a) (\<lambda>R. wr rs1 (sim_sexth (R rs1)) R)"
  unfolding c_sexth_def
  by (rule computes_Emit16) (simp_all add: c_simps)

lemma computes_c_zextw:
  "IsCRs1p rs1 \<Longrightarrow> computes a (c_zextw rd rs1 a) (\<lambda>R. wr rs1 (sim_zextw (R rs1)) R)"
  unfolding c_zextw_def
  by (rule computes_Emit16) (simp_all add: c_simps)

lemma computes_c_not:
  "IsCRs1p rs1 \<Longrightarrow> computes a (c_not rd rs1 a) (\<lambda>R. wr rs1 (NOT (R rs1)) R)"
  unfolding c_not_def
  by (rule computes_Emit16) (simp_all add: c_simps)

lemma computes_c_nop: "computes a (c_nop a) (\<lambda>R. R)"
  unfolding c_nop_def
  by (rule computes_Emit16)
    (simp_all add: IsCInstruction_def CInstr_defs interpret_c_defs set_c_wr DecodeCRd_def)

section \<open>Contracts of the instructions\<close>

text \<open>What the macro instructions rely on: an instruction with two register operands, with one, or
  with a register and an immediate, writes a function of the operands to \<open>rd\<close>, in whichever way the
  operands coincide and whichever encoding is chosen.\<close>

locale binary_instruction =
  fixes emit :: "Register \<Rightarrow> Register \<Rightarrow> Register \<Rightarrow> 'z asm"
    and f :: "u64 \<Rightarrow> u64 \<Rightarrow> u64"
  assumes correct: "computes a (emit rd rs1 rs2 a) (\<lambda>R. wr rd (f (R rs1) (R rs2)) R)"
begin

lemma discard: "computes a (emit ZR rs1 rs2 a) (\<lambda>R. R)"
  using correct [of a ZR rs1 rs2] by simp

lemma seq:
  assumes "computes a b g" "\<And>R. R ZR = 0 \<Longrightarrow> g R ZR = 0"
  shows "computes a (emit rd rs1 rs2 b) (\<lambda>R. wr rd (f (g R rs1) (g R rs2)) (g R))"
  using computes_trans [OF assms(1) correct assms(2)] by simp

end

locale unary_instruction =
  fixes emit :: "Register \<Rightarrow> Register \<Rightarrow> 'z asm"
    and f :: "u64 \<Rightarrow> u64"
  assumes correct: "computes a (emit rd rs1 a) (\<lambda>R. wr rd (f (R rs1)) R)"
begin

lemma seq:
  assumes "computes a b g" "\<And>R. R ZR = 0 \<Longrightarrow> g R ZR = 0"
  shows "computes a (emit rd rs1 b) (\<lambda>R. wr rd (f (g R rs1)) (g R))"
  using computes_trans [OF assms(1) correct assms(2)] by simp

end

locale immediate_instruction =
  fixes emit :: "Register \<Rightarrow> Register \<Rightarrow> intx \<Rightarrow> 'z asm"
    and f :: "u64 \<Rightarrow> intx \<Rightarrow> u64"
    and valid :: "intx \<Rightarrow> bool"
  assumes correct: "valid imm \<Longrightarrow> computes a (emit rd rs1 imm a) (\<lambda>R. wr rd (f (R rs1) imm) R)"
begin

lemma seq:
  assumes "computes a b g" "\<And>R. R ZR = 0 \<Longrightarrow> g R ZR = 0" "valid imm"
  shows "computes a (emit rd rs1 imm b) (\<lambda>R. wr rd (f (g R rs1) imm) (g R))"
  using computes_trans [OF assms(1) correct [OF assms(3)] assms(2)] by simp

end

section \<open>Register-register instructions\<close>

interpretation add_i: binary_instruction add "\<lambda>x y. x + y"
proof
  fix a rd rs1 rs2
  have "computes a (EmitRType F7_0 rs2 rs1 ADD rd OP a) (\<lambda>R. wr rd (R rs1 + R rs2) R)"
    by (rule computes_RType) (simp_all add: rv_consts interpret_op_defs)
  then show "computes a (add rd rs1 rs2 a) (\<lambda>R. wr rd (R rs1 + R rs2) R)"
    using computes_c_add [of rs2 a rs1 rs1] computes_c_add [of rs1 a rs2 rs2]
    by (simp add: add_def ac_simps)
qed

interpretation sub_i: binary_instruction sub "\<lambda>x y. x - y"
proof
  fix a rd rs1 rs2
  have "computes a (EmitRType SUB rs2 rs1 ADD rd OP a) (\<lambda>R. wr rd ((\<lambda>x y. x - y) (R rs1) (R rs2)) R)"
    by (rule computes_RType) (simp_all add: rv_consts interpret_op_defs)
  then show "computes a (sub rd rs1 rs2 a) (\<lambda>R. wr rd ((\<lambda>x y. x - y) (R rs1) (R rs2)) R)"
    using computes_c_sub [of rs1 rs2 a rs1]
    by (simp add: sub_def)
qed

interpretation xor_r_i: binary_instruction xor_r "\<lambda>x y. x XOR y"
proof
  fix a rd rs1 rs2
  have "computes a (EmitRType F7_0 rs2 rs1 F3_XOR rd OP a) (\<lambda>R. wr rd ((\<lambda>x y. x XOR y) (R rs1) (R rs2)) R)"
    by (rule computes_RType) (simp_all add: rv_consts interpret_op_defs)
  then show "computes a (xor_r rd rs1 rs2 a) (\<lambda>R. wr rd ((\<lambda>x y. x XOR y) (R rs1) (R rs2)) R)"
    using computes_c_xor [of rs1 rs2 a rs1] computes_c_xor [of rs2 rs1 a rs2]
    by (simp add: xor_r_def ac_simps IsCRs1p_def IsCRs2p_def)
qed

interpretation or_r_i: binary_instruction or_r "\<lambda>x y. x OR y"
proof
  fix a rd rs1 rs2
  have "computes a (EmitRType F7_0 rs2 rs1 F3_OR rd OP a) (\<lambda>R. wr rd ((\<lambda>x y. x OR y) (R rs1) (R rs2)) R)"
    by (rule computes_RType) (simp_all add: rv_consts interpret_op_defs)
  then show "computes a (or_r rd rs1 rs2 a) (\<lambda>R. wr rd ((\<lambda>x y. x OR y) (R rs1) (R rs2)) R)"
    using computes_c_or [of rs1 rs2 a rs1] computes_c_or [of rs2 rs1 a rs2]
    by (simp add: or_r_def ac_simps IsCRs1p_def IsCRs2p_def)
qed

interpretation and_r_i: binary_instruction and_r "\<lambda>x y. x AND y"
proof
  fix a rd rs1 rs2
  have "computes a (EmitRType F7_0 rs2 rs1 F3_AND rd OP a) (\<lambda>R. wr rd ((\<lambda>x y. x AND y) (R rs1) (R rs2)) R)"
    by (rule computes_RType) (simp_all add: rv_consts interpret_op_defs)
  then show "computes a (and_r rd rs1 rs2 a) (\<lambda>R. wr rd ((\<lambda>x y. x AND y) (R rs1) (R rs2)) R)"
    using computes_c_and [of rs1 rs2 a rs1] computes_c_and [of rs2 rs1 a rs2]
    by (simp add: and_r_def ac_simps IsCRs1p_def IsCRs2p_def)
qed

interpretation addw_i: binary_instruction addw "\<lambda>x y. sign_extend (ucast x + ucast y)"
proof
  fix a rd rs1 rs2
  have "computes a (EmitRType F7_0 rs2 rs1 ADD rd OP32 a) (\<lambda>R. wr rd ((\<lambda>x y. sign_extend (ucast x + ucast y)) (R rs1) (R rs2)) R)"
    by (rule computes_RType) (simp_all add: rv_consts interpret_op_defs)
  then show "computes a (addw rd rs1 rs2 a) (\<lambda>R. wr rd ((\<lambda>x y. sign_extend (ucast x + ucast y)) (R rs1) (R rs2)) R)"
    using computes_c_addw [of rs1 rs2 a rs1] computes_c_addw [of rs2 rs1 a rs2]
    by (simp add: addw_def ac_simps IsCRs1p_def IsCRs2p_def)
qed

interpretation subw_i: binary_instruction subw "\<lambda>x y. sign_extend (ucast x - ucast y)"
proof
  fix a rd rs1 rs2
  have "computes a (EmitRType SUB rs2 rs1 ADD rd OP32 a) (\<lambda>R. wr rd ((\<lambda>x y. sign_extend (ucast x - ucast y)) (R rs1) (R rs2)) R)"
    by (rule computes_RType) (simp_all add: rv_consts interpret_op_defs)
  then show "computes a (subw rd rs1 rs2 a) (\<lambda>R. wr rd ((\<lambda>x y. sign_extend (ucast x - ucast y)) (R rs1) (R rs2)) R)"
    using computes_c_subw [of rs1 rs2 a rs1]
    by (simp add: subw_def)
qed

interpretation mul_i: binary_instruction mul "sim_mul"
proof
  fix a rd rs1 rs2
  have "computes a (EmitRType MULDIV rs2 rs1 MUL rd OP a) (\<lambda>R. wr rd ((sim_mul) (R rs1) (R rs2)) R)"
    by (rule computes_RType) (simp_all add: rv_consts interpret_op_defs)
  then show "computes a (mul rd rs1 rs2 a) (\<lambda>R. wr rd ((sim_mul) (R rs1) (R rs2)) R)"
    using computes_c_mul [of rs1 rs2 a rs1] computes_c_mul [of rs2 rs1 a rs2]
    by (simp add: mul_def ac_simps sim_mul_def IsCRs1p_def IsCRs2p_def)
qed

interpretation sll_i: binary_instruction sll "\<lambda>x y. push_bit (unat (y AND 63)) x"
  unfolding sll_def
  by (unfold_locales, rule computes_RType) (simp_all add: rv_consts interpret_op_defs)

interpretation srl_i: binary_instruction srl "\<lambda>x y. drop_bit (unat (y AND 63)) x"
  unfolding srl_def
  by (unfold_locales, rule computes_RType) (simp_all add: rv_consts interpret_op_defs)

interpretation sra_i: binary_instruction sra "\<lambda>x y. signed_drop_bit (unat (y AND 63)) x"
  unfolding sra_def
  by (unfold_locales, rule computes_RType) (simp_all add: rv_consts interpret_op_defs)

interpretation slt_i: binary_instruction slt "\<lambda>x y. if sint x < sint y then 1 else 0"
  unfolding slt_def
  by (unfold_locales, rule computes_RType) (simp_all add: rv_consts interpret_op_defs)

interpretation sltu_i: binary_instruction sltu "\<lambda>x y. if x < y then 1 else 0"
  unfolding sltu_def
  by (unfold_locales, rule computes_RType) (simp_all add: rv_consts interpret_op_defs)

interpretation sllw_i: binary_instruction sllw "\<lambda>x y. sign_extend (push_bit (unat (y AND 31)) (ucast x))"
  unfolding sllw_def
  by (unfold_locales, rule computes_RType) (simp_all add: rv_consts interpret_op_defs)

interpretation srlw_i: binary_instruction srlw "\<lambda>x y. sign_extend (drop_bit (unat (y AND 31)) (ucast x))"
  unfolding srlw_def
  by (unfold_locales, rule computes_RType) (simp_all add: rv_consts interpret_op_defs)

interpretation sraw_i: binary_instruction sraw "\<lambda>x y. sign_extend (signed_drop_bit (unat (y AND 31)) (ucast x))"
  unfolding sraw_def
  by (unfold_locales, rule computes_RType) (simp_all add: rv_consts interpret_op_defs)

interpretation mulh_i: binary_instruction mulh "sim_mulh"
  unfolding mulh_def
  by (unfold_locales, rule computes_RType) (simp_all add: rv_consts interpret_op_defs)

interpretation mulhsu_i: binary_instruction mulhsu "sim_mulhsu"
  unfolding mulhsu_def
  by (unfold_locales, rule computes_RType) (simp_all add: rv_consts interpret_op_defs)

interpretation mulhu_i: binary_instruction mulhu "sim_mulhu"
  unfolding mulhu_def
  by (unfold_locales, rule computes_RType) (simp_all add: rv_consts interpret_op_defs)

interpretation div_r_i: binary_instruction div_r "sim_div"
  unfolding div_r_def
  by (unfold_locales, rule computes_RType) (simp_all add: rv_consts interpret_op_defs)

interpretation divu_i: binary_instruction divu "sim_divu"
  unfolding divu_def
  by (unfold_locales, rule computes_RType) (simp_all add: rv_consts interpret_op_defs)

interpretation rem_r_i: binary_instruction rem_r "sim_rem"
  unfolding rem_r_def
  by (unfold_locales, rule computes_RType) (simp_all add: rv_consts interpret_op_defs)

interpretation remu_i: binary_instruction remu "sim_remu"
  unfolding remu_def
  by (unfold_locales, rule computes_RType) (simp_all add: rv_consts interpret_op_defs)

interpretation max_r_i: binary_instruction max_r "sim_max"
  unfolding max_r_def
  by (unfold_locales, rule computes_RType) (simp_all add: rv_consts interpret_op_defs)

interpretation maxu_i: binary_instruction maxu "sim_maxu"
  unfolding maxu_def
  by (unfold_locales, rule computes_RType) (simp_all add: rv_consts interpret_op_defs)

interpretation min_r_i: binary_instruction min_r "sim_min"
  unfolding min_r_def
  by (unfold_locales, rule computes_RType) (simp_all add: rv_consts interpret_op_defs)

interpretation minu_i: binary_instruction minu "sim_minu"
  unfolding minu_def
  by (unfold_locales, rule computes_RType) (simp_all add: rv_consts interpret_op_defs)

interpretation rol_i: binary_instruction rol "sim_rol"
  unfolding rol_def
  by (unfold_locales, rule computes_RType) (simp_all add: rv_consts interpret_op_defs)

interpretation rolw_i: binary_instruction rolw "sim_rolw"
  unfolding rolw_def
  by (unfold_locales, rule computes_RType) (simp_all add: rv_consts interpret_op_defs)

interpretation ror_i: binary_instruction ror "sim_ror"
  unfolding ror_def
  by (unfold_locales, rule computes_RType) (simp_all add: rv_consts interpret_op_defs)

interpretation rorw_i: binary_instruction rorw "sim_rorw"
  unfolding rorw_def
  by (unfold_locales, rule computes_RType) (simp_all add: rv_consts interpret_op_defs)

interpretation clmul_i: binary_instruction clmul "sim_clmul"
  unfolding clmul_def
  by (unfold_locales, rule computes_RType) (simp_all add: rv_consts interpret_op_defs)

interpretation clmulh_i: binary_instruction clmulh "sim_clmulh"
  unfolding clmulh_def
  by (unfold_locales, rule computes_RType) (simp_all add: rv_consts interpret_op_defs)

interpretation clmulr_i: binary_instruction clmulr "sim_clmulr"
  unfolding clmulr_def
  by (unfold_locales, rule computes_RType) (simp_all add: rv_consts interpret_op_defs)

interpretation bclr_i: binary_instruction bclr "sim_bclr"
  unfolding bclr_def
  by (unfold_locales, rule computes_RType) (simp_all add: rv_consts interpret_op_defs)

interpretation bext_i: binary_instruction bext "sim_bext"
  unfolding bext_def
  by (unfold_locales, rule computes_RType) (simp_all add: rv_consts interpret_op_defs)

interpretation binv_i: binary_instruction binv "sim_binv"
  unfolding binv_def
  by (unfold_locales, rule computes_RType) (simp_all add: rv_consts interpret_op_defs)

interpretation bset_i: binary_instruction bset "sim_bset"
  unfolding bset_def
  by (unfold_locales, rule computes_RType) (simp_all add: rv_consts interpret_op_defs)

interpretation mulw_i: binary_instruction mulw "\<lambda>x y. sign_extend (sim_mulw (ucast x) (ucast y))"
  unfolding mulw_def
  by (unfold_locales, rule computes_RType) (simp_all add: rv_consts interpret_op_defs)

interpretation divw_i: binary_instruction divw "\<lambda>x y. sign_extend (sim_divw (ucast x) (ucast y))"
  unfolding divw_def
  by (unfold_locales, rule computes_RType) (simp_all add: rv_consts interpret_op_defs)

interpretation divuw_i: binary_instruction divuw "\<lambda>x y. sign_extend (sim_divuw (ucast x) (ucast y))"
  unfolding divuw_def
  by (unfold_locales, rule computes_RType) (simp_all add: rv_consts interpret_op_defs)

interpretation remw_i: binary_instruction remw "\<lambda>x y. sign_extend (sim_remw (ucast x) (ucast y))"
  unfolding remw_def
  by (unfold_locales, rule computes_RType) (simp_all add: rv_consts interpret_op_defs)

interpretation remuw_i: binary_instruction remuw "\<lambda>x y. sign_extend (sim_remuw (ucast x) (ucast y))"
  unfolding remuw_def
  by (unfold_locales, rule computes_RType) (simp_all add: rv_consts interpret_op_defs)

interpretation sh1add_i: binary_instruction sh1add "\<lambda>x y. push_bit 1 x + y"
  unfolding sh1add_def
  by (unfold_locales, rule computes_RType) (simp_all add: rv_consts interpret_op_defs)

interpretation sh1adduw_i: binary_instruction sh1adduw "\<lambda>x y. push_bit 1 (ucast (ucast x :: u32)) + y"
  unfolding sh1adduw_def
  by (unfold_locales, rule computes_RType) (simp_all add: rv_consts interpret_op_defs)

interpretation sh2add_i: binary_instruction sh2add "\<lambda>x y. push_bit 2 x + y"
  unfolding sh2add_def
  by (unfold_locales, rule computes_RType) (simp_all add: rv_consts interpret_op_defs)

interpretation sh2adduw_i: binary_instruction sh2adduw "\<lambda>x y. push_bit 2 (ucast (ucast x :: u32)) + y"
  unfolding sh2adduw_def
  by (unfold_locales, rule computes_RType) (simp_all add: rv_consts interpret_op_defs)

interpretation sh3add_i: binary_instruction sh3add "\<lambda>x y. push_bit 3 x + y"
  unfolding sh3add_def
  by (unfold_locales, rule computes_RType) (simp_all add: rv_consts interpret_op_defs)

interpretation sh3adduw_i: binary_instruction sh3adduw "\<lambda>x y. push_bit 3 (ucast (ucast x :: u32)) + y"
  unfolding sh3adduw_def
  by (unfold_locales, rule computes_RType) (simp_all add: rv_consts interpret_op_defs)

interpretation andn_i: binary_instruction andn "\<lambda>x y. x AND NOT y"
  unfolding andn_def
  by (unfold_locales, rule computes_RType) (simp_all add: rv_consts interpret_op_defs)

interpretation orn_i: binary_instruction orn "\<lambda>x y. x OR NOT y"
  unfolding orn_def
  by (unfold_locales, rule computes_RType) (simp_all add: rv_consts interpret_op_defs)

interpretation xnor_i: binary_instruction xnor "\<lambda>x y. x XOR NOT y"
  unfolding xnor_def
  by (unfold_locales, rule computes_RType) (simp_all add: rv_consts interpret_op_defs)

interpretation czeroeqz_i: binary_instruction czeroeqz "\<lambda>x y. if y = 0 then 0 else x"
  unfolding czeroeqz_def
  by (unfold_locales, rule computes_RType) (simp_all add: rv_consts interpret_op_defs)

interpretation czeronez_i: binary_instruction czeronez "\<lambda>x y. if y \<noteq> 0 then 0 else x"
  unfolding czeronez_def
  by (unfold_locales, rule computes_RType) (simp_all add: rv_consts interpret_op_defs)
section \<open>Instructions with one register operand or an immediate\<close>

lemma shamt_take_bit:
  assumes "unat (x :: u64) < 2 ^ k" "k \<le> 32"
  shows "unat (ucast x :: u32) = unat x" "ucast (ucast x :: u32) = x"
    "take_bit k (ucast x :: u32) = ucast x"
proof -
  have t: "take_bit k x = x"
    using assms(1) by (simp add: word_unat_eq_iff unsigned_take_bit_eq take_bit_nat_eq_self_iff)
  have b: "bit x i \<Longrightarrow> i < k" for i
    using t by (metis bit_take_bit_iff)
  show "take_bit k (ucast x :: u32) = ucast x"
    by (rule bit_word_eqI) (auto simp: bit_simps dest: b)
  show e: "ucast (ucast x :: u32) = x"
    by (rule bit_word_eqI) (use assms(2) in \<open>auto simp: bit_simps dest: b\<close>)
  have "unat (ucast x :: u32) = unat (ucast (ucast x :: u32) :: u64)" by (simp add: unsigned_ucast_eq unsigned_take_bit_eq)
  then show "unat (ucast x :: u32) = unat x" by (simp only: e)
qed

lemma shamt_64:
  assumes "unat (shamt :: u64) < 64"
  shows "unat (ucast shamt :: u32) = unat shamt" "ucast (ucast shamt :: u32) = shamt"
    "IsShamt (ucast shamt)"
  using shamt_take_bit [of shamt 6] assms unfolding Is_field_take_bit by simp_all

lemma shamt_32:
  assumes "unat (shamt :: u64) < 32"
  shows "unat (ucast shamt :: u32) = unat shamt" "ucast (ucast shamt :: u32) = shamt"
    "take_bit 5 (ucast shamt :: u32) = ucast shamt"
  using shamt_take_bit [of shamt 5] assms by simp_all

lemma computes_OPIMM:
  assumes "IsITypeImm imm" "IsFunct3 f3"
    and "\<And>instr s. Instr_funct3 instr = f3 \<Longrightarrow>
      InterpretOPIMM instr s = set_rd instr s (f (xregs_m s (Instr_rs1 instr)) (Instr_itype_imm instr))"
  shows "computes a (EmitIType imm rs1 f3 rd OPIMM a) (\<lambda>R. wr rd (f (R rs1) imm) R)"
  by (rule computes_IType [where f = f]) (simp_all add: assms IsOpcode_def Interpret_def)

lemma computes_OPIMM_shamt:
  assumes "unat shamt < 64" "IsFunct3 f3" "IsFunct7 f7" "\<not> bit f7 0"
    and "\<And>instr s. Instr_funct3 instr = f3 \<Longrightarrow> Instr_funct7 instr AND 126 = f7 \<Longrightarrow>
      (\<And>c. c AND 126 \<noteq> f7 \<Longrightarrow> Instr_funct7 instr \<noteq> c) \<Longrightarrow>
      InterpretOPIMM instr s = set_rd instr s (f (xregs_m s (Instr_rs1 instr)) (Instr_shamt instr))"
  shows "computes a (EmitRType_shamt f7 shamt rs1 f3 rd OPIMM a)
    (\<lambda>R. wr rd (f (R rs1) (ucast shamt)) R)"
proof (rule computes_RType_shamt [where f = f])
  fix h instr s
  assume "Instr_opcode instr = OPIMM" "Instr_funct3 instr = f3" "Instr_funct7 instr AND 126 = f7"
  then show "Interpret h instr s =
      set_rd instr s (f (xregs_m s (Instr_rs1 instr)) (Instr_shamt instr))"
    using assms(5) [of instr s] by (auto simp: Interpret_def)
qed (use assms in \<open>simp_all add: IsOpcode_def shamt_64\<close>)

lemmas interpret_imm_defs =
  Interpret_def Let_def get_xreg_def InterpretOPIMM_def InterpretOPIMM32_def
  InterpretOP32_def InterpretOP32_ADDUW_def

interpretation clz_i: unary_instruction clz "sim_clz"
  unfolding clz_def
  by (unfold_locales, rule computes_RType_shamt5) (simp_all add: rv_consts interpret_imm_defs)

interpretation ctz_i: unary_instruction ctz "sim_ctz"
  unfolding ctz_def
  by (unfold_locales, rule computes_RType_shamt5) (simp_all add: rv_consts interpret_imm_defs)

interpretation cpop_i: unary_instruction cpop "sim_cpop"
  unfolding cpop_def
  by (unfold_locales, rule computes_RType_shamt5) (simp_all add: rv_consts interpret_imm_defs)

interpretation orcb_i: unary_instruction orcb "sim_orcb"
  unfolding orcb_def
  by (unfold_locales, rule computes_RType_shamt5) (simp_all add: rv_consts interpret_imm_defs)

interpretation rev8_i: unary_instruction rev8 "sim_rev8"
  unfolding rev8_def
  by (unfold_locales, rule computes_RType_shamt5) (simp_all add: rv_consts interpret_imm_defs)

interpretation clzw_i: unary_instruction clzw "\<lambda>x. sim_clzw (ucast x)"
  unfolding clzw_def
  by (unfold_locales, rule computes_RType_shamt5) (simp_all add: rv_consts interpret_imm_defs)

interpretation ctzw_i: unary_instruction ctzw "\<lambda>x. sim_ctzw (ucast x)"
  unfolding ctzw_def
  by (unfold_locales, rule computes_RType_shamt5) (simp_all add: rv_consts interpret_imm_defs)

interpretation cpopw_i: unary_instruction cpopw "\<lambda>x. sim_cpopw (ucast x)"
  unfolding cpopw_def
  by (unfold_locales, rule computes_RType_shamt5) (simp_all add: rv_consts interpret_imm_defs)

interpretation sextb_i: unary_instruction sextb sim_sextb
proof
  fix a rd rs1
  have "computes a (EmitRType_shamt 0b0110000 0b00100 rs1 SEXT rd OPIMM a) (\<lambda>R. wr rd (sim_sextb (R rs1)) R)"
    by (rule computes_RType_shamt5) (simp_all add: rv_consts interpret_imm_defs)
  then show "computes a (sextb rd rs1 a) (\<lambda>R. wr rd (sim_sextb (R rs1)) R)"
    using computes_c_sextb [of rs1 a rs1] by (simp add: sextb_def)
qed

interpretation sexth_i: unary_instruction sexth sim_sexth
proof
  fix a rd rs1
  have "computes a (EmitRType_shamt 0b0110000 0b00101 rs1 SEXT rd OPIMM a) (\<lambda>R. wr rd (sim_sexth (R rs1)) R)"
    by (rule computes_RType_shamt5) (simp_all add: rv_consts interpret_imm_defs)
  then show "computes a (sexth rd rs1 a) (\<lambda>R. wr rd (sim_sexth (R rs1)) R)"
    using computes_c_sexth [of rs1 a rs1] by (simp add: sexth_def)
qed

interpretation zexth_i: unary_instruction zexth sim_zexth
proof
  fix a rd rs1
  have "computes a (EmitRType_shamt 0b0000100 0b00000 rs1 ZEXT rd OP32 a) (\<lambda>R. wr rd (sim_zexth (R rs1)) R)"
    by (rule computes_RType_shamt5) (simp_all add: rv_consts interpret_imm_defs)
  then show "computes a (zexth rd rs1 a) (\<lambda>R. wr rd (sim_zexth (R rs1)) R)"
    using computes_c_zexth [of rs1 a rs1] by (simp add: zexth_def)
qed

interpretation slti_i: immediate_instruction slti "\<lambda>x i. if sint x < sint i then 1 else 0" IsITypeImm
  unfolding slti_def
  by (unfold_locales, rule computes_OPIMM [where f = "\<lambda>x i. if sint x < sint i then 1 else 0"])
    (simp_all add: Is_field_defs InterpretOPIMM_def Let_def get_xreg_def)

interpretation sltiu_i: immediate_instruction sltiu "\<lambda>x i. if x < i then 1 else 0" IsITypeImm
  unfolding sltiu_def
  by (unfold_locales, rule computes_OPIMM [where f = "\<lambda>x i. if x < i then 1 else 0"])
    (simp_all add: Is_field_defs InterpretOPIMM_def Let_def get_xreg_def)

interpretation ori_i: immediate_instruction ori "\<lambda>x i. x OR i" IsITypeImm
  unfolding ori_def
  by (unfold_locales, rule computes_OPIMM [where f = "\<lambda>x i. x OR i"])
    (simp_all add: Is_field_defs InterpretOPIMM_def Let_def get_xreg_def)

interpretation rori_i: immediate_instruction rori "\<lambda>x i. sim_ror x i" "\<lambda>i. unat i < 64"
proof
  fix imm :: intx and a rd rs1
  assume v: "unat imm < 64"
  have "computes a (rori rd rs1 imm a) (\<lambda>R. wr rd ((\<lambda>x i. sim_ror x (ucast i)) (R rs1) (ucast imm :: u32)) R)"
    unfolding rori_def
    by (rule computes_OPIMM_shamt)
      (simp_all add: v Is_field_defs InterpretOPIMM_def Let_def get_xreg_def)
  then show "computes a (rori rd rs1 imm a) (\<lambda>R. wr rd ((\<lambda>x i. sim_ror x i) (R rs1) imm) R)"
    using v by (simp add: shamt_64)
qed

interpretation bclri_i: immediate_instruction bclri "\<lambda>x i. sim_bclr x i" "\<lambda>i. unat i < 64"
proof
  fix imm :: intx and a rd rs1
  assume v: "unat imm < 64"
  have "computes a (bclri rd rs1 imm a) (\<lambda>R. wr rd ((\<lambda>x i. sim_bclr x (ucast i)) (R rs1) (ucast imm :: u32)) R)"
    unfolding bclri_def
    by (rule computes_OPIMM_shamt)
      (simp_all add: v Is_field_defs InterpretOPIMM_def Let_def get_xreg_def)
  then show "computes a (bclri rd rs1 imm a) (\<lambda>R. wr rd ((\<lambda>x i. sim_bclr x i) (R rs1) imm) R)"
    using v by (simp add: shamt_64)
qed

interpretation bexti_i: immediate_instruction bexti "\<lambda>x i. sim_bext x i" "\<lambda>i. unat i < 64"
proof
  fix imm :: intx and a rd rs1
  assume v: "unat imm < 64"
  have "computes a (bexti rd rs1 imm a) (\<lambda>R. wr rd ((\<lambda>x i. sim_bext x (ucast i)) (R rs1) (ucast imm :: u32)) R)"
    unfolding bexti_def
    by (rule computes_OPIMM_shamt)
      (simp_all add: v Is_field_defs InterpretOPIMM_def Let_def get_xreg_def)
  then show "computes a (bexti rd rs1 imm a) (\<lambda>R. wr rd ((\<lambda>x i. sim_bext x i) (R rs1) imm) R)"
    using v by (simp add: shamt_64)
qed

interpretation binvi_i: immediate_instruction binvi "\<lambda>x i. sim_binv x i" "\<lambda>i. unat i < 64"
proof
  fix imm :: intx and a rd rs1
  assume v: "unat imm < 64"
  have "computes a (binvi rd rs1 imm a) (\<lambda>R. wr rd ((\<lambda>x i. sim_binv x (ucast i)) (R rs1) (ucast imm :: u32)) R)"
    unfolding binvi_def
    by (rule computes_OPIMM_shamt)
      (simp_all add: v Is_field_defs InterpretOPIMM_def Let_def get_xreg_def)
  then show "computes a (binvi rd rs1 imm a) (\<lambda>R. wr rd ((\<lambda>x i. sim_binv x i) (R rs1) imm) R)"
    using v by (simp add: shamt_64)
qed

interpretation bseti_i: immediate_instruction bseti "\<lambda>x i. sim_bset x i" "\<lambda>i. unat i < 64"
proof
  fix imm :: intx and a rd rs1
  assume v: "unat imm < 64"
  have "computes a (bseti rd rs1 imm a) (\<lambda>R. wr rd ((\<lambda>x i. sim_bset x (ucast i)) (R rs1) (ucast imm :: u32)) R)"
    unfolding bseti_def
    by (rule computes_OPIMM_shamt)
      (simp_all add: v Is_field_defs InterpretOPIMM_def Let_def get_xreg_def)
  then show "computes a (bseti rd rs1 imm a) (\<lambda>R. wr rd ((\<lambda>x i. sim_bset x i) (R rs1) imm) R)"
    using v by (simp add: shamt_64)
qed

interpretation slliw_i: immediate_instruction slliw "\<lambda>x i. sign_extend (push_bit (unat i) (ucast x))" "\<lambda>i. unat i < 32"
  unfolding slliw_def
  by (unfold_locales, rule computes_RType_shamt5)
    (simp_all add: rv_consts interpret_imm_defs shamt_32)

interpretation srliw_i: immediate_instruction srliw "\<lambda>x i. sign_extend (drop_bit (unat i) (ucast x))" "\<lambda>i. unat i < 32"
  unfolding srliw_def
  by (unfold_locales, rule computes_RType_shamt5)
    (simp_all add: rv_consts interpret_imm_defs shamt_32)

interpretation sraiw_i: immediate_instruction sraiw "\<lambda>x i. sign_extend (signed_drop_bit (unat i) (ucast x))" "\<lambda>i. unat i < 32"
  unfolding sraiw_def
  by (unfold_locales, rule computes_RType_shamt5)
    (simp_all add: rv_consts interpret_imm_defs shamt_32)

interpretation roriw_i: immediate_instruction roriw "\<lambda>x i. sim_rorw x i" "\<lambda>i. unat i < 32"
  unfolding roriw_def
  by (unfold_locales, rule computes_RType_shamt5)
    (simp_all add: rv_consts interpret_imm_defs shamt_32)

interpretation slliuw_i: immediate_instruction slliuw "\<lambda>x i. push_bit (unat i) (ucast (ucast x :: u32))" "\<lambda>i. unat i < 32"
  unfolding slliuw_def
  by (unfold_locales, rule computes_RType_shamt5)
    (simp_all add: rv_consts interpret_imm_defs shamt_32)

interpretation slli_i: immediate_instruction slli "\<lambda>x i. push_bit (unat i) x" "\<lambda>i. unat i < 64"
proof
  fix imm :: intx and a rd rs1
  assume v: "unat imm < 64"
  have "computes a (EmitRType_shamt F7_0 imm rs1 SLLI rd OPIMM a) (\<lambda>R. wr rd (push_bit (unat (ucast imm :: u32)) (R rs1)) R)"
    by (rule computes_OPIMM_shamt [where f = "\<lambda>x i. push_bit (unat i) x"])
      (simp_all add: v Is_field_defs InterpretOPIMM_def Let_def get_xreg_def)
  then show "computes a (slli rd rs1 imm a) (\<lambda>R. wr rd (push_bit (unat imm) (R rs1)) R)"
    using computes_c_slli [of rs1 imm a rs1] v by (auto simp: slli_def shamt_64)
qed

interpretation srli_i: immediate_instruction srli "\<lambda>x i. drop_bit (unat i) x" "\<lambda>i. unat i < 64"
proof
  fix imm :: intx and a rd rs1
  assume v: "unat imm < 64"
  have "computes a (EmitRType_shamt F7_0 imm rs1 SRI rd OPIMM a) (\<lambda>R. wr rd (drop_bit (unat (ucast imm :: u32)) (R rs1)) R)"
    by (rule computes_OPIMM_shamt [where f = "\<lambda>x i. drop_bit (unat i) x"])
      (simp_all add: v Is_field_defs InterpretOPIMM_def Let_def get_xreg_def)
  then show "computes a (srli rd rs1 imm a) (\<lambda>R. wr rd (drop_bit (unat imm) (R rs1)) R)"
    using computes_c_srli [of rs1 imm a rs1] v by (auto simp: srli_def shamt_64)
qed

interpretation srai_i: immediate_instruction srai "\<lambda>x i. signed_drop_bit (unat i) x" "\<lambda>i. unat i < 64"
proof
  fix imm :: intx and a rd rs1
  assume v: "unat imm < 64"
  have "computes a (EmitRType_shamt SRA imm rs1 SRI rd OPIMM a) (\<lambda>R. wr rd (signed_drop_bit (unat (ucast imm :: u32)) (R rs1)) R)"
    by (rule computes_OPIMM_shamt [where f = "\<lambda>x i. signed_drop_bit (unat i) x"])
      (simp_all add: v Is_field_defs InterpretOPIMM_def Let_def get_xreg_def)
  then show "computes a (srai rd rs1 imm a) (\<lambda>R. wr rd (signed_drop_bit (unat imm) (R rs1)) R)"
    using computes_c_srai [of rs1 imm a rs1] v by (auto simp: srai_def shamt_64)
qed

text \<open>The instructions with several compressed forms.\<close>

interpretation addi_i: immediate_instruction addi "\<lambda>x i. x + i" IsITypeImm
proof
  fix imm :: intx and a rd rs1
  assume v: "IsITypeImm imm"
  have full: "computes a (EmitIType imm rs1 ADDI rd OPIMM a) (\<lambda>R. wr rd (R rs1 + imm) R)"
    by (rule computes_OPIMM [where f = "\<lambda>x i. x + i"])
      (simp_all add: v Is_field_defs InterpretOPIMM_def Let_def get_xreg_def)
  have li: "computes a (c_li rd imm a) (\<lambda>R. wr rd (R ZR + imm) R)" if "rd \<noteq> ZR" "IsCIImm imm"
    by (rule computes_cong [OF computes_c_li [OF that]]) simp
  have mv: "computes a (c_mv rd rs1 a) (\<lambda>R. wr rd (R rs1 + 0) R)" if "rd \<noteq> ZR" "rs1 \<noteq> ZR"
    using computes_c_mv [OF that] by simp
  show "computes a (addi rd rs1 imm a) (\<lambda>R. wr rd (R rs1 + imm) R)"
    using full li mv computes_c_addi [of imm a rd rs1] computes_c_addi16sp [of imm a rs1]
      computes_c_addi4spn [of rd imm a rs1] computes_c_nop [of a]
    unfolding addi_def by auto
qed

lemma sign_extend_ucast: "sign_extend (ucast (x :: u64)) = signed_take_bit 31 x"
  unfolding sign_extend_def by (rule bit_word_eqI) (auto simp: bit_simps min_def)

lemma sim_zextb_and: "sim_zextb x = x AND 0xFF"
  by (simp add: sim_extend_eq and_numeral_take_bit)

lemma CIImm_32:
  assumes "IsCIImm imm"
  shows "sign_extend (ucast imm) = imm"
proof -
  have "signed_take_bit 5 imm = imm" using assms by (simp add: IsCIImm_def IsInt_signed_take_bit)
  then have "signed_take_bit 31 imm = signed_take_bit 31 (signed_take_bit 5 imm)" by simp
  also have "\<dots> = signed_take_bit 5 imm" by (simp add: signed_take_bit_signed_take_bit)
  also have "\<dots> = imm" by fact
  finally show ?thesis by (simp add: sign_extend_ucast)
qed

interpretation addiw_i: immediate_instruction addiw "\<lambda>x i. sign_extend (ucast x + ucast i)" IsITypeImm
proof
  fix imm :: intx and a rd rs1
  assume v: "IsITypeImm imm"
  have full: "computes a (EmitIType imm rs1 ADDI rd OPIMM32 a)
      (\<lambda>R. wr rd (sign_extend (ucast (R rs1) + ucast imm)) R)"
    by (rule computes_IType [where f = "\<lambda>x i. sign_extend (ucast x + ucast i)"])
      (simp_all add: v Is_field_defs Interpret_def InterpretOPIMM32_def Let_def get_xreg_def)
  have li: "computes a (c_li rd imm a) (\<lambda>R. wr rd (sign_extend (ucast (R ZR) + ucast imm)) R)"
    if "rd \<noteq> ZR" "IsCIImm imm"
    by (rule computes_cong [OF computes_c_li [OF that]]) (simp add: CIImm_32 that)
  show "computes a (addiw rd rs1 imm a) (\<lambda>R. wr rd (sign_extend (ucast (R rs1) + ucast imm)) R)"
    using full li computes_c_addiw [of imm a rd rs1] unfolding addiw_def by auto
qed

interpretation xori_i: immediate_instruction xori "\<lambda>x i. x XOR i" IsITypeImm
proof
  fix imm :: intx and a rd rs1
  assume v: "IsITypeImm imm"
  have full: "computes a (EmitIType imm rs1 XORI rd OPIMM a) (\<lambda>R. wr rd (R rs1 XOR imm) R)"
    by (rule computes_OPIMM [where f = "\<lambda>x i. x XOR i"])
      (simp_all add: v Is_field_defs InterpretOPIMM_def Let_def get_xreg_def)
  show "computes a (xori rd rs1 imm a) (\<lambda>R. wr rd (R rs1 XOR imm) R)"
    using full computes_c_not [of rs1 a rs1] unfolding xori_def by auto
qed

interpretation andi_i: immediate_instruction andi "\<lambda>x i. x AND i" IsITypeImm
proof
  fix imm :: intx and a rd rs1
  assume v: "IsITypeImm imm"
  have full: "computes a (EmitIType imm rs1 ANDI rd OPIMM a) (\<lambda>R. wr rd (R rs1 AND imm) R)"
    by (rule computes_OPIMM [where f = "\<lambda>x i. x AND i"])
      (simp_all add: v Is_field_defs InterpretOPIMM_def Let_def get_xreg_def)
  show "computes a (andi rd rs1 imm a) (\<lambda>R. wr rd (R rs1 AND imm) R)"
    using full computes_c_andi [of rs1 imm a rs1] computes_c_zextb [of rs1 a rs1]
    unfolding andi_def by (auto simp: sim_zextb_and)
qed

text \<open>\<open>lui\<close> with the immediate 0 and a compressed encoding available trips an assertion: the encoding
  is reserved.\<close>

lemma computes_lui:
  assumes "IsUTypeImm imm" "imm \<noteq> 0 \<or> \<not> Supports a RV_C"
  shows "computes a (lui rd imm a) (\<lambda>R. wr rd imm R)"
proof -
  have full: "computes a (EmitUType imm rd LUI a) (\<lambda>R. wr rd imm R)"
    unfolding EmitUType_def
    by (rule computes_Emit32)
      (simp_all add: opcode_low UTypeWord_Instr assms(1) IsOpcode_def Interpret_def InterpretLUI_def
        set_xreg_wr)
  show ?thesis
    using full computes_c_lui [of rd imm a] assms(2) unfolding lui_def by auto
qed
lemma ucast_ucast_32: "(ucast (ucast (x :: u64) :: u32) :: u64) = take_bit 32 x"
  by (rule bit_word_eqI) (auto simp: bit_simps)

interpretation adduw_i: binary_instruction adduw "\<lambda>x y. ucast (ucast x :: u32) + y"
proof
  fix a rd rs1 rs2
  have full: "computes a (EmitRType ADDUW rs2 rs1 F3_0 rd OP32 a)
      (\<lambda>R. wr rd (ucast (ucast (R rs1) :: u32) + R rs2) R)"
    by (rule computes_RType) (simp_all add: rv_consts interpret_op_defs)
  have zext: "computes a (c_zextw rs1 rs1 a) (\<lambda>R. wr rs1 (ucast (ucast (R rs1) :: u32) + R ZR) R)"
    if "IsCRs1p rs1"
    by (rule computes_cong [OF computes_c_zextw [OF that]]) (simp add: sim_extend_eq ucast_ucast_32)
  show "computes a (adduw rd rs1 rs2 a) (\<lambda>R. wr rd (ucast (ucast (R rs1) :: u32) + R rs2) R)"
    using full zext unfolding adduw_def by auto
qed

section \<open>Loads, stores and jumps\<close>

text \<open>\<open>performs a a' T\<close>: one instruction is appended, of \<open>len\<close> bytes, and a simulator at these bytes
  goes from state \<open>s\<close> to \<open>T len s\<close> in one step, up to the count of retired instructions.\<close>

definition performs :: "'z MicroAssembler_scheme \<Rightarrow> 'z MicroAssembler_scheme \<Rightarrow> (u64 \<Rightarrow> Simulator \<Rightarrow> Simulator) \<Rightarrow> bool" where
  "performs a a' T =
     (\<exists>bs. a' = a\<lparr>buffer_m := buffer_m a @ bs\<rparr> \<and>
        (\<forall>h s. code_at bs (host_m (memory_m s)) (pc_m s) \<longrightarrow> zr_zero s \<longrightarrow> \<not> lp_enabled_m s \<longrightarrow>
           step h s = (let s' = T (of_nat (length bs)) s in Inr (s'\<lparr>instret_m := instret_m s' + 1\<rparr>))))"

lemma performs_Emit32:
  assumes "w AND 3 = 3"
    and "\<And>h s. zr_zero s \<Longrightarrow> \<not> lp_enabled_m s \<Longrightarrow> Interpret h w s = Inr (T 4 s)"
  shows "performs a (Emit32 w a) T"
  unfolding performs_def Emit32_def
proof (intro exI conjI allI impI)
  fix h s
  assume c: "code_at (bytes_le 4 (ucast w)) (host_m (memory_m s)) (pc_m s)"
    and z: "zr_zero s" "\<not> lp_enabled_m s"
  have "fetch 4 s = take_bit 32 (ucast w)" "fetch 2 s = take_bit 16 (ucast w)"
    using load_code [OF c, of 4] load_code [OF c, of 2] by (simp_all add: fetch_def)
  then show "step h s = (let s' = T (of_nat (length (bytes_le 4 (ucast w)))) s
      in Inr (s'\<lparr>instret_m := instret_m s' + 1\<rparr>))"
    using assms z by (simp add: step_def low_parcel ucast_bytes_32 IsCInstruction_ucast Let_def)
qed simp

lemma performs_Emit16:
  assumes "IsCInstruction w"
    and "\<And>s. zr_zero s \<Longrightarrow> \<not> lp_enabled_m s \<Longrightarrow> Interpret_C w s = Inr (T 2 s)"
  shows "performs a (Emit16 w a) T"
  unfolding performs_def Emit16_def
proof (intro exI conjI allI impI)
  fix h s
  assume c: "code_at (bytes_le 2 (ucast w)) (host_m (memory_m s)) (pc_m s)"
    and z: "zr_zero s" "\<not> lp_enabled_m s"
  have "fetch 2 s = take_bit 16 (ucast w)"
    using load_code [OF c, of 2] by (simp add: fetch_def)
  then show "step h s = (let s' = T (of_nat (length (bytes_le 2 (ucast w)))) s
      in Inr (s'\<lparr>instret_m := instret_m s' + 1\<rparr>))"
    using assms z by (simp add: step_def ucast_bytes_16 Let_def)
qed simp

definition at_next :: "u64 \<Rightarrow> Simulator \<Rightarrow> Simulator" where
  "at_next len s = s\<lparr>pc_m := pc_m s + len\<rparr>"

definition loads :: "nat \<Rightarrow> (u64 \<Rightarrow> u64) \<Rightarrow> Register \<Rightarrow> Address \<Rightarrow> u64 \<Rightarrow> Simulator \<Rightarrow> Simulator" where
  "loads n f rd addr len s =
     (let (v, s) = MemoryRead n s (xregs_m s (addr_base addr) + addr_offset addr)
      in at_next len (set_xreg s rd (f v)))"

definition stores :: "nat \<Rightarrow> Register \<Rightarrow> Address \<Rightarrow> u64 \<Rightarrow> Simulator \<Rightarrow> Simulator" where
  "stores n rs2 addr len s =
     at_next len (MemoryWrite n s (xregs_m s (addr_base addr) + addr_offset addr) (xregs_m s rs2))"

text \<open>What the code generator relies on: a load or store instruction makes one access of its width at
  base plus offset, for every offset that fits, in either encoding.\<close>

locale load_instruction =
  fixes emit :: "Register \<Rightarrow> Address \<Rightarrow> 'z asm" and n :: nat and f :: "u64 \<Rightarrow> u64"
  assumes correct: "IsITypeImm (addr_offset addr) \<Longrightarrow> performs a (emit rd addr a) (loads n f rd addr)"

locale store_instruction =
  fixes emit :: "Register \<Rightarrow> Address \<Rightarrow> 'z asm" and n :: nat
  assumes correct: "IsSTypeImm (addr_offset addr) \<Longrightarrow> performs a (emit rs2 addr a) (stores n rs2 addr)"

lemma load_into_eq:
  "load_into n f rd (xregs_m s (addr_base addr) + addr_offset addr) len s = Inr (loads n f rd addr len s)"
  by (simp add: load_into_def loads_def next_instr_def at_next_def split_beta)

lemma store_eq:
  "next_instr len (MemoryWrite n s (xregs_m s (addr_base addr) + addr_offset addr) (xregs_m s rs2))
     = Inr (stores n rs2 addr len s)"
  by (simp add: stores_def next_instr_def at_next_def)

lemma performs_load:
  assumes "IsITypeImm (addr_offset addr)" "IsFunct3 f3"
    and "\<And>instr s. Instr_funct3 instr = f3 \<Longrightarrow> InterpretLOAD instr s =
      load_into n f (Instr_rd instr) (xregs_m s (Instr_rs1 instr) + Instr_itype_imm instr) 4 s"
  shows "performs a (EmitIType (addr_offset addr) (addr_base addr) f3 rd LOAD a) (loads n f rd addr)"
  unfolding EmitIType_def
  by (rule performs_Emit32)
    (simp_all add: opcode_low assms rv_word IsOpcode_def Interpret_def load_into_eq)

lemma performs_store:
  assumes "IsSTypeImm (addr_offset addr)" "IsFunct3 f3"
    and "\<And>instr s. Instr_funct3 instr = f3 \<Longrightarrow> InterpretSTORE instr s =
      next_instr 4 (MemoryWrite n s (xregs_m s (Instr_rs1 instr) + Instr_stype_imm instr)
        (xregs_m s (Instr_rs2 instr)))"
  shows "performs a (EmitSType (addr_offset addr) rs2 (addr_base addr) f3 STORE a) (stores n rs2 addr)"
  unfolding EmitSType_def
  by (rule performs_Emit32)
    (simp_all add: opcode_low assms rv_word IsOpcode_def Interpret_def store_eq)

lemmas c_mem_simps = IsCInstruction_ucast rv_footprint CInstr_defs Interpret_C_def Interpret_C_LBU_def
  Let_def get_xreg_def

lemma performs_c_lwsp:
  "rd \<noteq> ZR \<Longrightarrow> addr_base addr = SP \<Longrightarrow> IsCSPLoad4Imm (addr_offset addr) \<Longrightarrow> performs a (c_lwsp rd addr a) (loads 4 (sext 4) rd addr)"
  unfolding c_lwsp_def
  by (rule performs_Emit16) (auto simp: c_mem_simps load_into_eq [symmetric])

lemma performs_c_ldsp:
  "rd \<noteq> ZR \<Longrightarrow> addr_base addr = SP \<Longrightarrow> IsCSPLoad8Imm (addr_offset addr) \<Longrightarrow> performs a (c_ldsp rd addr a) (loads 8 id rd addr)"
  unfolding c_ldsp_def
  by (rule performs_Emit16) (auto simp: c_mem_simps load_into_eq [symmetric])

lemma performs_c_lw:
  "IsCRdp rd \<Longrightarrow> IsCRs1p (addr_base addr) \<Longrightarrow> IsCMem4Imm (addr_offset addr) \<Longrightarrow> performs a (c_lw rd addr a) (loads 4 (sext 4) rd addr)"
  unfolding c_lw_def
  by (rule performs_Emit16) (auto simp: c_mem_simps load_into_eq [symmetric])

lemma performs_c_ld:
  "IsCRdp rd \<Longrightarrow> IsCRs1p (addr_base addr) \<Longrightarrow> IsCMem8Imm (addr_offset addr) \<Longrightarrow> performs a (c_ld rd addr a) (loads 8 id rd addr)"
  unfolding c_ld_def
  by (rule performs_Emit16) (auto simp: c_mem_simps load_into_eq [symmetric])

lemma performs_c_lbu:
  "IsCRdp rd \<Longrightarrow> IsCRs1p (addr_base addr) \<Longrightarrow> IsCMem1Imm (addr_offset addr) \<Longrightarrow> performs a (c_lbu rd addr a) (loads 1 id rd addr)"
  unfolding c_lbu_def
  by (rule performs_Emit16) (auto simp: c_mem_simps load_into_eq [symmetric])

lemma performs_c_lhu:
  "IsCRdp rd \<Longrightarrow> IsCRs1p (addr_base addr) \<Longrightarrow> IsCMem2Imm (addr_offset addr) \<Longrightarrow> performs a (c_lhu rd addr a) (loads 2 id rd addr)"
  unfolding c_lhu_def
  by (rule performs_Emit16) (auto simp: c_mem_simps load_into_eq [symmetric])

lemma performs_c_lh:
  "IsCRdp rd \<Longrightarrow> IsCRs1p (addr_base addr) \<Longrightarrow> IsCMem2Imm (addr_offset addr) \<Longrightarrow> performs a (c_lh rd addr a) (loads 2 (sext 2) rd addr)"
  unfolding c_lh_def
  by (rule performs_Emit16) (auto simp: c_mem_simps load_into_eq [symmetric])

lemma performs_c_swsp:
  "addr_base addr = SP \<Longrightarrow> IsCSPStore4Imm (addr_offset addr) \<Longrightarrow> performs a (c_swsp rs2 addr a) (stores 4 rs2 addr)"
  unfolding c_swsp_def
  by (rule performs_Emit16) (auto simp: c_mem_simps store_eq [symmetric])

lemma performs_c_sdsp:
  "addr_base addr = SP \<Longrightarrow> IsCSPStore8Imm (addr_offset addr) \<Longrightarrow> performs a (c_sdsp rs2 addr a) (stores 8 rs2 addr)"
  unfolding c_sdsp_def
  by (rule performs_Emit16) (auto simp: c_mem_simps store_eq [symmetric])

lemma performs_c_sw:
  "IsCRs2p rs2 \<Longrightarrow> IsCRs1p (addr_base addr) \<Longrightarrow> IsCMem4Imm (addr_offset addr) \<Longrightarrow> performs a (c_sw rs2 addr a) (stores 4 rs2 addr)"
  unfolding c_sw_def
  by (rule performs_Emit16) (auto simp: c_mem_simps store_eq [symmetric])

lemma performs_c_sd:
  "IsCRs2p rs2 \<Longrightarrow> IsCRs1p (addr_base addr) \<Longrightarrow> IsCMem8Imm (addr_offset addr) \<Longrightarrow> performs a (c_sd rs2 addr a) (stores 8 rs2 addr)"
  unfolding c_sd_def
  by (rule performs_Emit16) (auto simp: c_mem_simps store_eq [symmetric])

lemma performs_c_sb:
  "IsCRs2p rs2 \<Longrightarrow> IsCRs1p (addr_base addr) \<Longrightarrow> IsCMem1Imm (addr_offset addr) \<Longrightarrow> performs a (c_sb rs2 addr a) (stores 1 rs2 addr)"
  unfolding c_sb_def
  by (rule performs_Emit16) (auto simp: c_mem_simps store_eq [symmetric])

lemma performs_c_sh:
  "IsCRs2p rs2 \<Longrightarrow> IsCRs1p (addr_base addr) \<Longrightarrow> IsCMem2Imm (addr_offset addr) \<Longrightarrow> performs a (c_sh rs2 addr a) (stores 2 rs2 addr)"
  unfolding c_sh_def
  by (rule performs_Emit16) (auto simp: c_mem_simps store_eq [symmetric])

interpretation lb_i: load_instruction lb 1 "sext 1"
proof
  fix addr a rd
  assume v: "IsITypeImm (addr_offset addr)"
  have "performs a (EmitIType (addr_offset addr) (addr_base addr) LB rd LOAD a) (loads 1 (sext 1) rd addr)"
    by (rule performs_load) (simp_all add: v Is_field_defs InterpretLOAD_def Let_def get_xreg_def)
  then show "performs a (lb rd addr a) (loads 1 (sext 1) rd addr)"
    unfolding lb_def by auto
qed

interpretation lh_i: load_instruction lh 2 "sext 2"
proof
  fix addr a rd
  assume v: "IsITypeImm (addr_offset addr)"
  have "performs a (EmitIType (addr_offset addr) (addr_base addr) LH rd LOAD a) (loads 2 (sext 2) rd addr)"
    by (rule performs_load) (simp_all add: v Is_field_defs InterpretLOAD_def Let_def get_xreg_def)
  then show "performs a (lh rd addr a) (loads 2 (sext 2) rd addr)"
    using performs_c_lh unfolding lh_def by auto
qed

interpretation lw_i: load_instruction lw 4 "sext 4"
proof
  fix addr a rd
  assume v: "IsITypeImm (addr_offset addr)"
  have "performs a (EmitIType (addr_offset addr) (addr_base addr) LW rd LOAD a) (loads 4 (sext 4) rd addr)"
    by (rule performs_load) (simp_all add: v Is_field_defs InterpretLOAD_def Let_def get_xreg_def)
  then show "performs a (lw rd addr a) (loads 4 (sext 4) rd addr)"
    using performs_c_lwsp performs_c_lw unfolding lw_def by auto
qed

interpretation lbu_i: load_instruction lbu 1 "id"
proof
  fix addr a rd
  assume v: "IsITypeImm (addr_offset addr)"
  have "performs a (EmitIType (addr_offset addr) (addr_base addr) LBU rd LOAD a) (loads 1 (id) rd addr)"
    by (rule performs_load) (simp_all add: v Is_field_defs InterpretLOAD_def Let_def get_xreg_def)
  then show "performs a (lbu rd addr a) (loads 1 (id) rd addr)"
    using performs_c_lbu unfolding lbu_def by auto
qed

interpretation lhu_i: load_instruction lhu 2 "id"
proof
  fix addr a rd
  assume v: "IsITypeImm (addr_offset addr)"
  have "performs a (EmitIType (addr_offset addr) (addr_base addr) LHU rd LOAD a) (loads 2 (id) rd addr)"
    by (rule performs_load) (simp_all add: v Is_field_defs InterpretLOAD_def Let_def get_xreg_def)
  then show "performs a (lhu rd addr a) (loads 2 (id) rd addr)"
    using performs_c_lhu unfolding lhu_def by auto
qed

interpretation lwu_i: load_instruction lwu 4 "id"
proof
  fix addr a rd
  assume v: "IsITypeImm (addr_offset addr)"
  have "performs a (EmitIType (addr_offset addr) (addr_base addr) LWU rd LOAD a) (loads 4 (id) rd addr)"
    by (rule performs_load) (simp_all add: v Is_field_defs InterpretLOAD_def Let_def get_xreg_def)
  then show "performs a (lwu rd addr a) (loads 4 (id) rd addr)"
    unfolding lwu_def by auto
qed

interpretation ld_i: load_instruction ld 8 "id"
proof
  fix addr a rd
  assume v: "IsITypeImm (addr_offset addr)"
  have "performs a (EmitIType (addr_offset addr) (addr_base addr) LD rd LOAD a) (loads 8 (id) rd addr)"
    by (rule performs_load) (simp_all add: v Is_field_defs InterpretLOAD_def Let_def get_xreg_def)
  then show "performs a (ld rd addr a) (loads 8 (id) rd addr)"
    using performs_c_ldsp performs_c_ld unfolding ld_def by auto
qed

interpretation sb_i: store_instruction sb 1
proof
  fix addr a rs2
  assume v: "IsSTypeImm (addr_offset addr)"
  have "performs a (EmitSType (addr_offset addr) rs2 (addr_base addr) SB STORE a) (stores 1 rs2 addr)"
    by (rule performs_store) (simp_all add: v Is_field_defs InterpretSTORE_def Let_def get_xreg_def)
  then show "performs a (sb rs2 addr a) (stores 1 rs2 addr)"
    using performs_c_sb unfolding sb_def by auto
qed

interpretation sh_i: store_instruction sh 2
proof
  fix addr a rs2
  assume v: "IsSTypeImm (addr_offset addr)"
  have "performs a (EmitSType (addr_offset addr) rs2 (addr_base addr) SH STORE a) (stores 2 rs2 addr)"
    by (rule performs_store) (simp_all add: v Is_field_defs InterpretSTORE_def Let_def get_xreg_def)
  then show "performs a (sh rs2 addr a) (stores 2 rs2 addr)"
    using performs_c_sh unfolding sh_def by auto
qed

interpretation sw_i: store_instruction sw 4
proof
  fix addr a rs2
  assume v: "IsSTypeImm (addr_offset addr)"
  have "performs a (EmitSType (addr_offset addr) rs2 (addr_base addr) SW STORE a) (stores 4 rs2 addr)"
    by (rule performs_store) (simp_all add: v Is_field_defs InterpretSTORE_def Let_def get_xreg_def)
  then show "performs a (sw rs2 addr a) (stores 4 rs2 addr)"
    using performs_c_swsp performs_c_sw unfolding sw_def by auto
qed

interpretation sd_i: store_instruction sd 8
proof
  fix addr a rs2
  assume v: "IsSTypeImm (addr_offset addr)"
  have "performs a (EmitSType (addr_offset addr) rs2 (addr_base addr) SD STORE a) (stores 8 rs2 addr)"
    by (rule performs_store) (simp_all add: v Is_field_defs InterpretSTORE_def Let_def get_xreg_def)
  then show "performs a (sd rs2 addr a) (stores 8 rs2 addr)"
    using performs_c_sdsp performs_c_sd unfolding sd_def by auto
qed

definition jumps :: "Register \<Rightarrow> Register \<Rightarrow> intx \<Rightarrow> u64 \<Rightarrow> Simulator \<Rightarrow> Simulator" where
  "jumps rd rs1 offset len s =
     s\<lparr>xregs_m := wr rd (pc_m s + len) (xregs_m s), pc_m := xregs_m s rs1 + offset\<rparr>"

lemma performs_c_jr: "rs1 \<noteq> ZR \<Longrightarrow> performs a (c_jr rs1 a) (jumps ZR rs1 0)"
  unfolding c_jr_def
  by (rule performs_Emit16) (simp_all add: c_simps CheckLandingPad_def jumps_def)

lemma performs_c_jalr: "rs1 \<noteq> ZR \<Longrightarrow> performs a (c_jalr rs1 a) (jumps RA rs1 0)"
  unfolding c_jalr_def
  by (rule performs_Emit16) (simp_all add: c_simps CheckLandingPad_def jumps_def set_xreg_wr)

lemma performs_jalr:
  assumes "IsITypeImm offset"
  shows "performs a (jalr rd rs1 offset a) (jumps rd rs1 offset)"
proof -
  have "performs a (EmitIType offset rs1 F3_0 rd JALR a) (jumps rd rs1 offset)"
    unfolding EmitIType_def
    by (rule performs_Emit32)
      (simp_all add: opcode_low assms rv_word Is_field_defs Interpret_def InterpretJALR_def
        CheckLandingPad_def get_xreg_def set_xreg_wr jumps_def Let_def)
  then show ?thesis using performs_c_jr performs_c_jalr unfolding jalr_def by auto
qed
end
