(* ===== verification/HashMap.thy ===== *)
theory HashMap
  imports PlatformUtils
begin

text \<open>
  \<^verbatim>\<open>runtime/vm/hash_map.h\<close> and \<^verbatim>\<open>runtime/vm/hash.h\<close>: the hash functions of the VM and its
  open-addressing hash map, \<open>BaseDirectChainedHashMap\<close>. The map keeps its pairs in an array in the
  order of insertion and a table of indices into it, probed linearly, in which a removed pair leaves
  a marker. The template argument \<open>KeyValueTrait\<close> is a record of the functions of the trait; the
  laws that the map needs of them are the locale \<open>key_value_trait\<close>.

  The counters are 32 bits wide; they are natural numbers here, with the truncation written out
  where a value is assigned. A probe loop that does not end has the value \<open>None\<close>; a failed
  \<open>RELEASE_ASSERT\<close> and an access outside an array are the errors of \<open>hm_error\<close>.
\<close>

section \<open>Hash functions\<close>

definition CombineHashes :: "u32 \<Rightarrow> u32 \<Rightarrow> u32" where
  "CombineHashes hash other_hash =
     (let hash = hash + other_hash;
          hash = hash + push_bit 10 hash;
          hash = hash XOR drop_bit 6 hash
      in hash)"

definition FinalizeHash :: "u32 \<Rightarrow> nat \<Rightarrow> u32" where
  "FinalizeHash hash hashbits =
     (let hash = hash + push_bit 3 hash;
          hash = hash XOR drop_bit 11 hash;
          hash = hash + push_bit 15 hash;
          hash = (if hashbits < 32 then hash AND (push_bit hashbits 1 - 1) else hash)
      in if hash = 0 then 1 else hash)"

definition kEmptyContainerHash :: u32 where
  "kEmptyContainerHash = 1"

definition LoadUnaligned32 :: "u8 list \<Rightarrow> nat \<Rightarrow> u32" where
  "LoadUnaligned32 bytes i =
     ucast (bytes ! i) OR push_bit 8 (ucast (bytes ! (i + 1)))
       OR push_bit 16 (ucast (bytes ! (i + 2))) OR push_bit 24 (ucast (bytes ! (i + 3)))"

definition HashBytes :: "u8 list \<Rightarrow> nat \<Rightarrow> u32" where
  "HashBytes bytes hashbits =
     (if bytes = [] then kEmptyContainerHash
      else let len = length bytes;
               hash = of_nat len;
               chunks = len div 4;
               hash = fold (\<lambda>i hash. CombineHashes hash (LoadUnaligned32 bytes (4 * i))) [0..<chunks] hash;
               hash = fold (\<lambda>i hash. CombineHashes hash (ucast (bytes ! i))) [chunks * 4..<len] hash
           in FinalizeHash hash hashbits)"

section \<open>State\<close>

record ('p, 'k, 'v) KeyValueTrait =
  KeyOf :: "'p \<Rightarrow> 'k"
  ValueOf :: "'p \<Rightarrow> 'v"
  Hash :: "'k \<Rightarrow> u64"
  IsKeyEqual :: "'p \<Rightarrow> 'k \<Rightarrow> bool"
  DefaultPair :: 'p

record 'p HashMap =
  hash_table_m :: "nat list"
  pairs_m :: "'p list"
  hash_table_size_m :: nat
  pairs_size_m :: nat
  next_pair_index_m :: nat
  deleted_count_m :: nat

datatype hm_error = ProbeLimit | BadIndex

type_synonym 'a hm_result = "(hm_error + 'a) option"

abbreviation kEmpty :: nat where "kEmpty \<equiv> 0xFFFFFFFF"
abbreviation kDeleted :: nat where "kDeleted \<equiv> 0xFFFFFFFE"
abbreviation to_u32 :: "nat \<Rightarrow> nat" where "to_u32 n \<equiv> n mod 0x100000000"

definition NoValue :: "('p, 'k, 'v) KeyValueTrait \<Rightarrow> 'v" where
  "NoValue t = ValueOf t (DefaultPair t)"

definition Size :: "'p HashMap \<Rightarrow> nat" where
  "Size m = to_u32 (next_pair_index_m m + 0x100000000 - deleted_count_m m)"

definition IsEmpty :: "'p HashMap \<Rightarrow> bool" where
  "IsEmpty m = (Size m = 0)"

definition index_mask :: "'p HashMap \<Rightarrow> nat" where
  "index_mask m = to_u32 (hash_table_size_m m + 0x100000000 - 1)"

definition start_index :: "('p, 'k, 'v) KeyValueTrait \<Rightarrow> 'p HashMap \<Rightarrow> 'k \<Rightarrow> nat" where
  "start_index t m key = unat (Hash t key) AND index_mask m"

section \<open>Operations\<close>

partial_function (option) Lookup_loop ::
    "('p, 'k, 'v) KeyValueTrait \<Rightarrow> nat \<Rightarrow> 'p HashMap \<Rightarrow> 'k \<Rightarrow> nat \<Rightarrow> nat \<Rightarrow> nat option hm_result" where
  "Lookup_loop t limit m key hash_index probes =
     (if \<not> hash_index < length (hash_table_m m) then Some (Inl BadIndex)
      else let pair_index = hash_table_m m ! hash_index in
        if pair_index = kEmpty then Some (Inr None)
        else if pair_index \<noteq> kDeleted then
          if \<not> probes + 1 < limit then Some (Inl ProbeLimit)
          else if \<not> pair_index < length (pairs_m m) then Some (Inl BadIndex)
          else if IsKeyEqual t (pairs_m m ! pair_index) key then Some (Inr (Some pair_index))
          else Lookup_loop t limit m key ((hash_index + 1) AND index_mask m) (probes + 1)
        else Lookup_loop t limit m key ((hash_index + 1) AND index_mask m) probes)"

definition Lookup :: "('p, 'k, 'v) KeyValueTrait \<Rightarrow> nat \<Rightarrow> 'p HashMap \<Rightarrow> 'k \<Rightarrow> nat option hm_result" where
  "Lookup t limit m key = Lookup_loop t limit m key (start_index t m key) 0"

definition LookupValue :: "('p, 'k, 'v) KeyValueTrait \<Rightarrow> nat \<Rightarrow> 'p HashMap \<Rightarrow> 'k \<Rightarrow> 'v hm_result" where
  "LookupValue t limit m key =
     (case Lookup t limit m key of
        None \<Rightarrow> None
      | Some (Inl e) \<Rightarrow> Some (Inl e)
      | Some (Inr None) \<Rightarrow> Some (Inr (NoValue t))
      | Some (Inr (Some i)) \<Rightarrow> Some (Inr (ValueOf t (pairs_m m ! i))))"

definition HasKey :: "('p, 'k, 'v) KeyValueTrait \<Rightarrow> nat \<Rightarrow> 'p HashMap \<Rightarrow> 'k \<Rightarrow> bool hm_result" where
  "HasKey t limit m key =
     (case Lookup t limit m key of
        None \<Rightarrow> None
      | Some (Inl e) \<Rightarrow> Some (Inl e)
      | Some (Inr p) \<Rightarrow> Some (Inr (p \<noteq> None)))"

partial_function (option) Insert_loop :: "nat \<Rightarrow> 'p HashMap \<Rightarrow> nat \<Rightarrow> nat \<Rightarrow> nat hm_result" where
  "Insert_loop limit m hash_index probes =
     (if \<not> hash_index < length (hash_table_m m) then Some (Inl BadIndex)
      else let pair_index = hash_table_m m ! hash_index in
        if pair_index = kEmpty \<or> pair_index = kDeleted then Some (Inr hash_index)
        else if \<not> probes + 1 < limit then Some (Inl ProbeLimit)
        else Insert_loop limit m ((hash_index + 1) AND index_mask m) (probes + 1))"

definition put_pair :: "nat \<Rightarrow> 'p \<Rightarrow> 'p HashMap \<Rightarrow> 'p HashMap" where
  "put_pair hash_index kv m =
     m\<lparr>hash_table_m := (hash_table_m m)[hash_index := next_pair_index_m m],
       pairs_m := (pairs_m m)[next_pair_index_m m := kv],
       next_pair_index_m := to_u32 (next_pair_index_m m + 1)\<rparr>"

text \<open>\<open>Insert\<close> and \<open>Resize\<close> call each other; each takes the other as an argument here, and the
  definitions of \<open>Resize\<close> and \<open>Insert\<close> below close the recursion.\<close>

definition Insert_with ::
    "(nat \<Rightarrow> 'p HashMap \<Rightarrow> 'p HashMap hm_result) \<Rightarrow> ('p, 'k, 'v) KeyValueTrait \<Rightarrow> nat \<Rightarrow> 'p \<Rightarrow>
     'p HashMap \<Rightarrow> 'p HashMap hm_result" where
  "Insert_with resize t limit kv m =
     (case Insert_loop limit m (start_index t m (KeyOf t kv)) 0 of
        None \<Rightarrow> None
      | Some (Inl e) \<Rightarrow> Some (Inl e)
      | Some (Inr hash_index) \<Rightarrow>
          if \<not> next_pair_index_m m < length (pairs_m m) then Some (Inl BadIndex)
          else let m = put_pair hash_index kv m in
            if next_pair_index_m m = pairs_size_m m then resize (push_bit 1 (Size m)) m
            else Some (Inr m))"

primrec each_pair :: "('p \<Rightarrow> 's \<Rightarrow> 's hm_result) \<Rightarrow> 'p list \<Rightarrow> 's \<Rightarrow> 's hm_result" where
  "each_pair f [] m = Some (Inr m)"
| "each_pair f (p # ps) m =
     (case f p m of None \<Rightarrow> None | Some (Inl e) \<Rightarrow> Some (Inl e) | Some (Inr m) \<Rightarrow> each_pair f ps m)"

definition empty_map :: "('p, 'k, 'v) KeyValueTrait \<Rightarrow> nat \<Rightarrow> 'p HashMap" where
  "empty_map t new_size =
     (let size = to_u32 (RoundUpToPowerOfTwo (new_size * 4 div 3 + 1))
      in \<lparr>hash_table_m = replicate size kEmpty, pairs_m = replicate (to_u32 new_size) (DefaultPair t),
          hash_table_size_m = size, pairs_size_m = to_u32 new_size,
          next_pair_index_m = 0, deleted_count_m = 0\<rparr>)"

definition Resize_with ::
    "('p \<Rightarrow> 'p HashMap \<Rightarrow> 'p HashMap hm_result) \<Rightarrow> ('p, 'k, 'v) KeyValueTrait \<Rightarrow> nat \<Rightarrow>
     'p HashMap \<Rightarrow> 'p HashMap hm_result" where
  "Resize_with ins t new_size m =
     (if length (pairs_m m) < next_pair_index_m m then Some (Inl BadIndex)
      else each_pair (\<lambda>p m. if ValueOf t p = NoValue t then Some (Inr m) else ins p m)
             (take (next_pair_index_m m) (pairs_m m)) (empty_map t new_size))"

lemma each_pair_mono [partial_function_mono]:
  assumes "\<And>p m. monotone (fun_ord option_ord) option_ord (\<lambda>f. F f p m)"
  shows "monotone (fun_ord option_ord) option_ord (\<lambda>f. each_pair (F f) ps m)"
proof (induction ps arbitrary: m)
  case (Cons p ps)
  have "monotone (fun_ord option_ord) option_ord
      (\<lambda>f. Option.bind (F f p m) (\<lambda>r. case r of Inl e \<Rightarrow> Some (Inl e) | Inr m \<Rightarrow> each_pair (F f) ps m))"
  proof (rule bind_mono [OF assms])
    fix r
    show "monotone (fun_ord option_ord) option_ord
        (\<lambda>f. case r of Inl e \<Rightarrow> Some (Inl e) | Inr m \<Rightarrow> each_pair (F f) ps m)"
      using Cons.IH by (cases r) (simp_all add: option.const_mono)
  qed
  moreover have "each_pair (F f) (p # ps) m =
      Option.bind (F f p m) (\<lambda>r. case r of Inl e \<Rightarrow> Some (Inl e) | Inr m \<Rightarrow> each_pair (F f) ps m)" for f
    by (simp add: Option.bind_def split: option.splits sum.splits)
  ultimately show ?case by simp
qed (simp add: option.const_mono)

lemma if_mono_option:
  assumes "monotone (fun_ord option_ord) option_ord F" "monotone (fun_ord option_ord) option_ord G"
  shows "monotone (fun_ord option_ord) option_ord (\<lambda>f. if c then F f else G f)"
  using assms by (cases c) simp_all

lemma Insert_with_mono [partial_function_mono]:
  assumes "\<And>n m. monotone (fun_ord option_ord) option_ord (\<lambda>f. R f n m)"
  shows "monotone (fun_ord option_ord) option_ord (\<lambda>f. Insert_with (R f) t limit kv m)"
proof (cases "Insert_loop limit m (start_index t m (KeyOf t kv)) 0")
  case (Some r)
  then show ?thesis
    unfolding Insert_with_def Let_def
    by (cases r) (auto intro!: if_mono_option assms option.const_mono)
qed (simp add: Insert_with_def option.const_mono)

lemma Resize_with_mono [partial_function_mono]:
  assumes "\<And>p m. monotone (fun_ord option_ord) option_ord (\<lambda>f. F f p m)"
  shows "monotone (fun_ord option_ord) option_ord (\<lambda>f. Resize_with (F f) t n m)"
  unfolding Resize_with_def
  by (intro if_mono_option each_pair_mono assms option.const_mono)

partial_function (option) Resize ::
    "('p, 'k, 'v) KeyValueTrait \<Rightarrow> nat \<Rightarrow> nat \<Rightarrow> 'p HashMap \<Rightarrow> 'p HashMap hm_result" where
  "Resize t limit new_size m =
     Resize_with (Insert_with (Resize t limit) t limit) t new_size m"

definition Insert ::
    "('p, 'k, 'v) KeyValueTrait \<Rightarrow> nat \<Rightarrow> 'p \<Rightarrow> 'p HashMap \<Rightarrow> 'p HashMap hm_result" where
  "Insert t limit kv m = Insert_with (Resize t limit) t limit kv m"

definition new_map :: "('p, 'k, 'v) KeyValueTrait \<Rightarrow> nat \<Rightarrow> nat \<Rightarrow> 'p HashMap hm_result" where
  "new_map t limit initial_size =
     Resize t limit initial_size
       \<lparr>hash_table_m = [], pairs_m = [], hash_table_size_m = 0, pairs_size_m = 0,
        next_pair_index_m = 0, deleted_count_m = 0\<rparr>"

definition Update ::
    "('p, 'k, 'v) KeyValueTrait \<Rightarrow> nat \<Rightarrow> 'p \<Rightarrow> 'p HashMap \<Rightarrow> 'p HashMap hm_result" where
  "Update t limit kv m =
     (case Lookup t limit m (KeyOf t kv) of
        None \<Rightarrow> None
      | Some (Inl e) \<Rightarrow> Some (Inl e)
      | Some (Inr (Some i)) \<Rightarrow> Some (Inr (m\<lparr>pairs_m := (pairs_m m)[i := kv]\<rparr>))
      | Some (Inr None) \<Rightarrow> Insert t limit kv m)"

partial_function (option) Remove_loop ::
    "('p, 'k, 'v) KeyValueTrait \<Rightarrow> nat \<Rightarrow> 'p HashMap \<Rightarrow> 'k \<Rightarrow> nat \<Rightarrow> nat \<Rightarrow> (bool \<times> 'p HashMap) hm_result" where
  "Remove_loop t limit m key hash_index probes =
     (if \<not> hash_index < length (hash_table_m m) then Some (Inl BadIndex)
      else let pair_index = hash_table_m m ! hash_index in
        if pair_index = kEmpty then Some (Inr (False, m))
        else if pair_index \<noteq> kDeleted then
          if \<not> probes + 1 < limit then Some (Inl ProbeLimit)
          else if \<not> pair_index < length (pairs_m m) then Some (Inl BadIndex)
          else if IsKeyEqual t (pairs_m m ! pair_index) key then
            Some (Inr (True, m\<lparr>hash_table_m := (hash_table_m m)[hash_index := kDeleted],
                               pairs_m := (pairs_m m)[pair_index := DefaultPair t],
                               deleted_count_m := to_u32 (deleted_count_m m + 1)\<rparr>))
          else Remove_loop t limit m key ((hash_index + 1) AND index_mask m) (probes + 1)
        else Remove_loop t limit m key ((hash_index + 1) AND index_mask m) probes)"

definition Remove ::
    "('p, 'k, 'v) KeyValueTrait \<Rightarrow> nat \<Rightarrow> 'k \<Rightarrow> 'p HashMap \<Rightarrow> (bool \<times> 'p HashMap) hm_result" where
  "Remove t limit key m = Remove_loop t limit m key (start_index t m key) 0"

definition Clear :: "('p, 'k, 'v) KeyValueTrait \<Rightarrow> 'p HashMap \<Rightarrow> 'p HashMap" where
  "Clear t m =
     m\<lparr>hash_table_m := replicate (hash_table_size_m m) kEmpty,
       pairs_m := replicate (next_pair_index_m m) (DefaultPair t) @ drop (next_pair_index_m m) (pairs_m m),
       next_pair_index_m := 0, deleted_count_m := 0\<rparr>"

function Iterator_Next ::
    "('p, 'k, 'v) KeyValueTrait \<Rightarrow> 'p HashMap \<Rightarrow> nat \<Rightarrow> nat option \<times> nat" where
  "Iterator_Next t m pair_index =
     (if pair_index < next_pair_index_m m
      then if ValueOf t (pairs_m m ! pair_index) \<noteq> NoValue t then (Some pair_index, pair_index + 1)
           else Iterator_Next t m (pair_index + 1)
      else (None, pair_index))"
  by pat_completeness auto
termination by (relation "measure (\<lambda>(t, m, i). next_pair_index_m m - i)") auto

declare Iterator_Next.simps [simp del]

text \<open>The traits of the file with a hash function of their own: integer keys and pointer keys.\<close>

definition IntKeyRawPointerValueTrait :: "'v \<Rightarrow> (u64 \<times> 'v, u64, 'v) KeyValueTrait" where
  "IntKeyRawPointerValueTrait novalue =
     \<lparr>KeyOf = fst, ValueOf = snd, Hash = (\<lambda>key. ucast (FinalizeHash (ucast key) 32)),
      IsKeyEqual = (\<lambda>kv key. fst kv = key), DefaultPair = (0, novalue)\<rparr>"

definition RawPointerKeyValueTrait :: "'v \<Rightarrow> (u64 \<times> 'v, u64, 'v) KeyValueTrait" where
  "RawPointerKeyValueTrait novalue =
     \<lparr>KeyOf = fst, ValueOf = snd, Hash = (\<lambda>key. key),
      IsKeyEqual = (\<lambda>kv key. fst kv = key), DefaultPair = (0, novalue)\<rparr>"

definition NumbersKeyValueTrait :: "('v \<Rightarrow> u64) \<Rightarrow> 'v \<Rightarrow> ('v, u64, 'v) KeyValueTrait" where
  "NumbersKeyValueTrait first novalue =
     \<lparr>KeyOf = first, ValueOf = (\<lambda>kv. kv), Hash = (\<lambda>key. key),
      IsKeyEqual = (\<lambda>kv key. first kv = key), DefaultPair = novalue\<rparr>"

definition IntMap_Insert ::
    "'v \<Rightarrow> nat \<Rightarrow> u64 \<Rightarrow> 'v \<Rightarrow> (u64 \<times> 'v) HashMap \<Rightarrow> (u64 \<times> 'v) HashMap hm_result" where
  "IntMap_Insert novalue limit key v = Insert (IntKeyRawPointerValueTrait novalue) limit (key, v)"

definition IntMap_Lookup :: "'v \<Rightarrow> nat \<Rightarrow> (u64 \<times> 'v) HashMap \<Rightarrow> u64 \<Rightarrow> 'v hm_result" where
  "IntMap_Lookup novalue limit m key =
     (case Lookup (IntKeyRawPointerValueTrait novalue) limit m key of
        None \<Rightarrow> None
      | Some (Inl e) \<Rightarrow> Some (Inl e)
      | Some (Inr None) \<Rightarrow> Some (Inr novalue)
      | Some (Inr (Some i)) \<Rightarrow> Some (Inr (snd (pairs_m m ! i))))"

section \<open>Hash values\<close>

lemma FinalizeHash_nonzero: "FinalizeHash hash hashbits \<noteq> 0"
  by (simp add: FinalizeHash_def Let_def)

lemma FinalizeHash_bound:
  assumes "0 < hashbits" "hashbits < 32"
  shows "unat (FinalizeHash hash hashbits) < 2 ^ hashbits"
proof -
  have "take_bit hashbits (FinalizeHash hash hashbits) = FinalizeHash hash hashbits"
  proof -
    have "x AND (push_bit hashbits 1 - 1) = take_bit hashbits x" for x :: u32
      by (simp add: take_bit_eq_mask mask_eq_exp_minus_1 push_bit_eq_mult)
    then show ?thesis using assms by (simp add: FinalizeHash_def Let_def)
  qed
  then have "take_bit hashbits (unat (FinalizeHash hash hashbits)) = unat (FinalizeHash hash hashbits)"
    by (metis unsigned_take_bit_eq)
  then show ?thesis by (simp add: take_bit_nat_eq_self_iff)
qed

section \<open>The invariant\<close>

definition live_at :: "('p, 'k, 'v) KeyValueTrait \<Rightarrow> 'p HashMap \<Rightarrow> nat \<Rightarrow> bool" where
  "live_at t m j = (j < next_pair_index_m m \<and> ValueOf t (pairs_m m ! j) \<noteq> NoValue t)"

definition live :: "('p, 'k, 'v) KeyValueTrait \<Rightarrow> 'p HashMap \<Rightarrow> 'p list" where
  "live t m = filter (\<lambda>p. ValueOf t p \<noteq> NoValue t) (take (next_pair_index_m m) (pairs_m m))"

definition home :: "('p, 'k, 'v) KeyValueTrait \<Rightarrow> 'p HashMap \<Rightarrow> nat \<Rightarrow> nat" where
  "home t m j = unat (Hash t (KeyOf t (pairs_m m ! j)))"

definition slot :: "'p HashMap \<Rightarrow> nat \<Rightarrow> nat \<Rightarrow> nat" where
  "slot m h d = hash_table_m m ! ((h + d) mod hash_table_size_m m)"

definition wf_sizes :: "'p HashMap \<Rightarrow> bool" where
  "wf_sizes m =
     ((\<exists>k \<le> 31. hash_table_size_m m = 2 ^ k) \<and> length (hash_table_m m) = hash_table_size_m m \<and>
      length (pairs_m m) = pairs_size_m m \<and> next_pair_index_m m \<le> pairs_size_m m \<and>
      pairs_size_m m < hash_table_size_m m)"

definition wf_table :: "('p, 'k, 'v) KeyValueTrait \<Rightarrow> 'p HashMap \<Rightarrow> bool" where
  "wf_table t m =
     ((\<forall>i < hash_table_size_m m. hash_table_m m ! i = kEmpty \<or> hash_table_m m ! i = kDeleted \<or>
         live_at t m (hash_table_m m ! i)) \<and>
      (\<forall>i < hash_table_size_m m. \<forall>i' < hash_table_size_m m.
         hash_table_m m ! i = hash_table_m m ! i' \<longrightarrow> live_at t m (hash_table_m m ! i) \<longrightarrow> i = i') \<and>
      card {i. i < hash_table_size_m m \<and> hash_table_m m ! i \<noteq> kEmpty} \<le> next_pair_index_m m)"

text \<open>Every pair that is present is found by probing from its home slot.\<close>

definition wf_chains :: "('p, 'k, 'v) KeyValueTrait \<Rightarrow> 'p HashMap \<Rightarrow> bool" where
  "wf_chains t m =
     (\<forall>j. live_at t m j \<longrightarrow>
        (\<exists>d < hash_table_size_m m. slot m (home t m j) d = j \<and> (\<forall>e < d. slot m (home t m j) e \<noteq> kEmpty)))"

definition wf_map :: "('p, 'k, 'v) KeyValueTrait \<Rightarrow> 'p HashMap \<Rightarrow> bool" where
  "wf_map t m =
     (wf_sizes m \<and> wf_table t m \<and> wf_chains t m \<and>
      deleted_count_m m = card {j. j < next_pair_index_m m \<and> \<not> live_at t m j})"

lemma size_bounds:
  assumes "wf_sizes m"
  shows "0 < hash_table_size_m m" "hash_table_size_m m \<le> 2 ^ 31"
proof -
  obtain k where "k \<le> 31" "hash_table_size_m m = 2 ^ k" using assms unfolding wf_sizes_def by blast
  moreover have "(2::nat) ^ k \<le> 2 ^ 31" using \<open>k \<le> 31\<close> by (intro power_increasing) auto
  ultimately show "0 < hash_table_size_m m" "hash_table_size_m m \<le> 2 ^ 31" by simp_all
qed

lemma and_mask_mod:
  assumes "wf_sizes m"
  shows "x AND index_mask m = x mod hash_table_size_m m"
proof -
  obtain k where k: "k \<le> 31" "hash_table_size_m m = 2 ^ k" using assms unfolding wf_sizes_def by blast
  have "hash_table_size_m m + 0x100000000 - 1 = 0x100000000 + (hash_table_size_m m - 1)"
    using size_bounds [OF assms] by simp
  then have "index_mask m = (hash_table_size_m m - 1) mod 0x100000000"
    unfolding index_mask_def by (simp only: mod_add_self1)
  also have "\<dots> = hash_table_size_m m - 1" using size_bounds [OF assms] by (intro mod_less) simp
  finally have "index_mask m = mask k" by (simp add: k mask_eq_exp_minus_1)
  then show ?thesis by (simp add: k take_bit_eq_mask [symmetric] take_bit_eq_mod)
qed

lemma wf_sizes_lengths:
  "wf_sizes m \<Longrightarrow> length (hash_table_m m) = hash_table_size_m m"
  "wf_sizes m \<Longrightarrow> length (pairs_m m) = pairs_size_m m"
  by (simp_all add: wf_sizes_def)

lemma live_at_bound: "wf_sizes m \<Longrightarrow> live_at t m j \<Longrightarrow> j < pairs_size_m m \<and> j < kDeleted"
  using size_bounds [of m] by (auto simp: wf_sizes_def live_at_def)

lemma exists_empty_slot:
  assumes "wf_sizes m" "wf_table t m"
  shows "\<exists>d < hash_table_size_m m. slot m h d = kEmpty"
proof -
  let ?N = "hash_table_size_m m"
  have pos: "0 < ?N" using size_bounds [OF assms(1)] by simp
  have "card {i. i < ?N \<and> hash_table_m m ! i \<noteq> kEmpty} < ?N"
    using assms by (simp add: wf_sizes_def wf_table_def)
  then have "{i. i < ?N \<and> hash_table_m m ! i \<noteq> kEmpty} \<noteq> {..<?N}" by (metis card_lessThan less_irrefl)
  then obtain i where i: "i < ?N" "hash_table_m m ! i = kEmpty" by auto
  let ?d = "(i + ?N - h mod ?N) mod ?N"
  have le: "h mod ?N \<le> i + ?N" using mod_less_divisor [OF pos, of h] by linarith
  have "(h + ?d) mod ?N = (h mod ?N + (i + ?N - h mod ?N)) mod ?N"
    by (simp only: mod_add_right_eq mod_add_left_eq)
  also have "\<dots> = (i + ?N) mod ?N"
    using le by (simp only: le_add_diff_inverse)
  also have "\<dots> = i" using i by simp
  finally show ?thesis using i pos unfolding slot_def by (intro exI [of _ ?d]) simp
qed

lemma first_such:
  assumes "\<exists>d < N. P d"
  obtains d where "d < (N::nat)" "P d" "\<And>e. e < d \<Longrightarrow> \<not> P e"
proof -
  from assms obtain d where "d < N" "P d" by blast
  show thesis
  proof (rule that [of "LEAST d. P d"])
    show "(LEAST d. P d) < N" using Least_le [of P d] \<open>P d\<close> \<open>d < N\<close> by simp
    show "P (LEAST d. P d)" using \<open>P d\<close> by (rule LeastI)
    show "\<not> P e" if "e < (LEAST d. P d)" for e using that by (rule not_less_Least)
  qed
qed

section \<open>Probing\<close>

lemma probe_step:
  assumes "wf_sizes m"
  shows "Suc ((h + d) mod hash_table_size_m m) AND index_mask m = Suc (h + d) mod hash_table_size_m m"
  using and_mask_mod [OF assms] by (simp add: mod_simps)

lemma slot_index: "wf_sizes m \<Longrightarrow> (h + e) mod hash_table_size_m m < hash_table_size_m m"
  using size_bounds [of m] by simp

lemma slot_cases:
  assumes "wf_sizes m" "wf_table t m"
  shows "slot m h e = kEmpty \<or> slot m h e = kDeleted \<or> live_at t m (slot m h e)"
  using slot_index [OF assms(1)] assms(2) unfolding wf_table_def slot_def by blast

lemma probe_induct [consumes 2, case_names stop step]:
  assumes "e \<le> d" "probes \<le> e"
    and "\<And>probes. probes \<le> d \<Longrightarrow> P d probes"
    and "\<And>e probes. e < d \<Longrightarrow> probes \<le> e \<Longrightarrow> (\<And>probes. probes \<le> Suc e \<Longrightarrow> P (Suc e) probes) \<Longrightarrow> P e probes"
  shows "P e (probes :: nat)"
  using assms(1,2)
proof (induction "d - e" arbitrary: e probes)
  case 0
  then show ?case using assms(3) by simp
next
  case (Suc n)
  show ?case
  proof (rule assms(4))
    show "e < d" "probes \<le> e" using Suc.hyps(2) Suc.prems by simp_all
    show "P (Suc e) probes'" if "probes' \<le> Suc e" for probes'
      using Suc.hyps(1) [of "Suc e" probes'] Suc.hyps(2) that by simp
  qed
qed

text \<open>The three probe loops stop at the first slot that satisfies their exit condition.\<close>

lemma Lookup_loop_from:
  assumes wf: "wf_sizes m" "wf_table t m" and "hash_table_size_m m < limit"
    and "d < hash_table_size_m m"
    and stop: "slot m h d = kEmpty \<or> live_at t m (slot m h d) \<and> IsKeyEqual t (pairs_m m ! slot m h d) key"
    and go: "\<And>e. e < d \<Longrightarrow> slot m h e \<noteq> kEmpty \<and>
      \<not> (live_at t m (slot m h e) \<and> IsKeyEqual t (pairs_m m ! slot m h e) key)"
    and "e \<le> d" "probes \<le> e"
  shows "Lookup_loop t limit m key ((h + e) mod hash_table_size_m m) probes =
    Some (Inr (if slot m h d = kEmpty then None else Some (slot m h d)))"
  using assms(7,8)
proof (induction rule: probe_induct)
  case (stop probes)
  then show ?case
    using assms(3-5) slot_index [OF wf(1)] live_at_bound [OF wf(1), of t "slot m h d"]
    by (subst Lookup_loop.simps) (auto simp: wf_sizes_lengths [OF wf(1)] slot_def Let_def)
next
  case (step e probes)
  show ?case
    using go [OF step(1)] step(3) [of probes] step(3) [of "Suc probes"] step(1,2) assms(3,4)
      slot_index [OF wf(1)] slot_cases [OF wf, of h e] live_at_bound [OF wf(1), of t "slot m h e"]
    by (subst Lookup_loop.simps)
      (auto simp: wf_sizes_lengths [OF wf(1)] slot_def Let_def probe_step [OF wf(1)])
qed

lemma Insert_loop_from:
  assumes wf: "wf_sizes m" "wf_table t m" and "hash_table_size_m m < limit"
    and "d < hash_table_size_m m"
    and stop: "slot m h d = kEmpty \<or> slot m h d = kDeleted"
    and go: "\<And>e. e < d \<Longrightarrow> slot m h e \<noteq> kEmpty \<and> slot m h e \<noteq> kDeleted"
    and "e \<le> d" "probes \<le> e"
  shows "Insert_loop limit m ((h + e) mod hash_table_size_m m) probes =
    Some (Inr ((h + d) mod hash_table_size_m m))"
  using assms(7,8)
proof (induction rule: probe_induct)
  case (stop probes)
  then show ?case
    using assms(3-5) slot_index [OF wf(1)]
    by (subst Insert_loop.simps) (auto simp: wf_sizes_lengths [OF wf(1)] slot_def Let_def)
next
  case (step e probes)
  show ?case
    using go [OF step(1)] step(3) [of "Suc probes"] step(1,2) assms(3,4) slot_index [OF wf(1)]
    by (subst Insert_loop.simps)
      (auto simp: wf_sizes_lengths [OF wf(1)] slot_def Let_def probe_step [OF wf(1)])
qed

definition remove_at :: "('p, 'k, 'v) KeyValueTrait \<Rightarrow> nat \<Rightarrow> 'p HashMap \<Rightarrow> 'p HashMap" where
  "remove_at t hash_index m =
     m\<lparr>hash_table_m := (hash_table_m m)[hash_index := kDeleted],
       pairs_m := (pairs_m m)[hash_table_m m ! hash_index := DefaultPair t],
       deleted_count_m := to_u32 (deleted_count_m m + 1)\<rparr>"

lemma Remove_loop_from:
  assumes wf: "wf_sizes m" "wf_table t m" and "hash_table_size_m m < limit"
    and "d < hash_table_size_m m"
    and stop: "slot m h d = kEmpty \<or> live_at t m (slot m h d) \<and> IsKeyEqual t (pairs_m m ! slot m h d) key"
    and go: "\<And>e. e < d \<Longrightarrow> slot m h e \<noteq> kEmpty \<and>
      \<not> (live_at t m (slot m h e) \<and> IsKeyEqual t (pairs_m m ! slot m h e) key)"
    and "e \<le> d" "probes \<le> e"
  shows "Remove_loop t limit m key ((h + e) mod hash_table_size_m m) probes =
    Some (Inr (if slot m h d = kEmpty then (False, m)
               else (True, remove_at t ((h + d) mod hash_table_size_m m) m)))"
  using assms(7,8)
proof (induction rule: probe_induct)
  case (stop probes)
  then show ?case
    using assms(3-5) slot_index [OF wf(1)] live_at_bound [OF wf(1), of t "slot m h d"]
    by (subst Remove_loop.simps)
      (auto simp: wf_sizes_lengths [OF wf(1)] slot_def remove_at_def Let_def)
next
  case (step e probes)
  show ?case
    using go [OF step(1)] step(3) [of probes] step(3) [of "Suc probes"] step(1,2) assms(3,4)
      slot_index [OF wf(1)] slot_cases [OF wf, of h e] live_at_bound [OF wf(1), of t "slot m h e"]
    by (subst Remove_loop.simps)
      (auto simp: wf_sizes_lengths [OF wf(1)] slot_def Let_def probe_step [OF wf(1)])
qed

section \<open>Contents\<close>

lemma live_indices: "wf_sizes m \<Longrightarrow> live t m = map ((!) (pairs_m m)) (filter (live_at t m) [0..<next_pair_index_m m])"
proof -
  assume "wf_sizes m"
  then have "next_pair_index_m m \<le> length (pairs_m m)" by (simp add: wf_sizes_def)
  then have "take (next_pair_index_m m) (pairs_m m) = map ((!) (pairs_m m)) [0..<next_pair_index_m m]"
    by (intro nth_equalityI) simp_all
  moreover have "filter (live_at t m) [0..<next_pair_index_m m] =
      filter (\<lambda>j. ValueOf t (pairs_m m ! j) \<noteq> NoValue t) [0..<next_pair_index_m m]"
    by (rule filter_cong) (simp_all add: live_at_def)
  ultimately show ?thesis by (simp add: live_def filter_map comp_def)
qed

lemma set_live: "wf_sizes m \<Longrightarrow> set (live t m) = {pairs_m m ! j | j. live_at t m j}"
  by (auto simp: live_indices live_at_def)

lemma Size_live:
  assumes "wf_map t m"
  shows "Size m = length (live t m)" "deleted_count_m m \<le> next_pair_index_m m"
    "length (live t m) \<le> next_pair_index_m m"
proof -
  let ?n = "next_pair_index_m m"
  have wf: "wf_sizes m" using assms by (simp add: wf_map_def)
  have len: "length (live t m) = card {j. j < ?n \<and> live_at t m j}"
    unfolding live_indices [OF wf] length_map length_filter_conv_card by (rule arg_cong [of _ _ card]) auto
  have un: "{j. j < ?n \<and> live_at t m j} \<union> {j. j < ?n \<and> \<not> live_at t m j} = {..<?n}" by auto
  have "card ({j. j < ?n \<and> live_at t m j} \<union> {j. j < ?n \<and> \<not> live_at t m j}) =
      card {j. j < ?n \<and> live_at t m j} + card {j. j < ?n \<and> \<not> live_at t m j}"
    by (rule card_Un_disjoint) auto
  then have "card {j. j < ?n \<and> live_at t m j} + card {j. j < ?n \<and> \<not> live_at t m j} = ?n"
    unfolding un by simp
  then have sum: "length (live t m) + deleted_count_m m = ?n"
    using assms len by (simp add: wf_map_def)
  then show "deleted_count_m m \<le> ?n" "length (live t m) \<le> ?n" by simp_all
  have "length (live t m) < 0x100000000"
    using sum size_bounds [OF wf] wf by (simp add: wf_sizes_def)
  then show "Size m = length (live t m)"
    using sum [symmetric] unfolding Size_def by simp
qed

section \<open>Adding and removing one pair\<close>

definition free_slot :: "'p HashMap \<Rightarrow> nat \<Rightarrow> nat \<Rightarrow> bool" where
  "free_slot m h d =
     (d < hash_table_size_m m \<and> (slot m h d = kEmpty \<or> slot m h d = kDeleted) \<and>
      (\<forall>e < d. slot m h e \<noteq> kEmpty \<and> slot m h e \<noteq> kDeleted))"

lemma free_slot_exists:
  assumes "wf_sizes m" "wf_table t m"
  obtains d where "free_slot m h d"
proof -
  have "\<exists>d < hash_table_size_m m. slot m h d = kEmpty \<or> slot m h d = kDeleted"
    using exists_empty_slot [OF assms] by blast
  then show thesis by (rule first_such) (rule that, auto simp: free_slot_def)
qed

lemma put_pair_fields:
  assumes "wf_map t m" "next_pair_index_m m < pairs_size_m m"
  shows "next_pair_index_m (put_pair i kv m) = Suc (next_pair_index_m m)"
    "pairs_m (put_pair i kv m) = (pairs_m m)[next_pair_index_m m := kv]"
    "hash_table_m (put_pair i kv m) = (hash_table_m m)[i := next_pair_index_m m]"
    "hash_table_size_m (put_pair i kv m) = hash_table_size_m m"
    "pairs_size_m (put_pair i kv m) = pairs_size_m m"
    "deleted_count_m (put_pair i kv m) = deleted_count_m m"
proof -
  have "next_pair_index_m m + 1 < 0x100000000"
    using assms size_bounds [of m] by (simp add: wf_map_def wf_sizes_def)
  then show "next_pair_index_m (put_pair i kv m) = Suc (next_pair_index_m m)" by (simp add: put_pair_def)
qed (simp_all add: put_pair_def)

lemma live_at_put_pair:
  assumes "wf_map t m" "next_pair_index_m m < pairs_size_m m" "ValueOf t kv \<noteq> NoValue t"
  shows "live_at t (put_pair i kv m) j \<longleftrightarrow> live_at t m j \<or> j = next_pair_index_m m"
  using assms(2,3) wf_sizes_lengths(2) [of m] assms(1)
  by (auto simp: live_at_def put_pair_fields [OF assms(1,2)] nth_list_update wf_map_def)

lemma live_put_pair:
  assumes "wf_map t m" "next_pair_index_m m < pairs_size_m m" "ValueOf t kv \<noteq> NoValue t"
  shows "live t (put_pair i kv m) = live t m @ [kv]"
  using assms(2,3) wf_sizes_lengths(2) [of m] assms(1)
  by (simp add: live_def put_pair_fields [OF assms(1,2)] take_Suc_conv_app_nth wf_map_def)

lemma slot_put_pair:
  assumes "wf_map t m" "next_pair_index_m m < pairs_size_m m" "i < hash_table_size_m m"
  shows "slot (put_pair i kv m) h e =
    (if (h + e) mod hash_table_size_m m = i then next_pair_index_m m else slot m h e)"
  using assms(3) wf_sizes_lengths(1) [of m] assms(1)
  by (simp add: slot_def put_pair_fields [OF assms(1,2)] nth_list_update wf_map_def)

lemma wf_table_put_pair:
  assumes wf: "wf_map t m" and room: "next_pair_index_m m < pairs_size_m m"
    and v: "ValueOf t kv \<noteq> NoValue t" and i: "i < hash_table_size_m m"
  shows "wf_table t (put_pair i kv m)"
proof -
  let ?n = "next_pair_index_m m" and ?N = "hash_table_size_m m" and ?ht = "hash_table_m m"
  have sz: "wf_sizes m" and tb: "wf_table t m" using wf by (simp_all add: wf_map_def)
  have len: "length ?ht = ?N" using wf_sizes_lengths(1) [OF sz] .
  have fresh: "?ht ! j \<noteq> ?n" if "j < ?N" for j
    using tb that size_bounds [OF sz] sz room unfolding wf_table_def live_at_def wf_sizes_def by force
  have sub: "{j. j < ?N \<and> ?ht[i := ?n] ! j \<noteq> kEmpty} \<subseteq> insert i {j. j < ?N \<and> ?ht ! j \<noteq> kEmpty}"
    by (auto simp: nth_list_update len split: if_splits)
  have "card {j. j < ?N \<and> ?ht[i := ?n] ! j \<noteq> kEmpty} \<le> Suc (card {j. j < ?N \<and> ?ht ! j \<noteq> kEmpty})"
    using card_mono [OF _ sub] by (simp add: card_insert_if split: if_splits)
  then have "card {j. j < ?N \<and> ?ht[i := ?n] ! j \<noteq> kEmpty} \<le> Suc ?n"
    using tb unfolding wf_table_def by linarith
  moreover have "?ht[i := ?n] ! j = kEmpty \<or> ?ht[i := ?n] ! j = kDeleted \<or>
      live_at t m (?ht[i := ?n] ! j) \<or> ?ht[i := ?n] ! j = ?n" if "j < ?N" for j
    using tb that len i unfolding wf_table_def by (cases "i = j") (auto simp: nth_list_update)
  moreover have "j = j'" if "j < ?N" "j' < ?N" "?ht[i := ?n] ! j = ?ht[i := ?n] ! j'"
      "live_at t m (?ht[i := ?n] ! j) \<or> ?ht[i := ?n] ! j = ?n" for j j'
    using that tb fresh [of j] fresh [of j'] len i unfolding wf_table_def
    by (cases "i = j"; cases "i = j'") (simp_all add: live_at_def)
  ultimately show ?thesis
    unfolding wf_table_def
    by (simp add: put_pair_fields [OF wf room] live_at_put_pair [OF wf room v])
qed

lemma wf_chains_put_pair:
  assumes wf: "wf_map t m" and room: "next_pair_index_m m < pairs_size_m m"
    and v: "ValueOf t kv \<noteq> NoValue t" and f: "free_slot m (unat (Hash t (KeyOf t kv))) d"
  shows "wf_chains t (put_pair ((unat (Hash t (KeyOf t kv)) + d) mod hash_table_size_m m) kv m)"
proof -
  let ?n = "next_pair_index_m m" and ?N = "hash_table_size_m m" and ?h = "unat (Hash t (KeyOf t kv))"
  let ?i = "(?h + d) mod ?N"
  have sz: "wf_sizes m" and ch: "wf_chains t m" using wf by (simp_all add: wf_map_def)
  have i: "?i < ?N" using slot_index [OF sz] .
  have nE: "?n \<noteq> kEmpty" using size_bounds [OF sz] sz room by (simp add: wf_sizes_def)
  have hm: "home t (put_pair ?i kv m) j = (if j = ?n then ?h else home t m j)" if "j \<le> ?n" for j
    using that room wf_sizes_lengths(2) [OF sz]
    by (simp add: home_def put_pair_fields [OF wf room] nth_list_update)
  show ?thesis
    unfolding wf_chains_def
  proof (intro allI impI)
    fix j assume "live_at t (put_pair ?i kv m) j"
    then consider "live_at t m j" "j < ?n" | "j = ?n"
      using live_at_put_pair [OF wf room v] by (auto simp: live_at_def)
    then show "\<exists>d < hash_table_size_m (put_pair ?i kv m).
        slot (put_pair ?i kv m) (home t (put_pair ?i kv m) j) d = j \<and>
        (\<forall>e < d. slot (put_pair ?i kv m) (home t (put_pair ?i kv m) j) e \<noteq> kEmpty)"
    proof cases
      case 1
      then obtain c where c: "c < ?N" "slot m (home t m j) c = j" "\<And>e. e < c \<Longrightarrow> slot m (home t m j) e \<noteq> kEmpty"
        using ch unfolding wf_chains_def by blast
      moreover have "(home t m j + c) mod ?N \<noteq> ?i"
        using c(2) f live_at_bound [OF sz 1(1)] unfolding free_slot_def slot_def by auto
      ultimately show ?thesis
        using 1 nE by (intro exI [of _ c])
          (simp add: hm slot_put_pair [OF wf room i] put_pair_fields [OF wf room])
    next
      case 2
      then show ?thesis
        using f nE by (intro exI [of _ d])
          (simp add: hm slot_put_pair [OF wf room i] put_pair_fields [OF wf room] free_slot_def)
    qed
  qed
qed

lemma wf_map_put_pair:
  assumes wf: "wf_map t m" and room: "next_pair_index_m m < pairs_size_m m"
    and v: "ValueOf t kv \<noteq> NoValue t" and f: "free_slot m (unat (Hash t (KeyOf t kv))) d"
  shows "wf_map t (put_pair ((unat (Hash t (KeyOf t kv)) + d) mod hash_table_size_m m) kv m)"
proof -
  have sz: "wf_sizes m" using wf by (simp add: wf_map_def)
  let ?i = "(unat (Hash t (KeyOf t kv)) + d) mod hash_table_size_m m"
  have "{j. j < Suc (next_pair_index_m m) \<and> \<not> (live_at t m j \<or> j = next_pair_index_m m)} =
      {j. j < next_pair_index_m m \<and> \<not> live_at t m j}" by auto
  then show ?thesis
    using wf room wf_chains_put_pair [OF assms] wf_table_put_pair [OF wf room v slot_index [OF sz]]
    by (simp add: wf_map_def wf_sizes_def put_pair_fields [OF wf room] live_at_put_pair [OF wf room v])
qed

lemma remove_at_fields:
  assumes "wf_map t m"  and "i < hash_table_size_m m" "live_at t m (hash_table_m m ! i)"
  shows "next_pair_index_m (remove_at t i m) = next_pair_index_m m"
    "pairs_m (remove_at t i m) = (pairs_m m)[hash_table_m m ! i := DefaultPair t]"
    "hash_table_m (remove_at t i m) = (hash_table_m m)[i := kDeleted]"
    "hash_table_size_m (remove_at t i m) = hash_table_size_m m"
    "pairs_size_m (remove_at t i m) = pairs_size_m m"
    "deleted_count_m (remove_at t i m) = Suc (deleted_count_m m)"
proof -
  have "deleted_count_m m + 1 < 0x100000000"
    using assms(1) size_bounds [of m] Size_live(2) [OF assms(1)] by (simp add: wf_map_def wf_sizes_def)
  then show "deleted_count_m (remove_at t i m) = Suc (deleted_count_m m)" by (simp add: remove_at_def)
qed (simp_all add: remove_at_def)

lemma live_at_remove_at:
  assumes "wf_map t m" "i < hash_table_size_m m" "live_at t m (hash_table_m m ! i)"
  shows "live_at t (remove_at t i m) j \<longleftrightarrow> live_at t m j \<and> j \<noteq> hash_table_m m ! i"
  using assms(1,3) wf_sizes_lengths(2) [of m] live_at_bound [of m t]
  by (auto simp: live_at_def remove_at_fields [OF assms] nth_list_update wf_map_def NoValue_def)

lemma slot_remove_at:
  assumes "wf_map t m" "i < hash_table_size_m m" "live_at t m (hash_table_m m ! i)"
  shows "slot (remove_at t i m) h e =
    (if (h + e) mod hash_table_size_m m = i then kDeleted else slot m h e)"
  using assms wf_sizes_lengths(1) [of m]
  by (simp add: slot_def remove_at_fields [OF assms] nth_list_update wf_map_def)

lemma wf_table_remove_at:
  assumes wf: "wf_map t m" and i: "i < hash_table_size_m m" and l: "live_at t m (hash_table_m m ! i)"
  shows "wf_table t (remove_at t i m)"
proof -
  let ?N = "hash_table_size_m m" and ?ht = "hash_table_m m"
  have sz: "wf_sizes m" and tb: "wf_table t m" using wf by (simp_all add: wf_map_def)
  have len: "length ?ht = ?N" using wf_sizes_lengths(1) [OF sz] .
  have neq: "?ht ! i \<noteq> kEmpty" "\<not> live_at t m kDeleted"
    using live_at_bound [OF sz] l by fastforce+
  have "{j. j < ?N \<and> ?ht[i := kDeleted] ! j \<noteq> kEmpty} = {j. j < ?N \<and> ?ht ! j \<noteq> kEmpty}"
    using neq(1) i len by (auto simp: nth_list_update)
  moreover have "?ht[i := kDeleted] ! j = kEmpty \<or> ?ht[i := kDeleted] ! j = kDeleted \<or>
      live_at t m (?ht[i := kDeleted] ! j) \<and> ?ht[i := kDeleted] ! j \<noteq> ?ht ! i" if "j < ?N" for j
    using tb that len i l unfolding wf_table_def by (cases "i = j") (auto simp: nth_list_update)
  moreover have "j = j'" if "j < ?N" "j' < ?N" "?ht[i := kDeleted] ! j = ?ht[i := kDeleted] ! j'"
      "live_at t m (?ht[i := kDeleted] ! j)" for j j'
    using that tb len i neq(2) unfolding wf_table_def
    by (cases "i = j"; cases "i = j'") simp_all
  ultimately show ?thesis
    using tb unfolding wf_table_def
    by (simp add: remove_at_fields [OF assms] live_at_remove_at [OF assms])
qed

lemma wf_chains_remove_at:
  assumes wf: "wf_map t m" and i: "i < hash_table_size_m m" and l: "live_at t m (hash_table_m m ! i)"
  shows "wf_chains t (remove_at t i m)"
  unfolding wf_chains_def
proof (intro allI impI)
  let ?N = "hash_table_size_m m"
  have sz: "wf_sizes m" and ch: "wf_chains t m" using wf by (simp_all add: wf_map_def)
  fix j assume "live_at t (remove_at t i m) j"
  then have j: "live_at t m j" "j \<noteq> hash_table_m m ! i" by (simp_all add: live_at_remove_at [OF assms])
  have hm: "home t (remove_at t i m) j = home t m j"
    using j by (simp add: home_def remove_at_fields [OF assms])
  obtain c where c: "c < ?N" "slot m (home t m j) c = j" "\<And>e. e < c \<Longrightarrow> slot m (home t m j) e \<noteq> kEmpty"
    using ch j(1) unfolding wf_chains_def by blast
  moreover have "(home t m j + c) mod ?N \<noteq> i" using c(2) j(2) unfolding slot_def by auto
  ultimately show "\<exists>d < hash_table_size_m (remove_at t i m).
        slot (remove_at t i m) (home t (remove_at t i m) j) d = j \<and>
        (\<forall>e < d. slot (remove_at t i m) (home t (remove_at t i m) j) e \<noteq> kEmpty)"
    by (intro exI [of _ c]) (simp add: hm slot_remove_at [OF assms] remove_at_fields [OF assms])
qed

lemma wf_map_remove_at:
  assumes wf: "wf_map t m" and i: "i < hash_table_size_m m" and l: "live_at t m (hash_table_m m ! i)"
  shows "wf_map t (remove_at t i m)"
proof -
  let ?n = "next_pair_index_m m" and ?j = "hash_table_m m ! i"
  have "{j. j < ?n \<and> \<not> (live_at t m j \<and> j \<noteq> ?j)} = insert ?j {j. j < ?n \<and> \<not> live_at t m j}"
    using l by (auto simp: live_at_def)
  moreover have "?j \<notin> {j. j < ?n \<and> \<not> live_at t m j}" using l by simp
  ultimately have "card {j. j < ?n \<and> \<not> (live_at t m j \<and> j \<noteq> ?j)} = Suc (deleted_count_m m)"
    using wf by (simp add: wf_map_def)
  then show ?thesis
    using wf wf_table_remove_at [OF assms] wf_chains_remove_at [OF assms]
    by (simp add: wf_map_def wf_sizes_def remove_at_fields [OF assms] live_at_remove_at [OF assms])
qed

lemma take_nth_split:
  assumes "j < n" "n \<le> length xs"
  shows "take n xs = take j xs @ xs ! j # drop (Suc j) (take n xs)"
    "take n (xs[j := x]) = take j xs @ x # drop (Suc j) (take n xs)"
  using id_take_nth_drop [of j "take n xs"] upd_conv_take_nth_drop [of j "take n xs" x] assms
  by (simp_all add: take_update_swap min_absorb1)

lemma live_remove_at:
  assumes wf: "wf_map t m" and i: "i < hash_table_size_m m" and l: "live_at t m (hash_table_m m ! i)"
  shows "\<exists>ps qs. live t m = ps @ pairs_m m ! (hash_table_m m ! i) # qs \<and>
    live t (remove_at t i m) = ps @ qs"
proof -
  let ?n = "next_pair_index_m m" and ?j = "hash_table_m m ! i" and ?P = "pairs_m m"
  have "?j < ?n" using l by (simp add: live_at_def)
  have len: "?n \<le> length ?P" using wf by (simp add: wf_map_def wf_sizes_def)
  note split = take_nth_split [OF \<open>?j < ?n\<close> len]
  let ?f = "filter (\<lambda>p. ValueOf t p \<noteq> NoValue t)"
  have "live t m = ?f (take ?j ?P) @ ?P ! ?j # ?f (drop (Suc ?j) (take ?n ?P))"
    unfolding live_def by (subst split(1)) (use l in \<open>simp add: live_at_def\<close>)
  moreover have "live t (remove_at t i m) = ?f (take ?j ?P) @ ?f (drop (Suc ?j) (take ?n ?P))"
    unfolding live_def remove_at_fields(1,2) [OF assms] by (simp add: split(2) NoValue_def)
  ultimately show ?thesis by blast
qed

section \<open>Insertion and growth\<close>

lemma bit_ceil_power: "\<exists>k. bit_ceil x = 2 ^ k"
proof (induction x rule: bit_ceil.induct)
  case (1 x)
  then show ?case
    by (cases "x \<le> 1") (auto simp: bit_ceil.simps [of x] intro: exI [of _ "0::nat"] exI [of _ "Suc _"])
qed

lemma bit_ceil_ge: "x \<le> bit_ceil x"
proof (induction x rule: bit_ceil.induct)
  case (1 x)
  then show ?case by (cases "x \<le> 1") (simp_all add: bit_ceil.simps [of x])
qed

definition table_size :: "nat \<Rightarrow> nat" where
  "table_size n = bit_ceil (n * 4 div 3 + 1)"

definition fits :: "nat \<Rightarrow> nat \<Rightarrow> bool" where
  "fits limit n = (table_size n \<le> 2 ^ 31 \<and> table_size n < limit)"

definition map_ok :: "('p, 'k, 'v) KeyValueTrait \<Rightarrow> nat \<Rightarrow> 'p HashMap \<Rightarrow> bool" where
  "map_ok t limit m =
     (wf_map t m \<and> next_pair_index_m m < pairs_size_m m \<and> hash_table_size_m m < limit)"

lemma table_size_gt: "n < table_size n"
proof -
  have "n \<le> n * 4 div 3" by simp
  then show ?thesis using bit_ceil_ge [of "n * 4 div 3 + 1"] unfolding table_size_def by linarith
qed

lemma empty_map_ok:
  assumes "fits limit n" "0 < n"
  shows "map_ok t limit (empty_map t n)" "live t (empty_map t n) = []"
    "next_pair_index_m (empty_map t n) = 0" "pairs_size_m (empty_map t n) = n"
proof -
  have le: "table_size n \<le> 2 ^ 31" using assms by (simp add: fits_def)
  have gt: "n < table_size n" by (rule table_size_gt)
  have n: "to_u32 n = n" "to_u32 (RoundUpToPowerOfTwo (n * 4 div 3 + 1)) = table_size n"
    using gt le by (simp_all add: RoundUpToPowerOfTwo_def table_size_def)
  obtain k where k: "table_size n = 2 ^ k" using bit_ceil_power unfolding table_size_def by blast
  then have "k \<le> 31" using le power_le_imp_le_exp [of "2::nat" k 31] by simp
  then have "wf_sizes (empty_map t n)"
    using gt k n by (auto simp: wf_sizes_def empty_map_def Let_def)
  then show "map_ok t limit (empty_map t n)"
    using n assms unfolding map_ok_def wf_map_def wf_table_def wf_chains_def
    by (auto simp: empty_map_def Let_def live_at_def fits_def)
qed (use assms table_size_gt [of n] in \<open>simp_all add: live_def empty_map_def Let_def fits_def\<close>)

lemma Insert_loop_free:
  assumes "map_ok t limit m" "free_slot m (unat (Hash t key)) d"
  shows "Insert_loop limit m (start_index t m key) 0 =
    Some (Inr ((unat (Hash t key) + d) mod hash_table_size_m m))"
  using Insert_loop_from [of m t limit d "unat (Hash t key)" 0 0] assms
  by (simp add: map_ok_def wf_map_def free_slot_def start_index_def and_mask_mod)

lemma Insert_with_room:
  assumes ok: "map_ok t limit m" and v: "ValueOf t kv \<noteq> NoValue t"
  obtains m' where "wf_map t m'" "live t m' = live t m @ [kv]"
    "next_pair_index_m m' = Suc (next_pair_index_m m)" "pairs_size_m m' = pairs_size_m m"
    "hash_table_size_m m' = hash_table_size_m m"
    "\<And>resize. Insert_with resize t limit kv m =
       (if Suc (next_pair_index_m m) = pairs_size_m m then resize (push_bit 1 (Size m')) m' else Some (Inr m'))"
proof -
  have wf: "wf_map t m" and room: "next_pair_index_m m < pairs_size_m m"
    using ok by (simp_all add: map_ok_def)
  obtain d where d: "free_slot m (unat (Hash t (KeyOf t kv))) d"
    using free_slot_exists [of m t] wf unfolding wf_map_def by blast
  have "length (pairs_m m) = pairs_size_m m" using wf by (simp add: wf_map_def wf_sizes_def)
  then show thesis
    using that [OF wf_map_put_pair [OF wf room v d] live_put_pair [OF wf room v]] room
    by (simp add: Insert_with_def Insert_loop_free [OF ok d] put_pair_fields [OF wf room] Let_def)
qed

text \<open>With enough room a sequence of insertions does not resize: the result is the same for every resizing function.\<close>

lemma each_pair_insert:
  assumes "map_ok t limit m"
    and "next_pair_index_m m + length (filter (\<lambda>p. ValueOf t p \<noteq> NoValue t) ps) < pairs_size_m m"
  shows "\<exists>m'. (\<forall>resize. each_pair (\<lambda>p m. if ValueOf t p = NoValue t then Some (Inr m)
                          else Insert_with resize t limit p m) ps m = Some (Inr m')) \<and>
    map_ok t limit m' \<and> live t m' = live t m @ filter (\<lambda>p. ValueOf t p \<noteq> NoValue t) ps \<and>
    pairs_size_m m' = pairs_size_m m \<and> hash_table_size_m m' = hash_table_size_m m \<and>
    next_pair_index_m m' = next_pair_index_m m + length (filter (\<lambda>p. ValueOf t p \<noteq> NoValue t) ps)"
  using assms
proof (induction ps arbitrary: m)
  case (Cons p ps)
  show ?case
  proof (cases "ValueOf t p = NoValue t")
    case True
    then show ?thesis using Cons by simp
  next
    case False
    then obtain m' where m': "wf_map t m'" "live t m' = live t m @ [p]"
      "next_pair_index_m m' = Suc (next_pair_index_m m)" "pairs_size_m m' = pairs_size_m m"
      "hash_table_size_m m' = hash_table_size_m m"
      "\<And>resize. Insert_with resize t limit p m = (if Suc (next_pair_index_m m) = pairs_size_m m
         then resize (push_bit 1 (Size m')) m' else Some (Inr m'))"
      using Insert_with_room [OF Cons.prems(1) False] by blast
    moreover have "map_ok t limit m'" using m' Cons.prems False by (auto simp: map_ok_def)
    ultimately show ?thesis using Cons.IH [of m'] Cons.prems(2) False by auto
  qed
qed (use assms in simp)

lemma Resize_rebuilds:
  assumes "next_pair_index_m m \<le> length (pairs_m m)" "length (live t m) < n" "fits limit n"
  shows "\<exists>m'. Resize t limit n m = Some (Inr m') \<and>
    (\<forall>resize. Resize_with (Insert_with resize t limit) t n m = Some (Inr m')) \<and> map_ok t limit m' \<and> live t m' = live t m \<and>
    pairs_size_m m' = n \<and> hash_table_size_m m' = table_size n \<and> next_pair_index_m m' = length (live t m)"
proof -
  have "0 < n" using assms(2) by simp
  note e = empty_map_ok [OF assms(3) this, of t]
  have "hash_table_size_m (empty_map t n) = table_size n"
    using assms(3) by (simp add: empty_map_def Let_def RoundUpToPowerOfTwo_def table_size_def fits_def)
  moreover obtain m' where m': "\<And>resize. each_pair (\<lambda>p m. if ValueOf t p = NoValue t then Some (Inr m)
                          else Insert_with resize t limit p m)
        (take (next_pair_index_m m) (pairs_m m)) (empty_map t n) = Some (Inr m')"
      "map_ok t limit m'" "live t m' = live t m" "pairs_size_m m' = n"
      "hash_table_size_m m' = hash_table_size_m (empty_map t n)" "next_pair_index_m m' = length (live t m)"
    using each_pair_insert [OF e(1), of "take (next_pair_index_m m) (pairs_m m)"] assms(2) e(2-4)
    by (auto simp: live_def)
  ultimately show ?thesis
    using assms(1) by (subst Resize.simps) (simp add: Resize_with_def)
qed

lemma Resize_correct:
  assumes "next_pair_index_m m \<le> length (pairs_m m)" "length (live t m) < n" "fits limit n"
  shows "\<exists>m'. Resize t limit n m = Some (Inr m') \<and> map_ok t limit m' \<and> live t m' = live t m"
  using Resize_rebuilds [OF assms] by blast

text \<open>An insertion appends the pair. If this fills the array of pairs, the map is rebuilt for twice the number of pairs.\<close>

lemma Insert_sizes:
  assumes ok: "map_ok t limit m" and v: "ValueOf t kv \<noteq> NoValue t"
    and grow: "Suc (next_pair_index_m m) = pairs_size_m m \<Longrightarrow> fits limit (2 * Suc (length (live t m)))"
  shows "\<exists>m'. Insert t limit kv m = Some (Inr m') \<and> map_ok t limit m' \<and> live t m' = live t m @ [kv] \<and>
    (if Suc (next_pair_index_m m) = pairs_size_m m then
       pairs_size_m m' = 2 * Suc (length (live t m)) \<and> hash_table_size_m m' = table_size (2 * Suc (length (live t m))) \<and>
       next_pair_index_m m' = Suc (length (live t m))
     else pairs_size_m m' = pairs_size_m m \<and> hash_table_size_m m' = hash_table_size_m m \<and>
       next_pair_index_m m' = Suc (next_pair_index_m m))"
proof -
  obtain m' where m': "wf_map t m'" "live t m' = live t m @ [kv]"
    "next_pair_index_m m' = Suc (next_pair_index_m m)" "pairs_size_m m' = pairs_size_m m"
    "hash_table_size_m m' = hash_table_size_m m"
    "Insert_with (Resize t limit) t limit kv m = (if Suc (next_pair_index_m m) = pairs_size_m m
       then Resize t limit (push_bit 1 (Size m')) m' else Some (Inr m'))"
    using Insert_with_room [OF ok v] by blast
  show ?thesis
  proof (cases "Suc (next_pair_index_m m) = pairs_size_m m")
    case True
    let ?n = "2 * Suc (length (live t m))"
    have "push_bit 1 (Size m') = ?n"
      using Size_live(1) [OF m'(1)] m'(2) by (simp add: push_bit_eq_mult)
    moreover obtain m'' where "Resize t limit ?n m' = Some (Inr m'')" "map_ok t limit m''" "live t m'' = live t m'"
        "pairs_size_m m'' = ?n" "hash_table_size_m m'' = table_size ?n" "next_pair_index_m m'' = length (live t m')"
      using Resize_rebuilds [of m' t ?n limit] m'(1,2) grow [OF True] by (auto simp: wf_map_def wf_sizes_def)
    ultimately show ?thesis using m' True by (simp add: Insert_def)
  next
    case False
    then show ?thesis using m' ok by (auto simp: Insert_def map_ok_def)
  qed
qed

lemma Insert_correct:
  assumes "map_ok t limit m" "ValueOf t kv \<noteq> NoValue t"
    and "Suc (next_pair_index_m m) = pairs_size_m m \<Longrightarrow> fits limit (2 * Suc (length (live t m)))"
  shows "\<exists>m'. Insert t limit kv m = Some (Inr m') \<and> map_ok t limit m' \<and> live t m' = live t m @ [kv]"
  using Insert_sizes [OF assms] by blast

lemma new_map_correct:
  assumes "fits limit initial_size" "0 < initial_size"
  shows "\<exists>m. new_map t limit initial_size = Some (Inr m) \<and> map_ok t limit m \<and> live t m = []"
  unfolding new_map_def
  using Resize_correct [of "\<lparr>hash_table_m = [], pairs_m = [], hash_table_size_m = 0, pairs_size_m = 0,
        next_pair_index_m = 0, deleted_count_m = 0\<rparr>" t initial_size limit] assms
  by (simp add: live_def)

lemma Clear_correct:
  assumes "map_ok t limit m"
  shows "map_ok t limit (Clear t m)" "live t (Clear t m) = []"
proof -
  have "wf_sizes (Clear t m)"
    using assms by (auto simp: map_ok_def wf_map_def wf_sizes_def Clear_def)
  then show "map_ok t limit (Clear t m)"
    using assms by (auto simp: map_ok_def wf_map_def wf_table_def wf_chains_def live_at_def Clear_def)
  show "live t (Clear t m) = []" by (simp add: live_def Clear_def)
qed

text \<open>The iterator visits the pairs that are present in the order of their insertion.\<close>

lemma Iterator_Next_correct:
  "(case Iterator_Next t m i of
      (None, i') \<Rightarrow> filter (live_at t m) [i..<next_pair_index_m m] = []
    | (Some j, i') \<Rightarrow> filter (live_at t m) [i..<next_pair_index_m m] =
        j # filter (live_at t m) [i'..<next_pair_index_m m])"
proof (induction t m i rule: Iterator_Next.induct)
  case (1 t m i)
  then show ?case
    by (subst Iterator_Next.simps) (auto simp: live_at_def upt_conv_Cons split: prod.splits option.splits)
qed

section \<open>Searching and replacing\<close>

definition hits :: "('p, 'k, 'v) KeyValueTrait \<Rightarrow> 'p HashMap \<Rightarrow> 'k \<Rightarrow> nat \<Rightarrow> bool" where
  "hits t m key d =
     (live_at t m (slot m (unat (Hash t key)) d) \<and>
      IsKeyEqual t (pairs_m m ! slot m (unat (Hash t key)) d) key)"

definition stops :: "('p, 'k, 'v) KeyValueTrait \<Rightarrow> 'p HashMap \<Rightarrow> 'k \<Rightarrow> nat \<Rightarrow> bool" where
  "stops t m key d =
     (d < hash_table_size_m m \<and> (slot m (unat (Hash t key)) d = kEmpty \<or> hits t m key d) \<and>
      (\<forall>e < d. slot m (unat (Hash t key)) e \<noteq> kEmpty \<and> \<not> hits t m key e))"

lemma stops_exists:
  assumes "wf_map t m"
  obtains d where "stops t m key d"
proof -
  have "\<exists>d < hash_table_size_m m. slot m (unat (Hash t key)) d = kEmpty \<or> hits t m key d"
    using exists_empty_slot [of m t "unat (Hash t key)"] assms unfolding wf_map_def by blast
  then show thesis by (rule first_such) (rule that, auto simp: stops_def)
qed

lemma Lookup_stops:
  assumes "map_ok t limit m" "stops t m key d"
  shows "Lookup t limit m key = Some (Inr (if slot m (unat (Hash t key)) d = kEmpty then None
    else Some (slot m (unat (Hash t key)) d)))"
  using Lookup_loop_from [of m t limit d "unat (Hash t key)" key 0 0] assms
  by (auto simp: map_ok_def wf_map_def stops_def hits_def Lookup_def start_index_def and_mask_mod)

lemma Remove_stops:
  assumes "map_ok t limit m" "stops t m key d"
  shows "Remove t limit key m = Some (Inr (if slot m (unat (Hash t key)) d = kEmpty then (False, m)
    else (True, remove_at t ((unat (Hash t key) + d) mod hash_table_size_m m) m)))"
  using Remove_loop_from [of m t limit d "unat (Hash t key)" key 0 0] assms
  by (auto simp: map_ok_def wf_map_def stops_def hits_def Remove_def start_index_def and_mask_mod)

lemma wf_map_replace_pair:
  assumes "wf_map t m" "live_at t m j" "ValueOf t kv \<noteq> NoValue t"
    "Hash t (KeyOf t (pairs_m m ! j)) = Hash t (KeyOf t kv)"
  shows "wf_map t (m\<lparr>pairs_m := (pairs_m m)[j := kv]\<rparr>)"
proof -
  let ?m = "m\<lparr>pairs_m := (pairs_m m)[j := kv]\<rparr>"
  have len: "next_pair_index_m m \<le> length (pairs_m m)" using assms(1) by (simp add: wf_map_def wf_sizes_def)
  have "live_at t ?m = live_at t m"
    using assms(2,3) len by (auto simp: live_at_def nth_list_update fun_eq_iff)
  moreover have "home t ?m i = home t m i" for i
    using assms(2,4) len by (auto simp: home_def live_at_def nth_list_update)
  ultimately show ?thesis
    using assms(1) by (simp add: wf_map_def wf_sizes_def wf_table_def wf_chains_def slot_def)
qed

lemma live_replace_pair:
  assumes "wf_map t m" "live_at t m j" "ValueOf t kv \<noteq> NoValue t"
    "Hash t (KeyOf t (pairs_m m ! j)) = Hash t (KeyOf t kv)"
  shows "\<exists>ps qs. live t m = ps @ pairs_m m ! j # qs \<and>
    live t (m\<lparr>pairs_m := (pairs_m m)[j := kv]\<rparr>) = ps @ kv # qs"
proof -
  let ?n = "next_pair_index_m m" and ?P = "pairs_m m" and ?f = "filter (\<lambda>p. ValueOf t p \<noteq> NoValue t)"
  have j: "j < ?n" "ValueOf t (?P ! j) \<noteq> NoValue t" using assms(2) by (simp_all add: live_at_def)
  have len: "?n \<le> length ?P" using assms(1) by (simp add: wf_map_def wf_sizes_def)
  note split = take_nth_split [OF j(1) len]
  have "live t m = ?f (take j ?P) @ ?P ! j # ?f (drop (Suc j) (take ?n ?P))"
    unfolding live_def by (subst split(1)) (simp add: j)
  moreover have "live t (m\<lparr>pairs_m := ?P[j := kv]\<rparr>) = ?f (take j ?P) @ kv # ?f (drop (Suc j) (take ?n ?P))"
    unfolding live_def by (simp add: split(2) assms(3))
  ultimately show ?thesis by blast
qed

section \<open>Contract with the trait\<close>

text \<open>What the map needs of a trait: a pair has the key it is stored under, and equal keys have
  equal hashes.\<close>

locale key_value_trait =
  fixes t :: "('p, 'k, 'v) KeyValueTrait"
  assumes eq_refl: "IsKeyEqual t p (KeyOf t p)"
    and eq_hash: "IsKeyEqual t p key \<Longrightarrow> Hash t (KeyOf t p) = Hash t key"
    and eq_trans: "IsKeyEqual t p key \<Longrightarrow> IsKeyEqual t q key = IsKeyEqual t q (KeyOf t p)"
begin

text \<open>A search for \<open>key\<close> that stops at an empty slot has seen every pair with that key.\<close>

lemma stops_empty:
  assumes wf: "wf_map t m" and stops: "stops t m key d" and e: "slot m (unat (Hash t key)) d = kEmpty"
  shows "\<forall>p \<in> set (live t m). \<not> IsKeyEqual t p key"
proof -
  let ?h = "unat (Hash t key)"
  have sz: "wf_sizes m" and ch: "wf_chains t m" using wf by (simp_all add: wf_map_def)
  have "\<not> IsKeyEqual t (pairs_m m ! j) key" if j: "live_at t m j" for j
  proof
    assume eq: "IsKeyEqual t (pairs_m m ! j) key"
    then have "home t m j = ?h" using eq_hash by (simp add: home_def)
    then obtain c where c: "slot m ?h c = j" "\<And>e. e < c \<Longrightarrow> slot m ?h e \<noteq> kEmpty"
      using ch j unfolding wf_chains_def by auto
    moreover have "j \<noteq> kEmpty" using live_at_bound [OF sz j] by simp
    ultimately have "c < d" using e by (metis linorder_neqE_nat)
    then show False using stops c(1) j eq unfolding stops_def hits_def by blast
  qed
  then show ?thesis by (auto simp: set_live [OF sz])
qed

lemma Lookup_correct:
  assumes ok: "map_ok t limit m"
  shows "(\<exists>j. Lookup t limit m key = Some (Inr (Some j)) \<and> live_at t m j \<and> IsKeyEqual t (pairs_m m ! j) key) \<or>
    Lookup t limit m key = Some (Inr None) \<and> (\<forall>p \<in> set (live t m). \<not> IsKeyEqual t p key)"
proof -
  have wf: "wf_map t m" using ok by (simp add: map_ok_def)
  obtain d where d: "stops t m key d" using stops_exists [OF wf] .
  then show ?thesis
    using Lookup_stops [OF ok d] stops_empty [OF wf d] by (auto simp: stops_def hits_def)
qed

lemma Remove_correct:
  assumes ok: "map_ok t limit m"
  shows "(\<exists>m' ps p qs. Remove t limit key m = Some (Inr (True, m')) \<and> map_ok t limit m' \<and>
      IsKeyEqual t p key \<and> live t m = ps @ p # qs \<and> live t m' = ps @ qs) \<or>
    Remove t limit key m = Some (Inr (False, m)) \<and> (\<forall>p \<in> set (live t m). \<not> IsKeyEqual t p key)"
proof -
  have wf: "wf_map t m" and sz: "wf_sizes m" using ok by (simp_all add: map_ok_def wf_map_def)
  let ?h = "unat (Hash t key)"
  obtain d where d: "stops t m key d" using stops_exists [OF wf] .
  let ?i = "(?h + d) mod hash_table_size_m m"
  show ?thesis
  proof (cases "slot m ?h d = kEmpty")
    case True
    then show ?thesis using Remove_stops [OF ok d] stops_empty [OF wf d] by simp
  next
    case False
    then have l: "live_at t m (hash_table_m m ! ?i)" "IsKeyEqual t (pairs_m m ! (hash_table_m m ! ?i)) key"
      using d by (simp_all add: stops_def hits_def slot_def)
    note r = wf slot_index [OF sz, of ?h d] l(1)
    obtain ps qs where "live t m = ps @ pairs_m m ! (hash_table_m m ! ?i) # qs"
      "live t (remove_at t ?i m) = ps @ qs"
      using live_remove_at [OF r] by blast
    moreover have "map_ok t limit (remove_at t ?i m)"
      using ok wf_map_remove_at [OF r] by (simp add: map_ok_def remove_at_fields [OF r])
    ultimately show ?thesis using Remove_stops [OF ok d] False l(2) by auto
  qed
qed

lemma Update_correct:
  assumes ok: "map_ok t limit m" and v: "ValueOf t kv \<noteq> NoValue t"
    and grow: "Suc (next_pair_index_m m) = pairs_size_m m \<Longrightarrow> fits limit (2 * Suc (length (live t m)))"
  shows "\<exists>m'. Update t limit kv m = Some (Inr m') \<and> map_ok t limit m' \<and>
    ((\<exists>ps p qs. IsKeyEqual t p (KeyOf t kv) \<and> live t m = ps @ p # qs \<and> live t m' = ps @ kv # qs) \<or>
     (\<forall>p \<in> set (live t m). \<not> IsKeyEqual t p (KeyOf t kv)) \<and> live t m' = live t m @ [kv])"
proof -
  consider (found) j where "Lookup t limit m (KeyOf t kv) = Some (Inr (Some j))" "live_at t m j"
      "IsKeyEqual t (pairs_m m ! j) (KeyOf t kv)"
    | (absent) "Lookup t limit m (KeyOf t kv) = Some (Inr None)"
      "\<forall>p \<in> set (live t m). \<not> IsKeyEqual t p (KeyOf t kv)"
    using Lookup_correct [OF ok, of "KeyOf t kv"] by blast
  then show ?thesis
  proof cases
    case found
    have wf: "wf_map t m" using ok by (simp add: map_ok_def)
    have "Hash t (KeyOf t (pairs_m m ! j)) = Hash t (KeyOf t kv)" using eq_hash found(3) by simp
    note u = wf found(2) v this
    show ?thesis
      using found ok live_replace_pair [OF u] wf_map_replace_pair [OF u]
      by (auto simp: Update_def map_ok_def)
  next
    case absent
    then show ?thesis using Insert_correct [OF ok v grow] by (auto simp: Update_def)
  qed
qed

end

interpretation int_key: key_value_trait "IntKeyRawPointerValueTrait novalue" for novalue
  by unfold_locales (auto simp: IntKeyRawPointerValueTrait_def)

interpretation raw_pointer_key: key_value_trait "RawPointerKeyValueTrait novalue" for novalue
  by unfold_locales (auto simp: RawPointerKeyValueTrait_def)

interpretation number_key: key_value_trait "NumbersKeyValueTrait first novalue" for first novalue
  by unfold_locales (auto simp: NumbersKeyValueTrait_def)

section \<open>Integer maps as finite maps\<close>

lemma bit_ceil_le: "x \<le> 2 ^ k \<Longrightarrow> bit_ceil x \<le> 2 ^ k"
proof (induction x arbitrary: k rule: bit_ceil.induct)
  case (1 x)
  show ?case
  proof (cases "x \<le> 1")
    case False
    with 1(2) obtain k' where "k = Suc k'" by (cases k) simp_all
    then show ?thesis using 1(1) [of k'] 1(2) False by (simp add: bit_ceil.simps [of x])
  qed (simp add: bit_ceil.simps [of x])
qed

lemma fits_mono: "n \<le> n' \<Longrightarrow> fits limit n' \<Longrightarrow> fits limit n"
proof -
  assume "n \<le> n'" "fits limit n'"
  obtain k where k: "table_size n' = 2 ^ k" using bit_ceil_power unfolding table_size_def by blast
  have "n * 4 div 3 + 1 \<le> n' * 4 div 3 + 1" using \<open>n \<le> n'\<close> by (simp add: div_le_mono)
  also have "\<dots> \<le> 2 ^ k" using bit_ceil_ge [of "n' * 4 div 3 + 1"] k by (simp add: table_size_def)
  finally have "table_size n \<le> table_size n'" using bit_ceil_le k by (simp add: table_size_def)
  then show ?thesis using \<open>fits limit n'\<close> by (simp add: fits_def)
qed

datatype 'v map_op = OpInsert u64 'v | OpUpdate u64 'v | OpRemove u64

definition apply_op ::
    "'v \<Rightarrow> nat \<Rightarrow> 'v map_op \<Rightarrow> (u64 \<times> 'v) HashMap \<Rightarrow> (u64 \<times> 'v) HashMap hm_result" where
  "apply_op novalue limit op m =
     (case op of
        OpInsert k v \<Rightarrow> IntMap_Insert novalue limit k v m
      | OpUpdate k v \<Rightarrow> Update (IntKeyRawPointerValueTrait novalue) limit (k, v) m
      | OpRemove k \<Rightarrow>
          (case Remove (IntKeyRawPointerValueTrait novalue) limit k m of
             None \<Rightarrow> None
           | Some (Inl e) \<Rightarrow> Some (Inl e)
           | Some (Inr (b, m)) \<Rightarrow> Some (Inr m)))"

fun spec_op :: "'v map_op \<Rightarrow> (u64 \<rightharpoonup> 'v) \<Rightarrow> (u64 \<rightharpoonup> 'v)" where
  "spec_op (OpInsert k v) M = M(k \<mapsto> v)"
| "spec_op (OpUpdate k v) M = M(k \<mapsto> v)"
| "spec_op (OpRemove k) M = M(k := None)"

text \<open>What the callers have to respect: the value is not the one that marks a missing pair, and an
  inserted key is not in the map yet.\<close>

fun valid_op :: "'v \<Rightarrow> (u64 \<rightharpoonup> 'v) \<Rightarrow> 'v map_op \<Rightarrow> bool" where
  "valid_op novalue M (OpInsert k v) = (v \<noteq> novalue \<and> M k = None)"
| "valid_op novalue M (OpUpdate k v) = (v \<noteq> novalue)"
| "valid_op novalue M (OpRemove k) = True"

fun valid_ops :: "'v \<Rightarrow> (u64 \<rightharpoonup> 'v) \<Rightarrow> 'v map_op list \<Rightarrow> bool" where
  "valid_ops novalue M [] = True"
| "valid_ops novalue M (op # ops) = (valid_op novalue M op \<and> valid_ops novalue (spec_op op M) ops)"

definition implements :: "'v \<Rightarrow> nat \<Rightarrow> (u64 \<times> 'v) HashMap \<Rightarrow> (u64 \<rightharpoonup> 'v) \<Rightarrow> bool" where
  "implements novalue limit m M =
     (map_ok (IntKeyRawPointerValueTrait novalue) limit m \<and>
      distinct (map fst (live (IntKeyRawPointerValueTrait novalue) m)) \<and>
      map_of (live (IntKeyRawPointerValueTrait novalue) m) = M)"

lemma int_trait [simp]:
  "KeyOf (IntKeyRawPointerValueTrait novalue) = fst"
  "ValueOf (IntKeyRawPointerValueTrait novalue) = snd"
  "IsKeyEqual (IntKeyRawPointerValueTrait novalue) p k \<longleftrightarrow> fst p = k"
  "NoValue (IntKeyRawPointerValueTrait novalue) = novalue"
  by (simp_all add: IntKeyRawPointerValueTrait_def NoValue_def)

lemma map_of_replace:
  "distinct (map fst (ps @ p # qs)) \<Longrightarrow> fst p = k \<Longrightarrow>
     map_of (ps @ (k, v) # qs) = (map_of (ps @ p # qs))(k \<mapsto> v)"
  by (induction ps) (auto simp: fun_upd_twist simp del: map_of_append)

lemma map_of_delete:
  "distinct (map fst (ps @ p # qs)) \<Longrightarrow> fst p = k \<Longrightarrow>
     map_of (ps @ qs) = (map_of (ps @ p # qs))(k := None)"
proof (induction ps)
  case Nil
  then have "map_of qs k = None" by (auto simp: map_of_eq_None_iff)
  then show ?case using Nil by (cases p) (auto simp: fun_eq_iff)
qed (auto simp: fun_upd_twist simp del: map_of_append)

lemma map_of_append_new:
  assumes "map_of ps k = None"
  shows "map_of (ps @ [(k, v)]) = (map_of ps)(k \<mapsto> v)"
  using assms by (auto simp: fun_eq_iff map_add_def split: option.splits)

lemma apply_op_implements:
  assumes m: "implements novalue limit m M" and v: "valid_op novalue M op"
    and grow: "fits limit (2 * Suc (length (live (IntKeyRawPointerValueTrait novalue) m)))"
  shows "\<exists>m'. apply_op novalue limit op m = Some (Inr m') \<and> implements novalue limit m' (spec_op op M) \<and>
    length (live (IntKeyRawPointerValueTrait novalue) m') \<le> Suc (length (live (IntKeyRawPointerValueTrait novalue) m))"
proof -
  let ?t = "IntKeyRawPointerValueTrait novalue"
  have ok: "map_ok ?t limit m" and ds: "distinct (map fst (live ?t m))" and M: "map_of (live ?t m) = M"
    using m by (simp_all add: implements_def)
  have new: ?thesis if "apply_op novalue limit op m = Some (Inr m')" "map_ok ?t limit m'"
      "live ?t m' = live ?t m @ [(k, w)]" "M k = None" "spec_op op M = M(k \<mapsto> w)" for m' k w
    using that ds M map_of_append_new [of "live ?t m" k w]
    by (auto simp: implements_def map_of_eq_None_iff simp del: map_of_append)
  show ?thesis
  proof (cases op)
    case (OpInsert k w)
    then show ?thesis
      using Insert_correct [OF ok, of "(k, w)"] grow v new [of _ k w]
      by (auto simp: apply_op_def IntMap_Insert_def)
  next
    case (OpUpdate k w)
    obtain m' where m': "Update ?t limit (k, w) m = Some (Inr m')" "map_ok ?t limit m'"
      "(\<exists>ps p qs. fst p = k \<and> live ?t m = ps @ p # qs \<and> live ?t m' = ps @ (k, w) # qs) \<or>
       (\<forall>p \<in> set (live ?t m). fst p \<noteq> k) \<and> live ?t m' = live ?t m @ [(k, w)]"
      using int_key.Update_correct [OF ok, of "(k, w)"] grow v OpUpdate by auto
    from m'(3) show ?thesis
    proof (elim disjE exE conjE)
      fix ps p qs
      assume "fst p = k" "live ?t m = ps @ p # qs" "live ?t m' = ps @ (k, w) # qs"
      then show ?thesis
        using m'(1,2) OpUpdate ds M map_of_replace [of ps p qs k w]
        by (simp add: apply_op_def implements_def del: map_of_append)
    next
      assume "\<forall>p \<in> set (live ?t m). fst p \<noteq> k" "live ?t m' = live ?t m @ [(k, w)]"
      moreover from this have "M k = None" using M by (auto simp: map_of_eq_None_iff)
      ultimately show ?thesis using new [of m' k w] m' OpUpdate by (simp add: apply_op_def)
    qed
  next
    case (OpRemove k)
    from int_key.Remove_correct [OF ok, of k] show ?thesis
    proof (elim disjE exE conjE)
      fix m' ps p qs
      assume "Remove ?t limit k m = Some (Inr (True, m'))" "map_ok ?t limit m'" "IsKeyEqual ?t p k"
        "live ?t m = ps @ p # qs" "live ?t m' = ps @ qs"
      then show ?thesis
        using OpRemove ds M map_of_delete [of ps p qs k]
        by (simp add: apply_op_def implements_def del: map_of_append)
    next
      assume "Remove ?t limit k m = Some (Inr (False, m))" "\<forall>p \<in> set (live ?t m). \<not> IsKeyEqual ?t p k"
      moreover from this(2) have "M k = None" using M by (auto simp: map_of_eq_None_iff)
      ultimately show ?thesis using m OpRemove by (auto simp: apply_op_def fun_upd_idem)
    qed
  qed
qed

lemma apply_ops_implements:
  assumes "implements novalue limit m M" "valid_ops novalue M ops"
    and "fits limit (2 * (length (live (IntKeyRawPointerValueTrait novalue) m) + length ops))"
  shows "\<exists>m'. each_pair (apply_op novalue limit) ops m = Some (Inr m') \<and>
    implements novalue limit m' (fold spec_op ops M)"
  using assms
proof (induction ops arbitrary: m M)
  case (Cons op ops)
  let ?t = "IntKeyRawPointerValueTrait novalue"
  have "fits limit (2 * Suc (length (live ?t m)))" using Cons.prems(3) by (rule fits_mono [rotated]) simp
  then obtain m' where m': "apply_op novalue limit op m = Some (Inr m')"
    "implements novalue limit m' (spec_op op M)" "length (live ?t m') \<le> Suc (length (live ?t m))"
    using apply_op_implements [OF Cons.prems(1), of op] Cons.prems(2) by auto
  have "fits limit (2 * (length (live ?t m') + length ops))"
    using Cons.prems(3) by (rule fits_mono [rotated]) (use m'(3) in simp)
  then show ?case using Cons.IH [OF m'(2)] Cons.prems(2) m'(1) by simp
qed simp

lemma IntMap_Lookup_implements:
  assumes "implements novalue limit m M"
  shows "IntMap_Lookup novalue limit m k = Some (Inr (case M k of None \<Rightarrow> novalue | Some v \<Rightarrow> v))"
proof -
  let ?t = "IntKeyRawPointerValueTrait novalue"
  have ok: "map_ok ?t limit m" and ds: "distinct (map fst (live ?t m))" and M: "map_of (live ?t m) = M"
    using assms by (simp_all add: implements_def)
  from int_key.Lookup_correct [OF ok, of k] show ?thesis
  proof (elim disjE exE conjE)
    fix j assume j: "Lookup ?t limit m k = Some (Inr (Some j))" "live_at ?t m j" "IsKeyEqual ?t (pairs_m m ! j) k"
    then have "(k, snd (pairs_m m ! j)) \<in> set (live ?t m)"
      using ok by (auto simp: map_ok_def wf_map_def set_live intro!: exI [of _ j])
    then have "M k = Some (snd (pairs_m m ! j))" using ds M map_of_is_SomeI by fastforce
    then show ?thesis using j by (simp add: IntMap_Lookup_def)
  next
    assume "Lookup ?t limit m k = Some (Inr None)" "\<forall>p \<in> set (live ?t m). \<not> IsKeyEqual ?t p k"
    moreover from this(2) have "M k = None" using M by (auto simp: map_of_eq_None_iff)
    ultimately show ?thesis by (simp add: IntMap_Lookup_def)
  qed
qed

lemma Size_implements:
  assumes "implements novalue limit m M"
  shows "Size m = card (dom M)"
proof -
  let ?t = "IntKeyRawPointerValueTrait novalue"
  have "Size m = length (live ?t m)" "distinct (map fst (live ?t m))" "map_of (live ?t m) = M"
    using assms Size_live [of ?t m] by (simp_all add: implements_def map_ok_def)
  then show ?thesis using dom_map_of_conv_image_fst [of "live ?t m"] distinct_card [of "map fst (live ?t m)"] by simp
qed

end
