(* ===== verification/BitField.thy ===== *)
theory BitField
  imports PlatformUtils
begin

text \<open>
  The template \<open>BitField\<close> of \<^verbatim>\<open>runtime/vm/bitfield.h\<close>: packing a value into bits
  \<open>position .. position + size - 1\<close> of a storage word. The template arguments are a record, the
  storage type is a word of any length up to 64 bits, and a value of the field's type is its image
  under the cast to \<open>uint64_t\<close>. The container is read as an unsigned number; in the source a signed container
  differs from this only if one field without sign extension takes all of its bits, where the mask is converted with its sign.
  The theorems show that a field reads back the valid values that were
  encoded, and that updating one field leaves every disjoint field alone.
\<close>

section \<open>Definitions\<close>

record BitField =
  position :: nat
  bitsize :: nat
  sign_extended :: bool

definition NBitMask :: "nat \<Rightarrow> u64" where
  "NBitMask n = (if n = 64 then - 1 else push_bit n 1 - 1)"

definition kNextBit :: "BitField \<Rightarrow> nat" where
  "kNextBit f = position f + bitsize f"

definition mask_in_place :: "BitField \<Rightarrow> 's::len word" where
  "mask_in_place f = ucast (push_bit (position f) (NBitMask (bitsize f)))"

definition max_value :: "BitField \<Rightarrow> u64" where
  "max_value f = NBitMask (bitsize f - (if sign_extended f then 1 else 0))"

definition min_value :: "BitField \<Rightarrow> u64" where
  "min_value f = (if sign_extended f then NOT (max_value f) else 0)"

definition encode_unchecked :: "BitField \<Rightarrow> u64 \<Rightarrow> 's::len word" where
  "encode_unchecked f value = push_bit (position f) (ucast (value AND NBitMask (bitsize f)))"

definition decode :: "BitField \<Rightarrow> 's::len word \<Rightarrow> u64" where
  "decode f value =
     (let u = ucast value in
      if sign_extended f
      then signed_drop_bit (64 - bitsize f) (push_bit (64 - kNextBit f) u)
      else drop_bit (position f) u AND NBitMask (bitsize f))"

definition is_valid :: "'s::len itself \<Rightarrow> BitField \<Rightarrow> u64 \<Rightarrow> bool" where
  "is_valid s f value = (decode f (encode_unchecked f value :: 's word) = value)"

definition encode :: "BitField \<Rightarrow> u64 \<Rightarrow> 's::len word" where
  "encode f value = encode_unchecked f value"

definition update :: "BitField \<Rightarrow> u64 \<Rightarrow> 's::len word \<Rightarrow> 's word" where
  "update f value original = encode f value OR (NOT (mask_in_place f) AND original)"

section \<open>Fields\<close>

text \<open>The static assertions of the template.\<close>

definition fits_container :: "'s::len itself \<Rightarrow> BitField \<Rightarrow> bool" where
  "fits_container s f = (0 < bitsize f \<and> kNextBit f \<le> LENGTH('s) \<and> LENGTH('s) \<le> 64)"

lemma NBitMask_mask: "n \<le> 64 \<Longrightarrow> NBitMask n = mask n"
  by (auto simp: NBitMask_def mask_eq_exp_minus_1 push_bit_eq_mult)

lemma and_NBitMask: "n \<le> 64 \<Longrightarrow> x AND NBitMask n = take_bit n x"
  by (simp add: NBitMask_mask take_bit_eq_mask)

lemma bit_encode:
  assumes "fits_container TYPE('s::len) f"
  shows "bit (encode f v :: 's word) i \<longleftrightarrow> position f \<le> i \<and> i < kNextBit f \<and> bit v (i - position f)"
  using assms by (auto simp: encode_def encode_unchecked_def fits_container_def kNextBit_def and_NBitMask bit_simps)

lemma bit_mask_in_place:
  assumes "fits_container TYPE('s::len) f"
  shows "bit (mask_in_place f :: 's word) i \<longleftrightarrow> position f \<le> i \<and> i < kNextBit f"
  using assms by (auto simp: mask_in_place_def fits_container_def kNextBit_def NBitMask_mask bit_simps)

lemma bit_update:
  assumes "fits_container TYPE('s::len) f"
  shows "bit (update f v w :: 's word) i \<longleftrightarrow>
    (if position f \<le> i \<and> i < kNextBit f then bit v (i - position f) else bit w i)"
  using assms bit_imp_le_length [of w i]
  by (auto simp: update_def bit_encode bit_mask_in_place bit_or_iff bit_and_iff bit_not_iff)

lemma bit_decode:
  fixes w :: "'s::len word"
  assumes "fits_container TYPE('s) f"
  shows "bit (decode f w) i \<longleftrightarrow>
    (if i < bitsize f then bit w (position f + i)
     else sign_extended f \<and> i < 64 \<and> bit w (kNextBit f - 1))"
proof -
  have len: "0 < bitsize f" "position f + bitsize f \<le> LENGTH('s)" "LENGTH('s) \<le> 64"
    using assms by (simp_all add: fits_container_def kNextBit_def)
  show ?thesis
  proof (cases "sign_extended f")
    case True
    let ?u = "push_bit (64 - kNextBit f) (ucast w) :: u64"
    have u: "bit ?u n \<longleftrightarrow> 64 - kNextBit f \<le> n \<and> n < 64 \<and> bit w (n - (64 - kNextBit f))" for n
      using len by (auto simp: bit_simps dest: bit_imp_le_length)
    have "bit (decode f w) i \<longleftrightarrow>
        bit ?u (if 64 - (64 - bitsize f) \<le> i \<and> i < 64 then 63 else (64 - bitsize f) + i)"
      using True unfolding decode_def Let_def by (simp add: bit_signed_drop_bit_iff)
    moreover have "64 - (64 - bitsize f) = bitsize f" using len by simp
    moreover have "bit ?u 63 \<longleftrightarrow> bit w (kNextBit f - 1)"
      using len unfolding u by (auto simp: kNextBit_def)
    moreover have "bit ?u (64 - bitsize f + i) \<longleftrightarrow> bit w (position f + i)" if "i < bitsize f"
    proof -
      have "64 - bitsize f + i - (64 - kNextBit f) = position f + i" "64 - kNextBit f \<le> 64 - bitsize f + i"
        "64 - bitsize f + i < 64"
        using len that by (simp_all add: kNextBit_def)
      then show ?thesis unfolding u by simp
    qed
    moreover have "\<not> bit ?u (64 - bitsize f + i)" if "64 \<le> i" using that unfolding u by simp
    ultimately show ?thesis using True len by auto
  next
    case False
    then show ?thesis
      using len by (auto simp: decode_def Let_def and_NBitMask bit_simps dest: bit_imp_le_length)
  qed
qed

lemma decode_encode_bit:
  assumes "fits_container TYPE('s::len) f"
  shows "bit (decode f (encode f v :: 's word)) i \<longleftrightarrow>
    (if i < bitsize f then bit v i else sign_extended f \<and> i < 64 \<and> bit v (bitsize f - 1))"
  using assms by (auto simp: bit_decode bit_encode fits_container_def kNextBit_def)

text \<open>Which values a field can hold: the two's complement or the unsigned range of its size.\<close>

lemma decode_encode:
  assumes "fits_container TYPE('s::len) f"
  shows "decode f (encode f v :: 's word) =
    (if sign_extended f then signed_take_bit (bitsize f - 1) v else take_bit (bitsize f) v)"
proof -
  have "0 < bitsize f" "bitsize f \<le> 64" using assms by (simp_all add: fits_container_def kNextBit_def)
  then show ?thesis
    using assms
    by (intro bit_word_eqI)
      (auto simp: decode_encode_bit bit_simps bit_signed_take_bit_iff min_def less_Suc_eq_le
        dest: le_antisym)
qed

lemma is_valid_iff:
  assumes "fits_container TYPE('s::len) f"
  shows "is_valid TYPE('s) f v \<longleftrightarrow>
    (if sign_extended f then signed_take_bit (bitsize f - 1) v = v else take_bit (bitsize f) v = v)"
  using decode_encode [OF assms, of v] by (simp add: is_valid_def encode_def)

lemma decode_update_same:
  assumes "fits_container TYPE('s::len) f" "is_valid TYPE('s) f v"
  shows "decode f (update f v w :: 's word) = v"
proof -
  have "decode f (update f v w) = decode f (encode f v :: 's word)"
    using assms(1) by (intro bit_word_eqI) (auto simp: bit_decode bit_update bit_encode fits_container_def kNextBit_def)
  then show ?thesis using assms(2) by (simp add: is_valid_def encode_def)
qed

lemma decode_update_other:
  assumes "fits_container TYPE('s::len) f" "fits_container TYPE('s) g"
    and "kNextBit f \<le> position g \<or> kNextBit g \<le> position f"
  shows "decode g (update f v w :: 's word) = decode g w"
  using assms by (intro bit_word_eqI) (auto simp: bit_decode bit_update fits_container_def kNextBit_def)

lemma decode_or_encode:
  assumes "fits_container TYPE('s::len) f" "fits_container TYPE('s) g"
    and "kNextBit f \<le> position g \<or> kNextBit g \<le> position f"
  shows "decode g (encode f v OR w :: 's word) = decode g w"
  using assms by (intro bit_word_eqI) (auto simp: bit_decode bit_encode bit_or_iff fits_container_def kNextBit_def)

lemma word_le_mask_iff:
  fixes v :: u64
  assumes "n \<le> 64"
  shows "take_bit n v = v \<longleftrightarrow> v \<le> mask n"
proof -
  have "(mask n :: u64) = word_of_int (mask n)" by (simp add: mask_eq_exp_minus_1)
  then have "uint (mask n :: u64) = take_bit 64 (mask n)" by (simp only: uint_word_of_int_eq) simp
  moreover have "(2::int) ^ n \<le> 2 ^ 64" using assms by (intro power_increasing) auto
  then have "take_bit 64 (mask n :: int) = mask n"
    by (simp only: take_bit_int_eq_self_iff) (simp add: mask_eq_exp_minus_1)
  ultimately have "uint (mask n :: u64) = mask n" by simp
  then have "v \<le> mask n \<longleftrightarrow> uint v < 2 ^ n"
    by (auto simp: word_le_def mask_eq_exp_minus_1)
  also have "\<dots> \<longleftrightarrow> take_bit n (uint v) = uint v"
    by (simp add: take_bit_int_eq_self_iff)
  also have "\<dots> \<longleftrightarrow> take_bit n v = v"
    by (simp add: unsigned_take_bit_eq [symmetric] word_uint_eq_iff)
  finally show ?thesis by simp
qed

text \<open>The values that fit a field of the given size.\<close>

definition in_field_range :: "BitField \<Rightarrow> u64 \<Rightarrow> bool" where
  "in_field_range f v =
     (if sign_extended f then - (2 ^ (bitsize f - 1)) \<le> sint v \<and> sint v < 2 ^ (bitsize f - 1)
      else uint v < 2 ^ bitsize f)"

lemma is_valid_in_field_range:
  assumes "fits_container TYPE('s::len) f"
  shows "is_valid TYPE('s) f v \<longleftrightarrow> in_field_range f v"
proof -
  have n: "0 < bitsize f" "bitsize f \<le> 64" using assms by (simp_all add: fits_container_def kNextBit_def)
  have "signed_take_bit (bitsize f - 1) v = v \<longleftrightarrow>
      - (2 ^ (bitsize f - 1)) \<le> sint v \<and> sint v < 2 ^ (bitsize f - 1)"
    using n by (intro signed_take_bit_word_eq_iff) simp
  moreover have "take_bit (bitsize f) v = v \<longleftrightarrow> uint v < 2 ^ bitsize f"
    using take_bit_int_eq_self_iff [of "bitsize f" "uint v"]
    by (simp add: unsigned_take_bit_eq [symmetric] word_uint_eq_iff)
  ultimately show ?thesis by (simp add: is_valid_iff [OF assms] in_field_range_def)
qed

lemma sint_mask:
  assumes "n \<le> 63"
  shows "sint (mask n :: u64) = 2 ^ n - 1"
proof -
  have "(2::int) ^ n \<le> 2 ^ 63" using assms by (intro power_increasing) auto
  moreover have "(0::int) < 2 ^ n" by simp
  ultimately have "sint (word_of_int (2 ^ n - 1) :: u64) = 2 ^ n - 1"
    by (intro sint_word_of_int_64) linarith+
  then show ?thesis by (simp add: mask_eq_exp_minus_1)
qed

lemma is_valid_range:
  assumes "fits_container TYPE('s::len) f"
  shows "is_valid TYPE('s) f v \<longleftrightarrow>
    (if sign_extended f then sint (min_value f) \<le> sint v \<and> sint v \<le> sint (max_value f)
     else v \<le> max_value f)"
proof -
  have n: "0 < bitsize f" "bitsize f \<le> 64" using assms by (simp_all add: fits_container_def kNextBit_def)
  have max: "sint (max_value f) = 2 ^ (bitsize f - 1) - 1" if "sign_extended f"
    using that n sint_mask [of "bitsize f - 1"] by (simp add: max_value_def NBitMask_mask)
  have "sint (NOT x) = - sint x - 1" for x :: u64
    using sint_lt [of x] sint_ge [of x]
    by (simp add: signed_not_eq not_int_def signed_take_bit_int_eq_self_iff)
  then have "sint (min_value f) = - (2 ^ (bitsize f - 1))" if "sign_extended f"
    using that max by (simp add: min_value_def)
  moreover have "signed_take_bit (bitsize f - 1) v = v \<longleftrightarrow>
      - (2 ^ (bitsize f - 1)) \<le> sint v \<and> sint v < 2 ^ (bitsize f - 1)"
    using n by (intro signed_take_bit_word_eq_iff) simp
  ultimately show ?thesis
    using max n by (auto simp: is_valid_iff [OF assms] word_le_mask_iff max_value_def NBitMask_mask)
qed
end
