(* ===== verification/ObjectPool.thy ===== *)
theory ObjectPool
  imports HashMap BitField
begin

text \<open>
  \<open>ObjectPoolBuilder\<close> of \<^verbatim>\<open>runtime/vm/compiler/assembler/object_pool_builder.h\<close> and
  \<^verbatim>\<open>assembler_base.cc\<close>, for a 64-bit target: the pool of constants that generated code addresses
  by index. An entry that may not be patched is shared: a hash map from entries to indices finds it
  again. A builder may have a parent, whose entries it reuses and into which it is committed.

  An object is its identity, so \<open>IsSameObject\<close> is equality and a fresh handle is the same object; the
  hash of an object, \<open>ObjectHash\<close>, is a parameter. The equivalence object of a tagged entry is part of
  its value, since the constructors set it for tagged entries only. The value of an entry is a datatype
  with one constructor for each member of the source's union, and \<open>AddObject\<close> looks at the constructor where the source looks at the
  type in the traits; the two agree for the entries that the constructors build.
\<close>

section \<open>Entries\<close>

abbreviation (input) kPatchable :: u64 where "kPatchable \<equiv> 0"
abbreviation (input) kNotPatchable :: u64 where "kNotPatchable \<equiv> 1"

abbreviation (input) kSnapshotable :: u64 where "kSnapshotable \<equiv> 0"
abbreviation (input) kNotSnapshotable :: u64 where "kNotSnapshotable \<equiv> 1"
abbreviation (input) kResetToBootstrapNative :: u64 where "kResetToBootstrapNative \<equiv> 2"
abbreviation (input) kResetToSwitchableCallMissEntryPoint :: u64 where "kResetToSwitchableCallMissEntryPoint \<equiv> 3"
abbreviation (input) kSetToZero :: u64 where "kSetToZero \<equiv> 4"

abbreviation (input) kImmediate :: u64 where "kImmediate \<equiv> 0"
abbreviation (input) kTaggedObject :: u64 where "kTaggedObject \<equiv> 1"
abbreviation (input) kNativeFunction :: u64 where "kNativeFunction \<equiv> 2"
abbreviation (input) kImmediate128 :: u64 where "kImmediate128 \<equiv> 3"

definition TypeBits :: BitField where
  "TypeBits = \<lparr>position = 0, bitsize = 4, sign_extended = False\<rparr>"

definition PatchableBit :: BitField where
  "PatchableBit = \<lparr>position = kNextBit TypeBits, bitsize = 1, sign_extended = False\<rparr>"

definition SnapshotBehaviorBits :: BitField where
  "SnapshotBehaviorBits = \<lparr>position = kNextBit PatchableBit, bitsize = 3, sign_extended = False\<rparr>"

definition EncodeTraits :: "u64 \<Rightarrow> u64 \<Rightarrow> u64 \<Rightarrow> u8" where
  "EncodeTraits type patchable snapshot_behavior =
     encode TypeBits type OR encode PatchableBit patchable OR encode PatchableBit patchable
       OR encode SnapshotBehaviorBits snapshot_behavior"

datatype 'o entry_value = Obj 'o 'o | Imm u64 | Imm128 u32 u32 u32 u32

record 'o ObjectPoolBuilderEntry =
  entry_value :: "'o entry_value"
  entry_bits :: u8

definition entry_type :: "'o ObjectPoolBuilderEntry \<Rightarrow> u64" where
  "entry_type e = decode TypeBits (entry_bits e)"

definition patchable :: "'o ObjectPoolBuilderEntry \<Rightarrow> u64" where
  "patchable e = decode PatchableBit (entry_bits e)"

definition snapshot_behavior :: "'o ObjectPoolBuilderEntry \<Rightarrow> u64" where
  "snapshot_behavior e = decode SnapshotBehaviorBits (entry_bits e)"

definition object_entry :: "'o \<Rightarrow> 'o \<Rightarrow> u64 \<Rightarrow> u64 \<Rightarrow> 'o ObjectPoolBuilderEntry" where
  "object_entry obj eqv p sb = \<lparr>entry_value = Obj obj eqv, entry_bits = EncodeTraits kTaggedObject p sb\<rparr>"

definition word_entry :: "u64 \<Rightarrow> u64 \<Rightarrow> u64 \<Rightarrow> u64 \<Rightarrow> 'o ObjectPoolBuilderEntry" where
  "word_entry v info p sb = \<lparr>entry_value = Imm v, entry_bits = EncodeTraits info p sb\<rparr>"

definition simd_entry :: "u32 \<Rightarrow> u32 \<Rightarrow> u32 \<Rightarrow> u32 \<Rightarrow> 'o ObjectPoolBuilderEntry" where
  "simd_entry a b c d =
     \<lparr>entry_value = Imm128 a b c d, entry_bits = EncodeTraits kImmediate128 kNotPatchable kSnapshotable\<rparr>"

section \<open>The index table\<close>

type_synonym 'o ObjIndexPair = "'o ObjectPoolBuilderEntry \<times> int"

abbreviation kNoIndex :: int where "kNoIndex \<equiv> -1"

definition bytes_of :: "nat \<Rightarrow> u64 \<Rightarrow> u8 list" where
  "bytes_of n v = map (\<lambda>i. ucast (drop_bit (8 * i) v)) [0..<n]"

fun ObjIndexPair_Hash :: "('o \<Rightarrow> u64) \<Rightarrow> 'o ObjectPoolBuilderEntry \<Rightarrow> u64" where
  "ObjIndexPair_Hash ObjectHash key =
     (case entry_value key of
        Imm128 a b c d \<Rightarrow> ucast (HashBytes (concat (map (\<lambda>w. bytes_of 4 (ucast w)) [a, b, c, d])) 32)
      | Imm v \<Rightarrow> ucast (HashBytes (bytes_of 8 v) 32)
      | Obj obj eqv \<Rightarrow> ucast (CombineHashes (ucast (ObjectHash obj)) (ucast (ObjectHash eqv))))"

definition ObjIndexPair_IsKeyEqual :: "'o ObjIndexPair \<Rightarrow> 'o ObjectPoolBuilderEntry \<Rightarrow> bool" where
  "ObjIndexPair_IsKeyEqual kv key =
     (if entry_bits (fst kv) \<noteq> entry_bits key then False
      else case (entry_value (fst kv), entry_value key) of
          (Obj a e, Obj a' e') \<Rightarrow> a = a' \<and> e = e'
        | (Imm128 a b c d, Imm128 a' b' c' d') \<Rightarrow> a = a' \<and> b = b' \<and> c = c' \<and> d = d'
        | (Imm v, Imm v') \<Rightarrow> v = v'
        | _ \<Rightarrow> False)"

definition ObjIndexPair_trait ::
    "('o \<Rightarrow> u64) \<Rightarrow> ('o ObjIndexPair, 'o ObjectPoolBuilderEntry, int) KeyValueTrait" where
  "ObjIndexPair_trait ObjectHash =
     \<lparr>KeyOf = fst, ValueOf = snd, Hash = ObjIndexPair_Hash ObjectHash,
      IsKeyEqual = ObjIndexPair_IsKeyEqual,
      DefaultPair = (word_entry 0 kTaggedObject kPatchable kSnapshotable, kNoIndex)\<rparr>"

section \<open>The builder\<close>

record 'o ObjectPoolBuilder =
  base_index_m :: nat
  used_from_parent_m :: "int list"
  object_pool_m :: "'o ObjectPoolBuilderEntry list"
  object_pool_index_table_m :: "'o ObjIndexPair HashMap"

type_synonym 'o pool_result = "(int \<times> 'o ObjectPoolBuilder) hm_result"

definition CurrentLength :: "'o ObjectPoolBuilder \<Rightarrow> nat" where
  "CurrentLength b = length (object_pool_m b) + length (used_from_parent_m b)"

definition new_builder ::
    "('o \<Rightarrow> u64) \<Rightarrow> nat \<Rightarrow> 'o ObjectPoolBuilder option \<Rightarrow> 'o ObjectPoolBuilder hm_result" where
  "new_builder ObjectHash limit parent =
     (case new_map (ObjIndexPair_trait ObjectHash) limit 16 of
        None \<Rightarrow> None
      | Some (Inl e) \<Rightarrow> Some (Inl e)
      | Some (Inr table) \<Rightarrow>
          Some (Inr \<lparr>base_index_m = (case parent of None \<Rightarrow> 0 | Some p \<Rightarrow> CurrentLength p),
                     used_from_parent_m = [], object_pool_m = [], object_pool_index_table_m = table\<rparr>))"

definition Reset :: "('o \<Rightarrow> u64) \<Rightarrow> 'o ObjectPoolBuilder \<Rightarrow> 'o ObjectPoolBuilder" where
  "Reset ObjectHash b =
     b\<lparr>object_pool_m := [],
       object_pool_index_table_m := Clear (ObjIndexPair_trait ObjectHash) (object_pool_index_table_m b)\<rparr>"

definition index_entry ::
    "('o \<Rightarrow> u64) \<Rightarrow> nat \<Rightarrow> 'o ObjectPoolBuilderEntry \<Rightarrow> int \<Rightarrow> 'o ObjectPoolBuilder \<Rightarrow> 'o pool_result" where
  "index_entry ObjectHash limit entry idx b =
     (case Insert (ObjIndexPair_trait ObjectHash) limit (entry, idx) (object_pool_index_table_m b) of
        None \<Rightarrow> None
      | Some (Inl e) \<Rightarrow> Some (Inl e)
      | Some (Inr table) \<Rightarrow> Some (Inr (idx, b\<lparr>object_pool_index_table_m := table\<rparr>)))"

text \<open>The part of \<open>AddObject\<close> for an entry of one word, and the whole of it.\<close>

definition AddWord ::
    "('o \<Rightarrow> u64) \<Rightarrow> nat \<Rightarrow> 'o ObjectPoolBuilderEntry \<Rightarrow> 'o ObjectPoolBuilder \<Rightarrow> 'o pool_result" where
  "AddWord ObjectHash limit entry b =
     (let idx = int (base_index_m b + length (object_pool_m b));
          b = b\<lparr>object_pool_m := object_pool_m b @ [entry]\<rparr>
      in if patchable entry = kNotPatchable then index_entry ObjectHash limit entry idx b
         else Some (Inr (idx, b)))"

definition AddImmediate ::
    "('o \<Rightarrow> u64) \<Rightarrow> nat \<Rightarrow> u64 \<Rightarrow> u64 \<Rightarrow> u64 \<Rightarrow> 'o ObjectPoolBuilder \<Rightarrow> 'o pool_result" where
  "AddImmediate ObjectHash limit imm p sb =
     AddWord ObjectHash limit (word_entry imm kImmediate p sb)"

definition AddObject ::
    "('o \<Rightarrow> u64) \<Rightarrow> nat \<Rightarrow> 'o ObjectPoolBuilderEntry \<Rightarrow> 'o ObjectPoolBuilder \<Rightarrow> 'o pool_result" where
  "AddObject ObjectHash limit entry b =
     (case entry_value entry of
        Imm128 i0 i1 i2 i3 \<Rightarrow>
          (let lo64 = (ucast i0 AND 0xffffffff) OR push_bit 32 (ucast i1);
               hi64 = (ucast i2 AND 0xffffffff) OR push_bit 32 (ucast i3)
           in case AddImmediate ObjectHash limit lo64 kNotPatchable kSnapshotable b of
                None \<Rightarrow> None
              | Some (Inl e) \<Rightarrow> Some (Inl e)
              | Some (Inr (idx, b)) \<Rightarrow>
                  (case AddImmediate ObjectHash limit hi64 kNotPatchable kSnapshotable b of
                     None \<Rightarrow> None
                   | Some (Inl e) \<Rightarrow> Some (Inl e)
                   | Some (Inr (_, b)) \<Rightarrow> index_entry ObjectHash limit entry idx b))
      | _ \<Rightarrow> AddWord ObjectHash limit entry b)"

definition FindEntry ::
    "('o \<Rightarrow> u64) \<Rightarrow> nat \<Rightarrow> 'o ObjectPoolBuilder option \<Rightarrow> 'o ObjectPoolBuilderEntry \<Rightarrow>
     'o ObjectPoolBuilder \<Rightarrow> 'o pool_result" where
  "FindEntry ObjectHash limit parent entry b =
     (let look = (\<lambda>b'. LookupValue (ObjIndexPair_trait ObjectHash) limit (object_pool_index_table_m b') entry);
          own = (case look b of
                   None \<Rightarrow> None
                 | Some (Inl e) \<Rightarrow> Some (Inl e)
                 | Some (Inr idx) \<Rightarrow>
                     if idx \<noteq> kNoIndex then Some (Inr (idx, b)) else AddObject ObjectHash limit entry b)
      in if patchable entry = kNotPatchable
         then case parent of
                None \<Rightarrow> own
              | Some p \<Rightarrow>
                  (case look p of
                     None \<Rightarrow> None
                   | Some (Inl e) \<Rightarrow> Some (Inl e)
                   | Some (Inr idx) \<Rightarrow>
                       if idx \<noteq> kNoIndex
                       then Some (Inr (idx, b\<lparr>used_from_parent_m := used_from_parent_m b @ [idx]\<rparr>))
                       else own)
         else AddObject ObjectHash limit entry b)"

definition FindObject ::
    "('o \<Rightarrow> u64) \<Rightarrow> nat \<Rightarrow> 'o ObjectPoolBuilder option \<Rightarrow> 'o \<Rightarrow> u64 \<Rightarrow> u64 \<Rightarrow> 'o ObjectPoolBuilder \<Rightarrow> 'o pool_result" where
  "FindObject ObjectHash limit parent obj p sb =
     FindEntry ObjectHash limit parent (object_entry obj obj p sb)"

definition FindObject_eqv ::
    "('o \<Rightarrow> u64) \<Rightarrow> nat \<Rightarrow> 'o ObjectPoolBuilder option \<Rightarrow> 'o \<Rightarrow> 'o \<Rightarrow> 'o ObjectPoolBuilder \<Rightarrow> 'o pool_result" where
  "FindObject_eqv ObjectHash limit parent obj equivalence =
     FindEntry ObjectHash limit parent (object_entry obj equivalence kNotPatchable kSnapshotable)"

definition FindImmediate ::
    "('o \<Rightarrow> u64) \<Rightarrow> nat \<Rightarrow> 'o ObjectPoolBuilder option \<Rightarrow> u64 \<Rightarrow> 'o ObjectPoolBuilder \<Rightarrow> 'o pool_result" where
  "FindImmediate ObjectHash limit parent imm =
     FindEntry ObjectHash limit parent (word_entry imm kImmediate kNotPatchable kSnapshotable)"

definition FindImmediate128 ::
    "('o \<Rightarrow> u64) \<Rightarrow> nat \<Rightarrow> 'o ObjectPoolBuilder option \<Rightarrow> u32 \<Rightarrow> u32 \<Rightarrow> u32 \<Rightarrow> u32 \<Rightarrow>
     'o ObjectPoolBuilder \<Rightarrow> 'o pool_result" where
  "FindImmediate128 ObjectHash limit parent a b c d =
     FindEntry ObjectHash limit parent (simd_entry a b c d)"

definition FindNativeFunction ::
    "('o \<Rightarrow> u64) \<Rightarrow> nat \<Rightarrow> 'o ObjectPoolBuilder option \<Rightarrow> u64 \<Rightarrow> u64 \<Rightarrow> 'o ObjectPoolBuilder \<Rightarrow> 'o pool_result" where
  "FindNativeFunction ObjectHash limit parent address p =
     FindEntry ObjectHash limit parent (word_entry address kNativeFunction p kSnapshotable)"

text \<open>The first argument is the chain of parents.\<close>

fun EntryAt ::
    "'o ObjectPoolBuilder list \<Rightarrow> 'o ObjectPoolBuilder \<Rightarrow> nat \<Rightarrow> 'o ObjectPoolBuilderEntry option" where
  "EntryAt parents b i =
     (if i < length (used_from_parent_m b)
      then case parents of
             [] \<Rightarrow> None
           | p # ps \<Rightarrow> EntryAt ps p (nat (used_from_parent_m b ! i))
      else let j = i - length (used_from_parent_m b)
           in if j < length (object_pool_m b) then Some (object_pool_m b ! j) else None)"

text \<open>The indices that \<open>AddObject\<close> returns to \<open>TryCommitToParent\<close> are used in an assertion only.\<close>

definition TryCommitToParent ::
    "('o \<Rightarrow> u64) \<Rightarrow> nat \<Rightarrow> 'o ObjectPoolBuilder \<Rightarrow> 'o ObjectPoolBuilder \<Rightarrow> (bool \<times> 'o ObjectPoolBuilder) hm_result" where
  "TryCommitToParent ObjectHash limit parent b =
     (if CurrentLength parent \<noteq> base_index_m b then Some (Inr (False, parent))
      else case each_pair (\<lambda>entry p. case AddObject ObjectHash limit entry p of
                              None \<Rightarrow> None
                            | Some (Inl e) \<Rightarrow> Some (Inl e)
                            | Some (Inr (idx, p)) \<Rightarrow> Some (Inr p)) (object_pool_m b) parent of
             None \<Rightarrow> None
           | Some (Inl e) \<Rightarrow> Some (Inl e)
           | Some (Inr p) \<Rightarrow> Some (Inr (True, p)))"
section \<open>Entry traits\<close>

lemma trait_fields:
  "fits_container TYPE(8) TypeBits" "fits_container TYPE(8) PatchableBit"
  "fits_container TYPE(8) SnapshotBehaviorBits"
  by (simp_all add: fits_container_def kNextBit_def TypeBits_def PatchableBit_def SnapshotBehaviorBits_def)

lemmas trait_field_defs = kNextBit_def TypeBits_def PatchableBit_def SnapshotBehaviorBits_def

lemma bit_EncodeTraits:
  "bit (EncodeTraits ty p sb) i \<longleftrightarrow>
     (if i < 4 then bit ty i else if i = 4 then bit p 0 else i < 8 \<and> bit sb (i - 5))"
  unfolding EncodeTraits_def bit_or_iff bit_encode [OF trait_fields(1)] bit_encode [OF trait_fields(2)]
    bit_encode [OF trait_fields(3)]
  by (auto simp: trait_field_defs)

lemma decode_traits:
  assumes "take_bit 4 ty = ty" "take_bit 1 p = p" "take_bit 3 sb = sb"
  shows "decode TypeBits (EncodeTraits ty p sb) = ty" "decode PatchableBit (EncodeTraits ty p sb) = p"
    "decode SnapshotBehaviorBits (EncodeTraits ty p sb) = sb"
proof -
  have "bit (decode TypeBits (EncodeTraits ty p sb)) i \<longleftrightarrow> bit (take_bit 4 ty) i"
    "bit (decode PatchableBit (EncodeTraits ty p sb)) i \<longleftrightarrow> bit (take_bit 1 p) i"
    "bit (decode SnapshotBehaviorBits (EncodeTraits ty p sb)) i \<longleftrightarrow> bit (take_bit 3 sb) i" for i
    unfolding bit_decode [OF trait_fields(1)] bit_decode [OF trait_fields(2)]
      bit_decode [OF trait_fields(3)] bit_EncodeTraits bit_take_bit_iff
    by (auto simp: trait_field_defs)
  then have "decode TypeBits (EncodeTraits ty p sb) = take_bit 4 ty"
    "decode PatchableBit (EncodeTraits ty p sb) = take_bit 1 p"
    "decode SnapshotBehaviorBits (EncodeTraits ty p sb) = take_bit 3 sb"
    by (simp_all only: bit_eq_iff simp_thms)
  then show "decode TypeBits (EncodeTraits ty p sb) = ty" "decode PatchableBit (EncodeTraits ty p sb) = p"
    "decode SnapshotBehaviorBits (EncodeTraits ty p sb) = sb"
    unfolding assms by blast+
qed

section \<open>The invariant\<close>

lemma obj_index_trait [simp]:
  "KeyOf (ObjIndexPair_trait H) = fst" "ValueOf (ObjIndexPair_trait H) = snd"
  "NoValue (ObjIndexPair_trait H) = kNoIndex"
  by (simp_all add: ObjIndexPair_trait_def NoValue_def)

lemma obj_index_eq [simp]: "IsKeyEqual (ObjIndexPair_trait H) p key \<longleftrightarrow> fst p = key"
proof -
  have "e = e' \<longleftrightarrow> entry_bits e = entry_bits e' \<and> entry_value e = entry_value e'"
    for e e' :: "'a ObjectPoolBuilderEntry" by (cases e; cases e') auto
  then show ?thesis
    by (cases "entry_value (fst p)"; cases "entry_value key")
      (auto simp: ObjIndexPair_trait_def ObjIndexPair_IsKeyEqual_def)
qed

interpretation obj_index: key_value_trait "ObjIndexPair_trait H" for H
  by unfold_locales auto

definition lo_word :: "u32 \<Rightarrow> u32 \<Rightarrow> u64" where
  "lo_word a b = (ucast a AND 0xffffffff) OR push_bit 32 (ucast b)"

abbreviation imm_entry :: "u64 \<Rightarrow> 'o ObjectPoolBuilderEntry" where
  "imm_entry v \<equiv> word_entry v kImmediate kNotPatchable kSnapshotable"

text \<open>The words that an entry takes up in the pool.\<close>

definition entry_words :: "'o ObjectPoolBuilderEntry \<Rightarrow> 'o ObjectPoolBuilderEntry list" where
  "entry_words e =
     (case entry_value e of
        Imm128 a b c d \<Rightarrow> [imm_entry (lo_word a b), imm_entry (lo_word c d)]
      | _ \<Rightarrow> [e])"

definition holds_at :: "'o ObjectPoolBuilder \<Rightarrow> 'o ObjectPoolBuilderEntry \<Rightarrow> int \<Rightarrow> bool" where
  "holds_at b e i =
     (int (base_index_m b) \<le> i \<and>
      (\<exists>rest. drop (nat i - base_index_m b) (object_pool_m b) = entry_words e @ rest))"

abbreviation table_pairs :: "('o \<Rightarrow> u64) \<Rightarrow> 'o ObjectPoolBuilder \<Rightarrow> 'o ObjIndexPair list" where
  "table_pairs H b \<equiv> live (ObjIndexPair_trait H) (object_pool_index_table_m b)"

definition pool_ok :: "('o \<Rightarrow> u64) \<Rightarrow> nat \<Rightarrow> 'o ObjectPoolBuilder \<Rightarrow> bool" where
  "pool_ok H limit b =
     (map_ok (ObjIndexPair_trait H) limit (object_pool_index_table_m b) \<and>
      (\<forall>(e, i) \<in> set (table_pairs H b). holds_at b e i) \<and>
      (\<forall>e \<in> set (object_pool_m b). entry_words e = [e]) \<and>
      (\<forall>e \<in> set (object_pool_m b). patchable e = kNotPatchable \<longrightarrow> e \<in> fst ` set (table_pairs H b)))"

lemma entry_words_imm [simp]: "entry_words (word_entry v info p sb) = [word_entry v info p sb]"
  by (simp add: entry_words_def word_entry_def)

lemma entry_words_words: "w \<in> set (entry_words e) \<Longrightarrow> entry_words w = [w]"
  by (auto simp: entry_words_def word_entry_def split: entry_value.splits)

lemma patchable_imm [simp]: "patchable (imm_entry v) = kNotPatchable"
  by (simp add: patchable_def word_entry_def decode_traits)

lemma holds_at_append:
  assumes "holds_at b e i" "entry_words e \<noteq> []"
    "base_index_m b' = base_index_m b" "object_pool_m b' = object_pool_m b @ ws"
  shows "holds_at b' e i"
proof -
  obtain rest where r: "drop (nat i - base_index_m b) (object_pool_m b) = entry_words e @ rest"
    using assms(1) unfolding holds_at_def by blast
  then have "nat i - base_index_m b < length (object_pool_m b)"
    using assms(2) by (metis append_is_Nil_conv drop_all not_le)
  then show ?thesis using assms r unfolding holds_at_def by simp
qed

lemma entry_words_nonempty [simp]: "entry_words e \<noteq> []"
  by (simp add: entry_words_def split: entry_value.splits)
section \<open>Adding entries\<close>

lemma index_entry_ok:
  assumes ok: "pool_ok H limit b0" and h: "holds_at b entry idx"
    and same: "base_index_m b = base_index_m b0" "object_pool_m b = object_pool_m b0 @ ws"
      "object_pool_index_table_m b = object_pool_index_table_m b0"
    and ws: "\<And>w. w \<in> set ws \<Longrightarrow> entry_words w = [w] \<and> (patchable w = kNotPatchable \<longrightarrow> w = entry)"
    and room: "fits limit (2 * Suc (length (table_pairs H b0)))"
  shows "\<exists>b'. index_entry H limit entry idx b = Some (Inr (idx, b')) \<and> pool_ok H limit b' \<and>
    table_pairs H b' = table_pairs H b0 @ [(entry, idx)] \<and>
    b' = b\<lparr>object_pool_index_table_m := object_pool_index_table_m b'\<rparr>"
proof -
  have "idx \<noteq> kNoIndex" using h by (auto simp: holds_at_def)
  then obtain table where t: "Insert (ObjIndexPair_trait H) limit (entry, idx) (object_pool_index_table_m b) = Some (Inr table)"
    "map_ok (ObjIndexPair_trait H) limit table"
    "live (ObjIndexPair_trait H) table = table_pairs H b0 @ [(entry, idx)]"
    using Insert_correct [of "ObjIndexPair_trait H" limit "object_pool_index_table_m b" "(entry, idx)"]
      ok room same(3) by (auto simp: pool_ok_def)
  let ?b = "b\<lparr>object_pool_index_table_m := table\<rparr>"
  have "holds_at ?b e i" if "(e, i) \<in> set (table_pairs H b0) \<or> (e, i) = (entry, idx)" for e i
    using that h ok same holds_at_append [of b0 e i ?b ws] by (auto simp: pool_ok_def holds_at_def)
  then have "pool_ok H limit ?b"
    using ok t ws same unfolding pool_ok_def by auto
  then show ?thesis using t by (intro exI [of _ ?b]) (simp add: index_entry_def)
qed

lemma AddWord_ok:
  assumes ok: "pool_ok H limit b" and w: "entry_words entry = [entry]"
    and room: "fits limit (2 * Suc (length (table_pairs H b)))"
  shows "\<exists>b'. AddWord H limit entry b = Some (Inr (int (base_index_m b + length (object_pool_m b)), b')) \<and>
    pool_ok H limit b' \<and> object_pool_m b' = object_pool_m b @ [entry] \<and>
    base_index_m b' = base_index_m b \<and> used_from_parent_m b' = used_from_parent_m b \<and>
    table_pairs H b' = table_pairs H b @ (if patchable entry = kNotPatchable
      then [(entry, int (base_index_m b + length (object_pool_m b)))] else [])"
proof -
  let ?idx = "int (base_index_m b + length (object_pool_m b))"
  let ?b = "b\<lparr>object_pool_m := object_pool_m b @ [entry]\<rparr>"
  have h: "holds_at ?b entry ?idx" using w by (simp add: holds_at_def)
  show ?thesis
  proof (cases "patchable entry = kNotPatchable")
    case True
    have "\<exists>b'. index_entry H limit entry ?idx ?b = Some (Inr (?idx, b')) \<and> pool_ok H limit b' \<and>
        table_pairs H b' = table_pairs H b @ [(entry, ?idx)] \<and>
        b' = ?b\<lparr>object_pool_index_table_m := object_pool_index_table_m b'\<rparr>"
      by (rule index_entry_ok [OF ok h, of "[entry]"]) (use w room in simp_all)
    then obtain b' where b': "index_entry H limit entry ?idx ?b = Some (Inr (?idx, b'))" "pool_ok H limit b'"
        "table_pairs H b' = table_pairs H b @ [(entry, ?idx)]"
        "b' = ?b\<lparr>object_pool_index_table_m := object_pool_index_table_m b'\<rparr>" by blast
    have "object_pool_m b' = object_pool_m b @ [entry]" "base_index_m b' = base_index_m b"
      "used_from_parent_m b' = used_from_parent_m b"
      by (subst b'(4), simp)+
    then show ?thesis using True b'(1-3) unfolding AddWord_def Let_def by simp
  next
    case False
    have "pool_ok H limit ?b"
      using ok w False unfolding pool_ok_def by (auto intro: holds_at_append)
    then show ?thesis using False by (simp add: AddWord_def Let_def)
  qed
qed

text \<open>Adding an entry, of one word or of two: it is found at the returned index, the pool grows at its
  end only, and the entry itself enters the table once.\<close>

lemma AddObject_ok:
  assumes ok: "pool_ok H limit b"
    and room: "fits limit (2 * (length (table_pairs H b) + 3))"
  shows "\<exists>b' new. AddObject H limit entry b = Some (Inr (int (base_index_m b + length (object_pool_m b)), b')) \<and>
    pool_ok H limit b' \<and> object_pool_m b' = object_pool_m b @ entry_words entry \<and>
    base_index_m b' = base_index_m b \<and> used_from_parent_m b' = used_from_parent_m b \<and>
    table_pairs H b' = table_pairs H b @ new \<and> length new \<le> 3 \<and>
    (patchable entry = kNotPatchable \<longrightarrow>
       {i. (entry, i) \<in> set new} = {int (base_index_m b + length (object_pool_m b))})"
proof (cases "\<exists>i0 i1 i2 i3. entry_value entry = Imm128 i0 i1 i2 i3")
  case False
  then have "entry_words entry = [entry]" "AddObject H limit entry b = AddWord H limit entry b"
    by (simp_all add: entry_words_def AddObject_def split: entry_value.split)
  moreover have "fits limit (2 * Suc (length (table_pairs H b)))" using room by (rule fits_mono [rotated]) simp
  ultimately show ?thesis
    using AddWord_ok [OF ok, of entry] by fastforce
next
  case True
  then obtain i0 i1 i2 i3 where v: "entry_value entry = Imm128 i0 i1 i2 i3" by blast
  let ?idx = "int (base_index_m b + length (object_pool_m b))"
  let ?lo = "imm_entry (lo_word i0 i1) :: 'a ObjectPoolBuilderEntry" and ?hi = "imm_entry (lo_word i2 i3) :: 'a ObjectPoolBuilderEntry"
  have words: "entry_words entry = [?lo, ?hi]" using v by (simp add: entry_words_def)
  have ne: "entry \<noteq> ?lo" "entry \<noteq> ?hi" using v by (auto simp: word_entry_def)
  have "fits limit (2 * Suc (length (table_pairs H b)))" using room by (rule fits_mono [rotated]) simp
  then obtain b1 where b1: "AddWord H limit ?lo b = Some (Inr (?idx, b1))" "pool_ok H limit b1"
    "object_pool_m b1 = object_pool_m b @ [?lo]" "base_index_m b1 = base_index_m b"
    "used_from_parent_m b1 = used_from_parent_m b" "table_pairs H b1 = table_pairs H b @ [(?lo, ?idx)]"
    using AddWord_ok [OF ok, of ?lo] by auto
  have "fits limit (2 * Suc (length (table_pairs H b1)))"
    using room by (rule fits_mono [rotated]) (simp add: b1)
  then obtain b2 i where b2: "AddWord H limit ?hi b1 = Some (Inr (i, b2))" "pool_ok H limit b2"
    "object_pool_m b2 = object_pool_m b @ [?lo, ?hi]" "base_index_m b2 = base_index_m b"
    "used_from_parent_m b2 = used_from_parent_m b" "table_pairs H b2 = table_pairs H b @ [(?lo, ?idx), (?hi, i)]"
    using AddWord_ok [OF b1(2), of ?hi] b1 by auto
  have h: "holds_at b2 entry ?idx" using words b2(3,4) by (simp add: holds_at_def)
  have "fits limit (2 * Suc (length (table_pairs H b2)))"
    using room by (rule fits_mono [rotated]) (simp add: b2)
  then obtain b3 where b3: "index_entry H limit entry ?idx b2 = Some (Inr (?idx, b3))" "pool_ok H limit b3"
    "table_pairs H b3 = table_pairs H b2 @ [(entry, ?idx)]"
    "b3 = b2\<lparr>object_pool_index_table_m := object_pool_index_table_m b3\<rparr>"
    using index_entry_ok [OF b2(2) h, of "[]"] by auto
  have "object_pool_m b3 = object_pool_m b2" "base_index_m b3 = base_index_m b2"
    "used_from_parent_m b3 = used_from_parent_m b2" by (subst b3(4), simp)+
  moreover have "AddObject H limit entry b = Some (Inr (?idx, b3))"
    using b1(1) b2(1) b3(1) v by (simp add: AddObject_def AddImmediate_def lo_word_def Let_def)
  ultimately show ?thesis
    using b3(2,3) b2 words ne
    by (intro exI [of _ b3] exI [of _ "[(?lo, ?idx), (?hi, i), (entry, ?idx)]"]) auto
qed

section \<open>Finding entries\<close>

lemma LookupValue_pool:
  assumes "pool_ok H limit b"
  shows "(\<exists>i. LookupValue (ObjIndexPair_trait H) limit (object_pool_index_table_m b) entry = Some (Inr i) \<and>
      (entry, i) \<in> set (table_pairs H b) \<and> i \<noteq> kNoIndex) \<or>
    LookupValue (ObjIndexPair_trait H) limit (object_pool_index_table_m b) entry = Some (Inr kNoIndex) \<and>
      entry \<notin> fst ` set (table_pairs H b)"
proof -
  let ?t = "ObjIndexPair_trait H" and ?m = "object_pool_index_table_m b"
  have ok: "map_ok ?t limit ?m" using assms by (simp add: pool_ok_def)
  from obj_index.Lookup_correct [OF ok, of entry] show ?thesis
  proof (elim disjE exE conjE)
    fix j assume j: "Lookup ?t limit ?m entry = Some (Inr (Some j))" "live_at ?t ?m j"
      "IsKeyEqual ?t (pairs_m ?m ! j) entry"
    then have "pairs_m ?m ! j \<in> set (live ?t ?m)"
      using ok by (auto simp: map_ok_def wf_map_def set_live)
    then show ?thesis using j by (cases "pairs_m ?m ! j") (auto simp: LookupValue_def live_at_def)
  next
    assume "Lookup ?t limit ?m entry = Some (Inr None)" "\<forall>p \<in> set (live ?t ?m). \<not> IsKeyEqual ?t p entry"
    then show ?thesis by (auto simp: LookupValue_def)
  qed
qed

text \<open>The outcomes of a search: the entry is in the parent, or in the builder, or it is added.\<close>

lemma FindEntry_cases:
  assumes ok: "pool_ok H limit b" and p: "pred_option (pool_ok H limit) parent"
  shows "(\<exists>p i. parent = Some p \<and> patchable entry = kNotPatchable \<and> (entry, i) \<in> set (table_pairs H p) \<and> holds_at p entry i \<and>
        FindEntry H limit parent entry b =
          Some (Inr (i, b\<lparr>used_from_parent_m := used_from_parent_m b @ [i]\<rparr>))) \<or>
    (\<exists>i. patchable entry = kNotPatchable \<and> (entry, i) \<in> set (table_pairs H b) \<and> holds_at b entry i \<and>
        FindEntry H limit parent entry b = Some (Inr (i, b))) \<or>
    (patchable entry = kNotPatchable \<longrightarrow> entry \<notin> fst ` set (table_pairs H b) \<and>
       (\<forall>p. parent = Some p \<longrightarrow> entry \<notin> fst ` set (table_pairs H p))) \<and>
      FindEntry H limit parent entry b = AddObject H limit entry b"
proof (cases "patchable entry = kNotPatchable")
  case True
  have own: "holds_at c entry i" if "pool_ok H limit c" "(entry, i) \<in> set (table_pairs H c)" for c i
    using that by (auto simp: pool_ok_def)
  have pp: "pool_ok H limit p'" if "parent = Some p'" for p' using p that by simp
  let ?look = "\<lambda>b. LookupValue (ObjIndexPair_trait H) limit (object_pool_index_table_m b) entry"
  show ?thesis
  proof (cases "\<exists>p i. parent = Some p \<and> ?look p = Some (Inr i) \<and> i \<noteq> kNoIndex")
    case found: True
    then obtain p' i where i: "parent = Some p'" "?look p' = Some (Inr i)" "i \<noteq> kNoIndex" by blast
    then have "(entry, i) \<in> set (table_pairs H p')" using LookupValue_pool [OF pp, of p' entry] by auto
    then show ?thesis using True i own [OF pp, of p' i] by (simp add: FindEntry_def)
  next
    case False
    then have absent: "?look p' = Some (Inr kNoIndex) \<and> entry \<notin> fst ` set (table_pairs H p')"
      if "parent = Some p'" for p'
      using that LookupValue_pool [OF pp, of p' entry] by auto
    then have "FindEntry H limit parent entry b = (case ?look b of None \<Rightarrow> None | Some (Inl e) \<Rightarrow> Some (Inl e)
        | Some (Inr idx) \<Rightarrow> if idx \<noteq> kNoIndex then Some (Inr (idx, b)) else AddObject H limit entry b)"
      using True by (cases parent) (simp_all add: FindEntry_def)
    then show ?thesis using True absent LookupValue_pool [OF ok, of entry] own [OF ok] by auto
  qed
qed (simp add: FindEntry_def)

text \<open>Searching again for an entry that may not be patched gives the same index and adds nothing, except that
  each use of an entry of the parent is recorded.\<close>

definition in_parent :: "('o \<Rightarrow> u64) \<Rightarrow> 'o ObjectPoolBuilder option \<Rightarrow> 'o ObjectPoolBuilderEntry \<Rightarrow> bool" where
  "in_parent H parent entry = (case parent of None \<Rightarrow> False | Some p \<Rightarrow> entry \<in> fst ` set (table_pairs H p))"

lemma FindEntry_again:
  assumes ok: "pool_ok H limit b" and p: "pred_option (pool_ok H limit) parent"
    and room: "fits limit (2 * (length (table_pairs H b) + 3))"
    and e: "patchable entry = kNotPatchable"
    and f: "FindEntry H limit parent entry b = Some (Inr (i, b'))"
  shows "FindEntry H limit parent entry b' = Some (Inr (i,
    if in_parent H parent entry then b'\<lparr>used_from_parent_m := used_from_parent_m b' @ [i]\<rparr> else b'))"
proof -
  from FindEntry_cases [OF ok p, of entry] show ?thesis
  proof (elim disjE exE conjE)
    fix p' j assume pj: "parent = Some p'" "(entry, j) \<in> set (table_pairs H p')"
    then have "pool_ok H limit p'" "entry \<in> fst ` set (table_pairs H p')" using p by force+
    then obtain j' where "LookupValue (ObjIndexPair_trait H) limit (object_pool_index_table_m p') entry = Some (Inr j')"
      "j' \<noteq> kNoIndex"
      using LookupValue_pool [of H limit p' entry] by blast
    moreover have "in_parent H parent entry" using \<open>entry \<in> fst ` set (table_pairs H p')\<close> pj(1) by (simp add: in_parent_def)
    ultimately show ?thesis using f e pj(1) by (auto simp: FindEntry_def)
  next
    fix j assume own: "FindEntry H limit parent entry b = Some (Inr (j, b))"
    have "\<not> in_parent H parent entry"
    proof
      assume "in_parent H parent entry"
      then obtain p' where p': "parent = Some p'" "entry \<in> fst ` set (table_pairs H p')"
        by (auto simp: in_parent_def split: option.splits)
      then obtain j' where "LookupValue (ObjIndexPair_trait H) limit (object_pool_index_table_m p') entry = Some (Inr j')" "j' \<noteq> kNoIndex"
        using LookupValue_pool [of H limit p' entry] p by auto
      then have "used_from_parent_m b @ [j'] = used_from_parent_m b"
        using own e p'(1) by (auto simp: FindEntry_def dest: arg_cong [of _ _ used_from_parent_m])
      then show False by simp
    qed
    then show ?thesis using f own by auto
  next
    assume new: "patchable entry = kNotPatchable \<longrightarrow> entry \<notin> fst ` set (table_pairs H b) \<and>
        (\<forall>p. parent = Some p \<longrightarrow> entry \<notin> fst ` set (table_pairs H p))"
      and add: "FindEntry H limit parent entry b = AddObject H limit entry b"
    obtain b1 new' where b1: "AddObject H limit entry b = Some (Inr (int (base_index_m b + length (object_pool_m b)), b1))"
      "pool_ok H limit b1" "table_pairs H b1 = table_pairs H b @ new'"
      "{i. (entry, i) \<in> set new'} = {int (base_index_m b + length (object_pool_m b))}"
      using AddObject_ok [OF ok room, of entry] e by blast
    have b': "b1 = b'" "i = int (base_index_m b + length (object_pool_m b))" using f add b1(1) by auto
    have only: "(entry, j) \<in> set (table_pairs H b') \<Longrightarrow> j = i" for j
      using b1(3,4) b' new e by (force simp: image_iff)
    have "entry \<in> fst ` set (table_pairs H b')" using b1(3,4) b' by (force simp: image_iff)
    moreover have nop: "(entry, j) \<notin> set (table_pairs H p')" if "parent = Some p'" for j p'
      using new e that by (force simp: image_iff)
    moreover have "\<not> in_parent H parent entry" using nop by (force simp: in_parent_def split: option.splits)
    ultimately show ?thesis
      using FindEntry_cases [OF b1(2) p, of entry] only e nop by (auto simp: b')
  qed
qed

section \<open>Committing to the parent\<close>

lemma commit_entries:
  assumes "pool_ok H limit p" "\<And>e. e \<in> set es \<Longrightarrow> entry_words e = [e]"
    and "fits limit (2 * (length (table_pairs H p) + length es + 3))"
  shows "\<exists>p'. each_pair (\<lambda>entry p. case AddObject H limit entry p of
                              None \<Rightarrow> None
                            | Some (Inl e) \<Rightarrow> Some (Inl e)
                            | Some (Inr (idx, p)) \<Rightarrow> Some (Inr p)) es p = Some (Inr p') \<and>
    pool_ok H limit p' \<and> object_pool_m p' = object_pool_m p @ es \<and>
    base_index_m p' = base_index_m p \<and> used_from_parent_m p' = used_from_parent_m p"
  using assms
proof (induction es arbitrary: p)
  case (Cons e es)
  have one: "entry_words e = [e]" using Cons.prems(2) by simp
  then have "AddObject H limit e p = AddWord H limit e p"
    by (simp add: entry_words_def AddObject_def split: entry_value.splits)
  moreover have "fits limit (2 * Suc (length (table_pairs H p)))"
    using Cons.prems(3) by (rule fits_mono [rotated]) simp
  ultimately obtain i p1 where p1: "AddObject H limit e p = Some (Inr (i, p1))" "pool_ok H limit p1"
    "object_pool_m p1 = object_pool_m p @ [e]" "base_index_m p1 = base_index_m p"
    "used_from_parent_m p1 = used_from_parent_m p"
    "length (table_pairs H p1) \<le> Suc (length (table_pairs H p))"
    using AddWord_ok [OF Cons.prems(1) one] by fastforce
  have "fits limit (2 * (length (table_pairs H p1) + length es + 3))"
    using Cons.prems(3) by (rule fits_mono [rotated]) (use p1(6) in simp)
  then show ?case
    using Cons.IH [OF p1(2)] Cons.prems(2) p1 by auto
qed simp

lemma TryCommitToParent_ok:
  assumes "pool_ok H limit parent" "pool_ok H limit b"
    and "fits limit (2 * (length (table_pairs H parent) + length (object_pool_m b) + 3))"
  shows "(CurrentLength parent \<noteq> base_index_m b \<longrightarrow>
      TryCommitToParent H limit parent b = Some (Inr (False, parent))) \<and>
    (CurrentLength parent = base_index_m b \<longrightarrow>
      (\<exists>parent'. TryCommitToParent H limit parent b = Some (Inr (True, parent')) \<and>
         pool_ok H limit parent' \<and> object_pool_m parent' = object_pool_m parent @ object_pool_m b \<and>
         base_index_m parent' = base_index_m parent \<and> used_from_parent_m parent' = used_from_parent_m parent))"
  using commit_entries [OF assms(1) _ assms(3)] assms(2)
  by (auto simp: TryCommitToParent_def pool_ok_def)

text \<open>The condition that the assertion on the returned indices needs: the indices of the parent start behind
  the entries that it takes from its own parent. It holds of every pool without a parent.\<close>

lemma commit_keeps_indices:
  assumes "CurrentLength parent = base_index_m b" "base_index_m parent = length (used_from_parent_m parent)"
    and "base_index_m parent' = base_index_m parent" "object_pool_m parent' = object_pool_m parent @ object_pool_m b"
    and "holds_at b e i"
  shows "holds_at parent' e i"
proof -
  have i: "base_index_m b = length (object_pool_m parent) + base_index_m parent" "int (base_index_m b) \<le> i"
    using assms(1,2,5) by (simp_all add: CurrentLength_def holds_at_def)
  then have "nat i - base_index_m parent = length (object_pool_m parent) + (nat i - base_index_m b)" by linarith
  then show ?thesis using assms(3-5) i by (simp add: holds_at_def add.commute)
qed

end
