(* ===== verification/RiscvCodegen.thy ===== *)
theory RiscvCodegen
  imports RiscvMicro ObjectPool
begin

text \<open>
  The macro instructions of \<open>class Assembler\<close> in
  \<^verbatim>\<open>runtime/vm/compiler/assembler/assembler_riscv.cc\<close> that emit code without labels: immediates,
  extensions, shifts, bit fields, hashes and the constant pool. The state of the deferred comparisons is here,
  the macros that use it are in \<open>RiscvBranch\<close>.

  \<open>class Assembler\<close> extends \<open>MicroAssembler\<close> and so does the record \<open>Assembler\<close>. The hash of objects,
  the limit on hash map probes, the parent of the object pool and the layout of an object pool come
  with the environment and are fields of the record that no operation changes.
\<close>

section \<open>State\<close>

datatype DeferredCompareType = kNone | kCompareReg | kCompareImm | kTestReg | kTestImm

record 'o Assembler = MicroAssembler +
  constant_pool_allowed_m :: bool
  object_pool_builder_m :: "'o ObjectPoolBuilder"
  deferred_compare_m :: DeferredCompareType
  deferred_left_m :: Register
  deferred_reg_m :: Register
  deferred_imm_m :: intx
  pool_parent :: "'o ObjectPoolBuilder option"
  ObjectHash_of :: "'o \<Rightarrow> u64"
  hash_map_probes_limit :: nat
  element_offset :: "int \<Rightarrow> u32"

type_synonym 'o masm = "'o Assembler \<Rightarrow> asm_error + 'o Assembler"

datatype OperandSize =
  kByte | kUnsignedByte | kTwoBytes | kUnsignedTwoBytes | kFourBytes | kUnsignedFourBytes | kEightBytes
| kSWord | kDWord | kWordPair | kRegList | kQWord

fun OperandSizeInBits :: "OperandSize \<Rightarrow> nat" where
  "OperandSizeInBits kByte = 8"
| "OperandSizeInBits kUnsignedByte = 8"
| "OperandSizeInBits kTwoBytes = 16"
| "OperandSizeInBits kUnsignedTwoBytes = 16"
| "OperandSizeInBits kFourBytes = 32"
| "OperandSizeInBits kUnsignedFourBytes = 32"
| "OperandSizeInBits _ = 64"

section \<open>Constants\<close>

definition LoadWordFromPoolIndex :: "Register \<Rightarrow> int \<Rightarrow> Register \<Rightarrow> 'o Assembler \<Rightarrow> 'o Assembler" where
  "LoadWordFromPoolIndex dst index pp a =
     (let offset = ucast (element_offset a index);
          lo = ImmLo offset;
          hi = ImmHi offset
      in if hi = 0 then lx dst (Address pp lo) a
         else lx dst (Address dst lo) (add dst dst pp (lui dst hi a)))"

definition StoreWordToPoolIndex :: "Register \<Rightarrow> int \<Rightarrow> Register \<Rightarrow> 'o Assembler \<Rightarrow> 'o Assembler" where
  "StoreWordToPoolIndex src index pp a =
     (let offset = ucast (element_offset a index);
          lo = ImmLo offset;
          hi = ImmHi offset
      in if hi = 0 then sx src (Address pp lo) a
         else sx src (Address TMP lo) (add TMP TMP pp (lui TMP hi a)))"

lemma abs_div_le:
  fixes z p :: int
  assumes "1 \<le> p"
  shows "\<bar>z div p\<bar> \<le> \<bar>z\<bar>"
proof (cases "0 \<le> z")
  case True
  then show ?thesis using assms zdiv_mono2 [of z 1 p] by (simp add: pos_imp_zdiv_nonneg_iff)
next
  case False
  then show ?thesis using assms zdiv_mono2_neg [of z 1 p] div_nonpos_pos_le0 [of z p] by simp
qed

lemma imm_minus_lo_low_bits: "take_bit 12 (imm - ImmLo imm) = 0"
proof -
  have "take_bit 12 (ImmLo imm) = take_bit 12 imm" by (simp add: ImmLo_eq take_bit_signed_take_bit)
  then show ?thesis using take_bit_diff_zero [of 12 imm "ImmLo imm"] by simp
qed

lemma abs_sint_minus_lo: "\<bar>sint (imm - ImmLo imm)\<bar> \<le> \<bar>sint imm\<bar> + 2048"
proof -
  let ?x = "sint imm - sint (ImmLo imm)"
  have w: "imm - ImmLo imm = word_of_int ?x" by simp
  have b: "- (2 ^ 63) \<le> sint (imm - ImmLo imm)" "sint (imm - ImmLo imm) < 2 ^ 63"
    using sint_ge [of "imm - ImmLo imm"] sint_lt [of "imm - ImmLo imm"] by simp_all
  show ?thesis
  proof (cases "- (2 ^ 63) \<le> ?x \<and> ?x < 2 ^ 63")
    case True
    then have "sint (imm - ImmLo imm) = ?x" unfolding w by (intro sint_word_of_int_64) auto
    then show ?thesis using ImmLo_bounds [of imm] by linarith
  next
    case False
    then show ?thesis using ImmLo_bounds [of imm] b by linarith
  qed
qed

lemma sint_drop_less:
  assumes "\<not> IsInt 32 imm" and "hi = imm - ImmLo imm" and "shift = CountTrailingZeros64 hi"
  shows "\<bar>sint (signed_drop_bit shift hi)\<bar> < \<bar>sint imm\<bar>"
proof (cases "hi = 0")
  case True
  then show ?thesis using assms(1) by (auto simp: IsInt_iff)
next
  case False
  then have "12 \<le> shift"
    using countr_zero_ge [of 12 hi] imm_minus_lo_low_bits [of imm] assms(2,3)
    by (simp add: CountTrailingZeros64_def)
  then have "2 ^ shift = (2::int) ^ 12 * 2 ^ (shift - 12)" by (simp only: power_add [symmetric] le_add_diff_inverse)
  then have "sint (signed_drop_bit shift hi) = sint hi div 2 ^ 12 div 2 ^ (shift - 12)"
    by (simp add: sint_signed_drop_bit zdiv_zmult2_eq)
  then have "\<bar>sint (signed_drop_bit shift hi)\<bar> \<le> \<bar>sint hi div 4096\<bar>"
    using abs_div_le [of "2 ^ (shift - 12)" "sint hi div 2 ^ 12"] by simp
  moreover have "4096 * (sint hi div 4096) \<le> sint hi" "sint hi < 4096 * (sint hi div 4096) + 4096"
    using minus_mod_eq_mult_div [of "sint hi" 4096] pos_mod_sign [of 4096 "sint hi"]
      pos_mod_bound [of 4096 "sint hi"] by linarith+
  moreover have "\<bar>sint hi\<bar> \<le> \<bar>sint imm\<bar> + 2048" using abs_sint_minus_lo assms(2) by simp
  moreover have "2147483648 \<le> \<bar>sint imm\<bar>" using assms(1) by (simp add: IsInt_iff) linarith
  ultimately show ?thesis by linarith
qed
lemma not_IsInt_nonzero: "\<not> IsInt 32 imm \<Longrightarrow> sint imm \<noteq> 0"
  by (auto simp: IsInt_iff)

function LoadImmediate :: "Register \<Rightarrow> intx \<Rightarrow> 'o masm" where
  "LoadImmediate reg imm a =
     (if \<not> IsInt 32 imm then
        if Supports a RV_Zbs \<and> IsPowerOfTwo imm then
          Inr (bseti reg ZR (of_nat (ShiftForPowerOfTwo_signed imm)) a)
        else let shift = CountTrailingZeros64 imm in
          if IsITypeImm (signed_drop_bit shift imm) then
            Inr (slli reg reg (of_nat shift) (li reg (signed_drop_bit shift imm) a))
          else if 12 \<le> shift \<and> IsUTypeImm (signed_drop_bit (shift - 12) imm) then
            Inr (slli reg reg (of_nat (shift - 12)) (lui reg (signed_drop_bit (shift - 12) imm) a))
          else if constant_pool_allowed_m a then
            (case FindImmediate (ObjectHash_of a) (hash_map_probes_limit a) (pool_parent a) imm
                    (object_pool_builder_m a) of
               Some (Inr (index, pool)) \<Rightarrow>
                 Inr (LoadWordFromPoolIndex reg index PP (a\<lparr>object_pool_builder_m := pool\<rparr>))
             | _ \<Rightarrow> Inl PoolFailure)
          else let lo = ImmLo imm;
                   hi = imm - lo;
                   shift = CountTrailingZeros64 hi
               in and_then (LoadImmediate reg (signed_drop_bit shift hi) a) (\<lambda>a.
                    let a = slli reg reg (of_nat shift) a
                    in Inr (if lo \<noteq> 0 then addi reg reg lo a else a))
      else let lo = ImmLo imm;
               hi = ImmHi imm
           in Inr (if hi = 0 then addi reg ZR lo a
                   else let a = lui reg hi a in if lo \<noteq> 0 then addiw reg reg lo a else a))"
  by pat_completeness auto
termination
  by (relation "measure (\<lambda>(reg, imm, a). nat \<bar>sint imm\<bar>)") (auto simp: not_IsInt_nonzero intro!: sint_drop_less)

declare LoadImmediate.simps [simp del]


section \<open>Extensions, shifts and bit fields\<close>

definition ExtendValue :: "Register \<Rightarrow> Register \<Rightarrow> OperandSize \<Rightarrow> 'o masm" where
  "ExtendValue rd rn sz a =
     (case sz of
        kEightBytes \<Rightarrow> Inr (if rd = rn then a else mv rd rn a)
      | kUnsignedFourBytes \<Rightarrow>
          Inr (if Supports a RV_Zba then zextw rd rn a else srli rd rd (64 - 32) (slli rd rn (64 - 32) a))
      | kFourBytes \<Rightarrow> Inr (sextw rd rn a)
      | kUnsignedTwoBytes \<Rightarrow>
          Inr (if Supports a RV_Zbb then zexth rd rn a else srli rd rd (64 - 16) (slli rd rn (64 - 16) a))
      | kTwoBytes \<Rightarrow>
          Inr (if Supports a RV_Zbb then sexth rd rn a else srai rd rd (64 - 16) (slli rd rn (64 - 16) a))
      | kUnsignedByte \<Rightarrow> Inr (andi rd rn 0xFF a)
      | kByte \<Rightarrow>
          Inr (if Supports a RV_Zbb then sextb rd rn a else srai rd rd (64 - 8) (slli rd rn (64 - 8) a))
      | _ \<Rightarrow> Inl Unreachable)"

definition MoveRegister :: "Register \<Rightarrow> Register \<Rightarrow> 'o masm" where
  "MoveRegister dst src = ExtendValue dst src kEightBytes"

definition SmiTag :: "Register \<Rightarrow> Register \<Rightarrow> 'o Assembler \<Rightarrow> 'o Assembler" where
  "SmiTag dst src = slli dst src 1"

definition SmiUntag :: "Register \<Rightarrow> Register \<Rightarrow> 'o Assembler \<Rightarrow> 'o Assembler" where
  "SmiUntag dst src = srai dst src 1"

definition ExtendAndSmiTagValue :: "Register \<Rightarrow> Register \<Rightarrow> OperandSize \<Rightarrow> 'o masm" where
  "ExtendAndSmiTagValue rd rn sz a =
     (case sz of
        kEightBytes \<Rightarrow> Inr (SmiTag rd rn a)
      | kUnsignedFourBytes \<Rightarrow> Inr (srli rd rd (64 - 32 - 1) (slli rd rn (64 - 32) a))
      | kFourBytes \<Rightarrow> Inr (srai rd rd (64 - 32 - 1) (slli rd rn (64 - 32) a))
      | kUnsignedTwoBytes \<Rightarrow> Inr (srli rd rd (64 - 16 - 1) (slli rd rn (64 - 16) a))
      | kTwoBytes \<Rightarrow> Inr (srai rd rd (64 - 16 - 1) (slli rd rn (64 - 16) a))
      | kUnsignedByte \<Rightarrow> Inr (srli rd rd (64 - 8 - 1) (slli rd rn (64 - 8) a))
      | kByte \<Rightarrow> Inr (srai rd rd (64 - 8 - 1) (slli rd rn (64 - 8) a))
      | _ \<Rightarrow> Inl Unreachable)"

definition ArithmeticShiftRightImmediate :: "Register \<Rightarrow> Register \<Rightarrow> nat \<Rightarrow> OperandSize \<Rightarrow> 'o masm" where
  "ArithmeticShiftRightImmediate dst src shift sz a =
     (if shift = 0 then ExtendValue dst src sz a
      else if sz = kFourBytes then Inr (sraiw dst src (of_nat shift) a)
      else Inr (srai dst src (of_nat shift) a))"

definition LslImmediate :: "Register \<Rightarrow> Register \<Rightarrow> nat \<Rightarrow> OperandSize \<Rightarrow> 'o masm" where
  "LslImmediate rd rn shift sz a =
     (if shift = 0 then ExtendValue rd rn sz a
      else if sz = kFourBytes then Inr (slliw rd rn (of_nat shift) a)
      else if sz = kUnsignedFourBytes then
        Inr (srli rd rd (64 div 2) (slli rd rn (of_nat (shift + 64 div 2)) a))
      else Inr (slli rd rn (of_nat shift) a))"

definition ExtractBitField :: "Register \<Rightarrow> Register \<Rightarrow> nat \<Rightarrow> nat \<Rightarrow> 'o masm" where
  "ExtractBitField dst src low_bit width a =
     (if width = 1 \<and> low_bit = 0 then Inr (andi dst src 1 a)
      else if width = 1 \<and> Supports a RV_Zbs then Inr (bexti dst src (of_nat low_bit) a)
      else if width = 64 then MoveRegister dst src a
      else if low_bit + width = 64 then Inr (srli dst src (of_nat low_bit) a)
      else Inr (srli dst dst (of_nat (64 - width)) (slli dst src (of_nat (64 - (low_bit + width))) a)))"

definition AddShifted :: "Register \<Rightarrow> Register \<Rightarrow> Register \<Rightarrow> int \<Rightarrow> 'o Assembler \<Rightarrow> 'o Assembler" where
  "AddShifted dest base index shift a =
     (if shift = 0 then add dest index base a
      else if Supports a RV_Zba \<and> shift = 1 then sh1add dest index base a
      else if Supports a RV_Zba \<and> shift = 2 then sh2add dest index base a
      else if Supports a RV_Zba \<and> shift = 3 then sh3add dest index base a
      else if shift < 0 then
        if base \<noteq> dest then add dest dest base (srai dest index (of_int (- shift)) a)
        else add dest TMP2 base (srai TMP2 index (of_int (- shift)) a)
      else
        if base \<noteq> dest then add dest dest base (slli dest index (of_int shift) a)
        else add dest TMP2 base (slli TMP2 index (of_int shift) a))"

section \<open>Arithmetic with immediates\<close>

definition AddImmediate :: "Register \<Rightarrow> Register \<Rightarrow> intx \<Rightarrow> OperandSize \<Rightarrow> 'o masm" where
  "AddImmediate rd rs1 imm sz a =
     (if imm = 0 \<and> rd = rs1 then Inr a
      else if sz = kFourBytes then
        if IsITypeImm imm then Inr (addiw rd rs1 imm a)
        else and_then (LoadImmediate TMP2 imm a) (\<lambda>a. Inr (addw rd rs1 TMP2 a))
      else if IsITypeImm imm then Inr (addi rd rs1 imm a)
      else and_then (LoadImmediate TMP2 imm a) (\<lambda>a. Inr (add rd rs1 TMP2 a)))"

definition MulImmediate :: "Register \<Rightarrow> Register \<Rightarrow> intx \<Rightarrow> OperandSize \<Rightarrow> 'o masm" where
  "MulImmediate rd rs1 imm sz a =
     (if IsPowerOfTwo imm then
        let shift = of_nat (ShiftForPowerOfTwo_signed imm)
        in Inr (if sz = kFourBytes then slliw rd rs1 shift a else slli rd rs1 shift a)
      else and_then (LoadImmediate TMP imm a) (\<lambda>a.
        Inr (if sz = kFourBytes then mulw rd rs1 TMP a else mul rd rs1 TMP a)))"

definition AndImmediate :: "Register \<Rightarrow> Register \<Rightarrow> intx \<Rightarrow> OperandSize \<Rightarrow> 'o masm" where
  "AndImmediate rd rs1 imm sz a =
     (let bit_size = OperandSizeInBits sz;
          uimm = (if bit_size = 64 then imm else ucast (ucast imm :: u32))
      in if bit_size = 64 \<and> imm = - 1 then MoveRegister rd rs1 a
         else if bit_size < 64 \<and> (ucast imm :: u32) = - 1 then ExtendValue rd rs1 kUnsignedFourBytes a
         else if IsITypeImm uimm then Inr (andi rd rs1 uimm a)
         else if Supports a RV_Zbs \<and> IsPowerOfTwo (NOT uimm) then
           Inr (bclri rd rs1 (of_nat (ShiftForPowerOfTwo (NOT uimm))) a)
         else if IsPowerOfTwo (uimm + 1) then
           let shift = ShiftForPowerOfTwo (uimm + 1)
           in if Supports a RV_Zbb \<and> shift = 16 then Inr (zexth rd rs1 a)
              else Inr (srli rd rd (of_nat (64 - shift)) (slli rd rs1 (of_nat (64 - shift)) a))
         else and_then (LoadImmediate TMP2 uimm a) (\<lambda>a. Inr (and_r rd rs1 TMP2 a)))"

definition OrImmediate :: "Register \<Rightarrow> Register \<Rightarrow> intx \<Rightarrow> 'o masm" where
  "OrImmediate rd rs1 imm a =
     (if imm = 0 then MoveRegister rd rs1 a
      else if IsITypeImm imm then Inr (ori rd rs1 imm a)
      else if Supports a RV_Zbs \<and> IsPowerOfTwo imm then
        Inr (bseti rd rs1 (of_nat (ShiftForPowerOfTwo imm)) a)
      else and_then (LoadImmediate TMP2 imm a) (\<lambda>a. Inr (or_r rd rs1 TMP2 a)))"

definition XorImmediate :: "Register \<Rightarrow> Register \<Rightarrow> intx \<Rightarrow> 'o masm" where
  "XorImmediate rd rs1 imm a =
     (if imm = 0 then MoveRegister rd rs1 a
      else if IsITypeImm imm then Inr (xori rd rs1 imm a)
      else if Supports a RV_Zbs \<and> IsPowerOfTwo imm then
        Inr (binvi rd rs1 (of_nat (ShiftForPowerOfTwo imm)) a)
      else and_then (LoadImmediate TMP2 imm a) (\<lambda>a. Inr (xor_r rd rs1 TMP2 a)))"

section \<open>Hashes\<close>

definition emit_CombineHashes :: "Register \<Rightarrow> Register \<Rightarrow> 'o Assembler \<Rightarrow> 'o Assembler" where
  "emit_CombineHashes hash other a =
     (let a = addw hash hash other a;
          a = slliw other hash 10 a;
          a = addw hash hash other a;
          a = srliw other hash 6 a
      in xor_r hash hash other a)"

definition FinalizeHashForSize :: "nat \<Rightarrow> Register \<Rightarrow> Register \<Rightarrow> 'o masm" where
  "FinalizeHashForSize bit_size hash scratch a =
     (let a = slliw scratch hash 3 a;
          a = addw hash hash scratch a;
          a = srliw scratch hash 11 a;
          a = xor_r hash hash scratch a;
          a = slliw scratch hash 15 a;
          a = addw hash hash scratch a
      in and_then (if bit_size < 32 then AndImmediate hash hash (NBitMask bit_size) kEightBytes a else Inr a)
           (\<lambda>a. Inr (add hash hash scratch (seqz scratch hash a))))"

section \<open>Loading constants\<close>

lemma wr_wr [simp]: "wr rd v (wr rd w R) = wr rd v R"
  by (auto simp: wr_def)

lemma wr_same [simp]: "wr rd v R rd = (if rd = ZR then R ZR else v)"
  by (simp add: wr_def)

lemma computes_then:
  assumes "computes a b g" "computes b c g'" "\<And>R. R ZR = 0 \<Longrightarrow> g R ZR = 0"
    and "\<And>R. R ZR = 0 \<Longrightarrow> g' (g R) = f R"
  shows "computes a c f"
  using computes_cong [OF computes_trans [OF assms(1-3)]] assms(4) by blast

lemma computes_li: "IsITypeImm imm \<Longrightarrow> computes a (li rd imm a) (\<lambda>R. wr rd imm R)"
  unfolding li_def by (rule computes_cong [OF addi_i.correct]) simp_all

lemma IsInt32_split:
  assumes "IsInt 32 imm"
  shows "signed_take_bit 31 (ImmHi imm + ImmLo imm) = imm" "ImmHi imm = 0 \<Longrightarrow> ImmLo imm = imm"
    "ImmLo imm = 0 \<Longrightarrow> ImmHi imm = imm"
proof -
  have id: "signed_take_bit 31 imm = imm" using assms by (simp add: IsInt_signed_take_bit)
  have "take_bit 32 (ImmHi imm) = take_bit 32 (imm - ImmLo imm)"
    by (simp add: ImmHi_eq take_bit_signed_take_bit)
  then have "take_bit 32 (ImmHi imm + ImmLo imm) = take_bit 32 (imm - ImmLo imm + ImmLo imm)"
    using take_bit_add_word [of 32 "ImmHi imm" "ImmLo imm"] take_bit_add_word [of 32 "imm - ImmLo imm" "ImmLo imm"]
    by simp
  then have "signed_take_bit 31 (ImmHi imm + ImmLo imm) = signed_take_bit 31 (imm - ImmLo imm + ImmLo imm)"
    by (simp add: signed_take_bit_eq_iff_take_bit_eq)
  then show *: "signed_take_bit 31 (ImmHi imm + ImmLo imm) = imm" using id by simp
  show "ImmHi imm = 0 \<Longrightarrow> ImmLo imm = imm"
    using * by (simp add: ImmLo_eq)
  show "ImmLo imm = 0 \<Longrightarrow> ImmHi imm = imm" using id by (simp add: ImmHi_eq)
qed


lemma computes_small:
  assumes "IsInt 32 imm"
  shows "computes a (if ImmHi imm = 0 then addi reg ZR (ImmLo imm) a
      else let a = lui reg (ImmHi imm) a in if ImmLo imm \<noteq> 0 then addiw reg reg (ImmLo imm) a else a)
    (\<lambda>R. wr reg imm R)"
proof -
  note split = IsInt32_split [OF assms]
  have small: "computes a (addi reg ZR (ImmLo imm) a) (\<lambda>R. wr reg imm R)" if "ImmHi imm = 0"
    by (rule computes_cong [OF addi_i.correct [OF IsITypeImm_ImmLo]]) (use split(2) that in simp_all)
  have hi: "computes a (lui reg (ImmHi imm) a) (\<lambda>R. wr reg (ImmHi imm) R)" if "ImmHi imm \<noteq> 0"
    using that by (intro computes_lui) simp_all
  have "computes a (addiw reg reg (ImmLo imm) (lui reg (ImmHi imm) a)) (\<lambda>R. wr reg imm R)"
    if "ImmHi imm \<noteq> 0"
    by (rule computes_then [OF hi [OF that] addiw_i.correct [OF IsITypeImm_ImmLo]])
      (use split(1) in \<open>auto simp: sign_extend_ucast simp flip: ucast_add_32\<close>)
  then show ?thesis using small hi split(3) by (auto simp: Let_def)
qed


lemma computes_shifted:
  assumes "computes a b (\<lambda>R. wr reg (signed_drop_bit k imm) R)" "take_bit k imm = 0" "k < 64"
  shows "computes a (slli reg reg (of_nat k) b) (\<lambda>R. wr reg imm R)"
proof -
  have k: "unat (of_nat k :: intx) = k" using assms(3) by (simp add: unat_of_nat)
  show ?thesis
    by (rule computes_then [OF assms(1) slli_i.correct])
      (use push_signed_drop_bit [OF assms(2,3)] assms(3) k in \<open>auto simp: wr_def\<close>)
qed

lemma shift_facts:
  assumes "\<not> IsInt 32 imm"
  shows "CountTrailingZeros64 imm < 64" "take_bit (CountTrailingZeros64 imm) imm = 0"
    "signed_drop_bit (CountTrailingZeros64 imm - 12) imm \<noteq> 0"
    "take_bit (CountTrailingZeros64 imm - 12) imm = 0" "CountTrailingZeros64 imm - 12 < 64"
proof -
  let ?s = "CountTrailingZeros64 imm"
  have nz: "imm \<noteq> 0" using assms by (auto simp: IsInt_iff)
  then show *: "?s < 64" "take_bit ?s imm = 0" "?s - 12 < 64"
    using countr_zero_bits(1) [of imm] take_bit_countr_zero [of imm] by (simp_all add: CountTrailingZeros64_def)
  have "take_bit (?s - 12) imm = take_bit (?s - 12) (take_bit ?s imm)" by (simp add: min_def)
  then show **: "take_bit (?s - 12) imm = 0" by (simp add: *(2))
  show "signed_drop_bit (?s - 12) imm \<noteq> 0"
    using push_signed_drop_bit [OF ** *(3)] nz by auto
qed

lemma computes_power:
  assumes "IsPowerOfTwo imm" "imm \<noteq> 0x8000000000000000"
  shows "computes a (bseti reg ZR (of_nat (ShiftForPowerOfTwo_signed imm)) a) (\<lambda>R. wr reg imm R)"
proof -
  obtain k where k: "k < 64" "imm = push_bit k 1" using assms(1) unfolding IsPowerOfTwo_iff by blast
  have "k \<noteq> 63" using assms(2) k(2) by auto
  then have s: "ShiftForPowerOfTwo_signed imm = k" using ShiftForPowerOfTwo_signed_power k by simp
  have u: "unat (of_nat k :: intx) = k" using k(1) by (simp add: unat_of_nat)
  have "sim_bset 0 (of_nat k) = imm"
    by (rule bit_word_eqI) (use k u in \<open>auto simp: bit_sim_single bit_push_bit_iff bit_1_iff bit_exp_iff\<close>)
  then show ?thesis
    unfolding s by (intro computes_cong [OF bseti_i.correct]) (use u k(1) in auto)
qed

lemma computes_split:
  assumes "\<not> IsInt 32 imm" "hi = imm - ImmLo imm" "t = CountTrailingZeros64 hi"
    and "computes a a' (\<lambda>R. wr reg (signed_drop_bit t hi) R)"
  shows "computes a (let b = slli reg reg (of_nat t) a' in if ImmLo imm \<noteq> 0 then addi reg reg (ImmLo imm) b else b)
    (\<lambda>R. wr reg imm R)"
proof -
  have b: "computes a (slli reg reg (of_nat t) a') (\<lambda>R. wr reg hi R)"
  proof (rule computes_shifted [OF assms(4)])
    have "hi \<noteq> 0" using assms(1,2) ImmLo_bounds [of imm] by (auto simp: IsInt_iff)
    then show "take_bit t hi = 0" "t < 64"
      using take_bit_countr_zero [of hi] countr_zero_bits(1) [of hi] assms(3)
      by (simp_all add: CountTrailingZeros64_def)
  qed
  have "computes a (addi reg reg (ImmLo imm) (slli reg reg (of_nat t) a')) (\<lambda>R. wr reg imm R)"
    by (rule computes_then [OF b addi_i.correct]) (use assms(2) in auto)
  then show ?thesis using b assms(2) by (auto simp: Let_def)
qed

text \<open>The constants that are never taken from the object pool: those of 32 bits, and those that are a 12-bit or an
  upper immediate shifted to the left.\<close>

definition inline_constant :: "intx \<Rightarrow> bool" where
  "inline_constant imm =
     (IsInt 32 imm \<or>
      (let shift = CountTrailingZeros64 imm
       in IsITypeImm (signed_drop_bit shift imm) \<or>
          12 \<le> shift \<and> IsUTypeImm (signed_drop_bit (shift - 12) imm)))"

definition not_pooled :: "'o Assembler \<Rightarrow> intx \<Rightarrow> bool" where
  "not_pooled a imm = (constant_pool_allowed_m a \<longrightarrow> inline_constant imm)"

text \<open>The constant is loaded by instructions that the model gives a meaning to: it is not loaded from the object pool, and it is not the
  least integer on a processor with single-bit instructions, for which the code is wrong.\<close>

definition imm_ok :: "'o Assembler \<Rightarrow> intx \<Rightarrow> bool" where
  "imm_ok a imm = (not_pooled a imm \<and> \<not> (Supports a RV_Zbs \<and> imm = 0x8000000000000000))"

lemma LoadImmediate_correct:
  assumes "imm_ok a imm"
  shows "\<exists>a'. LoadImmediate reg imm a = Inr a' \<and> computes a a' (\<lambda>R. wr reg imm R)"
  using assms
proof (induction reg imm a rule: LoadImmediate.induct)
  case (1 reg imm a)
  let ?s = "CountTrailingZeros64 imm" and ?hi = "imm - ImmLo imm"
  let ?t = "CountTrailingZeros64 ?hi"
  note unfold = LoadImmediate.simps [of reg imm a]
  consider (small) "IsInt 32 imm"
    | (power) "\<not> IsInt 32 imm" "Supports a RV_Zbs" "IsPowerOfTwo imm"
    | (itype) "\<not> IsInt 32 imm" "\<not> (Supports a RV_Zbs \<and> IsPowerOfTwo imm)"
        "IsITypeImm (signed_drop_bit ?s imm)"
    | (utype) "\<not> IsInt 32 imm" "\<not> (Supports a RV_Zbs \<and> IsPowerOfTwo imm)"
        "\<not> IsITypeImm (signed_drop_bit ?s imm)" "12 \<le> ?s \<and> IsUTypeImm (signed_drop_bit (?s - 12) imm)"
    | (big) "\<not> IsInt 32 imm" "\<not> (Supports a RV_Zbs \<and> IsPowerOfTwo imm)"
        "\<not> IsITypeImm (signed_drop_bit ?s imm)" "\<not> (12 \<le> ?s \<and> IsUTypeImm (signed_drop_bit (?s - 12) imm))"
    by blast
  then show ?case
  proof cases
    case small
    have "LoadImmediate reg imm a = Inr (if ImmHi imm = 0 then addi reg ZR (ImmLo imm) a
      else let a = lui reg (ImmHi imm) a in if ImmLo imm \<noteq> 0 then addiw reg reg (ImmLo imm) a else a)"
      unfolding unfold Let_def using small by simp
    then show ?thesis using computes_small [OF small] by blast
  next
    case power
    have "LoadImmediate reg imm a = Inr (bseti reg ZR (of_nat (ShiftForPowerOfTwo_signed imm)) a)"
      unfolding unfold using power by simp
    moreover have "imm \<noteq> 0x8000000000000000" using power(2) 1(2) by (simp add: imm_ok_def)
    ultimately show ?thesis using computes_power power(3) by blast
  next
    case itype
    have "LoadImmediate reg imm a = Inr (slli reg reg (of_nat ?s) (li reg (signed_drop_bit ?s imm) a))"
      unfolding unfold Let_def using itype by auto
    then show ?thesis
      using computes_shifted [OF computes_li [OF itype(3)]] shift_facts [OF itype(1)] by blast
  next
    case utype
    have "LoadImmediate reg imm a =
        Inr (slli reg reg (of_nat (?s - 12)) (lui reg (signed_drop_bit (?s - 12) imm) a))"
      unfolding unfold Let_def using utype by auto
    moreover have "computes a (lui reg (signed_drop_bit (?s - 12) imm) a) (\<lambda>R. wr reg (signed_drop_bit (?s - 12) imm) R)"
      using utype(4) shift_facts(3) [OF utype(1)] by (intro computes_lui) blast+
    ultimately show ?thesis
      using computes_shifted shift_facts [OF utype(1)] by blast
  next
    case big
    have pool: "\<not> constant_pool_allowed_m a"
      using big 1(2) by (auto simp: imm_ok_def not_pooled_def inline_constant_def Let_def)
    obtain a' where a': "LoadImmediate reg (signed_drop_bit ?t ?hi) a = Inr a'"
      "computes a a' (\<lambda>R. wr reg (signed_drop_bit ?t ?hi) R)"
    proof -
      have "signed_drop_bit ?t ?hi \<noteq> 0x8000000000000000"
        using sint_drop_less [OF big(1) refl refl] sint_ge [of imm] sint_lt [of imm] by force
      then have "imm_ok a (signed_drop_bit ?t ?hi)" using pool by (simp add: imm_ok_def not_pooled_def)
      then show thesis using 1(1) [OF big(1,2) refl big(3,4) pool refl refl refl] that by blast
    qed
    have "LoadImmediate reg imm a = Inr (let b = slli reg reg (of_nat ?t) a' in
        if ImmLo imm \<noteq> 0 then addi reg reg (ImmLo imm) b else b)"
      unfolding unfold Let_def using big pool a'(1) by (auto simp: and_then_def)
    then show ?thesis using computes_split [OF big(1) refl refl a'(2)] by auto
  qed
qed

section \<open>What a macro instruction does\<close>

text \<open>\<open>writes a r rd f C\<close>: generating code from state \<open>a\<close> succeeds, and the code sets \<open>rd\<close> to \<open>f\<close> of
  the registers and changes no other register outside \<open>C\<close>.\<close>

definition writes ::
    "'o Assembler \<Rightarrow> (asm_error + 'o Assembler) \<Rightarrow> Register \<Rightarrow> (regs \<Rightarrow> u64) \<Rightarrow> Register set \<Rightarrow> bool" where
  "writes a r rd f C =
     (\<exists>a' g. r = Inr a' \<and> computes a a' g \<and>
        (\<forall>R. R ZR = 0 \<longrightarrow> g R ZR = 0 \<and> (rd \<noteq> ZR \<longrightarrow> g R rd = f R) \<and> (\<forall>x. x \<noteq> rd \<longrightarrow> x \<notin> C \<longrightarrow> g R x = R x)))"

lemma writesI:
  assumes "computes a a' (\<lambda>R. wr rd (f R) R)"
  shows "writes a (Inr a') rd f C"
  unfolding writes_def using assms
  by (intro exI [of _ a'] exI [of _ "\<lambda>R. wr rd (f R) R"]) (simp add: wr_apply)

lemma writesI_cong:
  assumes "computes a a' (\<lambda>R. wr rd (g R) R)" "\<And>R. R ZR = 0 \<Longrightarrow> g R = f R"
  shows "writes a (Inr a') rd f C"
  by (rule writesI, rule computes_cong [OF assms(1)]) (simp add: assms(2))

lemma writes_then:
  assumes "computes a b (\<lambda>R. wr t v R)" "computes b c (\<lambda>R. wr rd (g R) R)" "t \<in> C"
    and "\<And>R. R ZR = 0 \<Longrightarrow> g (wr t v R) = f R"
  shows "writes a (Inr c) rd f C"
  unfolding writes_def
proof (intro exI conjI allI impI)
  show "computes a c (\<lambda>R. wr rd (g (wr t v R)) (wr t v R))"
    by (rule computes_trans [OF assms(1,2)]) simp
qed (use assms(3,4) in \<open>auto simp: wr_apply\<close>)

text \<open>A macro that first loads a constant into a scratch register.\<close>

lemma writes_LoadImmediate:
  assumes "binary_instruction emit f" "imm_ok a imm" "t \<in> C" "t \<noteq> ZR" "rs1 \<noteq> t"
  shows "writes a (and_then (LoadImmediate t imm a) (\<lambda>a. Inr (emit rd rs1 t a))) rd (\<lambda>R. f (R rs1) imm) C"
proof -
  obtain b where b: "LoadImmediate t imm a = Inr b" "computes a b (\<lambda>R. wr t imm R)"
    using LoadImmediate_correct [OF assms(2)] by blast
  have "writes a (Inr (emit rd rs1 t b)) rd (\<lambda>R. f (R rs1) imm) C"
    by (rule writes_then [OF b(2) binary_instruction.correct [OF assms(1)] assms(3)])
      (use assms(4,5) in \<open>simp add: wr_apply\<close>)
  then show ?thesis by (simp add: b(1) and_then_def)
qed

section \<open>Extensions and shifts\<close>

fun extended :: "OperandSize \<Rightarrow> u64 \<Rightarrow> u64" where
  "extended kByte x = signed_take_bit 7 x"
| "extended kUnsignedByte x = take_bit 8 x"
| "extended kTwoBytes x = signed_take_bit 15 x"
| "extended kUnsignedTwoBytes x = take_bit 16 x"
| "extended kFourBytes x = signed_take_bit 31 x"
| "extended kUnsignedFourBytes x = take_bit 32 x"
| "extended _ x = x"

definition general_size :: "OperandSize \<Rightarrow> bool" where
  "general_size sz = (sz \<in> {kByte, kUnsignedByte, kTwoBytes, kUnsignedTwoBytes, kFourBytes, kUnsignedFourBytes, kEightBytes})"

lemma sint_sign_extend: "sint (sign_extend w) = sint w"
  using sint_ge [of w] sint_lt [of w]
  by (simp add: sign_extend_def signed_scast_eq signed_take_bit_int_eq_self_iff)

lemma unat_of_nat_64: "k < 64 \<Longrightarrow> unat (of_nat k :: intx) = k"
  by (simp add: unat_of_nat)

lemma drop_push_bit: "k \<le> 64 \<Longrightarrow> drop_bit k (push_bit k x) = take_bit (64 - k) (x :: u64)"
  by (rule bit_word_eqI) (auto simp: bit_simps)

lemma computes_shl_shr:
  assumes "unat i < 64" "unat j < 64"
  shows "computes a (srli rd rd j (slli rd rs i a)) (\<lambda>R. wr rd (drop_bit (unat j) (push_bit (unat i) (R rs))) R)"
    "computes a (srai rd rd j (slli rd rs i a)) (\<lambda>R. wr rd (signed_drop_bit (unat j) (push_bit (unat i) (R rs))) R)"
  by (rule computes_then [OF slli_i.correct srli_i.correct], use assms in \<open>auto simp: wr_def\<close>)
    (rule computes_then [OF slli_i.correct srai_i.correct], use assms in \<open>auto simp: wr_def\<close>)

lemma shift_pairs:
  fixes x :: u64
  shows "drop_bit 32 (push_bit 32 x) = take_bit 32 x" "drop_bit 48 (push_bit 48 x) = take_bit 16 x"
    "signed_drop_bit 48 (push_bit 48 x) = signed_take_bit 15 x" "signed_drop_bit 56 (push_bit 56 x) = signed_take_bit 7 x"
  using drop_push_bit [of 32 x] drop_push_bit [of 48 x] shift_pair_signed_take_bit [of 16 x]
    shift_pair_signed_take_bit [of 8 x] by simp_all

lemma computes_mv: "computes a (mv rd rs a) (\<lambda>R. wr rd (R rs) R)"
  unfolding mv_def by (rule computes_cong [OF addi_i.correct]) (simp_all add: IsITypeImm_def IsInt_iff)

lemma computes_sextw: "computes a (sextw rd rs a) (\<lambda>R. wr rd (signed_take_bit 31 (R rs)) R)"
  unfolding sextw_def
  by (rule computes_cong [OF addiw_i.correct]) (simp_all add: IsITypeImm_def IsInt_iff sign_extend_ucast)

lemma computes_zextw: "computes a (zextw rd rs a) (\<lambda>R. wr rd (take_bit 32 (R rs)) R)"
  unfolding zextw_def by (rule computes_cong [OF adduw_i.correct]) (simp add: ucast_ucast_32)

lemma computes_id_wr: "computes a a (\<lambda>R. wr rd (R rd) R)"
  by (rule computes_cong [OF computes_refl]) (simp add: wr_def)

lemma ExtendValue_writes:
  assumes "general_size sz"
  shows "writes a (ExtendValue rd rn sz a) rd (\<lambda>R. extended sz (R rn)) C"
proof -
  have "IsITypeImm 0xFF" by (simp add: IsITypeImm_def IsInt_iff)
  then have byte: "computes a (andi rd rn 0xFF a) (\<lambda>R. wr rd (take_bit 8 (R rn)) R)" for rd rn
    by (intro computes_cong [OF andi_i.correct]) (simp_all add: and_numeral_take_bit)
  note steps = computes_mv computes_id_wr computes_zextw computes_sextw byte
    computes_shl_shr [of 32 32, simplified] computes_shl_shr [of 48 48, simplified]
    computes_shl_shr [of 56 56, simplified] zexth_i.correct sexth_i.correct sextb_i.correct
  show ?thesis
    using assms
    by (auto simp: general_size_def ExtendValue_def sim_extend_eq shift_pairs split: OperandSize.splits
        intro!: writesI steps [THEN computes_cong])
qed


lemma drop_push_tag:
  assumes "0 < k" "k < 64"
  shows "drop_bit (k - 1) (push_bit k x) = push_bit 1 (take_bit (64 - k) (x :: u64))"
  by (rule bit_word_eqI, unfold bit_simps) (use assms in \<open>auto simp: bit_simps\<close>)

lemma signed_drop_push_tag:
  assumes "0 < k" "k < 64"
  shows "signed_drop_bit (k - 1) (push_bit k x) = push_bit 1 (signed_take_bit (63 - k) (x :: u64))"
proof (rule bit_word_eqI)
  fix n assume "n < LENGTH(64)"
  then show "bit (signed_drop_bit (k - 1) (push_bit k x)) n \<longleftrightarrow> bit (push_bit 1 (signed_take_bit (63 - k) x)) n"
    unfolding bit_simps by (cases "n = 64 - k") (use assms in \<open>auto simp: min_def\<close>)
qed

lemmas shift_pairs_tagged =
  drop_push_tag [of 32, simplified] drop_push_tag [of 48, simplified] drop_push_tag [of 56, simplified]
  signed_drop_push_tag [of 32, simplified] signed_drop_push_tag [of 48, simplified]
  signed_drop_push_tag [of 56, simplified]

lemma ExtendAndSmiTagValue_writes:
  assumes "general_size sz"
  shows "writes a (ExtendAndSmiTagValue rd rn sz a) rd (\<lambda>R. push_bit 1 (extended sz (R rn))) C"
proof -
  have tag: "computes a (slli rd rn 1 a) (\<lambda>R. wr rd (push_bit 1 (R rn)) R)" for rd rn
    using slli_i.correct [of 1] by simp
  note steps = tag computes_shl_shr [of 32 31, simplified] computes_shl_shr [of 48 47, simplified]
    computes_shl_shr [of 56 55, simplified]
  show ?thesis
    using assms
    by (auto simp: general_size_def ExtendAndSmiTagValue_def SmiTag_def shift_pairs_tagged
        split: OperandSize.splits intro!: writesI steps [THEN computes_cong])
qed

lemma ArithmeticShiftRightImmediate_writes:
  assumes "sz = kEightBytes \<or> sz = kFourBytes" "shift < OperandSizeInBits sz"
  shows "writes a (ArithmeticShiftRightImmediate dst src shift sz a) dst
    (\<lambda>R. signed_drop_bit shift (extended sz (R src))) C"
proof -
  consider (zero) "shift = 0" | (four) "shift \<noteq> 0" "sz = kFourBytes" "shift < 32"
    | (eight) "shift \<noteq> 0" "sz = kEightBytes" "shift < 64"
    using assms by (cases "shift = 0") auto
  then show ?thesis
  proof cases
    case zero
    then show ?thesis
      using ExtendValue_writes [of sz a dst src] assms(1)
      by (auto simp: ArithmeticShiftRightImmediate_def general_size_def)
  next
    case four
    have "sign_extend (signed_drop_bit shift (ucast x)) = signed_drop_bit shift (signed_take_bit 31 x)" for x :: u64
    proof -
      have "sint (sign_extend (signed_drop_bit shift (ucast x))) = sint (signed_drop_bit shift (sign_extend (ucast x)))"
        by (simp add: sint_signed_drop_bit sint_sign_extend)
      then show ?thesis by (simp add: sign_extend_ucast signed_word_eqI)
    qed
    then show ?thesis
      using four by (auto simp: ArithmeticShiftRightImmediate_def unat_of_nat_64
          intro!: writesI sraiw_i.correct [THEN computes_cong])
  next
    case eight
    then show ?thesis
      by (auto simp: ArithmeticShiftRightImmediate_def unat_of_nat_64
          intro!: writesI srai_i.correct [THEN computes_cong])
  qed
qed

lemma LslImmediate_writes:
  assumes "sz = kEightBytes \<or> sz = kFourBytes \<or> sz = kUnsignedFourBytes" "shift < OperandSizeInBits sz"
  shows "writes a (LslImmediate rd rn shift sz a) rd (\<lambda>R. extended sz (push_bit shift (R rn))) C"
proof -
  consider (zero) "shift = 0" | (four) "shift \<noteq> 0" "sz = kFourBytes" "shift < 32"
    | (ufour) "shift \<noteq> 0" "sz = kUnsignedFourBytes" "shift < 32"
    | (eight) "shift \<noteq> 0" "sz = kEightBytes" "shift < 64"
    using assms by (cases "shift = 0") auto
  then show ?thesis
  proof cases
    case zero
    then show ?thesis
      using ExtendValue_writes [of sz a rd rn] assms(1) by (auto simp: LslImmediate_def general_size_def)
  next
    case four
    have "sign_extend (push_bit shift (ucast x)) = signed_take_bit 31 (push_bit shift x)" for x :: u64
      by (simp add: sign_extend_ucast flip: ucast_push_bit_32)
    then show ?thesis
      using four by (auto simp: LslImmediate_def unat_of_nat_64
          intro!: writesI slliw_i.correct [THEN computes_cong])
  next
    case ufour
    have "unat (of_nat shift + 32 :: intx) = shift + 32" using ufour(3) unat_of_nat_64 [of "shift + 32"] by simp
    moreover have "drop_bit 32 (push_bit (shift + 32) x) = take_bit 32 (push_bit shift x)" for x :: u64
      using ufour(3) by (intro bit_word_eqI) (auto simp: bit_simps)
    ultimately show ?thesis
      using ufour by (auto simp: LslImmediate_def
          intro!: writesI computes_shl_shr(1) [of "of_nat shift + 32" 32, THEN computes_cong])
  next
    case eight
    then show ?thesis
      by (auto simp: LslImmediate_def unat_of_nat_64 intro!: writesI slli_i.correct [THEN computes_cong])
  qed
qed

lemma ExtractBitField_writes:
  assumes "0 < width" "low_bit + width \<le> 64"
  shows "writes a (ExtractBitField dst src low_bit width a) dst
    (\<lambda>R. take_bit width (drop_bit low_bit (R src))) C"
proof -
  have u: "unat (of_nat low_bit :: intx) = low_bit" "unat (of_nat (64 - width) :: intx) = 64 - width"
    "unat (of_nat (64 - (low_bit + width)) :: intx) = 64 - (low_bit + width)"
    by (rule unat_of_nat_64, use assms in simp)+
  have field: "drop_bit (64 - width) (push_bit (64 - (low_bit + width)) x) = take_bit width (drop_bit low_bit x)" for x :: u64
    using assms by (intro bit_word_eqI) (auto simp: bit_simps algebra_simps)
  have top': "drop_bit low_bit x = take_bit width (drop_bit low_bit x)" if "low_bit + width = 64" for x :: u64
    using that by (intro bit_word_eqI) (auto simp: bit_simps dest: bit_imp_le_length)
  have one: "x AND 1 = take_bit 1 x" "sim_bext x i = take_bit 1 (drop_bit (unat i) x)" if "unat i < 64" for x i :: u64
  proof -
    have "unat (i AND 63) = unat i"
      unfolding and_numeral_take_bit unsigned_take_bit_eq using that by (simp add: take_bit_nat_eq_self_iff)
    then show "x AND 1 = take_bit 1 x" "sim_bext x i = take_bit 1 (drop_bit (unat i) x)"
      by (simp_all add: sim_bext_def and_numeral_take_bit)
  qed
  consider (lsb) "width = 1" "low_bit = 0" | (bext) "width = 1" "low_bit \<noteq> 0" "Supports a RV_Zbs"
    | (all) "width = 64" | (top) "width < 64" "low_bit + width = 64" "\<not> (width = 1 \<and> Supports a RV_Zbs)"
    | (mid) "width < 64" "low_bit + width < 64" "\<not> (width = 1 \<and> (low_bit = 0 \<or> Supports a RV_Zbs))"
    using assms by (cases "width = 1"; cases "low_bit + width = 64") fastforce+
  then show ?thesis
  proof cases
    case lsb
    then show ?thesis
      using one(1) [of 0] by (auto simp: ExtractBitField_def IsITypeImm_def IsInt_iff
          intro!: writesI andi_i.correct [THEN computes_cong])
  next
    case bext
    then show ?thesis
      using assms u one(2) [of "of_nat low_bit"]
      by (auto simp: ExtractBitField_def intro!: writesI bexti_i.correct [THEN computes_cong])
  next
    case all
    then have "low_bit = 0" using assms by simp
    then show ?thesis
      using all ExtendValue_writes [of kEightBytes a dst src] by (simp add: ExtractBitField_def MoveRegister_def general_size_def take_bit_word_eq_self)
  next
    case top
    then show ?thesis
      using assms u top' by (auto simp: ExtractBitField_def intro!: writesI srli_i.correct [THEN computes_cong])
  next
    case mid
    then have "ExtractBitField dst src low_bit width a =
        Inr (srli dst dst (of_nat (64 - width)) (slli dst src (of_nat (64 - (low_bit + width))) a))"
      unfolding ExtractBitField_def by (auto simp del: of_nat_diff)
    moreover have "writes a (Inr (srli dst dst (of_nat (64 - width)) (slli dst src (of_nat (64 - (low_bit + width))) a)))
        dst (\<lambda>R. take_bit width (drop_bit low_bit (R src))) C"
      by (rule writesI_cong, rule computes_shl_shr(1)) (unfold u, use assms mid field in auto)
    ultimately show ?thesis by (simp only:)
  qed
qed

lemma writes_shifted_add:
  assumes "computes a b (\<lambda>R. wr t (f (R index)) R)" "t = dest \<and> base \<noteq> dest \<or> t = TMP2 \<and> base \<noteq> TMP2"
    "dest \<noteq> ZR"
  shows "writes a (Inr (add dest t base b)) dest (\<lambda>R. R base + f (R index)) {TMP2}"
  unfolding writes_def
proof (intro exI conjI allI impI)
  show "computes a (add dest t base b) (\<lambda>R. wr dest (wr t (f (R index)) R t + wr t (f (R index)) R base) (wr t (f (R index)) R))"
    by (rule computes_trans [OF assms(1) add_i.correct]) simp
qed (use assms(2,3) in \<open>auto simp: wr_apply\<close>)

lemma AddShifted_writes:
  assumes "- 64 < shift" "shift < 64" "base \<noteq> TMP2" "dest \<noteq> ZR"
  shows "writes a (Inr (AddShifted dest base index shift a)) dest
    (\<lambda>R. R base + (if shift < 0 then signed_drop_bit (nat (- shift)) (R index) else push_bit (nat shift) (R index))) {TMP2}"
proof -
  have u: "unat (of_int shift :: intx) = nat shift" if "0 \<le> shift"
    using that assms(2) unat_of_nat_64 [of "nat shift"] by simp
  have u': "unat (of_int (- shift) :: intx) = nat (- shift)" if "shift < 0"
    using that assms(1) unat_of_nat_64 [of "nat (- shift)"] by simp
  have l: "computes a (slli t index (of_int shift) a) (\<lambda>R. wr t (push_bit (nat shift) (R index)) R)" if "0 \<le> shift" for t
    using slli_i.correct [of "of_int shift" a t index] that assms(2) u by simp
  have r: "computes a (srai t index (of_int (- shift)) a) (\<lambda>R. wr t (signed_drop_bit (nat (- shift)) (R index)) R)" if "shift < 0" for t
    using srai_i.correct [of "of_int (- shift)" a t index] that assms(1) u' by simp
  have fixed: "writes a (Inr (add dest index base a)) dest (\<lambda>R. R base + R index) C"
    "writes a (Inr (sh1add dest index base a)) dest (\<lambda>R. R base + push_bit 1 (R index)) C"
    "writes a (Inr (sh2add dest index base a)) dest (\<lambda>R. R base + push_bit 2 (R index)) C"
    "writes a (Inr (sh3add dest index base a)) dest (\<lambda>R. R base + push_bit 3 (R index)) C" for C
    by (auto intro!: writesI computes_cong [OF add_i.correct] computes_cong [OF sh1add_i.correct]
        computes_cong [OF sh2add_i.correct] computes_cong [OF sh3add_i.correct] simp: add.commute)
  have sl: "writes a (Inr (add dest t base (slli t index (of_int shift) a))) dest
      (\<lambda>R. R base + push_bit (nat shift) (R index)) {TMP2}"
    if "0 \<le> shift" "t = dest \<and> base \<noteq> dest \<or> t = TMP2 \<and> base \<noteq> TMP2" for t
    using writes_shifted_add [OF l that(2)] that(1) assms(4) by simp
  have sr: "writes a (Inr (add dest t base (srai t index (of_int (- shift)) a))) dest
      (\<lambda>R. R base + signed_drop_bit (nat (- shift)) (R index)) {TMP2}"
    if "shift < 0" "t = dest \<and> base \<noteq> dest \<or> t = TMP2 \<and> base \<noteq> TMP2" for t
    using writes_shifted_add [OF r that(2)] that(1) assms(4) by simp
  show ?thesis
    using fixed sl sr assms(3) unfolding AddShifted_def by (auto simp del: of_int_minus)
qed

section \<open>Arithmetic with immediates\<close>

lemma AddImmediate_writes:
  assumes "IsITypeImm imm \<or> imm_ok a imm \<and> rs1 \<noteq> TMP2" "\<not> (imm = 0 \<and> rd = rs1 \<and> sz = kFourBytes)"
  shows "writes a (AddImmediate rd rs1 imm sz a) rd
    (\<lambda>R. if sz = kFourBytes then signed_take_bit 31 (R rs1 + imm) else R rs1 + imm) {TMP2}"
proof -
  have w: "sign_extend (ucast x + ucast y) = signed_take_bit 31 (x + y)" for x y :: u64
    by (simp add: sign_extend_ucast flip: ucast_add_32)
  have small: "writes a (Inr (addi rd rs1 imm a)) rd (\<lambda>R. R rs1 + imm) C"
      "writes a (Inr (addiw rd rs1 imm a)) rd (\<lambda>R. signed_take_bit 31 (R rs1 + imm)) C"
    if "IsITypeImm imm" for C
    using that by (auto intro!: writesI addi_i.correct computes_cong [OF addiw_i.correct] simp: w)
  have big: "writes a (and_then (LoadImmediate TMP2 imm a) (\<lambda>a. Inr (add rd rs1 TMP2 a))) rd (\<lambda>R. R rs1 + imm) {TMP2}"
      "writes a (and_then (LoadImmediate TMP2 imm a) (\<lambda>a. Inr (addw rd rs1 TMP2 a))) rd
        (\<lambda>R. signed_take_bit 31 (R rs1 + imm)) {TMP2}"
    if "\<not> IsITypeImm imm"
    using writes_LoadImmediate [OF add_i.binary_instruction_axioms, of a imm TMP2 "{TMP2}" rs1 rd]
      writes_LoadImmediate [OF addw_i.binary_instruction_axioms, of a imm TMP2 "{TMP2}" rs1 rd]
      that assms(1) by (simp_all add: w)
  have same: "writes a (Inr a) rs1 (\<lambda>R. R rs1) {TMP2}" by (intro writesI computes_id_wr)
  show ?thesis
    using small [of "{TMP2}"] big same assms unfolding AddImmediate_def by auto
qed

lemma power_shift:
  assumes "IsPowerOfTwo x"
  shows "ShiftForPowerOfTwo x < 64" "bit x n \<longleftrightarrow> n = ShiftForPowerOfTwo x"
    "push_bit (ShiftForPowerOfTwo x) 1 = x"
    "unat (of_nat (ShiftForPowerOfTwo x) :: intx) = ShiftForPowerOfTwo x"
proof -
  obtain k where k: "k < 64" "x = push_bit k 1" using assms unfolding IsPowerOfTwo_iff by blast
  then have *: "ShiftForPowerOfTwo x = k" using ShiftForPowerOfTwo_power by simp
  show "ShiftForPowerOfTwo x < 64" "push_bit (ShiftForPowerOfTwo x) 1 = x"
    "unat (of_nat (ShiftForPowerOfTwo x) :: intx) = ShiftForPowerOfTwo x"
    using * k unat_of_nat_64 by auto
  show "bit x n \<longleftrightarrow> n = ShiftForPowerOfTwo x" unfolding * using k by (auto simp: bit_push_bit_iff bit_1_iff bit_exp_iff)
qed

lemma single_bit_eq:
  fixes x imm :: u64
  shows "IsPowerOfTwo imm \<Longrightarrow> sim_bset x (of_nat (ShiftForPowerOfTwo imm)) = x OR imm"
    "IsPowerOfTwo imm \<Longrightarrow> sim_binv x (of_nat (ShiftForPowerOfTwo imm)) = x XOR imm"
    "IsPowerOfTwo (NOT imm) \<Longrightarrow> sim_bclr x (of_nat (ShiftForPowerOfTwo (NOT imm))) = x AND imm"
proof -
  note b = bit_sim_single bit_or_iff bit_xor_iff bit_and_iff
  show "IsPowerOfTwo imm \<Longrightarrow> sim_bset x (of_nat (ShiftForPowerOfTwo imm)) = x OR imm"
    "IsPowerOfTwo imm \<Longrightarrow> sim_binv x (of_nat (ShiftForPowerOfTwo imm)) = x XOR imm"
    by (rule bit_word_eqI, simp add: b power_shift)+
  assume p: "IsPowerOfTwo (NOT imm)"
  show "sim_bclr x (of_nat (ShiftForPowerOfTwo (NOT imm))) = x AND imm"
  proof (rule bit_word_eqI)
    fix n assume "n < LENGTH(64)"
    then show "bit (sim_bclr x (of_nat (ShiftForPowerOfTwo (NOT imm)))) n \<longleftrightarrow> bit (x AND imm) n"
      using power_shift(2) [OF p, of n] power_shift(1,4) [OF p] by (auto simp: b bit_not_iff)
  qed
qed

lemma not_zbs_imm_ok:
  "not_pooled a imm \<Longrightarrow> \<not> (Supports a RV_Zbs \<and> IsPowerOfTwo imm) \<Longrightarrow> imm_ok a imm"
  using ShiftForPowerOfTwo_signed_min(1) unfolding imm_ok_def by blast

lemma MoveRegister_writes: "writes a (MoveRegister rd rs a) rd (\<lambda>R. R rs) C"
  using ExtendValue_writes [of kEightBytes a rd rs C] by (simp add: MoveRegister_def general_size_def)

lemma OrImmediate_writes:
  assumes "IsITypeImm imm \<or> not_pooled a imm \<and> rs1 \<noteq> TMP2"
  shows "writes a (OrImmediate rd rs1 imm a) rd (\<lambda>R. R rs1 OR imm) {TMP2}"
proof -
  have "writes a (Inr (ori rd rs1 imm a)) rd (\<lambda>R. R rs1 OR imm) {TMP2}" if "IsITypeImm imm"
    using that by (intro writesI ori_i.correct)
  moreover have "writes a (Inr (bseti rd rs1 (of_nat (ShiftForPowerOfTwo imm)) a)) rd (\<lambda>R. R rs1 OR imm) {TMP2}"
    if "IsPowerOfTwo imm"
    by (rule writesI_cong [OF bseti_i.correct]) (use power_shift [OF that] single_bit_eq that in auto)
  ultimately show ?thesis
    using writes_LoadImmediate [OF or_r_i.binary_instruction_axioms, of a imm TMP2 "{TMP2}" rs1 rd]
      assms not_zbs_imm_ok [of a imm] MoveRegister_writes [of a rd rs1 "{TMP2}"]
    unfolding OrImmediate_def by auto
qed

lemma XorImmediate_writes:
  assumes "IsITypeImm imm \<or> not_pooled a imm \<and> rs1 \<noteq> TMP2"
  shows "writes a (XorImmediate rd rs1 imm a) rd (\<lambda>R. R rs1 XOR imm) {TMP2}"
proof -
  have "writes a (Inr (xori rd rs1 imm a)) rd (\<lambda>R. R rs1 XOR imm) {TMP2}" if "IsITypeImm imm"
    using that by (intro writesI xori_i.correct)
  moreover have "writes a (Inr (binvi rd rs1 (of_nat (ShiftForPowerOfTwo imm)) a)) rd (\<lambda>R. R rs1 XOR imm) {TMP2}"
    if "IsPowerOfTwo imm"
    by (rule writesI_cong [OF binvi_i.correct]) (use power_shift [OF that] single_bit_eq that in auto)
  ultimately show ?thesis
    using writes_LoadImmediate [OF xor_r_i.binary_instruction_axioms, of a imm TMP2 "{TMP2}" rs1 rd]
      assms not_zbs_imm_ok [of a imm] MoveRegister_writes [of a rd rs1 "{TMP2}"]
    unfolding XorImmediate_def by auto
qed

text \<open>The mask that \<open>AndImmediate\<close> applies.\<close>

definition and_mask :: "OperandSize \<Rightarrow> intx \<Rightarrow> u64" where
  "and_mask sz imm = (if OperandSizeInBits sz = 64 then imm else take_bit 32 imm)"

lemma low_mask_field:
  assumes "IsPowerOfTwo (m + 1)" "\<not> IsITypeImm m"
  shows "0 < ShiftForPowerOfTwo (m + 1)" "ShiftForPowerOfTwo (m + 1) < 64"
    "x AND m = take_bit (ShiftForPowerOfTwo (m + 1)) (x :: u64)"
proof -
  let ?k = "ShiftForPowerOfTwo (m + 1)"
  have m: "m = push_bit ?k 1 - 1" using power_shift(3) [OF assms(1)] by (simp add: eq_diff_eq)
  show "?k < 64" by (rule power_shift(1) [OF assms(1)])
  show "0 < ?k" using assms(2) m by (cases "?k = 0") (auto simp: IsITypeImm_def IsInt_iff)
  have "m = mask ?k" using m by (simp add: mask_eq_exp_minus_1 push_bit_eq_mult)
  then show "x AND m = take_bit ?k x" by (metis take_bit_eq_mask)
qed


lemma AndImmediate_writes:
  assumes "sz = kEightBytes \<or> sz = kFourBytes \<or> sz = kUnsignedFourBytes"
    and "IsITypeImm (and_mask sz imm) \<or> IsPowerOfTwo (and_mask sz imm + 1) \<or>
      imm_ok a (and_mask sz imm) \<and> rs1 \<noteq> TMP2 \<and> TMP2 \<in> C"
  shows "writes a (AndImmediate rd rs1 imm sz a) rd (\<lambda>R. R rs1 AND and_mask sz imm) C"
proof -
  let ?m = "and_mask sz imm" and ?k = "ShiftForPowerOfTwo (and_mask sz imm + 1)"
  have uimm: "(if OperandSizeInBits sz = 64 then imm else ucast (ucast imm :: u32)) = ?m"
    by (simp add: and_mask_def ucast_ucast_32)
  have all: "writes a (MoveRegister rd rs1 a) rd (\<lambda>R. R rs1 AND ?m) C"
    if "OperandSizeInBits sz = 64" "imm = - 1"
    using MoveRegister_writes [of a rd rs1 C] that by (simp add: and_mask_def)
  have low: "writes a (ExtendValue rd rs1 kUnsignedFourBytes a) rd (\<lambda>R. R rs1 AND ?m) C"
    if "OperandSizeInBits sz < 64" "(ucast imm :: u32) = - 1"
  proof -
    have "take_bit 32 imm = ucast (- 1 :: u32)" using that(2) ucast_ucast_32 [of imm] by simp
    also have "\<dots> = mask 32" by code_simp
    finally have "?m = mask 32" using that(1) by (simp add: and_mask_def)
    then show ?thesis
      using ExtendValue_writes [of kUnsignedFourBytes a rd rs1 C] by (simp add: general_size_def take_bit_eq_mask)
  qed
  have small: "writes a (Inr (andi rd rs1 ?m a)) rd (\<lambda>R. R rs1 AND ?m) C" if "IsITypeImm ?m"
    using that by (intro writesI andi_i.correct)
  have clear: "writes a (Inr (bclri rd rs1 (of_nat (ShiftForPowerOfTwo (NOT ?m))) a)) rd (\<lambda>R. R rs1 AND ?m) C"
    if "IsPowerOfTwo (NOT ?m)"
    by (rule writesI_cong [OF bclri_i.correct]) (use power_shift [OF that] single_bit_eq that in auto)
  have half: "writes a (Inr (zexth rd rs1 a)) rd (\<lambda>R. R rs1 AND ?m) C"
    if "IsPowerOfTwo (?m + 1)" "\<not> IsITypeImm ?m" "?k = 16"
    by (rule writesI_cong [OF zexth_i.correct])
      (use that low_mask_field(3) [OF that(1,2)] in \<open>simp add: sim_extend_eq\<close>)
  have field: "writes a (Inr (srli rd rd (of_nat (64 - ?k)) (slli rd rs1 (of_nat (64 - ?k)) a))) rd
      (\<lambda>R. R rs1 AND ?m) C" if "IsPowerOfTwo (?m + 1)" "\<not> IsITypeImm ?m"
  proof -
    note lm = low_mask_field [OF that]
    have "unat (of_nat (64 - ?k) :: intx) = 64 - ?k" by (rule unat_of_nat_64) (use lm(1) in simp)
    then show ?thesis
      by (intro writesI_cong [OF computes_shl_shr(1)])
        (use lm drop_push_bit [of "64 - ?k"] in \<open>simp_all del: of_nat_diff\<close>)
  qed
  show ?thesis
    using all low small clear half field assms(2)
      writes_LoadImmediate [OF and_r_i.binary_instruction_axioms, of a ?m TMP2 C rs1 rd]
    unfolding AndImmediate_def Let_def uimm by (auto simp del: of_nat_diff)
qed

lemma power_of_two_product:
  assumes "IsPowerOfTwo imm"
  shows "push_bit (ShiftForPowerOfTwo imm) x = x * (imm :: u64)"
  using arg_cong [OF power_shift(3) [OF assms], of "\<lambda>y. x * y"] by (simp add: push_bit_eq_mult)

lemma signed_shift_eq:
  assumes "IsPowerOfTwo imm" "imm \<noteq> 0x8000000000000000"
  shows "ShiftForPowerOfTwo_signed imm = ShiftForPowerOfTwo imm"
proof -
  obtain k where k: "k < 64" "imm = push_bit k 1" using assms(1) unfolding IsPowerOfTwo_iff by blast
  moreover have "k \<noteq> 63" using assms(2) k(2) by auto
  ultimately show ?thesis using ShiftForPowerOfTwo_signed_power ShiftForPowerOfTwo_power by simp
qed

lemma IsInt32_power: "IsPowerOfTwo imm \<Longrightarrow> IsInt 32 imm \<Longrightarrow> ShiftForPowerOfTwo imm < 32"
proof (rule ccontr)
  assume p: "IsPowerOfTwo imm" "IsInt 32 imm" "\<not> ShiftForPowerOfTwo imm < 32"
  let ?k = "ShiftForPowerOfTwo imm"
  have "bit (signed_take_bit 31 imm) ?k \<longleftrightarrow> bit imm 31"
    using p(3) power_shift(1) [OF p(1)] by (simp add: bit_signed_take_bit_iff min_def)
  then show False
    using p power_shift(2) [OF p(1)] by (auto simp: IsInt_signed_take_bit)
qed

lemma MulImmediate_writes:
  assumes "sz = kEightBytes \<or> sz = kFourBytes \<and> IsInt 32 imm"
    and "not_pooled a imm" "rs1 \<noteq> TMP" "imm \<noteq> 0x8000000000000000"
  shows "writes a (MulImmediate rd rs1 imm sz a) rd (\<lambda>R. extended sz (R rs1 * imm)) {TMP}"
proof -
  let ?k = "ShiftForPowerOfTwo imm"
  have shl: "writes a (Inr (slli rd rs1 (of_nat ?k) a)) rd (\<lambda>R. R rs1 * imm) {TMP}" if "IsPowerOfTwo imm"
    by (rule writesI_cong [OF slli_i.correct]) (use power_shift [OF that] power_of_two_product that in auto)
  have shlw: "writes a (Inr (slliw rd rs1 (of_nat ?k) a)) rd (\<lambda>R. signed_take_bit 31 (R rs1 * imm)) {TMP}"
    if "IsPowerOfTwo imm" "IsInt 32 imm"
  proof (rule writesI_cong [OF slliw_i.correct])
    show "unat (of_nat ?k :: intx) < 32" using power_shift(4) [OF that(1)] IsInt32_power [OF that] by simp
    have "sign_extend (push_bit ?k (ucast x)) = sign_extend (ucast (push_bit ?k x) :: u32)" for x :: u64
      by (simp only: ucast_push_bit_32)
    then show "sign_extend (push_bit (unat (of_nat ?k :: intx)) (ucast (R rs1))) = signed_take_bit 31 (R rs1 * imm)" for R :: regs
      using power_shift(4) [OF that(1)] power_of_two_product [OF that(1), of "R rs1"] by (simp add: sign_extend_ucast)
  qed
  have m: "sign_extend (sim_mulw (ucast x) (ucast y)) = signed_take_bit 31 (x * y)" "sim_mul x y = x * y" for x y :: u64
    by (simp_all add: sim_mulw_def sim_mul_def sign_extend_ucast flip: ucast_mult_32)
  show ?thesis
    using shl shlw assms signed_shift_eq [of imm]
      writes_LoadImmediate [OF mul_i.binary_instruction_axioms, of a imm TMP "{TMP}" rs1 rd]
      writes_LoadImmediate [OF mulw_i.binary_instruction_axioms, of a imm TMP "{TMP}" rs1 rd]
    unfolding MulImmediate_def Let_def by (auto simp: m imm_ok_def)
qed


section \<open>Hashes\<close>

lemma computes_word_ops:
  "computes a (addw rd rs1 rs2 a) (\<lambda>R. wr rd (sign_extend (ucast (R rs1) + ucast (R rs2) :: u32)) R)"
  "k < 32 \<Longrightarrow> computes a (slliw rd rs1 (of_nat k) a) (\<lambda>R. wr rd (sign_extend (push_bit k (ucast (R rs1)) :: u32)) R)"
  "k < 32 \<Longrightarrow> computes a (srliw rd rs1 (of_nat k) a) (\<lambda>R. wr rd (sign_extend (drop_bit k (ucast (R rs1)) :: u32)) R)"
  "computes a (xor_r rd rs1 rs2 a) (\<lambda>R. wr rd (R rs1 XOR R rs2) R)"
  using addw_i.correct slliw_i.correct [of "of_nat k"] srliw_i.correct [of "of_nat k"] xor_r_i.correct
  by (simp_all add: unat_of_nat_64)

lemma sign_extend_xor: "sign_extend x XOR sign_extend y = sign_extend (x XOR y)"
  unfolding sign_extend_def by (rule bit_word_eqI) (simp add: bit_simps)

lemma ucast_sign_extend [simp]: "ucast (sign_extend (x :: u32)) = x"
  unfolding sign_extend_def by (rule bit_word_eqI) (simp add: bit_simps)

lemma emit_CombineHashes_writes:
  assumes "hash \<noteq> other" "hash \<noteq> ZR" "other \<noteq> ZR"
  shows "writes a (Inr (emit_CombineHashes hash other a)) hash
    (\<lambda>R. sign_extend (CombineHashes (ucast (R hash)) (ucast (R other)))) {other}"
proof -
  note steps = computes_word_ops(1) [of a hash hash other]
    computes_word_ops(2) [of 10 _ other hash, simplified] computes_word_ops(1) [of _ hash hash other]
    computes_word_ops(3) [of 6 _ other hash, simplified] computes_word_ops(4) [of _ hash hash other]
  note c = computes_trans [OF computes_trans [OF computes_trans [OF computes_trans [OF steps(1,2)] steps(3)] steps(4)] steps(5)]
  show ?thesis
    unfolding writes_def emit_CombineHashes_def Let_def
    by (intro exI conjI, rule refl, rule c)
      (use assms in \<open>auto simp: wr_apply CombineHashes_def Let_def sign_extend_xor\<close>)
qed


lemma writes_mono: "writes a r rd f C \<Longrightarrow> C \<subseteq> C' \<Longrightarrow> writes a r rd f C'"
  unfolding writes_def by blast

lemma writes_and_then:
  assumes "writes a r rd f C" "\<And>b. r = Inr b \<Longrightarrow> writes b (k b) rd f' C" "rd \<noteq> ZR"
    and "\<And>R R'. R' rd = f R \<Longrightarrow> f' R' = h R"
  shows "writes a (and_then r k) rd h C"
proof -
  obtain b g where b: "r = Inr b" "computes a b g"
    and g: "\<And>R. R ZR = 0 \<Longrightarrow> g R ZR = 0 \<and> g R rd = f R \<and> (\<forall>x. x \<noteq> rd \<longrightarrow> x \<notin> C \<longrightarrow> g R x = R x)"
    using assms(1,3) unfolding writes_def by blast
  obtain c g' where c: "k b = Inr c" "computes b c g'"
    and g': "\<And>R. R ZR = 0 \<Longrightarrow> g' R ZR = 0 \<and> g' R rd = f' R \<and> (\<forall>x. x \<noteq> rd \<longrightarrow> x \<notin> C \<longrightarrow> g' R x = R x)"
    using assms(2) [OF b(1)] assms(3) unfolding writes_def by blast
  have "computes a c (\<lambda>R. g' (g R))" using computes_trans [OF b(2) c(2)] g by blast
  moreover have "g' (g R) ZR = 0 \<and> g' (g R) rd = h R \<and> (\<forall>x. x \<noteq> rd \<longrightarrow> x \<notin> C \<longrightarrow> g' (g R) x = R x)"
    if "R ZR = 0" for R
    using that g [of R] g' [of "g R"] assms(4) [of "g R" R] by simp
  ultimately show ?thesis unfolding writes_def using b(1) c(1) by (auto simp: and_then_def)
qed

definition mixed :: "u32 \<Rightarrow> u32" where
  "mixed h = (let h = h + push_bit 3 h; h = h XOR drop_bit 11 h in h + push_bit 15 h)"

lemma writes_mixed:
  assumes "hash \<noteq> scratch" "hash \<noteq> ZR" "scratch \<noteq> ZR" "scratch \<in> C"
  shows "writes a (Inr (addw hash hash scratch (slliw scratch hash 15 (xor_r hash hash scratch
      (srliw scratch hash 11 (addw hash hash scratch (slliw scratch hash 3 a))))))) hash
    (\<lambda>R. sign_extend (mixed (ucast (R hash)))) C"
proof -
  note add = computes_word_ops(1) [of _ hash hash scratch]
    and shl = computes_word_ops(2) [of 3 _ scratch hash, simplified] computes_word_ops(2) [of 15 _ scratch hash, simplified]
    and shr = computes_word_ops(3) [of 11 _ scratch hash, simplified]
    and xor = computes_word_ops(4) [of _ hash hash scratch]
  note c = computes_trans [OF computes_trans [OF computes_trans [OF computes_trans [OF computes_trans
    [OF shl(1) add] shr] xor] shl(2)] add]
  show ?thesis
    unfolding writes_def
    by (intro exI conjI, rule refl, rule c)
      (use assms in \<open>auto simp: wr_apply mixed_def Let_def sign_extend_xor\<close>)
qed

lemma writes_nonzero:
  assumes "hash \<noteq> scratch" "hash \<noteq> ZR" "scratch \<noteq> ZR" "scratch \<in> C"
  shows "writes a (Inr (add hash hash scratch (seqz scratch hash a))) hash (\<lambda>R. if R hash = 0 then 1 else R hash) C"
proof -
  have "computes a (seqz scratch hash a) (\<lambda>R. wr scratch (if R hash = 0 then 1 else 0) R)"
    unfolding seqz_def
    by (rule computes_cong [OF sltiu_i.correct]) (auto simp: IsITypeImm_def IsInt_iff word_less_1)
  note c = computes_trans [OF this add_i.correct [of _ hash hash scratch]]
  show ?thesis
    unfolding writes_def
    by (intro exI conjI, rule refl, rule c) (use assms in \<open>auto simp: wr_apply\<close>)
qed


lemma take_bit_sign_extend: "n < 32 \<Longrightarrow> take_bit n (sign_extend x) = sign_extend (take_bit n (x :: u32))"
  unfolding sign_extend_def by (rule bit_word_eqI) (auto simp: bit_simps min_def dest: bit_imp_le_length)

lemma NBitMask_field:
  assumes "0 < n" "n < 32"
  shows "IsPowerOfTwo (and_mask kEightBytes (NBitMask n) + 1)" "x AND and_mask kEightBytes (NBitMask n) = take_bit n (x :: u64)"
proof -
  have m: "and_mask kEightBytes (NBitMask n) = push_bit n 1 - 1" using assms by (simp add: and_mask_def NBitMask_def)
  show "IsPowerOfTwo (and_mask kEightBytes (NBitMask n) + 1)"
    unfolding m IsPowerOfTwo_iff using assms by (intro exI [of _ n]) simp
  show "x AND and_mask kEightBytes (NBitMask n) = take_bit n x"
    unfolding m by (simp add: take_bit_eq_mask mask_eq_exp_minus_1 push_bit_eq_mult)
qed

lemma FinalizeHash_mixed:
  "FinalizeHash h n = (let h = if n < 32 then take_bit n (mixed h) else mixed h in if h = 0 then 1 else h)"
  unfolding FinalizeHash_def mixed_def Let_def
  by (simp add: take_bit_eq_mask mask_eq_exp_minus_1 push_bit_eq_mult)

lemma FinalizeHashForSize_writes:
  assumes "0 < bit_size" "bit_size \<le> 32" "hash \<noteq> scratch" "hash \<noteq> ZR" "scratch \<noteq> ZR"
  shows "writes a (FinalizeHashForSize bit_size hash scratch a) hash
    (\<lambda>R. sign_extend (FinalizeHash (ucast (R hash)) bit_size)) {scratch}"
proof -
  let ?b = "addw hash hash scratch (slliw scratch hash 15 (xor_r hash hash scratch
      (srliw scratch hash 11 (addw hash hash scratch (slliw scratch hash 3 a)))))"
  let ?size = "\<lambda>h. if bit_size < 32 then take_bit bit_size h else h"
  have sized: "writes a (and_then (Inr ?b) (\<lambda>b. if bit_size < 32 then AndImmediate hash hash (NBitMask bit_size) kEightBytes b else Inr b)) hash
      (\<lambda>R. sign_extend (?size (mixed (ucast (R hash))))) {scratch}"
  proof (rule writes_and_then [OF writes_mixed])
    show "writes b (if bit_size < 32 then AndImmediate hash hash (NBitMask bit_size) kEightBytes b else Inr b) hash
        (\<lambda>R. ?size (R hash)) {scratch}" for b
      using assms AndImmediate_writes [of kEightBytes "NBitMask bit_size" b hash "{scratch}" hash] NBitMask_field [of bit_size]
        writesI [OF computes_id_wr, of b hash "{scratch}"] by auto
  qed (use assms take_bit_sign_extend in auto)
  have zero: "sign_extend x = 0 \<longleftrightarrow> x = 0" for x :: u32
    using ucast_sign_extend [of x] by (auto simp: sign_extend_def)
  have "writes a (and_then (and_then (Inr ?b) (\<lambda>b. if bit_size < 32 then AndImmediate hash hash (NBitMask bit_size) kEightBytes b else Inr b))
       (\<lambda>b. Inr (add hash hash scratch (seqz scratch hash b)))) hash
     (\<lambda>R. sign_extend (FinalizeHash (ucast (R hash)) bit_size)) {scratch}"
    by (rule writes_and_then [OF sized writes_nonzero])
      (use assms zero in \<open>auto simp: FinalizeHash_mixed Let_def sign_extend_def\<close>)
  then show ?thesis unfolding FinalizeHashForSize_def Let_def and_then_def by simp
qed

end
