(* ===== verification/RiscvLabel.thy ===== *)
theory RiscvLabel
  imports RiscvMicro
begin

text \<open>
  Labels and branches: \<open>class Label\<close> of \<^verbatim>\<open>runtime/vm/compiler/assembler/assembler_base.h\<close> and the
  operations of \<open>MicroAssembler\<close> that use it. A forward branch is emitted before its target is known.
  The branches to one label form a linked list that is threaded through their offset fields, one list
  for each class of branch, and \<open>Bind\<close> walks the lists and stores the offsets.

  The positions of a label are \<open>int32_t\<close> in the code and \<open>int\<close> here: the two agree for a buffer of
  less than 2 GB. \<open>BailoutWithBranchOffsetError\<close> and \<open>FATAL\<close> leave the function and are error values.
\<close>

section \<open>Labels\<close>

record Label =
  position_m :: int
  unresolved_cb_m :: int
  unresolved_cj_m :: int
  unresolved_b_m :: int
  unresolved_j_m :: int
  unresolved_far_m :: int

definition new_label :: Label where
  "new_label = \<lparr>position_m = -1, unresolved_cb_m = -1, unresolved_cj_m = -1, unresolved_b_m = -1,
     unresolved_j_m = -1, unresolved_far_m = -1\<rparr>"

definition IsBound :: "Label \<Rightarrow> bool" where
  "IsBound l = (position_m l \<noteq> -1)"

definition IsLinked :: "Label \<Rightarrow> bool" where
  "IsLinked l = (unresolved_cb_m l \<noteq> -1 \<or> unresolved_cj_m l \<noteq> -1 \<or> unresolved_b_m l \<noteq> -1 \<or>
     unresolved_j_m l \<noteq> -1 \<or> unresolved_far_m l \<noteq> -1)"

definition IsUnused :: "Label \<Rightarrow> bool" where
  "IsUnused l = (\<not> IsBound l \<and> \<not> IsLinked l)"

definition BindTo :: "int \<Rightarrow> Label \<Rightarrow> Label" where
  "BindTo position l = l\<lparr>position_m := position\<rparr>"

definition offset_between :: "int \<Rightarrow> int \<Rightarrow> intx" where
  "offset_between position target = of_int (target - position)"

definition link_offset :: "int \<Rightarrow> int \<Rightarrow> intx" where
  "link_offset unresolved position = (if unresolved = -1 then 0 else offset_between unresolved position)"

definition link_cb :: "int \<Rightarrow> Label \<Rightarrow> intx \<times> Label" where
  "link_cb position l = (link_offset (unresolved_cb_m l) position, l\<lparr>unresolved_cb_m := position\<rparr>)"

definition link_cj :: "int \<Rightarrow> Label \<Rightarrow> intx \<times> Label" where
  "link_cj position l = (link_offset (unresolved_cj_m l) position, l\<lparr>unresolved_cj_m := position\<rparr>)"

definition link_b :: "int \<Rightarrow> Label \<Rightarrow> intx \<times> Label" where
  "link_b position l = (link_offset (unresolved_b_m l) position, l\<lparr>unresolved_b_m := position\<rparr>)"

definition link_j :: "int \<Rightarrow> Label \<Rightarrow> intx \<times> Label" where
  "link_j position l = (link_offset (unresolved_j_m l) position, l\<lparr>unresolved_j_m := position\<rparr>)"

definition link_far :: "int \<Rightarrow> Label \<Rightarrow> intx \<times> Label" where
  "link_far position l = (link_offset (unresolved_far_m l) position, l\<lparr>unresolved_far_m := position\<rparr>)"

section \<open>The buffer\<close>

definition Position :: "'z MicroAssembler_scheme \<Rightarrow> int" where
  "Position a = int (length (buffer_m a))"

definition in_buffer :: "nat \<Rightarrow> int \<Rightarrow> 'z MicroAssembler_scheme \<Rightarrow> bool" where
  "in_buffer n position a = (0 \<le> position \<and> position + int n \<le> Position a)"

definition buffer_Load :: "nat \<Rightarrow> int \<Rightarrow> 'z MicroAssembler_scheme \<Rightarrow> asm_error + u64" where
  "buffer_Load n position a =
     (if in_buffer n position a then Inr (load_le n (\<lambda>i. buffer_m a ! (nat position + unat i)) 0)
      else Inl BadPosition)"

definition patch :: "nat \<Rightarrow> u8 list \<Rightarrow> u8 list \<Rightarrow> u8 list" where
  "patch p bs buf = take p buf @ bs @ drop (p + length bs) buf"

definition buffer_Store ::
    "nat \<Rightarrow> int \<Rightarrow> u64 \<Rightarrow> 'z MicroAssembler_scheme \<Rightarrow> asm_error + 'z MicroAssembler_scheme" where
  "buffer_Store n position val a =
     (if in_buffer n position a
      then Inr (a\<lparr>buffer_m := patch (nat position) (bytes_le n val) (buffer_m a)\<rparr>)
      else Inl BadPosition)"

definition Read16 :: "int \<Rightarrow> 'z MicroAssembler_scheme \<Rightarrow> asm_error + u16" where
  "Read16 position a = and_then (buffer_Load 2 position a) (\<lambda>v. Inr (ucast v))"

definition Write16 ::
    "int \<Rightarrow> u16 \<Rightarrow> 'z MicroAssembler_scheme \<Rightarrow> asm_error + 'z MicroAssembler_scheme" where
  "Write16 position instruction = buffer_Store 2 position (ucast instruction)"

definition Read32 :: "int \<Rightarrow> 'z MicroAssembler_scheme \<Rightarrow> asm_error + u32" where
  "Read32 position a = and_then (buffer_Load 4 position a) (\<lambda>v. Inr (ucast v))"

definition Write32 ::
    "int \<Rightarrow> u32 \<Rightarrow> 'z MicroAssembler_scheme \<Rightarrow> asm_error + 'z MicroAssembler_scheme" where
  "Write32 position instruction = buffer_Store 4 position (ucast instruction)"

section \<open>Resolving branches\<close>

type_synonym 'z update = "int \<Rightarrow> intx \<Rightarrow> 'z MicroAssembler_scheme \<Rightarrow> asm_error + intx \<times> 'z MicroAssembler_scheme"

definition UpdateCBOffset :: "'z update" where
  "UpdateCBOffset branch_position new_offset a =
     and_then (Read16 branch_position a) (\<lambda>instr.
       let old_offset = CInstr_b_imm instr
       in if \<not> IsCBImm new_offset then Inl Fatal
          else and_then (Write16 branch_position
                 (ucast (CInstr_opcode instr OR EncodeCRs1p (CInstr_rs1p instr) OR EncodeCBImm new_offset)) a)
               (\<lambda>a. Inr (old_offset, a)))"

definition UpdateCJOffset :: "'z update" where
  "UpdateCJOffset branch_position new_offset a =
     and_then (Read16 branch_position a) (\<lambda>instr.
       let old_offset = CInstr_j_imm instr
       in if \<not> IsCJImm new_offset then Inl Fatal
          else and_then (Write16 branch_position (ucast (CInstr_opcode instr OR EncodeCJImm new_offset)) a)
               (\<lambda>a. Inr (old_offset, a)))"

definition UpdateBOffset :: "'z update" where
  "UpdateBOffset branch_position new_offset a =
     and_then (Read32 branch_position a) (\<lambda>instr.
       let old_offset = Instr_btype_imm instr
       in if \<not> IsBTypeImm new_offset then Inl BranchOffsetError
          else and_then (Write32 branch_position
                 (EncodeRs2 (Instr_rs2 instr) OR EncodeRs1 (Instr_rs1 instr) OR EncodeFunct3 (Instr_funct3 instr) OR
                  EncodeOpcode (Instr_opcode instr) OR EncodeBTypeImm new_offset) a)
               (\<lambda>a. Inr (old_offset, a)))"

definition UpdateJOffset :: "'z update" where
  "UpdateJOffset branch_position new_offset a =
     and_then (Read32 branch_position a) (\<lambda>instr.
       let old_offset = Instr_jtype_imm instr
       in if \<not> IsJTypeImm new_offset then Inl BranchOffsetError
          else and_then (Write32 branch_position
                 (EncodeRd (Instr_rd instr) OR EncodeOpcode (Instr_opcode instr) OR EncodeJTypeImm new_offset) a)
               (\<lambda>a. Inr (old_offset, a)))"

definition UpdateFarOffset :: "'z update" where
  "UpdateFarOffset branch_position new_offset a =
     and_then (Read32 branch_position a) (\<lambda>auipc_instr.
     and_then (Read32 (branch_position + 4) a) (\<lambda>jr_instr.
       let old_offset = Instr_utype_imm auipc_instr + Instr_itype_imm jr_instr;
           lo = ImmLo new_offset;
           hi = ImmHi new_offset
       in if \<not> IsUTypeImm hi then Inl Fatal
          else and_then (Write32 branch_position
                 (EncodeUTypeImm hi OR EncodeRd FAR_TMP OR EncodeOpcode AUIPC) a) (\<lambda>a.
               and_then (Write32 (branch_position + 4)
                 (EncodeITypeImm lo OR EncodeRs1 FAR_TMP OR EncodeFunct3 F3_0 OR EncodeRd ZR OR EncodeOpcode JALR) a)
               (\<lambda>a. Inr (old_offset, a)))))"

partial_function (option) BIND ::
    "'z update \<Rightarrow> int \<Rightarrow> int \<Rightarrow> 'z MicroAssembler_scheme \<Rightarrow> (asm_error + 'z MicroAssembler_scheme) option" where
  "BIND update target_position branch_position a =
     (if branch_position \<ge> 0 then
        case update branch_position (offset_between branch_position target_position) a of
          Inl e \<Rightarrow> Some (Inl e)
        | Inr (old_offset, a) \<Rightarrow>
            if old_offset = 0 then Some (Inr a)
            else BIND update target_position (branch_position - sint old_offset) a
      else Some (Inr a))"

definition then_bind ::
    "(asm_error + 'a) option \<Rightarrow> ('a \<Rightarrow> (asm_error + 'b) option) \<Rightarrow> (asm_error + 'b) option" where
  "then_bind r f = (case r of None \<Rightarrow> None | Some (Inl e) \<Rightarrow> Some (Inl e) | Some (Inr a) \<Rightarrow> f a)"

definition Bind ::
    "Label \<Rightarrow> 'z MicroAssembler_scheme \<Rightarrow> (asm_error + Label \<times> 'z MicroAssembler_scheme) option" where
  "Bind label a =
     (let target_position = Position a
      in then_bind (BIND UpdateCBOffset target_position (unresolved_cb_m label) a) (\<lambda>a.
         let label = label\<lparr>unresolved_cb_m := -1\<rparr>
         in then_bind (BIND UpdateCJOffset target_position (unresolved_cj_m label) a) (\<lambda>a.
         let label = label\<lparr>unresolved_cj_m := -1\<rparr>
         in then_bind (BIND UpdateBOffset target_position (unresolved_b_m label) a) (\<lambda>a.
         let label = label\<lparr>unresolved_b_m := -1\<rparr>
         in then_bind (BIND UpdateJOffset target_position (unresolved_j_m label) a) (\<lambda>a.
         let label = label\<lparr>unresolved_j_m := -1\<rparr>
         in then_bind (BIND UpdateFarOffset target_position (unresolved_far_m label) a) (\<lambda>a.
         let label = label\<lparr>unresolved_far_m := -1\<rparr>
         in Some (Inr (BindTo target_position label, a))))))))"

section \<open>Emitting branches\<close>

datatype JumpDistance = kFarJump | kNearJump

type_synonym 'z branch_result = "asm_error + Label \<times> 'z MicroAssembler_scheme"

definition InvertFunct3 :: "u32 \<Rightarrow> asm_error + u32" where
  "InvertFunct3 func =
     (if func = BEQ then Inr BNE
      else if func = BNE then Inr BEQ
      else if func = BGE then Inr BLT
      else if func = BGEU then Inr BLTU
      else if func = BLT then Inr BGE
      else if func = BLTU then Inr BGEU
      else Inl Unreachable)"

definition EmitCBranch :: "Register \<Rightarrow> Label \<Rightarrow> u32 \<Rightarrow> 'z MicroAssembler_scheme \<Rightarrow> 'z branch_result" where
  "EmitCBranch rs1p label opc a =
     (let (offset, label) =
            (if IsBound label then (offset_between (Position a) (position_m label), label)
             else link_cb (Position a) label)
      in if \<not> IsCBImm offset then Inl Fatal
         else Inr (label, Emit16 (ucast (opc OR EncodeCRs1p rs1p OR EncodeCBImm offset)) a))"

definition EmitCJump :: "Label \<Rightarrow> u32 \<Rightarrow> 'z MicroAssembler_scheme \<Rightarrow> 'z branch_result" where
  "EmitCJump label opc a =
     (let (offset, label) =
            (if IsBound label then (offset_between (Position a) (position_m label), label)
             else link_cj (Position a) label)
      in if \<not> IsCJImm offset then Inl Fatal
         else Inr (label, Emit16 (ucast (opc OR EncodeCJImm offset)) a))"

definition EmitFar :: "intx \<Rightarrow> 'z MicroAssembler_scheme \<Rightarrow> asm_error + 'z MicroAssembler_scheme" where
  "EmitFar offset a =
     (let lo = ImmLo offset;
          hi = ImmHi offset
      in if \<not> IsUTypeImm hi then Inl Fatal
         else Inr (EmitIType lo FAR_TMP F3_0 ZR JALR (EmitUType hi FAR_TMP AUIPC a)))"

definition has_c_branch :: "Register \<Rightarrow> Register \<Rightarrow> u32 \<Rightarrow> 'z MicroAssembler_scheme \<Rightarrow> bool" where
  "has_c_branch rs1 rs2 func a =
     (Supports a RV_C \<and> (func = BEQ \<or> func = BNE) \<and>
      (rs1 = ZR \<and> IsCRs1p rs2 \<or> rs2 = ZR \<and> IsCRs1p rs1))"

definition skip_branch ::
    "intx \<Rightarrow> Register \<Rightarrow> Register \<Rightarrow> u32 \<Rightarrow> 'z MicroAssembler_scheme \<Rightarrow> asm_error + 'z MicroAssembler_scheme" where
  "skip_branch jump_length rs1 rs2 func a =
     (if has_c_branch rs1 rs2 func a then
        Inr (Emit16 (ucast ((if func = BEQ then C_BNEZ else C_BEQZ) OR
               EncodeCRs1p (if rs1 = ZR then rs2 else rs1) OR EncodeCBImm (2 + jump_length))) a)
      else and_then (InvertFunct3 func) (\<lambda>inverted.
        Inr (EmitBType (4 + jump_length) rs2 rs1 inverted BRANCH a)))"

definition EmitBranch ::
    "Register \<Rightarrow> Register \<Rightarrow> Label \<Rightarrow> u32 \<Rightarrow> JumpDistance \<Rightarrow> 'z MicroAssembler_scheme \<Rightarrow> 'z branch_result" where
  "EmitBranch rs1 rs2 label func distance a =
     (if IsBound label then
        let offset = offset_between (Position a) (position_m label)
        in if IsBTypeImm offset then Inr (label, EmitBType offset rs2 rs1 func BRANCH a)
           else if IsJTypeImm (offset + 4) then
             and_then (InvertFunct3 func) (\<lambda>inverted.
               let a = EmitBType 8 rs2 rs1 inverted BRANCH a;
                   offset = offset_between (Position a) (position_m label)
               in Inr (label, EmitJType offset ZR JAL a))
           else
             and_then (InvertFunct3 func) (\<lambda>inverted.
               let a = EmitBType 12 rs2 rs1 inverted BRANCH a;
                   offset = offset_between (Position a) (position_m label)
               in and_then (EmitFar offset a) (\<lambda>a. Inr (label, a)))
      else if distance = kNearJump then
        let (offset, label) = link_b (Position a) label
        in if \<not> IsBTypeImm offset then Inl Fatal
           else Inr (label, EmitBType offset rs2 rs1 func BRANCH a)
      else if far_branch_level_m a = 0 then
        let (offset, label) = link_b (Position a) label
        in if \<not> IsBTypeImm offset then Inl BranchOffsetError
           else Inr (label, EmitBType offset rs2 rs1 func BRANCH a)
      else if far_branch_level_m a = 1 then
        and_then (skip_branch 4 rs1 rs2 func a) (\<lambda>a.
          let (offset, label) = link_j (Position a) label
          in Inr (label, EmitJType offset ZR JAL a))
      else
        and_then (skip_branch 8 rs1 rs2 func a) (\<lambda>a.
          let (offset, label) = link_far (Position a) label
          in and_then (EmitFar offset a) (\<lambda>a. Inr (label, a))))"

definition EmitJump ::
    "Register \<Rightarrow> Label \<Rightarrow> JumpDistance \<Rightarrow> 'z MicroAssembler_scheme \<Rightarrow> 'z branch_result" where
  "EmitJump rd label distance a =
     (if IsBound label then
        let offset = offset_between (Position a) (position_m label)
        in if IsJTypeImm offset then Inr (label, EmitJType offset rd JAL a)
           else and_then (EmitFar offset a) (\<lambda>a. Inr (label, a))
      else if distance = kNearJump then
        let (offset, label) = link_j (Position a) label
        in if \<not> IsJTypeImm offset then Inl Fatal
           else Inr (label, EmitJType offset rd JAL a)
      else if far_branch_level_m a < 2 then
        let (offset, label) = link_j (Position a) label
        in if \<not> IsJTypeImm offset then Inl BranchOffsetError
           else Inr (label, EmitJType offset rd JAL a)
      else
        let (offset, label) = link_far (Position a) label
        in and_then (EmitFar offset a) (\<lambda>a. Inr (label, a)))"

definition c_beqz :: "Register \<Rightarrow> Label \<Rightarrow> 'z MicroAssembler_scheme \<Rightarrow> 'z branch_result" where
  "c_beqz rs1p label = EmitCBranch rs1p label C_BEQZ"

definition c_bnez :: "Register \<Rightarrow> Label \<Rightarrow> 'z MicroAssembler_scheme \<Rightarrow> 'z branch_result" where
  "c_bnez rs1p label = EmitCBranch rs1p label C_BNEZ"

definition c_j :: "Label \<Rightarrow> 'z MicroAssembler_scheme \<Rightarrow> 'z branch_result" where
  "c_j label = EmitCJump label C_J"

definition jal :: "Register \<Rightarrow> Label \<Rightarrow> JumpDistance \<Rightarrow> 'z MicroAssembler_scheme \<Rightarrow> 'z branch_result" where
  "jal rd label distance a =
     (if Supports a RV_C \<and>
         (distance = kNearJump \<or> IsBound label \<and> IsCJImm (offset_between (Position a) (position_m label))) \<and> rd = ZR
      then c_j label a
      else EmitJump rd label distance a)"

definition near_c_branch :: "Label \<Rightarrow> JumpDistance \<Rightarrow> 'z MicroAssembler_scheme \<Rightarrow> bool" where
  "near_c_branch label distance a =
     (Supports a RV_C \<and>
      (distance = kNearJump \<or> IsBound label \<and> IsCBImm (offset_between (Position a) (position_m label))))"

type_synonym 'z branch =
  "Register \<Rightarrow> Register \<Rightarrow> Label \<Rightarrow> JumpDistance \<Rightarrow> 'z MicroAssembler_scheme \<Rightarrow> 'z branch_result"

definition beq :: "'z branch" where
  "beq rs1 rs2 label distance a =
     (if near_c_branch label distance a \<and> rs1 = ZR \<and> IsCRs1p rs2 then c_beqz rs2 label a
      else if near_c_branch label distance a \<and> rs2 = ZR \<and> IsCRs1p rs1 then c_beqz rs1 label a
      else EmitBranch rs1 rs2 label BEQ distance a)"

definition bne :: "'z branch" where
  "bne rs1 rs2 label distance a =
     (if near_c_branch label distance a \<and> rs1 = ZR \<and> IsCRs1p rs2 then c_bnez rs2 label a
      else if near_c_branch label distance a \<and> rs2 = ZR \<and> IsCRs1p rs1 then c_bnez rs1 label a
      else EmitBranch rs1 rs2 label BNE distance a)"

definition blt :: "'z branch" where
  "blt rs1 rs2 label = EmitBranch rs1 rs2 label BLT"

definition bge :: "'z branch" where
  "bge rs1 rs2 label = EmitBranch rs1 rs2 label BGE"

definition bltu :: "'z branch" where
  "bltu rs1 rs2 label = EmitBranch rs1 rs2 label BLTU"

definition bgeu :: "'z branch" where
  "bgeu rs1 rs2 label = EmitBranch rs1 rs2 label BGEU"

section \<open>Patching the buffer\<close>

lemma length_patch [simp]: "p + length bs \<le> length buf \<Longrightarrow> length (patch p bs buf) = length buf"
  by (simp add: patch_def)

lemma nth_patch:
  assumes "p + length bs \<le> length buf" "i < length buf"
  shows "patch p bs buf ! i = (if p \<le> i \<and> i < p + length bs then bs ! (i - p) else buf ! i)"
  using assms by (auto simp: patch_def nth_append min_def)

definition holds :: "u8 list \<Rightarrow> nat \<Rightarrow> u8 list \<Rightarrow> bool" where
  "holds buf p bs = (p + length bs \<le> length buf \<and> (\<forall>i < length bs. buf ! (p + i) = bs ! i))"

lemma holds_patch: "p + length bs \<le> length buf \<Longrightarrow> holds (patch p bs buf) p bs"
  by (simp add: holds_def nth_patch)

lemma holds_cong:
  assumes "holds buf p bs" "length buf \<le> length buf'" "\<And>i. p \<le> i \<Longrightarrow> i < p + length bs \<Longrightarrow> buf' ! i = buf ! i"
  shows "holds buf' p bs"
  using assms by (auto simp: holds_def)

lemma holds_append: "holds buf p bs \<Longrightarrow> holds (buf @ cs) p bs"
  by (auto simp: holds_def nth_append)

lemma holds_end: "holds (buf @ bs) (length buf) bs"
  by (simp add: holds_def nth_append)

lemma buffer_Load_holds:
  assumes "holds (buffer_m a) p (bytes_le n v)" "n \<le> 8"
  shows "buffer_Load n (int p) a = Inr (take_bit (8 * n) v)"
proof -
  have "load_le n (\<lambda>i. buffer_m a ! (p + unat i)) 0 = take_bit (8 * n) (drop_bit (8 * 0) v)"
  proof (rule load_le_bytes)
    fix k assume "k < n"
    moreover have "unat (of_nat k :: u64) = k" using \<open>k < n\<close> assms(2) by (simp add: unat_of_nat)
    ultimately show "buffer_m a ! (p + unat (0 + of_nat k :: u64)) = byte_of v (0 + k)"
      using assms(1) by (simp add: holds_def bytes_le_def)
  qed (rule assms(2))
  then show ?thesis using assms(1) by (simp add: buffer_Load_def in_buffer_def Position_def holds_def)
qed

lemma Read_holds:
  "holds (buffer_m a) p (bytes_le 2 (ucast w)) \<Longrightarrow> Read16 (int p) a = Inr w"
  "holds (buffer_m a) p (bytes_le 4 (ucast v)) \<Longrightarrow> Read32 (int p) a = Inr v"
  using buffer_Load_holds [of a p 2 "ucast w"] buffer_Load_holds [of a p 4 "ucast v"]
  by (simp_all add: Read16_def Read32_def and_then_def ucast_bytes_16 ucast_bytes_32)

lemma Write_in_buffer:
  "p + 2 \<le> length (buffer_m a) \<Longrightarrow>
     Write16 (int p) w a = Inr (a\<lparr>buffer_m := patch p (bytes_le 2 (ucast w)) (buffer_m a)\<rparr>)"
  "p + 4 \<le> length (buffer_m a) \<Longrightarrow>
     Write32 (int p) v a = Inr (a\<lparr>buffer_m := patch p (bytes_le 4 (ucast v)) (buffer_m a)\<rparr>)"
  by (simp_all add: Write16_def Write32_def buffer_Store_def in_buffer_def Position_def)

section \<open>Lists of pending branches\<close>

text \<open>What \<open>BIND\<close> relies on, for one class of branches: \<open>word f d\<close> are the bytes of the branch with the
  fields \<open>f\<close> and the offset \<open>d\<close>, and \<open>update\<close> returns the old offset and stores the new one.\<close>

fun pending :: "('f \<Rightarrow> intx \<Rightarrow> u8 list) \<Rightarrow> ('f \<Rightarrow> bool) \<Rightarrow> (intx \<Rightarrow> bool) \<Rightarrow> u8 list \<Rightarrow> (nat \<times> 'f) list \<Rightarrow> bool" where
  "pending word good valid buf [] = True"
| "pending word good valid buf [(p, f)] = (good f \<and> holds buf p (word f 0))"
| "pending word good valid buf ((p, f) # (q, g) # ps) =
     (good f \<and> q + length (word g 0) \<le> p \<and> valid (link_offset (int q) (int p)) \<and> holds buf p (word f (link_offset (int q) (int p))) \<and>
      pending word good valid buf ((q, g) # ps))"

definition head_of :: "(nat \<times> 'f) list \<Rightarrow> int" where
  "head_of ps = (case ps of [] \<Rightarrow> -1 | (p, f) # _ \<Rightarrow> int p)"

fun resolve :: "('f \<Rightarrow> intx \<Rightarrow> u8 list) \<Rightarrow> int \<Rightarrow> (nat \<times> 'f) list \<Rightarrow> u8 list \<Rightarrow> u8 list" where
  "resolve word target [] buf = buf"
| "resolve word target ((p, f) # ps) buf = resolve word target ps (patch p (word f (offset_between (int p) target)) buf)"

definition span :: "nat \<Rightarrow> (nat \<times> 'f) list \<Rightarrow> nat set" where
  "span n ps = (\<Union>(p, f) \<in> set ps. {p ..< p + n})"

lemma span_Cons [simp]: "span n ((p, f) # ps) = {p ..< p + n} \<union> span n ps" "span n [] = {}"
  by (auto simp: span_def)

definition keeps_outside :: "nat set \<Rightarrow> u8 list \<Rightarrow> u8 list \<Rightarrow> bool" where
  "keeps_outside S buf buf' = (length buf' = length buf \<and> (\<forall>i < length buf. i \<notin> S \<longrightarrow> buf' ! i = buf ! i))"

lemma keeps_outside_trans:
  "keeps_outside S buf buf' \<Longrightarrow> keeps_outside T buf' buf'' \<Longrightarrow> keeps_outside (S \<union> T) buf buf''"
  by (simp add: keeps_outside_def)

locale branch_class =
  fixes word :: "'f \<Rightarrow> intx \<Rightarrow> u8 list" and n :: nat and good :: "'f \<Rightarrow> bool" and valid :: "intx \<Rightarrow> bool"
    and update :: "'z update"
  assumes length_word: "length (word f d) = n"
    and n_pos: "0 < n"
    and update_word: "good f \<Longrightarrow> valid old \<Longrightarrow> valid new \<Longrightarrow> holds (buffer_m a) p (word f old) \<Longrightarrow>
      update (int p) new a = Inr (old, a\<lparr>buffer_m := patch p (word f new) (buffer_m a)\<rparr>)"
    and valid_0: "valid 0"
begin

lemma pending_bounds:
  "pending word good valid buf ps \<Longrightarrow> (p, f) \<in> set ps \<Longrightarrow> p + n \<le> length buf \<and> int p \<le> head_of ps"
proof (induction ps arbitrary: p f)
  case (Cons a ps)
  obtain p0 f0 where a: "a = (p0, f0)" by (cases a)
  have here: "p0 + n \<le> length buf"
    using Cons.prems(1) length_word a by (cases ps) (auto simp: holds_def)
  show ?case
  proof (cases "(p, f) = a")
    case False
    then have m: "(p, f) \<in> set ps" using Cons.prems(2) by simp
    then have "pending word good valid buf ps" "head_of ps \<le> int p0"
      using Cons.prems(1) a by (cases ps; auto simp: head_of_def)+
    then show ?thesis using Cons.IH [of p f] m a by (simp add: head_of_def)
  qed (use here a in \<open>simp add: head_of_def\<close>)
qed simp

lemma pending_cong:
  "pending word good valid buf ps \<Longrightarrow> length buf \<le> length buf' \<Longrightarrow>
   (\<And>i. i \<in> span n ps \<Longrightarrow> i < length buf \<Longrightarrow> buf' ! i = buf ! i) \<Longrightarrow> pending word good valid buf' ps"
proof (induction ps rule: induct_list012)
  case (2 x)
  then show ?case by (cases x) (auto simp: length_word holds_def)
next
  case (3 x y zs)
  obtain p f q g where xy: "x = (p, f)" "y = (q, g)" by (cases x, cases y)
  have "holds buf p (word f (link_offset (int q) (int p)))" using 3(3) xy by simp
  then have "holds buf' p (word f (link_offset (int q) (int p)))"
    by (rule holds_cong) (use 3(3-5) xy in \<open>auto simp: length_word holds_def\<close>)
  then show ?case using 3 xy by simp
qed simp

lemma resolve_other:
  assumes "pending word good valid buf ps"
  shows "length (resolve word target ps buf) = length buf"
    and "i < length buf \<Longrightarrow> i \<notin> span n ps \<Longrightarrow> resolve word target ps buf ! i = buf ! i"
proof -
  have "length (resolve word target ps buf) = length buf \<and>
      (i < length buf \<longrightarrow> i \<notin> span n ps \<longrightarrow> resolve word target ps buf ! i = buf ! i)"
    if "\<forall>(p, f) \<in> set ps. p + n \<le> length buf"
    using that by (induction ps arbitrary: buf) (auto simp: length_word nth_patch split: prod.splits)
  moreover have "\<forall>(p, f) \<in> set ps. p + n \<le> length buf" using pending_bounds [OF assms] by auto
  ultimately show "length (resolve word target ps buf) = length buf"
    "i < length buf \<Longrightarrow> i \<notin> span n ps \<Longrightarrow> resolve word target ps buf ! i = buf ! i" by simp_all
qed

lemma pending_tail:
  assumes "pending word good valid buf ((p, f) # ps)"
  shows "pending word good valid buf ps" "(q, g) \<in> set ps \<Longrightarrow> q + n \<le> p"
    "i \<in> span n ps \<Longrightarrow> i < p"
proof -
  show *: "pending word good valid buf ps" using assms by (cases ps) auto
  have **: "q + n \<le> p" if "(q, g) \<in> set ps" for q g
  proof -
    have "int q \<le> head_of ps" using pending_bounds [OF * that] by simp
    then show ?thesis using assms that by (cases ps) (auto simp: head_of_def length_word)
  qed
  then show "(q, g) \<in> set ps \<Longrightarrow> q + n \<le> p" .
  show "i \<in> span n ps \<Longrightarrow> i < p" using ** by (force simp: span_def)
qed

lemma pending_patch:
  assumes "pending word good valid buf ((p, f) # ps)"
  shows "pending word good valid (patch p (word f d) buf) ps"
proof -
  have "p + n \<le> length buf" using pending_bounds [OF assms, of p f] by simp
  then show ?thesis
    by (intro pending_cong [OF pending_tail(1) [OF assms]])
      (auto simp: length_word nth_patch dest: pending_tail(3) [OF assms])
qed

lemma resolve_at:
  "pending word good valid buf ps \<Longrightarrow> (p, f) \<in> set ps \<Longrightarrow>
   holds (resolve word target ps buf) p (word f (offset_between (int p) target))"
proof (induction ps arbitrary: buf)
  case (Cons a ps)
  obtain q g where a: "a = (q, g)" by (cases a)
  let ?buf = "patch q (word g (offset_between (int q) target)) buf"
  have q: "q + n \<le> length buf" using pending_bounds [OF Cons.prems(1), of q g] a by simp
  note tail = pending_patch [OF Cons.prems(1) [unfolded a], of "offset_between (int q) target"]
  show ?case
  proof (cases "(p, f) = a")
    case True
    have "holds ?buf q (word g (offset_between (int q) target))" using q by (simp add: holds_patch length_word)
    then have "holds (resolve word target ps ?buf) q (word g (offset_between (int q) target))"
    proof (rule holds_cong)
      fix i assume "q \<le> i" "i < q + length (word g (offset_between (int q) target))"
      moreover from this have "i \<notin> span n ps" using pending_tail(3) [OF Cons.prems(1) [unfolded a], of i] by auto
      ultimately show "resolve word target ps ?buf ! i = ?buf ! i"
        using resolve_other(2) [OF tail, of i] q by (simp add: length_word)
    qed (simp add: resolve_other(1) [OF tail])
    then show ?thesis using True a by simp
  next
    case False
    then show ?thesis using Cons.IH [OF tail] Cons.prems(2) a by auto
  qed
qed simp

lemma sint_link_offset:
  assumes "q \<le> p" "int p < 2 ^ 31"
  shows "sint (link_offset (int q) (int p)) = int p - int q"
proof -
  have "link_offset (int q) (int p) = word_of_int (int p - int q)" by (simp add: link_offset_def offset_between_def)
  then show ?thesis using assms by (simp only:) (rule sint_word_of_int_64, auto)
qed

lemma BIND_pending:
  assumes "pending word good valid (buffer_m a) ps" "length (buffer_m a) < 2 ^ 31"
    and "\<And>p f. (p, f) \<in> set ps \<Longrightarrow> valid (offset_between (int p) target)"
  shows "BIND update target (head_of ps) a = Some (Inr (a\<lparr>buffer_m := resolve word target ps (buffer_m a)\<rparr>))"
  using assms
proof (induction ps arbitrary: a)
  case Nil
  show ?case by (subst BIND.simps) (simp add: head_of_def)
next
  case (Cons x ps)
  obtain p f where x: "x = (p, f)" by (cases x)
  let ?d = "offset_between (int p) target"
  let ?a = "a\<lparr>buffer_m := patch p (word f ?d) (buffer_m a)\<rparr>"
  have p: "p + n \<le> length (buffer_m a)" using pending_bounds [OF Cons.prems(1), of p f] x by simp
  have v: "valid ?d" using Cons.prems(3) [of p f] x by simp
  have step: "update (int p) ?d a = Inr (case ps of [] \<Rightarrow> 0 | (q, g) # _ \<Rightarrow> link_offset (int q) (int p), ?a)"
    using Cons.prems(1) x v update_word [of f _ ?d a p] valid_0
    by (cases ps) (auto split: prod.splits)
  have rest: "BIND update target (head_of ps) ?a = Some (Inr (?a\<lparr>buffer_m := resolve word target ps (buffer_m ?a)\<rparr>))"
  proof (rule Cons.IH)
    show "pending word good valid (buffer_m ?a) ps" using pending_patch Cons.prems(1) x by simp
    show "length (buffer_m ?a) < 2 ^ 31" using Cons.prems(2) p by (simp add: length_word)
    show "valid (offset_between (int q) target)" if "(q, g) \<in> set ps" for q g
      by (rule Cons.prems(3) [of q g]) (use that in simp)
  qed
  show ?case
  proof (cases ps)
    case Nil
    then show ?thesis using step x by (subst BIND.simps) (simp add: head_of_def)
  next
    case ps: (Cons y zs)
    obtain q g where y: "y = (q, g)" by (cases y)
    have "q + n \<le> p" using pending_tail(2) [OF Cons.prems(1) [unfolded x], of q g] ps y by simp
    then have "sint (link_offset (int q) (int p)) = int p - int q" "int p - int q > 0"
      using sint_link_offset [of q p] Cons.prems(2) p n_pos by auto
    moreover from this have "link_offset (int q) (int p) \<noteq> 0" by auto
    ultimately show ?thesis
      using step x y ps rest by (subst BIND.simps) (simp add: head_of_def)
  qed
qed

lemma resolve_keeps: "pending word good valid buf ps \<Longrightarrow> keeps_outside (span n ps) buf (resolve word target ps buf)"
  using resolve_other unfolding keeps_outside_def by blast

lemma holds_keeps:
  assumes "\<forall>(p, f) \<in> set ps. holds buf p (word f (d p))" "keeps_outside S buf buf'" "S \<inter> span n ps = {}"
  shows "\<forall>(p, f) \<in> set ps. holds buf' p (word f (d p))"
proof safe
  fix p f assume pf: "(p, f) \<in> set ps"
  then have h: "holds buf p (word f (d p))" using assms(1) by auto
  then show "holds buf' p (word f (d p))"
  proof (rule holds_cong)
    fix i assume i: "p \<le> i" "i < p + length (word f (d p))"
    then have "i \<in> span n ps" using pf by (force simp: span_def length_word)
    moreover have "i < length buf" using h i by (simp add: holds_def)
    ultimately show "buf' ! i = buf ! i" using assms(2,3) by (auto simp: keeps_outside_def)
  qed (use assms(2) in \<open>simp add: keeps_outside_def\<close>)
qed

text \<open>One of the steps of \<open>Bind\<close>, after earlier steps have changed the bytes \<open>S\<close> of the buffer \<open>buf\<close>.\<close>

lemma BIND_step:
  assumes "pending word good valid buf ps" "keeps_outside S buf (buffer_m a)" "S \<inter> span n ps = {}"
    and "length buf < 2 ^ 31" "\<forall>(p, f) \<in> set ps. valid (offset_between (int p) target)"
  obtains buf' where "BIND update target (head_of ps) a = Some (Inr (a\<lparr>buffer_m := buf'\<rparr>))"
    "keeps_outside (span n ps) (buffer_m a) buf'" "keeps_outside (S \<union> span n ps) buf buf'"
    "\<forall>(p, f) \<in> set ps. holds buf' p (word f (offset_between (int p) target))"
proof
  let ?buf' = "resolve word target ps (buffer_m a)"
  have p: "pending word good valid (buffer_m a) ps"
    by (rule pending_cong [OF assms(1)]) (use assms(2,3) in \<open>auto simp: keeps_outside_def\<close>)
  show "BIND update target (head_of ps) a = Some (Inr (a\<lparr>buffer_m := ?buf'\<rparr>))"
    using BIND_pending [OF p] assms(2,4,5) by (auto simp: keeps_outside_def)
  show k: "keeps_outside (span n ps) (buffer_m a) ?buf'" by (rule resolve_keeps [OF p])
  show "keeps_outside (S \<union> span n ps) buf ?buf'" by (rule keeps_outside_trans [OF assms(2) k])
  show "\<forall>(p, f) \<in> set ps. holds ?buf' p (word f (offset_between (int p) target))"
    using resolve_at [OF p] by auto
qed

lemma pending_append: "pending word good valid buf ps \<Longrightarrow> pending word good valid (buf @ cs) ps"
  by (rule pending_cong) (auto simp: nth_append)

lemma pending_link:
  assumes "pending word good valid buf ps" "good f" "valid (link_offset (head_of ps) (int (length buf)))"
  shows "pending word good valid (buf @ word f (link_offset (head_of ps) (int (length buf)))) ((length buf, f) # ps)"
proof (cases ps)
  case Nil
  then show ?thesis using assms(2) by (simp add: holds_end head_of_def link_offset_def)
next
  case (Cons y zs)
  obtain q g where y: "y = (q, g)" by (cases y)
  have "q + n \<le> length buf" using pending_bounds [OF assms(1), of q g] Cons y by simp
  then show ?thesis
    using assms pending_append [OF assms(1)] Cons y by (simp add: holds_end head_of_def length_word)
qed

lemma span_below: "pending word good valid buf ps \<Longrightarrow> span n ps \<subseteq> {..< length buf}"
  using pending_bounds by (fastforce simp: span_def)

end

section \<open>The five classes of branches\<close>

definition cb_word :: "u32 \<times> Register \<Rightarrow> intx \<Rightarrow> u8 list" where
  "cb_word f d = (case f of (opc, rs1p) \<Rightarrow>
     bytes_le 2 (ucast (ucast (opc OR EncodeCRs1p rs1p OR EncodeCBImm d) :: u16)))"

definition cj_word :: "unit \<Rightarrow> intx \<Rightarrow> u8 list" where
  "cj_word f d = bytes_le 2 (ucast (ucast (C_J OR EncodeCJImm d) :: u16))"

definition b_word :: "Register \<times> Register \<times> u32 \<Rightarrow> intx \<Rightarrow> u8 list" where
  "b_word f d = (case f of (rs2, rs1, func) \<Rightarrow> bytes_le 4 (ucast (BTypeWord d rs2 rs1 func BRANCH)))"

definition j_word :: "Register \<Rightarrow> intx \<Rightarrow> u8 list" where
  "j_word rd d = bytes_le 4 (ucast (JTypeWord d rd JAL))"

definition far_word :: "unit \<Rightarrow> intx \<Rightarrow> u8 list" where
  "far_word f d = bytes_le 4 (ucast (UTypeWord (ImmHi d) FAR_TMP AUIPC)) @
     bytes_le 4 (ucast (ITypeWord (ImmLo d) FAR_TMP F3_0 ZR JALR))"

definition cb_fields :: "u32 \<times> Register \<Rightarrow> bool" where
  "cb_fields f = ((fst f = C_BEQZ \<or> fst f = C_BNEZ) \<and> IsCRs1p (snd f))"

definition b_fields :: "Register \<times> Register \<times> u32 \<Rightarrow> bool" where
  "b_fields f = IsFunct3 (snd (snd f))"

definition far_ok :: "intx \<Rightarrow> bool" where
  "far_ok d = (ImmHi d + ImmLo d = d)"

interpretation b_class: branch_class b_word 4 b_fields IsBTypeImm UpdateBOffset
proof
  fix f :: "Register \<times> Register \<times> u32" and old new :: intx and a :: "'z MicroAssembler_scheme" and p
  assume f: "b_fields f" and o: "IsBTypeImm old" and n: "IsBTypeImm new" and h: "holds (buffer_m a) p (b_word f old)"
  obtain rs2 rs1 func where fs: "f = (rs2, rs1, func)" by (cases f)
  let ?w = "BTypeWord old rs2 rs1 func BRANCH"
  have func: "IsFunct3 func" using f fs by (simp add: b_fields_def)
  have r: "Read32 (int p) a = Inr ?w" and l: "p + 4 \<le> length (buffer_m a)"
    using h by (auto simp: b_word_def fs holds_def intro: Read_holds(2))
  note dec = BTypeWord_decode_fields [OF func, of BRANCH, folded Instr_defs]
    BTypeWord_decode_imm [OF func _ o, of BRANCH, folded Instr_defs]
  have "EncodeRs2 (Instr_rs2 ?w) OR EncodeRs1 (Instr_rs1 ?w) OR EncodeFunct3 (Instr_funct3 ?w) OR
      EncodeOpcode (Instr_opcode ?w) OR EncodeBTypeImm new = BTypeWord new rs2 rs1 func BRANCH"
    by (simp add: dec IsOpcode_def) (simp add: BTypeWord_def ac_simps)
  then show "UpdateBOffset (int p) new a = Inr (old, a\<lparr>buffer_m := patch p (b_word f new) (buffer_m a)\<rparr>)"
    using l n by (simp add: UpdateBOffset_def r and_then_def Write_in_buffer(2) dec IsOpcode_def b_word_def fs)
qed (simp_all add: b_word_def IsBTypeImm_def IsInt_iff IsAligned_def split: prod.splits)

interpretation j_class: branch_class j_word 4 "\<lambda>_. True" IsJTypeImm UpdateJOffset
proof
  fix rd :: Register and old new :: intx and a :: "'z MicroAssembler_scheme" and p
  assume o: "IsJTypeImm old" and n: "IsJTypeImm new" and h: "holds (buffer_m a) p (j_word rd old)"
  let ?w = "JTypeWord old rd JAL"
  have r: "Read32 (int p) a = Inr ?w" and l: "p + 4 \<le> length (buffer_m a)"
    using h by (auto simp: j_word_def holds_def intro: Read_holds(2))
  note dec = JTypeWord_decode [of JAL, folded Instr_defs] JTypeWord_decode_imm [OF _ o, of JAL, folded Instr_defs]
  have "EncodeRd (Instr_rd ?w) OR EncodeOpcode (Instr_opcode ?w) OR EncodeJTypeImm new = JTypeWord new rd JAL"
    by (simp add: dec IsOpcode_def) (simp add: JTypeWord_def ac_simps)
  then show "UpdateJOffset (int p) new a = Inr (old, a\<lparr>buffer_m := patch p (j_word rd new) (buffer_m a)\<rparr>)"
    using l n by (simp add: UpdateJOffset_def r and_then_def Write_in_buffer(2) dec IsOpcode_def j_word_def)
qed (simp_all add: j_word_def IsJTypeImm_def IsInt_iff IsAligned_def)

interpretation cb_class: branch_class cb_word 2 cb_fields IsCBImm UpdateCBOffset
proof
  fix f :: "u32 \<times> Register" and old new :: intx and a :: "'z MicroAssembler_scheme" and p
  assume f: "cb_fields f" and o: "IsCBImm old" and n: "IsCBImm new" and h: "holds (buffer_m a) p (cb_word f old)"
  obtain opc rs1p where fs: "f = (opc, rs1p)" by (cases f)
  let ?w = "ucast (opc OR EncodeCRs1p rs1p OR EncodeCBImm old) :: u16"
  have r: "Read16 (int p) a = Inr ?w" and l: "p + 2 \<le> length (buffer_m a)"
    using h by (auto simp: cb_word_def fs holds_def intro: Read_holds(1))
  have dec: "CInstr_opcode ?w = opc" "CInstr_rs1p ?w = rs1p" "CInstr_b_imm ?w = old"
    using f o by (auto simp: cb_fields_def fs CInstr_defs rv_footprint)
  show "UpdateCBOffset (int p) new a = Inr (old, a\<lparr>buffer_m := patch p (cb_word f new) (buffer_m a)\<rparr>)"
    using l n by (simp add: UpdateCBOffset_def r and_then_def Write_in_buffer(1) dec cb_word_def fs)
qed (simp_all add: cb_word_def IsCBImm_def IsInt_iff IsAligned_def split: prod.splits)

interpretation cj_class: branch_class cj_word 2 "\<lambda>_. True" IsCJImm UpdateCJOffset
proof
  fix f :: unit and old new :: intx and a :: "'z MicroAssembler_scheme" and p
  assume o: "IsCJImm old" and n: "IsCJImm new" and h: "holds (buffer_m a) p (cj_word f old)"
  let ?w = "ucast (C_J OR EncodeCJImm old) :: u16"
  have r: "Read16 (int p) a = Inr ?w" and l: "p + 2 \<le> length (buffer_m a)"
    using h by (auto simp: cj_word_def holds_def intro: Read_holds(1))
  have dec: "CInstr_opcode ?w = C_J" "CInstr_j_imm ?w = old"
    using o by (auto simp: CInstr_defs rv_footprint)
  show "UpdateCJOffset (int p) new a = Inr (old, a\<lparr>buffer_m := patch p (cj_word f new) (buffer_m a)\<rparr>)"
    using l n by (simp add: UpdateCJOffset_def r and_then_def Write_in_buffer(1) dec cj_word_def)
qed (simp_all add: cj_word_def IsCJImm_def IsInt_iff IsAligned_def)

lemma holds_split:
  "holds buf p (bs @ cs) \<longleftrightarrow> holds buf p bs \<and> holds buf (p + length bs) cs"
  unfolding holds_def
proof safe
  fix i assume *: "\<forall>i<length (bs @ cs). buf ! (p + i) = (bs @ cs) ! i"
  show "buf ! (p + i) = bs ! i" if "i < length bs" using * that by (auto simp: nth_append)
  show "buf ! (p + length bs + i) = cs ! i" if "i < length cs"
    using spec [OF *, of "length bs + i"] that by (simp add: nth_append add.assoc)
next
  fix i assume "\<forall>i<length bs. buf ! (p + i) = bs ! i" "\<forall>i<length cs. buf ! (p + length bs + i) = cs ! i"
    "i < length (bs @ cs)"
  then show "buf ! (p + i) = (bs @ cs) ! i"
    by (cases "i < length bs") (auto simp: nth_append dest: spec [of _ "i - length bs"])
qed simp_all

lemma patch_patch: "p + length bs + length cs \<le> length buf \<Longrightarrow>
    patch (p + length bs) cs (patch p bs buf) = patch p (bs @ cs) buf"
  by (rule nth_equalityI) (auto simp: nth_patch nth_append patch_def min_def)

interpretation far_class: branch_class far_word 8 "\<lambda>_. True" far_ok UpdateFarOffset
proof
  fix f :: unit and old new :: intx and a :: "'z MicroAssembler_scheme" and p
  assume o: "far_ok old" and n: "far_ok new" and h: "holds (buffer_m a) p (far_word f old)"
  let ?u = "UTypeWord (ImmHi old) FAR_TMP AUIPC" and ?j = "ITypeWord (ImmLo old) FAR_TMP F3_0 ZR JALR"
  have h2: "holds (buffer_m a) p (bytes_le 4 (ucast ?u))" "holds (buffer_m a) (p + 4) (bytes_le 4 (ucast ?j))"
    and l: "p + 8 \<le> length (buffer_m a)"
    using h by (auto simp: far_word_def holds_split) (simp add: holds_def)
  have r: "Read32 (int p) a = Inr ?u" "Read32 (int p + 4) a = Inr ?j"
    using Read_holds(2) [OF h2(1)] Read_holds(2) [OF h2(2)] by simp_all
  have dec: "Instr_utype_imm ?u + Instr_itype_imm ?j = old"
    using o by (simp add: rv_word Is_field_defs far_ok_def)
  have enc: "EncodeUTypeImm hi OR EncodeRd FAR_TMP OR EncodeOpcode AUIPC = UTypeWord hi FAR_TMP AUIPC"
      "EncodeITypeImm lo OR EncodeRs1 FAR_TMP OR EncodeFunct3 F3_0 OR EncodeRd ZR OR EncodeOpcode JALR =
        ITypeWord lo FAR_TMP F3_0 ZR JALR" for hi lo :: intx
    by (simp_all add: UTypeWord_def ITypeWord_def ac_simps)
  let ?a = "a\<lparr>buffer_m := patch p (bytes_le 4 (ucast (UTypeWord (ImmHi new) FAR_TMP AUIPC))) (buffer_m a)\<rparr>"
  have w: "Write32 (int p) (UTypeWord (ImmHi new) FAR_TMP AUIPC) a = Inr ?a"
    "Write32 (int p + 4) v ?a = Inr (?a\<lparr>buffer_m := patch (p + 4) (bytes_le 4 (ucast v)) (buffer_m ?a)\<rparr>)" for v
    using Write_in_buffer(2) [of p a] Write_in_buffer(2) [of "p + 4" ?a v] l by simp_all
  show "UpdateFarOffset (int p) new a = Inr (old, a\<lparr>buffer_m := patch p (far_word f new) (buffer_m a)\<rparr>)"
    using patch_patch [of p "bytes_le 4 (ucast (UTypeWord (ImmHi new) FAR_TMP AUIPC))" _ "buffer_m a"] l
    by (simp add: UpdateFarOffset_def r dec and_then_def enc w Let_def far_word_def)
qed (simp_all add: far_word_def far_ok_def ImmHi_eq ImmLo_eq)

section \<open>Binding a label\<close>

record branch_lists =
  cb_list :: "(nat \<times> u32 \<times> Register) list"
  cj_list :: "(nat \<times> unit) list"
  b_list :: "(nat \<times> Register \<times> Register \<times> u32) list"
  j_list :: "(nat \<times> Register) list"
  far_list :: "(nat \<times> unit) list"

definition linked_to :: "Label \<Rightarrow> u8 list \<Rightarrow> branch_lists \<Rightarrow> bool" where
  "linked_to l buf P =
     (l = \<lparr>position_m = -1, unresolved_cb_m = head_of (cb_list P), unresolved_cj_m = head_of (cj_list P),
           unresolved_b_m = head_of (b_list P), unresolved_j_m = head_of (j_list P), unresolved_far_m = head_of (far_list P)\<rparr> \<and>
      pending cb_word cb_fields IsCBImm buf (cb_list P) \<and>
      pending cj_word (\<lambda>_. True) IsCJImm buf (cj_list P) \<and>
      pending b_word b_fields IsBTypeImm buf (b_list P) \<and>
      pending j_word (\<lambda>_. True) IsJTypeImm buf (j_list P) \<and>
      pending far_word (\<lambda>_. True) far_ok buf (far_list P))"

definition disjoint_branches :: "branch_lists \<Rightarrow> bool" where
  "disjoint_branches P =
     (span 2 (cb_list P) \<inter> span 2 (cj_list P) = {} \<and> span 2 (cb_list P) \<inter> span 4 (b_list P) = {} \<and>
      span 2 (cb_list P) \<inter> span 4 (j_list P) = {} \<and> span 2 (cb_list P) \<inter> span 8 (far_list P) = {} \<and>
      span 2 (cj_list P) \<inter> span 4 (b_list P) = {} \<and> span 2 (cj_list P) \<inter> span 4 (j_list P) = {} \<and>
      span 2 (cj_list P) \<inter> span 8 (far_list P) = {} \<and> span 4 (b_list P) \<inter> span 4 (j_list P) = {} \<and>
      span 4 (b_list P) \<inter> span 8 (far_list P) = {} \<and> span 4 (j_list P) \<inter> span 8 (far_list P) = {})"

definition in_reach :: "int \<Rightarrow> branch_lists \<Rightarrow> bool" where
  "in_reach target P =
     ((\<forall>(p, f) \<in> set (cb_list P). IsCBImm (offset_between (int p) target)) \<and>
      (\<forall>(p, f) \<in> set (cj_list P). IsCJImm (offset_between (int p) target)) \<and>
      (\<forall>(p, f) \<in> set (b_list P). IsBTypeImm (offset_between (int p) target)) \<and>
      (\<forall>(p, f) \<in> set (j_list P). IsJTypeImm (offset_between (int p) target)) \<and>
      (\<forall>(p, f) \<in> set (far_list P). far_ok (offset_between (int p) target)))"

definition all_spans :: "branch_lists \<Rightarrow> nat set" where
  "all_spans P = span 2 (cb_list P) \<union> span 2 (cj_list P) \<union> span 4 (b_list P) \<union> span 4 (j_list P) \<union> span 8 (far_list P)"

definition resolved :: "int \<Rightarrow> u8 list \<Rightarrow> branch_lists \<Rightarrow> bool" where
  "resolved target buf P =
     ((\<forall>(p, f) \<in> set (cb_list P). holds buf p (cb_word f (offset_between (int p) target))) \<and>
      (\<forall>(p, f) \<in> set (cj_list P). holds buf p (cj_word f (offset_between (int p) target))) \<and>
      (\<forall>(p, f) \<in> set (b_list P). holds buf p (b_word f (offset_between (int p) target))) \<and>
      (\<forall>(p, f) \<in> set (j_list P). holds buf p (j_word f (offset_between (int p) target))) \<and>
      (\<forall>(p, f) \<in> set (far_list P). holds buf p (far_word f (offset_between (int p) target))))"

definition bound_at :: "int \<Rightarrow> Label" where
  "bound_at position = new_label\<lparr>position_m := position\<rparr>"

lemma Bind_correct:
  assumes "linked_to l (buffer_m a) P" "disjoint_branches P" "length (buffer_m a) < 2 ^ 31"
    and "in_reach (Position a) P"
  shows "\<exists>buf. Bind l a = Some (Inr (bound_at (Position a), a\<lparr>buffer_m := buf\<rparr>)) \<and>
    resolved (Position a) buf P \<and> keeps_outside (all_spans P) (buffer_m a) buf"
proof -
  note l = assms(1) [unfolded linked_to_def] and d = assms(2) [unfolded disjoint_branches_def]
    and r = assms(4) [unfolded in_reach_def]
  have k0: "keeps_outside {} (buffer_m a) (buffer_m a)" by (simp add: keeps_outside_def)
  have l3: "pending b_word b_fields IsBTypeImm (buffer_m a) (b_list P)"
    and l4: "pending j_word (\<lambda>_. True) IsJTypeImm (buffer_m a) (j_list P)"
    and l5: "pending far_word (\<lambda>_. True) far_ok (buffer_m a) (far_list P)"
    using l by simp_all
  have d3: "({} \<union> span 2 (cb_list P) \<union> span 2 (cj_list P)) \<inter> span 4 (b_list P) = {}"
    and d4: "({} \<union> span 2 (cb_list P) \<union> span 2 (cj_list P) \<union> span 4 (b_list P)) \<inter> span 4 (j_list P) = {}"
    and d5: "({} \<union> span 2 (cb_list P) \<union> span 2 (cj_list P) \<union> span 4 (b_list P) \<union> span 4 (j_list P)) \<inter> span 8 (far_list P) = {}"
    using d by (simp_all add: Int_Un_distrib2)
  obtain b1 where 1: "BIND UpdateCBOffset (Position a) (head_of (cb_list P)) a = Some (Inr (a\<lparr>buffer_m := b1\<rparr>))"
    "keeps_outside ({} \<union> span 2 (cb_list P)) (buffer_m a) b1"
    "\<forall>(p, f) \<in> set (cb_list P). holds b1 p (cb_word f (offset_between (int p) (Position a)))"
    using cb_class.BIND_step [OF _ k0 _ assms(3), of "cb_list P" "Position a"] l r by auto
  obtain b2 where 2: "BIND UpdateCJOffset (Position a) (head_of (cj_list P)) (a\<lparr>buffer_m := b1\<rparr>) = Some (Inr (a\<lparr>buffer_m := b2\<rparr>))"
    "keeps_outside (span 2 (cj_list P)) b1 b2" "keeps_outside ({} \<union> span 2 (cb_list P) \<union> span 2 (cj_list P)) (buffer_m a) b2"
    "\<forall>(p, f) \<in> set (cj_list P). holds b2 p (cj_word f (offset_between (int p) (Position a)))"
    using cj_class.BIND_step [of "buffer_m a" "cj_list P" _ "a\<lparr>buffer_m := b1\<rparr>" "Position a"] 1(2) l r d assms(3) by auto
  obtain b3 where 3: "BIND UpdateBOffset (Position a) (head_of (b_list P)) (a\<lparr>buffer_m := b2\<rparr>) = Some (Inr (a\<lparr>buffer_m := b3\<rparr>))"
    "keeps_outside (span 4 (b_list P)) b2 b3" "keeps_outside ({} \<union> span 2 (cb_list P) \<union> span 2 (cj_list P) \<union> span 4 (b_list P)) (buffer_m a) b3"
    "\<forall>(p, f) \<in> set (b_list P). holds b3 p (b_word f (offset_between (int p) (Position a)))"
    using b_class.BIND_step [OF l3 _ d3 assms(3), of "a\<lparr>buffer_m := b2\<rparr>" "Position a"] 2(3) r by auto
  obtain b4 where 4: "BIND UpdateJOffset (Position a) (head_of (j_list P)) (a\<lparr>buffer_m := b3\<rparr>) = Some (Inr (a\<lparr>buffer_m := b4\<rparr>))"
    "keeps_outside (span 4 (j_list P)) b3 b4"
    "keeps_outside ({} \<union> span 2 (cb_list P) \<union> span 2 (cj_list P) \<union> span 4 (b_list P) \<union> span 4 (j_list P)) (buffer_m a) b4"
    "\<forall>(p, f) \<in> set (j_list P). holds b4 p (j_word f (offset_between (int p) (Position a)))"
    using j_class.BIND_step [OF l4 _ d4 assms(3), of "a\<lparr>buffer_m := b3\<rparr>" "Position a"] 3(3) r by auto
  obtain b5 where 5: "BIND UpdateFarOffset (Position a) (head_of (far_list P)) (a\<lparr>buffer_m := b4\<rparr>) = Some (Inr (a\<lparr>buffer_m := b5\<rparr>))"
    "keeps_outside (span 8 (far_list P)) b4 b5" "keeps_outside (all_spans P) (buffer_m a) b5"
    "\<forall>(p, f) \<in> set (far_list P). holds b5 p (far_word f (offset_between (int p) (Position a)))"
    using far_class.BIND_step [OF l5 _ d5 assms(3), of "a\<lparr>buffer_m := b4\<rparr>" "Position a"] 4(3) r
    by (auto simp: all_spans_def)
  note k45 = keeps_outside_trans [OF 4(2) 5(2)]
  note k35 = keeps_outside_trans [OF 3(2) k45]
  note k25 = keeps_outside_trans [OF 2(2) k35]
  have e: "(span 2 (cj_list P) \<union> (span 4 (b_list P) \<union> (span 4 (j_list P) \<union> span 8 (far_list P)))) \<inter> span 2 (cb_list P) = {}"
    "(span 4 (b_list P) \<union> (span 4 (j_list P) \<union> span 8 (far_list P))) \<inter> span 2 (cj_list P) = {}"
    "(span 4 (j_list P) \<union> span 8 (far_list P)) \<inter> span 4 (b_list P) = {}" "span 8 (far_list P) \<inter> span 4 (j_list P) = {}"
    using d by (simp_all add: Int_Un_distrib Int_Un_distrib2 Int_commute)
  have "resolved (Position a) b5 P"
    unfolding resolved_def
    by (intro conjI cb_class.holds_keeps [OF 1(3) k25 e(1)] cj_class.holds_keeps [OF 2(4) k35 e(2)]
        b_class.holds_keeps [OF 3(4) k45 e(3)] j_class.holds_keeps [OF 4(4) 5(2) e(4)] 5(4))
  moreover have "Bind l a = Some (Inr (bound_at (Position a), a\<lparr>buffer_m := b5\<rparr>))"
    using l by (simp add: Bind_def then_bind_def 1(1) 2(1) 3(1) 4(1) 5(1) BindTo_def bound_at_def new_label_def)
  ultimately show ?thesis using 5(3) by blast
qed

section \<open>Executing branches\<close>

text \<open>\<open>goes bs c d K\<close>: a simulator at the bytes \<open>bs\<close> runs through them, without a change of the
  registers outside \<open>K\<close>, and continues at the distance \<open>d\<close> from their start if \<open>c\<close> holds of its
  registers and right after them otherwise.\<close>

definition goes :: "u8 list \<Rightarrow> (regs \<Rightarrow> bool) \<Rightarrow> intx \<Rightarrow> Register set \<Rightarrow> bool" where
  "goes bs c d K =
     (\<forall>h s. code_at bs (host_m (memory_m s)) (pc_m s) \<longrightarrow> zr_zero s \<longrightarrow> \<not> lp_enabled_m s \<longrightarrow>
        (\<exists>n R. run h n s = Inr (s\<lparr>pc_m := pc_m s + (if c (xregs_m s) then d else of_nat (length bs)),
                  xregs_m := R, instret_m := instret_m s + of_nat n\<rparr>) \<and>
               R ZR = 0 \<and> (\<forall>r. r \<notin> K \<longrightarrow> R r = xregs_m s r)))"

fun taken :: "u32 \<Rightarrow> u64 \<Rightarrow> u64 \<Rightarrow> bool" where
  "taken func x y =
     (if func = BEQ then x = y
      else if func = BNE then x \<noteq> y
      else if func = BLT then sint x < sint y
      else if func = BGE then sint y \<le> sint x
      else if func = BLTU then x < y
      else y \<le> x)"

declare taken.simps [simp del]

definition is_branch_code :: "u32 \<Rightarrow> bool" where
  "is_branch_code func = (func \<in> {BEQ, BNE, BLT, BGE, BLTU, BGEU})"

lemma goes_32:
  assumes "w AND 3 = 3"
    and "\<And>h s. zr_zero s \<Longrightarrow> \<not> lp_enabled_m s \<Longrightarrow> Interpret h w s = next_instr (if c (xregs_m s) then d else 4) s"
  shows "goes (bytes_le 4 (ucast w)) c d K"
  unfolding goes_def
proof (intro allI impI exI conjI)
  fix h s
  assume c: "code_at (bytes_le 4 (ucast w)) (host_m (memory_m s)) (pc_m s)"
    and z: "zr_zero s" "\<not> lp_enabled_m s"
  have "fetch 4 s = take_bit 32 (ucast w)" "fetch 2 s = take_bit 16 (ucast w)"
    using load_code [OF c, of 4] load_code [OF c, of 2] by (simp_all add: fetch_def)
  then show "run h 1 s = Inr (s\<lparr>pc_m := pc_m s + (if c (xregs_m s) then d else of_nat (length (bytes_le 4 (ucast w)))),
      xregs_m := xregs_m s, instret_m := instret_m s + of_nat 1\<rparr>)"
    using assms z by (simp add: step_def low_parcel ucast_bytes_32 IsCInstruction_ucast next_instr_def)
  show "xregs_m s ZR = 0" using z by (simp add: zr_zero_def)
qed simp

lemma goes_16:
  assumes "IsCInstruction w"
    and "\<And>s. zr_zero s \<Longrightarrow> Interpret_C w s = next_instr (if c (xregs_m s) then d else 2) s"
  shows "goes (bytes_le 2 (ucast w)) c d K"
  unfolding goes_def
proof (intro allI impI exI conjI)
  fix h s
  assume c: "code_at (bytes_le 2 (ucast w)) (host_m (memory_m s)) (pc_m s)" and z: "zr_zero s"
  have "fetch 2 s = take_bit 16 (ucast w)"
    using load_code [OF c, of 2] by (simp add: fetch_def)
  then show "run h 1 s = Inr (s\<lparr>pc_m := pc_m s + (if c (xregs_m s) then d else of_nat (length (bytes_le 2 (ucast w)))),
      xregs_m := xregs_m s, instret_m := instret_m s + of_nat 1\<rparr>)"
    using assms z by (simp add: step_def ucast_bytes_16 next_instr_def)
  show "xregs_m s ZR = 0" using z by (simp add: zr_zero_def)
qed simp

lemma InterpretBRANCH_taken:
  "is_branch_code (Instr_funct3 instr) \<Longrightarrow> InterpretBRANCH instr s =
     branch_if (taken (Instr_funct3 instr) (xregs_m s (Instr_rs1 instr)) (xregs_m s (Instr_rs2 instr))) instr s"
  by (auto simp: InterpretBRANCH_def Let_def get_xreg_def is_branch_code_def taken.simps)

lemma goes_b:
  assumes "is_branch_code func" "IsBTypeImm d"
  shows "goes (b_word (rs2, rs1, func) d) (\<lambda>R. taken func (R rs1) (R rs2)) d K"
proof -
  have f: "IsFunct3 func" using assms(1) by (auto simp: is_branch_code_def IsFunct3_def)
  note dec = BTypeWord_decode_fields [OF f, of BRANCH, folded Instr_defs]
    BTypeWord_decode_imm [OF f _ assms(2), of BRANCH, folded Instr_defs]
  show ?thesis
    unfolding b_word_def split
  proof (rule goes_32)
    show "BTypeWord d rs2 rs1 func BRANCH AND 3 = 3" by (rule opcode_low) (simp add: dec IsOpcode_def)
    show "Interpret h (BTypeWord d rs2 rs1 func BRANCH) s =
        next_instr (if taken func (xregs_m s rs1) (xregs_m s rs2) then d else 4) s" for h s
      using assms(1) by (simp add: Interpret_def InterpretBRANCH_taken dec IsOpcode_def branch_if_def)
  qed
qed

lemma goes_j: "IsJTypeImm d \<Longrightarrow> goes (j_word ZR d) (\<lambda>_. True) d K"
  unfolding j_word_def
  by (rule goes_32)
    (simp_all add: opcode_low JTypeWord_decode [folded Instr_defs] JTypeWord_decode_imm [folded Instr_defs]
      IsOpcode_def Interpret_def InterpretJAL_def set_xreg_def)

lemma goes_cb:
  assumes "IsCRs1p r" "IsCBImm d"
  shows "goes (cb_word (C_BEQZ, r) d) (\<lambda>R. R r = 0) d K" "goes (cb_word (C_BNEZ, r) d) (\<lambda>R. R r \<noteq> 0) d K"
  unfolding cb_word_def split
  by (rule goes_16; use assms in \<open>simp add: c_simps\<close>)+

lemma goes_cj:
  assumes "IsCJImm d"
  shows "goes (cj_word () d) (\<lambda>_. True) d K"
proof -
  have "IsInt 32 d" using assms by (simp add: IsCJImm_def IsInt_iff)
  then have "sign_extend (ucast d) = d" by (simp add: sign_extend_ucast IsInt_signed_take_bit)
  then show ?thesis
    unfolding cj_word_def by (intro goes_16) (simp_all add: c_simps assms)
qed

lemma step_code_32:
  assumes "code_at (bytes_le 4 (ucast w)) (host_m (memory_m s)) (pc_m s)" "w AND 3 = 3" "Interpret h w s = Inr s'"
  shows "step h s = Inr (s'\<lparr>instret_m := instret_m s' + 1\<rparr>)"
proof -
  have "fetch 4 s = take_bit 32 (ucast w)" "fetch 2 s = take_bit 16 (ucast w)"
    using load_code [OF assms(1), of 4] load_code [OF assms(1), of 2] by (simp_all add: fetch_def)
  then show ?thesis using assms(2,3) by (simp add: step_def low_parcel ucast_bytes_32 IsCInstruction_ucast)
qed

lemma goes_far:
  assumes "far_ok d"
  shows "goes (far_word () d) (\<lambda>_. True) d {FAR_TMP}"
  unfolding goes_def
proof (intro allI impI)
  fix h s
  assume c: "code_at (far_word () d) (host_m (memory_m s)) (pc_m s)" and z: "zr_zero s" "\<not> lp_enabled_m s"
  let ?u = "UTypeWord (ImmHi d) FAR_TMP AUIPC" and ?j = "ITypeWord (ImmLo d) FAR_TMP F3_0 ZR JALR"
  let ?R = "(xregs_m s)(FAR_TMP := pc_m s + ImmHi d)"
  let ?s = "s\<lparr>pc_m := pc_m s + 4, xregs_m := ?R, instret_m := instret_m s + 1\<rparr>"
  have code: "code_at (bytes_le 4 (ucast ?u)) (host_m (memory_m s)) (pc_m s)"
    "code_at (bytes_le 4 (ucast ?j)) (host_m (memory_m ?s)) (pc_m ?s)"
    using c by (simp_all add: far_word_def code_at_append)
  have "Interpret h ?u s = Inr (s\<lparr>pc_m := pc_m s + 4, xregs_m := ?R\<rparr>)"
    by (simp add: rv_word Is_field_defs Interpret_def InterpretAUIPC_def next_instr_def set_xreg_def)
  from step_code_32 [OF code(1) _ this] have 1: "step h s = Inr ?s"
    by (simp add: opcode_low rv_word Is_field_defs)
  have "pc_m s + ImmHi d + ImmLo d = pc_m s + d" using assms by (simp add: far_ok_def add.assoc)
  then have "Interpret h ?j ?s = Inr (?s\<lparr>pc_m := pc_m s + d\<rparr>)"
    using z by (simp add: rv_word Is_field_defs Interpret_def InterpretJALR_def CheckLandingPad_def get_xreg_def
        set_xreg_def Let_def)
  from step_code_32 [OF code(2) _ this] have 2: "step h ?s = Inr (?s\<lparr>pc_m := pc_m s + d, instret_m := instret_m s + 2\<rparr>)"
    by (simp add: opcode_low rv_word Is_field_defs)
  have "run h 2 s = Inr (s\<lparr>pc_m := pc_m s + d, xregs_m := ?R, instret_m := instret_m s + of_nat 2\<rparr>)"
    using 1 2 by (simp add: numeral_2_eq_2)
  moreover have "?R ZR = 0" using z by (simp add: zr_zero_def)
  ultimately show "\<exists>n R. run h n s = Inr (s\<lparr>pc_m := pc_m s + (if True then d else of_nat (length (far_word () d))),
      xregs_m := R, instret_m := instret_m s + of_nat n\<rparr>) \<and> R ZR = 0 \<and> (\<forall>r. r \<notin> {FAR_TMP} \<longrightarrow> R r = xregs_m s r)"
    by (intro exI [of _ 2] exI [of _ ?R]) simp
qed

text \<open>A conditional branch around an unconditional one.\<close>

lemma goes_around:
  assumes "goes bs c e {}" "e = of_nat (length bs + length js)" "goes js (\<lambda>_. True) d K"
  shows "goes (bs @ js) (\<lambda>R. \<not> c R) (of_nat (length bs) + d) K"
  unfolding goes_def
proof (intro allI impI)
  fix h s
  assume code: "code_at (bs @ js) (host_m (memory_m s)) (pc_m s)" and z: "zr_zero s" "\<not> lp_enabled_m s"
  obtain n R where 1: "run h n s = Inr (s\<lparr>pc_m := pc_m s + (if c (xregs_m s) then e else of_nat (length bs)),
      xregs_m := R, instret_m := instret_m s + of_nat n\<rparr>)" and R': "\<forall>r. r \<notin> {} \<longrightarrow> R r = xregs_m s r"
    using assms(1) [unfolded goes_def, rule_format, OF _ z] code unfolding code_at_append by blast
  have R: "R = xregs_m s" by (rule ext) (use R' in simp)
  show "\<exists>n R. run h n s = Inr (s\<lparr>pc_m := pc_m s + (if \<not> c (xregs_m s) then of_nat (length bs) + d
      else of_nat (length (bs @ js))), xregs_m := R, instret_m := instret_m s + of_nat n\<rparr>) \<and>
      R ZR = 0 \<and> (\<forall>r. r \<notin> K \<longrightarrow> R r = xregs_m s r)"
  proof (cases "c (xregs_m s)")
    case True
    then show ?thesis using 1 R z assms(2) by (intro exI [of _ n] exI [of _ R]) (simp add: zr_zero_def)
  next
    case False
    let ?s = "s\<lparr>pc_m := pc_m s + of_nat (length bs), xregs_m := R, instret_m := instret_m s + of_nat n\<rparr>"
    obtain n' R' where 2: "run h n' ?s = Inr (?s\<lparr>pc_m := pc_m s + of_nat (length bs) + d, xregs_m := R',
        instret_m := instret_m s + of_nat n + of_nat n'\<rparr>)" "R' ZR = 0" "\<forall>r. r \<notin> K \<longrightarrow> R' r = R r"
      using assms(3) [unfolded goes_def, rule_format, of ?s h] code z R unfolding code_at_append
      by (auto simp: zr_zero_def)
    have "run h (n + n') s = Inr (s\<lparr>pc_m := pc_m s + (of_nat (length bs) + d), xregs_m := R',
        instret_m := instret_m s + of_nat (n + n')\<rparr>)"
      using 1 2(1) False by (simp add: run_add add.assoc)
    then show ?thesis using 2 R False by (intro exI [of _ "n + n'"] exI [of _ R']) simp
  qed
qed

section \<open>Branches to a bound label\<close>

lemma far_ok_bounds:
  assumes "- (2 ^ 31) + 2048 \<le> d" "d < 2 ^ 31 - 2048"
  shows "far_ok (word_of_int d)"
proof -
  let ?d = "word_of_int d :: intx"
  have d: "sint ?d = d" using assms by (intro sint_word_of_int_64) auto
  have "?d - ImmLo ?d = word_of_int (d - sint (ImmLo ?d))" by simp
  then have "sint (?d - ImmLo ?d) = d - sint (ImmLo ?d)"
    using assms ImmLo_bounds [of ?d] by (simp only:) (rule sint_word_of_int_64, auto)
  then have "IsInt 32 (?d - ImmLo ?d)" using assms ImmLo_bounds [of ?d] by (simp add: IsInt_iff)
  then show ?thesis by (simp add: far_ok_def ImmHi_eq IsInt_signed_take_bit)
qed

lemma Position_emit [simp]:
  "Position (EmitBType imm rs2 rs1 f3 opc a) = Position a + 4" "Position (EmitJType imm rd opc a) = Position a + 4"
  "Position (EmitUType imm rd opc a) = Position a + 4" "Position (EmitIType imm rs1 f3 rd opc a) = Position a + 4"
  "Position (Emit16 w a) = Position a + 2" "Position (Emit32 v a) = Position a + 4"
  by (simp_all add: Position_def EmitBType_def EmitJType_def EmitUType_def EmitIType_def Emit16_def Emit32_def)

lemma Position_append [simp]: "Position (a\<lparr>buffer_m := buffer_m a @ bs\<rparr>) = Position a + int (length bs)"
  by (simp add: Position_def)

lemma emit_words:
  "EmitBType d rs2 rs1 func BRANCH a = a\<lparr>buffer_m := buffer_m a @ b_word (rs2, rs1, func) d\<rparr>"
  "EmitJType d rd JAL a = a\<lparr>buffer_m := buffer_m a @ j_word rd d\<rparr>"
  "EmitFar d a = Inr (a\<lparr>buffer_m := buffer_m a @ far_word () d\<rparr>)"
  "Emit16 (ucast (opc OR EncodeCRs1p r OR EncodeCBImm d)) a = a\<lparr>buffer_m := buffer_m a @ cb_word (opc, r) d\<rparr>"
  "Emit16 (ucast (C_J OR EncodeCJImm d)) a = a\<lparr>buffer_m := buffer_m a @ cj_word () d\<rparr>"
  by (simp_all add: EmitBType_def EmitJType_def EmitFar_def EmitUType_def EmitIType_def Emit16_def Emit32_def
      b_word_def j_word_def far_word_def cb_word_def cj_word_def Let_def)

lemma InvertFunct3_taken:
  assumes "is_branch_code func"
  obtains inverted where "InvertFunct3 func = Inr inverted" "is_branch_code inverted"
    "\<And>x y. taken inverted x y \<longleftrightarrow> \<not> taken func x y"
proof -
  have "\<exists>inverted. InvertFunct3 func = Inr inverted \<and> is_branch_code inverted \<and>
      (\<forall>x y. taken inverted x y \<longleftrightarrow> \<not> taken func x y)"
    using assms unfolding is_branch_code_def
    by (auto simp: InvertFunct3_def taken.simps not_le not_less)
  then show thesis using that by blast
qed

lemma offset_between_shift: "offset_between (p + k) t = offset_between p t - of_int k"
  by (simp add: offset_between_def algebra_simps)

definition back_distance :: "int \<Rightarrow> int \<Rightarrow> bool" where
  "back_distance position target = (0 \<le> target \<and> target \<le> position \<and> position < 2 ^ 31 - 4096)"

lemma far_ok_back: "back_distance position target \<Longrightarrow> 0 \<le> k \<Longrightarrow> k \<le> 4 \<Longrightarrow> far_ok (offset_between (position + k) target)"
  unfolding offset_between_def of_int_eq_iff back_distance_def by (rule far_ok_bounds) auto

lemma goes_cong:
  assumes "goes bs c d K" "\<And>R. R ZR = 0 \<Longrightarrow> c R \<longleftrightarrow> c' R" "d = d'" "K \<subseteq> K'"
  shows "goes bs c' d' K'"
  unfolding goes_def
proof (intro allI impI)
  fix h s
  assume z: "code_at bs (host_m (memory_m s)) (pc_m s)" "zr_zero s" "\<not> lp_enabled_m s"
  then obtain n R where "run h n s = Inr (s\<lparr>pc_m := pc_m s + (if c (xregs_m s) then d else of_nat (length bs)),
      xregs_m := R, instret_m := instret_m s + of_nat n\<rparr>)" "R ZR = 0" "\<forall>r. r \<notin> K \<longrightarrow> R r = xregs_m s r"
    using assms(1) [unfolded goes_def, rule_format, of s h] by blast
  then show "\<exists>n R. run h n s = Inr (s\<lparr>pc_m := pc_m s + (if c' (xregs_m s) then d' else of_nat (length bs)),
      xregs_m := R, instret_m := instret_m s + of_nat n\<rparr>) \<and> R ZR = 0 \<and> (\<forall>r. r \<notin> K' \<longrightarrow> R r = xregs_m s r)"
    using assms(2) [of "xregs_m s"] assms(3,4) z(2) by (intro exI [of _ n] exI [of _ R]) (auto simp: zr_zero_def)
qed

lemma EmitBranch_backward:
  assumes "is_branch_code func" "IsBound label" "back_distance (Position a) (position_m label)"
    and "offset = offset_between (Position a) (position_m label)"
    and "IsBTypeImm offset \<or> IsJTypeImm (offset - 4) \<or> \<not> IsJTypeImm (offset + 4)"
  shows "\<exists>bs. EmitBranch rs1 rs2 label func distance a = Inr (label, a\<lparr>buffer_m := buffer_m a @ bs\<rparr>) \<and>
    goes bs (\<lambda>R. taken func (R rs1) (R rs2)) offset {FAR_TMP}"
proof -
  obtain inverted where inv: "InvertFunct3 func = Inr inverted" "is_branch_code inverted"
    and not: "\<And>x y. taken inverted x y \<longleftrightarrow> \<not> taken func x y" using InvertFunct3_taken [OF assms(1)] by metis
  have o: "offset_between (Position a + 4) (position_m label) = offset - 4"
    by (simp add: assms(4) offset_between_shift)
  have skip: "goes (b_word (rs2, rs1, inverted) e) (\<lambda>R. taken inverted (R rs1) (R rs2)) e {}" if "e = 8 \<or> e = 12" for e
    using that by (intro goes_b inv(2)) (auto simp: IsBTypeImm_def IsInt_iff IsAligned_def)
  have j: "goes (b_word (rs2, rs1, inverted) 8 @ j_word ZR (offset - 4)) (\<lambda>R. taken func (R rs1) (R rs2)) offset {FAR_TMP}"
    if "IsJTypeImm (offset - 4)"
    by (rule goes_cong [OF goes_around [OF skip [of 8] _ goes_j [OF that, of "{FAR_TMP}"]]])
      (use not in \<open>auto simp: b_class.length_word j_class.length_word\<close>)
  have "far_ok (offset - 4)" using far_ok_back [OF assms(3), of 4] o by simp
  then have far: "goes (b_word (rs2, rs1, inverted) 12 @ far_word () (offset - 4)) (\<lambda>R. taken func (R rs1) (R rs2)) offset {FAR_TMP}"
    by (intro goes_cong [OF goes_around [OF skip [of 12] _ goes_far]])
      (use not in \<open>auto simp: b_class.length_word far_class.length_word\<close>)
  have eq: "EmitBranch rs1 rs2 label func distance a = Inr (label, a\<lparr>buffer_m := buffer_m a @
      (if IsBTypeImm offset then b_word (rs2, rs1, func) offset
       else if IsJTypeImm (offset + 4) then b_word (rs2, rs1, inverted) 8 @ j_word ZR (offset - 4)
       else b_word (rs2, rs1, inverted) 12 @ far_word () (offset - 4))\<rparr>)"
    using assms(2) inv(1)
    by (simp add: EmitBranch_def and_then_def emit_words assms(4) [symmetric] o b_class.length_word)
  show ?thesis
    by (intro exI conjI, rule eq) (use goes_b [OF assms(1), of offset rs2 rs1 "{FAR_TMP}"] j far assms(5) in auto)
qed

section \<open>Branches to an unbound label\<close>

lemma linked_to_append: "linked_to l buf P \<Longrightarrow> linked_to l (buf @ cs) P"
  by (simp add: linked_to_def cb_class.pending_append cj_class.pending_append b_class.pending_append
      j_class.pending_append far_class.pending_append)

lemma spans_below: "linked_to l buf P \<Longrightarrow> all_spans P \<subseteq> {..< length buf}"
  using cb_class.span_below cj_class.span_below b_class.span_below j_class.span_below far_class.span_below
  unfolding linked_to_def all_spans_def by (metis Un_subset_iff)

definition add_cb :: "nat \<Rightarrow> u32 \<times> Register \<Rightarrow> branch_lists \<Rightarrow> branch_lists" where
  "add_cb p f P = P\<lparr>cb_list := (p, f) # cb_list P\<rparr>"
definition add_cj :: "nat \<Rightarrow> unit \<Rightarrow> branch_lists \<Rightarrow> branch_lists" where
  "add_cj p f P = P\<lparr>cj_list := (p, f) # cj_list P\<rparr>"
definition add_b :: "nat \<Rightarrow> Register \<times> Register \<times> u32 \<Rightarrow> branch_lists \<Rightarrow> branch_lists" where
  "add_b p f P = P\<lparr>b_list := (p, f) # b_list P\<rparr>"
definition add_j :: "nat \<Rightarrow> Register \<Rightarrow> branch_lists \<Rightarrow> branch_lists" where
  "add_j p f P = P\<lparr>j_list := (p, f) # j_list P\<rparr>"
definition add_far :: "nat \<Rightarrow> unit \<Rightarrow> branch_lists \<Rightarrow> branch_lists" where
  "add_far p f P = P\<lparr>far_list := (p, f) # far_list P\<rparr>"

lemmas add_defs = add_cb_def add_cj_def add_b_def add_j_def add_far_def

lemma disjoint_add:
  assumes "disjoint_branches P" "all_spans P \<subseteq> {..< p}"
  shows "disjoint_branches (add_cb p f1 P)" "disjoint_branches (add_cj p f2 P)" "disjoint_branches (add_b p f3 P)"
    "disjoint_branches (add_j p f4 P)" "disjoint_branches (add_far p f5 P)"
  using assms unfolding disjoint_branches_def all_spans_def add_defs by (simp_all add: Int_Un_distrib Int_Un_distrib2) force+

lemma link_cb_linked:
  assumes "linked_to l buf P" "cb_fields f" "link_cb (int (length buf)) l = (d, l')" "IsCBImm d"
  shows "linked_to l' (buf @ cb_word f d) (add_cb (length buf) f P)"
  using assms cb_class.pending_link [of buf "cb_list P" f] linked_to_append [OF assms(1), of "cb_word f d"]
  by (auto simp: linked_to_def link_cb_def add_cb_def head_of_def)

lemma link_cj_linked:
  assumes "linked_to l buf P" "link_cj (int (length buf)) l = (d, l')" "IsCJImm d"
  shows "linked_to l' (buf @ cj_word f d) (add_cj (length buf) f P)"
  using assms cj_class.pending_link [of buf "cj_list P" f] linked_to_append [OF assms(1), of "cj_word f d"]
  by (auto simp: linked_to_def link_cj_def add_cj_def head_of_def)

lemma link_b_linked:
  assumes "linked_to l buf P" "b_fields f" "link_b (int (length buf)) l = (d, l')" "IsBTypeImm d"
  shows "linked_to l' (buf @ b_word f d) (add_b (length buf) f P)"
  using assms b_class.pending_link [of buf "b_list P" f] linked_to_append [OF assms(1), of "b_word f d"]
  by (auto simp: linked_to_def link_b_def add_b_def head_of_def)

lemma link_j_linked:
  assumes "linked_to l buf P" "link_j (int (length buf)) l = (d, l')" "IsJTypeImm d"
  shows "linked_to l' (buf @ j_word f d) (add_j (length buf) f P)"
  using assms j_class.pending_link [of buf "j_list P" f] linked_to_append [OF assms(1), of "j_word f d"]
  by (auto simp: linked_to_def link_j_def add_j_def head_of_def)

lemma link_far_linked:
  assumes "linked_to l buf P" "link_far (int (length buf)) l = (d, l')" "far_ok d"
  shows "linked_to l' (buf @ far_word f d) (add_far (length buf) f P)"
  using assms far_class.pending_link [of buf "far_list P" f] linked_to_append [OF assms(1), of "far_word f d"]
  by (auto simp: linked_to_def link_far_def add_far_def head_of_def)

text \<open>\<open>awaits a a' l P c\<close>: the step from \<open>a\<close> to \<open>a'\<close> emits a branch to the unbound label \<open>l\<close>, whose pending
  branches are then \<open>P\<close>. In every buffer in which these branches have been resolved to a target, and
  the other bytes of the new code are unchanged, the new code goes to the target if \<open>c\<close> holds.\<close>

definition awaits ::
    "'z MicroAssembler_scheme \<Rightarrow> 'z MicroAssembler_scheme \<Rightarrow> Label \<Rightarrow> branch_lists \<Rightarrow> (regs \<Rightarrow> bool) \<Rightarrow> bool" where
  "awaits a a' l P c =
     (\<exists>bs. a' = a\<lparr>buffer_m := buffer_m a @ bs\<rparr> \<and> linked_to l (buffer_m a') P \<and> disjoint_branches P \<and>
        (\<forall>buf target. length (buffer_m a') \<le> length buf \<longrightarrow>
           (\<forall>i. length (buffer_m a) \<le> i \<longrightarrow> i < length (buffer_m a') \<longrightarrow> i \<notin> all_spans P \<longrightarrow> buf ! i = buffer_m a' ! i) \<longrightarrow>
           resolved target buf P \<longrightarrow> in_reach target P \<longrightarrow>
           (\<exists>bs'. length bs' = length bs \<and> holds buf (length (buffer_m a)) bs' \<and>
              goes bs' c (offset_between (Position a) target) {FAR_TMP})))"

lemma awaits_b:
  assumes "linked_to l (buffer_m a) P" "disjoint_branches P" "is_branch_code func"
    and "link_b (Position a) l = (d, l')" "IsBTypeImm d"
  shows "awaits a (EmitBType d rs2 rs1 func BRANCH a) l' (add_b (length (buffer_m a)) (rs2, rs1, func) P)
    (\<lambda>R. taken func (R rs1) (R rs2))"
proof -
  let ?p = "length (buffer_m a)" and ?f = "(rs2, rs1, func)"
  have f: "b_fields ?f" using assms(3) by (auto simp: b_fields_def is_branch_code_def IsFunct3_def)
  have l: "linked_to l' (buffer_m a @ b_word ?f d) (add_b ?p ?f P)"
    by (rule link_b_linked [OF assms(1) f _ assms(5)]) (use assms(4) in \<open>simp add: Position_def\<close>)
  have "\<exists>bs'. length bs' = length (b_word ?f d) \<and> holds buf ?p bs' \<and>
      goes bs' (\<lambda>R. taken func (R rs1) (R rs2)) (offset_between (Position a) target) {FAR_TMP}"
    if "resolved target buf (add_b ?p ?f P)" "in_reach target (add_b ?p ?f P)" for buf target
    using that goes_b [OF assms(3), of "offset_between (Position a) target" rs2 rs1 "{FAR_TMP}"]
    by (intro exI [of _ "b_word ?f (offset_between (int ?p) target)"])
      (auto simp: resolved_def in_reach_def add_b_def b_class.length_word Position_def)
  then show ?thesis
    using l disjoint_add(3) [OF assms(2) spans_below [OF assms(1)]]
    unfolding awaits_def emit_words by (intro exI [of _ "b_word ?f d"]) simp
qed

lemma awaits_j:
  assumes "linked_to l (buffer_m a) P" "disjoint_branches P" 
    and link: "link_j (Position a) l = (d, l')" and valid: "IsJTypeImm d"
  shows "awaits a (a\<lparr>buffer_m := buffer_m a @ j_word ZR d\<rparr>) l' (add_j (length (buffer_m a)) ZR P) (\<lambda>_. True)"
proof -
  let ?p = "length (buffer_m a)"
  have l: "linked_to l' (buffer_m a @ j_word ZR d) (add_j ?p ZR P)"
    by (rule link_j_linked [OF assms(1) _ valid]) (use assms in \<open>auto simp: Position_def cb_fields_def\<close>)
  have "\<exists>bs'. length bs' = length (j_word ZR d) \<and> holds buf ?p bs' \<and>
      goes bs' (\<lambda>_. True) (offset_between (Position a) target) {FAR_TMP}"
    if "resolved target buf (add_j ?p ZR P)" "in_reach target (add_j ?p ZR P)" for buf target
    using that goes_j [of "offset_between (Position a) target" "{FAR_TMP}"]
    by (intro exI [of _ "j_word ZR (offset_between (int ?p) target)"])
      (auto simp: resolved_def in_reach_def add_j_def j_class.length_word Position_def)
  then show ?thesis
    using l disjoint_add(4) [OF assms(2) spans_below [OF assms(1)]]
    unfolding awaits_def by (intro exI [of _ "j_word ZR d"]) simp
qed

lemma awaits_far:
  assumes "linked_to l (buffer_m a) P" "disjoint_branches P" 
    and link: "link_far (Position a) l = (d, l')" and valid: "far_ok d"
  shows "awaits a (a\<lparr>buffer_m := buffer_m a @ far_word () d\<rparr>) l' (add_far (length (buffer_m a)) () P) (\<lambda>_. True)"
proof -
  let ?p = "length (buffer_m a)"
  have l: "linked_to l' (buffer_m a @ far_word () d) (add_far ?p () P)"
    by (rule link_far_linked [OF assms(1) _ valid]) (use assms in \<open>auto simp: Position_def cb_fields_def\<close>)
  have "\<exists>bs'. length bs' = length (far_word () d) \<and> holds buf ?p bs' \<and>
      goes bs' (\<lambda>_. True) (offset_between (Position a) target) {FAR_TMP}"
    if "resolved target buf (add_far ?p () P)" "in_reach target (add_far ?p () P)" for buf target
    using that goes_far [of "offset_between (Position a) target"]
    by (intro exI [of _ "far_word () (offset_between (int ?p) target)"])
      (auto simp: resolved_def in_reach_def add_far_def far_class.length_word Position_def)
  then show ?thesis
    using l disjoint_add(5) [OF assms(2) spans_below [OF assms(1)]]
    unfolding awaits_def by (intro exI [of _ "far_word () d"]) simp
qed

lemma awaits_cj:
  assumes "linked_to l (buffer_m a) P" "disjoint_branches P" 
    and link: "link_cj (Position a) l = (d, l')" and valid: "IsCJImm d"
  shows "awaits a (a\<lparr>buffer_m := buffer_m a @ cj_word () d\<rparr>) l' (add_cj (length (buffer_m a)) () P) (\<lambda>_. True)"
proof -
  let ?p = "length (buffer_m a)"
  have l: "linked_to l' (buffer_m a @ cj_word () d) (add_cj ?p () P)"
    by (rule link_cj_linked [OF assms(1) _ valid]) (use assms in \<open>auto simp: Position_def cb_fields_def\<close>)
  have "\<exists>bs'. length bs' = length (cj_word () d) \<and> holds buf ?p bs' \<and>
      goes bs' (\<lambda>_. True) (offset_between (Position a) target) {FAR_TMP}"
    if "resolved target buf (add_cj ?p () P)" "in_reach target (add_cj ?p () P)" for buf target
    using that goes_cj [of "offset_between (Position a) target" "{FAR_TMP}"]
    by (intro exI [of _ "cj_word () (offset_between (int ?p) target)"])
      (auto simp: resolved_def in_reach_def add_cj_def cj_class.length_word Position_def)
  then show ?thesis
    using l disjoint_add(2) [OF assms(2) spans_below [OF assms(1)]]
    unfolding awaits_def by (intro exI [of _ "cj_word () d"]) simp
qed

lemma awaits_cb:
  assumes "linked_to l (buffer_m a) P" "disjoint_branches P" "cb_fields (opc, r)"
    and "\<And>d. IsCBImm d \<Longrightarrow> goes (cb_word (opc, r) d) c d {FAR_TMP}"
    and link: "link_cb (Position a) l = (d, l')" and valid: "IsCBImm d"
  shows "awaits a (a\<lparr>buffer_m := buffer_m a @ cb_word (opc, r) d\<rparr>) l' (add_cb (length (buffer_m a)) (opc, r) P) c"
proof -
  let ?p = "length (buffer_m a)"
  have l: "linked_to l' (buffer_m a @ cb_word (opc, r) d) (add_cb ?p (opc, r) P)"
    by (rule link_cb_linked [OF assms(1,3) _ valid]) (use link in \<open>simp add: Position_def\<close>)
  have "\<exists>bs'. length bs' = length (cb_word (opc, r) d) \<and> holds buf ?p bs' \<and>
      goes bs' c (offset_between (Position a) target) {FAR_TMP}"
    if "resolved target buf (add_cb ?p (opc, r) P)" "in_reach target (add_cb ?p (opc, r) P)" for buf target
    using that assms(4) [of "offset_between (Position a) target"]
    by (intro exI [of _ "cb_word (opc, r) (offset_between (int ?p) target)"])
      (auto simp: resolved_def in_reach_def add_cb_def cb_class.length_word Position_def)
  then show ?thesis
    using l disjoint_add(1) [OF assms(2) spans_below [OF assms(1)]]
    unfolding awaits_def by (intro exI [of _ "cb_word (opc, r) d"]) simp
qed

lemma awaits_around:
  assumes b: "b = a\<lparr>buffer_m := buffer_m a @ sk\<rparr>" and "awaits b b' l P (\<lambda>_. True)"
    and "goes sk c e {}" "e = of_nat (length (buffer_m b') - length (buffer_m a))"
    and "all_spans P \<inter> {length (buffer_m a) ..< length (buffer_m b)} = {}"
  shows "awaits a b' l P (\<lambda>R. \<not> c R)"
proof -
  obtain bs where b': "b' = b\<lparr>buffer_m := buffer_m b @ bs\<rparr>" "linked_to l (buffer_m b') P" "disjoint_branches P"
    and later: "\<And>buf target. length (buffer_m b') \<le> length buf \<Longrightarrow>
      (\<forall>i. length (buffer_m b) \<le> i \<longrightarrow> i < length (buffer_m b') \<longrightarrow> i \<notin> all_spans P \<longrightarrow> buf ! i = buffer_m b' ! i) \<Longrightarrow>
      resolved target buf P \<Longrightarrow> in_reach target P \<Longrightarrow>
      \<exists>bs'. length bs' = length bs \<and> holds buf (length (buffer_m b)) bs' \<and>
        goes bs' (\<lambda>_. True) (offset_between (Position b) target) {FAR_TMP}"
    using assms(2) unfolding awaits_def by auto
  have "\<exists>bs'. length bs' = length (sk @ bs) \<and> holds buf (length (buffer_m a)) bs' \<and>
      goes bs' (\<lambda>R. \<not> c R) (offset_between (Position a) target) {FAR_TMP}"
    if len: "length (buffer_m b') \<le> length buf" and res: "resolved target buf P" "in_reach target P"
      and same: "\<forall>i. length (buffer_m a) \<le> i \<longrightarrow> i < length (buffer_m b') \<longrightarrow> i \<notin> all_spans P \<longrightarrow> buf ! i = buffer_m b' ! i"
    for buf target
  proof -
    obtain bs' where bs': "length bs' = length bs" "holds buf (length (buffer_m b)) bs'"
        "goes bs' (\<lambda>_. True) (offset_between (Position b) target) {FAR_TMP}"
      using later [OF len _ res] same b by auto
    have "buf ! (length (buffer_m a) + i) = sk ! i" if "i < length sk" for i
    proof -
      have "length (buffer_m a) + i \<notin> all_spans P" using assms(5) that b by auto
      then show ?thesis using same that b b'(1) by (auto simp: nth_append)
    qed
    then have "holds buf (length (buffer_m a)) sk" using len b b'(1) by (simp add: holds_def)
    then have "holds buf (length (buffer_m a)) (sk @ bs')" using bs'(2) b by (simp add: holds_split)
    moreover have "goes (sk @ bs') (\<lambda>R. \<not> c R) (offset_between (Position a) target) {FAR_TMP}"
      by (rule goes_cong [OF goes_around [OF assms(3) _ bs'(3)]])
        (use assms(4) b b'(1) bs'(1) in \<open>simp_all add: offset_between_shift\<close>)
    ultimately show ?thesis using bs'(1) by (intro exI [of _ "sk @ bs'"]) simp
  qed
  then show ?thesis
    using b b' unfolding awaits_def by (intro exI [of _ "sk @ bs"]) simp
qed

definition reachable :: "JumpDistance \<Rightarrow> 'z MicroAssembler_scheme \<Rightarrow> intx \<Rightarrow> bool" where
  "reachable distance a d =
     (if distance = kNearJump then IsCBImm d
      else if far_branch_level_m a = 0 then IsBTypeImm d
      else if far_branch_level_m a = 1 then IsJTypeImm (d - 2) \<and> IsJTypeImm (d - 4)
      else far_ok (d - 2) \<and> far_ok (d - 4))"

text \<open>The exact condition for one branch, by the form that is chosen for it: a near branch is compressed if it has a compressed form and a
  B-type branch otherwise; at the far branch level 0 it is a B-type branch; from level 1 on it is a jump
  behind the inverted branch, which takes two bytes if it has a compressed form and four otherwise.\<close>

definition branch_reach ::
    "u32 \<Rightarrow> Register \<Rightarrow> Register \<Rightarrow> JumpDistance \<Rightarrow> 'z MicroAssembler_scheme \<Rightarrow> intx \<Rightarrow> bool" where
  "branch_reach func rs1 rs2 distance a d =
     (let c = has_c_branch rs1 rs2 func a;
          skip = (if c then 2 else 4)
      in if distance = kNearJump then (if c then IsCBImm d else IsBTypeImm d)
         else if far_branch_level_m a = 0 then IsBTypeImm d
         else if far_branch_level_m a = 1 then IsJTypeImm (d - skip)
         else far_ok (d - skip))"

text \<open>With the far branch level 1 or more, the distance from the previous branch to the same label is
  encoded without a check that it fits.\<close>

definition links_fit :: "'z MicroAssembler_scheme \<Rightarrow> Label \<Rightarrow> bool" where
  "links_fit a l =
     (\<forall>k \<in> {2, 4}.
        (far_branch_level_m a = 1 \<longrightarrow> IsJTypeImm (link_offset (unresolved_j_m l) (Position a + k))) \<and>
        (far_branch_level_m a \<notin> {0, 1} \<longrightarrow> far_ok (link_offset (unresolved_far_m l) (Position a + k))))"

lemma IsCBImm_IsBTypeImm: "IsCBImm d \<Longrightarrow> IsBTypeImm d"
  by (simp add: IsCBImm_def IsBTypeImm_def IsInt_iff)

lemma reachable_branch_reach: "reachable distance a d \<Longrightarrow> branch_reach func rs1 rs2 distance a d"
  by (simp add: reachable_def branch_reach_def Let_def IsCBImm_IsBTypeImm split: if_splits)

lemma skip_branch_goes:
  assumes "is_branch_code func" "n \<in> {4, 8}"
  shows "\<exists>sk. skip_branch (of_nat n) rs1 rs2 func a = Inr (a\<lparr>buffer_m := buffer_m a @ sk\<rparr>) \<and>
    goes sk (\<lambda>R. \<not> taken func (R rs1) (R rs2)) (of_nat (length sk + n)) {} \<and>
    length sk = (if has_c_branch rs1 rs2 func a then 2 else 4)"
proof (cases "has_c_branch rs1 rs2 func a")
  case True
  let ?r = "if rs1 = ZR then rs2 else rs1" and ?opc = "if func = BEQ then C_BNEZ else C_BEQZ"
  have r: "IsCRs1p ?r" using True by (auto simp: has_c_branch_def IsCRs1p_def)
  have d: "IsCBImm (2 + of_nat n)" using assms(2) by (auto simp: IsCBImm_def IsInt_iff IsAligned_def)
  have "goes (cb_word (?opc, ?r) (2 + of_nat n)) (\<lambda>R. \<not> taken func (R rs1) (R rs2)) (of_nat (2 + n)) {}"
  proof (cases "func = BEQ")
    case eq: True
    show ?thesis
      by (rule goes_cong, unfold if_P [OF eq], rule goes_cb(2) [OF r d])
        (use True eq in \<open>auto simp: has_c_branch_def taken.simps IsCRs1p_def\<close>)
  next
    case ne: False
    show ?thesis
      by (rule goes_cong, unfold if_not_P [OF ne], rule goes_cb(1) [OF r d])
        (use True ne in \<open>auto simp: has_c_branch_def taken.simps IsCRs1p_def\<close>)
  qed
  then show ?thesis
    using True by (intro exI [of _ "cb_word (?opc, ?r) (2 + of_nat n)"])
      (simp add: skip_branch_def emit_words cb_class.length_word)
next
  case False
  obtain inverted where inv: "InvertFunct3 func = Inr inverted" "is_branch_code inverted"
    and not: "\<And>x y. taken inverted x y \<longleftrightarrow> \<not> taken func x y" using InvertFunct3_taken [OF assms(1)] by metis
  have d: "IsBTypeImm (4 + of_nat n)" using assms(2) by (auto simp: IsBTypeImm_def IsInt_iff IsAligned_def)
  have "goes (b_word (rs2, rs1, inverted) (4 + of_nat n)) (\<lambda>R. \<not> taken func (R rs1) (R rs2)) (of_nat (4 + n)) {}"
    by (rule goes_cong [OF goes_b [OF inv(2) d]]) (simp_all add: not)
  then show ?thesis
    using False inv(1) by (intro exI [of _ "b_word (rs2, rs1, inverted) (4 + of_nat n)"])
      (simp add: skip_branch_def and_then_def emit_words b_class.length_word)
qed

lemma in_reach_add:
  "in_reach t (add_cb p f1 P) \<longleftrightarrow> in_reach t P \<and> IsCBImm (offset_between (int p) t)"
  "in_reach t (add_cj p f2 P) \<longleftrightarrow> in_reach t P \<and> IsCJImm (offset_between (int p) t)"
  "in_reach t (add_b p f3 P) \<longleftrightarrow> in_reach t P \<and> IsBTypeImm (offset_between (int p) t)"
  "in_reach t (add_j p f4 P) \<longleftrightarrow> in_reach t P \<and> IsJTypeImm (offset_between (int p) t)"
  "in_reach t (add_far p f5 P) \<longleftrightarrow> in_reach t P \<and> far_ok (offset_between (int p) t)"
  by (auto simp: in_reach_def add_defs)

lemma all_spans_add:
  "all_spans (add_cb p f1 P) = {p ..< p + 2} \<union> all_spans P" "all_spans (add_cj p f2 P) = {p ..< p + 2} \<union> all_spans P"
  "all_spans (add_b p f3 P) = {p ..< p + 4} \<union> all_spans P"
  "all_spans (add_j p f4 P) = {p ..< p + 4} \<union> all_spans P" "all_spans (add_far p f5 P) = {p ..< p + 8} \<union> all_spans P"
  by (auto simp: all_spans_def add_defs)

lemma forward_j:
  assumes "linked_to l (buffer_m a) P" "disjoint_branches P" "is_branch_code func" "links_fit a l" "far_branch_level_m a = 1"
    and "and_then (skip_branch 4 rs1 rs2 func a) (\<lambda>a. let (offset, label) = link_j (Position a) l
           in Inr (label, EmitJType offset ZR JAL a)) = Inr (l', a')"
  shows "\<exists>P'. awaits a a' l' P' (\<lambda>R. taken func (R rs1) (R rs2)) \<and>
    (\<forall>t. in_reach t P \<longrightarrow> branch_reach func rs1 rs2 kFarJump a (offset_between (Position a) t) \<longrightarrow> in_reach t P') \<and>
    all_spans P' \<subseteq> all_spans P \<union> {length (buffer_m a) ..}"
proof -
  obtain sk where sk: "skip_branch 4 rs1 rs2 func a = Inr (a\<lparr>buffer_m := buffer_m a @ sk\<rparr>)"
    "goes sk (\<lambda>R. \<not> taken func (R rs1) (R rs2)) (of_nat (length sk + 4)) {}"
    "length sk = (if has_c_branch rs1 rs2 func a then 2 else 4)"
    using skip_branch_goes [OF assms(3), of 4 rs1 rs2 a] by auto
  define b where "b = a\<lparr>buffer_m := buffer_m a @ sk\<rparr>"
  obtain d where d: "link_j (Position b) l = (d, l')" and a': "a' = b\<lparr>buffer_m := buffer_m b @ j_word ZR d\<rparr>"
    using assms(6) sk(1) by (auto simp: and_then_def b_def emit_words split: prod.splits)
  have "IsJTypeImm d" using assms(4,5) d sk(3) by (auto simp: links_fit_def link_j_def b_def)
  then have "awaits b a' l' (add_j (length (buffer_m b)) ZR P) (\<lambda>_. True)"
    unfolding a' using linked_to_append [OF assms(1)] by (intro awaits_j [OF _ assms(2) d]) (simp_all add: b_def)
  then have "awaits a a' l' (add_j (length (buffer_m b)) ZR P) (\<lambda>R. \<not> \<not> taken func (R rs1) (R rs2))"
    by (rule awaits_around [OF b_def _ sk(2)])
      (use spans_below [OF assms(1)] in \<open>auto simp: a' b_def j_class.length_word all_spans_add\<close>)
  then show ?thesis
    using sk(3) assms(5)
    by (intro exI [of _ "add_j (length (buffer_m b)) ZR P"])
      (auto simp: in_reach_add all_spans_add branch_reach_def Let_def b_def Position_def offset_between_shift)
qed

lemma forward_far:
  assumes "linked_to l (buffer_m a) P" "disjoint_branches P" "is_branch_code func" "links_fit a l" "far_branch_level_m a \<notin> {0, 1}"
    and "and_then (skip_branch 8 rs1 rs2 func a) (\<lambda>a. let (offset, label) = link_far (Position a) l
           in and_then (EmitFar offset a) (\<lambda>a. Inr (label, a))) = Inr (l', a')"
  shows "\<exists>P'. awaits a a' l' P' (\<lambda>R. taken func (R rs1) (R rs2)) \<and>
    (\<forall>t. in_reach t P \<longrightarrow> branch_reach func rs1 rs2 kFarJump a (offset_between (Position a) t) \<longrightarrow> in_reach t P') \<and>
    all_spans P' \<subseteq> all_spans P \<union> {length (buffer_m a) ..}"
proof -
  obtain sk where sk: "skip_branch 8 rs1 rs2 func a = Inr (a\<lparr>buffer_m := buffer_m a @ sk\<rparr>)"
    "goes sk (\<lambda>R. \<not> taken func (R rs1) (R rs2)) (of_nat (length sk + 8)) {}"
    "length sk = (if has_c_branch rs1 rs2 func a then 2 else 4)"
    using skip_branch_goes [OF assms(3), of 8 rs1 rs2 a] by auto
  define b where "b = a\<lparr>buffer_m := buffer_m a @ sk\<rparr>"
  obtain d where d: "link_far (Position b) l = (d, l')" and a': "a' = b\<lparr>buffer_m := buffer_m b @ far_word () d\<rparr>"
    using assms(6) sk(1) by (auto simp: and_then_def b_def emit_words split: prod.splits)
  have "far_ok d" using assms(4,5) d sk(3) by (auto simp: links_fit_def link_far_def b_def)
  then have "awaits b a' l' (add_far (length (buffer_m b)) () P) (\<lambda>_. True)"
    unfolding a' using linked_to_append [OF assms(1)] by (intro awaits_far [OF _ assms(2) d]) (simp_all add: b_def)
  then have "awaits a a' l' (add_far (length (buffer_m b)) () P) (\<lambda>R. \<not> \<not> taken func (R rs1) (R rs2))"
    by (rule awaits_around [OF b_def _ sk(2)])
      (use spans_below [OF assms(1)] in \<open>auto simp: a' b_def far_class.length_word all_spans_add\<close>)
  then show ?thesis
    using sk(3) assms(5)
    by (intro exI [of _ "add_far (length (buffer_m b)) () P"])
      (auto simp: in_reach_add all_spans_add branch_reach_def Let_def b_def Position_def offset_between_shift)
qed

lemma EmitBranch_forward:
  assumes "linked_to l (buffer_m a) P" "disjoint_branches P" "is_branch_code func" "links_fit a l"
    and "EmitBranch rs1 rs2 l func distance a = Inr (l', a')"
  shows "\<exists>P'. awaits a a' l' P' (\<lambda>R. taken func (R rs1) (R rs2)) \<and>
    (\<forall>t. in_reach t P \<longrightarrow> branch_reach func rs1 rs2 distance a (offset_between (Position a) t) \<longrightarrow> in_reach t P') \<and>
    all_spans P' \<subseteq> all_spans P \<union> {length (buffer_m a) ..}"
proof -
  have unbound: "\<not> IsBound l" using assms(1) by (simp add: linked_to_def IsBound_def)
  consider (b) "distance = kNearJump \<or> far_branch_level_m a = 0" | (j) "distance = kFarJump" "far_branch_level_m a = 1"
    | (far) "distance = kFarJump" "far_branch_level_m a \<notin> {0, 1}" by (cases distance) auto
  then show ?thesis
  proof cases
    case b
    then obtain d where "link_b (Position a) l = (d, l')" "IsBTypeImm d" "a' = EmitBType d rs2 rs1 func BRANCH a"
      using assms(5) unbound by (auto simp: EmitBranch_def split: prod.splits if_splits)
    then show ?thesis
      using awaits_b [OF assms(1-3), of d l' rs2 rs1] b IsCBImm_IsBTypeImm
      by (intro exI [of _ "add_b (length (buffer_m a)) (rs2, rs1, func) P"])
        (auto simp: in_reach_add all_spans_add branch_reach_def Let_def Position_def split: if_splits)
  next
    case j
    show ?thesis
      unfolding j(1) by (rule forward_j [OF assms(1-4) j(2)]) (use assms(5) unbound j in \<open>simp add: EmitBranch_def\<close>)
  next
    case far
    show ?thesis
      unfolding far(1) by (rule forward_far [OF assms(1-4) far(2)]) (use assms(5) unbound far in \<open>simp add: EmitBranch_def\<close>)
  qed
qed

lemma awaits_resolved:
  assumes "awaits a a' l P c" "length (buffer_m a') \<le> length buf" "resolved target buf P" "in_reach target P"
    and "\<And>i. length (buffer_m a) \<le> i \<Longrightarrow> i < length (buffer_m a') \<Longrightarrow> i \<notin> all_spans P \<Longrightarrow> buf ! i = buffer_m a' ! i"
  shows "\<exists>bs. length (buffer_m a) + length bs = length (buffer_m a') \<and> holds buf (length (buffer_m a)) bs \<and>
    goes bs c (offset_between (Position a) target) {FAR_TMP}"
proof -
  obtain bs where a': "a' = a\<lparr>buffer_m := buffer_m a @ bs\<rparr>" and later: "\<exists>bs'. length bs' = length bs \<and>
      holds buf (length (buffer_m a)) bs' \<and> goes bs' c (offset_between (Position a) target) {FAR_TMP}"
    using assms unfolding awaits_def by blast
  then show ?thesis by auto
qed

lemma Bind_awaits:
  assumes "awaits a a1 l P c" "all_spans P \<subseteq> {length (buffer_m a) ..}" "in_reach (Position a2) P"
    and "buffer_m a2 = buffer_m a1 @ cs" "length (buffer_m a2) < 2 ^ 31"
  shows "\<exists>bs. Bind l a2 = Some (Inr (bound_at (Position a2), a2\<lparr>buffer_m := buffer_m a @ bs @ cs\<rparr>)) \<and>
    length (buffer_m a @ bs) = length (buffer_m a1) \<and> goes bs c (offset_between (Position a) (Position a2)) {FAR_TMP}"
proof -
  obtain bs0 where a1: "a1 = a\<lparr>buffer_m := buffer_m a @ bs0\<rparr>" "linked_to l (buffer_m a1) P" "disjoint_branches P"
    using assms(1) unfolding awaits_def by blast
  have l2: "linked_to l (buffer_m a2) P" using linked_to_append [OF a1(2)] assms(4) by simp
  obtain buf where buf: "Bind l a2 = Some (Inr (bound_at (Position a2), a2\<lparr>buffer_m := buf\<rparr>))"
    "resolved (Position a2) buf P" and k: "keeps_outside (all_spans P) (buffer_m a2) buf"
    using Bind_correct [OF l2 a1(3) assms(5,3)] by blast
  have len: "length buf = length (buffer_m a2)" and
    same: "\<And>i. i < length (buffer_m a2) \<Longrightarrow> i \<notin> all_spans P \<Longrightarrow> buf ! i = buffer_m a2 ! i"
    using k by (simp_all add: keeps_outside_def)
  have "\<And>i. length (buffer_m a) \<le> i \<Longrightarrow> i < length (buffer_m a1) \<Longrightarrow> i \<notin> all_spans P \<Longrightarrow> buf ! i = buffer_m a1 ! i"
    using same assms(4) by (simp add: nth_append)
  then obtain bs where bs: "length (buffer_m a) + length bs = length (buffer_m a1)" "holds buf (length (buffer_m a)) bs"
    "goes bs c (offset_between (Position a) (Position a2)) {FAR_TMP}"
    using awaits_resolved [OF assms(1) _ buf(2) assms(3)] len assms(4) by auto
  have "buf = buffer_m a @ bs @ cs"
  proof (rule nth_equalityI)
    show "length buf = length (buffer_m a @ bs @ cs)" using len assms(4) bs(1) by simp
    fix i assume i: "i < length buf"
    have "i \<notin> all_spans P" if "i < length (buffer_m a) \<or> length (buffer_m a1) \<le> i"
      using that assms(2) spans_below [OF a1(2)] by force
    then show "buf ! i = (buffer_m a @ bs @ cs) ! i"
      using same [of i] i len assms(4) a1(1) bs(1,2)
      by (cases "i < length (buffer_m a)"; cases "i < length (buffer_m a1)")
        (auto simp: nth_append holds_def dest: spec [of _ "i - length (buffer_m a)"])
  qed
  then show ?thesis
    using buf(1) bs assms(4) a1(1) by (intro exI [of _ bs]) simp
qed

section \<open>The conditional branches\<close>

text \<open>The distances that a branch to a bound label can span: those of the compressed form if the branch is near and has
  one, otherwise all but those for which the jump behind the inverted branch is chosen, by a test of the distance
  plus 4, although the distance minus 4 that it has to encode does not fit.\<close>

definition back_branch_reach ::
    "u32 \<Rightarrow> Register \<Rightarrow> Register \<Rightarrow> JumpDistance \<Rightarrow> 'z MicroAssembler_scheme \<Rightarrow> intx \<Rightarrow> bool" where
  "back_branch_reach func rs1 rs2 distance a d =
     (if distance = kNearJump \<and> has_c_branch rs1 rs2 func a then IsCBImm d
      else IsBTypeImm d \<or> IsJTypeImm (d - 4) \<or> \<not> IsJTypeImm (d + 4))"

text \<open>A condition that suffices for every branch.\<close>

definition back_reach :: "JumpDistance \<Rightarrow> intx \<Rightarrow> bool" where
  "back_reach distance d =
     ((distance = kNearJump \<longrightarrow> IsCBImm d) \<and> (IsBTypeImm d \<or> IsJTypeImm (d - 4) \<or> \<not> IsJTypeImm (d + 4)))"

lemma back_reach_branch: "back_reach distance d \<Longrightarrow> back_branch_reach func rs1 rs2 distance a d"
  by (simp add: back_reach_def back_branch_reach_def)

lemma back_branch_reach_full:
  "back_branch_reach func rs1 rs2 distance a d \<Longrightarrow> IsBTypeImm d \<or> IsJTypeImm (d - 4) \<or> \<not> IsJTypeImm (d + 4)"
  by (auto simp: back_branch_reach_def IsCBImm_IsBTypeImm split: if_splits)

text \<open>What a client of a branch instruction relies on: a branch to a bound label goes to its position, a
  branch to an unbound label goes to the position at which the label is bound, and the first branch to
  a label can always be emitted.\<close>

locale branch_instruction =
  fixes emit :: "'z branch" and func :: u32
  assumes backward: "IsBound label \<Longrightarrow> back_distance (Position a) (position_m label) \<Longrightarrow>
      back_branch_reach func rs1 rs2 distance a (offset_between (Position a) (position_m label)) \<Longrightarrow>
      \<exists>bs. emit rs1 rs2 label distance a = Inr (label, a\<lparr>buffer_m := buffer_m a @ bs\<rparr>) \<and>
        goes bs (\<lambda>R. taken func (R rs1) (R rs2)) (offset_between (Position a) (position_m label)) {FAR_TMP}"
    and forward: "linked_to l (buffer_m a) P \<Longrightarrow> disjoint_branches P \<Longrightarrow> links_fit a l \<Longrightarrow>
      emit rs1 rs2 l distance a = Inr (l', a') \<Longrightarrow>
      \<exists>P'. awaits a a' l' P' (\<lambda>R. taken func (R rs1) (R rs2)) \<and>
        (\<forall>t. in_reach t P \<longrightarrow> branch_reach func rs1 rs2 distance a (offset_between (Position a) t) \<longrightarrow> in_reach t P') \<and>
        all_spans P' \<subseteq> all_spans P \<union> {length (buffer_m a) ..}"
    and fresh: "\<exists>r. emit rs1 rs2 new_label distance a = Inr r"
    and appends: "emit rs1 rs2 l distance a = Inr (l', a') \<Longrightarrow> \<exists>bs. a' = a\<lparr>buffer_m := buffer_m a @ bs\<rparr>"
begin

text \<open>A branch to a new label, followed by any code and by the binding of the label.\<close>

lemma forward_then_bind:
  assumes "buffer_m a2 = buffer_m a1 @ cs" "emit rs1 rs2 new_label distance a = Inr (l1, a1)"
    and "length (buffer_m a2) < 2 ^ 31" "branch_reach func rs1 rs2 distance a (offset_between (Position a) (Position a2))"
  shows "\<exists>bs. Bind l1 a2 = Some (Inr (bound_at (Position a2), a2\<lparr>buffer_m := buffer_m a @ bs @ cs\<rparr>)) \<and>
    length (buffer_m a @ bs) = length (buffer_m a1) \<and>
    goes bs (\<lambda>R. taken func (R rs1) (R rs2)) (offset_between (Position a) (Position a2)) {FAR_TMP}"
proof -
  let ?e = "\<lparr>cb_list = [], cj_list = [], b_list = [], j_list = [], far_list = []\<rparr>"
  have e: "linked_to new_label (buffer_m a) ?e" "disjoint_branches ?e" "in_reach t ?e" "all_spans ?e = {}" for t
    by (simp_all add: linked_to_def new_label_def head_of_def disjoint_branches_def in_reach_def all_spans_def)
  have "links_fit a new_label"
    using j_class.valid_0 far_class.valid_0 by (simp add: links_fit_def new_label_def link_offset_def)
  then obtain P where "awaits a a1 l1 P (\<lambda>R. taken func (R rs1) (R rs2))" "in_reach (Position a2) P"
    "all_spans P \<subseteq> {length (buffer_m a) ..}"
    using forward [OF e(1,2) _ assms(2)] e(3,4) assms(4) by blast
  then show ?thesis using Bind_awaits [of a a1 l1 P _ a2 cs] assms(1,3) by blast
qed

end

lemma EmitBranch_fresh: "is_branch_code func \<Longrightarrow> \<exists>r. EmitBranch rs1 rs2 new_label func distance a = Inr r"
proof -
  assume f: "is_branch_code func"
  have "link_offset (-1) p = 0" for p by (simp add: link_offset_def)
  moreover have "IsBTypeImm 0" by (rule b_class.valid_0)
  moreover obtain b1 b2 where "skip_branch 4 rs1 rs2 func a = Inr b1" "skip_branch 8 rs1 rs2 func a = Inr b2"
    using skip_branch_goes [OF f, of 4 rs1 rs2 a] skip_branch_goes [OF f, of 8 rs1 rs2 a] by auto
  ultimately show ?thesis
    by (simp add: EmitBranch_def new_label_def IsBound_def link_b_def link_j_def link_far_def and_then_def emit_words)
qed

lemma EmitBranch_appends:
  assumes "EmitBranch rs1 rs2 l func distance a = Inr (l', a')"
  shows "\<exists>bs. a' = a\<lparr>buffer_m := buffer_m a @ bs\<rparr>"
  using assms
  by (auto simp: EmitBranch_def emit_words skip_branch_def and_then_def Emit16_def Let_def split: if_splits sum.splits prod.splits)

lemma branch_instruction_EmitBranch:
  assumes "is_branch_code func"
  shows "branch_instruction (\<lambda>rs1 rs2 label. EmitBranch rs1 rs2 label func) func"
proof
  show "\<exists>bs. EmitBranch rs1 rs2 label func distance a = Inr (label, a\<lparr>buffer_m := buffer_m a @ bs\<rparr>) \<and>
      goes bs (\<lambda>R. taken func (R rs1) (R rs2)) (offset_between (Position a) (position_m label)) {FAR_TMP}"
    if "IsBound label" "back_distance (Position a) (position_m label)"
      "back_branch_reach func rs1 rs2 distance a (offset_between (Position a) (position_m label))"
    for label rs1 rs2 distance and a :: "'a MicroAssembler_scheme"
    using EmitBranch_backward [OF assms that(1,2) refl back_branch_reach_full [OF that(3)]] .
qed (use EmitBranch_forward assms in blast, use EmitBranch_fresh assms in blast, rule EmitBranch_appends)

interpretation blt_i: branch_instruction blt BLT
  unfolding blt_def [abs_def] by (rule branch_instruction_EmitBranch) (simp add: is_branch_code_def)

interpretation bge_i: branch_instruction bge BGE
  unfolding bge_def [abs_def] by (rule branch_instruction_EmitBranch) (simp add: is_branch_code_def)

interpretation bltu_i: branch_instruction bltu BLTU
  unfolding bltu_def [abs_def] by (rule branch_instruction_EmitBranch) (simp add: is_branch_code_def)

interpretation bgeu_i: branch_instruction bgeu BGEU
  unfolding bgeu_def [abs_def] by (rule branch_instruction_EmitBranch) (simp add: is_branch_code_def)

definition c_branch_code :: "u32 \<Rightarrow> u32 \<Rightarrow> bool" where
  "c_branch_code func opc = (func = BEQ \<and> opc = C_BEQZ \<or> func = BNE \<and> opc = C_BNEZ)"

lemma c_branch_goes:
  assumes "c_branch_code func opc" "IsCRs1p r" "IsCBImm d" "rs1 = ZR \<and> rs2 = r \<or> rs1 = r \<and> rs2 = ZR"
  shows "goes (cb_word (opc, r) d) (\<lambda>R. taken func (R rs1) (R rs2)) d K"
proof (cases "func = BEQ")
  case True
  then have opc: "opc = C_BEQZ" using assms(1) by (simp add: c_branch_code_def)
  show ?thesis
    unfolding opc by (rule goes_cong [OF goes_cb(1) [OF assms(2,3)]]) (use assms(4) True in \<open>auto simp: taken.simps\<close>)
next
  case False
  then have opc: "opc = C_BNEZ" "func = BNE" using assms(1) by (auto simp: c_branch_code_def)
  show ?thesis
    unfolding opc by (rule goes_cong [OF goes_cb(2) [OF assms(2,3)]]) (use assms(4) in \<open>auto simp: taken.simps\<close>)
qed

definition c_or_full :: "u32 \<Rightarrow> u32 \<Rightarrow> 'z branch" where
  "c_or_full opc func rs1 rs2 label distance a =
     (if near_c_branch label distance a \<and> rs1 = ZR \<and> IsCRs1p rs2 then EmitCBranch rs2 label opc a
      else if near_c_branch label distance a \<and> rs2 = ZR \<and> IsCRs1p rs1 then EmitCBranch rs1 label opc a
      else EmitBranch rs1 rs2 label func distance a)"

lemma c_or_full_cases:
  fixes a :: "'z MicroAssembler_scheme"
  obtains r where "near_c_branch label distance a" "IsCRs1p r" "rs1 = ZR \<and> rs2 = r \<or> rs1 = r \<and> rs2 = ZR"
      "c_or_full opc func rs1 rs2 label distance a = EmitCBranch r label opc a"
  | "c_or_full opc func rs1 rs2 label distance a = EmitBranch rs1 rs2 label func distance a"
proof -
  consider "near_c_branch label distance a \<and> rs1 = ZR \<and> IsCRs1p rs2"
    | "near_c_branch label distance a \<and> rs2 = ZR \<and> IsCRs1p rs1" "\<not> (rs1 = ZR \<and> IsCRs1p rs2)"
    | "\<not> (near_c_branch label distance a \<and> (rs1 = ZR \<and> IsCRs1p rs2 \<or> rs2 = ZR \<and> IsCRs1p rs1))" by blast
  then show thesis
    by cases (rule that(1) [of rs2], simp_all add: c_or_full_def, rule that(1) [of rs1], simp_all add: c_or_full_def,
      rule that(2), auto simp: c_or_full_def)
qed

lemma branch_instruction_c_or_full:
  assumes "c_branch_code func opc"
  shows "branch_instruction (c_or_full opc func) func"
proof
  have f: "is_branch_code func" using assms by (auto simp: c_branch_code_def is_branch_code_def)
  fix label l l' :: Label and rs1 rs2 distance P and a a' :: "'a MicroAssembler_scheme"
  let ?d = "offset_between (Position a) (position_m label)"
  show "\<exists>bs. c_or_full opc func rs1 rs2 label distance a = Inr (label, a\<lparr>buffer_m := buffer_m a @ bs\<rparr>) \<and>
      goes bs (\<lambda>R. taken func (R rs1) (R rs2)) ?d {FAR_TMP}"
    if "IsBound label" "back_distance (Position a) (position_m label)" "back_branch_reach func rs1 rs2 distance a ?d"
  proof (rule c_or_full_cases [of label distance a rs1 rs2 opc func])
    fix r assume r: "near_c_branch label distance a" "IsCRs1p r" "rs1 = ZR \<and> rs2 = r \<or> rs1 = r \<and> rs2 = ZR"
      "c_or_full opc func rs1 rs2 label distance a = EmitCBranch r label opc a"
    have "IsCBImm ?d" using r(1-3) that(3) assms
      by (auto simp: near_c_branch_def back_branch_reach_def has_c_branch_def c_branch_code_def split: if_splits)
    then show ?thesis
      using that(1) r c_branch_goes [OF assms r(2) _ r(3)] by (auto simp: EmitCBranch_def emit_words)
  qed (use EmitBranch_backward [OF f that(1,2) refl back_branch_reach_full [OF that(3)]] in simp)
  show "\<exists>P'. awaits a a' l' P' (\<lambda>R. taken func (R rs1) (R rs2)) \<and>
      (\<forall>t. in_reach t P \<longrightarrow> branch_reach func rs1 rs2 distance a (offset_between (Position a) t) \<longrightarrow> in_reach t P') \<and>
      all_spans P' \<subseteq> all_spans P \<union> {length (buffer_m a) ..}"
    if l: "linked_to l (buffer_m a) P" "disjoint_branches P" "links_fit a l" "c_or_full opc func rs1 rs2 l distance a = Inr (l', a')"
  proof (rule c_or_full_cases [of l distance a rs1 rs2 opc func])
    fix r assume r: "near_c_branch l distance a" "IsCRs1p r" "rs1 = ZR \<and> rs2 = r \<or> rs1 = r \<and> rs2 = ZR"
      "c_or_full opc func rs1 rs2 l distance a = EmitCBranch r l opc a"
    have u: "\<not> IsBound l" using l(1) by (simp add: linked_to_def IsBound_def)
    then have near: "distance = kNearJump" using r(1) by (simp add: near_c_branch_def)
    obtain d where d: "link_cb (Position a) l = (d, l')" "IsCBImm d" "a' = a\<lparr>buffer_m := buffer_m a @ cb_word (opc, r) d\<rparr>"
      using l(4) r(4) u by (auto simp: EmitCBranch_def emit_words split: prod.splits if_splits)
    have "cb_fields (opc, r)" using assms r(2) by (auto simp: c_branch_code_def cb_fields_def)
    have "has_c_branch rs1 rs2 func a"
      using r(1-3) assms by (auto simp: near_c_branch_def has_c_branch_def c_branch_code_def)
    with awaits_cb [OF l(1,2) \<open>cb_fields (opc, r)\<close> c_branch_goes [OF assms r(2) _ r(3)] d(1,2)] show ?thesis
      using near d(3) by (intro exI [of _ "add_cb (length (buffer_m a)) (opc, r) P"])
        (auto simp: in_reach_add all_spans_add branch_reach_def Position_def)
  qed (use EmitBranch_forward [OF l(1,2) f l(3)] l(4) in simp)
  show "\<exists>r. c_or_full opc func rs1 rs2 new_label distance a = Inr r"
    using EmitBranch_fresh [OF f, of rs1 rs2 distance a] cb_class.valid_0
    by (auto simp: c_or_full_def EmitCBranch_def new_label_def IsBound_def link_cb_def link_offset_def)
  show "\<exists>bs. a' = a\<lparr>buffer_m := buffer_m a @ bs\<rparr>" if "c_or_full opc func rs1 rs2 l distance a = Inr (l', a')"
    using that EmitBranch_appends [of rs1 rs2 l func distance a l' a']
    by (auto simp: c_or_full_def EmitCBranch_def Emit16_def split: if_splits prod.splits)
qed

lemma c_branches: "beq = c_or_full C_BEQZ BEQ" "bne = c_or_full C_BNEZ BNE"
  by (intro ext, simp only: beq_def bne_def c_or_full_def c_beqz_def c_bnez_def)+

interpretation beq_i: branch_instruction beq BEQ
  unfolding c_branches by (rule branch_instruction_c_or_full) (simp add: c_branch_code_def)

interpretation bne_i: branch_instruction bne BNE
  unfolding c_branches by (rule branch_instruction_c_or_full) (simp add: c_branch_code_def)

section \<open>Jumps\<close>

definition jump_reach :: "JumpDistance \<Rightarrow> 'z MicroAssembler_scheme \<Rightarrow> intx \<Rightarrow> bool" where
  "jump_reach distance a d =
     (if distance = kNearJump then IsCJImm d
      else if far_branch_level_m a < 2 then IsJTypeImm d
      else far_ok d)"

lemma IsCJImm_IsJTypeImm: "IsCJImm d \<Longrightarrow> IsJTypeImm d"
  by (simp add: IsCJImm_def IsJTypeImm_def IsInt_iff)

lemma jal_backward:
  assumes "IsBound label" "back_distance (Position a) (position_m label)"
    and "d = offset_between (Position a) (position_m label)" "distance = kNearJump \<Longrightarrow> IsCJImm d"
  shows "\<exists>bs. jal ZR label distance a = Inr (label, a\<lparr>buffer_m := buffer_m a @ bs\<rparr>) \<and> goes bs (\<lambda>_. True) d {FAR_TMP}"
proof -
  have "far_ok d" using far_ok_back [OF assms(2), of 0] assms(3) by simp
  moreover have "jal ZR label distance a = Inr (label, a\<lparr>buffer_m := buffer_m a @
      (if Supports a RV_C \<and> IsCJImm d then cj_word () d else if IsJTypeImm d then j_word ZR d else far_word () d)\<rparr>)"
    using assms(1,4)
    by (auto simp: jal_def c_j_def EmitCJump_def EmitJump_def and_then_def emit_words assms(3) [symmetric])
  ultimately show ?thesis
    using goes_cj [of d "{FAR_TMP}"] goes_j [of d "{FAR_TMP}"] goes_far [of d] by auto
qed

lemma jal_forward:
  assumes "linked_to l (buffer_m a) P" "disjoint_branches P" "jal ZR l distance a = Inr (l', a')"
    and "2 \<le> far_branch_level_m a \<Longrightarrow> far_ok (link_offset (unresolved_far_m l) (Position a))"
  shows "\<exists>P'. awaits a a' l' P' (\<lambda>_. True) \<and>
    (\<forall>t. in_reach t P \<longrightarrow> jump_reach distance a (offset_between (Position a) t) \<longrightarrow> in_reach t P') \<and>
    all_spans P' \<subseteq> all_spans P \<union> {length (buffer_m a) ..}"
proof -
  have u: "\<not> IsBound l" using assms(1) by (simp add: linked_to_def IsBound_def)
  let ?p = "length (buffer_m a)"
  consider (cj) d where "distance = kNearJump" "link_cj (Position a) l = (d, l')" "IsCJImm d"
      "a' = a\<lparr>buffer_m := buffer_m a @ cj_word () d\<rparr>"
    | (j) d where "distance = kNearJump \<or> far_branch_level_m a < 2" "link_j (Position a) l = (d, l')" "IsJTypeImm d"
      "a' = a\<lparr>buffer_m := buffer_m a @ j_word ZR d\<rparr>"
    | (far) d where "distance = kFarJump" "2 \<le> far_branch_level_m a" "link_far (Position a) l = (d, l')"
      "a' = a\<lparr>buffer_m := buffer_m a @ far_word () d\<rparr>"
    using assms(3) u
    by (cases distance) (auto simp: jal_def c_j_def EmitCJump_def EmitJump_def and_then_def emit_words
        split: prod.splits if_splits)
  then show ?thesis
  proof cases
    case cj
    then show ?thesis
      using awaits_cj [OF assms(1,2) cj(2,3)]
      by (intro exI [of _ "add_cj ?p () P"]) (auto simp: in_reach_add all_spans_add jump_reach_def Position_def)
  next
    case j
    then show ?thesis
      using awaits_j [OF assms(1,2) j(2,3)] IsCJImm_IsJTypeImm
      by (intro exI [of _ "add_j ?p ZR P"]) (auto simp: in_reach_add all_spans_add jump_reach_def Position_def)
  next
    case far
    then have "far_ok d" using assms(4) by (simp add: link_far_def)
    then show ?thesis
      using awaits_far [OF assms(1,2) far(3)] far
      by (intro exI [of _ "add_far ?p () P"]) (auto simp: in_reach_add all_spans_add jump_reach_def Position_def)
  qed
qed

section \<open>Targets out of reach\<close>

text \<open>The four checked classes of branches report a target that is out of their reach.\<close>

locale checked_branch_class = branch_class word n good valid update
  for word :: "'f \<Rightarrow> intx \<Rightarrow> u8 list" and n :: nat and good :: "'f \<Rightarrow> bool" and valid :: "intx \<Rightarrow> bool"
    and update :: "'z update" +
  fixes err :: asm_error
  assumes update_rejects: "\<not> valid new \<Longrightarrow> holds (buffer_m a) p (word f old) \<Longrightarrow> update (int p) new a = Inl err"
begin

lemma BIND_rejects:
  assumes "pending word good valid (buffer_m a) ps" "length (buffer_m a) < 2 ^ 31"
    and "\<exists>(p, f) \<in> set ps. \<not> valid (offset_between (int p) target)"
  shows "BIND update target (head_of ps) a = Some (Inl err)"
  using assms
proof (induction ps arbitrary: a)
  case (Cons x ps)
  obtain p f where x: "x = (p, f)" by (cases x)
  let ?d = "offset_between (int p) target" and ?old = "case ps of [] \<Rightarrow> 0 | (q, g) # _ \<Rightarrow> link_offset (int q) (int p)"
  have h: "holds (buffer_m a) p (word f ?old)" "good f" "valid ?old"
    using Cons.prems(1) x valid_0 by (cases ps; auto)+
  show ?case
  proof (cases "valid ?d")
    case False
    then show ?thesis using update_rejects [OF False h(1)] x by (subst BIND.simps) (simp add: head_of_def)
  next
    case True
    let ?a = "a\<lparr>buffer_m := patch p (word f ?d) (buffer_m a)\<rparr>"
    have p: "p + n \<le> length (buffer_m a)" using pending_bounds [OF Cons.prems(1), of p f] x by simp
    have later: "\<exists>(p, f) \<in> set ps. \<not> valid (offset_between (int p) target)" using Cons.prems(3) True x by auto
    have rest: "BIND update target (head_of ps) ?a = Some (Inl err)"
      by (rule Cons.IH) (use pending_patch Cons.prems(1,2) x later p in \<open>simp_all add: length_word\<close>)
    obtain q g zs where ps: "ps = (q, g) # zs" using later by (cases ps) auto
    have "q + n \<le> p" using pending_tail(2) [OF Cons.prems(1) [unfolded x], of q g] ps by simp
    then have "sint ?old = int p - int q" "0 < int p - int q"
      using sint_link_offset [of q p] Cons.prems(2) p n_pos ps by auto
    moreover from this have "?old \<noteq> 0" by auto
    ultimately show ?thesis
      using update_word [OF h(2,3) True h(1)] x ps rest by (subst BIND.simps) (simp add: head_of_def)
  qed
qed simp

lemma BIND_cases:
  assumes "pending word good valid buf ps" "keeps_outside S buf (buffer_m a)" "S \<inter> span n ps = {}" "length buf < 2 ^ 31"
  shows "(\<forall>(p, f) \<in> set ps. valid (offset_between (int p) target)) \<and>
      (\<exists>buf'. BIND update target (head_of ps) a = Some (Inr (a\<lparr>buffer_m := buf'\<rparr>)) \<and>
        keeps_outside (S \<union> span n ps) buf buf') \<or>
    \<not> (\<forall>(p, f) \<in> set ps. valid (offset_between (int p) target)) \<and> BIND update target (head_of ps) a = Some (Inl err)"
proof (cases "\<forall>(p, f) \<in> set ps. valid (offset_between (int p) target)")
  case True
  obtain buf' where "BIND update target (head_of ps) a = Some (Inr (a\<lparr>buffer_m := buf'\<rparr>))"
    "keeps_outside (S \<union> span n ps) buf buf'"
    by (rule BIND_step [OF assms True])
  then show ?thesis using True by blast
next
  case False
  have "pending word good valid (buffer_m a) ps"
    by (rule pending_cong [OF assms(1)]) (use assms(2,3) in \<open>auto simp: keeps_outside_def\<close>)
  then show ?thesis using BIND_rejects [of a ps target] False assms(2,4) by (auto simp: keeps_outside_def)
qed

end

interpretation cb_checked: checked_branch_class cb_word 2 cb_fields IsCBImm UpdateCBOffset Fatal
  by unfold_locales (auto simp: UpdateCBOffset_def and_then_def cb_word_def Read_holds split: prod.splits)

interpretation cj_checked: checked_branch_class cj_word 2 "\<lambda>_. True" IsCJImm UpdateCJOffset Fatal
  by unfold_locales (auto simp: UpdateCJOffset_def and_then_def cj_word_def Read_holds)

interpretation b_checked: checked_branch_class b_word 4 b_fields IsBTypeImm UpdateBOffset BranchOffsetError
  by unfold_locales (auto simp: UpdateBOffset_def and_then_def b_word_def Read_holds split: prod.splits)

interpretation j_checked: checked_branch_class j_word 4 "\<lambda>_. True" IsJTypeImm UpdateJOffset BranchOffsetError
  by unfold_locales (auto simp: UpdateJOffset_def and_then_def j_word_def Read_holds)

lemma far_in_reach:
  assumes "linked_to l (buffer_m a) P" "length (buffer_m a) < 2 ^ 31 - 4096"
  shows "\<forall>(p, f) \<in> set (far_list P). far_ok (offset_between (int p) (Position a))"
proof safe
  fix p f assume "(p, f) \<in> set (far_list P)"
  then have "p \<le> length (buffer_m a)"
    using far_class.pending_bounds [of "buffer_m a" "far_list P" p f] assms(1) by (simp add: linked_to_def)
  then show "far_ok (offset_between (int p) (Position a))"
    unfolding offset_between_def Position_def by (intro far_ok_bounds) (use assms(2) in auto)
qed

lemma linked_toD:
  assumes "linked_to l buf P"
  shows "pending cb_word cb_fields IsCBImm buf (cb_list P)" "pending cj_word (\<lambda>_. True) IsCJImm buf (cj_list P)"
    "pending b_word b_fields IsBTypeImm buf (b_list P)" "pending j_word (\<lambda>_. True) IsJTypeImm buf (j_list P)"
    "pending far_word (\<lambda>_. True) far_ok buf (far_list P)"
  using assms by (simp_all add: linked_to_def)

lemma Bind_linked:
  "linked_to l (buffer_m a) P \<Longrightarrow>
   Bind l a = then_bind (BIND UpdateCBOffset (Position a) (head_of (cb_list P)) a) (\<lambda>a1.
      then_bind (BIND UpdateCJOffset (Position a) (head_of (cj_list P)) a1) (\<lambda>a1.
      then_bind (BIND UpdateBOffset (Position a) (head_of (b_list P)) a1) (\<lambda>a1.
      then_bind (BIND UpdateJOffset (Position a) (head_of (j_list P)) a1) (\<lambda>a1.
      then_bind (BIND UpdateFarOffset (Position a) (head_of (far_list P)) a1) (\<lambda>a1.
        Some (Inr (bound_at (Position a), a1)))))))"
  by (simp add: linked_to_def Bind_def BindTo_def bound_at_def new_label_def Let_def)

text \<open>The error with which binding ends if a branch is out of reach: the compressed branches are resolved first and
  report a fatal error, the others ask for longer branches.\<close>

definition compressed_in_reach :: "int \<Rightarrow> branch_lists \<Rightarrow> bool" where
  "compressed_in_reach target P =
     ((\<forall>(p, f) \<in> set (cb_list P). IsCBImm (offset_between (int p) target)) \<and>
      (\<forall>(p, f) \<in> set (cj_list P). IsCJImm (offset_between (int p) target)))"

lemma Bind_rejects:
  assumes "linked_to l (buffer_m a) P" "disjoint_branches P" "length (buffer_m a) < 2 ^ 31 - 4096"
    and "\<not> in_reach (Position a) P"
  shows "Bind l a = Some (Inl (if compressed_in_reach (Position a) P then BranchOffsetError else Fatal))"
proof (rule ccontr)
  let ?t = "Position a"
  assume no: "\<not> ?thesis"
  note l = linked_toD [OF assms(1)] and d = assms(2) [unfolded disjoint_branches_def]
    and bind = Bind_linked [OF assms(1)]
  have k0: "keeps_outside {} (buffer_m a) (buffer_m a)" and len: "length (buffer_m a) < 2 ^ 31"
    using assms(3) by (simp_all add: keeps_outside_def)
  have d': "{} \<inter> span 2 (cb_list P) = {}" "({} \<union> span 2 (cb_list P)) \<inter> span 2 (cj_list P) = {}"
    "({} \<union> span 2 (cb_list P) \<union> span 2 (cj_list P)) \<inter> span 4 (b_list P) = {}"
    "({} \<union> span 2 (cb_list P) \<union> span 2 (cj_list P) \<union> span 4 (b_list P)) \<inter> span 4 (j_list P) = {}"
    using d by (simp_all add: Int_Un_distrib2)
  obtain b1 where 1: "\<forall>(p, f) \<in> set (cb_list P). IsCBImm (offset_between (int p) ?t)"
    "BIND UpdateCBOffset ?t (head_of (cb_list P)) a = Some (Inr (a\<lparr>buffer_m := b1\<rparr>))"
    "keeps_outside ({} \<union> span 2 (cb_list P)) (buffer_m a) b1"
    using cb_checked.BIND_cases [OF l(1) k0 d'(1) len, of ?t] no
    by (auto simp: bind then_bind_def compressed_in_reach_def split: if_splits)
  obtain b2 where 2: "\<forall>(p, f) \<in> set (cj_list P). IsCJImm (offset_between (int p) ?t)"
    "BIND UpdateCJOffset ?t (head_of (cj_list P)) (a\<lparr>buffer_m := b1\<rparr>) = Some (Inr (a\<lparr>buffer_m := b2\<rparr>))"
    "keeps_outside ({} \<union> span 2 (cb_list P) \<union> span 2 (cj_list P)) (buffer_m a) b2"
    using cj_checked.BIND_cases [OF l(2) _ d'(2) len, of "a\<lparr>buffer_m := b1\<rparr>" ?t] no 1
    by (auto simp: bind then_bind_def compressed_in_reach_def split: if_splits)
  have near: "compressed_in_reach ?t P" using 1(1) 2(1) by (simp add: compressed_in_reach_def)
  obtain b3 where 3: "\<forall>(p, f) \<in> set (b_list P). IsBTypeImm (offset_between (int p) ?t)"
    "BIND UpdateBOffset ?t (head_of (b_list P)) (a\<lparr>buffer_m := b2\<rparr>) = Some (Inr (a\<lparr>buffer_m := b3\<rparr>))"
    "keeps_outside ({} \<union> span 2 (cb_list P) \<union> span 2 (cj_list P) \<union> span 4 (b_list P)) (buffer_m a) b3"
    using b_checked.BIND_cases [OF l(3) _ d'(3) len, of "a\<lparr>buffer_m := b2\<rparr>" ?t] no near 1 2
    by (auto simp: bind then_bind_def)
  have 4: "\<forall>(p, f) \<in> set (j_list P). IsJTypeImm (offset_between (int p) ?t)"
    using j_checked.BIND_cases [OF l(4) _ d'(4) len, of "a\<lparr>buffer_m := b3\<rparr>" ?t] no near 1 2 3
    by (auto simp: bind then_bind_def)
  show False using 1(1) 2(1) 3(1) 4 far_in_reach [OF assms(1,3)] assms(4) unfolding in_reach_def by blast
qed

end
