(* ===== verification/RiscvBranch.thy ===== *)
theory RiscvBranch
  imports RiscvCodegen RiscvLabel
begin

text \<open>
  Comparisons and branches of \<open>class Assembler\<close> in \<^verbatim>\<open>runtime/vm/compiler/assembler/assembler_riscv.cc\<close>. The
  architecture has no condition codes: a comparison is recorded in the assembler and turned into code
  by the instruction that consumes it, a branch, a set or a conditional zero. The arithmetic macros
  that branch on overflow and the range check are here as well.

  \<open>branch_code\<close> says that a macro emits straight-line code followed by a conditional branch, and its
  lemmas derive where control goes for labels that are bound before or afterwards.
\<close>

section \<open>Conditions\<close>

type_synonym Condition = u32

abbreviation (input) EQ :: Condition where "EQ \<equiv> 0"
abbreviation (input) NE :: Condition where "NE \<equiv> 1"
abbreviation (input) CS :: Condition where "CS \<equiv> 2"
abbreviation (input) CC :: Condition where "CC \<equiv> 3"
abbreviation (input) MI :: Condition where "MI \<equiv> 4"
abbreviation (input) PL :: Condition where "PL \<equiv> 5"
abbreviation (input) VS :: Condition where "VS \<equiv> 6"
abbreviation (input) VC :: Condition where "VC \<equiv> 7"
abbreviation (input) HI :: Condition where "HI \<equiv> 8"
abbreviation (input) LS :: Condition where "LS \<equiv> 9"
abbreviation (input) GE :: Condition where "GE \<equiv> 10"
abbreviation (input) LT :: Condition where "LT \<equiv> 11"
abbreviation (input) GT :: Condition where "GT \<equiv> 12"
abbreviation (input) LE :: Condition where "LE \<equiv> 13"

abbreviation (input) EQUAL :: Condition where "EQUAL \<equiv> EQ"
abbreviation (input) ZERO :: Condition where "ZERO \<equiv> EQUAL"
abbreviation (input) NOT_EQUAL :: Condition where "NOT_EQUAL \<equiv> NE"
abbreviation (input) NOT_ZERO :: Condition where "NOT_ZERO \<equiv> NOT_EQUAL"
abbreviation (input) LESS :: Condition where "LESS \<equiv> LT"
abbreviation (input) LESS_EQUAL :: Condition where "LESS_EQUAL \<equiv> LE"
abbreviation (input) GREATER_EQUAL :: Condition where "GREATER_EQUAL \<equiv> GE"
abbreviation (input) GREATER :: Condition where "GREATER \<equiv> GT"
abbreviation (input) UNSIGNED_LESS :: Condition where "UNSIGNED_LESS \<equiv> CC"
abbreviation (input) UNSIGNED_LESS_EQUAL :: Condition where "UNSIGNED_LESS_EQUAL \<equiv> LS"
abbreviation (input) UNSIGNED_GREATER :: Condition where "UNSIGNED_GREATER \<equiv> HI"
abbreviation (input) UNSIGNED_GREATER_EQUAL :: Condition where "UNSIGNED_GREATER_EQUAL \<equiv> CS"
abbreviation (input) OVERFLOW :: Condition where "OVERFLOW \<equiv> VS"
abbreviation (input) NO_OVERFLOW :: Condition where "NO_OVERFLOW \<equiv> VC"

definition InvertCondition :: "Condition \<Rightarrow> Condition" where
  "InvertCondition c = c XOR 1"

section \<open>Derived branch instructions\<close>

definition bgt :: "'z branch" where "bgt rs1 rs2 = blt rs2 rs1"
definition ble :: "'z branch" where "ble rs1 rs2 = bge rs2 rs1"
definition bgtu :: "'z branch" where "bgtu rs1 rs2 = bltu rs2 rs1"
definition bleu :: "'z branch" where "bleu rs1 rs2 = bgeu rs2 rs1"

definition beqz :: "Register \<Rightarrow> Label \<Rightarrow> JumpDistance \<Rightarrow> 'z MicroAssembler_scheme \<Rightarrow> 'z branch_result" where
  "beqz rs label distance = beq rs ZR label distance"

definition bnez :: "Register \<Rightarrow> Label \<Rightarrow> JumpDistance \<Rightarrow> 'z MicroAssembler_scheme \<Rightarrow> 'z branch_result" where
  "bnez rs label distance = bne rs ZR label distance"

definition blez :: "Register \<Rightarrow> Label \<Rightarrow> JumpDistance \<Rightarrow> 'z MicroAssembler_scheme \<Rightarrow> 'z branch_result" where
  "blez rs label distance = bge ZR rs label distance"

definition bgez :: "Register \<Rightarrow> Label \<Rightarrow> JumpDistance \<Rightarrow> 'z MicroAssembler_scheme \<Rightarrow> 'z branch_result" where
  "bgez rs label distance = bge rs ZR label distance"

definition bltz :: "Register \<Rightarrow> Label \<Rightarrow> JumpDistance \<Rightarrow> 'z MicroAssembler_scheme \<Rightarrow> 'z branch_result" where
  "bltz rs label distance = blt rs ZR label distance"

definition bgtz :: "Register \<Rightarrow> Label \<Rightarrow> JumpDistance \<Rightarrow> 'z MicroAssembler_scheme \<Rightarrow> 'z branch_result" where
  "bgtz rs label distance = blt ZR rs label distance"

section \<open>Deferred comparisons\<close>

definition CompareRegisters :: "Register \<Rightarrow> Register \<Rightarrow> 'o Assembler \<Rightarrow> 'o Assembler" where
  "CompareRegisters rn rm a = a\<lparr>deferred_compare_m := kCompareReg, deferred_left_m := rn, deferred_reg_m := rm\<rparr>"

definition CompareObjectRegisters :: "Register \<Rightarrow> Register \<Rightarrow> 'o Assembler \<Rightarrow> 'o Assembler" where
  "CompareObjectRegisters rn rm = CompareRegisters rn rm"

definition TestRegisters :: "Register \<Rightarrow> Register \<Rightarrow> 'o Assembler \<Rightarrow> 'o Assembler" where
  "TestRegisters rn rm a = a\<lparr>deferred_compare_m := kTestReg, deferred_left_m := rn, deferred_reg_m := rm\<rparr>"

definition TestImmediate :: "Register \<Rightarrow> intx \<Rightarrow> OperandSize \<Rightarrow> 'o Assembler \<Rightarrow> 'o Assembler" where
  "TestImmediate rn imm sz a = a\<lparr>deferred_compare_m := kTestImm, deferred_left_m := rn, deferred_imm_m := imm\<rparr>"

definition CompareImmediate :: "Register \<Rightarrow> intx \<Rightarrow> OperandSize \<Rightarrow> 'o Assembler \<Rightarrow> 'o Assembler" where
  "CompareImmediate rn imm sz a = a\<lparr>deferred_compare_m := kCompareImm, deferred_left_m := rn, deferred_imm_m := imm\<rparr>"

type_synonym 'o label_masm = "'o Assembler \<Rightarrow> asm_error + Label \<times> 'o Assembler"

text \<open>The switches of \<open>BranchIf\<close>, on a comparison, on the result of a test, and on a sign bit.\<close>

definition BranchIf_compare :: "Condition \<Rightarrow> Register \<Rightarrow> Register \<Rightarrow> Label \<Rightarrow> JumpDistance \<Rightarrow> 'o label_masm" where
  "BranchIf_compare condition left right label distance a =
     (if condition = EQUAL then beq left right label distance a
      else if condition = NOT_EQUAL then bne left right label distance a
      else if condition = LESS then blt left right label distance a
      else if condition = LESS_EQUAL then ble left right label distance a
      else if condition = GREATER_EQUAL then bge left right label distance a
      else if condition = GREATER then bgt left right label distance a
      else if condition = UNSIGNED_LESS then bltu left right label distance a
      else if condition = UNSIGNED_LESS_EQUAL then bleu left right label distance a
      else if condition = UNSIGNED_GREATER_EQUAL then bgeu left right label distance a
      else if condition = UNSIGNED_GREATER then bgtu left right label distance a
      else if condition = OVERFLOW \<or> condition = NO_OVERFLOW then Inl Fatal
      else Inl Unreachable)"

definition BranchIf_test :: "Condition \<Rightarrow> Label \<Rightarrow> JumpDistance \<Rightarrow> 'o label_masm" where
  "BranchIf_test condition label distance a =
     (if condition = ZERO then beqz TMP2 label distance a
      else if condition = NOT_ZERO then bnez TMP2 label distance a
      else Inl Unreachable)"

definition BranchIf_sign :: "Condition \<Rightarrow> Register \<Rightarrow> Label \<Rightarrow> JumpDistance \<Rightarrow> 'o label_masm" where
  "BranchIf_sign condition sign label distance a =
     (if condition = ZERO then bgez sign label distance a
      else if condition = NOT_ZERO then bltz sign label distance a
      else Inl Unreachable)"

definition consumed :: "(asm_error + Label \<times> 'o Assembler) \<Rightarrow> asm_error + Label \<times> 'o Assembler" where
  "consumed r = and_then r (\<lambda>(label, a). Inr (label, a\<lparr>deferred_compare_m := kNone\<rparr>))"

definition BranchIf :: "Condition \<Rightarrow> Label \<Rightarrow> JumpDistance \<Rightarrow> 'o label_masm" where
  "BranchIf condition label distance a =
     (let left = deferred_left_m a; imm = deferred_imm_m a
      in if deferred_compare_m a = kCompareImm then
           if imm = 0 then consumed (BranchIf_compare condition left ZR label distance a)
           else and_then (LoadImmediate TMP2 imm a) (\<lambda>a.
             consumed (BranchIf_compare condition left TMP2 label distance a))
         else if deferred_compare_m a = kCompareReg then
           consumed (BranchIf_compare condition left (deferred_reg_m a) label distance a)
         else if deferred_compare_m a = kTestReg then
           consumed (BranchIf_test condition label distance (and_r TMP2 left (deferred_reg_m a) a))
         else if deferred_compare_m a = kTestImm then
           if IsITypeImm imm then consumed (BranchIf_test condition label distance (andi TMP2 left imm a))
           else if IsPowerOfTwo imm then
             let shift = ShiftForPowerOfTwo imm
             in if shift = 63 then consumed (BranchIf_sign condition left label distance a)
                else consumed (BranchIf_sign condition TMP2 label distance (slli TMP2 left (of_nat (63 - shift)) a))
           else and_then (AndImmediate TMP2 left imm kEightBytes a) (\<lambda>a.
             consumed (BranchIf_test condition label distance a))
         else Inl Unreachable)"

section \<open>Setting a register\<close>

text \<open>\<open>SetIf\<close> for a comparison of registers, for a comparison with a constant that fits the instructions,
  and for the two tests.\<close>

definition SetIf_reg :: "Condition \<Rightarrow> Register \<Rightarrow> 'o masm" where
  "SetIf_reg condition rd a =
     (let left = deferred_left_m a; right = deferred_reg_m a
      in if condition = EQUAL then
           Inr (if right = ZR then seqz rd left a else seqz rd rd (xor_r rd left right a))
         else if condition = NOT_EQUAL then
           Inr (if right = ZR then snez rd left a else snez rd rd (xor_r rd left right a))
         else if condition = LESS then Inr (slt rd left right a)
         else if condition = LESS_EQUAL then Inr (xori rd rd 1 (slt rd right left a))
         else if condition = GREATER_EQUAL then Inr (xori rd rd 1 (slt rd left right a))
         else if condition = GREATER then Inr (slt rd right left a)
         else if condition = UNSIGNED_LESS then Inr (sltu rd left right a)
         else if condition = UNSIGNED_LESS_EQUAL then Inr (xori rd rd 1 (sltu rd right left a))
         else if condition = UNSIGNED_GREATER_EQUAL then Inr (xori rd rd 1 (sltu rd left right a))
         else if condition = UNSIGNED_GREATER then Inr (sltu rd right left a)
         else Inl Unreachable)"

definition SetIf_imm :: "Condition \<Rightarrow> Register \<Rightarrow> 'o masm" where
  "SetIf_imm condition rd a =
     (let left = deferred_left_m a; right = deferred_imm_m a
      in if condition = EQUAL then Inr (seqz rd rd (subi rd left right a))
         else if condition = NOT_EQUAL then Inr (snez rd rd (subi rd left right a))
         else if condition = LESS then Inr (slti rd left right a)
         else if condition = LESS_EQUAL then Inr (slti rd left (right + 1) a)
         else if condition = GREATER_EQUAL then Inr (xori rd rd 1 (slti rd left right a))
         else if condition = GREATER then Inr (xori rd rd 1 (slti rd left (right + 1) a))
         else if condition = UNSIGNED_LESS then Inr (sltiu rd left right a)
         else if condition = UNSIGNED_LESS_EQUAL then Inr (sltiu rd left (right + 1) a)
         else if condition = UNSIGNED_GREATER_EQUAL then Inr (xori rd rd 1 (sltiu rd left right a))
         else if condition = UNSIGNED_GREATER then Inr (xori rd rd 1 (sltiu rd left (right + 1) a))
         else Inl Unreachable)"

definition SetIf_bit :: "Condition \<Rightarrow> Register \<Rightarrow> 'o masm" where
  "SetIf_bit condition rd a =
     (let left = deferred_left_m a;
          shamt = ShiftForPowerOfTwo (deferred_imm_m a);
          a = (if shamt = 0 then andi rd left 1 a
               else if shamt = 63 then sltz rd left a
               else if Supports a RV_Zbs then bexti rd left (of_nat shamt) a
               else andi rd rd 1 (srli rd left (of_nat shamt) a))
      in if condition = ZERO then Inr (xori rd rd 1 a)
         else if condition = NOT_ZERO then Inr a
         else Inl Unreachable)"

definition SetIf_test :: "Condition \<Rightarrow> Register \<Rightarrow> 'o masm" where
  "SetIf_test condition rd a =
     (if condition = ZERO then Inr (seqz rd rd a)
      else if condition = NOT_ZERO then Inr (snez rd rd a)
      else Inl Unreachable)"

definition consume :: "(asm_error + 'o Assembler) \<Rightarrow> asm_error + 'o Assembler" where
  "consume r = and_then r (\<lambda>a. Inr (a\<lparr>deferred_compare_m := kNone\<rparr>))"

definition SetIf :: "Condition \<Rightarrow> Register \<Rightarrow> 'o masm" where
  "SetIf condition rd a =
     (let imm = deferred_imm_m a
      in if deferred_compare_m a = kCompareImm then
           if imm = 0 then
             consume (SetIf_reg condition rd (a\<lparr>deferred_compare_m := kCompareReg, deferred_reg_m := ZR\<rparr>))
           else if \<not> IsITypeImm imm \<or> \<not> IsITypeImm (imm + 1) then
             and_then (LoadImmediate TMP2 imm a) (\<lambda>a.
               consume (SetIf_reg condition rd (a\<lparr>deferred_compare_m := kCompareReg, deferred_reg_m := TMP2\<rparr>)))
           else consume (SetIf_imm condition rd a)
         else if deferred_compare_m a = kCompareReg then consume (SetIf_reg condition rd a)
         else if deferred_compare_m a = kTestImm then
           if IsPowerOfTwo imm then consume (SetIf_bit condition rd a)
           else and_then (AndImmediate rd (deferred_left_m a) imm kEightBytes a) (\<lambda>a.
             consume (SetIf_test condition rd a))
         else if deferred_compare_m a = kTestReg then
           consume (SetIf_test condition rd (and_r rd (deferred_left_m a) (deferred_reg_m a) a))
         else Inl Unreachable)"

section \<open>Conditional zero\<close>

definition ZeroIf_reg :: "Condition \<Rightarrow> Register \<Rightarrow> Register \<Rightarrow> 'o masm" where
  "ZeroIf_reg condition rd otherwise a =
     (let left = deferred_left_m a; right = deferred_reg_m a
      in if condition = EQUAL then
           Inr (if right = ZR then czeroeqz rd otherwise left a else czeroeqz rd otherwise rd (xor_r rd left right a))
         else if condition = NOT_EQUAL then
           Inr (if right = ZR then czeronez rd otherwise left a else czeronez rd otherwise rd (xor_r rd left right a))
         else if condition = LESS then Inr (czeronez rd otherwise rd (slt rd left right a))
         else if condition = LESS_EQUAL then Inr (czeroeqz rd otherwise rd (slt rd right left a))
         else if condition = GREATER_EQUAL then Inr (czeroeqz rd otherwise rd (slt rd left right a))
         else if condition = GREATER then Inr (czeronez rd otherwise rd (slt rd right left a))
         else if condition = UNSIGNED_LESS then Inr (czeronez rd otherwise rd (sltu rd left right a))
         else if condition = UNSIGNED_LESS_EQUAL then Inr (czeroeqz rd otherwise rd (sltu rd right left a))
         else if condition = UNSIGNED_GREATER_EQUAL then Inr (czeroeqz rd otherwise rd (sltu rd left right a))
         else if condition = UNSIGNED_GREATER then Inr (czeronez rd otherwise rd (sltu rd right left a))
         else Inl Unreachable)"

definition ZeroIf_imm :: "Condition \<Rightarrow> Register \<Rightarrow> Register \<Rightarrow> 'o masm" where
  "ZeroIf_imm condition rd otherwise a =
     (let left = deferred_left_m a; right = deferred_imm_m a
      in if condition = EQUAL then Inr (czeroeqz rd otherwise rd (subi rd left right a))
         else if condition = NOT_EQUAL then Inr (czeronez rd otherwise rd (subi rd left right a))
         else if condition = LESS then Inr (czeronez rd otherwise rd (slti rd left right a))
         else if condition = LESS_EQUAL then Inr (czeronez rd otherwise rd (slti rd left (right + 1) a))
         else if condition = GREATER_EQUAL then Inr (czeroeqz rd otherwise rd (slti rd left right a))
         else if condition = GREATER then Inr (czeroeqz rd otherwise rd (slti rd left (right + 1) a))
         else if condition = UNSIGNED_LESS then Inr (czeronez rd otherwise rd (sltiu rd left right a))
         else if condition = UNSIGNED_LESS_EQUAL then Inr (czeronez rd otherwise rd (sltiu rd left (right + 1) a))
         else if condition = UNSIGNED_GREATER_EQUAL then Inr (czeroeqz rd otherwise rd (sltiu rd left right a))
         else if condition = UNSIGNED_GREATER then Inr (czeroeqz rd otherwise rd (sltiu rd left (right + 1) a))
         else Inl Unreachable)"

definition ZeroIf_test :: "Condition \<Rightarrow> Register \<Rightarrow> Register \<Rightarrow> 'o masm" where
  "ZeroIf_test condition rd otherwise a =
     (if condition = ZERO then Inr (czeroeqz rd otherwise rd a)
      else if condition = NOT_ZERO then Inr (czeronez rd otherwise rd a)
      else Inl Unreachable)"

definition ZeroIf_mask :: "Register \<Rightarrow> 'o masm" where
  "ZeroIf_mask rd a =
     (let left = deferred_left_m a; imm = deferred_imm_m a
      in if IsITypeImm imm then Inr (andi rd left imm a)
         else if IsPowerOfTwo imm then
           let shamt = ShiftForPowerOfTwo imm
           in Inr (if shamt = 63 then sltz rd left a
                   else if Supports a RV_Zbs then bexti rd left (of_nat shamt) a
                   else andi rd rd 1 (srli rd left (of_nat shamt) a))
         else AndImmediate rd left imm kEightBytes a)"

definition ZeroIf :: "Condition \<Rightarrow> Register \<Rightarrow> Register \<Rightarrow> 'o masm" where
  "ZeroIf condition rd otherwise a =
     (let imm = deferred_imm_m a
      in if deferred_compare_m a = kCompareImm then
           if imm = 0 then
             consume (ZeroIf_reg condition rd otherwise (a\<lparr>deferred_compare_m := kCompareReg, deferred_reg_m := ZR\<rparr>))
           else if \<not> IsITypeImm imm \<or> \<not> IsITypeImm (imm + 1) then
             and_then (LoadImmediate TMP2 imm a) (\<lambda>a.
               consume (ZeroIf_reg condition rd otherwise (a\<lparr>deferred_compare_m := kCompareReg, deferred_reg_m := TMP2\<rparr>)))
           else consume (ZeroIf_imm condition rd otherwise a)
         else if deferred_compare_m a = kCompareReg then consume (ZeroIf_reg condition rd otherwise a)
         else if deferred_compare_m a = kTestImm then
           and_then (ZeroIf_mask rd a) (\<lambda>a. consume (ZeroIf_test condition rd otherwise a))
         else if deferred_compare_m a = kTestReg then
           consume (ZeroIf_test condition rd otherwise (and_r rd (deferred_left_m a) (deferred_reg_m a) a))
         else Inl Unreachable)"

section \<open>Branches on tags, bits, overflow and ranges\<close>

definition BranchIfZero :: "Register \<Rightarrow> Label \<Rightarrow> JumpDistance \<Rightarrow> 'o label_masm" where
  "BranchIfZero rn label distance a = beqz rn label distance a"

definition BranchIfBit :: "Register \<Rightarrow> nat \<Rightarrow> Condition \<Rightarrow> Label \<Rightarrow> JumpDistance \<Rightarrow> 'o label_masm" where
  "BranchIfBit rn bit_number condition label distance a =
     (let a = andi TMP2 rn (push_bit bit_number 1) a
      in if condition = ZERO then beqz TMP2 label distance a
         else if condition = NOT_ZERO then bnez TMP2 label distance a
         else Inl Unreachable)"

abbreviation (input) kSmiTagMask :: intx where "kSmiTagMask \<equiv> 1"

definition BranchIfNotSmi :: "Register \<Rightarrow> Label \<Rightarrow> JumpDistance \<Rightarrow> 'o label_masm" where
  "BranchIfNotSmi reg label distance a = bnez TMP2 label distance (andi TMP2 reg kSmiTagMask a)"

definition BranchIfSmi :: "Register \<Rightarrow> Label \<Rightarrow> JumpDistance \<Rightarrow> 'o label_masm" where
  "BranchIfSmi reg label distance a = beqz TMP2 label distance (andi TMP2 reg kSmiTagMask a)"

definition AddImmediateBranchOverflow :: "Register \<Rightarrow> Register \<Rightarrow> intx \<Rightarrow> Label \<Rightarrow> 'o label_masm" where
  "AddImmediateBranchOverflow rd rs1 imm overflow a =
     (if rd = rs1 then
        and_then (RiscvCodegen.AddImmediate rd rs1 imm kEightBytes (mv TMP2 rs1 a)) (\<lambda>a.
          if sint imm > 0 then blt rd TMP2 overflow kFarJump a
          else if sint imm < 0 then bgt rd TMP2 overflow kFarJump a
          else Inr (overflow, a))
      else
        and_then (RiscvCodegen.AddImmediate rd rs1 imm kEightBytes a) (\<lambda>a.
          if sint imm > 0 then blt rd rs1 overflow kFarJump a
          else if sint imm < 0 then bgt rd rs1 overflow kFarJump a
          else Inr (overflow, a)))"

definition SubtractImmediateBranchOverflow :: "Register \<Rightarrow> Register \<Rightarrow> intx \<Rightarrow> Label \<Rightarrow> 'o label_masm" where
  "SubtractImmediateBranchOverflow rd rs1 imm overflow = AddImmediateBranchOverflow rd rs1 (- imm) overflow"

definition MultiplyImmediateBranchOverflow :: "Register \<Rightarrow> Register \<Rightarrow> intx \<Rightarrow> Label \<Rightarrow> 'o label_masm" where
  "MultiplyImmediateBranchOverflow rd rs1 imm overflow a =
     and_then (LoadImmediate TMP2 imm a) (\<lambda>a.
       let a = mulh TMP rs1 TMP2 a;
           a = mul rd rs1 TMP2 a;
           a = srai TMP2 rd 63 a
       in bne TMP TMP2 overflow kFarJump a)"

definition AddBranchOverflow :: "Register \<Rightarrow> Register \<Rightarrow> Register \<Rightarrow> Label \<Rightarrow> 'o label_masm" where
  "AddBranchOverflow rd rs1 rs2 overflow a =
     (if rd = rs1 \<and> rd = rs2 then
        bltz TMP overflow kFarJump (xor_r TMP TMP rd (add rd rs1 rs2 (mv TMP rs1 a)))
      else if rs1 = rs2 then
        bltz TMP overflow kFarJump (xor_r TMP rd rs1 (add rd rs1 rs2 a))
      else if rd = rs1 then
        bne TMP TMP2 overflow kFarJump (slt TMP2 rd rs2 (add rd rs1 rs2 (slti TMP rs1 0 a)))
      else if rd = rs2 then
        bne TMP TMP2 overflow kFarJump (slt TMP2 rd rs1 (add rd rs1 rs2 (slti TMP rs2 0 a)))
      else
        bne TMP TMP2 overflow kFarJump (slt TMP2 rd rs1 (slti TMP rs2 0 (add rd rs1 rs2 a))))"

definition SubtractBranchOverflow :: "Register \<Rightarrow> Register \<Rightarrow> Register \<Rightarrow> Label \<Rightarrow> 'o label_masm" where
  "SubtractBranchOverflow rd rs1 rs2 overflow a =
     (if rd = rs1 \<and> rd = rs2 then
        bltz TMP overflow kFarJump (xor_r TMP TMP rd (sub rd rs1 rs2 (mv TMP rs1 a)))
      else if rs1 = rs2 then
        bltz TMP overflow kFarJump (xor_r TMP rd rs1 (sub rd rs1 rs2 a))
      else if rd = rs1 then
        bne TMP TMP2 overflow kFarJump (slt TMP2 rd rs2 (sub rd rs1 rs2 (slti TMP rs1 0 a)))
      else if rd = rs2 then
        bne TMP TMP2 overflow kFarJump (slt TMP2 rd rs1 (sub rd rs1 rs2 (slti TMP rs2 0 a)))
      else
        bne TMP TMP2 overflow kFarJump (slt TMP2 rs1 rd (slti TMP rs2 0 (sub rd rs1 rs2 a))))"

definition MultiplyBranchOverflow :: "Register \<Rightarrow> Register \<Rightarrow> Register \<Rightarrow> Label \<Rightarrow> 'o label_masm" where
  "MultiplyBranchOverflow rd rs1 rs2 overflow a =
     (let a = mulh TMP rs1 rs2 a;
          a = mul rd rs1 rs2 a;
          a = srai TMP2 rd 63 a
      in bne TMP TMP2 overflow kFarJump a)"

datatype RangeCheckCondition = kIfNotInRange | kIfInRange

definition RangeCheck ::
    "Register \<Rightarrow> Register option \<Rightarrow> intx \<Rightarrow> intx \<Rightarrow> RangeCheckCondition \<Rightarrow> Label \<Rightarrow> 'o label_masm" where
  "RangeCheck value temp low high condition target a =
     (let cc = (if condition = kIfInRange then LS else HI);
          to_check = (case temp of Some t \<Rightarrow> t | None \<Rightarrow> value)
      in and_then (RiscvCodegen.AddImmediate to_check value (- low) kEightBytes a) (\<lambda>a.
           BranchIf cc target kFarJump (CompareImmediate to_check (high - low) kEightBytes a)))"

section \<open>Straight-line code followed by a branch\<close>

text \<open>\<open>transfers bs g c d K\<close>: the code runs to its end, or to distance \<open>d\<close> from its start if \<open>c\<close> holds
  of the registers it started with, and changes the registers outside \<open>K\<close> by \<open>g\<close>.\<close>

definition transfers :: "u8 list \<Rightarrow> (regs \<Rightarrow> regs) \<Rightarrow> (regs \<Rightarrow> bool) \<Rightarrow> intx \<Rightarrow> Register set \<Rightarrow> bool" where
  "transfers bs g c d K =
     (\<forall>h s. code_at bs (host_m (memory_m s)) (pc_m s) \<longrightarrow> zr_zero s \<longrightarrow> \<not> lp_enabled_m s \<longrightarrow>
        (\<exists>n R. run h n s = Inr (s\<lparr>pc_m := pc_m s + (if c (xregs_m s) then d else of_nat (length bs)),
                  xregs_m := R, instret_m := instret_m s + of_nat n\<rparr>) \<and>
               R ZR = 0 \<and> (\<forall>r. r \<notin> K \<longrightarrow> R r = g (xregs_m s) r)))"

lemma transfers_goes: "goes bs c d K = transfers bs (\<lambda>R. R) c d K"
  by (simp add: goes_def transfers_def)

lemma transfers_cong:
  assumes "transfers bs g c d K" "K \<subseteq> K'" "d = d'"
    and "\<And>R. R ZR = 0 \<Longrightarrow> c R = c' R" "\<And>R r. R ZR = 0 \<Longrightarrow> r \<notin> K' \<Longrightarrow> g R r = g' R r"
  shows "transfers bs g' c' d' K'"
  unfolding transfers_def
proof (intro allI impI)
  fix h s
  assume s: "code_at bs (host_m (memory_m s)) (pc_m s)" "zr_zero s" "\<not> lp_enabled_m s"
  obtain n R where "run h n s = Inr (s\<lparr>pc_m := pc_m s + (if c (xregs_m s) then d else of_nat (length bs)),
        xregs_m := R, instret_m := instret_m s + of_nat n\<rparr>)" "R ZR = 0" "\<forall>r. r \<notin> K \<longrightarrow> R r = g (xregs_m s) r"
    using assms(1) [unfolded transfers_def, rule_format, OF s] by blast
  then show "\<exists>n R. run h n s = Inr (s\<lparr>pc_m := pc_m s + (if c' (xregs_m s) then d' else of_nat (length bs)),
        xregs_m := R, instret_m := instret_m s + of_nat n\<rparr>) \<and> R ZR = 0 \<and> (\<forall>r. r \<notin> K' \<longrightarrow> R r = g' (xregs_m s) r)"
    using assms(2-5) s(2) by (intro exI [of _ n] exI [of _ R]) (auto simp: zr_zero_def)
qed

lemma executes_transfers:
  assumes "executes bs g" "transfers cs g' c d K" "\<And>R. R ZR = 0 \<Longrightarrow> g R ZR = 0"
  shows "transfers (bs @ cs) (\<lambda>R. g' (g R)) (\<lambda>R. c (g R)) (of_nat (length bs) + d) K"
  unfolding transfers_def
proof (intro allI impI)
  fix h s
  assume s: "code_at (bs @ cs) (host_m (memory_m s)) (pc_m s)" "zr_zero s" "\<not> lp_enabled_m s"
  obtain n where n: "run h n s = Inr (retire n (length bs) g s)"
    using assms(1) s(1,2) unfolding executes_def code_at_append by blast
  let ?t = "retire n (length bs) g s"
  have t: "code_at cs (host_m (memory_m ?t)) (pc_m ?t)" "zr_zero ?t" "\<not> lp_enabled_m ?t"
    using s assms(3) by (simp_all add: retire_def code_at_append zr_zero_def)
  obtain m R where m: "run h m ?t = Inr (?t\<lparr>pc_m := pc_m ?t + (if c (xregs_m ?t) then d else of_nat (length cs)),
        xregs_m := R, instret_m := instret_m ?t + of_nat m\<rparr>)" "R ZR = 0" "\<forall>r. r \<notin> K \<longrightarrow> R r = g' (xregs_m ?t) r"
    using assms(2) [unfolded transfers_def, rule_format, OF t] by blast
  have "run h (n + m) s = Inr (s\<lparr>pc_m := pc_m s + (if c (g (xregs_m s)) then of_nat (length bs) + d else of_nat (length (bs @ cs))),
        xregs_m := R, instret_m := instret_m s + of_nat (n + m)\<rparr>)"
    using n m(1) by (simp add: run_add retire_def add.assoc)
  then show "\<exists>n R. run h n s = Inr (s\<lparr>pc_m := pc_m s + (if c (g (xregs_m s)) then of_nat (length bs) + d else of_nat (length (bs @ cs))),
        xregs_m := R, instret_m := instret_m s + of_nat n\<rparr>) \<and> R ZR = 0 \<and> (\<forall>r. r \<notin> K \<longrightarrow> R r = g' (g (xregs_m s)) r)"
    using m(2,3) by (intro exI [of _ "n + m"] exI [of _ R]) (simp add: retire_def)
qed

text \<open>\<open>branch_code a distance F g c K\<close>: for every label, \<open>F\<close> emits code that changes the registers outside \<open>K\<close> by \<open>g\<close>
  and then one conditional branch to the label, which is taken if \<open>c\<close> holds. The branch
  instruction is characterised by its contract only.\<close>

definition branch_code ::
    "'o Assembler \<Rightarrow> JumpDistance \<Rightarrow> (Label \<Rightarrow> asm_error + Label \<times> 'o Assembler) \<Rightarrow> (regs \<Rightarrow> regs) \<Rightarrow> (regs \<Rightarrow> bool) \<Rightarrow>
     Register set \<Rightarrow> bool" where
  "branch_code a distance F g c K =
     (\<exists>(b :: 'o Assembler) bs g' emit func rs1 rs2 (upd :: 'o Assembler \<Rightarrow> 'o Assembler).
        buffer_m b = buffer_m a @ bs \<and> far_branch_level_m b = far_branch_level_m a \<and> executes bs g' \<and>
        branch_instruction emit func \<and>
        (\<forall>R. R ZR = 0 \<longrightarrow> g' R ZR = 0 \<and> taken func (g' R rs1) (g' R rs2) = c R \<and> (\<forall>r. r \<notin> K \<longrightarrow> g' R r = g R r)) \<and>
        (\<forall>x. buffer_m (upd x) = buffer_m x) \<and>
        (\<forall>label. F label = and_then (emit rs1 rs2 label distance b) (\<lambda>(l, x). Inr (l, upd x))))"

lemma branch_codeE:
  fixes a :: "'o Assembler"
  assumes "branch_code a distance F g c K"
  obtains b :: "'o Assembler" and bs g' emit func rs1 rs2 and upd :: "'o Assembler \<Rightarrow> 'o Assembler" where "buffer_m b = buffer_m a @ bs" "far_branch_level_m b = far_branch_level_m a"
    "executes bs g'" "branch_instruction emit func" "\<And>R. R ZR = 0 \<Longrightarrow> g' R ZR = 0"
    "\<And>R. R ZR = 0 \<Longrightarrow> taken func (g' R rs1) (g' R rs2) = c R" "\<And>R r. R ZR = 0 \<Longrightarrow> r \<notin> K \<Longrightarrow> g' R r = g R r"
    "\<And>x. buffer_m (upd x) = buffer_m x"
    "\<And>label. F label = and_then (emit rs1 rs2 label distance b) (\<lambda>(l, x). Inr (l, upd x))"
  using assms unfolding branch_code_def
proof (elim exE conjE)
  fix b :: "'o Assembler" and bs g' emit func rs1 rs2 and upd :: "'o Assembler \<Rightarrow> 'o Assembler"
  assume *: "\<forall>R. R ZR = 0 \<longrightarrow> g' R ZR = 0 \<and> taken func (g' R rs1) (g' R rs2) = c R \<and> (\<forall>r. r \<notin> K \<longrightarrow> g' R r = g R r)"
    "\<forall>x. buffer_m (upd x) = buffer_m x"
    "\<forall>label. F label = and_then (emit rs1 rs2 label distance b) (\<lambda>(l, x). Inr (l, upd x))"
  assume b: "buffer_m b = buffer_m a @ bs" "far_branch_level_m b = far_branch_level_m a" "executes bs g'" "branch_instruction emit func"
  show thesis
    by (rule that [OF b]) (use * in simp_all)
qed

lemma branch_codeI_bytes:
  fixes a b :: "'o Assembler" and upd :: "'o Assembler \<Rightarrow> 'o Assembler"
  assumes "buffer_m b = buffer_m a @ bs" "far_branch_level_m b = far_branch_level_m a" "executes bs g'" "branch_instruction emit func"
    and "\<And>R. R ZR = 0 \<Longrightarrow> g' R ZR = 0" "\<And>R. R ZR = 0 \<Longrightarrow> taken func (g' R rs1) (g' R rs2) = c R"
    and "\<And>R r. R ZR = 0 \<Longrightarrow> r \<notin> K \<Longrightarrow> g' R r = g R r" "\<And>x. buffer_m (upd x) = buffer_m x"
    and "\<And>label. F label = and_then (emit rs1 rs2 label distance b) (\<lambda>(l, x). Inr (l, upd x))"
  shows "branch_code a distance F g c K"
  unfolding branch_code_def
  by (rule exI [of _ b], rule exI [of _ bs], rule exI [of _ g'], rule exI [of _ emit], rule exI [of _ func], rule exI [of _ rs1],
      rule exI [of _ rs2], rule exI [of _ upd]) (use assms in simp)

lemma branch_codeI:
  fixes a b :: "'o Assembler" and upd :: "'o Assembler \<Rightarrow> 'o Assembler"
  assumes "computes a b g'" "branch_instruction emit func"
    and "\<And>R. R ZR = 0 \<Longrightarrow> g' R ZR = 0" "\<And>R. R ZR = 0 \<Longrightarrow> taken func (g' R rs1) (g' R rs2) = c R"
    and "\<And>R r. R ZR = 0 \<Longrightarrow> r \<notin> K \<Longrightarrow> g' R r = g R r" "\<And>x. buffer_m (upd x) = buffer_m x"
    and "\<And>label. F label = and_then (emit rs1 rs2 label distance b) (\<lambda>(l, x). Inr (l, upd x))"
  shows "branch_code a distance F g c K"
proof -
  obtain bs where "b = a\<lparr>buffer_m := buffer_m a @ bs\<rparr>" "executes bs g'" using assms(1) by (auto simp: computes_def)
  then show ?thesis by (intro branch_codeI_bytes [OF _ _ _ assms(2-7)]) simp_all
qed

lemma branch_code_cong:
  fixes a :: "'o Assembler"
  assumes "branch_code a distance F g c K" "K \<subseteq> K'" "\<And>label. F label = F' label"
    and "\<And>R. R ZR = 0 \<Longrightarrow> c R = c' R" "\<And>R r. R ZR = 0 \<Longrightarrow> r \<notin> K' \<Longrightarrow> g R r = g' R r"
  shows "branch_code a distance F' g' c' K'"
  using assms(1)
proof (rule branch_codeE)
  fix b :: "'o Assembler" and bs h emit func rs1 rs2 and upd :: "'o Assembler \<Rightarrow> 'o Assembler"
  assume b: "buffer_m b = buffer_m a @ bs" "far_branch_level_m b = far_branch_level_m a" "executes bs h"
    "branch_instruction emit func" "\<And>R. R ZR = 0 \<Longrightarrow> h R ZR = 0"
    "\<And>R. R ZR = 0 \<Longrightarrow> taken func (h R rs1) (h R rs2) = c R" "\<And>R r. R ZR = 0 \<Longrightarrow> r \<notin> K \<Longrightarrow> h R r = g R r"
    "\<And>x. buffer_m (upd x) = buffer_m x"
    "\<And>label. F label = and_then (emit rs1 rs2 label distance b) (\<lambda>(l, x). Inr (l, upd x))"
  have "h R r = g' R r" if "R ZR = 0" "r \<notin> K'" for R r
  proof -
    have "r \<notin> K" using that(2) assms(2) by blast
    then show ?thesis using b(7) [of R r] assms(5) [of R r] that by simp
  qed
  then show ?thesis
    by (intro branch_codeI_bytes [OF b(1-5)]) (use b(6,8,9) assms(4) in \<open>simp_all flip: assms(3)\<close>)
qed

lemma branch_code_after:
  fixes a b b' :: "'o Assembler"
  assumes "computes a b g0" "\<And>R. R ZR = 0 \<Longrightarrow> g0 R ZR = 0"
    and "buffer_m b' = buffer_m b" "far_branch_level_m b' = far_branch_level_m b" "branch_code b' distance F g c K"
  shows "branch_code a distance F (\<lambda>R. g (g0 R)) (\<lambda>R. c (g0 R)) K"
  using assms(5)
proof (rule branch_codeE)
  fix d :: "'o Assembler" and bs h emit func rs1 rs2 and upd :: "'o Assembler \<Rightarrow> 'o Assembler"
  assume d: "buffer_m d = buffer_m b' @ bs" "far_branch_level_m d = far_branch_level_m b'" "executes bs h"
    "branch_instruction emit func" "\<And>R. R ZR = 0 \<Longrightarrow> h R ZR = 0"
    "\<And>R. R ZR = 0 \<Longrightarrow> taken func (h R rs1) (h R rs2) = c R" "\<And>R r. R ZR = 0 \<Longrightarrow> r \<notin> K \<Longrightarrow> h R r = g R r"
    "\<And>x. buffer_m (upd x) = buffer_m x"
    "\<And>label. F label = and_then (emit rs1 rs2 label distance d) (\<lambda>(l, x). Inr (l, upd x))"
  obtain cs where cs: "b = a\<lparr>buffer_m := buffer_m a @ cs\<rparr>" "executes cs g0" using assms(1) by (auto simp: computes_def)
  show ?thesis
    by (rule branch_codeI_bytes [OF _ _ executes_append [OF cs(2) d(3) assms(2)] d(4)]) (use d cs(1) assms(2-4) in simp_all)
qed

lemma branch_code_fresh:
  fixes a :: "'o Assembler"
  assumes "branch_code a distance F g c K"
  shows "\<exists>r. F new_label = Inr r"
  using assms
proof (rule branch_codeE)
  fix b :: "'o Assembler" and emit func rs1 rs2 and upd :: "'o Assembler \<Rightarrow> 'o Assembler"
  assume i: "branch_instruction emit func"
    and F: "\<And>label. F label = and_then (emit rs1 rs2 label distance b) (\<lambda>(l, x). Inr (l, upd x))"
  obtain r where "emit rs1 rs2 new_label distance b = Inr r" using branch_instruction.fresh [OF i] by blast
  then show ?thesis by (simp add: F and_then_def split: prod.split)
qed

lemma transfers_branch:
  assumes "executes bs g'" "\<And>R. R ZR = 0 \<Longrightarrow> g' R ZR = 0" "\<And>R. R ZR = 0 \<Longrightarrow> taken func (g' R rs1) (g' R rs2) = c R"
    and "\<And>R r. R ZR = 0 \<Longrightarrow> r \<notin> K \<Longrightarrow> g' R r = g R r"
    and "goes cs (\<lambda>R. taken func (R rs1) (R rs2)) (offset_between (p + int (length bs)) target) {FAR_TMP}"
  shows "transfers (bs @ cs) g c (offset_between p target) (insert FAR_TMP K)"
proof (rule transfers_cong [OF executes_transfers [OF assms(1) assms(5) [unfolded transfers_goes] assms(2)]])
  show "of_nat (length bs) + offset_between (p + int (length bs)) target = offset_between p target"
    by (simp add: offset_between_def)
qed (use assms(3,4) in auto)

lemma branch_code_forward:
  fixes a :: "'o Assembler"
  assumes "branch_code a distance F g c K" "F new_label = Inr (l1, a1)" "buffer_m a2 = buffer_m a1 @ cs"
    and "length (buffer_m a2) < 2 ^ 31"
    and "\<And>p. Position a \<le> p \<Longrightarrow> p \<le> Position a1 \<Longrightarrow> even (p - Position a) \<Longrightarrow>
      reachable distance a (offset_between p (Position a2))"
  shows "\<exists>bs. Bind l1 a2 = Some (Inr (bound_at (Position a2), a2\<lparr>buffer_m := buffer_m a @ bs @ cs\<rparr>)) \<and>
    length (buffer_m a @ bs) = length (buffer_m a1) \<and>
    transfers bs g c (offset_between (Position a) (Position a2)) (insert FAR_TMP K)"
proof -
  obtain b :: "'o Assembler" and bs g' emit func rs1 rs2 and upd :: "'o Assembler \<Rightarrow> 'o Assembler" where b: "buffer_m b = buffer_m a @ bs" "far_branch_level_m b = far_branch_level_m a"
    "executes bs g'" and i: "branch_instruction emit func" and R: "\<And>R. R ZR = 0 \<Longrightarrow> g' R ZR = 0"
    "\<And>R. R ZR = 0 \<Longrightarrow> taken func (g' R rs1) (g' R rs2) = c R" "\<And>R r. R ZR = 0 \<Longrightarrow> r \<notin> K \<Longrightarrow> g' R r = g R r"
    and upd: "\<And>x. buffer_m (upd x) = buffer_m x"
    and F: "\<And>label. F label = and_then (emit rs1 rs2 label distance b) (\<lambda>(l, x). Inr (l, upd x))"
    by (rule branch_codeE [OF assms(1)], rule that)
  obtain b1 where b1: "emit rs1 rs2 new_label distance b = Inr (l1, b1)" "a1 = upd b1"
    using assms(2) F by (auto simp: and_then_def split: sum.splits)
  have p: "Position b = Position a + int (length bs)" by (simp add: Position_def b(1))
  have a2: "buffer_m a2 = buffer_m b1 @ cs" using assms(3) b1(2) upd by simp
  have le: "length (buffer_m b) \<le> length (buffer_m b1)"
    using branch_instruction.appends [OF i b1(1)] by auto
  have "reachable distance b (offset_between (Position b) (Position a2))"
  proof -
    have "even (length bs)" using b(3) by (simp add: executes_def)
    then have "reachable distance a (offset_between (Position b) (Position a2))"
      using le by (intro assms(5)) (simp_all add: p Position_def b1(2) upd b(1))
    then show ?thesis by (simp add: reachable_def b(2))
  qed
  from branch_instruction.forward_then_bind [OF i a2 b1(1) assms(4) reachable_branch_reach [OF this]]
  obtain cs' where c: "Bind l1 a2 = Some (Inr (bound_at (Position a2), a2\<lparr>buffer_m := buffer_m b @ cs' @ cs\<rparr>))"
    "length (buffer_m b @ cs') = length (buffer_m b1)"
    "goes cs' (\<lambda>R. taken func (R rs1) (R rs2)) (offset_between (Position b) (Position a2)) {FAR_TMP}" by blast
  have "transfers (bs @ cs') g c (offset_between (Position a) (Position a2)) (insert FAR_TMP K)"
    by (rule transfers_branch [OF b(3) R]) (use c(3) p in simp_all)
  then show ?thesis using c(1,2) b(1) b1(2) upd by (intro exI [of _ "bs @ cs'"]) simp
qed

lemma branch_code_backward:
  fixes a :: "'o Assembler"
  assumes "branch_code a distance F g c K" "IsBound label" "F label = Inr (l', a')"
    and "\<And>p. Position a \<le> p \<Longrightarrow> p \<le> Position a' \<Longrightarrow> even (p - Position a) \<Longrightarrow>
      back_distance p (position_m label) \<and> back_reach distance (offset_between p (position_m label))"
  shows "l' = label \<and> (\<exists>bs. buffer_m a' = buffer_m a @ bs \<and>
    transfers bs g c (offset_between (Position a) (position_m label)) (insert FAR_TMP K))"
proof -
  obtain b :: "'o Assembler" and bs g' emit func rs1 rs2 and upd :: "'o Assembler \<Rightarrow> 'o Assembler" where b: "buffer_m b = buffer_m a @ bs" "far_branch_level_m b = far_branch_level_m a"
    "executes bs g'" and i: "branch_instruction emit func" and R: "\<And>R. R ZR = 0 \<Longrightarrow> g' R ZR = 0"
    "\<And>R. R ZR = 0 \<Longrightarrow> taken func (g' R rs1) (g' R rs2) = c R" "\<And>R r. R ZR = 0 \<Longrightarrow> r \<notin> K \<Longrightarrow> g' R r = g R r"
    and upd: "\<And>x. buffer_m (upd x) = buffer_m x"
    and F: "\<And>label. F label = and_then (emit rs1 rs2 label distance b) (\<lambda>(l, x). Inr (l, upd x))"
    by (rule branch_codeE [OF assms(1)], rule that)
  obtain b1 where b1: "emit rs1 rs2 label distance b = Inr (l', b1)" "a' = upd b1"
    using assms(3) F by (auto simp: and_then_def split: sum.splits)
  have p: "Position b = Position a + int (length bs)" by (simp add: Position_def b(1))
  have le: "length (buffer_m b) \<le> length (buffer_m b1)"
    using branch_instruction.appends [OF i b1(1)] by auto
  have "even (length bs)" using b(3) by (simp add: executes_def)
  then have "back_distance (Position b) (position_m label) \<and> back_reach distance (offset_between (Position b) (position_m label))"
    using le by (intro assms(4)) (simp_all add: p Position_def b1(2) upd b(1))
  then obtain cs where c: "emit rs1 rs2 label distance b = Inr (label, b\<lparr>buffer_m := buffer_m b @ cs\<rparr>)"
    "goes cs (\<lambda>R. taken func (R rs1) (R rs2)) (offset_between (Position b) (position_m label)) {FAR_TMP}"
    using branch_instruction.backward [OF i assms(2), of b rs1 rs2 distance] back_reach_branch by blast
  have "transfers (bs @ cs) g c (offset_between (Position a) (position_m label)) (insert FAR_TMP K)"
    by (rule transfers_branch [OF b(3) R]) (use c(2) p in simp_all)
  then show ?thesis using c(1) b1 b(1) upd by (intro conjI exI [of _ "bs @ cs"]) auto
qed

section \<open>What a deferred comparison means\<close>

text \<open>The conditions that a comparison answers, and those that a test answers.\<close>

definition comparison :: "Condition \<Rightarrow> bool" where
  "comparison c \<longleftrightarrow> c \<in> {EQUAL, NOT_EQUAL, LESS, LESS_EQUAL, GREATER_EQUAL, GREATER,
     UNSIGNED_LESS, UNSIGNED_LESS_EQUAL, UNSIGNED_GREATER_EQUAL, UNSIGNED_GREATER}"

definition test_condition :: "Condition \<Rightarrow> bool" where
  "test_condition c \<longleftrightarrow> c \<in> {ZERO, NOT_ZERO}"

definition compare_holds :: "Condition \<Rightarrow> u64 \<Rightarrow> u64 \<Rightarrow> bool" where
  "compare_holds c x y =
     (if c = EQUAL then x = y
      else if c = NOT_EQUAL then x \<noteq> y
      else if c = LESS then sint x < sint y
      else if c = LESS_EQUAL then sint x \<le> sint y
      else if c = GREATER_EQUAL then sint y \<le> sint x
      else if c = GREATER then sint y < sint x
      else if c = UNSIGNED_LESS then x < y
      else if c = UNSIGNED_LESS_EQUAL then x \<le> y
      else if c = UNSIGNED_GREATER_EQUAL then y \<le> x
      else y < x)"

definition test_holds :: "Condition \<Rightarrow> u64 \<Rightarrow> bool" where
  "test_holds c x = (if c = ZERO then x = 0 else x \<noteq> 0)"

text \<open>Whether the comparison recorded in the assembler holds of the registers.\<close>

definition deferred_holds :: "'o Assembler \<Rightarrow> Condition \<Rightarrow> regs \<Rightarrow> bool" where
  "deferred_holds a c R =
     (case deferred_compare_m a of
        kCompareReg \<Rightarrow> compare_holds c (R (deferred_left_m a)) (R (deferred_reg_m a))
      | kCompareImm \<Rightarrow> compare_holds c (R (deferred_left_m a)) (deferred_imm_m a)
      | kTestReg \<Rightarrow> test_holds c (R (deferred_left_m a) AND R (deferred_reg_m a))
      | kTestImm \<Rightarrow> test_holds c (R (deferred_left_m a) AND deferred_imm_m a)
      | _ \<Rightarrow> False)"

text \<open>The recorded comparison answers the condition, and a constant that has to be loaded can be, without
  destroying the left operand.\<close>

definition answers :: "'o Assembler \<Rightarrow> Condition \<Rightarrow> bool" where
  "answers a c =
     (case deferred_compare_m a of
        kCompareReg \<Rightarrow> comparison c
      | kCompareImm \<Rightarrow> comparison c
      | kTestReg \<Rightarrow> test_condition c
      | kTestImm \<Rightarrow> test_condition c
      | _ \<Rightarrow> False)"

definition loadable :: "'o Assembler \<Rightarrow> bool" where
  "loadable a \<longleftrightarrow> imm_ok a (deferred_imm_m a) \<and> deferred_left_m a \<noteq> TMP2"

lemma InvertCondition_negates:
  assumes "comparison c"
  shows "comparison (InvertCondition c)" "compare_holds (InvertCondition c) x y \<longleftrightarrow> \<not> compare_holds c x y"
  using assms by (auto simp: comparison_def InvertCondition_def compare_holds_def)

lemma InvertCondition_negates_test:
  assumes "test_condition c"
  shows "test_condition (InvertCondition c)" "test_holds (InvertCondition c) x \<longleftrightarrow> \<not> test_holds c x"
  using assms by (auto simp: test_condition_def InvertCondition_def test_holds_def)

lemma deferred_holds_InvertCondition:
  "answers a c \<Longrightarrow> answers a (InvertCondition c) \<and> deferred_holds a (InvertCondition c) R = (\<not> deferred_holds a c R)"
  by (auto simp: answers_def deferred_holds_def InvertCondition_negates InvertCondition_negates_test
      split: DeferredCompareType.splits)

section \<open>Correctness of the conditional branch\<close>

lemma BranchIf_compare_cases:
  assumes "comparison c"
  shows "\<exists>emit func x y. branch_instruction emit func \<and>
    (\<forall>label distance (a :: 'o Assembler). BranchIf_compare c left right label distance a = emit x y label distance a) \<and>
    (\<forall>R. taken func (R x) (R y) = compare_holds c (R left) (R right))" (is "?P c")
proof -
  have *: "?P c" if "branch_instruction emit func"
      "\<And>label distance (a :: 'o Assembler). BranchIf_compare c left right label distance a = emit x y label distance a"
      "\<And>R. taken func (R x) (R y) = compare_holds c (R left) (R right)" for emit func x y c
    using that by (intro exI [of _ emit] exI [of _ func] exI [of _ x] exI [of _ y]) simp
  note d = BranchIf_compare_def compare_holds_def taken.simps rv_consts ble_def bgt_def bleu_def bgtu_def
  have "?P EQUAL" by (rule * [OF beq_i.branch_instruction_axioms, of _ left right]) (simp_all add: d)
  moreover have "?P NOT_EQUAL" by (rule * [OF bne_i.branch_instruction_axioms, of _ left right]) (simp_all add: d)
  moreover have "?P LESS" by (rule * [OF blt_i.branch_instruction_axioms, of _ left right]) (simp_all add: d)
  moreover have "?P LESS_EQUAL" by (rule * [OF bge_i.branch_instruction_axioms, of _ right left]) (simp_all add: d)
  moreover have "?P GREATER_EQUAL" by (rule * [OF bge_i.branch_instruction_axioms, of _ left right]) (simp_all add: d)
  moreover have "?P GREATER" by (rule * [OF blt_i.branch_instruction_axioms, of _ right left]) (simp_all add: d)
  moreover have "?P UNSIGNED_LESS" by (rule * [OF bltu_i.branch_instruction_axioms, of _ left right]) (simp_all add: d)
  moreover have "?P UNSIGNED_LESS_EQUAL" by (rule * [OF bgeu_i.branch_instruction_axioms, of _ right left]) (simp_all add: d)
  moreover have "?P UNSIGNED_GREATER_EQUAL" by (rule * [OF bgeu_i.branch_instruction_axioms, of _ left right]) (simp_all add: d)
  moreover have "?P UNSIGNED_GREATER" by (rule * [OF bltu_i.branch_instruction_axioms, of _ right left]) (simp_all add: d)
  ultimately show ?thesis using assms unfolding comparison_def by auto
qed

lemma BranchIf_compare_code:
  fixes a b :: "'o Assembler"
  assumes "computes a b g'" "comparison c" "\<And>R. R ZR = 0 \<Longrightarrow> g' R ZR = 0"
    and "\<And>R. R ZR = 0 \<Longrightarrow> compare_holds c (g' R left) (g' R right) = C R"
    and "\<And>R r. R ZR = 0 \<Longrightarrow> r \<notin> K \<Longrightarrow> g' R r = g R r"
  shows "branch_code a distance (\<lambda>label. consumed (BranchIf_compare c left right label distance b)) g C K"
proof -
  from BranchIf_compare_cases [OF assms(2), of left right] obtain emit func x y where i: "branch_instruction emit func"
    and e: "\<And>label distance (a :: 'o Assembler). BranchIf_compare c left right label distance a = emit x y label distance a"
    and t: "\<And>R. taken func (R x) (R y) = compare_holds c (R left) (R right)"
    by (elim exE conjE) (rule that, assumption, simp, erule spec)
  show ?thesis
    by (rule branch_codeI [OF assms(1) i assms(3), of x y _ _ _ "\<lambda>a. a\<lparr>deferred_compare_m := kNone\<rparr>"])
      (simp_all add: t assms(4,5) consumed_def e)
qed

text \<open>The branches on a test and on a sign bit.\<close>

lemma BranchIf_test_code:
  fixes a b :: "'o Assembler"
  assumes "computes a b g'" "test_condition c" "\<And>R. R ZR = 0 \<Longrightarrow> g' R ZR = 0"
    and "\<And>R. R ZR = 0 \<Longrightarrow> test_holds c (g' R TMP2) = C R"
    and "\<And>R r. R ZR = 0 \<Longrightarrow> r \<notin> K \<Longrightarrow> g' R r = g R r"
  shows "branch_code a distance (\<lambda>label. consumed (BranchIf_test c label distance b)) g C K"
proof -
  note d = consumed_def BranchIf_test_def beqz_def bnez_def assms(5)
  have "c = EQUAL \<or> c = NOT_EQUAL" using assms(2) by (simp add: test_condition_def)
  then show ?thesis
  proof
    assume c: "c = EQUAL"
    show ?thesis
      by (rule branch_codeI [OF assms(1) beq_i.branch_instruction_axioms assms(3), of TMP2 ZR _ _ _ "\<lambda>a. a\<lparr>deferred_compare_m := kNone\<rparr>"])
        (use c assms(3,4) in \<open>simp_all add: d taken.simps rv_consts test_holds_def\<close>)
  next
    assume c: "c = NOT_EQUAL"
    show ?thesis
      by (rule branch_codeI [OF assms(1) bne_i.branch_instruction_axioms assms(3), of TMP2 ZR _ _ _ "\<lambda>a. a\<lparr>deferred_compare_m := kNone\<rparr>"])
        (use c assms(3,4) in \<open>simp_all add: d taken.simps rv_consts test_holds_def\<close>)
  qed
qed

lemma BranchIf_sign_code:
  fixes a b :: "'o Assembler"
  assumes "computes a b g'" "test_condition c" "\<And>R. R ZR = 0 \<Longrightarrow> g' R ZR = 0"
    and "\<And>R. R ZR = 0 \<Longrightarrow> (sint (g' R sign) < 0) = (R left AND imm \<noteq> 0)"
    and "\<And>R r. R ZR = 0 \<Longrightarrow> r \<notin> K \<Longrightarrow> g' R r = g R r"
  shows "branch_code a distance (\<lambda>label. consumed (BranchIf_sign c sign label distance b)) g (\<lambda>R. test_holds c (R left AND imm)) K"
proof -
  note d = consumed_def BranchIf_sign_def bgez_def bltz_def assms(5)
  have neg: "(0 \<le> sint (g' R sign)) = (R left AND imm = 0)" if "R ZR = 0" for R using assms(4) [of R, OF that] by linarith
  have "c = EQUAL \<or> c = NOT_EQUAL" using assms(2) by (simp add: test_condition_def)
  then show ?thesis
  proof
    assume c: "c = EQUAL"
    show ?thesis
      by (rule branch_codeI [OF assms(1) bge_i.branch_instruction_axioms assms(3), of sign ZR _ _ _ "\<lambda>a. a\<lparr>deferred_compare_m := kNone\<rparr>"])
        (use c assms(3) neg in \<open>simp_all add: d taken.simps rv_consts test_holds_def\<close>)
  next
    assume c: "c = NOT_EQUAL"
    show ?thesis
      by (rule branch_codeI [OF assms(1) blt_i.branch_instruction_axioms assms(3), of sign ZR _ _ _ "\<lambda>a. a\<lparr>deferred_compare_m := kNone\<rparr>"])
        (use c assms(3,4) in \<open>simp_all add: d taken.simps rv_consts test_holds_def\<close>)
  qed
qed
definition operand_ok :: "'o Assembler \<Rightarrow> bool" where
  "operand_ok a =
     (case deferred_compare_m a of
        kCompareImm \<Rightarrow> deferred_imm_m a = 0 \<or> loadable a
      | kTestImm \<Rightarrow> IsITypeImm (deferred_imm_m a) \<or> IsPowerOfTwo (deferred_imm_m a) \<or>
          IsPowerOfTwo (deferred_imm_m a + 1) \<or> loadable a
      | _ \<Rightarrow> True)"

lemma sint_neg_bit: "sint (x :: u64) < 0 \<longleftrightarrow> bit x 63"
  using bit_last_iff [of x] by simp

lemma and_power_of_two:
  fixes x imm :: u64
  assumes "IsPowerOfTwo imm"
  shows "x AND imm \<noteq> 0 \<longleftrightarrow> bit x (ShiftForPowerOfTwo imm)"
proof -
  have "(x AND imm \<noteq> 0) = (\<exists>n. bit (x AND imm) n)" using bit_imp_le_length [of "x AND imm"] by (fastforce simp: bit_eq_iff)
  then show ?thesis by (simp add: bit_and_iff power_shift(2) [OF assms])
qed

lemma sign_of_shifted:
  assumes "k < 64"
  shows "sint (push_bit (63 - k) (x :: u64)) < 0 \<longleftrightarrow> bit x k"
  using assms by (simp add: sint_neg_bit bit_push_bit_iff)

lemma BranchIf_sign_bit:
  fixes a :: "'o Assembler"
  assumes "IsPowerOfTwo imm" "test_condition c"
  shows "branch_code a distance
    (\<lambda>label. if ShiftForPowerOfTwo imm = 63 then consumed (BranchIf_sign c left label distance a)
       else consumed (BranchIf_sign c TMP2 label distance (slli TMP2 left (of_nat (63 - ShiftForPowerOfTwo imm)) a)))
    (\<lambda>R. R) (\<lambda>R. test_holds c (R left AND imm)) {TMP2}"
proof (cases "ShiftForPowerOfTwo imm = 63")
  case True
  then show ?thesis
    using BranchIf_sign_code [OF computes_refl assms(2), where K = "{TMP2}" and g = "\<lambda>R. R" and sign = left and left = left and imm = imm and distance = distance and a = a]
      and_power_of_two [OF assms(1)] by (simp add: sint_neg_bit)
next
  case False
  let ?i = "of_nat (63 - ShiftForPowerOfTwo imm) :: intx"
  have u: "unat ?i = 63 - ShiftForPowerOfTwo imm" by (rule unat_of_nat_64) simp
  have c: "computes a (slli TMP2 left ?i a) (\<lambda>R. wr TMP2 (push_bit (unat ?i) (R left)) R)"
    by (rule slli_i.correct) (simp add: u)
  show ?thesis unfolding if_not_P [OF False]
    by (rule BranchIf_sign_code [OF c assms(2)])
      (simp_all add: u wr_apply sign_of_shifted and_power_of_two assms(1) power_shift(1))
qed

lemma BranchIf_compare_deferred:
  assumes "answers a c" "operand_ok a" "deferred_compare_m a = kCompareReg \<or> deferred_compare_m a = kCompareImm"
  shows "branch_code a distance (\<lambda>label. BranchIf c label distance a) (\<lambda>R. R) (deferred_holds a c) {TMP2}"
  using assms(3)
proof
  assume kCompareReg: "deferred_compare_m a = kCompareReg"
  then show ?thesis
    using assms(1) BranchIf_compare_code [OF computes_refl, where c = c and K = "{TMP2}" and g = "\<lambda>R. R" and distance = distance and a = a
        and left = "deferred_left_m a" and right = "deferred_reg_m a" and C = "deferred_holds a c"]
    by (simp add: BranchIf_def answers_def deferred_holds_def)
next
  assume kCompareImm: "deferred_compare_m a = kCompareImm"
  show ?thesis
  proof (cases "deferred_imm_m a = 0")
    case True
    then show ?thesis
      using kCompareImm assms(1) BranchIf_compare_code [OF computes_refl, where c = c and K = "{TMP2}" and g = "\<lambda>R. R" and distance = distance and a = a
          and left = "deferred_left_m a" and right = ZR and C = "deferred_holds a c"]
      by (simp add: BranchIf_def answers_def deferred_holds_def)
  next
    case False
    then have l: "loadable a" using assms(2) kCompareImm by (simp add: operand_ok_def)
    then obtain b where b: "LoadImmediate TMP2 (deferred_imm_m a) a = Inr b" "computes a b (\<lambda>R. wr TMP2 (deferred_imm_m a) R)"
      using LoadImmediate_correct unfolding loadable_def by blast
    have "branch_code a distance (\<lambda>label. consumed (BranchIf_compare c (deferred_left_m a) TMP2 label distance b)) (\<lambda>R. R) (deferred_holds a c) {TMP2}"
      by (rule BranchIf_compare_code [OF b(2)]) (use assms(1) kCompareImm l in \<open>simp_all add: answers_def wr_apply deferred_holds_def loadable_def\<close>)
    then show ?thesis using kCompareImm False by (simp add: BranchIf_def b(1) and_then_def)
  qed
qed

lemma BranchIf_test_deferred:
  assumes "answers a c" "operand_ok a" "deferred_compare_m a = kTestReg \<or> deferred_compare_m a = kTestImm"
  shows "branch_code a distance (\<lambda>label. BranchIf c label distance a) (\<lambda>R. R) (deferred_holds a c) {TMP2}"
  using assms(3)
proof
  assume kTestReg: "deferred_compare_m a = kTestReg"
  have "branch_code a distance (\<lambda>label. consumed (BranchIf_test c label distance (and_r TMP2 (deferred_left_m a) (deferred_reg_m a) a)))
      (\<lambda>R. R) (deferred_holds a c) {TMP2}"
    by (rule BranchIf_test_code [OF and_r_i.correct]) (use assms(1) kTestReg in \<open>simp_all add: answers_def wr_apply deferred_holds_def\<close>)
  then show ?thesis using kTestReg by (simp add: BranchIf_def)
next
  assume kTestImm: "deferred_compare_m a = kTestImm"
  then have c: "test_condition c" using assms(1) by (simp add: answers_def)
  let ?left = "deferred_left_m a" and ?imm = "deferred_imm_m a"
  have h: "deferred_holds a c = (\<lambda>R. test_holds c (R ?left AND ?imm))" using kTestImm by (simp add: deferred_holds_def fun_eq_iff)
  consider (small) "IsITypeImm ?imm" | (bit) "\<not> IsITypeImm ?imm" "IsPowerOfTwo ?imm" | (other) "\<not> IsITypeImm ?imm" "\<not> IsPowerOfTwo ?imm"
    by blast
  then show ?thesis
  proof cases
    case small
    have "branch_code a distance (\<lambda>label. consumed (BranchIf_test c label distance (andi TMP2 ?left ?imm a))) (\<lambda>R. R) (deferred_holds a c) {TMP2}"
      by (rule BranchIf_test_code [OF andi_i.correct [OF small]]) (use c in \<open>simp_all add: wr_apply h\<close>)
    then show ?thesis using kTestImm small by (simp add: BranchIf_def)
  next
    case bit
    then show ?thesis using BranchIf_sign_bit [OF bit(2) c] kTestImm by (simp add: BranchIf_def Let_def h)
  next
    case other
    have "writes a (AndImmediate TMP2 ?left ?imm kEightBytes a) TMP2 (\<lambda>R. R ?left AND and_mask kEightBytes ?imm) {TMP2}"
      by (rule AndImmediate_writes) (use assms(2) kTestImm other in \<open>auto simp: operand_ok_def loadable_def and_mask_def\<close>)
    then obtain b g where b: "AndImmediate TMP2 ?left ?imm kEightBytes a = Inr b" "computes a b g"
      and g: "\<forall>R. R ZR = 0 \<longrightarrow> g R ZR = 0 \<and> g R TMP2 = R ?left AND ?imm \<and> (\<forall>x. x \<noteq> TMP2 \<longrightarrow> g R x = R x)"
      unfolding writes_def by (auto simp: and_mask_def)
    have "branch_code a distance (\<lambda>label. consumed (BranchIf_test c label distance b)) (\<lambda>R. R) (deferred_holds a c) {TMP2}"
      by (rule BranchIf_test_code [OF b(2) c]) (use g in \<open>simp_all add: h\<close>)
    then show ?thesis using kTestImm other by (simp add: BranchIf_def b(1) and_then_def)
  qed
qed

theorem BranchIf_code:
  assumes "answers a c" "operand_ok a"
  shows "branch_code a distance (\<lambda>label. BranchIf c label distance a) (\<lambda>R. R) (deferred_holds a c) {TMP2}"
  using BranchIf_compare_deferred [OF assms] BranchIf_test_deferred [OF assms] assms(1)
  by (cases "deferred_compare_m a") (simp_all add: answers_def)
section \<open>Correctness of the branches on overflow\<close>

lemma branch_code_direct:
  fixes a b :: "'o Assembler"
  assumes "computes a b g'" "branch_instruction emit func"
    and "\<And>R. R ZR = 0 \<Longrightarrow> g' R ZR = 0" "\<And>R. R ZR = 0 \<Longrightarrow> taken func (g' R rs1) (g' R rs2) = c R"
    and "\<And>R r. R ZR = 0 \<Longrightarrow> r \<notin> K \<Longrightarrow> g' R r = g R r"
  shows "branch_code a distance (\<lambda>label. emit rs1 rs2 label distance b) g c K"
  by (rule branch_codeI [OF assms(1-5), where upd = "\<lambda>x. x"])
    (simp_all add: and_then_def split: sum.split)

text \<open>A mathematical integer that is not the value of a signed 64-bit register.\<close>

definition signed_overflow :: "int \<Rightarrow> bool" where
  "signed_overflow z \<longleftrightarrow> z < - (2 ^ 63) \<or> 2 ^ 63 \<le> z"

lemma sint_bounds: "- (2 ^ 63) \<le> sint (x :: u64)" "sint x < 2 ^ 63"
  using sint_range_size [of x] by (simp_all add: word_size)

lemma signed_wrap:
  fixes z :: int
  assumes "- (2 ^ 64) \<le> z" "z < 2 ^ 64"
  shows "signed_take_bit 63 z = (if z < - (2 ^ 63) then z + 2 ^ 64 else if 2 ^ 63 \<le> z then z - 2 ^ 64 else z)"
proof -
  have m: "signed_take_bit 63 z = (z + 2 ^ 63) mod 2 ^ 64 - 2 ^ 63"
    by (simp add: signed_take_bit_eq_take_bit_shift take_bit_eq_mod)
  consider "z < - (2 ^ 63)" | "2 ^ 63 \<le> z" | "- (2 ^ 63) \<le> z" "z < 2 ^ 63" by linarith
  then show ?thesis
  proof cases
    case 1
    have "(z + 2 ^ 63) mod 2 ^ 64 = (z + 2 ^ 63 + 2 ^ 64) mod 2 ^ 64" by (metis mod_add_self2)
    also have "\<dots> = z + 2 ^ 63 + 2 ^ 64" using 1 assms(1) by (intro mod_pos_pos_trivial) auto
    finally show ?thesis using 1 m by simp
  next
    case 2
    have "(z + 2 ^ 63) mod 2 ^ 64 = (z + 2 ^ 63 - 2 ^ 64) mod 2 ^ 64" by (metis minus_mod_self2)
    also have "\<dots> = z + 2 ^ 63 - 2 ^ 64" using 2 assms(2) by (intro mod_pos_pos_trivial) auto
    finally show ?thesis using 2 m by simp
  next
    case 3
    then show ?thesis using m mod_pos_pos_trivial [of "z + 2 ^ 63" "2 ^ 64"] by simp
  qed
qed

lemma sint_ring: "sint (x + y :: u64) = signed_take_bit 63 (sint x + sint y)" "sint (x - y :: u64) = signed_take_bit 63 (sint x - sint y)"
  "sint (x * y :: u64) = signed_take_bit 63 (sint x * sint y)"
  using sint_word_ariths(1) [of x y] sint_word_ariths(2) [of x y] sint_word_ariths(3) [of x y] by simp_all

lemma sint_add_wrap:
  "sint (x + y :: u64) = (if sint x + sint y < - (2 ^ 63) then sint x + sint y + 2 ^ 64
     else if 2 ^ 63 \<le> sint x + sint y then sint x + sint y - 2 ^ 64 else sint x + sint y)"
  unfolding sint_ring by (rule signed_wrap) (use sint_bounds [of x] sint_bounds [of y] in auto)

lemma sint_sub_wrap:
  "sint (x - y :: u64) = (if sint x - sint y < - (2 ^ 63) then sint x - sint y + 2 ^ 64
     else if 2 ^ 63 \<le> sint x - sint y then sint x - sint y - 2 ^ 64 else sint x - sint y)"
  unfolding sint_ring by (rule signed_wrap) (use sint_bounds [of x] sint_bounds [of y] in auto)

lemma sint_xor_neg: "sint (x XOR y :: u64) < 0 \<longleftrightarrow> (sint x < 0) \<noteq> (sint y < 0)"
  by (simp add: sint_neg_bit bit_xor_iff)

lemma add_overflow_test:
  fixes x y :: u64
  shows "(sint y < 0 \<longleftrightarrow> \<not> sint (x + y) < sint x) \<longleftrightarrow> signed_overflow (sint x + sint y)"
    "(sint x < 0 \<longleftrightarrow> \<not> sint (x + y) < sint y) \<longleftrightarrow> signed_overflow (sint x + sint y)"
  using sint_bounds [of x] sint_bounds [of y] by (auto simp: sint_add_wrap signed_overflow_def)

lemma double_overflow_test:
  fixes x :: u64
  shows "sint (x XOR (2 * x)) < 0 \<longleftrightarrow> signed_overflow (2 * sint x)"
  using sint_bounds [of x] unfolding sint_xor_neg mult_2 sint_add_wrap signed_overflow_def by auto

lemma sub_overflow_test:
  fixes x y :: u64
  shows "(sint y < 0 \<longleftrightarrow> \<not> sint x < sint (x - y)) \<longleftrightarrow> signed_overflow (sint x - sint y)"
  using sint_bounds [of x] sint_bounds [of y] by (auto simp: sint_sub_wrap signed_overflow_def)

lemma product_bounds:
  fixes x y :: u64
  shows "- (2 ^ 126) \<le> sint x * sint y" "sint x * sint y \<le> 2 ^ 126"
proof -
  have "\<bar>sint x * sint y\<bar> \<le> 2 ^ 63 * 2 ^ 63"
    unfolding abs_mult using sint_bounds [of x] sint_bounds [of y] by (intro mult_mono) auto
  then show "- (2 ^ 126) \<le> sint x * sint y" "sint x * sint y \<le> 2 ^ 126" by (simp_all add: abs_le_iff)
qed

lemma sint_sim_mulh: "sint (sim_mulh x y) = sint x * sint y div 2 ^ 64"
proof -
  let ?z = "sint x * sint y"
  have "?z div 2 ^ 64 \<le> 2 ^ 62" "- (2 ^ 62) \<le> ?z div 2 ^ 64"
    using zdiv_mono1 [OF product_bounds(1) [of x y], of "2 ^ 64"] zdiv_mono1 [OF product_bounds(2) [of x y], of "2 ^ 64"] by simp_all
  then show ?thesis unfolding sim_mulh_eq by (simp add: signed_of_int signed_take_bit_int_eq_self_iff)
qed

lemma high_part_of_overflow:
  fixes z :: int
  shows "z div 2 ^ 64 \<noteq> signed_take_bit 63 z div 2 ^ 63 \<longleftrightarrow> signed_overflow z"
proof -
  let ?q = "z div 2 ^ 64" and ?r = "z mod 2 ^ 64"
  have q: "q \<noteq> (if 2 ^ 63 \<le> r then - 1 else 0) \<longleftrightarrow> signed_overflow (q * 2 ^ 64 + r)" if "0 \<le> r" "r < 2 ^ 64" for q r
    using that unfolding signed_overflow_def by (cases "q \<le> - 2"; cases "q \<ge> 1") auto
  have z: "z = ?q * 2 ^ 64 + ?r" "0 \<le> ?r" "?r < 2 ^ 64" by simp_all
  have "signed_take_bit 63 z = signed_take_bit 63 ?r"
    by (simp add: signed_take_bit_eq_take_bit_shift take_bit_eq_mod mod_simps)
  also have "\<dots> = (if 2 ^ 63 \<le> ?r then ?r - 2 ^ 64 else ?r)"
    using z(2,3) by (subst signed_wrap) auto
  also have "\<dots> div 2 ^ 63 = (if 2 ^ 63 \<le> ?r then - 1 else 0)"
    using z(2,3) int_div_pos_eq [of "?r - 2 ^ 64" "2 ^ 63" "- 1" "?r - 2 ^ 63"] by (simp add: div_pos_pos_trivial)
  finally have "?q \<noteq> signed_take_bit 63 z div 2 ^ 63 \<longleftrightarrow> ?q \<noteq> (if 2 ^ 63 \<le> ?r then - 1 else 0)" by simp
  also have "\<dots> \<longleftrightarrow> signed_overflow (?q * 2 ^ 64 + ?r)"
    by (rule q) (use z in simp_all)
  finally show ?thesis using z(1) by simp
qed

lemma mul_overflow_test:
  fixes x y :: u64
  shows "sim_mulh x y \<noteq> signed_drop_bit 63 (x * y) \<longleftrightarrow> signed_overflow (sint x * sint y)"
proof -
  have "sint (signed_drop_bit 63 (x * y)) = signed_take_bit 63 (sint x * sint y) div 2 ^ 63"
    by (simp add: sint_signed_drop_bit_eq drop_bit_eq_div sint_ring)
  then have "sim_mulh x y \<noteq> signed_drop_bit 63 (x * y) \<longleftrightarrow>
      sint x * sint y div 2 ^ 64 \<noteq> signed_take_bit 63 (sint x * sint y) div 2 ^ 63"
    unfolding sint_sim_mulh [symmetric] by (metis signed_word_eqI)
  then show ?thesis unfolding high_part_of_overflow .
qed
lemma IsITypeImm_iff: "IsITypeImm x \<longleftrightarrow> - 2048 \<le> sint x \<and> sint x < 2048"
  by (simp add: IsITypeImm_def IsInt_iff)

lemma IsITypeImm_small [simp]: "IsITypeImm 0" "IsITypeImm 1"
  by (simp_all add: IsITypeImm_def IsInt_iff)

lemma scratch_registers [simp]: "(TMP :: Register) \<noteq> ZR" "(TMP2 :: Register) \<noteq> ZR" "(TMP :: Register) \<noteq> TMP2" "(TMP2 :: Register) \<noteq> TMP"
  by simp_all

text \<open>The outcomes of two comparisons differ.\<close>

lemma flags_differ: "(if p then 1 else 0 :: u64) \<noteq> (if q then 1 else 0) \<longleftrightarrow> (p \<longleftrightarrow> \<not> q)"
  by auto

lemma computes_slti_0: "computes a (slti rd rs 0 a) (\<lambda>R. wr rd (if sint (R rs) < 0 then 1 else 0) R)"
  using slti_i.correct [of 0] by simp

lemma AddBranchOverflow_code:
  assumes "rd \<notin> {ZR, TMP, TMP2}" "rs1 \<notin> {TMP, TMP2}" "rs2 \<notin> {TMP, TMP2}"
  shows "branch_code a kFarJump (\<lambda>label. AddBranchOverflow rd rs1 rs2 label a) (\<lambda>R. wr rd (R rs1 + R rs2) R)
    (\<lambda>R. signed_overflow (sint (R rs1) + sint (R rs2))) {TMP, TMP2}" (is "branch_code a _ _ ?g ?c _")
proof -
  note s = wr_apply taken.simps rv_consts
  consider (same) "rd = rs1" "rs1 = rs2" | (twice) "rd \<noteq> rs1" "rs1 = rs2" | (left) "rd = rs1" "rs1 \<noteq> rs2"
    | (right) "rd = rs2" "rs1 \<noteq> rs2" | (general) "rd \<noteq> rs1" "rd \<noteq> rs2" "rs1 \<noteq> rs2" by blast
  then show ?thesis
  proof cases
    case same
    note c = computes_trans [OF computes_trans [OF computes_mv [of a TMP rs1] add_i.correct [of _ rd rs1 rs2]] xor_r_i.correct [of _ TMP TMP rd]]
    have "branch_code a kFarJump (\<lambda>label. blt TMP ZR label kFarJump (xor_r TMP TMP rd (add rd rs1 rs2 (mv TMP rs1 a)))) ?g ?c {TMP, TMP2}"
      by (rule branch_code_direct [OF c blt_i.branch_instruction_axioms]) (use same assms in \<open>simp_all add: s double_overflow_test\<close>)
    then show ?thesis using same by (simp add: AddBranchOverflow_def bltz_def)
  next
    case twice
    note c = computes_trans [OF add_i.correct [of a rd rs1 rs2] xor_r_i.correct [of _ TMP rd rs1]]
    have "branch_code a kFarJump (\<lambda>label. blt TMP ZR label kFarJump (xor_r TMP rd rs1 (add rd rs1 rs2 a))) ?g ?c {TMP, TMP2}"
      by (rule branch_code_direct [OF c blt_i.branch_instruction_axioms])
        (use twice assms double_overflow_test in \<open>simp_all add: s xor.commute\<close>)
    then show ?thesis using twice by (simp add: AddBranchOverflow_def bltz_def)
  next
    case left
    note c = computes_trans [OF computes_trans [OF computes_slti_0 [of a TMP rs1] add_i.correct [of _ rd rs1 rs2]] slt_i.correct [of _ TMP2 rd rs2]]
    have "branch_code a kFarJump (\<lambda>label. bne TMP TMP2 label kFarJump (slt TMP2 rd rs2 (add rd rs1 rs2 (slti TMP rs1 0 a)))) ?g ?c {TMP, TMP2}"
      by (rule branch_code_direct [OF c bne_i.branch_instruction_axioms])
        (use left assms in \<open>simp_all add: s flags_differ add_overflow_test\<close>)
    then show ?thesis using left by (simp add: AddBranchOverflow_def)
  next
    case right
    note c = computes_trans [OF computes_trans [OF computes_slti_0 [of a TMP rs2] add_i.correct [of _ rd rs1 rs2]] slt_i.correct [of _ TMP2 rd rs1]]
    have "branch_code a kFarJump (\<lambda>label. bne TMP TMP2 label kFarJump (slt TMP2 rd rs1 (add rd rs1 rs2 (slti TMP rs2 0 a)))) ?g ?c {TMP, TMP2}"
      by (rule branch_code_direct [OF c bne_i.branch_instruction_axioms])
        (use right assms in \<open>simp_all add: s flags_differ add_overflow_test\<close>)
    then show ?thesis using right by (simp add: AddBranchOverflow_def)
  next
    case general
    note c = computes_trans [OF computes_trans [OF add_i.correct [of a rd rs1 rs2] computes_slti_0 [of _ TMP rs2]] slt_i.correct [of _ TMP2 rd rs1]]
    have "branch_code a kFarJump (\<lambda>label. bne TMP TMP2 label kFarJump (slt TMP2 rd rs1 (slti TMP rs2 0 (add rd rs1 rs2 a)))) ?g ?c {TMP, TMP2}"
      by (rule branch_code_direct [OF c bne_i.branch_instruction_axioms])
        (use general assms in \<open>simp_all add: s flags_differ add_overflow_test\<close>)
    then show ?thesis using general by (simp add: AddBranchOverflow_def)
  qed
qed
text \<open>The condition on which the emitted subtraction branches. It is the overflow condition only if the
  destination and both sources are different registers.\<close>

definition subtract_branches :: "Register \<Rightarrow> Register \<Rightarrow> Register \<Rightarrow> u64 \<Rightarrow> u64 \<Rightarrow> bool" where
  "subtract_branches rd rs1 rs2 x y =
     (if rs1 = rs2 then sint x < 0
      else if rd = rs1 then sint x < 0 \<longleftrightarrow> \<not> sint (x - y) < sint y
      else if rd = rs2 then sint y < 0 \<longleftrightarrow> \<not> sint (x - y) < sint x
      else signed_overflow (sint x - sint y))"

lemma SubtractBranchOverflow_code:
  assumes "rd \<notin> {ZR, TMP, TMP2}" "rs1 \<notin> {TMP, TMP2}" "rs2 \<notin> {TMP, TMP2}"
  shows "branch_code a kFarJump (\<lambda>label. SubtractBranchOverflow rd rs1 rs2 label a) (\<lambda>R. wr rd (R rs1 - R rs2) R)
    (\<lambda>R. subtract_branches rd rs1 rs2 (R rs1) (R rs2)) {TMP, TMP2}" (is "branch_code a _ _ ?g ?c _")
proof -
  note s = wr_apply taken.simps rv_consts subtract_branches_def flags_differ
  consider (same) "rd = rs1" "rs1 = rs2" | (twice) "rd \<noteq> rs1" "rs1 = rs2" | (left) "rd = rs1" "rs1 \<noteq> rs2"
    | (right) "rd = rs2" "rs1 \<noteq> rs2" | (general) "rd \<noteq> rs1" "rd \<noteq> rs2" "rs1 \<noteq> rs2" by blast
  then show ?thesis
  proof cases
    case same
    note c = computes_trans [OF computes_trans [OF computes_mv [of a TMP rs1] sub_i.correct [of _ rd rs1 rs2]] xor_r_i.correct [of _ TMP TMP rd]]
    have "branch_code a kFarJump (\<lambda>label. blt TMP ZR label kFarJump (xor_r TMP TMP rd (sub rd rs1 rs2 (mv TMP rs1 a)))) ?g ?c {TMP, TMP2}"
      by (rule branch_code_direct [OF c blt_i.branch_instruction_axioms]) (use same assms in \<open>simp_all add: s\<close>)
    then show ?thesis using same by (simp add: SubtractBranchOverflow_def bltz_def)
  next
    case twice
    note c = computes_trans [OF sub_i.correct [of a rd rs1 rs2] xor_r_i.correct [of _ TMP rd rs1]]
    have "branch_code a kFarJump (\<lambda>label. blt TMP ZR label kFarJump (xor_r TMP rd rs1 (sub rd rs1 rs2 a))) ?g ?c {TMP, TMP2}"
      by (rule branch_code_direct [OF c blt_i.branch_instruction_axioms]) (use twice assms in \<open>simp_all add: s\<close>)
    then show ?thesis using twice by (simp add: SubtractBranchOverflow_def bltz_def)
  next
    case left
    note c = computes_trans [OF computes_trans [OF computes_slti_0 [of a TMP rs1] sub_i.correct [of _ rd rs1 rs2]] slt_i.correct [of _ TMP2 rd rs2]]
    have "branch_code a kFarJump (\<lambda>label. bne TMP TMP2 label kFarJump (slt TMP2 rd rs2 (sub rd rs1 rs2 (slti TMP rs1 0 a)))) ?g ?c {TMP, TMP2}"
      by (rule branch_code_direct [OF c bne_i.branch_instruction_axioms]) (use left assms in \<open>simp_all add: s\<close>)
    then show ?thesis using left by (simp add: SubtractBranchOverflow_def)
  next
    case right
    note c = computes_trans [OF computes_trans [OF computes_slti_0 [of a TMP rs2] sub_i.correct [of _ rd rs1 rs2]] slt_i.correct [of _ TMP2 rd rs1]]
    have "branch_code a kFarJump (\<lambda>label. bne TMP TMP2 label kFarJump (slt TMP2 rd rs1 (sub rd rs1 rs2 (slti TMP rs2 0 a)))) ?g ?c {TMP, TMP2}"
      by (rule branch_code_direct [OF c bne_i.branch_instruction_axioms]) (use right assms in \<open>simp_all add: s\<close>)
    then show ?thesis using right by (simp add: SubtractBranchOverflow_def)
  next
    case general
    note c = computes_trans [OF computes_trans [OF sub_i.correct [of a rd rs1 rs2] computes_slti_0 [of _ TMP rs2]] slt_i.correct [of _ TMP2 rs1 rd]]
    have "branch_code a kFarJump (\<lambda>label. bne TMP TMP2 label kFarJump (slt TMP2 rs1 rd (slti TMP rs2 0 (sub rd rs1 rs2 a)))) ?g ?c {TMP, TMP2}"
      by (rule branch_code_direct [OF c bne_i.branch_instruction_axioms]) (use general assms in \<open>simp_all add: s sub_overflow_test\<close>)
    then show ?thesis using general by (simp add: SubtractBranchOverflow_def)
  qed
qed

lemma computes_srai_63: "computes a (srai rd rs 63 a) (\<lambda>R. wr rd (signed_drop_bit 63 (R rs)) R)"
  using srai_i.correct [of 63] by simp

lemma product_branch_code:
  assumes "computes a b (\<lambda>R. if t = ZR then R else wr t (v R) R)" "t = ZR \<or> t = TMP2"
    and "rd \<notin> {ZR, TMP, TMP2}" "rs1 \<notin> {TMP, TMP2}" "rs2 \<noteq> TMP" "rs2 = TMP2 \<longrightarrow> t = TMP2" 
    and "\<And>R. R ZR = 0 \<Longrightarrow> y R = (if t = ZR then R rs2 else if rs2 = t then v R else R rs2)"
  shows "branch_code a kFarJump
    (\<lambda>label. bne TMP TMP2 label kFarJump (srai TMP2 rd 63 (mul rd rs1 rs2 (mulh TMP rs1 rs2 b))))
    (\<lambda>R. wr rd (R rs1 * y R) R) (\<lambda>R. signed_overflow (sint (R rs1) * sint (y R))) {TMP, TMP2}"
proof -
  note c = computes_trans [OF computes_trans [OF computes_trans [OF assms(1) mulh_i.correct [of _ TMP rs1 rs2]] mul_i.correct [of _ rd rs1 rs2]]
      computes_srai_63 [of _ TMP2 rd]]
  show ?thesis
    by (rule branch_code_direct [OF c bne_i.branch_instruction_axioms])
      (use assms(2-) in \<open>auto simp: wr_apply taken.simps rv_consts sim_mul_def mul_overflow_test\<close>)
qed

lemma MultiplyBranchOverflow_code:
  assumes "rd \<notin> {ZR, TMP, TMP2}" "rs1 \<notin> {TMP, TMP2}" "rs2 \<notin> {TMP, TMP2}"
  shows "branch_code a kFarJump (\<lambda>label. MultiplyBranchOverflow rd rs1 rs2 label a) (\<lambda>R. wr rd (R rs1 * R rs2) R)
    (\<lambda>R. signed_overflow (sint (R rs1) * sint (R rs2))) {TMP, TMP2}"
  unfolding MultiplyBranchOverflow_def Let_def
  by (rule product_branch_code [where t = ZR]) (use assms in simp_all)

lemma MultiplyImmediateBranchOverflow_code:
  assumes "rd \<notin> {ZR, TMP, TMP2}" "rs1 \<notin> {TMP, TMP2}" "imm_ok a imm"
  shows "branch_code a kFarJump (\<lambda>label. MultiplyImmediateBranchOverflow rd rs1 imm label a) (\<lambda>R. wr rd (R rs1 * imm) R)
    (\<lambda>R. signed_overflow (sint (R rs1) * sint imm)) {TMP, TMP2}"
proof -
  obtain b where b: "LoadImmediate TMP2 imm a = Inr b" "computes a b (\<lambda>R. wr TMP2 imm R)"
    using LoadImmediate_correct [OF assms(3)] by blast
  have "branch_code a kFarJump (\<lambda>label. bne TMP TMP2 label kFarJump (srai TMP2 rd 63 (mul rd rs1 TMP2 (mulh TMP rs1 TMP2 b))))
    (\<lambda>R. wr rd (R rs1 * imm) R) (\<lambda>R. signed_overflow (sint (R rs1) * sint imm)) {TMP, TMP2}"
    by (rule product_branch_code [where t = TMP2 and v = "\<lambda>_. imm"]) (use assms b in simp_all)
  then show ?thesis by (simp add: MultiplyImmediateBranchOverflow_def b(1) and_then_def Let_def)
qed
text \<open>The condition on which the addition of a constant branches. If the destination is the source and the
  constant has to be loaded, the load destroys the saved operand and the comparison is with the constant.\<close>

definition add_immediate_branches :: "Register \<Rightarrow> Register \<Rightarrow> intx \<Rightarrow> u64 \<Rightarrow> bool" where
  "add_immediate_branches rd rs1 imm x =
     (if rd = rs1 \<and> \<not> IsITypeImm imm then
        if 0 < sint imm then sint (x + imm) < sint imm else sint imm < sint (x + imm)
      else signed_overflow (sint x + sint imm))"

lemma add_immediate_test:
  fixes x imm :: u64
  shows "0 < sint imm \<Longrightarrow> sint (x + imm) < sint x \<longleftrightarrow> signed_overflow (sint x + sint imm)"
    "sint imm < 0 \<Longrightarrow> sint x < sint (x + imm) \<longleftrightarrow> signed_overflow (sint x + sint imm)"
  using sint_bounds [of x] sint_bounds [of imm] by (auto simp: sint_add_wrap signed_overflow_def)

lemma sign_branch_code:
  fixes a b :: "'o Assembler"
  assumes "computes a b g'" "imm \<noteq> 0" "\<And>R. R ZR = 0 \<Longrightarrow> g' R ZR = 0"
    and "\<And>R. R ZR = 0 \<Longrightarrow> 0 < sint imm \<Longrightarrow> (sint (g' R rd) < sint (g' R t)) = c R"
    and "\<And>R. R ZR = 0 \<Longrightarrow> sint imm < 0 \<Longrightarrow> (sint (g' R t) < sint (g' R rd)) = c R"
    and "\<And>R r. R ZR = 0 \<Longrightarrow> r \<notin> K \<Longrightarrow> g' R r = g R r"
  shows "branch_code a kFarJump
    (\<lambda>label. if sint imm > 0 then blt rd t label kFarJump b
       else if sint imm < 0 then bgt rd t label kFarJump b else Inr (label, b)) g c K"
proof -
  have "sint imm \<noteq> 0" using assms(2) by (metis signed_0 signed_word_eqI)
  then consider (pos) "0 < sint imm" | (neg) "sint imm < 0" by linarith
  then show ?thesis
  proof cases
    case pos
    have "branch_code a kFarJump (\<lambda>label. blt rd t label kFarJump b) g c K"
      by (rule branch_code_direct [OF assms(1) blt_i.branch_instruction_axioms assms(3) _ assms(6)])
        (use pos assms(4) in \<open>simp_all add: taken.simps rv_consts\<close>)
    then show ?thesis using pos by simp
  next
    case neg
    have "branch_code a kFarJump (\<lambda>label. blt t rd label kFarJump b) g c K"
      by (rule branch_code_direct [OF assms(1) blt_i.branch_instruction_axioms assms(3) _ assms(6)])
        (use neg assms(5) in \<open>simp_all add: taken.simps rv_consts\<close>)
    then show ?thesis using neg by (simp add: bgt_def)
  qed
qed

lemma AddImmediateBranchOverflow_other:
  assumes "rd \<notin> {ZR, TMP2}" "rs1 \<notin> {rd, TMP2}" "imm \<noteq> 0" "IsITypeImm imm \<or> imm_ok a imm"
  shows "branch_code a kFarJump (\<lambda>label. AddImmediateBranchOverflow rd rs1 imm label a) (\<lambda>R. wr rd (R rs1 + imm) R)
    (\<lambda>R. signed_overflow (sint (R rs1) + sint imm)) {TMP2}"
proof -
  have "writes a (RiscvCodegen.AddImmediate rd rs1 imm kEightBytes a) rd
      (\<lambda>R. if kEightBytes = kFourBytes then signed_take_bit 31 (R rs1 + imm) else R rs1 + imm) {TMP2}"
    by (rule AddImmediate_writes) (use assms in auto)
  then obtain b g where b: "RiscvCodegen.AddImmediate rd rs1 imm kEightBytes a = Inr b" "computes a b g"
    and g: "\<forall>R. R ZR = 0 \<longrightarrow> g R ZR = 0 \<and> g R rd = R rs1 + imm \<and> (\<forall>x. x \<noteq> rd \<longrightarrow> x \<noteq> TMP2 \<longrightarrow> g R x = R x)"
    using assms(1) unfolding writes_def by auto
  have "branch_code a kFarJump
    (\<lambda>label. if sint imm > 0 then blt rd rs1 label kFarJump b
       else if sint imm < 0 then bgt rd rs1 label kFarJump b else Inr (label, b))
    (\<lambda>R. wr rd (R rs1 + imm) R) (\<lambda>R. signed_overflow (sint (R rs1) + sint imm)) {TMP2}"
    by (rule sign_branch_code [OF b(2) assms(3)]) (use g assms(1,2) in \<open>simp_all add: wr_apply add_immediate_test\<close>)
  then show ?thesis using assms(2) by (auto simp: AddImmediateBranchOverflow_def b(1) and_then_def)
qed

lemma computes_AddImmediate_same:
  assumes "rd \<notin> {ZR, TMP2}" "imm \<noteq> 0" "IsITypeImm imm \<or> imm_ok a imm"
  shows "\<exists>b. RiscvCodegen.AddImmediate rd rd imm kEightBytes (mv TMP2 rd a) = Inr b \<and>
    computes a b (\<lambda>R. wr rd (R rd + imm) (wr TMP2 (if IsITypeImm imm then R rd else imm) R))"
proof (cases "IsITypeImm imm")
  case True
  have "computes a (addi rd rd imm (mv TMP2 rd a)) (\<lambda>R. wr rd (R rd + imm) (wr TMP2 (R rd) R))"
    by (rule computes_then [OF computes_mv addi_i.correct [OF True]]) (use assms(1) in \<open>simp_all add: wr_apply\<close>)
  then show ?thesis using True assms(2) by (simp add: RiscvCodegen.AddImmediate_def)
next
  case False
  let ?m = "mv TMP2 rd a"
  have m: "computes a ?m (\<lambda>R. wr TMP2 (R rd) R)" by (rule computes_mv)
  then have "constant_pool_allowed_m ?m = constant_pool_allowed_m a" "Supports ?m RV_Zbs = Supports a RV_Zbs"
    using computes_Supports [OF m] by (auto simp: computes_def)
  then have "imm_ok ?m imm" using False assms(3) by (simp add: imm_ok_def not_pooled_def)
  then obtain b where b: "LoadImmediate TMP2 imm ?m = Inr b" "computes ?m b (\<lambda>R. wr TMP2 imm R)"
    using LoadImmediate_correct by blast
  have "computes a (add rd rd TMP2 b) (\<lambda>R. wr rd (R rd + imm) (wr TMP2 imm R))"
    by (rule computes_then [OF computes_trans [OF m b(2)] add_i.correct]) (use assms(1) in \<open>simp_all add: wr_def fun_eq_iff\<close>)
  then show ?thesis using False assms(2) b(1) by (simp add: RiscvCodegen.AddImmediate_def and_then_def)
qed

lemma AddImmediateBranchOverflow_code:
  assumes "rd \<notin> {ZR, TMP2}" "rs1 \<noteq> TMP2" "imm \<noteq> 0" "IsITypeImm imm \<or> imm_ok a imm"
  shows "branch_code a kFarJump (\<lambda>label. AddImmediateBranchOverflow rd rs1 imm label a) (\<lambda>R. wr rd (R rs1 + imm) R)
    (\<lambda>R. add_immediate_branches rd rs1 imm (R rs1)) {TMP2}"
proof (cases "rd = rs1")
  case False
  then show ?thesis using AddImmediateBranchOverflow_other [OF assms(1) _ assms(3,4), of rs1] assms(2)
    by (simp add: add_immediate_branches_def)
next
  case True
  obtain b where b: "RiscvCodegen.AddImmediate rd rd imm kEightBytes (mv TMP2 rd a) = Inr b"
    "computes a b (\<lambda>R. wr rd (R rd + imm) (wr TMP2 (if IsITypeImm imm then R rd else imm) R))"
    using computes_AddImmediate_same [OF assms(1,3,4)] by blast
  have "branch_code a kFarJump
    (\<lambda>label. if sint imm > 0 then blt rd TMP2 label kFarJump b
       else if sint imm < 0 then bgt rd TMP2 label kFarJump b else Inr (label, b))
    (\<lambda>R. wr rd (R rs1 + imm) R) (\<lambda>R. add_immediate_branches rd rs1 imm (R rs1)) {TMP2}"
    by (rule sign_branch_code [OF b(2) assms(3)])
      (use assms(1) True in \<open>auto simp: wr_apply add_immediate_test add_immediate_branches_def\<close>)
  then show ?thesis using True b(1) by (auto simp: AddImmediateBranchOverflow_def and_then_def)
qed

text \<open>With the constant zero there is nothing to branch on.\<close>

lemma AddImmediateBranchOverflow_zero:
  "\<exists>b. (\<forall>label. AddImmediateBranchOverflow rd rs1 0 label a = Inr (label, b)) \<and> (rd = rs1 \<longrightarrow> b = mv TMP2 rs1 a) \<and> (rd \<noteq> rs1 \<longrightarrow> b = addi rd rs1 0 a)"
  by (auto simp: AddImmediateBranchOverflow_def RiscvCodegen.AddImmediate_def and_then_def)
section \<open>Correctness of the range check and of the branches on bits\<close>

lemma uint_diff: "uint (x - y :: u64) = (if sint y \<le> sint x then sint x - sint y else sint x - sint y + 2 ^ 64)"
proof -
  have "uint (x - y) = uint (word_of_int (sint x - sint y) :: u64)" by simp
  also have "\<dots> = (sint x - sint y) mod 2 ^ 64" unfolding uint_word_of_int by simp
  finally have "uint (x - y) = (sint x - sint y) mod 2 ^ 64" .
  moreover have "\<dots> = (sint x - sint y + 2 ^ 64) mod 2 ^ 64" by (metis mod_add_self2)
  ultimately show ?thesis
    using sint_bounds [of x] sint_bounds [of y] mod_pos_pos_trivial [of "sint x - sint y" "2 ^ 64"]
      mod_pos_pos_trivial [of "sint x - sint y + 2 ^ 64" "2 ^ 64"] by auto
qed

lemma in_range_test:
  fixes x low high :: u64
  assumes "sint low \<le> sint high"
  shows "x - low \<le> high - low \<longleftrightarrow> sint low \<le> sint x \<and> sint x \<le> sint high"
  unfolding word_le_def uint_diff using assms sint_bounds [of x] sint_bounds [of high] by auto
lemma computes_imm_ok: "computes a b g \<Longrightarrow> imm_ok b imm = imm_ok a imm"
  using computes_Supports [of a b g RV_Zbs] by (auto simp: imm_ok_def not_pooled_def computes_def)

lemma RangeCheck_code:
  assumes "to_check = (case temp of Some t \<Rightarrow> t | None \<Rightarrow> value)" "to_check \<notin> {ZR, TMP2}" "value \<noteq> TMP2"
    and "imm_ok a (- low)" "imm_ok a (high - low)" "sint low \<le> sint high"
  shows "branch_code a kFarJump (\<lambda>label. RangeCheck value temp low high condition label a) (\<lambda>R. wr to_check (R value - low) R)
    (\<lambda>R. (sint low \<le> sint (R value) \<and> sint (R value) \<le> sint high) = (condition = kIfInRange)) {TMP2}"
proof -
  let ?cc = "if condition = kIfInRange then LS else HI"
  have "writes a (RiscvCodegen.AddImmediate to_check value (- low) kEightBytes a) to_check
      (\<lambda>R. if kEightBytes = kFourBytes then signed_take_bit 31 (R value + - low) else R value + - low) {TMP2}"
    by (rule AddImmediate_writes) (use assms(3,4) in auto)
  then obtain b g where b: "RiscvCodegen.AddImmediate to_check value (- low) kEightBytes a = Inr b" "computes a b g"
    and g: "\<forall>R. R ZR = 0 \<longrightarrow> g R ZR = 0 \<and> g R to_check = R value - low \<and> (\<forall>x. x \<noteq> to_check \<longrightarrow> x \<noteq> TMP2 \<longrightarrow> g R x = R x)"
    using assms(2) unfolding writes_def by auto
  let ?b = "CompareImmediate to_check (high - low) kEightBytes b"
  have ok: "operand_ok ?b" "answers ?b ?cc"
    using assms(2,5) computes_imm_ok [OF b(2)]
    by (simp_all add: operand_ok_def loadable_def answers_def comparison_def CompareImmediate_def imm_ok_def not_pooled_def Supports_def)
  have "branch_code a kFarJump (\<lambda>label. BranchIf ?cc label kFarJump ?b) (\<lambda>R. g R) (\<lambda>R. deferred_holds ?b ?cc (g R)) {TMP2}"
    by (rule branch_code_after [OF b(2) _ _ _ BranchIf_code [OF ok(2,1)]]) (use g in \<open>simp_all add: CompareImmediate_def\<close>)
  then show ?thesis
  proof (rule branch_code_cong)
    show "BranchIf ?cc label kFarJump ?b = RangeCheck value temp low high condition label a" for label
      by (simp add: RangeCheck_def b(1) and_then_def flip: assms(1))
    fix R :: regs assume "R ZR = 0"
    then show "deferred_holds ?b ?cc (g R) = ((sint low \<le> sint (R value) \<and> sint (R value) \<le> sint high) = (condition = kIfInRange))"
      using g in_range_test [OF assms(6), of "R value"]
      by (auto simp: deferred_holds_def CompareImmediate_def compare_holds_def not_le [symmetric])
  qed (use g assms(2) in \<open>auto simp: wr_apply\<close>)
qed

lemma bit_test_code:
  fixes a :: "'o Assembler"
  assumes "IsITypeImm imm" "IsPowerOfTwo imm"
  shows "branch_code a distance (\<lambda>label. beqz TMP2 label distance (andi TMP2 rs imm a)) (\<lambda>R. R) (\<lambda>R. \<not> bit (R rs) (ShiftForPowerOfTwo imm)) {TMP2}"
    "branch_code a distance (\<lambda>label. bnez TMP2 label distance (andi TMP2 rs imm a)) (\<lambda>R. R) (\<lambda>R. bit (R rs) (ShiftForPowerOfTwo imm)) {TMP2}"
proof -
  note b = and_power_of_two [OF assms(2), symmetric]
  show "branch_code a distance (\<lambda>label. beqz TMP2 label distance (andi TMP2 rs imm a)) (\<lambda>R. R) (\<lambda>R. \<not> bit (R rs) (ShiftForPowerOfTwo imm)) {TMP2}"
    unfolding beqz_def
    by (rule branch_code_direct [OF andi_i.correct [OF assms(1)] beq_i.branch_instruction_axioms])
      (simp_all add: wr_apply taken.simps rv_consts b)
  show "branch_code a distance (\<lambda>label. bnez TMP2 label distance (andi TMP2 rs imm a)) (\<lambda>R. R) (\<lambda>R. bit (R rs) (ShiftForPowerOfTwo imm)) {TMP2}"
    unfolding bnez_def
    by (rule branch_code_direct [OF andi_i.correct [OF assms(1)] bne_i.branch_instruction_axioms])
      (simp_all add: wr_apply taken.simps rv_consts b)
qed

lemma small_power:
  assumes "n < 11"
  shows "IsITypeImm (push_bit n 1)" "IsPowerOfTwo (push_bit n 1)" "ShiftForPowerOfTwo (push_bit n 1) = n"
proof -
  have "(2::int) ^ n \<le> 2 ^ 10" using assms by (intro power_increasing) auto
  then have le: "(2::int) ^ n \<le> 1024" and pos: "(0::int) \<le> 2 ^ n" by simp_all
  have w: "signed_take_bit 63 z = z" if "0 \<le> z" "z \<le> 1024" for z :: int using that signed_wrap [of z] by simp
  have "(push_bit n 1 :: intx) = word_of_int (2 ^ n)" by (simp add: push_bit_eq_mult)
  then have "sint (push_bit n 1 :: intx) = signed_take_bit 63 (2 ^ n)" by (simp only: signed_of_int) simp
  also have "\<dots> = 2 ^ n" by (rule w [OF pos le])
  finally have v: "sint (push_bit n 1 :: intx) = 2 ^ n" .
  have "- 2048 \<le> (2::int) ^ n" "(2::int) ^ n < 2048" using le pos by linarith+
  then show "IsITypeImm (push_bit n 1)" unfolding IsITypeImm_iff v by simp
  show "IsPowerOfTwo (push_bit n 1)" using assms unfolding IsPowerOfTwo_iff by (intro exI [of _ n]) simp
  show "ShiftForPowerOfTwo (push_bit n 1) = n" using assms ShiftForPowerOfTwo_power by simp
qed

lemma BranchIfBit_code:
  assumes "bit_number < 11" "test_condition c"
  shows "branch_code a distance (\<lambda>label. BranchIfBit rn bit_number c label distance a) (\<lambda>R. R)
    (\<lambda>R. bit (R rn) bit_number = (c = NOT_ZERO)) {TMP2}"
  using bit_test_code [OF small_power(1,2) [OF assms(1)], of a distance rn] assms(2)
  unfolding small_power(3) [OF assms(1)] by (auto simp: BranchIfBit_def test_condition_def)

lemma BranchIfSmi_code:
  "branch_code a distance (\<lambda>label. BranchIfSmi reg label distance a) (\<lambda>R. R) (\<lambda>R. \<not> bit (R reg) 0) {TMP2}"
  "branch_code a distance (\<lambda>label. BranchIfNotSmi reg label distance a) (\<lambda>R. R) (\<lambda>R. bit (R reg) 0) {TMP2}"
  unfolding BranchIfSmi_def BranchIfNotSmi_def
  using bit_test_code [OF small_power(1,2), of 0 a distance reg] small_power(3) [of 0] by simp_all

lemma BranchIfZero_code: "branch_code a distance (\<lambda>label. BranchIfZero rn label distance a) (\<lambda>R. R) (\<lambda>R. R rn = 0) {}"
  unfolding BranchIfZero_def beqz_def
  by (rule branch_code_direct [OF computes_refl beq_i.branch_instruction_axioms]) (simp_all add: taken.simps rv_consts)
section \<open>Correctness of the conditional set and zero\<close>

text \<open>\<open>sets a r rd f C\<close>: the macro emits code that puts \<open>f\<close> into \<open>rd\<close> and changes no other register outside \<open>C\<close>,
  and the recorded comparison is consumed.\<close>

definition sets ::
    "'o Assembler \<Rightarrow> (asm_error + 'o Assembler) \<Rightarrow> Register \<Rightarrow> (regs \<Rightarrow> u64) \<Rightarrow> Register set \<Rightarrow> bool" where
  "sets a r rd f C =
     (\<exists>a' bs g. r = Inr a' \<and> buffer_m a' = buffer_m a @ bs \<and> deferred_compare_m a' = kNone \<and> executes bs g \<and>
        (\<forall>R. R ZR = 0 \<longrightarrow> g R ZR = 0 \<and> (rd \<noteq> ZR \<longrightarrow> g R rd = f R) \<and> (\<forall>x. x \<noteq> rd \<longrightarrow> x \<notin> C \<longrightarrow> g R x = R x)))"

lemma sets_after:
  fixes a b b' :: "'o Assembler"
  assumes "computes a b g0" "\<And>R. R ZR = 0 \<Longrightarrow> g0 R ZR = 0 \<and> (\<forall>x. x \<noteq> rd \<longrightarrow> x \<notin> C \<longrightarrow> g0 R x = R x)"
    and "buffer_m b' = buffer_m b" "writes b' r rd f C"
    and "\<And>R. R ZR = 0 \<Longrightarrow> rd \<noteq> ZR \<Longrightarrow> f (g0 R) = h R"
  shows "sets a (consume r) rd h C"
proof -
  obtain bs where bs: "b = a\<lparr>buffer_m := buffer_m a @ bs\<rparr>" "executes bs g0" using assms(1) by (auto simp: computes_def)
  obtain d g where d: "r = Inr d" "computes b' d g"
    and g: "\<And>R. R ZR = 0 \<Longrightarrow> g R ZR = 0 \<and> (rd \<noteq> ZR \<longrightarrow> g R rd = f R) \<and> (\<forall>x. x \<noteq> rd \<longrightarrow> x \<notin> C \<longrightarrow> g R x = R x)"
    using assms(4) unfolding writes_def by blast
  obtain cs where cs: "d = b'\<lparr>buffer_m := buffer_m b' @ cs\<rparr>" "executes cs g" using d(2) by (auto simp: computes_def)
  have "executes (bs @ cs) (\<lambda>R. g (g0 R))" using executes_append [OF bs(2) cs(2)] assms(2) by blast
  then show ?thesis unfolding sets_def
    by (intro exI [of _ "d\<lparr>deferred_compare_m := kNone\<rparr>"] exI [of _ "bs @ cs"] exI [of _ "\<lambda>R. g (g0 R)"])
      (use d(1) bs(1) cs(1) assms(2,3,5) g in \<open>simp add: consume_def and_then_def\<close>)
qed

lemma sets_consume:
  assumes "writes b r rd f C" "buffer_m b = buffer_m a"
  shows "sets a (consume r) rd f C"
  by (rule sets_after [OF computes_refl _ assms(2,1)]) simp_all

lemma writes_two:
  assumes "computes a b (\<lambda>R. wr rd (u R) R)" "computes b c (\<lambda>R. wr rd (v R) R)" "rd \<noteq> ZR"
    and "\<And>R. R ZR = 0 \<Longrightarrow> v (wr rd (u R) R) = f R"
  shows "writes a (Inr c) rd f C"
proof (rule writesI)
  show "computes a c (\<lambda>R. wr rd (f R) R)"
    by (rule computes_then [OF assms(1,2)]) (use assms(3,4) in \<open>simp_all add: wr_def fun_eq_iff\<close>)
qed

lemma computes_flag:
  "computes a (seqz rd rs a) (\<lambda>R. wr rd (if R rs = 0 then 1 else 0) R)"
  "computes a (snez rd rs a) (\<lambda>R. wr rd (if R rs \<noteq> 0 then 1 else 0) R)"
  "computes a (sltz rd rs a) (\<lambda>R. wr rd (if sint (R rs) < 0 then 1 else 0) R)"
  "computes a (xori rd rs 1 a) (\<lambda>R. wr rd (R rs XOR 1) R)"
proof -
  show "computes a (seqz rd rs a) (\<lambda>R. wr rd (if R rs = 0 then 1 else 0) R)"
    unfolding seqz_def by (rule computes_cong [OF sltiu_i.correct]) (auto simp: word_less_1)
  show "computes a (snez rd rs a) (\<lambda>R. wr rd (if R rs \<noteq> 0 then 1 else 0) R)"
    unfolding snez_def by (rule computes_cong [OF sltu_i.correct]) (auto simp: word_neq_0_conv)
  show "computes a (sltz rd rs a) (\<lambda>R. wr rd (if sint (R rs) < 0 then 1 else 0) R)"
    unfolding sltz_def by (rule computes_cong [OF slt_i.correct]) simp
  show "computes a (xori rd rs 1 a) (\<lambda>R. wr rd (R rs XOR 1) R)"
    by (rule xori_i.correct) simp
qed

lemma flag_not: "(if p then 1 else 0 :: u64) XOR 1 = (if \<not> p then 1 else 0)"
  by simp

lemma xor_eq_0: "x XOR y = 0 \<longleftrightarrow> x = (y :: u64)"
  by (auto simp: bit_eq_iff bit_xor_iff)

lemma flag_zero: "(if p then 1 else 0 :: u64) = 0 \<longleftrightarrow> \<not> p"
  by simp

lemmas flag_simps = wr_apply flag_not xor_eq_0 flag_zero compare_holds_def not_less not_le

lemma SetIf_reg_writes:
  assumes "comparison c" "rd \<noteq> ZR"
  shows "writes a (SetIf_reg c rd a) rd (\<lambda>R. if compare_holds c (R (deferred_left_m a)) (R (deferred_reg_m a)) then 1 else 0) C"
proof -
  note two = writes_two [OF _ computes_flag(1) assms(2)] writes_two [OF _ computes_flag(2) assms(2)] writes_two [OF _ computes_flag(4) assms(2)]
  note one = writesI_cong [OF slt_i.correct] writesI_cong [OF sltu_i.correct]
    writesI_cong [OF computes_flag(1)] writesI_cong [OF computes_flag(2)]
  have "c = EQUAL \<or> c = NOT_EQUAL \<or> c = LESS \<or> c = LESS_EQUAL \<or> c = GREATER_EQUAL \<or> c = GREATER \<or>
      c = UNSIGNED_LESS \<or> c = UNSIGNED_LESS_EQUAL \<or> c = UNSIGNED_GREATER_EQUAL \<or> c = UNSIGNED_GREATER"
    using assms(1) by (simp add: comparison_def)
  then show ?thesis
    by (elim disjE)
      (use assms(2) in \<open>auto simp: SetIf_reg_def Let_def flag_simps intro!: one two [OF xor_r_i.correct] two [OF slt_i.correct] two [OF sltu_i.correct]\<close>)
qed
text \<open>The constants for which the comparison with an immediate operand is exact. The equality conditions negate the
  constant, the unsigned ones with equality add one to it.\<close>

definition imm_exact :: "Condition \<Rightarrow> intx \<Rightarrow> bool" where
  "imm_exact c imm \<longleftrightarrow>
     \<not> (imm = - 2048 \<and> (c = EQUAL \<or> c = NOT_EQUAL)) \<and> \<not> (imm = - 1 \<and> (c = UNSIGNED_LESS_EQUAL \<or> c = UNSIGNED_GREATER))"

lemma IsITypeImm_uminus:
  assumes "IsITypeImm imm" "imm \<noteq> - 2048"
  shows "IsITypeImm (- imm)"
proof -
  have "sint imm \<noteq> - 2048"
  proof
    assume "sint imm = - 2048"
    then have "sint imm = sint (- 2048 :: intx)" by simp
    then show False using assms(2) by (metis signed_word_eqI)
  qed
  moreover have "sint (- imm) = - sint imm"
    using sint_sub_wrap [of 0 imm] assms(1) by (simp add: IsITypeImm_iff)
  ultimately show ?thesis using assms(1) by (simp add: IsITypeImm_iff)
qed

lemma succ_immediate:
  fixes imm x :: u64
  assumes "IsITypeImm imm"
  shows "sint x < sint (imm + 1) \<longleftrightarrow> sint x \<le> sint imm" "imm \<noteq> - 1 \<Longrightarrow> x < imm + 1 \<longleftrightarrow> x \<le> imm"
proof -
  have "sint (imm + 1) = sint imm + 1" using sint_add_wrap [of imm 1] assms by (simp add: IsITypeImm_iff)
  then show "sint x < sint (imm + 1) \<longleftrightarrow> sint x \<le> sint imm" by linarith
  assume "imm \<noteq> - 1"
  then have "imm + 1 \<noteq> 0" by (metis add_eq_0_iff2)
  then show "x < imm + 1 \<longleftrightarrow> x \<le> imm" using unatSuc [of imm] by (simp add: add.commute word_less_nat_alt word_le_nat_alt less_Suc_eq_le)
qed

lemma computes_compare_imm:
  assumes "IsITypeImm imm" "IsITypeImm (imm + 1)"
  shows "imm \<noteq> - 2048 \<Longrightarrow> computes a (subi rd rs imm a) (\<lambda>R. wr rd (R rs - imm) R)"
    "computes a (slti rd rs imm a) (\<lambda>R. wr rd (if sint (R rs) < sint imm then 1 else 0) R)"
    "computes a (slti rd rs (imm + 1) a) (\<lambda>R. wr rd (if sint (R rs) \<le> sint imm then 1 else 0) R)"
    "computes a (sltiu rd rs imm a) (\<lambda>R. wr rd (if R rs < imm then 1 else 0) R)"
    "imm \<noteq> - 1 \<Longrightarrow> computes a (sltiu rd rs (imm + 1) a) (\<lambda>R. wr rd (if R rs \<le> imm then 1 else 0) R)"
  using addi_i.correct [OF IsITypeImm_uminus [OF assms(1)], of a rd rs] slti_i.correct [OF assms(1), of a rd rs] slti_i.correct [OF assms(2), of a rd rs]
    sltiu_i.correct [OF assms(1), of a rd rs] sltiu_i.correct [OF assms(2), of a rd rs] succ_immediate [OF assms(1)]
  by (simp_all add: subi_def)

lemma comparison_cases:
  assumes "comparison c"
  shows "c = EQUAL \<or> c = NOT_EQUAL \<or> c = LESS \<or> c = LESS_EQUAL \<or> c = GREATER_EQUAL \<or> c = GREATER \<or>
      c = UNSIGNED_LESS \<or> c = UNSIGNED_LESS_EQUAL \<or> c = UNSIGNED_GREATER_EQUAL \<or> c = UNSIGNED_GREATER"
  using assms by (simp add: comparison_def)

lemma SetIf_imm_writes:
  assumes "comparison c" "rd \<noteq> ZR" "IsITypeImm (deferred_imm_m a)" "IsITypeImm (deferred_imm_m a + 1)" "imm_exact c (deferred_imm_m a)"
  shows "writes a (SetIf_imm c rd a) rd (\<lambda>R. if compare_holds c (R (deferred_left_m a)) (deferred_imm_m a) then 1 else 0) C"
proof -
  note imm = computes_compare_imm [OF assms(3,4)]
  note two = writes_two [OF _ computes_flag(1) assms(2)] writes_two [OF _ computes_flag(2) assms(2)] writes_two [OF _ computes_flag(4) assms(2)]
  show ?thesis using comparison_cases [OF assms(1)]
    by (elim disjE)
      (use assms(2,5) in \<open>auto simp: SetIf_imm_def Let_def flag_simps imm_exact_def intro!: writesI_cong [OF imm(2)] writesI_cong [OF imm(3)]
        writesI_cong [OF imm(4)] writesI_cong [OF imm(5)] two [OF imm(1)] two [OF imm(2)] two [OF imm(3)] two [OF imm(4)] two [OF imm(5)]\<close>)
qed

text \<open>One bit of a register, as both macros extract it.\<close>

lemma sim_bext_bit: "k < 64 \<Longrightarrow> sim_bext x (of_nat k) = (if bit x k then 1 else 0)"
  unfolding sim_bext_def unat_and_63 by (simp add: unat_of_nat_64 bit_iff_odd_drop_bit and_one_eq odd_iff_mod_2_eq_one)

lemma computes_extract:
  assumes "k < 64" "rd \<noteq> ZR"
  shows "computes a (if k = 63 then sltz rd rs a else if zbs then bexti rd rs (of_nat k) a else andi rd rd 1 (srli rd rs (of_nat k) a))
    (\<lambda>R. wr rd (if bit (R rs) k then 1 else 0) R)"
proof -
  have u: "unat (of_nat k :: intx) = k" by (rule unat_of_nat_64 [OF assms(1)])
  have "computes a (sltz rd rs a) (\<lambda>R. wr rd (if bit (R rs) 63 then 1 else 0) R)"
    using computes_flag(3) [of a rd rs] by (simp add: sint_neg_bit)
  moreover have "computes a (bexti rd rs (of_nat k) a) (\<lambda>R. wr rd (if bit (R rs) k then 1 else 0) R)"
    by (rule computes_cong [OF bexti_i.correct]) (use assms in \<open>simp_all add: u sim_bext_bit\<close>)
  moreover have "computes a (andi rd rd 1 (srli rd rs (of_nat k) a)) (\<lambda>R. wr rd (if bit (R rs) k then 1 else 0) R)"
    by (rule computes_then [OF srli_i.correct andi_i.correct])
      (use assms in \<open>simp_all add: u wr_def fun_eq_iff and_one_eq bit_iff_odd_drop_bit odd_iff_mod_2_eq_one\<close>)
  ultimately show ?thesis by simp
qed
lemma SetIf_bit_writes:
  assumes "test_condition c" "rd \<noteq> ZR" "IsPowerOfTwo (deferred_imm_m a)"
  shows "writes a (SetIf_bit c rd a) rd (\<lambda>R. if test_holds c (R (deferred_left_m a) AND deferred_imm_m a) then 1 else 0) C"
proof -
  let ?k = "ShiftForPowerOfTwo (deferred_imm_m a)" and ?l = "deferred_left_m a"
  let ?b = "if ?k = 0 then andi rd ?l 1 a else if ?k = 63 then sltz rd ?l a else if Supports a RV_Zbs then bexti rd ?l (of_nat ?k) a
      else andi rd rd 1 (srli rd ?l (of_nat ?k) a)"
  note and_bit = and_power_of_two [OF assms(3)]
  have "computes a (andi rd ?l 1 a) (\<lambda>R. wr rd (if bit (R ?l) 0 then 1 else 0) R)"
    by (rule computes_cong [OF andi_i.correct]) (simp_all add: and_one_eq bit_0 odd_iff_mod_2_eq_one)
  then have b: "computes a ?b (\<lambda>R. wr rd (if bit (R ?l) ?k then 1 else 0) R)"
    using computes_extract [OF power_shift(1) [OF assms(3)] assms(2), of a ?l "Supports a RV_Zbs"] by simp
  have "writes a (Inr (xori rd rd 1 ?b)) rd (\<lambda>R. if R ?l AND deferred_imm_m a = 0 then 1 else 0) C"
    by (rule writes_two [OF b computes_flag(4) assms(2)]) (use and_bit assms(2) in \<open>auto simp: flag_simps\<close>)
  moreover have "writes a (Inr ?b) rd (\<lambda>R. if R ?l AND deferred_imm_m a \<noteq> 0 then 1 else 0) C"
    by (rule writesI_cong [OF b]) (simp add: and_bit)
  ultimately show ?thesis using assms(1) by (auto simp: test_condition_def test_holds_def SetIf_bit_def Let_def)
qed

text \<open>A macro that ends with a test of the value it has put into its destination.\<close>

lemma writes_finish:
  assumes "writes a r rd f C" "\<And>b. writes b (k b) rd v C" "rd \<noteq> ZR"
    and "\<And>R R'. R ZR = 0 \<Longrightarrow> R' rd = f R \<Longrightarrow> \<forall>x. x \<noteq> rd \<longrightarrow> x \<notin> C \<longrightarrow> R' x = R x \<Longrightarrow> v R' = h R"
  shows "writes a (and_then r k) rd h C"
proof -
  obtain b g where b: "r = Inr b" "computes a b g"
    and g: "\<And>R. R ZR = 0 \<Longrightarrow> g R ZR = 0 \<and> g R rd = f R \<and> (\<forall>x. x \<noteq> rd \<longrightarrow> x \<notin> C \<longrightarrow> g R x = R x)"
    using assms(1,3) unfolding writes_def by blast
  obtain d g' where d: "k b = Inr d" "computes b d g'"
    and g': "\<And>R. R ZR = 0 \<Longrightarrow> g' R ZR = 0 \<and> g' R rd = v R \<and> (\<forall>x. x \<noteq> rd \<longrightarrow> x \<notin> C \<longrightarrow> g' R x = R x)"
    using assms(2) [of b] assms(3) unfolding writes_def by blast
  have "v (g R) = h R" if "R ZR = 0" for R using assms(4) [of R "g R"] g [of R] that by blast
  then show ?thesis unfolding writes_def
    by (intro exI [of _ d] exI [of _ "\<lambda>R. g' (g R)"]) (use b(1) d(1) computes_trans [OF b(2) d(2)] g g' in \<open>simp add: and_then_def\<close>)
qed

lemma SetIf_test_writes:
  assumes "test_condition c" "rd \<noteq> ZR"
  shows "writes b (SetIf_test c rd b) rd (\<lambda>R. if test_holds c (R rd) then 1 else 0) C"
  using assms computes_flag(1,2) [of b rd rd]
  by (auto simp: test_condition_def test_holds_def SetIf_test_def intro!: writesI)

lemma and_then_consume: "and_then r (\<lambda>a. consume (k a)) = consume (and_then r k)"
  by (simp add: consume_def and_then_def split: sum.split)

lemma deferred_test_writes:
  assumes "deferred_compare_m a = kTestImm" "operand_ok a" "\<not> IsPowerOfTwo (deferred_imm_m a)"
  shows "writes a (AndImmediate rd (deferred_left_m a) (deferred_imm_m a) kEightBytes a) rd (\<lambda>R. R (deferred_left_m a) AND deferred_imm_m a) {TMP2}"
proof -
  have m: "and_mask kEightBytes (deferred_imm_m a) = deferred_imm_m a" by (simp add: and_mask_def)
  have "writes a (AndImmediate rd (deferred_left_m a) (deferred_imm_m a) kEightBytes a) rd
      (\<lambda>R. R (deferred_left_m a) AND and_mask kEightBytes (deferred_imm_m a)) {TMP2}"
    by (rule AndImmediate_writes) (use assms in \<open>auto simp: m operand_ok_def loadable_def\<close>)
  then show ?thesis unfolding m .
qed

lemma SetIf_test_sets:
  assumes "test_condition c" "operand_ok a" "rd \<noteq> ZR" "deferred_compare_m a = kTestReg \<or> deferred_compare_m a = kTestImm"
  shows "sets a (SetIf c rd a) rd (\<lambda>R. if deferred_holds a c R then 1 else 0) {TMP2}"
  using assms(4)
proof
  let ?l = "deferred_left_m a"
  assume k: "deferred_compare_m a = kTestReg"
  have "writes a (and_then (Inr (and_r rd ?l (deferred_reg_m a) a)) (SetIf_test c rd)) rd
      (\<lambda>R. if test_holds c (R ?l AND R (deferred_reg_m a)) then 1 else 0) {TMP2}"
    by (rule writes_finish [OF writesI [OF and_r_i.correct] SetIf_test_writes [OF assms(1,3)] assms(3)]) simp
  then show ?thesis using k by (auto simp: SetIf_def deferred_holds_def and_then_def intro!: sets_consume)
next
  assume k: "deferred_compare_m a = kTestImm"
  show ?thesis
  proof (cases "IsPowerOfTwo (deferred_imm_m a)")
    case True
    then show ?thesis using k SetIf_bit_writes [OF assms(1,3)] by (auto simp: SetIf_def deferred_holds_def intro!: sets_consume)
  next
    case False
    have "writes a (and_then (AndImmediate rd (deferred_left_m a) (deferred_imm_m a) kEightBytes a) (SetIf_test c rd)) rd
        (\<lambda>R. if test_holds c (R (deferred_left_m a) AND deferred_imm_m a) then 1 else 0) {TMP2}"
      by (rule writes_finish [OF deferred_test_writes [OF k assms(2) False] SetIf_test_writes [OF assms(1,3)] assms(3)]) simp
    then show ?thesis using k False by (auto simp: SetIf_def deferred_holds_def and_then_consume intro!: sets_consume)
  qed
qed
text \<open>Where the comparison with a constant is turned into one of registers, with \<open>ZR\<close> or with the loaded constant.\<close>

lemma compare_imm_sets:
  fixes a :: "'o Assembler" and F :: "'o Assembler \<Rightarrow> asm_error + 'o Assembler"
  assumes "operand_ok a" "deferred_compare_m a = kCompareImm"
    and "\<And>b. writes b (F b) rd (\<lambda>R. v R (compare_holds c (R (deferred_left_m b)) (R (deferred_reg_m b)))) {TMP2}"
    and "\<And>R p. v (wr TMP2 (deferred_imm_m a) R) p = v R p"
    and "r = (if deferred_imm_m a = 0 then consume (F (a\<lparr>deferred_compare_m := kCompareReg, deferred_reg_m := ZR\<rparr>))
       else and_then (LoadImmediate TMP2 (deferred_imm_m a) a)
         (\<lambda>a. consume (F (a\<lparr>deferred_compare_m := kCompareReg, deferred_reg_m := TMP2\<rparr>))))"
  shows "sets a r rd (\<lambda>R. v R (deferred_holds a c R)) {TMP2}"
proof (cases "deferred_imm_m a = 0")
  case True
  have "sets a (consume (F (a\<lparr>deferred_compare_m := kCompareReg, deferred_reg_m := ZR\<rparr>))) rd (\<lambda>R. v R (deferred_holds a c R)) {TMP2}"
    by (rule sets_after [OF computes_refl _ _ assms(3)]) (use True assms(2) in \<open>simp_all add: deferred_holds_def\<close>)
  then show ?thesis using True assms(5) by simp
next
  case False
  then have l: "loadable a" using assms(1,2) by (simp add: operand_ok_def)
  then obtain b where b: "LoadImmediate TMP2 (deferred_imm_m a) a = Inr b" "computes a b (\<lambda>R. wr TMP2 (deferred_imm_m a) R)"
    using LoadImmediate_correct unfolding loadable_def by blast
  have left: "deferred_left_m b = deferred_left_m a" using b(2) by (auto simp: computes_def)
  have "sets a (consume (F (b\<lparr>deferred_compare_m := kCompareReg, deferred_reg_m := TMP2\<rparr>))) rd (\<lambda>R. v R (deferred_holds a c R)) {TMP2}"
    by (rule sets_after [OF b(2) _ _ assms(3)])
      (use l assms(2,4) in \<open>simp_all add: deferred_holds_def left loadable_def wr_apply\<close>)
  then show ?thesis using False assms(5) b(1) by (simp add: and_then_def)
qed

lemma SetIf_compare_sets:
  assumes "comparison c" "operand_ok a" "rd \<noteq> ZR" "deferred_compare_m a = kCompareReg \<or> deferred_compare_m a = kCompareImm"
    and "deferred_compare_m a = kCompareImm \<Longrightarrow> imm_exact c (deferred_imm_m a)"
  shows "sets a (SetIf c rd a) rd (\<lambda>R. if deferred_holds a c R then 1 else 0) {TMP2}"
  using assms(4)
proof
  assume "deferred_compare_m a = kCompareReg"
  then show ?thesis using SetIf_reg_writes [OF assms(1,3)] by (auto simp: SetIf_def deferred_holds_def intro!: sets_consume)
next
  assume k: "deferred_compare_m a = kCompareImm"
  let ?imm = "deferred_imm_m a"
  show ?thesis
  proof (cases "?imm \<noteq> 0 \<and> IsITypeImm ?imm \<and> IsITypeImm (?imm + 1)")
    case True
    then show ?thesis using k SetIf_imm_writes [OF assms(1,3), of a] assms(5) [OF k]
      by (auto simp: SetIf_def deferred_holds_def intro!: sets_consume)
  next
    case False
    then show ?thesis
      by (intro compare_imm_sets [OF assms(2) k SetIf_reg_writes [OF assms(1,3)]]) (use k in \<open>auto simp: SetIf_def\<close>)
  qed
qed

lemma SetIf_sets:
  assumes "answers a c" "operand_ok a" "rd \<noteq> ZR" "deferred_compare_m a = kCompareImm \<Longrightarrow> imm_exact c (deferred_imm_m a)"
  shows "sets a (SetIf c rd a) rd (\<lambda>R. if deferred_holds a c R then 1 else 0) {TMP2}"
  using SetIf_compare_sets [OF _ assms(2,3) _ assms(4)] SetIf_test_sets [OF _ assms(2,3)] assms(1)
  by (cases "deferred_compare_m a") (simp_all add: answers_def)

text \<open>The exceptions are real: after a comparison with \<open>-1\<close> the unsigned conditions with equality are constant.\<close>

lemma SetIf_minus_one:
  assumes "rd \<noteq> ZR"
  shows "sets a (SetIf UNSIGNED_LESS_EQUAL rd (CompareImmediate rn (- 1) sz a)) rd (\<lambda>R. 0) C"
proof -
  let ?a = "CompareImmediate rn (- 1) sz a"
  have s: "IsITypeImm (- 1)" "IsITypeImm (- 1 + 1)" by (simp_all add: IsITypeImm_iff)
  have "writes ?a (Inr (sltiu rd rn 0 ?a)) rd (\<lambda>R. 0) C"
    by (rule writesI_cong [OF sltiu_i.correct]) simp_all
  moreover have "SetIf UNSIGNED_LESS_EQUAL rd ?a = consume (Inr (sltiu rd rn 0 ?a))"
    using s by (simp add: SetIf_def SetIf_imm_def CompareImmediate_def Let_def)
  ultimately show ?thesis using sets_consume [of ?a _ rd _ C a] by (simp add: CompareImmediate_def)
qed

section \<open>Correctness of the conditional zero\<close>

lemma ZeroIf_reg_writes:
  assumes "comparison c" "rd \<noteq> ZR" "rd \<noteq> otherwise"
  shows "writes a (ZeroIf_reg c rd otherwise a) rd
    (\<lambda>R. if compare_holds c (R (deferred_left_m a)) (R (deferred_reg_m a)) then 0 else R otherwise) C"
proof -
  note two = writes_two [OF _ czeroeqz_i.correct assms(2)] writes_two [OF _ czeronez_i.correct assms(2)]
  show ?thesis using comparison_cases [OF assms(1)]
    by (elim disjE)
      (use assms(2,3) in \<open>auto simp: ZeroIf_reg_def Let_def flag_simps intro!: writesI_cong [OF czeroeqz_i.correct] writesI_cong [OF czeronez_i.correct]
        two [OF xor_r_i.correct] two [OF slt_i.correct] two [OF sltu_i.correct]\<close>)
qed

lemma ZeroIf_imm_writes:
  assumes "comparison c" "rd \<noteq> ZR" "rd \<noteq> otherwise" "IsITypeImm (deferred_imm_m a)" "IsITypeImm (deferred_imm_m a + 1)" "imm_exact c (deferred_imm_m a)"
  shows "writes a (ZeroIf_imm c rd otherwise a) rd (\<lambda>R. if compare_holds c (R (deferred_left_m a)) (deferred_imm_m a) then 0 else R otherwise) C"
proof -
  note imm = computes_compare_imm [OF assms(4,5)]
  note two = writes_two [OF _ czeroeqz_i.correct assms(2)] writes_two [OF _ czeronez_i.correct assms(2)]
  show ?thesis using comparison_cases [OF assms(1)]
    by (elim disjE)
      (use assms(2,3,6) in \<open>auto simp: ZeroIf_imm_def Let_def flag_simps imm_exact_def
        intro!: two [OF imm(1)] two [OF imm(2)] two [OF imm(3)] two [OF imm(4)] two [OF imm(5)]\<close>)
qed

lemma ZeroIf_test_writes:
  assumes "test_condition c" "rd \<noteq> ZR" "rd \<noteq> otherwise"
  shows "writes b (ZeroIf_test c rd otherwise b) rd (\<lambda>R. if test_holds c (R rd) then 0 else R otherwise) C"
  using assms by (auto simp: test_condition_def test_holds_def ZeroIf_test_def intro!: writesI_cong [OF czeroeqz_i.correct] writesI_cong [OF czeronez_i.correct])

lemma ZeroIf_compare_sets:
  assumes "comparison c" "operand_ok a" "rd \<noteq> ZR" "otherwise \<notin> {rd, TMP2}" "deferred_compare_m a = kCompareReg \<or> deferred_compare_m a = kCompareImm"
    and "deferred_compare_m a = kCompareImm \<Longrightarrow> imm_exact c (deferred_imm_m a)"
  shows "sets a (ZeroIf c rd otherwise a) rd (\<lambda>R. if deferred_holds a c R then 0 else R otherwise) {TMP2}"
  using assms(5)
proof
  have ne: "rd \<noteq> otherwise" using assms(4) by blast
  assume "deferred_compare_m a = kCompareReg"
  then show ?thesis using ZeroIf_reg_writes [OF assms(1,3) ne] by (auto simp: ZeroIf_def deferred_holds_def intro!: sets_consume)
next
  assume k: "deferred_compare_m a = kCompareImm"
  have ne: "rd \<noteq> otherwise" using assms(4) by blast
  let ?imm = "deferred_imm_m a"
  show ?thesis
  proof (cases "?imm \<noteq> 0 \<and> IsITypeImm ?imm \<and> IsITypeImm (?imm + 1)")
    case True
    then show ?thesis using k ZeroIf_imm_writes [OF assms(1,3) ne, of a] assms(6) [OF k]
      by (auto simp: ZeroIf_def deferred_holds_def intro!: sets_consume)
  next
    case False
    then show ?thesis
      by (intro compare_imm_sets [OF assms(2) k ZeroIf_reg_writes [OF assms(1,3) ne]]) (use k assms(4) in \<open>auto simp: ZeroIf_def wr_apply\<close>)
  qed
qed

lemma ZeroIf_mask_writes:
  assumes "deferred_compare_m a = kTestImm" "operand_ok a" "rd \<noteq> ZR"
  shows "\<exists>f. writes a (ZeroIf_mask rd a) rd f {TMP2} \<and> (\<forall>R. f R = 0 \<longleftrightarrow> R (deferred_left_m a) AND deferred_imm_m a = 0)"
proof -
  let ?l = "deferred_left_m a" and ?imm = "deferred_imm_m a"
  consider (small) "IsITypeImm ?imm" | (bit) "\<not> IsITypeImm ?imm" "IsPowerOfTwo ?imm" | (other) "\<not> IsITypeImm ?imm" "\<not> IsPowerOfTwo ?imm"
    by blast
  then show ?thesis
  proof cases
    case small
    then show ?thesis by (intro exI [of _ "\<lambda>R. R ?l AND ?imm"]) (simp add: ZeroIf_mask_def writesI [OF andi_i.correct])
  next
    case bit
    have "writes a (ZeroIf_mask rd a) rd (\<lambda>R. if bit (R ?l) (ShiftForPowerOfTwo ?imm) then 1 else 0) {TMP2}"
      unfolding ZeroIf_mask_def Let_def if_not_P [OF bit(1)] if_P [OF bit(2)]
      by (rule writesI [OF computes_extract [OF power_shift(1) [OF bit(2)] assms(3)]])
    then show ?thesis
      using and_power_of_two [OF bit(2)] by (intro exI [of _ "\<lambda>R. if bit (R ?l) (ShiftForPowerOfTwo ?imm) then 1 else 0"]) auto
  next
    case other
    then show ?thesis
      using deferred_test_writes [OF assms(1,2) other(2), of rd] by (intro exI [of _ "\<lambda>R. R ?l AND ?imm"]) (simp add: ZeroIf_mask_def)
  qed
qed

lemma ZeroIf_test_sets:
  assumes "test_condition c" "operand_ok a" "rd \<noteq> ZR" "otherwise \<notin> {rd, TMP2}" "deferred_compare_m a = kTestReg \<or> deferred_compare_m a = kTestImm"
  shows "sets a (ZeroIf c rd otherwise a) rd (\<lambda>R. if deferred_holds a c R then 0 else R otherwise) {TMP2}"
  using assms(5)
proof
  have ne: "rd \<noteq> otherwise" using assms(4) by blast
  let ?l = "deferred_left_m a"
  assume k: "deferred_compare_m a = kTestReg"
  have "writes a (and_then (Inr (and_r rd ?l (deferred_reg_m a) a)) (ZeroIf_test c rd otherwise)) rd
      (\<lambda>R. if test_holds c (R ?l AND R (deferred_reg_m a)) then 0 else R otherwise) {TMP2}"
    by (rule writes_finish [OF writesI [OF and_r_i.correct] ZeroIf_test_writes [OF assms(1,3) ne] assms(3)]) (use assms(4) in auto)
  then show ?thesis using k by (auto simp: ZeroIf_def deferred_holds_def and_then_def intro!: sets_consume)
next
  have ne: "rd \<noteq> otherwise" using assms(4) by blast
  assume k: "deferred_compare_m a = kTestImm"
  obtain f where f: "writes a (ZeroIf_mask rd a) rd f {TMP2}" "\<forall>R. f R = 0 \<longleftrightarrow> R (deferred_left_m a) AND deferred_imm_m a = 0"
    using ZeroIf_mask_writes [OF k assms(2,3)] by blast
  have "writes a (and_then (ZeroIf_mask rd a) (ZeroIf_test c rd otherwise)) rd
      (\<lambda>R. if test_holds c (R (deferred_left_m a) AND deferred_imm_m a) then 0 else R otherwise) {TMP2}"
    by (rule writes_finish [OF f(1) ZeroIf_test_writes [OF assms(1,3) ne] assms(3)]) (use assms(4) f(2) in \<open>auto simp: test_holds_def\<close>)
  then show ?thesis using k by (auto simp: ZeroIf_def deferred_holds_def and_then_consume intro!: sets_consume)
qed

lemma ZeroIf_sets:
  assumes "answers a c" "operand_ok a" "rd \<noteq> ZR" "otherwise \<notin> {rd, TMP2}"
    and "deferred_compare_m a = kCompareImm \<Longrightarrow> imm_exact c (deferred_imm_m a)"
  shows "sets a (ZeroIf c rd otherwise a) rd (\<lambda>R. if deferred_holds a c R then 0 else R otherwise) {TMP2}"
  using ZeroIf_compare_sets [OF _ assms(2-4) _ assms(5)] ZeroIf_test_sets [OF _ assms(2-4)] assms(1)
  by (cases "deferred_compare_m a") (simp_all add: answers_def)
section \<open>Conditional jumps\<close>

text \<open>\<open>conditional_jump a distance F g c K\<close>, for a macro \<open>F\<close> with a label as argument, emitted in state \<open>a\<close>:
  \<^item> it succeeds for a new label;
  \<^item> if any code follows and the label is then bound, the code of the macro changes the registers outside \<open>K\<close> by \<open>g\<close>
    and ends at the label if \<open>c\<close> held before, otherwise at its end;
  \<^item> the same holds for a label that is bound already, which stays as it is.

  The label has to be within reach of every place where the macro may put its branch.\<close>

definition conditional_jump ::
    "'o Assembler \<Rightarrow> JumpDistance \<Rightarrow> (Label \<Rightarrow> asm_error + Label \<times> 'o Assembler) \<Rightarrow> (regs \<Rightarrow> regs) \<Rightarrow> (regs \<Rightarrow> bool) \<Rightarrow>
     Register set \<Rightarrow> bool" where
  "conditional_jump a distance F g c K \<longleftrightarrow>
     (\<exists>r. F new_label = Inr r) \<and>
     (\<forall>l1 a1 (a2 :: 'o Assembler) cs. F new_label = Inr (l1, a1) \<longrightarrow> buffer_m a2 = buffer_m a1 @ cs \<longrightarrow> length (buffer_m a2) < 2 ^ 31 \<longrightarrow>
        (\<forall>p. Position a \<le> p \<and> p \<le> Position a1 \<and> even (p - Position a) \<longrightarrow> reachable distance a (offset_between p (Position a2))) \<longrightarrow>
        (\<exists>bs. Bind l1 a2 = Some (Inr (bound_at (Position a2), a2\<lparr>buffer_m := buffer_m a @ bs @ cs\<rparr>)) \<and>
           length (buffer_m a @ bs) = length (buffer_m a1) \<and>
           transfers bs g c (offset_between (Position a) (Position a2)) (insert FAR_TMP K))) \<and>
     (\<forall>label l' a'. IsBound label \<longrightarrow> F label = Inr (l', a') \<longrightarrow>
        (\<forall>p. Position a \<le> p \<and> p \<le> Position a' \<and> even (p - Position a) \<longrightarrow>
           back_distance p (position_m label) \<and> back_reach distance (offset_between p (position_m label))) \<longrightarrow>
        l' = label \<and>
        (\<exists>bs. buffer_m a' = buffer_m a @ bs \<and> transfers bs g c (offset_between (Position a) (position_m label)) (insert FAR_TMP K)))"

lemma branch_code_jump:
  fixes a :: "'o Assembler"
  assumes "branch_code a distance F g c K"
  shows "conditional_jump a distance F g c K"
  unfolding conditional_jump_def
proof (intro conjI allI impI)
  show "\<exists>r. F new_label = Inr r" by (rule branch_code_fresh [OF assms])
next
  fix l1 a1 and a2 :: "'o Assembler" and cs
  assume "F new_label = Inr (l1, a1)" "buffer_m a2 = buffer_m a1 @ cs" "length (buffer_m a2) < 2 ^ 31"
    "\<forall>p. Position a \<le> p \<and> p \<le> Position a1 \<and> even (p - Position a) \<longrightarrow> reachable distance a (offset_between p (Position a2))"
  then show "\<exists>bs. Bind l1 a2 = Some (Inr (bound_at (Position a2), a2\<lparr>buffer_m := buffer_m a @ bs @ cs\<rparr>)) \<and>
      length (buffer_m a @ bs) = length (buffer_m a1) \<and> transfers bs g c (offset_between (Position a) (Position a2)) (insert FAR_TMP K)"
    by (intro branch_code_forward [OF assms]) simp_all
next
  fix label l' a'
  assume b: "IsBound label" "F label = Inr (l', a')"
    "\<forall>p. Position a \<le> p \<and> p \<le> Position a' \<and> even (p - Position a) \<longrightarrow>
           back_distance p (position_m label) \<and> back_reach distance (offset_between p (position_m label))"
  have "l' = label \<and> (\<exists>bs. buffer_m a' = buffer_m a @ bs \<and>
      transfers bs g c (offset_between (Position a) (position_m label)) (insert FAR_TMP K))"
    by (rule branch_code_backward [OF assms b(1,2)]) (use b(3) in simp)
  then show "l' = label" "\<exists>bs. buffer_m a' = buffer_m a @ bs \<and>
      transfers bs g c (offset_between (Position a) (position_m label)) (insert FAR_TMP K)" by simp_all
qed
end
