(* ===== verification/RiscvBits.thy ===== *)
theory RiscvBits
  imports RiscvBranch
begin

text \<open>
  \<open>Assembler::CountLeadingZeroes\<close> of \<^verbatim>\<open>runtime/vm/compiler/assembler/assembler_riscv.cc\<close>: one instruction if the
  processor has it, otherwise a binary search of six blocks, each of which skips its second half by a
  near branch to a label that is bound at its end. The code is composed of blocks that end where they end
  whichever way the branch goes, and computes the same number as the instruction.
\<close>

section \<open>The macro\<close>

definition CountLeadingZeroes_step :: "intx \<Rightarrow> Register \<Rightarrow> 'o Assembler \<Rightarrow> (asm_error + 'o Assembler) option" where
  "CountLeadingZeroes_step shift rs a =
     then_bind (Some (beqz TMP new_label kNearJump (srli TMP rs shift a))) (\<lambda>(label, a).
       then_bind (Bind label (mv rs TMP (subi TMP2 TMP2 shift a))) (\<lambda>(label, a). Some (Inr a)))"

definition CountLeadingZeroes_last :: "Register \<Rightarrow> Register \<Rightarrow> 'o Assembler \<Rightarrow> (asm_error + 'o Assembler) option" where
  "CountLeadingZeroes_last rd rs a =
     then_bind (Some (beqz TMP new_label kNearJump (sub rd TMP2 rs (srli TMP rs 1 a)))) (\<lambda>(label, a).
       then_bind (Bind label (subi rd TMP2 2 a)) (\<lambda>(label, a). Some (Inr a)))"

definition CountLeadingZeroes :: "Register \<Rightarrow> Register \<Rightarrow> 'o Assembler \<Rightarrow> (asm_error + 'o Assembler) option" where
  "CountLeadingZeroes rd rs a =
     (if Supports a RV_Zbb then Some (Inr (clz rd rs a))
      else
        let a = li TMP2 64 a
        in then_bind (CountLeadingZeroes_step 32 rs a) (\<lambda>a.
           then_bind (CountLeadingZeroes_step 16 rs a) (\<lambda>a.
           then_bind (CountLeadingZeroes_step 8 rs a) (\<lambda>a.
           then_bind (CountLeadingZeroes_step 4 rs a) (\<lambda>a.
           then_bind (CountLeadingZeroes_step 2 rs a) (\<lambda>a.
           CountLeadingZeroes_last rd rs a))))))"

section \<open>The number of significant bits\<close>

definition significant :: "u64 \<Rightarrow> nat" where
  "significant x = 64 - countl_zero x"

lemma takeWhile_rev_upt:
  assumes "k < n" "\<not> P k" "\<And>i. k < i \<Longrightarrow> i < n \<Longrightarrow> P i"
  shows "length (takeWhile P (rev [0..<n])) = n - Suc k"
  using assms
proof (induction n)
  case (Suc n)
  show ?case
  proof (cases "k = n")
    case False
    then have "length (takeWhile P (rev [0..<n])) = n - Suc k" using Suc by simp
    then show ?thesis using Suc(2,4) False by (simp add: Suc_diff_Suc)
  qed (use Suc(3) in simp)
qed simp

lemma significant_top:
  assumes "bit x k" "\<And>i. k < i \<Longrightarrow> \<not> bit x i"
  shows "significant x = Suc k"
proof -
  have "k < 64" using bit_imp_le_length [OF assms(1)] by simp
  moreover have "countl_zero x = 64 - Suc k"
    unfolding countl_zero_def using takeWhile_rev_upt [of k 64 "\<lambda>i. \<not> bit x i"] assms \<open>k < 64\<close> by simp
  ultimately show ?thesis by (simp add: significant_def)
qed

lemma countl_zero_le: "countl_zero x \<le> 64" for x :: u64
  unfolding countl_zero_def using length_takeWhile_le [of "\<lambda>i. \<not> bit x i" "rev [0..<LENGTH(64)]"] by simp

lemma significant_0 [simp]: "significant 0 = 0"
proof -
  have "takeWhile (\<lambda>i. \<not> bit (0 :: u64) i) xs = xs" for xs unfolding takeWhile_eq_all_conv by simp
  then have "countl_zero (0 :: u64) = 64" unfolding countl_zero_def by (simp only:) simp
  then show ?thesis by (simp add: significant_def)
qed

lemma countl_zero_significant: "(of_nat (countl_zero x) :: u64) = 64 - of_nat (significant x)"
  using countl_zero_le [of x] by (simp add: significant_def of_nat_diff)

lemma top_bit:
  fixes x :: u64
  assumes "x \<noteq> 0"
  obtains k where "bit x k" "\<And>i. k < i \<Longrightarrow> \<not> bit x i"
proof -
  let ?k = "Max {i. bit x i}"
  have fin: "finite {i. bit x i}" by (rule finite_subset [of _ "{..<64}"]) (use bit_imp_le_length [of x] in auto)
  moreover have "{i. bit x i} \<noteq> {}" using assms by (auto simp: bit_eq_iff)
  ultimately have "bit x ?k" using Max_in by blast
  moreover have "\<not> bit x i" if "?k < i" for i
  proof
    assume "bit x i"
    then have "i \<le> ?k" using Max_ge [OF fin] by simp
    with that show False by simp
  qed
  ultimately show thesis by (rule that)
qed

lemma significant_drop_bit:
  fixes x :: u64
  assumes "drop_bit k x \<noteq> 0"
  shows "significant x = significant (drop_bit k x) + k"
proof -
  obtain j where j: "bit (drop_bit k x) j" "\<And>i. j < i \<Longrightarrow> \<not> bit (drop_bit k x) i" using top_bit [OF assms] by blast
  have "significant x = Suc (k + j)"
  proof (rule significant_top)
    show "bit x (k + j)" using j(1) by (simp add: bit_drop_bit_eq)
    show "\<not> bit x i" if "k + j < i" for i using j(2) [of "i - k"] that by (simp add: bit_drop_bit_eq)
  qed
  then show ?thesis using significant_top [OF j] by simp
qed

lemma significant_small:
  fixes x :: u64
  assumes "drop_bit 2 x = 0"
  shows "drop_bit 1 x \<noteq> 0 \<Longrightarrow> significant x = 2" "drop_bit 1 x = 0 \<Longrightarrow> of_nat (significant x) = x"
proof -
  have b: "\<not> bit x i" if two: "2 \<le> i" for i
  proof -
    obtain j where i: "i = 2 + j" using le_Suc_ex [OF two] by blast
    have "bit (drop_bit 2 x) j = bit x i" by (simp add: bit_drop_bit_eq i)
    then show ?thesis using assms by simp
  qed
  show "significant x = 2" if z: "drop_bit 1 x \<noteq> 0"
  proof -
    obtain j where j: "bit (drop_bit 1 x) j" using top_bit [OF z] by blast
    then have "j = 0" using b [of "1 + j"] by (cases j) (auto simp: bit_drop_bit_eq)
    then have "bit x 1" using j by (simp add: bit_drop_bit_eq)
    then show ?thesis using significant_top [of x 1] b by simp
  qed
  show "of_nat (significant x) = x" if z: "drop_bit 1 x = 0"
  proof (cases "x = 0")
    case False
    have h: "\<not> bit x i" if "0 < i" for i
    proof -
      have "bit (drop_bit 1 x) (i - 1) = bit x i" using that by (simp add: bit_drop_bit_eq)
      then show ?thesis using z by simp
    qed
    obtain k where "bit x k" using top_bit [OF False] by blast
    then have "bit x 0" using h [of k] by (cases k) auto
    then have "significant x = 1" using significant_top [of x 0] h by simp
    moreover have "x = 1"
    proof (rule bit_word_eqI)
      fix n show "bit x n = bit 1 n" using h [of n] \<open>bit x 0\<close> by (cases n) (simp_all add: bit_1_iff)
    qed
    ultimately show ?thesis by simp
  qed simp
qed

section \<open>Blocks of code\<close>

text \<open>\<open>block a r n G K\<close>: the macro succeeds and appends at most \<open>n\<close> bytes, which run to their end and change the
  registers outside \<open>K\<close> by \<open>G\<close>.\<close>

definition block ::
    "'o Assembler \<Rightarrow> (asm_error + 'o Assembler) option \<Rightarrow> nat \<Rightarrow> (regs \<Rightarrow> regs) \<Rightarrow> Register set \<Rightarrow> bool" where
  "block a r n G K \<longleftrightarrow>
     (\<exists>a' bs. r = Some (Inr a') \<and> buffer_m a' = buffer_m a @ bs \<and> length bs \<le> n \<and> transfers bs G (\<lambda>_. False) 0 K)"

lemma transfersE:
  assumes "transfers bs g c d K" "code_at bs (host_m (memory_m s)) (pc_m s)" "zr_zero s" "\<not> lp_enabled_m s"
  obtains n R where "run h n s = Inr (s\<lparr>pc_m := pc_m s + (if c (xregs_m s) then d else of_nat (length bs)), xregs_m := R,
      instret_m := instret_m s + of_nat n\<rparr>)" "R ZR = 0" "\<forall>r. r \<notin> K \<longrightarrow> R r = g (xregs_m s) r"
  using assms(1) [unfolded transfers_def, rule_format, OF assms(2-4), of h] by (elim exE conjE) (rule that)

lemma transfers_endE:
  assumes "transfers bs g (\<lambda>_. False) d K" "code_at bs (host_m (memory_m s)) (pc_m s)" "zr_zero s" "\<not> lp_enabled_m s"
  obtains n R where "run h n s = Inr (s\<lparr>pc_m := pc_m s + of_nat (length bs), xregs_m := R, instret_m := instret_m s + of_nat n\<rparr>)"
    "R ZR = 0" "\<forall>r. r \<notin> K \<longrightarrow> R r = g (xregs_m s) r"
  by (rule transfersE [OF assms, of h]) (rule that, simp_all only: if_False)

lemma transfers_append:
  assumes "transfers bs g (\<lambda>_. False) d K" "transfers cs g' (\<lambda>_. False) d' K'"
    and "\<And>R R' r. R ZR = 0 \<Longrightarrow> R' ZR = 0 \<Longrightarrow> \<forall>x. x \<notin> K \<longrightarrow> R' x = g R x \<Longrightarrow> r \<notin> K' \<Longrightarrow> g' R' r = h R r"
  shows "transfers (bs @ cs) h (\<lambda>_. False) d'' K'"
  unfolding transfers_def
proof (intro allI impI)
  fix x s
  assume s: "code_at (bs @ cs) (host_m (memory_m s)) (pc_m s)" "zr_zero s" "\<not> lp_enabled_m s"
  have c: "code_at bs (host_m (memory_m s)) (pc_m s)" using s(1) by (simp add: code_at_append)
  obtain n R where n: "run x n s = Inr (s\<lparr>pc_m := pc_m s + of_nat (length bs), xregs_m := R, instret_m := instret_m s + of_nat n\<rparr>)"
    "R ZR = 0" "\<forall>r. r \<notin> K \<longrightarrow> R r = g (xregs_m s) r"
    by (rule transfers_endE [OF assms(1) c s(2,3)])
  let ?t = "s\<lparr>pc_m := pc_m s + of_nat (length bs), xregs_m := R, instret_m := instret_m s + of_nat n\<rparr>"
  have t: "code_at cs (host_m (memory_m ?t)) (pc_m ?t)" "zr_zero ?t" "\<not> lp_enabled_m ?t"
    using s n(2) by (simp_all add: code_at_append zr_zero_def)
  obtain m Q where m: "run x m ?t = Inr (?t\<lparr>pc_m := pc_m ?t + of_nat (length cs), xregs_m := Q, instret_m := instret_m ?t + of_nat m\<rparr>)"
    "Q ZR = 0" "\<forall>r. r \<notin> K' \<longrightarrow> Q r = g' (xregs_m ?t) r"
    by (rule transfers_endE [OF assms(2) t])
  have z: "xregs_m s ZR = 0" using s(2) by (simp add: zr_zero_def)
  have "Q r = h (xregs_m s) r" if "r \<notin> K'" for r
    using m(3) that assms(3) [of "xregs_m s" R r, OF z n(2,3)] by simp
  moreover have "run x (n + m) s = Inr (s\<lparr>pc_m := pc_m s + (if False then d'' else of_nat (length (bs @ cs))), xregs_m := Q,
      instret_m := instret_m s + of_nat (n + m)\<rparr>)"
    using n(1) m(1) by (simp add: run_add add.assoc)
  ultimately show "\<exists>n R. run x n s = Inr (s\<lparr>pc_m := pc_m s + (if False then d'' else of_nat (length (bs @ cs))), xregs_m := R,
      instret_m := instret_m s + of_nat n\<rparr>) \<and> R ZR = 0 \<and> (\<forall>r. r \<notin> K' \<longrightarrow> R r = h (xregs_m s) r)"
    using m(2) by blast
qed

text \<open>A branch over the code that follows it.\<close>

lemma transfers_skip:
  assumes "transfers bs g c d K" "executes cs g'" "d = of_nat (length bs + length cs)"
    and "\<And>R R' r. R ZR = 0 \<Longrightarrow> R' ZR = 0 \<Longrightarrow> \<forall>x. x \<notin> K \<longrightarrow> R' x = g R x \<Longrightarrow> r \<notin> K \<Longrightarrow> g' R' r = g' (g R) r"
    and "\<And>R. R ZR = 0 \<Longrightarrow> g' R ZR = 0"
  shows "transfers (bs @ cs) (\<lambda>R. if c R then g R else g' (g R)) (\<lambda>_. False) d' K"
  unfolding transfers_def
proof (intro allI impI)
  fix x s
  assume s: "code_at (bs @ cs) (host_m (memory_m s)) (pc_m s)" "zr_zero s" "\<not> lp_enabled_m s"
  have k: "code_at bs (host_m (memory_m s)) (pc_m s)" using s(1) by (simp add: code_at_append)
  have z: "xregs_m s ZR = 0" using s(2) by (simp add: zr_zero_def)
  let ?G = "\<lambda>R. if c R then g R else g' (g R)"
  let ?goal = "\<exists>n R. run x n s = Inr (s\<lparr>pc_m := pc_m s + (if False then d' else of_nat (length (bs @ cs))), xregs_m := R,
      instret_m := instret_m s + of_nat n\<rparr>) \<and> R ZR = 0 \<and> (\<forall>r. r \<notin> K \<longrightarrow> R r = ?G (xregs_m s) r)"
  obtain n R where n: "run x n s = Inr (s\<lparr>pc_m := pc_m s + (if c (xregs_m s) then d else of_nat (length bs)), xregs_m := R,
      instret_m := instret_m s + of_nat n\<rparr>)" "R ZR = 0" "\<forall>r. r \<notin> K \<longrightarrow> R r = g (xregs_m s) r"
    by (rule transfersE [OF assms(1) k s(2,3)])
  show ?goal
  proof (cases "c (xregs_m s)")
    case True
    then show ?thesis using n assms(3) by (intro exI [of _ n] exI [of _ R]) simp
  next
    case False
    let ?t = "s\<lparr>pc_m := pc_m s + of_nat (length bs), xregs_m := R, instret_m := instret_m s + of_nat n\<rparr>"
    have t: "code_at cs (host_m (memory_m ?t)) (pc_m ?t)" "zr_zero ?t" using s n(2) by (simp_all add: code_at_append zr_zero_def)
    obtain m where m: "run x m ?t = Inr (retire m (length cs) g' ?t)"
      using assms(2) t unfolding executes_def by blast
    have "run x (n + m) s = Inr (s\<lparr>pc_m := pc_m s + (if False then d' else of_nat (length (bs @ cs))), xregs_m := g' R,
        instret_m := instret_m s + of_nat (n + m)\<rparr>)"
      using n(1) m False by (simp add: run_add retire_def add.assoc)
    moreover have "g' R r = ?G (xregs_m s) r" if "r \<notin> K" for r using assms(4) [OF z n(2,3) that] False by simp
    moreover have "g' R ZR = 0" using assms(5) n(2) by blast
    ultimately show ?thesis by blast
  qed
qed

lemma block_then:
  fixes a :: "'o Assembler"
  assumes "block a r n G K" "\<And>b. length (buffer_m b) \<le> length (buffer_m a) + n \<Longrightarrow> block b (k b) m G' K"
    and "\<And>R R' r. R ZR = 0 \<Longrightarrow> R' ZR = 0 \<Longrightarrow> \<forall>x. x \<notin> K \<longrightarrow> R' x = G R x \<Longrightarrow> r \<notin> K \<Longrightarrow> G' R' r = H R r"
  shows "block a (then_bind r k) (n + m) H K"
proof -
  obtain b bs where b: "r = Some (Inr b)" "buffer_m b = buffer_m a @ bs" "length bs \<le> n" "transfers bs G (\<lambda>_. False) 0 K"
    using assms(1) unfolding block_def by blast
  then have "block b (k b) m G' K" by (intro assms(2)) simp
  then obtain d cs where d: "k b = Some (Inr d)" "buffer_m d = buffer_m b @ cs" "length cs \<le> m" "transfers cs G' (\<lambda>_. False) 0 K"
    unfolding block_def by blast
  have "transfers (bs @ cs) H (\<lambda>_. False) 0 K" by (rule transfers_append [OF b(4) d(4) assms(3)])
  then show ?thesis unfolding block_def using b(1-3) d(1-3)
    by (intro exI [of _ d] exI [of _ "bs @ cs"]) (simp add: then_bind_def)
qed

lemma executes_end:
  assumes "executes bs g" "\<And>R. R ZR = 0 \<Longrightarrow> g R ZR = 0"
  shows "transfers bs g (\<lambda>_. False) d K"
  unfolding transfers_def
proof (intro allI impI)
  fix h s
  assume s: "code_at bs (host_m (memory_m s)) (pc_m s)" "zr_zero s"
  obtain n where n: "run h n s = Inr (retire n (length bs) g s)" using assms(1) s unfolding executes_def by blast
  show "\<exists>n R. run h n s = Inr (s\<lparr>pc_m := pc_m s + (if False then d else of_nat (length bs)), xregs_m := R,
      instret_m := instret_m s + of_nat n\<rparr>) \<and> R ZR = 0 \<and> (\<forall>r. r \<notin> K \<longrightarrow> R r = g (xregs_m s) r)"
    using n assms(2) s(2) by (intro exI [of _ n] exI [of _ "g (xregs_m s)"]) (simp add: retire_def zr_zero_def)
qed

lemma block_executes:
  assumes "computes a b g" "length (buffer_m b) \<le> length (buffer_m a) + n" "\<And>R. R ZR = 0 \<Longrightarrow> g R ZR = 0"
  shows "block a (Some (Inr b)) n g K"
proof -
  obtain bs where bs: "b = a\<lparr>buffer_m := buffer_m a @ bs\<rparr>" "executes bs g" using assms(1) by (auto simp: computes_def)
  have "transfers bs g (\<lambda>_. False) 0 K" by (rule executes_end [OF bs(2) assms(3)])
  then show ?thesis unfolding block_def using bs(1) assms(2) by (intro exI [of _ b] exI [of _ bs]) simp
qed

section \<open>One block of the search\<close>

lemma emitted_length:
  "length (buffer_m (srli rd rs k a)) \<le> length (buffer_m a) + 4"
  "length (buffer_m (addi rd rs k a)) \<le> length (buffer_m a) + 4"
  "length (buffer_m (sub rd rs rs2 a)) \<le> length (buffer_m a) + 4"
  by (auto simp: srli_def addi_def sub_def EmitRType_def EmitRType_shamt_def EmitIType_def Emit32_def Emit16_def c_srli_def c_sub_def
      c_li_def c_addi_def c_addi16sp_def c_addi4spn_def c_nop_def c_mv_def)

lemma near_beqz_length:
  assumes "beqz TMP new_label kNearJump a = Inr (l, a')"
  shows "\<exists>bs. buffer_m a' = buffer_m a @ bs \<and> length bs \<le> 4 \<and> even (length bs)"
proof -
  have "IsBound new_label = False" by (simp add: IsBound_def new_label_def)
  then show ?thesis using assms
    by (auto simp: beqz_def beq_def c_beqz_def EmitCBranch_def EmitBranch_def EmitBType_def Emit32_def Emit16_def link_b_def link_cb_def Let_def
        split: if_splits)
qed

lemma IsCBImm_near:
  assumes "0 \<le> z" "z < 128" "even z"
  shows "IsCBImm (of_int z)"
proof -
  have "sint (of_int z :: intx) = z" using assms(1,2) signed_wrap [of z] by (simp add: signed_of_int)
  moreover have "\<not> bit (of_int z :: intx) 0" unfolding bit_word_of_int_iff using assms(3) by (simp add: bit_0)
  ultimately show ?thesis using assms(1,2) unfolding IsCBImm_def IsAligned_2 by (simp add: IsInt_iff)
qed

lemma skip_block:
  fixes a b :: "'o Assembler" and post :: "'o Assembler \<Rightarrow> 'o Assembler"
  assumes "computes a b g" "\<And>c. computes c (post c) g'"
    and "length (buffer_m b) \<le> length (buffer_m a) + 8" "\<And>c. length (buffer_m (post c)) \<le> length (buffer_m c) + 8"
    and "\<And>R. R ZR = 0 \<Longrightarrow> g R ZR = 0" "\<And>R. R ZR = 0 \<Longrightarrow> g' R ZR = 0"
    and "\<And>R R' r. \<forall>x. x \<noteq> FAR_TMP \<longrightarrow> R' x = R x \<Longrightarrow> r \<noteq> FAR_TMP \<Longrightarrow> g' R' r = g' R r"
    and "length (buffer_m a) + 20 < 2 ^ 31"
  shows "block a (then_bind (Some (beqz TMP new_label kNearJump b)) (\<lambda>(label, c). then_bind (Bind label (post c)) (\<lambda>(label, c). Some (Inr c))))
    20 (\<lambda>R. if g R TMP = 0 then g R else g' (g R)) {FAR_TMP}"
proof -
  have code: "branch_code a kNearJump (\<lambda>label. beqz TMP label kNearJump b) g (\<lambda>R. g R TMP = 0) {}"
    unfolding beqz_def
    by (rule branch_code_direct [OF assms(1) beq_i.branch_instruction_axioms]) (use assms(5) in \<open>simp_all add: taken.simps rv_consts\<close>)
  obtain l1 a1 where a1: "beqz TMP new_label kNearJump b = Inr (l1, a1)" using branch_code_fresh [OF code] by auto
  let ?a2 = "post a1"
  obtain cs where cs: "?a2 = a1\<lparr>buffer_m := buffer_m a1 @ cs\<rparr>" "executes cs g'" using assms(2) [of a1] by (auto simp: computes_def)
  obtain ps where ps: "b = a\<lparr>buffer_m := buffer_m a @ ps\<rparr>" "executes ps g" using assms(1) by (auto simp: computes_def)
  obtain qs where qs: "buffer_m a1 = buffer_m b @ qs" "length qs \<le> 4" "even (length qs)" using near_beqz_length [OF a1] by blast
  have len: "length ps \<le> 8" "length cs \<le> 8" using assms(3) assms(4) [of a1] ps(1) arg_cong [OF cs(1), of buffer_m] by simp_all
  have even: "even (length ps)" "even (length cs)" using ps(2) cs(2) by (simp_all add: executes_def)
  have pos: "Position ?a2 = Position a + int (length ps + length qs + length cs)"
    using ps(1) qs(1) cs(1) by (simp add: Position_def)
  have "\<exists>bs. Bind l1 ?a2 = Some (Inr (bound_at (Position ?a2), ?a2\<lparr>buffer_m := buffer_m a @ bs @ cs\<rparr>)) \<and>
      length (buffer_m a @ bs) = length (buffer_m a1) \<and> transfers bs g (\<lambda>R. g R TMP = 0) (offset_between (Position a) (Position ?a2)) (insert FAR_TMP {})"
  proof (rule branch_code_forward [OF code a1])
    show "buffer_m ?a2 = buffer_m a1 @ cs" using arg_cong [OF cs(1), of buffer_m] by simp
    show "length (buffer_m ?a2) < 2 ^ 31" using arg_cong [OF cs(1), of buffer_m] qs ps(1) len assms(8) by simp
    fix p assume p: "Position a \<le> p" "p \<le> Position a1" "even (p - Position a)"
    have "Position a1 \<le> Position ?a2" using arg_cong [OF cs(1), of buffer_m] by (simp add: Position_def)
    then have "0 \<le> Position ?a2 - p" "Position ?a2 - p < 128" using p pos len qs(2) by linarith+
    moreover have "even (Position ?a2 - p)" using p(3) even qs(3) unfolding pos by presburger
    ultimately show "reachable kNearJump a (offset_between p (Position ?a2))"
      unfolding reachable_def offset_between_def if_P [OF refl] by (rule IsCBImm_near)
  qed
  then obtain bs where bs: "Bind l1 ?a2 = Some (Inr (bound_at (Position ?a2), ?a2\<lparr>buffer_m := buffer_m a @ bs @ cs\<rparr>))"
    "length (buffer_m a @ bs) = length (buffer_m a1)" "transfers bs g (\<lambda>R. g R TMP = 0) (offset_between (Position a) (Position ?a2)) {FAR_TMP}" by auto
  have lb: "length bs = length ps + length qs" using bs(2) qs(1) ps(1) by simp
  have "transfers (bs @ cs) (\<lambda>R. if g R TMP = 0 then g R else g' (g R)) (\<lambda>_. False) 0 {FAR_TMP}"
    by (rule transfers_skip [OF bs(3) cs(2)]) (use assms(6,7) pos lb in \<open>simp_all add: offset_between_def\<close>)
  then show ?thesis unfolding block_def
    by (intro exI [of _ "?a2\<lparr>buffer_m := buffer_m a @ bs @ cs\<rparr>"] exI [of _ "bs @ cs"]) (use bs(1) a1 lb len qs(2) in \<open>simp add: then_bind_def\<close>)
qed

section \<open>The binary search\<close>

lemma block_mono:
  assumes "block a r n G K" "n \<le> n'" "K \<subseteq> K'" "\<And>R r. R ZR = 0 \<Longrightarrow> r \<notin> K' \<Longrightarrow> G R r = G' R r"
  shows "block a r n' G' K'"
proof -
  obtain a' bs where a: "r = Some (Inr a')" "buffer_m a' = buffer_m a @ bs" "length bs \<le> n" "transfers bs G (\<lambda>_. False) 0 K"
    using assms(1) unfolding block_def by blast
  have "transfers bs G' (\<lambda>_. False) 0 K'" by (rule transfers_cong [OF a(4) assms(3)]) (use assms(4) in simp_all)
  then show ?thesis unfolding block_def using a(1-3) assms(2) by (intro exI [of _ a'] exI [of _ bs]) simp
qed

definition clz_step :: "nat \<Rightarrow> Register \<Rightarrow> regs \<Rightarrow> regs" where
  "clz_step k rs R = (if drop_bit k (R rs) = 0 then R else wr rs (drop_bit k (R rs)) (wr TMP2 (R TMP2 - of_nat k) R))"

definition clz_last :: "Register \<Rightarrow> Register \<Rightarrow> regs \<Rightarrow> regs" where
  "clz_last rd rs R = (if drop_bit 1 (R rs) = 0 then wr rd (R TMP2 - R rs) R else wr rd (R TMP2 - 2) R)"

lemma CountLeadingZeroes_step_block:
  assumes "rs \<notin> {TMP, TMP2, FAR_TMP}" "k \<in> {2, 4, 8, 16, 32}" "length (buffer_m a) + 20 < 2 ^ 31"
  shows "block a (CountLeadingZeroes_step (of_nat k) rs a) 20 (clz_step k rs) {TMP, FAR_TMP}"
proof -
  let ?post = "\<lambda>c :: 'a Assembler. mv rs TMP (subi TMP2 TMP2 (of_nat k) c)"
  have u: "unat (of_nat k :: intx) = k" using assms(2) by (intro unat_of_nat_64) auto
  have i: "IsITypeImm (- of_nat k)" using assms(2) by (auto simp: IsITypeImm_iff)
  have pre: "computes a (srli TMP rs (of_nat k) a) (\<lambda>R. wr TMP (drop_bit k (R rs)) R)"
    using srli_i.correct [of "of_nat k" a TMP rs] assms(2) by (auto simp: u)
  have post: "computes c (?post c) (\<lambda>R. wr rs (R TMP) (wr TMP2 (R TMP2 - of_nat k) R))" for c
    unfolding subi_def by (rule computes_then [OF addi_i.correct [OF i] computes_mv]) (simp_all add: wr_apply)
  have "block a (CountLeadingZeroes_step (of_nat k) rs a) 20
      (\<lambda>R. if wr TMP (drop_bit k (R rs)) R TMP = 0 then wr TMP (drop_bit k (R rs)) R
        else wr rs (wr TMP (drop_bit k (R rs)) R TMP) (wr TMP2 (wr TMP (drop_bit k (R rs)) R TMP2 - of_nat k) (wr TMP (drop_bit k (R rs)) R))) {FAR_TMP}"
    unfolding CountLeadingZeroes_step_def
  proof (rule skip_block [OF pre post])
    show "length (buffer_m (srli TMP rs (of_nat k) a)) \<le> length (buffer_m a) + 8" using emitted_length(1) [of TMP rs "of_nat k" a] by simp
    show "length (buffer_m (?post c)) \<le> length (buffer_m c) + 8" for c
      unfolding mv_def subi_def using emitted_length(2) [of rs TMP 0 "addi TMP2 TMP2 (- of_nat k) c"] emitted_length(2) [of TMP2 TMP2 "- of_nat k" c] by simp
  qed (use assms(1,3) in \<open>simp_all add: wr_apply\<close>)
  then show ?thesis
    by (rule block_mono) (use assms(1) in \<open>auto simp: clz_step_def wr_apply\<close>)
qed

lemma CountLeadingZeroes_last_block:
  assumes "rs \<notin> {TMP, TMP2, FAR_TMP}" "rd \<notin> {ZR, TMP, TMP2, FAR_TMP}" "length (buffer_m a) + 20 < 2 ^ 31"
  shows "block a (CountLeadingZeroes_last rd rs a) 20 (clz_last rd rs) {TMP, FAR_TMP}"
proof -
  let ?pre = "sub rd TMP2 rs (srli TMP rs 1 a)" and ?post = "\<lambda>c :: 'a Assembler. subi rd TMP2 2 c"
  have pre: "computes a ?pre (\<lambda>R. wr rd (R TMP2 - R rs) (wr TMP (drop_bit 1 (R rs)) R))"
    by (rule computes_then [OF srli_i.correct sub_i.correct]) (use assms(1) in \<open>simp_all add: wr_apply\<close>)
  have post: "computes c (?post c) (\<lambda>R. wr rd (R TMP2 - 2) R)" for c
    using addi_i.correct [of "- 2" c rd TMP2] by (simp add: subi_def IsITypeImm_iff)
  have "block a (CountLeadingZeroes_last rd rs a) 20
      (\<lambda>R. if wr rd (R TMP2 - R rs) (wr TMP (drop_bit 1 (R rs)) R) TMP = 0 then wr rd (R TMP2 - R rs) (wr TMP (drop_bit 1 (R rs)) R)
        else wr rd (wr rd (R TMP2 - R rs) (wr TMP (drop_bit 1 (R rs)) R) TMP2 - 2) (wr rd (R TMP2 - R rs) (wr TMP (drop_bit 1 (R rs)) R))) {FAR_TMP}"
    unfolding CountLeadingZeroes_last_def
  proof (rule skip_block [OF pre post])
    show "length (buffer_m ?pre) \<le> length (buffer_m a) + 8"
      using emitted_length(1) [of TMP rs 1 a] emitted_length(3) [of rd TMP2 rs "srli TMP rs 1 a"] by simp
    show "length (buffer_m (?post c)) \<le> length (buffer_m c) + 8" for c
      unfolding subi_def using emitted_length(2) [of rd TMP2 "- 2" c] by simp
  qed (use assms in \<open>simp_all add: wr_apply\<close>)
  then show ?thesis
    by (rule block_mono) (use assms(1,2) in \<open>auto simp: clz_last_def wr_apply\<close>)
qed

text \<open>The invariant of the search: what is left of the operand fits \<open>k\<close> bits, and the counter has been lowered by as many
  bits as have been shifted out.\<close>

definition clz_invariant :: "u64 \<Rightarrow> nat \<Rightarrow> Register \<Rightarrow> regs \<Rightarrow> bool" where
  "clz_invariant x k rs R \<longleftrightarrow>
     drop_bit k (R rs) = 0 \<and> R TMP2 = 64 + of_nat (significant (R rs)) - of_nat (significant x)"

lemma clz_step_invariant:
  assumes "clz_invariant x (k + k) rs R" "rs \<notin> {ZR, TMP2}"
  shows "clz_invariant x k rs (clz_step k rs R)"
proof (cases "drop_bit k (R rs) = 0")
  case True
  then show ?thesis using assms by (simp add: clz_step_def clz_invariant_def)
next
  case False
  then have "significant (R rs) = significant (drop_bit k (R rs)) + k" by (rule significant_drop_bit)
  then show ?thesis using assms False by (simp add: clz_step_def clz_invariant_def wr_apply drop_bit_drop_bit)
qed

lemma clz_last_result:
  assumes "clz_invariant x 2 rs R" "rd \<noteq> ZR"
  shows "clz_last rd rs R rd = of_nat (countl_zero x)"
  using assms significant_small [of "R rs"] unfolding clz_last_def clz_invariant_def countl_zero_significant
  by (cases "drop_bit 1 (R rs) = 0") (simp_all add: wr_apply)

section \<open>The composed code\<close>

definition insensitive :: "Register set \<Rightarrow> (regs \<Rightarrow> regs) \<Rightarrow> bool" where
  "insensitive K G \<longleftrightarrow> (\<forall>R R'. (\<forall>x. x \<notin> K \<longrightarrow> R' x = R x) \<longrightarrow> (\<forall>x. x \<notin> K \<longrightarrow> G R' x = G R x))"

lemma insensitive_comp: "insensitive K G \<Longrightarrow> insensitive K G' \<Longrightarrow> insensitive K (\<lambda>R. G' (G R))"
  unfolding insensitive_def by blast

lemma insensitive_clz:
  assumes "rs \<notin> {TMP, TMP2, FAR_TMP}"
  shows "insensitive {TMP, FAR_TMP} (clz_step k rs)" "insensitive {TMP, FAR_TMP} (clz_last rd rs)"
  using assms by (auto simp: insensitive_def clz_step_def clz_last_def wr_apply)

lemma block_comp:
  fixes a :: "'o Assembler"
  assumes "block a r n G K" "\<And>b. length (buffer_m b) \<le> length (buffer_m a) + n \<Longrightarrow> block b (k b) m G' K" "insensitive K G'"
  shows "block a (then_bind r k) (n + m) (\<lambda>R. G' (G R)) K"
  by (rule block_then [OF assms(1,2)]) (use assms(3) in \<open>auto simp: insensitive_def\<close>)

definition clz_search :: "Register \<Rightarrow> Register \<Rightarrow> regs \<Rightarrow> regs" where
  "clz_search rd rs R = clz_last rd rs (clz_step 2 rs (clz_step 4 rs (clz_step 8 rs (clz_step 16 rs (clz_step 32 rs R)))))"

lemma insensitive_search:
  assumes "rs \<notin> {TMP, TMP2, FAR_TMP}"
  shows "insensitive {TMP, FAR_TMP} (clz_search rd rs)"
proof -
  note i = insensitive_clz(1) [OF assms]
  have "insensitive {TMP, FAR_TMP}
      (\<lambda>R. clz_last rd rs (clz_step 2 rs (clz_step 4 rs (clz_step 8 rs (clz_step 16 rs (clz_step 32 rs R))))))"
    by (rule insensitive_comp [OF i insensitive_comp [OF i insensitive_comp [OF i insensitive_comp [OF i insensitive_comp [OF i insensitive_clz(2) [OF assms]]]]]])
  then show ?thesis by (simp add: clz_search_def [abs_def])
qed

lemma CountLeadingZeroes_search_block:
  fixes a :: "'o Assembler"
  assumes r: "rs \<notin> {TMP, TMP2, FAR_TMP}" "rd \<notin> {ZR, TMP, TMP2, FAR_TMP}" and len: "length (buffer_m a) + 120 < 2 ^ 31"
  shows "block a (then_bind (CountLeadingZeroes_step 32 rs a) (\<lambda>a. then_bind (CountLeadingZeroes_step 16 rs a) (\<lambda>a.
      then_bind (CountLeadingZeroes_step 8 rs a) (\<lambda>a. then_bind (CountLeadingZeroes_step 4 rs a) (\<lambda>a.
      then_bind (CountLeadingZeroes_step 2 rs a) (\<lambda>a. CountLeadingZeroes_last rd rs a)))))) 120 (clz_search rd rs) {TMP, FAR_TMP}"
proof -
  note step = CountLeadingZeroes_step_block [OF r(1)]
  note i0 = insensitive_clz(2) [OF r(1), of rd] and i = insensitive_clz(1) [OF r(1)]
  note i2 = insensitive_comp [OF i [of 2] i0]
  note i4 = insensitive_comp [OF i [of 4] i2]
  note i8 = insensitive_comp [OF i [of 8] i4]
  note i16 = insensitive_comp [OF i [of 16] i8]
  have last: "block b (CountLeadingZeroes_last rd rs b) 20 (clz_last rd rs) {TMP, FAR_TMP}"
    if "length (buffer_m b) \<le> length (buffer_m a) + 100" for b :: "'o Assembler"
    by (rule CountLeadingZeroes_last_block [OF r]) (use that len in simp)
  have s2: "block b (then_bind (CountLeadingZeroes_step 2 rs b) (CountLeadingZeroes_last rd rs)) (20 + 20)
      (\<lambda>R. clz_last rd rs (clz_step 2 rs R)) {TMP, FAR_TMP}" if "length (buffer_m b) \<le> length (buffer_m a) + 80" for b :: "'o Assembler"
    by (rule block_comp [OF step [of 2, simplified] last i0]) (use that len in simp_all)
  have s4: "block b (then_bind (CountLeadingZeroes_step 4 rs b) (\<lambda>a. then_bind (CountLeadingZeroes_step 2 rs a) (CountLeadingZeroes_last rd rs)))
      (20 + (20 + 20)) (\<lambda>R. clz_last rd rs (clz_step 2 rs (clz_step 4 rs R))) {TMP, FAR_TMP}"
    if "length (buffer_m b) \<le> length (buffer_m a) + 60" for b :: "'o Assembler"
    by (rule block_comp [OF step [of 4, simplified] s2 i2]) (use that len in simp_all)
  have s8: "block b (then_bind (CountLeadingZeroes_step 8 rs b) (\<lambda>a. then_bind (CountLeadingZeroes_step 4 rs a)
      (\<lambda>a. then_bind (CountLeadingZeroes_step 2 rs a) (CountLeadingZeroes_last rd rs))))
      (20 + (20 + (20 + 20))) (\<lambda>R. clz_last rd rs (clz_step 2 rs (clz_step 4 rs (clz_step 8 rs R)))) {TMP, FAR_TMP}"
    if "length (buffer_m b) \<le> length (buffer_m a) + 40" for b :: "'o Assembler"
    by (rule block_comp [OF step [of 8, simplified] s4 i4]) (use that len in simp_all)
  have s16: "block b (then_bind (CountLeadingZeroes_step 16 rs b) (\<lambda>a. then_bind (CountLeadingZeroes_step 8 rs a)
      (\<lambda>a. then_bind (CountLeadingZeroes_step 4 rs a) (\<lambda>a. then_bind (CountLeadingZeroes_step 2 rs a) (CountLeadingZeroes_last rd rs)))))
      (20 + (20 + (20 + (20 + 20)))) (\<lambda>R. clz_last rd rs (clz_step 2 rs (clz_step 4 rs (clz_step 8 rs (clz_step 16 rs R))))) {TMP, FAR_TMP}"
    if "length (buffer_m b) \<le> length (buffer_m a) + 20" for b :: "'o Assembler"
    by (rule block_comp [OF step [of 16, simplified] s8 i8]) (use that len in simp_all)
  show ?thesis
    by (rule block_mono [OF block_comp [OF step [of 32, simplified] s16 i16]]) (use len in \<open>simp_all add: clz_search_def\<close>)
qed

lemma clz_search_result:
  assumes "rs \<notin> {ZR, TMP, TMP2}" "rd \<notin> {ZR, TMP, TMP2}"
  shows "clz_search rd rs (wr TMP2 64 R) rd = of_nat (countl_zero (R rs))"
    "r \<notin> {rd, rs, TMP, TMP2} \<Longrightarrow> clz_search rd rs (wr TMP2 64 R) r = R r"
proof -
  have z: "drop_bit 64 (R rs) = 0" by (rule bit_word_eqI) (use bit_imp_le_length [of "R rs"] in \<open>force simp: bit_drop_bit_eq\<close>)
  have "clz_invariant (R rs) (32 + 32) rs (wr TMP2 64 R)" using assms(1) z by (simp add: clz_invariant_def wr_apply)
  then have "clz_invariant (R rs) (16 + 16) rs (clz_step 32 rs (wr TMP2 64 R))"
    using clz_step_invariant [of "R rs" 32 rs] assms(1) by simp
  then have "clz_invariant (R rs) (8 + 8) rs (clz_step 16 rs (clz_step 32 rs (wr TMP2 64 R)))"
    using clz_step_invariant [of "R rs" 16 rs] assms(1) by simp
  then have "clz_invariant (R rs) (4 + 4) rs (clz_step 8 rs (clz_step 16 rs (clz_step 32 rs (wr TMP2 64 R))))"
    using clz_step_invariant [of "R rs" 8 rs] assms(1) by simp
  then have "clz_invariant (R rs) (2 + 2) rs (clz_step 4 rs (clz_step 8 rs (clz_step 16 rs (clz_step 32 rs (wr TMP2 64 R)))))"
    using clz_step_invariant [of "R rs" 4 rs] assms(1) by simp
  then have "clz_invariant (R rs) 2 rs (clz_step 2 rs (clz_step 4 rs (clz_step 8 rs (clz_step 16 rs (clz_step 32 rs (wr TMP2 64 R))))))"
    using clz_step_invariant [of "R rs" 2 rs] assms(1) by simp
  then show "clz_search rd rs (wr TMP2 64 R) rd = of_nat (countl_zero (R rs))"
    unfolding clz_search_def by (rule clz_last_result) (use assms(2) in simp)
  have s: "clz_step k rs Q r = Q r" if "r \<notin> {rs, TMP2}" for k Q r using that by (auto simp: clz_step_def wr_apply)
  have l: "clz_last rd rs Q r = Q r" if "r \<noteq> rd" for Q r using that by (auto simp: clz_last_def wr_apply)
  show "clz_search rd rs (wr TMP2 64 R) r = R r" if "r \<notin> {rd, rs, TMP, TMP2}"
    unfolding clz_search_def using that by (simp add: s l wr_apply)
qed

theorem CountLeadingZeroes_block:
  assumes "rs \<notin> {ZR, TMP, TMP2, FAR_TMP}" "rd \<notin> {ZR, TMP, TMP2, FAR_TMP}" "length (buffer_m a) + 124 < 2 ^ 31"
  shows "block a (CountLeadingZeroes rd rs a) 124 (\<lambda>R. wr rd (sim_clz (R rs)) R) ({rs, TMP, TMP2, FAR_TMP} - {rd})"
proof (cases "Supports a RV_Zbb")
  case True
  have l: "length (buffer_m (clz rd rs a)) \<le> length (buffer_m a) + 124"
    by (simp add: clz_def EmitRType_def EmitRType_shamt_def EmitIType_funct12_def EmitIType_def Emit32_def)
  have "block a (Some (Inr (clz rd rs a))) 124 (\<lambda>R. wr rd (sim_clz (R rs)) R) ({rs, TMP, TMP2, FAR_TMP} - {rd})"
    by (rule block_executes [OF clz_i.correct l]) simp
  then show ?thesis using True by (simp add: CountLeadingZeroes_def)
next
  case False
  have i: "IsITypeImm 64" by (simp add: IsITypeImm_iff)
  have l: "length (buffer_m (li TMP2 64 a)) \<le> length (buffer_m a) + 4" unfolding li_def by (rule emitted_length)
  have one: "block a (Some (Inr (li TMP2 64 a))) 4 (\<lambda>R. wr TMP2 64 R) {TMP, FAR_TMP}"
    by (rule block_executes [OF computes_li [OF i] l]) simp
  have "block a (then_bind (Some (Inr (li TMP2 64 a))) (\<lambda>a.
      then_bind (CountLeadingZeroes_step 32 rs a) (\<lambda>a. then_bind (CountLeadingZeroes_step 16 rs a) (\<lambda>a.
      then_bind (CountLeadingZeroes_step 8 rs a) (\<lambda>a. then_bind (CountLeadingZeroes_step 4 rs a) (\<lambda>a.
      then_bind (CountLeadingZeroes_step 2 rs a) (\<lambda>a. CountLeadingZeroes_last rd rs a))))))) (4 + 120)
      (\<lambda>R. clz_search rd rs (wr TMP2 64 R)) {TMP, FAR_TMP}"
    by (rule block_comp [OF one CountLeadingZeroes_search_block insensitive_search]) (use assms in auto)
  then have "block a (CountLeadingZeroes rd rs a) (4 + 120) (\<lambda>R. clz_search rd rs (wr TMP2 64 R)) {TMP, FAR_TMP}"
    using False by (simp add: CountLeadingZeroes_def then_bind_def)
  then show ?thesis
  proof (rule block_mono)
    fix R :: regs and r assume "r \<notin> {rs, TMP, TMP2, FAR_TMP} - {rd}"
    then show "clz_search rd rs (wr TMP2 64 R) r = wr rd (sim_clz (R rs)) R r"
      using clz_search_result(1) [of rs rd R] clz_search_result(2) [of rs rd r R] assms(1,2) by (auto simp: wr_apply sim_clz_def)
  qed (use assms(1,2) in auto)
qed
end
