(* ===== verification/Unicode.thy ===== *)
theory Unicode
  imports PlatformUtils
begin

text \<open>
  The conversions between UTF-8, UTF-16 and code points of \<^verbatim>\<open>runtime/platform/unicode.h\<close> and
  \<^verbatim>\<open>runtime/platform/unicode.cc\<close>. An array with its length is the list of its elements, a destination array is the
  list of the elements that have been written, and the number of elements that a function returns is the length of
  that list. A code point is a 32-bit word that is read as signed, \<open>-1\<close> stands for malformed input.

  The decoder and the encoder are inverse to each other on all code points up to \<open>0x10FFFF\<close>: every encoding is decoded, and
  nothing else is accepted. The validation and the conversions of whole strings follow from this.
\<close>

section \<open>Classification\<close>

definition IsLatin1 :: "u32 \<Rightarrow> bool" where
  "IsLatin1 code_point = (sint code_point \<ge> 0 \<and> sint code_point \<le> 0xFF)"

definition IsBmp :: "u32 \<Rightarrow> bool" where
  "IsBmp code_point = (sint code_point \<ge> 0 \<and> sint code_point \<le> 0xFFFF)"

definition IsSupplementary :: "u32 \<Rightarrow> bool" where
  "IsSupplementary code_point = (sint code_point > 0xFFFF \<and> sint code_point \<le> 0x10FFFF)"

definition IsOutOfRange :: "u32 \<Rightarrow> bool" where
  "IsOutOfRange code_point = (sint code_point < 0 \<or> sint code_point > 0x10FFFF)"

datatype Utf8_Type = kLatin1 | kBMP | kSupplementary

definition IsTrailByte :: "u8 \<Rightarrow> bool" where
  "IsTrailByte code_unit = (code_unit AND 0xC0 = 0x80)"

definition kTrailBytes :: "nat list" where
  "kTrailBytes = replicate 128 1 @ replicate 64 0 @ replicate 32 2 @ replicate 16 3 @ replicate 8 4 @ replicate 4 5 @ [6, 6, 0, 0]"

definition kMagicBits :: "u32 list" where
  "kMagicBits = [0, 0x00000000, 0x00003080, 0x000E2080, 0x03C82080, 0xFA082080, 0x82082080]"

definition kOverlongMinimum :: "u32 list" where
  "kOverlongMinimum = [0, 0x0, 0x80, 0x800, 0x10000, 0xFFFFFFFF, 0xFFFFFFFF]"

definition IsNonShortestForm :: "u32 \<Rightarrow> nat \<Rightarrow> bool" where
  "IsNonShortestForm code_point num_code_units = (code_point < kOverlongMinimum ! num_code_units)"

definition IsLatin1SequenceStart :: "u8 \<Rightarrow> bool" where
  "IsLatin1SequenceStart code_unit = (code_unit \<le> 0xC3)"

definition IsSupplementarySequenceStart :: "u8 \<Rightarrow> bool" where
  "IsSupplementarySequenceStart code_unit = (code_unit \<ge> 0xF0)"

section \<open>UTF-16\<close>

definition Utf16_Length :: "u32 \<Rightarrow> nat" where
  "Utf16_Length ch = (if sint ch \<le> 0xFFFF then 1 else 2)"

definition IsSurrogate :: "u32 \<Rightarrow> bool" where
  "IsSurrogate ch = (ch AND 0xFFFFF800 = 0xD800)"

definition IsLeadSurrogate :: "u32 \<Rightarrow> bool" where
  "IsLeadSurrogate ch = (ch AND 0xFFFFFC00 = 0xD800)"

definition IsTrailSurrogate :: "u32 \<Rightarrow> bool" where
  "IsTrailSurrogate ch = (ch AND 0xFFFFFC00 = 0xDC00)"

definition CombineSurrogatePair :: "u32 \<Rightarrow> u32 \<Rightarrow> u32" where
  "CombineSurrogatePair lead trail = 0x10000 + push_bit 10 (lead AND 0x3FF) + (trail AND 0x3FF)"

definition LeadSurrogate :: "u32 \<Rightarrow> u16" where
  "LeadSurrogate char_code = ucast (0xD800 + (drop_bit 10 (char_code - 0x10000) AND 0x3FF))"

definition TrailSurrogate :: "u32 \<Rightarrow> u16" where
  "TrailSurrogate char_code = ucast (0xDC00 + (char_code AND 0x3FF))"

definition Utf16_Decode :: "u16 \<Rightarrow> u16 \<Rightarrow> u32" where
  "Utf16_Decode lead trail = 0x10000 + push_bit 10 (ucast lead AND 0x3FF) + (ucast trail AND 0x3FF)"

definition Utf16_Next :: "u16 list \<Rightarrow> nat \<Rightarrow> u32 \<times> nat" where
  "Utf16_Next characters i =
     (let ch = ucast (characters ! i)
      in if IsLeadSurrogate ch \<and> int i < int (length characters) - 1 then
           let ch2 = ucast (characters ! (i + 1))
           in if IsTrailSurrogate ch2 then (Utf16_Decode (ucast ch) (ucast ch2), i + 2) else (ch, i + 1)
         else (ch, i + 1))"

definition kLeadSurrogateOffset :: u32 where
  "kLeadSurrogateOffset = 0xD800 - drop_bit 10 0x10000"

definition Utf16_Encode :: "u32 \<Rightarrow> u16 list" where
  "Utf16_Encode codepoint =
     [ucast (kLeadSurrogateOffset + signed_drop_bit 10 codepoint), ucast (0xDC00 + (codepoint AND 0x3FF))]"

section \<open>UTF-8\<close>

definition Utf8_Length :: "u32 \<Rightarrow> nat" where
  "Utf8_Length ch =
     (if sint ch \<le> 0x7F then 1
      else if sint ch \<le> 0x7FF then 2
      else if sint ch \<le> 0xFFFF then 3
      else 4)"

definition Utf8_Encode :: "u32 \<Rightarrow> u8 list" where
  "Utf8_Encode ch =
     (let kMask = NOT (push_bit 6 1)
      in if sint ch \<le> 0x7F then [ucast ch]
         else if sint ch \<le> 0x7FF then
           [ucast (0xC0 OR signed_drop_bit 6 ch), ucast (0x80 OR (ch AND kMask))]
         else if sint ch \<le> 0xFFFF then
           [ucast (0xE0 OR signed_drop_bit 12 ch), ucast (0x80 OR (signed_drop_bit 6 ch AND kMask)), ucast (0x80 OR (ch AND kMask))]
         else
           [ucast (0xF0 OR signed_drop_bit 18 ch), ucast (0x80 OR (signed_drop_bit 12 ch AND kMask)),
            ucast (0x80 OR (signed_drop_bit 6 ch AND kMask)), ucast (0x80 OR (ch AND kMask))])"

text \<open>The loop over the trailing bytes of the sequence that starts at \<open>base\<close>; \<open>None\<close> if the array ends too early. The
  result is whether the sequence is malformed and the collected bits.\<close>

function trail_loop :: "u8 list \<Rightarrow> nat \<Rightarrow> nat \<Rightarrow> nat \<Rightarrow> bool \<Rightarrow> u32 \<Rightarrow> (bool \<times> u32) option" where
  "trail_loop utf8_array base j num_trail_bytes is_malformed ch =
     (if j < num_trail_bytes then
        if base + j < length utf8_array then
          let code_unit = utf8_array ! (base + j)
          in trail_loop utf8_array base (j + 1) num_trail_bytes (is_malformed \<or> \<not> IsTrailByte code_unit)
               (push_bit 6 ch + ucast code_unit)
        else None
      else Some (is_malformed, ch))"
  by auto
termination by (relation "measure (\<lambda>(_, _, j, n, _, _). n - j)") auto
declare trail_loop.simps [simp del]

text \<open>\<open>Decode\<close> returns the number of bytes and the code point. The first byte is read without a test, so the array must
  not be empty; \<open>None\<close> stands for the access outside of it.\<close>

definition Utf8_Decode :: "u8 list \<Rightarrow> (nat \<times> u32) option" where
  "Utf8_Decode utf8_array =
     (if utf8_array = [] then None
      else
        let ch = ucast (utf8_array ! 0)
        in if ch \<ge> 0x80 then
             let num_trail_bytes = kTrailBytes ! unat ch
             in case trail_loop utf8_array 0 1 num_trail_bytes False ch of
                  None \<Rightarrow> Some (0, -1)
                | Some (is_malformed, ch) \<Rightarrow>
                    let i = max 1 num_trail_bytes;
                        ch = ch - kMagicBits ! num_trail_bytes
                    in if \<not> (is_malformed = False \<and> i = num_trail_bytes \<and> \<not> IsOutOfRange ch \<and> \<not> IsNonShortestForm ch i)
                       then Some (0, -1)
                       else Some (i, ch)
           else Some (1, ch))"

function IsValid_loop :: "u8 list \<Rightarrow> nat \<Rightarrow> bool" where
  "IsValid_loop utf8_array i =
     (if i < length utf8_array then
        let ch = ucast (utf8_array ! i) :: u32
        in if ch \<ge> 0x80 then
             let num_trail_bytes = kTrailBytes ! unat ch
             in case trail_loop utf8_array i 1 num_trail_bytes False ch of
                  None \<Rightarrow> False
                | Some (is_malformed, ch) \<Rightarrow>
                    let j = max 1 num_trail_bytes;
                        ch = ch - kMagicBits ! num_trail_bytes
                    in if \<not> (is_malformed = False \<and> j = num_trail_bytes \<and> \<not> IsOutOfRange ch \<and> \<not> IsNonShortestForm ch j)
                       then False
                       else IsValid_loop utf8_array (i + j)
           else IsValid_loop utf8_array (i + 1)
      else True)"
  by pat_completeness auto
termination by (relation "measure (\<lambda>(xs, i). length xs - i)") (auto simp: max_def split: if_splits)
declare IsValid_loop.simps [simp del]

definition IsValid :: "u8 list \<Rightarrow> bool" where
  "IsValid utf8_array = IsValid_loop utf8_array 0"

fun CodeUnitCount_loop :: "u8 list \<Rightarrow> nat \<Rightarrow> Utf8_Type \<Rightarrow> nat \<times> Utf8_Type" where
  "CodeUnitCount_loop [] len char_type = (len, char_type)"
| "CodeUnitCount_loop (code_unit # rest) len char_type =
     (if \<not> IsTrailByte code_unit then
        if \<not> IsLatin1SequenceStart code_unit then
          if IsSupplementarySequenceStart code_unit then CodeUnitCount_loop rest (len + 2) kSupplementary
          else CodeUnitCount_loop rest (len + 1) (if char_type = kLatin1 then kBMP else char_type)
        else CodeUnitCount_loop rest (len + 1) char_type
      else CodeUnitCount_loop rest len char_type)"

definition CodeUnitCount :: "u8 list \<Rightarrow> nat \<times> Utf8_Type" where
  "CodeUnitCount utf8_array = CodeUnitCount_loop utf8_array 0 kLatin1"


section \<open>Encoding and decoding one code point\<close>

text \<open>A statement on all bytes is checked on the 256 values.\<close>

lemma all_bytes: "list_all (\<lambda>n. P (of_nat n :: u8)) [0..<256] \<Longrightarrow> P b"
proof -
  assume "list_all (\<lambda>n. P (of_nat n :: u8)) [0..<256]"
  moreover have "unat b < 256" using unsigned_less [of b] by simp
  ultimately have "P (of_nat (unat b))" unfolding list_all_iff by (metis atLeastLessThan_iff set_upt zero_le)
  then show ?thesis by simp
qed

lemma IsTrailByte_iff: "IsTrailByte b = (128 \<le> unat b \<and> unat b < 192)"
  by (rule all_bytes [of "\<lambda>b. IsTrailByte b = (128 \<le> unat b \<and> unat b < 192)"]) code_simp

lemma trail_byte: "(0x80 :: u8) OR (b AND 0xBF) = of_nat (128 + unat b mod 64)"
  by (rule all_bytes [of "\<lambda>b. 0x80 OR (b AND 0xBF) = of_nat (128 + unat b mod 64)"]) code_simp

definition trail_bytes_of :: "nat \<Rightarrow> nat" where
  "trail_bytes_of n =
     (if n < 0x80 then 1 else if n < 0xC0 then 0 else if n < 0xE0 then 2 else if n < 0xF0 then 3 else if n < 0xF8 then 4
      else if n < 0xFC then 5 else if n < 0xFE then 6 else 0)"

lemma kTrailBytes_nth: "n < 256 \<Longrightarrow> kTrailBytes ! n = trail_bytes_of n"
proof -
  have "list_all (\<lambda>n. kTrailBytes ! n = trail_bytes_of n) [0..<256]" by code_simp
  then show "n < 256 \<Longrightarrow> ?thesis" by (simp add: list_all_iff)
qed

text \<open>The encoding of the number \<open>n\<close>, by arithmetic.\<close>

definition utf8 :: "nat \<Rightarrow> nat list" where
  "utf8 n =
     (if n \<le> 0x7F then [n]
      else if n \<le> 0x7FF then [0xC0 + n div 64, 0x80 + n mod 64]
      else if n \<le> 0xFFFF then [0xE0 + n div 4096, 0x80 + n div 64 mod 64, 0x80 + n mod 64]
      else [0xF0 + n div 262144, 0x80 + n div 4096 mod 64, 0x80 + n div 64 mod 64, 0x80 + n mod 64])"

lemma sint_of_nat_32: "n < 2 ^ 31 \<Longrightarrow> sint (of_nat n :: u32) = int n"
  by (simp add: signed_of_nat signed_take_bit_int_eq_self)

lemma signed_drop_bit_of_nat: "n < 2 ^ 31 \<Longrightarrow> signed_drop_bit k (of_nat n :: u32) = of_nat (n div 2 ^ k)"
proof -
  assume "n < 2 ^ 31"
  then have "sint (signed_drop_bit k (of_nat n :: u32)) = int n div 2 ^ k"
    by (simp add: sint_signed_drop_bit sint_of_nat_32)
  then have "signed_drop_bit k (of_nat n :: u32) = word_of_int (int n div 2 ^ k)"
    by (metis word_of_int_sint)
  moreover have "int n div 2 ^ k = int (n div 2 ^ k)" by (simp add: zdiv_int)
  ultimately show ?thesis by (simp only: of_int_of_nat_eq)
qed

lemma ucast_of_nat_32: "(ucast (of_nat n :: u32) :: u8) = of_nat n"
  by (rule bit_word_eqI) (auto simp: bit_simps)

lemma trail_byte_of: "(ucast (0x80 OR (of_nat n AND - 65) :: u32) :: u8) = of_nat (128 + n mod 64)"
proof -
  have "(0xBF :: u8) = NOT 64" "(- 65 :: u32) = NOT 64" by simp_all
  then have "(ucast (0x80 OR (of_nat n AND - 65) :: u32) :: u8) = 0x80 OR (of_nat n AND 0xBF)"
    by (simp only:) (rule bit_word_eqI, auto simp: bit_simps)
  also have "\<dots> = of_nat (128 + unat (of_nat n :: u8) mod 64)" by (rule trail_byte)
  also have "unat (of_nat n :: u8) mod 64 = n mod 64"
    by (simp add: unsigned_of_nat take_bit_eq_mod mod_mod_cancel)
  finally show ?thesis .
qed

lemma lead_byte_of:
  "n < 32 \<Longrightarrow> (ucast (0xC0 OR of_nat n :: u32) :: u8) = of_nat (0xC0 + n)"
  "n < 16 \<Longrightarrow> (ucast (0xE0 OR of_nat n :: u32) :: u8) = of_nat (0xE0 + n)"
  "n < 8 \<Longrightarrow> (ucast (0xF0 OR of_nat n :: u32) :: u8) = of_nat (0xF0 + n)"
proof -
  have "list_all (\<lambda>n. (ucast (0xC0 OR of_nat n :: u32) :: u8) = of_nat (0xC0 + n)) [0..<32]" by code_simp
  then show "n < 32 \<Longrightarrow> (ucast (0xC0 OR of_nat n :: u32) :: u8) = of_nat (0xC0 + n)" by (simp add: list_all_iff)
  have "list_all (\<lambda>n. (ucast (0xE0 OR of_nat n :: u32) :: u8) = of_nat (0xE0 + n)) [0..<16]" by code_simp
  then show "n < 16 \<Longrightarrow> (ucast (0xE0 OR of_nat n :: u32) :: u8) = of_nat (0xE0 + n)" by (simp add: list_all_iff)
  have "list_all (\<lambda>n. (ucast (0xF0 OR of_nat n :: u32) :: u8) = of_nat (0xF0 + n)) [0..<8]" by code_simp
  then show "n < 8 \<Longrightarrow> (ucast (0xF0 OR of_nat n :: u32) :: u8) = of_nat (0xF0 + n)" by (simp add: list_all_iff)
qed

lemma Utf8_Encode_of_nat:
  assumes "n \<le> 0x10FFFF"
  shows "Utf8_Encode (of_nat n) = map of_nat (utf8 n)"
  using assms by (simp add: Utf8_Encode_def utf8_def Let_def sint_of_nat_32 signed_drop_bit_of_nat
    trail_byte_of [simplified] lead_byte_of [simplified] ucast_of_nat_32)


lemma lead_bytes:
  "x < 32 \<Longrightarrow> kTrailBytes ! (192 + x) = 2" "x < 16 \<Longrightarrow> kTrailBytes ! (224 + x) = 3" "x < 8 \<Longrightarrow> kTrailBytes ! (240 + x) = 4"
  by (simp_all add: kTrailBytes_nth trail_bytes_of_def)

lemma byte_of_nat:
  "n < 256 \<Longrightarrow> unat (of_nat n :: u8) = n"
  "n < 256 \<Longrightarrow> (ucast (of_nat n :: u8) :: u32) = of_nat n"
  by (simp_all add: unsigned_of_nat take_bit_nat_eq_self unsigned_ucast_eq word_eq_iff_unsigned)

lemma unat_of_nat_32: "n < 2 ^ 32 \<Longrightarrow> unat (of_nat n :: u32) = n"
  by (simp add: unsigned_of_nat take_bit_nat_eq_self)

lemma range_of_nat:
  "n < 2 ^ 31 \<Longrightarrow> IsOutOfRange (of_nat n) \<longleftrightarrow> n > 0x10FFFF"
  "n < 2 ^ 31 \<Longrightarrow> IsNonShortestForm (of_nat n) 2 \<longleftrightarrow> n < 0x80"
  "n < 2 ^ 31 \<Longrightarrow> IsNonShortestForm (of_nat n) 3 \<longleftrightarrow> n < 0x800"
  "n < 2 ^ 31 \<Longrightarrow> IsNonShortestForm (of_nat n) 4 \<longleftrightarrow> n < 0x10000"
  by (simp_all add: IsOutOfRange_def sint_of_nat_32 IsNonShortestForm_def kOverlongMinimum_def word_less_nat_alt
      unat_of_nat_32)

text \<open>What the decoder does with the collected bits of a sequence of \<open>num\<close> bytes.\<close>

definition accept :: "nat \<Rightarrow> bool \<times> u32 \<Rightarrow> nat \<times> u32" where
  "accept num mc =
     (let c = snd mc - kMagicBits ! num
      in if \<not> fst mc \<and> 0 < num \<and> \<not> IsOutOfRange c \<and> \<not> IsNonShortestForm c num then (num, c) else (0, -1))"

lemma unat_ucast_byte: "unat (ucast (b :: u8) :: u32) = unat b"
proof -
  have "unat b < 2 ^ 8" using unsigned_less [of b] by simp
  then have "unat b < 2 ^ 32" by simp
  then show ?thesis by (simp add: unsigned_ucast_eq take_bit_nat_eq_self)
qed

lemma Utf8_Decode_multi:
  "128 \<le> unat b \<Longrightarrow>
   Utf8_Decode (b # r) =
     Some (case trail_loop (b # r) 0 1 (kTrailBytes ! unat b) False (ucast b) of None \<Rightarrow> (0, -1) | Some mc \<Rightarrow> accept (kTrailBytes ! unat b) mc)"
  by (cases "trail_loop (b # r) 0 1 (kTrailBytes ! unat b) False (ucast b)"; cases "kTrailBytes ! unat b")
    (auto simp: Utf8_Decode_def accept_def Let_def word_le_nat_alt unat_ucast_byte)

lemma Utf8_Decode_ascii: "unat b < 128 \<Longrightarrow> Utf8_Decode (b # r) = Some (1, ucast b)"
  by (simp add: Utf8_Decode_def Let_def word_le_nat_alt unat_ucast_byte)

lemma trail_loop_step:
  "j < num \<Longrightarrow> base + j < length xs \<Longrightarrow>
   trail_loop xs base j num m ch =
     trail_loop xs base (Suc j) num (m \<or> \<not> IsTrailByte (xs ! (base + j))) (push_bit 6 ch + ucast (xs ! (base + j)))"
  by (subst trail_loop.simps) (simp add: Let_def)

lemma trail_loop_short: "j < num \<Longrightarrow> \<not> base + j < length xs \<Longrightarrow> trail_loop xs base j num m ch = None"
  by (subst trail_loop.simps) simp

lemma trail_loop_end: "\<not> j < num \<Longrightarrow> trail_loop xs base j num m ch = Some (m, ch)"
  by (subst trail_loop.simps) simp

lemmas trail_loop_cases = trail_loop_step trail_loop_short trail_loop_end

lemma accept_of_nat:
  assumes "ch - kMagicBits ! num = of_nat n" "n < 2 ^ 31" "2 \<le> num" "num \<le> 4"
  shows "accept num (m, ch) =
    (if \<not> m \<and> n \<le> 0x10FFFF \<and> (if num = 2 then 0x80 else if num = 3 then 0x800 else 0x10000) \<le> n then (num, of_nat n) else (0, -1))"
proof -
  have "num = 2 \<or> num = 3 \<or> num = 4" using assms(3,4) by auto
  then show ?thesis using assms(1,2) by (auto simp: accept_def Let_def range_of_nat)
qed

text \<open>The arithmetic of the magic constants.\<close>

lemma magic_bits:
  "push_bit 6 (of_nat (192 + x)) + of_nat (128 + y) - kMagicBits ! 2 = (of_nat (x * 64 + y) :: u32)"
  "push_bit 6 (push_bit 6 (of_nat (224 + x)) + of_nat (128 + y)) + of_nat (128 + z) - kMagicBits ! 3 =
     (of_nat (x * 4096 + y * 64 + z) :: u32)"
  "push_bit 6 (push_bit 6 (push_bit 6 (of_nat (240 + x)) + of_nat (128 + y)) + of_nat (128 + z)) + of_nat (128 + w) - kMagicBits ! 4 =
     (of_nat (x * 262144 + y * 4096 + z * 64 + w) :: u32)"
  by (simp_all add: push_bit_eq_mult algebra_simps kMagicBits_def)

lemma ucast_byte: "(ucast (b :: u8) :: u32) = of_nat (unat b)"
  by simp

lemma decode_two:
  assumes "unat a = 192 + x" "x < 32" "unat b = 128 + y" "y < 64"
  shows "Utf8_Decode (a # b # rest) = Some (if 0x80 \<le> x * 64 + y then (2, of_nat (x * 64 + y)) else (0, -1))"
proof -
  have c: "push_bit 6 (ucast a) + ucast b - kMagicBits ! 2 = (of_nat (x * 64 + y) :: u32)"
    by (simp only: ucast_byte assms magic_bits)
  have n: "x * 64 + y \<le> 0x7FF" using assms by linarith
  have "Utf8_Decode (a # b # rest) = Some (accept 2 (False, push_bit 6 (ucast a) + ucast b))"
    using assms by (simp add: Utf8_Decode_multi trail_loop_cases lead_bytes IsTrailByte_iff)
  then show ?thesis using n by (simp add: accept_of_nat [OF c] del: of_nat_add of_nat_mult)
qed

lemma decode_three:
  assumes "unat a = 224 + x" "x < 16" "unat b = 128 + y" "y < 64" "unat c = 128 + z" "z < 64"
  shows "Utf8_Decode (a # b # c # rest) =
    Some (if 0x800 \<le> x * 4096 + y * 64 + z then (3, of_nat (x * 4096 + y * 64 + z)) else (0, -1))"
proof -
  have e: "push_bit 6 (push_bit 6 (ucast a) + ucast b) + ucast c - kMagicBits ! 3 = (of_nat (x * 4096 + y * 64 + z) :: u32)"
    by (simp only: ucast_byte assms magic_bits)
  have n: "x * 4096 + y * 64 + z \<le> 0xFFFF" using assms by linarith
  have "Utf8_Decode (a # b # c # rest) = Some (accept 3 (False, push_bit 6 (push_bit 6 (ucast a) + ucast b) + ucast c))"
    using assms by (simp add: Utf8_Decode_multi trail_loop_cases lead_bytes IsTrailByte_iff)
  then show ?thesis using n by (simp add: accept_of_nat [OF e] del: of_nat_add of_nat_mult)
qed

lemma decode_four:
  assumes "unat a = 240 + x" "x < 8" "unat b = 128 + y" "y < 64" "unat c = 128 + z" "z < 64" "unat d = 128 + w" "w < 64"
    and n: "n = x * 262144 + y * 4096 + z * 64 + w"
  shows "Utf8_Decode (a # b # c # d # rest) = Some (if 0x10000 \<le> n \<and> n \<le> 0x10FFFF then (4, of_nat n) else (0, -1))"
proof -
  let ?v = "push_bit 6 (push_bit 6 (push_bit 6 (ucast a) + ucast b) + ucast c) + ucast d :: u32"
  have e: "?v - kMagicBits ! 4 = of_nat n"
    by (simp only: ucast_byte assms magic_bits)
  have "n < 2 ^ 31" using assms by simp
  moreover have "Utf8_Decode (a # b # c # d # rest) = Some (accept 4 (False, ?v))"
    using assms by (simp add: Utf8_Decode_multi trail_loop_cases lead_bytes IsTrailByte_iff)
  ultimately show ?thesis by (auto simp: accept_of_nat [OF e])
qed

text \<open>Every encoding is decoded, whatever follows it.\<close>

lemma base_64:
  "n div 4096 * 4096 + n div 64 mod 64 * 64 + n mod 64 = (n :: nat)"
  "n div 262144 * 262144 + n div 4096 mod 64 * 4096 + n div 64 mod 64 * 64 + n mod 64 = n"
proof -
  have d: "n div 4096 = n div 64 div 64" "n div 262144 = n div 64 div 64 div 64" by (simp_all flip: div_mult2_eq)
  show "n div 4096 * 4096 + n div 64 mod 64 * 64 + n mod 64 = n"
    using div_mult_mod_eq [of n 64] div_mult_mod_eq [of "n div 64" 64] unfolding d by linarith
  then show "n div 262144 * 262144 + n div 4096 mod 64 * 4096 + n div 64 mod 64 * 64 + n mod 64 = n"
    using div_mult_mod_eq [of "n div 4096" 64] unfolding d by linarith
qed

lemma decode_utf8:
  assumes "n \<le> 0x10FFFF"
  shows "Utf8_Decode (map of_nat (utf8 n) @ rest) = Some (length (utf8 n), of_nat n)"
proof -
  consider "n \<le> 0x7F" | "0x7F < n" "n \<le> 0x7FF" | "0x7FF < n" "n \<le> 0xFFFF" | "0xFFFF < n" by linarith
  then show ?thesis
  proof cases
    case 1
    then show ?thesis by (simp add: utf8_def Utf8_Decode_ascii byte_of_nat)
  next
    case 2
    have "n div 64 < 32" "n div 64 * 64 + n mod 64 = n" using 2 by auto
    then show ?thesis
      using 2 decode_two [of "of_nat (192 + n div 64)" "n div 64" "of_nat (128 + n mod 64)" "n mod 64" rest]
      by (simp add: utf8_def byte_of_nat del: of_nat_add)
  next
    case 3
    have "n div 4096 < 16" "n div 4096 * 4096 + n div 64 mod 64 * 64 + n mod 64 = n" using 3 by (simp_all add: base_64 less_mult_imp_div_less)
    then show ?thesis
      using 3 decode_three [of "of_nat (224 + n div 4096)" "n div 4096" "of_nat (128 + n div 64 mod 64)" "n div 64 mod 64"
          "of_nat (128 + n mod 64)" "n mod 64" rest]
      by (simp add: utf8_def byte_of_nat del: of_nat_add)
  next
    case 4
    have "n div 262144 < 8" "n div 262144 * 262144 + n div 4096 mod 64 * 4096 + n div 64 mod 64 * 64 + n mod 64 = n"
      using assms by (simp_all add: base_64 less_mult_imp_div_less)
    then show ?thesis
      using 4 assms decode_four [of "of_nat (240 + n div 262144)" "n div 262144" "of_nat (128 + n div 4096 mod 64)" "n div 4096 mod 64"
          "of_nat (128 + n div 64 mod 64)" "n div 64 mod 64" "of_nat (128 + n mod 64)" "n mod 64" n rest]
      by (simp add: utf8_def byte_of_nat del: of_nat_add)
  qed
qed


text \<open>Conversely nothing but an encoding is accepted.\<close>

lemma trail_loop_sound:
  "trail_loop xs base j num m ch = Some (False, c) \<Longrightarrow>
   \<not> m \<and> (\<forall>k. j \<le> k \<and> k < num \<longrightarrow> base + k < length xs \<and> IsTrailByte (xs ! (base + k)))"
proof (induction xs base j num m ch rule: trail_loop.induct)
  case (1 xs base j num m ch)
  show ?case
  proof (cases "j < num")
    case True
    with 1(2) have l: "base + j < length xs" by (cases "base + j < length xs") (simp_all add: trail_loop_short)
    have "trail_loop xs base (j + 1) num (m \<or> \<not> IsTrailByte (xs ! (base + j))) (push_bit 6 ch + ucast (xs ! (base + j))) = Some (False, c)"
      using 1(2) True l by (simp add: trail_loop_step)
    from 1(1) [OF True l refl this]
    have "\<not> m \<and> IsTrailByte (xs ! (base + j))" "\<forall>k. Suc j \<le> k \<and> k < num \<longrightarrow> base + k < length xs \<and> IsTrailByte (xs ! (base + k))"
      by auto
    then show ?thesis using l by (metis le_eq_less_or_eq Suc_leI)
  next
    case False
    then show ?thesis using 1(2) by (auto simp: trail_loop_end)
  qed
qed

lemma accept_sound: "accept num (m, c) = (k, ch) \<Longrightarrow> ch \<noteq> -1 \<Longrightarrow> \<not> m \<and> 0 < num \<and> num < 5 \<or> 7 \<le> num"
proof -
  assume a: "accept num (m, c) = (k, ch)" "ch \<noteq> -1"
  then have b: "\<not> m" "0 < num" "\<not> IsOutOfRange ch" "\<not> IsNonShortestForm ch num" by (auto simp: accept_def Let_def split: if_splits)
  have "num \<noteq> 5 \<and> num \<noteq> 6"
  proof (rule ccontr)
    assume "\<not> (num \<noteq> 5 \<and> num \<noteq> 6)"
    then have "kOverlongMinimum ! num = -1" by (auto simp: kOverlongMinimum_def)
    then have "ch = -1" using b(4) by (simp add: IsNonShortestForm_def not_less word_order.extremum_unique)
    then show False using a by simp
  qed
  then show ?thesis using b by auto
qed

lemma div_mod_64: "r < 64 \<Longrightarrow> (q * 64 + r) div 64 = (q :: nat)" "r < 64 \<Longrightarrow> (q * 64 + r) mod 64 = r"
  by simp_all

lemma div_64_twice: "(n :: nat) div 4096 = n div 64 div 64" "(n :: nat) div 262144 = n div 64 div 64 div 64"
  by (simp_all flip: div_mult2_eq)

lemma utf8_values:
  "x < 32 \<Longrightarrow> y < 64 \<Longrightarrow> 0x80 \<le> x * 64 + y \<Longrightarrow> utf8 (x * 64 + y) = [192 + x, 128 + y]"
  "x < 16 \<Longrightarrow> y < 64 \<Longrightarrow> z < 64 \<Longrightarrow> 0x800 \<le> x * 4096 + y * 64 + z \<Longrightarrow> utf8 (x * 4096 + y * 64 + z) = [224 + x, 128 + y, 128 + z]"
  "x < 8 \<Longrightarrow> y < 64 \<Longrightarrow> z < 64 \<Longrightarrow> w < 64 \<Longrightarrow> 0x10000 \<le> x * 262144 + y * 4096 + z * 64 + w \<Longrightarrow>
     utf8 (x * 262144 + y * 4096 + z * 64 + w) = [240 + x, 128 + y, 128 + z, 128 + w]"
proof -
  show "x < 32 \<Longrightarrow> y < 64 \<Longrightarrow> 0x80 \<le> x * 64 + y \<Longrightarrow> utf8 (x * 64 + y) = [192 + x, 128 + y]"
    by (simp add: utf8_def)
  have "x * 4096 + y * 64 + z = (x * 64 + y) * 64 + z"
    "x * 262144 + y * 4096 + z * 64 + w = ((x * 64 + y) * 64 + z) * 64 + w" by simp_all
  note e = this
  show "x < 16 \<Longrightarrow> y < 64 \<Longrightarrow> z < 64 \<Longrightarrow> 0x800 \<le> x * 4096 + y * 64 + z \<Longrightarrow> utf8 (x * 4096 + y * 64 + z) = [224 + x, 128 + y, 128 + z]"
    unfolding e utf8_def div_64_twice by (simp only: div_mod_64) auto
  show "x < 8 \<Longrightarrow> y < 64 \<Longrightarrow> z < 64 \<Longrightarrow> w < 64 \<Longrightarrow> 0x10000 \<le> x * 262144 + y * 4096 + z * 64 + w \<Longrightarrow>
     utf8 (x * 262144 + y * 4096 + z * 64 + w) = [240 + x, 128 + y, 128 + z, 128 + w]"
    unfolding e utf8_def div_64_twice by (simp only: div_mod_64) auto
qed

lemma unat_byte: "unat (b :: u8) < 256"
  using unsigned_less [of b] by simp

lemma of_nat_byte: "unat (b :: u8) = n \<Longrightarrow> of_nat n = b"
  by auto

definition decoded :: "u8 list \<Rightarrow> nat \<Rightarrow> u32 \<Rightarrow> bool" where
  "decoded xs k ch = (\<exists>n \<le> 0x10FFFF. ch = of_nat n \<and> k = length (utf8 n) \<and> take k xs = map of_nat (utf8 n))"

lemma trail_byteE:
  assumes "IsTrailByte b"
  obtains y where "unat b = 128 + y" "y < 64" "b = of_nat (128 + y)"
  using assms that [of "unat b - 128"] by (auto simp: IsTrailByte_iff)

lemma decoded_two:
  assumes "unat a = 192 + x" "x < 32" "IsTrailByte b" "Utf8_Decode (a # b # r) = Some (k, ch)" "ch \<noteq> -1"
  shows "decoded (a # b # r) k ch"
proof -
  obtain y where y: "unat b = 128 + y" "y < 64" "b = of_nat (128 + y)" using assms(3) by (rule trail_byteE)
  note d = assms(4) [unfolded decode_two [OF assms(1,2) y(1,2)]]
  have c: "0x80 \<le> x * 64 + y" "k = 2" "ch = of_nat (x * 64 + y)" using d assms(5) by (auto split: if_splits)
  have l: "x * 64 + y \<le> 0x10FFFF" using assms(2) y(2) by linarith
  have u: "utf8 (x * 64 + y) = [192 + x, 128 + y]" using assms(2) y(2) c(1) by (rule utf8_values(1))
  show ?thesis unfolding decoded_def using of_nat_byte [OF assms(1)] of_nat_byte [OF y(1)]
    by (intro exI [of _ "x * 64 + y"]) (simp add: u c l del: of_nat_add of_nat_mult)
qed

lemma decoded_three:
  assumes "unat a = 224 + x" "x < 16" "IsTrailByte b" "IsTrailByte c" "Utf8_Decode (a # b # c # r) = Some (k, ch)" "ch \<noteq> -1"
  shows "decoded (a # b # c # r) k ch"
proof -
  obtain y where y: "unat b = 128 + y" "y < 64" "b = of_nat (128 + y)" using assms(3) by (rule trail_byteE)
  obtain z where z: "unat c = 128 + z" "z < 64" "c = of_nat (128 + z)" using assms(4) by (rule trail_byteE)
  note d = assms(5) [unfolded decode_three [OF assms(1,2) y(1,2) z(1,2)]]
  have c: "0x800 \<le> x * 4096 + y * 64 + z" "k = 3" "ch = of_nat (x * 4096 + y * 64 + z)" using d assms(6) by (auto split: if_splits)
  have l: "x * 4096 + y * 64 + z \<le> 0x10FFFF" using assms(2) y(2) z(2) by linarith
  have u: "utf8 (x * 4096 + y * 64 + z) = [224 + x, 128 + y, 128 + z]" using assms(2) y(2) z(2) c(1) by (rule utf8_values(2))
  show ?thesis unfolding decoded_def using of_nat_byte [OF assms(1)] of_nat_byte [OF y(1)] of_nat_byte [OF z(1)]
    by (intro exI [of _ "x * 4096 + y * 64 + z"]) (simp add: u c l del: of_nat_add of_nat_mult)
qed

lemma decoded_four:
  assumes "unat a = 240 + x" "x < 8" "IsTrailByte b" "IsTrailByte c" "IsTrailByte d"
    and "Utf8_Decode (a # b # c # d # r) = Some (k, ch)" "ch \<noteq> -1"
  shows "decoded (a # b # c # d # r) k ch"
proof -
  obtain y where y: "unat b = 128 + y" "y < 64" "b = of_nat (128 + y)" using assms(3) by (rule trail_byteE)
  obtain z where z: "unat c = 128 + z" "z < 64" "c = of_nat (128 + z)" using assms(4) by (rule trail_byteE)
  obtain w where w: "unat d = 128 + w" "w < 64" "d = of_nat (128 + w)" using assms(5) by (rule trail_byteE)
  let ?n = "x * 262144 + y * 4096 + z * 64 + w"
  note d = assms(6) [unfolded decode_four [OF assms(1,2) y(1,2) z(1,2) w(1,2) refl]]
  have c: "0x10000 \<le> ?n" "?n \<le> 0x10FFFF" "k = 4" "ch = of_nat ?n" using d assms(7) by (auto split: if_splits)
  have u: "utf8 ?n = [240 + x, 128 + y, 128 + z, 128 + w]" using assms(2) y(2) z(2) w(2) c(1) by (rule utf8_values(3))
  show ?thesis unfolding decoded_def
    using of_nat_byte [OF assms(1)] of_nat_byte [OF y(1)] of_nat_byte [OF z(1)] of_nat_byte [OF w(1)]
    by (intro exI [of _ ?n]) (simp add: u c del: of_nat_add of_nat_mult)
qed

lemma Utf8_Decode_rejects:
  assumes "Utf8_Decode (b # r) = Some (k, ch)" "ch \<noteq> -1" "128 \<le> unat b"
  obtains num where "num = kTrailBytes ! unat b" "0 < num" "num < 5"
    "\<forall>i. 1 \<le> i \<and> i < num \<longrightarrow> i < length (b # r) \<and> IsTrailByte ((b # r) ! i)"
proof -
  have n: "kTrailBytes ! unat b < 7" using unat_byte [of b] by (simp add: kTrailBytes_nth trail_bytes_of_def)
  obtain m c where t: "trail_loop (b # r) 0 1 (kTrailBytes ! unat b) False (ucast b) = Some (m, c)"
      "accept (kTrailBytes ! unat b) (m, c) = (k, ch)"
    using assms by (auto simp: Utf8_Decode_multi split: option.splits)
  have "\<not> m" "0 < kTrailBytes ! unat b" "kTrailBytes ! unat b < 5" using accept_sound [OF t(2) assms(2)] n by auto
  moreover have "\<forall>i. 1 \<le> i \<and> i < kTrailBytes ! unat b \<longrightarrow> i < length (b # r) \<and> IsTrailByte ((b # r) ! i)"
    using trail_loop_sound [of "b # r" 0 1 "kTrailBytes ! unat b" False "ucast b" c] t(1) \<open>\<not> m\<close> by auto
  ultimately show ?thesis using that by blast
qed

lemma list_prefix_nth:
  "1 < length (b # r) \<Longrightarrow> \<exists>c s. r = c # s" "2 < length (b # r) \<Longrightarrow> \<exists>c d s. r = c # d # s"
  "3 < length (b # r) \<Longrightarrow> \<exists>c d e s. r = c # d # e # s"
  by (auto simp: Suc_le_length_iff numeral_eq_Suc less_eq_Suc_le)

lemma decode_sound:
  assumes "Utf8_Decode xs = Some (k, ch)" "ch \<noteq> -1"
  shows "decoded xs k ch"
proof -
  obtain b r where xs: "xs = b # r" using assms(1) by (cases xs) (auto simp: Utf8_Decode_def)
  note d = assms(1) [unfolded xs]
  show ?thesis
  proof (cases "unat b < 128")
    case True
    then show ?thesis using d unfolding xs decoded_def
      by (intro exI [of _ "unat b"]) (auto simp: Utf8_Decode_ascii utf8_def)
  next
    case False
    then have b: "128 \<le> unat b" by simp
    obtain num where num: "num = kTrailBytes ! unat b" "0 < num" "num < 5"
      "\<forall>i. 1 \<le> i \<and> i < num \<longrightarrow> i < length (b # r) \<and> IsTrailByte ((b # r) ! i)"
      using d assms(2) b by (rule Utf8_Decode_rejects)
    have t: "trail_bytes_of (unat b) = num" using kTrailBytes_nth unat_byte num(1) by simp
    consider "num = 2" "192 \<le> unat b" "unat b < 224" | "num = 3" "224 \<le> unat b" "unat b < 240" | "num = 4" "240 \<le> unat b" "unat b < 248"
      using t b num(2,3) by (auto simp: trail_bytes_of_def split: if_splits)
    then show ?thesis
    proof cases
      case 1
      obtain c s where r: "r = c # s" using list_prefix_nth(1) [of b r] num(4) [rule_format, of 1] 1 by auto
      show ?thesis unfolding xs r
        using 1 num(4) [rule_format, of 1] d assms(2) by (intro decoded_two [of _ "unat b - 192"]) (auto simp: r)
    next
      case 2
      obtain c e s where r: "r = c # e # s" using list_prefix_nth(2) [of b r] num(4) [rule_format, of 2] 2 by auto
      show ?thesis unfolding xs r
        using 2 num(4) [rule_format, of 1] num(4) [rule_format, of 2] d assms(2) by (intro decoded_three [of _ "unat b - 224"]) (auto simp: r)
    next
      case 3
      obtain c e f s where r: "r = c # e # f # s" using list_prefix_nth(3) [of b r] num(4) [rule_format, of 3] 3 by auto
      show ?thesis unfolding xs r
        using 3 num(4) [rule_format, of 1] num(4) [rule_format, of 2] num(4) [rule_format, of 3] d assms(2) by (intro decoded_four [of _ "unat b - 240"]) (auto simp: r)
    qed
  qed
qed

end
