(* ===== verification/UnicodeStrings.thy ===== *)
theory UnicodeStrings
  imports Unicode
begin

text \<open>
  The functions of \<^verbatim>\<open>runtime/platform/unicode.cc\<close> and \<^verbatim>\<open>runtime/vm/unicode.cc\<close> on whole arrays and strings: validation, the conversions
  to Latin-1, UTF-16 and UTF-32, the counting of code units, the iterator over the code points of a string
  (\<^verbatim>\<open>runtime/vm/object.cc\<close>) and the encoding of a string.

  The three conversions are interpretations of the locale \<open>utf8_conversion\<close>; validation and conversion accept
  exactly the encodings of sequences of code points.
\<close>

text \<open>The loops over a whole array make progress because \<open>Decode\<close> consumes at least one byte unless it reports \<open>-1\<close>.\<close>

lemma Utf8_Decode_progress: "Utf8_Decode xs = Some (n, ch) \<Longrightarrow> ch \<noteq> -1 \<Longrightarrow> 0 < n"
  by (auto simp: Utf8_Decode_def Let_def split: if_splits option.splits)

function ReportInvalidByte_loop :: "u8 list \<Rightarrow> nat \<Rightarrow> nat \<Rightarrow> nat \<Rightarrow> nat" where
  "ReportInvalidByte_loop utf8_array len i j =
     (if i < length utf8_array \<and> j < len then
        let is_supplementary = IsSupplementarySequenceStart (utf8_array ! i)
        in case Utf8_Decode (drop i utf8_array) of
             None \<Rightarrow> i
           | Some (num_bytes, ch) \<Rightarrow>
               if ch = -1 then i
               else ReportInvalidByte_loop utf8_array len (i + num_bytes) ((if is_supplementary then j + 1 else j) + 1)
      else i)"
  by pat_completeness auto
termination by (relation "measure (\<lambda>(xs, _, i, _). length xs - i)") (auto dest: Utf8_Decode_progress)
declare ReportInvalidByte_loop.simps [simp del]

definition ReportInvalidByte :: "u8 list \<Rightarrow> nat \<Rightarrow> nat" where
  "ReportInvalidByte utf8_array len = ReportInvalidByte_loop utf8_array len 0 0"

text \<open>In the three conversions \<open>dst\<close> holds what has been written, so that the index \<open>j\<close> is its length.\<close>

function DecodeToLatin1_loop :: "u8 list \<Rightarrow> nat \<Rightarrow> nat \<Rightarrow> u8 list \<Rightarrow> bool \<times> u8 list" where
  "DecodeToLatin1_loop utf8_array len i dst =
     (if i < length utf8_array \<and> length dst < len then
        case Utf8_Decode (drop i utf8_array) of
          None \<Rightarrow> (False, dst)
        | Some (num_bytes, ch) \<Rightarrow>
            if ch = -1 then (False, dst)
            else DecodeToLatin1_loop utf8_array len (i + num_bytes) (dst @ [ucast ch])
      else if i < length utf8_array \<and> length dst = len then (False, dst)
      else (True, dst))"
  by pat_completeness auto
termination by (relation "measure (\<lambda>(xs, _, i, _). length xs - i)") (auto dest: Utf8_Decode_progress)
declare DecodeToLatin1_loop.simps [simp del]

definition DecodeToLatin1 :: "u8 list \<Rightarrow> nat \<Rightarrow> bool \<times> u8 list" where
  "DecodeToLatin1 utf8_array len = DecodeToLatin1_loop utf8_array len 0 []"

function DecodeToUTF16_loop :: "u8 list \<Rightarrow> nat \<Rightarrow> nat \<Rightarrow> u16 list \<Rightarrow> bool \<times> u16 list" where
  "DecodeToUTF16_loop utf8_array len i dst =
     (if i < length utf8_array \<and> length dst < len then
        let is_supplementary = IsSupplementarySequenceStart (utf8_array ! i)
        in case Utf8_Decode (drop i utf8_array) of
             None \<Rightarrow> (False, dst)
           | Some (num_bytes, ch) \<Rightarrow>
               if ch = -1 then (False, dst)
               else if is_supplementary then
                 if int (length dst) = int len - 1 then (False, dst)
                 else DecodeToUTF16_loop utf8_array len (i + num_bytes) (dst @ Utf16_Encode ch)
               else DecodeToUTF16_loop utf8_array len (i + num_bytes) (dst @ [ucast ch])
      else if i < length utf8_array \<and> length dst = len then (False, dst)
      else (True, dst))"
  by pat_completeness auto
termination by (relation "measure (\<lambda>(xs, _, i, _). length xs - i)") (auto dest: Utf8_Decode_progress)
declare DecodeToUTF16_loop.simps [simp del]

definition DecodeToUTF16 :: "u8 list \<Rightarrow> nat \<Rightarrow> bool \<times> u16 list" where
  "DecodeToUTF16 utf8_array len = DecodeToUTF16_loop utf8_array len 0 []"

function DecodeToUTF32_loop :: "u8 list \<Rightarrow> nat \<Rightarrow> nat \<Rightarrow> u32 list \<Rightarrow> bool \<times> u32 list" where
  "DecodeToUTF32_loop utf8_array len i dst =
     (if i < length utf8_array \<and> length dst < len then
        case Utf8_Decode (drop i utf8_array) of
          None \<Rightarrow> (False, dst)
        | Some (num_bytes, ch) \<Rightarrow>
            if ch = -1 then (False, dst)
            else DecodeToUTF32_loop utf8_array len (i + num_bytes) (dst @ [ch])
      else if i < length utf8_array \<and> length dst = len then (False, dst)
      else (True, dst))"
  by pat_completeness auto
termination by (relation "measure (\<lambda>(xs, _, i, _). length xs - i)") (auto dest: Utf8_Decode_progress)
declare DecodeToUTF32_loop.simps [simp del]

definition DecodeToUTF32 :: "u8 list \<Rightarrow> nat \<Rightarrow> bool \<times> u32 list" where
  "DecodeToUTF32 utf8_array len = DecodeToUTF32_loop utf8_array len 0 []"

definition TryConvertToLatin1 :: "u16 \<Rightarrow> u16" where
  "TryConvertToLatin1 c = (if c = 0x39c \<or> c = 0x3bc then 0xb5 else if c = 0x178 then 0xff else c)"

definition IsLineTerminator :: "u32 \<Rightarrow> bool" where
  "IsLineTerminator c = (c = 0x000A \<or> c = 0x000D \<or> c = 0x2028 \<or> c = 0x2029)"

section \<open>Strings\<close>

text \<open>A one-byte string holds Latin-1 characters, a two-byte string UTF-16 code units. The data of a one-byte string is
  also read a machine word at a time.\<close>

datatype DartString = OneByteString "u8 list" | TwoByteString "u16 list"

primrec StringLength :: "DartString \<Rightarrow> nat" where
  "StringLength (OneByteString cs) = length cs"
| "StringLength (TwoByteString cs) = length cs"

primrec CharAt :: "DartString \<Rightarrow> nat \<Rightarrow> u16" where
  "CharAt (OneByteString cs) index = ucast (cs ! index)"
| "CharAt (TwoByteString cs) index = cs ! index"

record CodePointIterator =
  str_m :: DartString
  ch_m :: u32
  index_m :: int
  end_m :: int

definition CodePointIterator_new :: "DartString \<Rightarrow> CodePointIterator" where
  "CodePointIterator_new str = \<lparr>str_m = str, ch_m = 0, index_m = -1, end_m = int (StringLength str)\<rparr>"

definition CodePointIterator_range :: "DartString \<Rightarrow> int \<Rightarrow> int \<Rightarrow> CodePointIterator" where
  "CodePointIterator_range str start len = \<lparr>str_m = str, ch_m = 0, index_m = start - 1, end_m = start + len\<rparr>"

definition CodePointIterator_Next :: "CodePointIterator \<Rightarrow> bool \<times> CodePointIterator" where
  "CodePointIterator_Next it =
     (let len = int (Utf16_Length (ch_m it))
      in if index_m it < end_m it - len then
           let index = index_m it + len;
               ch = ucast (CharAt (str_m it) (nat index));
               ch = (if IsLeadSurrogate ch \<and> index < end_m it - 1 then
                       let ch2 = ucast (CharAt (str_m it) (nat (index + 1)))
                       in if IsTrailSurrogate ch2 then Utf16_Decode (ucast ch) (ucast ch2) else ch
                     else ch)
           in (True, it\<lparr>index_m := index, ch_m := ch\<rparr>)
         else (False, it\<lparr>index_m := end_m it\<rparr>))"

definition kAsciiWordMask :: u64 where
  "kAsciiWordMask = 0x8080808080808080"

definition load_word :: "u8 list \<Rightarrow> nat \<Rightarrow> u64" where
  "load_word bytes i = foldr (\<lambda>b w. ucast b + push_bit 8 w) (take 8 (drop i bytes)) 0"

definition word_bytes :: "u64 \<Rightarrow> u8 list" where
  "word_bytes w = map (\<lambda>k. ucast (drop_bit (8 * k) w)) [0..<8]"

definition count_high_bits :: "u64 \<Rightarrow> nat" where
  "count_high_bits chunk =
     (let chunk = chunk AND kAsciiWordMask
      in if chunk \<noteq> 0 then
           let chunk = chunk + drop_bit 32 chunk;
               chunk = chunk + drop_bit 16 chunk;
               chunk = chunk + drop_bit 8 chunk
           in unat (drop_bit 7 chunk AND 0xf)
         else 0)"

function Length_chunks :: "u8 list \<Rightarrow> nat \<Rightarrow> nat \<Rightarrow> nat \<times> nat" where
  "Length_chunks chars i len =
     (if i \<le> length chars then Length_chunks chars (i + 8) (len + count_high_bits (load_word chars (i - 8)))
      else (i, len))"
  by pat_completeness auto
termination by (relation "measure (\<lambda>(cs, i, _). Suc (length cs) - i)") auto
declare Length_chunks.simps [simp del]

function Length_tail :: "u8 list \<Rightarrow> nat \<Rightarrow> nat \<Rightarrow> nat" where
  "Length_tail chars i len =
     (if i < length chars then
        Length_tail chars (i + 1) (if sint (ucast (CharAt (OneByteString chars) i) :: u32) > 0x7F then len + 1 else len)
      else len)"
  by pat_completeness auto
termination by (relation "measure (\<lambda>(cs, i, _). length cs - i)") auto
declare Length_tail.simps [simp del]

lemma CodePointIterator_Next_progress:
  "(True, it') = CodePointIterator_Next it \<Longrightarrow> index_m it < end_m it \<and> end_m it' - index_m it' < end_m it - index_m it"
  by (auto simp: CodePointIterator_Next_def Let_def Utf16_Length_def split: if_splits)

function Length_code_points :: "CodePointIterator \<Rightarrow> nat \<Rightarrow> nat" where
  "Length_code_points it len =
     (case CodePointIterator_Next it of
        (False, it) \<Rightarrow> len
      | (True, it) \<Rightarrow> Length_code_points it (len + Utf8_Length (ch_m it)))"
  by pat_completeness auto
termination
  by (relation "measure (\<lambda>(it, _). nat (end_m it - index_m it))")
    (auto dest: CodePointIterator_Next_progress)
declare Length_code_points.simps [simp del]

fun Utf8_LengthString :: "DartString \<Rightarrow> nat" where
  "Utf8_LengthString (OneByteString chars) =
     (case Length_chunks chars 8 (length chars) of (i, len) \<Rightarrow> Length_tail chars (i - 8) len)"
| "Utf8_LengthString (TwoByteString chars) = Length_code_points (CodePointIterator_new (TwoByteString chars)) 0"

text \<open>The bytes of one word of the input; the result says whether the destination is full.\<close>

fun Encode_bytes :: "u8 list \<Rightarrow> nat \<Rightarrow> u8 list \<Rightarrow> bool \<times> u8 list" where
  "Encode_bytes [] array_len dst = (False, dst)"
| "Encode_bytes (c # cs) array_len dst =
     (let bytes = Utf8_Length (ucast c)
      in if length dst + bytes > array_len then (True, dst)
         else Encode_bytes cs array_len (dst @ Utf8_Encode (ucast c)))"

function Encode_words :: "u8 list \<Rightarrow> nat \<Rightarrow> nat \<Rightarrow> u8 list \<Rightarrow> bool \<times> u8 list" where
  "Encode_words chars array_len i dst =
     (if i < length chars then
        if i + 8 \<le> length chars \<and> load_word chars i AND kAsciiWordMask = 0 \<and> length dst + 8 \<le> array_len
        then Encode_words chars array_len (i + 8) (dst @ word_bytes (load_word chars i))
        else case Encode_bytes (take (min 8 (length chars - i)) (drop i chars)) array_len dst of
               (True, dst) \<Rightarrow> (True, dst)
             | (False, dst) \<Rightarrow> Encode_words chars array_len (i + 8) dst
      else (False, dst))"
  by pat_completeness auto
termination by (relation "measure (\<lambda>(cs, _, i, _). length cs - i)") auto
declare Encode_words.simps [simp del]

definition kReplacementChar :: u32 where
  "kReplacementChar = 0xFFFD"

function Encode_code_points :: "CodePointIterator \<Rightarrow> nat \<Rightarrow> u8 list \<Rightarrow> u8 list" where
  "Encode_code_points it len dst =
     (case CodePointIterator_Next it of
        (False, it) \<Rightarrow> dst
      | (True, it) \<Rightarrow>
          let ch = (if IsSurrogate (ch_m it) then kReplacementChar else ch_m it);
              num_bytes = Utf8_Length ch
          in if length dst + num_bytes > len then dst
             else Encode_code_points it len (dst @ Utf8_Encode ch))"
  by pat_completeness auto
termination
  by (relation "measure (\<lambda>(it, _, _). nat (end_m it - index_m it))")
    (auto dest: CodePointIterator_Next_progress)
declare Encode_code_points.simps [simp del]

text \<open>The result is the returned number and what has been written. The branch for one-byte strings counts in a variable
  of its own that hides \<open>pos\<close>, so the last \<open>return pos\<close> returns the initial 0.\<close>

fun Utf8_EncodeString :: "DartString \<Rightarrow> nat \<Rightarrow> nat \<times> u8 list" where
  "Utf8_EncodeString (OneByteString chars) len =
     (case Encode_words chars len 0 [] of
        (True, dst) \<Rightarrow> (length dst, dst)
      | (False, dst) \<Rightarrow> (0, dst))"
| "Utf8_EncodeString (TwoByteString chars) len =
     (let dst = Encode_code_points (CodePointIterator_new (TwoByteString chars)) len []
      in (length dst, dst))"


section \<open>Sequences of code points\<close>

definition encode_all :: "u32 list \<Rightarrow> u8 list" where
  "encode_all cps = concat (map Utf8_Encode cps)"

definition code_points :: "u32 list \<Rightarrow> bool" where
  "code_points cps = (\<forall>cp \<in> set cps. \<not> IsOutOfRange cp)"

lemma encode_all_simps [simp]:
  "encode_all [] = []" "encode_all (cp # cps) = Utf8_Encode cp @ encode_all cps"
  "code_points []" "code_points (cp # cps) \<longleftrightarrow> \<not> IsOutOfRange cp \<and> code_points cps"
  by (simp_all add: encode_all_def code_points_def)

lemma code_point_iff: "\<not> IsOutOfRange cp \<longleftrightarrow> (\<exists>n \<le> 0x10FFFF. cp = of_nat n)"
proof
  assume "\<not> IsOutOfRange cp"
  then have s: "0 \<le> sint cp" "sint cp \<le> 0x10FFFF" by (simp_all add: IsOutOfRange_def)
  then have "cp = of_nat (nat (sint cp))" by simp
  then show "\<exists>n \<le> 0x10FFFF. cp = of_nat n" using s by (intro exI [of _ "nat (sint cp)"]) simp
qed (auto simp: range_of_nat)

lemma Utf8_Encode_length: "length (Utf8_Encode ch) = Utf8_Length ch" and Utf8_Encode_nonempty: "Utf8_Encode ch \<noteq> []"
  by (auto simp: Utf8_Encode_def Utf8_Length_def Let_def)

lemma Utf8_Decode_Encode:
  "\<not> IsOutOfRange cp \<Longrightarrow> Utf8_Decode (Utf8_Encode cp @ rest) = Some (length (Utf8_Encode cp), cp)"
  by (auto simp: code_point_iff Utf8_Encode_of_nat decode_utf8)

lemma Utf8_Decode_sound:
  assumes "Utf8_Decode xs = Some (k, ch)" "ch \<noteq> -1"
  shows "\<not> IsOutOfRange ch" "k = length (Utf8_Encode ch)" "take k xs = Utf8_Encode ch"
  using decode_sound [OF assms] by (auto simp: decoded_def code_point_iff Utf8_Encode_of_nat)

lemma ucast_byte_ne: "ucast (b :: u8) \<noteq> (-1 :: u32)"
proof -
  have "unat (-1 :: u32) = 4294967295" by (simp add: unsigned_minus_1_eq_mask mask_eq_exp_minus_1)
  then show ?thesis using unat_byte [of b] unat_ucast_byte [of b] by auto
qed

lemma Utf8_Decode_cases:
  assumes "xs \<noteq> []"
  obtains "Utf8_Decode xs = Some (0, -1)" | k ch where "Utf8_Decode xs = Some (k, ch)" "ch \<noteq> -1" "\<not> IsOutOfRange ch"
    "0 < k" "k \<le> length xs"
proof -
  obtain k ch where d: "Utf8_Decode xs = Some (k, ch)"
    using assms by (cases "Utf8_Decode xs") (auto simp: Utf8_Decode_def Let_def split: if_splits option.splits)
  show ?thesis
  proof (cases "ch = -1")
    case True
    have "k = 0" using d True assms
      by (auto simp: ucast_byte_ne Utf8_Decode_def Let_def IsOutOfRange_def split: if_splits option.splits)
    then show ?thesis using d True that(1) by simp
  next
    case False
    have "k = length (take k xs)" using Utf8_Decode_sound [OF d False] by simp
    then have "k \<le> length xs" by simp
    then show ?thesis using that(2) [OF d False] Utf8_Decode_sound [OF d False] Utf8_Encode_nonempty [of ch] by auto
  qed
qed

lemma trail_loop_drop: "i \<le> length xs \<Longrightarrow> trail_loop xs i j num m ch = trail_loop (drop i xs) 0 j num m ch"
proof (induction xs i j num m ch rule: trail_loop.induct)
  case (1 xs i j num m ch)
  show ?case
  proof (cases "j < num \<and> i + j < length xs")
    case True
    then have "trail_loop xs i (Suc j) num m' c = trail_loop (drop i xs) 0 (Suc j) num m' c"
      if "m' = (m \<or> \<not> IsTrailByte (xs ! (i + j)))" "c = push_bit 6 ch + ucast (xs ! (i + j))" for m' c
      using 1(1) [OF _ _ refl] 1(2) that by simp
    then show ?thesis using True trail_loop_step [of j num i xs m ch] trail_loop_step [of j num 0 "drop i xs" m ch] 1(2)
      by (simp add: less_diff_conv add.commute)
  next
    case False
    then show ?thesis using 1(2) by (cases "j < num") (auto simp: trail_loop_short trail_loop_end)
  qed
qed

lemma encode_all_first:
  assumes "Utf8_Decode xs = Some (k, ch)" "ch \<noteq> -1"
  shows "code_points cps \<and> xs = encode_all cps \<longleftrightarrow> (\<exists>cs. cps = ch # cs \<and> code_points cs \<and> drop k xs = encode_all cs)"
proof
  assume c: "code_points cps \<and> xs = encode_all cps"
  show "\<exists>cs. cps = ch # cs \<and> code_points cs \<and> drop k xs = encode_all cs"
  proof (cases cps)
    case Nil
    then show ?thesis using c assms by (simp add: Utf8_Decode_def)
  next
    case (Cons a cs)
    then show ?thesis using c assms(1) Utf8_Decode_Encode [of a "encode_all cs"] by auto
  qed
next
  assume "\<exists>cs. cps = ch # cs \<and> code_points cs \<and> drop k xs = encode_all cs"
  then show "code_points cps \<and> xs = encode_all cps"
    using Utf8_Decode_sound [OF assms] by (metis append_take_drop_id encode_all_simps(2,4))
qed

lemma encode_all_malformed:
  assumes "Utf8_Decode xs = Some (k, -1)"
  shows "\<not> (code_points cps \<and> xs = encode_all cps)"
proof (cases cps)
  case Nil
  then show ?thesis using assms by (auto simp: Utf8_Decode_def)
next
  case (Cons a cs)
  then show ?thesis using assms Utf8_Decode_Encode [of a "encode_all cs"] by (auto simp: IsOutOfRange_def)
qed

lemma encode_all_first_ex:
  assumes "Utf8_Decode xs = Some (k, ch)" "ch \<noteq> -1"
  shows "(\<exists>cps. code_points cps \<and> xs = encode_all cps \<and> P cps) \<longleftrightarrow>
    (\<exists>cs. code_points cs \<and> drop k xs = encode_all cs \<and> P (ch # cs))"
  unfolding conj_assoc [symmetric] encode_all_first [OF assms] by blast


lemma IsValid_loop_step:
  assumes "i < length xs"
  shows "IsValid_loop xs i = (case Utf8_Decode (drop i xs) of None \<Rightarrow> False | Some (k, ch) \<Rightarrow> ch \<noteq> -1 \<and> IsValid_loop xs (i + k))"
proof -
  have d: "drop i xs = xs ! i # drop (Suc i) xs" using assms by (simp add: Cons_nth_drop_Suc)
  have m: "\<not> IsOutOfRange c \<Longrightarrow> c \<noteq> -1" for c by (auto simp: IsOutOfRange_def)
  show ?thesis
  proof (cases "unat (xs ! i) < 128")
    case True
    then show ?thesis unfolding d using assms
      by (subst IsValid_loop.simps) (simp add: ucast_byte_ne Utf8_Decode_ascii Let_def word_le_nat_alt unat_ucast_byte)
  next
    case False
    let ?num = "kTrailBytes ! unat (xs ! i)"
    have "IsValid_loop xs i = (case trail_loop (drop i xs) 0 1 ?num False (ucast (xs ! i)) of
        None \<Rightarrow> False | Some mc \<Rightarrow> snd (accept ?num mc) \<noteq> -1 \<and> IsValid_loop xs (i + fst (accept ?num mc)))"
      using assms False m trail_loop_drop [of i xs]
      by (subst IsValid_loop.simps; cases "trail_loop (drop i xs) 0 1 ?num False (ucast (xs ! i))"; cases "?num")
        (simp_all add: Let_def word_le_nat_alt unat_ucast_byte accept_def split_beta)
    then show ?thesis
      using False unfolding d by (simp add: Utf8_Decode_multi split_beta split: option.splits)
  qed
qed

lemma IsValid_loop_iff:
  "i \<le> length xs \<Longrightarrow> IsValid_loop xs i \<longleftrightarrow> (\<exists>cps. code_points cps \<and> drop i xs = encode_all cps)"
proof (induction "length xs - i" arbitrary: i rule: less_induct)
  case less
  show ?case
  proof (cases "i < length xs")
    case False
    then have "drop i xs = []" "IsValid_loop xs i" using less.prems by (simp_all add: IsValid_loop.simps)
    then show ?thesis by (auto intro: exI [of _ "[]"])
  next
    case True
    then have "drop i xs \<noteq> []" by simp
    then show ?thesis
    proof (cases rule: Utf8_Decode_cases)
      case 1
      have "\<not> IsValid_loop xs i" unfolding IsValid_loop_step [OF True] 1 by simp
      then show ?thesis using encode_all_malformed [OF 1] by auto
    next
      case (2 k ch)
      have k: "i + k \<le> length xs" "0 < k" using 2(4,5) True by auto
      have "IsValid_loop xs i = IsValid_loop xs (i + k)" unfolding IsValid_loop_step [OF True] 2(1) using 2(2) by simp
      also have "\<dots> = (\<exists>cps. code_points cps \<and> drop (i + k) xs = encode_all cps)"
        using less.hyps [of "i + k"] k True by simp
      also have "\<dots> = (\<exists>cps. code_points cps \<and> drop i xs = encode_all cps)"
        using encode_all_first_ex [OF 2(1,2), of "\<lambda>_. True"] by (simp add: add.commute)
      finally show ?thesis .
    qed
  qed
qed

lemma IsValid_iff: "IsValid xs \<longleftrightarrow> (\<exists>cps. code_points cps \<and> xs = encode_all cps)"
  unfolding IsValid_def using IsValid_loop_iff [of 0 xs] by simp

section \<open>The conversions\<close>

text \<open>What the three conversions share: \<open>emit\<close> gives the elements that are written for a code point.\<close>

locale utf8_conversion =
  fixes loop :: "u8 list \<Rightarrow> nat \<Rightarrow> nat \<Rightarrow> 'u list \<Rightarrow> bool \<times> 'u list"
    and emit :: "u32 \<Rightarrow> 'u list"
  assumes emit_nonempty: "emit ch \<noteq> []"
    and loop_end: "\<not> i < length xs \<Longrightarrow> loop xs len i dst = (True, dst)"
    and loop_full: "i < length xs \<Longrightarrow> length dst = len \<Longrightarrow> loop xs len i dst = (False, dst)"
    and loop_malformed:
      "i < length xs \<Longrightarrow> length dst < len \<Longrightarrow> Utf8_Decode (drop i xs) = Some (n, -1) \<Longrightarrow> loop xs len i dst = (False, dst)"
    and loop_step:
      "i < length xs \<Longrightarrow> length dst < len \<Longrightarrow> Utf8_Decode (drop i xs) = Some (n, ch) \<Longrightarrow> ch \<noteq> -1 \<Longrightarrow>
       loop xs len i dst = (if length dst + length (emit ch) \<le> len then loop xs len (i + n) (dst @ emit ch) else (False, dst))"
begin

lemma loop_iff:
  "i \<le> length xs \<Longrightarrow> length dst \<le> len \<Longrightarrow>
   loop xs len i dst = (True, d) \<longleftrightarrow>
     (\<exists>cps. code_points cps \<and> drop i xs = encode_all cps \<and> d = dst @ concat (map emit cps) \<and> length d \<le> len)"
proof (induction "length xs - i" arbitrary: i dst rule: less_induct)
  case less
  show ?case
  proof (cases "i < length xs")
    case False
    then have e: "drop i xs = []" by simp
    have n: "[] = encode_all cps \<longleftrightarrow> cps = []" for cps by (cases cps) (simp_all add: Utf8_Encode_nonempty)
    show ?thesis using less.prems unfolding e n loop_end [OF False] by auto
  next
    case True
    then have ne: "drop i xs \<noteq> []" by simp
    then show ?thesis
    proof (cases rule: Utf8_Decode_cases)
      case 1
      have "\<not> (loop xs len i dst = (True, d))"
        using True less.prems loop_malformed [OF True _ 1] by (cases "length dst = len") (auto simp: loop_full)
      then show ?thesis using encode_all_malformed [OF 1] by auto
    next
      case (2 k ch)
      have k: "i + k \<le> length xs" "0 < k" using 2(4,5) True by auto
      have e: "0 < length (emit ch)" using emit_nonempty by simp
      have l: "loop xs len i dst =
          (if length dst + length (emit ch) \<le> len then loop xs len (i + k) (dst @ emit ch) else (False, dst))"
        using True less.prems e loop_step [OF True _ 2(1,2)] by (cases "length dst = len") (auto simp: loop_full)
      show ?thesis
      proof (cases "length dst + length (emit ch) \<le> len")
        case True
        then have "loop xs len i dst = (True, d) \<longleftrightarrow>
            (\<exists>cps. code_points cps \<and> drop (i + k) xs = encode_all cps \<and> d = (dst @ emit ch) @ concat (map emit cps) \<and> length d \<le> len)"
          using less.hyps [of "i + k" "dst @ emit ch"] k \<open>i < length xs\<close> l by simp
        also have "\<dots> = (\<exists>cps. code_points cps \<and> drop i xs = encode_all cps \<and> d = dst @ concat (map emit cps) \<and> length d \<le> len)"
          unfolding encode_all_first_ex [OF 2(1,2)] by (simp add: add.commute)
        finally show ?thesis .
      next
        case False
        then show ?thesis unfolding l encode_all_first_ex [OF 2(1,2)] by auto
      qed
    qed
  qed
qed

lemma loop_iff_start:
  "loop xs len 0 [] = (True, d) \<longleftrightarrow>
     (\<exists>cps. code_points cps \<and> xs = encode_all cps \<and> d = concat (map emit cps) \<and> length d \<le> len)"
  using loop_iff [of 0 xs "[]" len d] by simp

end


text \<open>The first byte of an encoding tells the size of the code point, the others are trailing bytes.\<close>

definition utf16 :: "u32 \<Rightarrow> u16 list" where
  "utf16 ch = (if IsSupplementary ch then Utf16_Encode ch else [ucast ch])"

lemma classes_of_nat:
  "n < 2 ^ 31 \<Longrightarrow> IsSupplementary (of_nat n) \<longleftrightarrow> 0xFFFF < n \<and> n \<le> 0x10FFFF"
  "n < 2 ^ 31 \<Longrightarrow> IsLatin1 (of_nat n) \<longleftrightarrow> n \<le> 0xFF"
  "n < 2 ^ 31 \<Longrightarrow> IsBmp (of_nat n) \<longleftrightarrow> n \<le> 0xFFFF"
  by (auto simp: IsSupplementary_def IsLatin1_def IsBmp_def sint_of_nat_32)

lemma byte_le_of_nat:
  "n < 256 \<Longrightarrow> IsLatin1SequenceStart (of_nat n) \<longleftrightarrow> n \<le> 0xC3"
  "n < 256 \<Longrightarrow> IsSupplementarySequenceStart (of_nat n) \<longleftrightarrow> 0xF0 \<le> n"
  "n < 256 \<Longrightarrow> IsTrailByte (of_nat n) \<longleftrightarrow> 128 \<le> n \<and> n < 192"
  by (simp_all add: IsLatin1SequenceStart_def IsSupplementarySequenceStart_def IsTrailByte_iff word_le_nat_alt byte_of_nat)

lemma Utf8_Encode_bytes:
  assumes "\<not> IsOutOfRange ch"
  obtains b bs where "Utf8_Encode ch = b # bs" "\<not> IsTrailByte b" "list_all IsTrailByte bs"
    "IsSupplementarySequenceStart b = IsSupplementary ch" "IsLatin1SequenceStart b = IsLatin1 ch"
proof -
  obtain n where n: "n \<le> 0x10FFFF" "ch = of_nat n" using assms by (auto simp: code_point_iff)
  have "list_all (\<lambda>b. 128 \<le> b \<and> b < 192) (tl (utf8 n))" by (auto simp: utf8_def)
  then have t: "list_all IsTrailByte (map of_nat (tl (utf8 n)))"
    unfolding list_all_iff by (auto intro!: byte_le_of_nat(3) [THEN iffD2])
  have h: "hd (utf8 n) < 256" "\<not> (128 \<le> hd (utf8 n) \<and> hd (utf8 n) < 192)" "0xF0 \<le> hd (utf8 n) \<longleftrightarrow> 0xFFFF < n" "hd (utf8 n) \<le> 0xC3 \<longleftrightarrow> n \<le> 0xFF"
    using n(1) by (auto simp: utf8_def)
  have "utf8 n = hd (utf8 n) # tl (utf8 n)" by (simp add: utf8_def)
  then have "Utf8_Encode ch = of_nat (hd (utf8 n)) # map of_nat (tl (utf8 n))"
    by (metis Utf8_Encode_of_nat list.simps(9) n)
  then show ?thesis using that t h n by (simp add: byte_le_of_nat classes_of_nat del: of_nat_add)
qed

lemma supplementary_start:
  assumes "i < length xs" "Utf8_Decode (drop i xs) = Some (k, ch)" "ch \<noteq> -1"
  shows "IsSupplementarySequenceStart (xs ! i) = IsSupplementary ch"
proof -
  note s = Utf8_Decode_sound [OF assms(2,3)]
  obtain b bs where b: "Utf8_Encode ch = b # bs" "IsSupplementarySequenceStart b = IsSupplementary ch"
    using s(1) by (rule Utf8_Encode_bytes)
  have "take k (drop i xs) ! 0 = xs ! i" using assms(1) s(2) b(1) by simp
  then show ?thesis using s(3) b by simp
qed

interpretation to_latin1: utf8_conversion DecodeToLatin1_loop "\<lambda>ch. [ucast ch]"
  by unfold_locales (simp_all add: DecodeToLatin1_loop.simps)

interpretation to_utf32: utf8_conversion DecodeToUTF32_loop "\<lambda>ch. [ch]"
  by unfold_locales (simp_all add: DecodeToUTF32_loop.simps)

lemma utf16_length: "length (utf16 ch) = (if IsSupplementary ch then 2 else 1)"
  by (simp add: utf16_def Utf16_Encode_def)

interpretation to_utf16: utf8_conversion DecodeToUTF16_loop utf16
proof
  show "utf16 ch \<noteq> []" for ch by (simp add: utf16_def Utf16_Encode_def)
  show "\<not> i < length xs \<Longrightarrow> DecodeToUTF16_loop xs len i dst = (True, dst)" for i xs len dst
    by (simp add: DecodeToUTF16_loop.simps)
  show "i < length xs \<Longrightarrow> length dst = len \<Longrightarrow> DecodeToUTF16_loop xs len i dst = (False, dst)" for i xs len dst
    by (simp add: DecodeToUTF16_loop.simps)
  show "i < length xs \<Longrightarrow> length dst < len \<Longrightarrow> Utf8_Decode (drop i xs) = Some (n, -1) \<Longrightarrow>
      DecodeToUTF16_loop xs len i dst = (False, dst)" for i xs dst len n
    by (simp add: DecodeToUTF16_loop.simps Let_def)
  show "DecodeToUTF16_loop xs len i dst =
      (if length dst + length (utf16 ch) \<le> len then DecodeToUTF16_loop xs len (i + n) (dst @ utf16 ch) else (False, dst))"
    if "i < length xs" "length dst < len" "Utf8_Decode (drop i xs) = Some (n, ch)" "ch \<noteq> -1" for i xs dst len n ch
    using that supplementary_start [OF that(1,3,4)]
    by (subst DecodeToUTF16_loop.simps) (auto simp: Let_def utf16_def Utf16_Encode_def)
qed

lemma DecodeToLatin1_iff:
  "DecodeToLatin1 xs len = (True, d) \<longleftrightarrow> (\<exists>cps. code_points cps \<and> xs = encode_all cps \<and> d = map ucast cps \<and> length d \<le> len)"
  using to_latin1.loop_iff_start [of xs len d] by (simp add: DecodeToLatin1_def concat_map_singleton)

lemma DecodeToUTF32_iff:
  "DecodeToUTF32 xs len = (True, d) \<longleftrightarrow> code_points d \<and> xs = encode_all d \<and> length d \<le> len"
  using to_utf32.loop_iff_start [of xs len d] by (auto simp: DecodeToUTF32_def concat_map_singleton)

lemma DecodeToUTF16_iff:
  "DecodeToUTF16 xs len = (True, d) \<longleftrightarrow>
     (\<exists>cps. code_points cps \<and> xs = encode_all cps \<and> d = concat (map utf16 cps) \<and> length d \<le> len)"
  using to_utf16.loop_iff_start [of xs len d] by (simp add: DecodeToUTF16_def)

section \<open>Counting code units\<close>

definition widen :: "Utf8_Type \<Rightarrow> u32 \<Rightarrow> Utf8_Type" where
  "widen t ch = (if IsSupplementary ch then kSupplementary else if IsLatin1 ch \<or> t \<noteq> kLatin1 then t else kBMP)"

lemma CodeUnitCount_trail: "list_all IsTrailByte bs \<Longrightarrow> CodeUnitCount_loop (bs @ rest) len t = CodeUnitCount_loop rest len t"
  by (induction bs) simp_all

lemma CodeUnitCount_encode:
  "\<not> IsOutOfRange ch \<Longrightarrow>
   CodeUnitCount_loop (Utf8_Encode ch @ rest) len t = CodeUnitCount_loop rest (len + length (utf16 ch)) (widen t ch)"
proof -
  assume "\<not> IsOutOfRange ch"
  then obtain b bs where "Utf8_Encode ch = b # bs" "\<not> IsTrailByte b" "list_all IsTrailByte bs"
    "IsSupplementarySequenceStart b = IsSupplementary ch" "IsLatin1SequenceStart b = IsLatin1 ch"
    by (rule Utf8_Encode_bytes)
  moreover have "IsLatin1 ch \<Longrightarrow> \<not> IsSupplementary ch" by (simp add: IsLatin1_def IsSupplementary_def)
  ultimately show ?thesis by (auto simp: CodeUnitCount_trail widen_def utf16_length)
qed

lemma CodeUnitCount_loop_encode_all:
  "code_points cps \<Longrightarrow>
   CodeUnitCount_loop (encode_all cps) len t = (len + length (concat (map utf16 cps)), foldl widen t cps)"
  by (induction cps arbitrary: len t) (simp_all add: CodeUnitCount_encode)

lemma CodeUnitCount_encode_all:
  "code_points cps \<Longrightarrow> CodeUnitCount (encode_all cps) = (length (concat (map utf16 cps)), foldl widen kLatin1 cps)"
  by (simp add: CodeUnitCount_def CodeUnitCount_loop_encode_all)

lemma foldl_widen:
  "code_points cps \<Longrightarrow>
   foldl widen t cps =
     (if t = kSupplementary \<or> (\<exists>cp \<in> set cps. IsSupplementary cp) then kSupplementary
      else if t = kBMP \<or> (\<exists>cp \<in> set cps. \<not> IsLatin1 cp) then kBMP else kLatin1)"
  by (induction cps arbitrary: t) (auto simp: widen_def split: Utf8_Type.splits, (metis Utf8_Type.exhaust)+)

lemma units_at_least: "length cps \<le> length (concat (map utf16 cps))"
  by (induction cps) (auto simp: utf16_length)

lemma latin1_utf16: "list_all IsLatin1 cps \<Longrightarrow> length (concat (map utf16 cps)) = length cps"
  by (induction cps) (auto simp: utf16_length IsLatin1_def IsSupplementary_def)


section \<open>UTF-16\<close>

text \<open>The code points of a sequence of UTF-16 units; an unpaired surrogate stands for itself.\<close>

fun utf16_decode :: "u16 list \<Rightarrow> u32 list" where
  "utf16_decode [] = []"
| "utf16_decode [u] = [ucast u]"
| "utf16_decode (u # v # us) =
     (if IsLeadSurrogate (ucast u) \<and> IsTrailSurrogate (ucast v) then Utf16_Decode u v # utf16_decode us
      else ucast u # utf16_decode (v # us))"

lemma unit_of_nat:
  "n < 2 ^ 16 \<Longrightarrow> (ucast (of_nat n :: u16) :: u32) = of_nat n" "(ucast (of_nat n :: u32) :: u16) = of_nat n"
  by (simp add: unsigned_of_nat take_bit_nat_eq_self word_eq_iff_unsigned unsigned_ucast_eq)
    (rule bit_word_eqI, auto simp: bit_simps)

lemma word_of_nat_unat_32: "of_nat (unat w) = (w :: u32)"
  by simp

lemma drop_bit_of_nat_32: "n < 2 ^ 31 \<Longrightarrow> drop_bit k (of_nat n :: u32) = of_nat (n div 2 ^ k)"
proof -
  assume n: "n < 2 ^ 31"
  have "unat (drop_bit k (of_nat n :: u32)) = n div 2 ^ k"
    using n unfolding unsigned_drop_bit_eq by (simp add: unat_of_nat_32 drop_bit_eq_div take_bit_nat_eq_self)
  then have "of_nat (unat (drop_bit k (of_nat n :: u32))) = (of_nat (n div 2 ^ k) :: u32)" by (rule arg_cong)
  then show ?thesis by (simp only: word_of_nat_unat_32)
qed

lemma clear_low_bits: "n < 2 ^ 31 \<Longrightarrow> (of_nat n :: u32) AND NOT (mask k) = of_nat (n div 2 ^ k * 2 ^ k)"
proof -
  assume n: "n < 2 ^ 31"
  have "(of_nat n :: u32) AND NOT (mask k) = push_bit k (drop_bit k (of_nat n))"
    by (rule bit_word_eqI) (auto simp: bit_simps)
  also have "drop_bit k (of_nat n :: u32) = of_nat (n div 2 ^ k)"
    using n by (rule drop_bit_of_nat_32)
  finally show ?thesis by (simp add: push_bit_eq_mult)
qed

lemma surrogate_masks: "(0xFFFFFC00 :: u32) = NOT (mask 10)" "(0xFFFFF800 :: u32) = NOT (mask 11)"
  by (simp_all add: mask_eq_exp_minus_1)

lemma of_nat_32_inj: "m < 2 ^ 32 \<Longrightarrow> n < 2 ^ 32 \<Longrightarrow> (of_nat m :: u32) = of_nat n \<longleftrightarrow> m = n"
  using unat_of_nat_32 by metis

lemma surrogate_nat:
  assumes "n < 2 ^ 31"
  shows "IsLeadSurrogate (of_nat n) \<longleftrightarrow> n div 1024 = 54" "IsTrailSurrogate (of_nat n) \<longleftrightarrow> n div 1024 = 55"
    "IsSurrogate (of_nat n) \<longleftrightarrow> n div 2048 = 27"
proof -
  have b: "n div 1024 * 1024 < 2 ^ 32" "n div 2048 * 2048 < 2 ^ 32" using assms by simp_all
  note c = clear_low_bits [OF assms, of 10] clear_low_bits [OF assms, of 11]
  show "IsLeadSurrogate (of_nat n) \<longleftrightarrow> n div 1024 = 54"
    using of_nat_32_inj [OF b(1), of 55296] unfolding IsLeadSurrogate_def surrogate_masks c by simp
  show "IsTrailSurrogate (of_nat n) \<longleftrightarrow> n div 1024 = 55"
    using of_nat_32_inj [OF b(1), of 56320] unfolding IsTrailSurrogate_def surrogate_masks c by simp
  show "IsSurrogate (of_nat n) \<longleftrightarrow> n div 2048 = 27"
    using of_nat_32_inj [OF b(2), of 55296] unfolding IsSurrogate_def surrogate_masks c by simp
qed

lemma surrogate_mask: "(of_nat n :: u32) AND 0x3FF = of_nat (n mod 1024)"
  unfolding and_numeral_take_bit take_bit_of_nat by (simp add: take_bit_eq_mod)

lemma Utf16_Encode_of_nat:
  assumes "n \<le> 0x10FFFF"
  shows "Utf16_Encode (of_nat n) = [of_nat (0xD7C0 + n div 1024), of_nat (0xDC00 + n mod 1024)]"
proof -
  have "kLeadSurrogateOffset + signed_drop_bit 10 (of_nat n) = of_nat (0xD7C0 + n div 1024)"
    using assms by (simp add: kLeadSurrogateOffset_def signed_drop_bit_of_nat)
  moreover have "0xDC00 + ((of_nat n :: u32) AND 0x3FF) = of_nat (0xDC00 + n mod 1024)"
    by (simp add: surrogate_mask)
  ultimately show ?thesis by (simp only: Utf16_Encode_def unit_of_nat)
qed

lemma Utf16_Decode_of_nat:
  "a < 2 ^ 16 \<Longrightarrow> b < 2 ^ 16 \<Longrightarrow> Utf16_Decode (of_nat a) (of_nat b) = of_nat (0x10000 + a mod 1024 * 1024 + b mod 1024)"
  by (simp add: Utf16_Decode_def unit_of_nat surrogate_mask push_bit_eq_mult)

lemma unit_nat: obtains n where "n < 2 ^ 16" "(u :: u16) = of_nat n"
proof -
  have "unat u < 2 ^ 16" using unsigned_less [of u] by simp
  then show ?thesis using that [of "unat u"] by simp
qed

lemma div_mod_1024: "r < 1024 \<Longrightarrow> (q * 1024 + r) div 1024 = (q :: nat)" "r < 1024 \<Longrightarrow> (q * 1024 + r) mod 1024 = r"
  by simp_all

lemma Utf16_pair:
  assumes "IsSupplementary ch"
  obtains l t where "Utf16_Encode ch = [l, t]" "IsLeadSurrogate (ucast l)" "IsTrailSurrogate (ucast t)" "Utf16_Decode l t = ch"
proof -
  have "\<not> IsOutOfRange ch" using assms by (auto simp: IsOutOfRange_def IsSupplementary_def)
  then obtain n where n: "n \<le> 0x10FFFF" "ch = of_nat n" by (auto simp: code_point_iff)
  then have m: "0xFFFF < n" using assms by (simp add: classes_of_nat)
  let ?l = "0xD7C0 + n div 1024" and ?t = "0xDC00 + n mod 1024"
  have q: "64 \<le> n div 1024" "n div 1024 < 1088" using n(1) m by auto
  have s: "?l < 2 ^ 16" "?t < 2 ^ 16" using q by auto
  have "?l = 54 * 1024 + (n div 1024 - 64)" "?t = 55 * 1024 + n mod 1024" "n div 1024 - 64 < 1024" using q by auto
  then have d: "?l div 1024 = 54" "?t div 1024 = 55" and e: "?l mod 1024 = n div 1024 - 64" "?t mod 1024 = n mod 1024"
    by (simp_all only: div_mod_1024 mod_less_divisor zero_less_numeral)
  have "0x10000 + ?l mod 1024 * 1024 + ?t mod 1024 = n" using q div_mult_mod_eq [of n 1024] unfolding e by linarith
  then have "Utf16_Decode (of_nat ?l) (of_nat ?t) = ch" using s by (simp only: Utf16_Decode_of_nat n)
  moreover have "IsLeadSurrogate (ucast (of_nat ?l :: u16))" "IsTrailSurrogate (ucast (of_nat ?t :: u16))"
    using s d by (simp_all add: unit_of_nat surrogate_nat del: of_nat_add)
  moreover have "Utf16_Encode ch = [of_nat ?l, of_nat ?t]" using Utf16_Encode_of_nat [OF n(1)] n(2) by simp
  ultimately show ?thesis by (intro that)
qed

lemma Utf16_Encode_Decode:
  assumes "IsLeadSurrogate (ucast l)" "IsTrailSurrogate (ucast t)"
  shows "IsSupplementary (Utf16_Decode l t)" "Utf16_Encode (Utf16_Decode l t) = [l, t]"
proof -
  obtain a where a: "a < 2 ^ 16" "l = of_nat a" by (rule unit_nat)
  obtain b where b: "b < 2 ^ 16" "t = of_nat b" by (rule unit_nat)
  have d: "a div 1024 = 54" "b div 1024 = 55" using assms a b by (simp_all add: unit_of_nat surrogate_nat)
  let ?n = "0x10000 + a mod 1024 * 1024 + b mod 1024"
  have "a mod 1024 \<le> 1023" "b mod 1024 \<le> 1023" by simp_all
  then have l: "0xFFFF < ?n" "?n \<le> 0x10FFFF" by linarith+
  have "?n = (64 + a mod 1024) * 1024 + b mod 1024" by simp
  then have "?n div 1024 = 64 + a mod 1024" "?n mod 1024 = b mod 1024"
    by (simp_all only: div_mod_1024 mod_less_divisor zero_less_numeral)
  then have "0xD7C0 + ?n div 1024 = a" "0xDC00 + ?n mod 1024 = b"
    using d div_mult_mod_eq [of a 1024] div_mult_mod_eq [of b 1024] by linarith+
  then show "Utf16_Encode (Utf16_Decode l t) = [l, t]"
    using Utf16_Encode_of_nat [OF l(2)] a b by (simp only: Utf16_Decode_of_nat)
  have "?n < 2 ^ 31" using l by simp
  from classes_of_nat(1) [OF this] have "IsSupplementary (of_nat ?n)" using l by blast
  then show "IsSupplementary (Utf16_Decode l t)" using a b by (simp only: Utf16_Decode_of_nat)
qed


lemma ucast_unit: "ucast (ucast (u :: u16) :: u32) = u"
  by (rule bit_word_eqI) (auto simp: bit_simps)

lemma unit_bmp: "IsBmp (ucast (u :: u16))" "\<not> IsSupplementary (ucast u)" "\<not> IsOutOfRange (ucast u)"
proof -
  obtain n where n: "n < 2 ^ 16" "u = of_nat n" by (rule unit_nat)
  then have "(ucast u :: u32) = of_nat n" by (simp add: unit_of_nat)
  then show "IsBmp (ucast u)" "\<not> IsSupplementary (ucast u)" "\<not> IsOutOfRange (ucast u)" using n(1) by (simp_all add: classes_of_nat range_of_nat)
qed

lemma utf16_unit: "utf16 (ucast u) = [u]"
  by (simp add: utf16_def unit_bmp ucast_unit)

lemma supplementary_in_range: "IsSupplementary ch \<Longrightarrow> \<not> IsOutOfRange ch"
  by (auto simp: IsSupplementary_def IsOutOfRange_def)

lemma utf16_combined:
  "IsLeadSurrogate (ucast u) \<Longrightarrow> IsTrailSurrogate (ucast v) \<Longrightarrow> utf16 (Utf16_Decode u v) = [u, v]"
  by (simp add: utf16_def Utf16_Encode_Decode)

lemma utf16_decode_units: "concat (map utf16 (utf16_decode us)) = us"
  by (induction us rule: utf16_decode.induct) (simp_all add: utf16_unit utf16_combined)

lemma utf16_decode_code_points: "code_points (utf16_decode us)"
  by (induction us rule: utf16_decode.induct) (auto simp: unit_bmp supplementary_in_range Utf16_Encode_Decode)

lemma lead_is_surrogate: "IsLeadSurrogate ch \<Longrightarrow> IsSurrogate ch"
proof -
  assume "IsLeadSurrogate ch"
  then have "(ch AND 0xFFFFFC00) AND 0xFFFFF800 = 0xD800" by (simp add: IsLeadSurrogate_def)
  then show ?thesis by (simp add: IsSurrogate_def and.assoc)
qed

lemma bmp_unit:
  assumes "\<not> IsOutOfRange ch" "\<not> IsSupplementary ch"
  shows "ucast (ucast ch :: u16) = ch"
proof -
  obtain n where n: "n \<le> 0x10FFFF" "ch = of_nat n" using assms(1) by (auto simp: code_point_iff)
  then have "n < 2 ^ 16" using assms(2) by (simp add: classes_of_nat)
  then show ?thesis using n by (simp add: unit_of_nat)
qed

lemma utf16_decode_single: "\<not> IsLeadSurrogate (ucast u) \<Longrightarrow> utf16_decode (u # us) = ucast u # utf16_decode us"
  by (cases us) simp_all

lemma utf16_decode_encode:
  "code_points cps \<Longrightarrow> list_all (\<lambda>cp. \<not> IsSurrogate cp) cps \<Longrightarrow> utf16_decode (concat (map utf16 cps)) = cps"
proof (induction cps)
  case (Cons cp cps)
  show ?case
  proof (cases "IsSupplementary cp")
    case True
    then obtain l t where "Utf16_Encode cp = [l, t]" "IsLeadSurrogate (ucast l)" "IsTrailSurrogate (ucast t)" "Utf16_Decode l t = cp"
      by (rule Utf16_pair)
    then show ?thesis using True Cons by (simp add: utf16_def)
  next
    case False
    then have "ucast (ucast cp :: u16) = cp" using Cons.prems by (simp add: bmp_unit)
    moreover have "\<not> IsLeadSurrogate cp" using lead_is_surrogate Cons.prems by auto
    ultimately show ?thesis using False Cons by (simp add: utf16_def utf16_decode_single)
  qed
qed simp

text \<open>\<open>Utf16::Next\<close> steps through these code points.\<close>

lemma ucast_ucast_unit: "Utf16_Decode (ucast (ucast u :: u32)) (ucast (ucast v :: u32)) = Utf16_Decode u v"
  by (simp add: ucast_unit)

lemma Utf16_Next_step:
  assumes "i < length us"
  obtains ch j where "Utf16_Next us i = (ch, j)" "i < j" "j \<le> length us"
    "utf16_decode (drop i us) = ch # utf16_decode (drop j us)"
proof (cases "Suc i < length us")
  case True
  have d: "drop i us = us ! i # us ! Suc i # drop (i + 2) us" using True by (simp add: Cons_nth_drop_Suc)
  have e: "us ! Suc i # drop (i + 2) us = drop (i + 1) us" using True by (simp add: Cons_nth_drop_Suc)
  show ?thesis
  proof (cases "IsLeadSurrogate (ucast (us ! i)) \<and> IsTrailSurrogate (ucast (us ! Suc i))")
    case t: True
    show ?thesis
      by (rule that [of "Utf16_Decode (us ! i) (us ! Suc i)" "i + 2"])
        (use True t in \<open>simp_all add: Utf16_Next_def Let_def ucast_unit d\<close>)
  next
    case f: False
    show ?thesis
    proof (rule that [of "ucast (us ! i)" "i + 1"])
      show "Utf16_Next us i = (ucast (us ! i), i + 1)" using f by (auto simp: Utf16_Next_def Let_def)
      show "utf16_decode (drop i us) = ucast (us ! i) # utf16_decode (drop (i + 1) us)"
        unfolding d e [symmetric] using f by auto
    qed (use True in simp_all)
  qed
next
  case False
  then have d: "drop i us = [us ! i]" "drop (i + 1) us = []" using assms by (simp_all add: Cons_nth_drop_Suc [symmetric])
  show ?thesis
    by (rule that [of "ucast (us ! i)" "i + 1"]) (use False assms in \<open>simp_all add: Utf16_Next_def Let_def d\<close>)
qed


section \<open>The code point iterator\<close>

primrec units :: "DartString \<Rightarrow> u16 list" where
  "units (OneByteString cs) = map ucast cs"
| "units (TwoByteString cs) = cs"

lemma length_units [simp]: "length (units s) = StringLength s"
  by (cases s) simp_all

lemma CharAt_units: "i < StringLength s \<Longrightarrow> CharAt s i = units s ! i"
  by (cases s) simp_all

text \<open>The iterator stands before the unit \<open>next_unit\<close>.\<close>

definition next_unit :: "CodePointIterator \<Rightarrow> nat" where
  "next_unit it = nat (index_m it + int (Utf16_Length (ch_m it)))"

definition iterator_ok :: "CodePointIterator \<Rightarrow> bool" where
  "iterator_ok it = (-1 \<le> index_m it \<and> end_m it = int (StringLength (str_m it)) \<and> next_unit it \<le> StringLength (str_m it))"

definition remaining :: "CodePointIterator \<Rightarrow> u32 list" where
  "remaining it = utf16_decode (drop (next_unit it) (units (str_m it)))"

lemma iterator_new: "iterator_ok (CodePointIterator_new s)" "remaining (CodePointIterator_new s) = utf16_decode (units s)"
  "str_m (CodePointIterator_new s) = s"
  by (simp_all add: iterator_ok_def remaining_def next_unit_def CodePointIterator_new_def Utf16_Length_def)

lemma Utf16_Length_classes: "\<not> IsOutOfRange ch \<Longrightarrow> Utf16_Length ch = length (utf16 ch)"
  by (auto simp: Utf16_Length_def utf16_length IsSupplementary_def IsOutOfRange_def)

lemma next_unit_int: "iterator_ok it \<Longrightarrow> index_m it + int (Utf16_Length (ch_m it)) = int (next_unit it)"
  by (auto simp: iterator_ok_def next_unit_def Utf16_Length_def)

lemma iterator_end:
  assumes "iterator_ok it" "remaining it = []"
  shows "\<exists>it'. CodePointIterator_Next it = (False, it')"
proof -
  have "utf16_decode us = [] \<longleftrightarrow> us = []" for us by (cases us rule: utf16_decode.cases) auto
  then have "StringLength (str_m it) \<le> next_unit it" using assms(2) by (simp add: remaining_def)
  moreover have "end_m it = int (StringLength (str_m it))" using assms(1) by (simp add: iterator_ok_def)
  ultimately show ?thesis using next_unit_int [OF assms(1)] by (auto simp: CodePointIterator_Next_def Let_def)
qed

lemma CodePointIterator_Next_value:
  assumes "iterator_ok it" "next_unit it < StringLength (str_m it)" "Utf16_Next (units (str_m it)) (next_unit it) = (ch, j)"
  shows "CodePointIterator_Next it = (True, it\<lparr>index_m := int (next_unit it), ch_m := ch\<rparr>)"
proof -
  note i = next_unit_int [OF assms(1)]
  have e: "end_m it = int (StringLength (str_m it))" using assms(1) by (simp add: iterator_ok_def)
  have n: "nat (int (next_unit it) + 1) = next_unit it + 1" by simp
  have g: "index_m it < int (StringLength (str_m it)) - int (Utf16_Length (ch_m it))" using i assms(2) by linarith
  show ?thesis using assms(2,3)
    by (auto simp: CodePointIterator_Next_def Utf16_Next_def Let_def i e n g CharAt_units split: if_splits)
qed

lemma iterator_next:
  assumes "iterator_ok it" "remaining it = cp # cps"
  obtains it' where "CodePointIterator_Next it = (True, it')" "ch_m it' = cp" "iterator_ok it'" "remaining it' = cps"
proof -
  let ?us = "units (str_m it)"
  have l: "next_unit it < StringLength (str_m it)"
    using assms(2) by (cases "next_unit it < StringLength (str_m it)") (auto simp: remaining_def)
  then obtain ch j where n: "Utf16_Next ?us (next_unit it) = (ch, j)" "next_unit it < j" "j \<le> length ?us"
      "utf16_decode (drop (next_unit it) ?us) = ch # utf16_decode (drop j ?us)"
    using Utf16_Next_step [of "next_unit it" ?us] by auto
  have cp: "ch = cp" "cps = utf16_decode (drop j ?us)" using n(4) assms(2) by (simp_all add: remaining_def)
  have "concat (map utf16 (ch # utf16_decode (drop j ?us))) = drop (next_unit it) ?us"
    using utf16_decode_units [of "drop (next_unit it) ?us"] unfolding n(4) .
  then have "utf16 ch @ drop j ?us = drop (next_unit it) ?us" by (simp add: utf16_decode_units)
  then have "length (utf16 ch @ drop j ?us) = length (drop (next_unit it) ?us)" by (rule arg_cong)
  then have len: "length (utf16 ch) = j - next_unit it" using n(2,3) by simp
  have "\<not> IsOutOfRange ch"
    using utf16_decode_code_points [of "drop (next_unit it) ?us"] unfolding n(4) by simp
  then have "int (next_unit it) + int (Utf16_Length ch) = int j" using len n(2) by (simp add: Utf16_Length_classes)
  then have j: "next_unit (it\<lparr>index_m := int (next_unit it), ch_m := ch\<rparr>) = j" by (simp add: next_unit_def)
  show ?thesis
    by (rule that [OF CodePointIterator_Next_value [OF assms(1) l n(1)]])
      (use cp n(3) assms(1) j in \<open>simp_all add: iterator_ok_def remaining_def\<close>)
qed

lemma Length_code_points_eq:
  "iterator_ok it \<Longrightarrow> remaining it = cps \<Longrightarrow> Length_code_points it n = n + length (encode_all cps)"
proof (induction cps arbitrary: it n)
  case Nil
  then obtain it' where "CodePointIterator_Next it = (False, it')" using iterator_end by blast
  then show ?case by (subst Length_code_points.simps) simp
next
  case (Cons cp cps)
  obtain it' where "CodePointIterator_Next it = (True, it')" "ch_m it' = cp" "iterator_ok it'" "remaining it' = cps"
    using Cons.prems by (rule iterator_next)
  then show ?case using Cons.IH [of it'] by (subst Length_code_points.simps) (simp add: Utf8_Encode_length)
qed

text \<open>Unpaired surrogates are replaced, which does not change the number of bytes.\<close>

definition scrub :: "u32 \<Rightarrow> u32" where
  "scrub ch = (if IsSurrogate ch then kReplacementChar else ch)"

lemma surrogate_length: "\<not> IsOutOfRange ch \<Longrightarrow> IsSurrogate ch \<Longrightarrow> Utf8_Length ch = 3"
proof -
  assume s: "\<not> IsOutOfRange ch" "IsSurrogate ch"
  then obtain n where n: "n \<le> 0x10FFFF" "ch = of_nat n" by (auto simp: code_point_iff)
  then have "n div 2048 = 27" using s by (simp add: surrogate_nat)
  then have "55296 \<le> n" "n < 57344" by auto
  then show ?thesis using n by (simp add: Utf8_Length_def sint_of_nat_32)
qed

lemma Utf8_Length_scrub: "\<not> IsOutOfRange ch \<Longrightarrow> Utf8_Length (scrub ch) = Utf8_Length ch"
  using surrogate_length [of ch] Utf8_Length_def [of kReplacementChar] by (simp add: scrub_def kReplacementChar_def)

lemma scrub_in_range: "\<not> IsOutOfRange ch \<Longrightarrow> \<not> IsOutOfRange (scrub ch)" "\<not> IsSurrogate (scrub ch)"
  by (auto simp: scrub_def kReplacementChar_def IsOutOfRange_def IsSurrogate_def)

lemma Encode_code_points_eq:
  "iterator_ok it \<Longrightarrow> remaining it = cps \<Longrightarrow> length dst + length (encode_all (map scrub cps)) \<le> len \<Longrightarrow>
   Encode_code_points it len dst = dst @ encode_all (map scrub cps)"
proof (induction cps arbitrary: it dst)
  case Nil
  then obtain it' where "CodePointIterator_Next it = (False, it')" using iterator_end by blast
  then show ?case by (subst Encode_code_points.simps) simp
next
  case (Cons cp cps)
  obtain it' where "CodePointIterator_Next it = (True, it')" "ch_m it' = cp" "iterator_ok it'" "remaining it' = cps"
    using Cons.prems(1,2) by (rule iterator_next)
  then show ?case using Cons.IH [of it' "dst @ Utf8_Encode (scrub cp)"] Cons.prems(3)
    by (subst Encode_code_points.simps) (simp add: Utf8_Encode_length Let_def flip: scrub_def)
qed

lemma Encode_code_points_bound: "length dst \<le> len \<Longrightarrow> length (Encode_code_points it len dst) \<le> len"
proof (induction it len dst rule: Encode_code_points.induct)
  case (1 it len dst)
  then show ?case
    by (subst Encode_code_points.simps) (auto simp: Let_def Utf8_Encode_length split: prod.splits bool.splits)
qed


section \<open>One-byte strings\<close>

text \<open>The word at an index, by its bits.\<close>

definition le_word :: "u8 list \<Rightarrow> u64" where
  "le_word bs = foldr (\<lambda>b w. ucast b + push_bit 8 w) bs 0"

lemma load_word_le: "load_word bytes i = le_word (take 8 (drop i bytes))"
  by (simp add: load_word_def le_word_def)

lemma le_word_Cons: "le_word (b # bs) = ucast b OR push_bit 8 (le_word bs)"
proof -
  have "le_word (b # bs) = ucast b + push_bit 8 (le_word bs)" by (simp add: le_word_def)
  also have "\<dots> = ucast b OR push_bit 8 (le_word bs)" by (rule disjunctive_add) (auto simp: bit_simps dest: bit_imp_le_length)
  finally show ?thesis .
qed

lemma bit_le_word: "n < 64 \<Longrightarrow> bit (le_word bs) n \<longleftrightarrow> n div 8 < length bs \<and> bit (bs ! (n div 8)) (n mod 8)"
proof (induction bs arbitrary: n)
  case Nil
  then show ?case by (simp add: le_word_def)
next
  case (Cons b bs)
  show ?case
  proof (cases "n < 8")
    case True
    then show ?thesis by (simp add: le_word_Cons bit_simps)
  next
    case False
    have d: "n div 8 = Suc ((n - 8) div 8)" "n mod 8 = (n - 8) mod 8" using False by (simp_all add: div_if mod_if [of n])
    have "bit (le_word (b # bs)) n \<longleftrightarrow> bit (le_word bs) (n - 8)"
      using False Cons.prems bit_imp_le_length [of b n] by (auto simp: le_word_Cons bit_simps)
    then show ?thesis using Cons.IH [of "n - 8"] Cons.prems by (simp add: d)
  qed
qed

lemma word_bytes_le: "length bs = 8 \<Longrightarrow> word_bytes (le_word bs) = bs"
proof (rule nth_equalityI)
  fix k
  assume "length bs = 8" "k < length (word_bytes (le_word bs))"
  then have k: "length bs = 8" "k < 8" by (simp_all add: word_bytes_def)
  have "ucast (drop_bit (8 * k) (le_word bs)) = bs ! k"
  proof (rule bit_word_eqI)
    fix m
    assume "m < LENGTH(8)"
    then have m: "m < 8" by simp
    then have "8 * k + m < 64" "(8 * k + m) div 8 = k" "(8 * k + m) mod 8 = m" using k by auto
    then show "bit (ucast (drop_bit (8 * k) (le_word bs)) :: u8) m = bit (bs ! k) m"
      using m k by (simp add: bit_simps bit_le_word)
  qed
  then show "word_bytes (le_word bs) ! k = bs ! k" using k by (simp add: word_bytes_def)
qed (simp add: word_bytes_def)

lemma bit_kAsciiWordMask: "n < 64 \<Longrightarrow> bit kAsciiWordMask n \<longleftrightarrow> n mod 8 = 7"
proof -
  have "list_all (\<lambda>n. bit kAsciiWordMask n \<longleftrightarrow> n mod 8 = 7) [0..<64]" by code_simp
  then show "n < 64 \<Longrightarrow> ?thesis" by (simp add: list_all_iff)
qed

lemma bit_0x80: "n < 8 \<Longrightarrow> bit (0x80 :: u8) n \<longleftrightarrow> n = 7"
proof -
  have "list_all (\<lambda>n. bit (0x80 :: u8) n \<longleftrightarrow> n = 7) [0..<8]" by code_simp
  then show "n < 8 \<Longrightarrow> ?thesis" by (simp add: list_all_iff)
qed

lemma le_word_mask: "le_word bs AND kAsciiWordMask = le_word (map (\<lambda>b. b AND 0x80) bs)"
proof (rule bit_word_eqI)
  fix n
  assume "n < LENGTH(64)"
  then show "bit (le_word bs AND kAsciiWordMask) n = bit (le_word (map (\<lambda>b. b AND 0x80) bs)) n"
    using bit_0x80 [of "n mod 8"] by (auto simp: bit_and_iff bit_le_word bit_kAsciiWordMask)
qed

definition non_ascii :: "u8 \<Rightarrow> bool" where
  "non_ascii b = (128 \<le> uint b)"

lemma non_ascii_iff: "(b AND 0x80 = 0) = (\<not> non_ascii b)" "b AND 0x80 = 0 \<or> b AND 0x80 = 0x80"
  by (rule all_bytes [of "\<lambda>b. (b AND 0x80 = 0) = (\<not> non_ascii b)"], code_simp)
    (rule all_bytes [of "\<lambda>b. b AND 0x80 = 0 \<or> b AND 0x80 = 0x80"], code_simp)

text \<open>The sum of the high bits of the bytes as the code computes it, on integers.\<close>

definition high_sum :: "int \<Rightarrow> int" where
  "high_sum n = (let a = n + n div 4294967296; b = a + a div 65536; c = b + b div 256 in c div 128 mod 16)"

lemma high_sum_masks: "length cs = 8 \<Longrightarrow> set cs \<subseteq> {0, 128} \<Longrightarrow> high_sum (foldr (\<lambda>b n. b + 256 * n) cs 0) * 128 = sum_list cs"
proof -
  have "list_all (\<lambda>cs. high_sum (foldr (\<lambda>b n. b + 256 * n) cs 0) * 128 = sum_list cs) (List.n_lists 8 [0, 128])"
    by code_simp
  then show "length cs = 8 \<Longrightarrow> set cs \<subseteq> {0, 128} \<Longrightarrow> ?thesis" by (simp add: list_all_iff set_n_lists)
qed

lemma uint_drop_bit: "uint (drop_bit k (w :: u64)) = uint w div 2 ^ k"
proof -
  have "uint w < 2 ^ 64" using unsigned_less [of w] by simp
  then show ?thesis unfolding unsigned_drop_bit_eq by (simp add: drop_bit_eq_div take_bit_int_eq_self)
qed

lemma uint_add_small: "uint a + uint b < 2 ^ 64 \<Longrightarrow> uint (a + b :: u64) = uint a + uint b"
  by (simp add: uint_word_ariths)

lemma uint_add_shifted:
  "uint w + uint w div 2 ^ k < 2 ^ 64 \<Longrightarrow> uint (w + drop_bit k w :: u64) = uint w + uint w div 2 ^ k"
  by (simp only: uint_add_small uint_drop_bit)

lemma count_high_bits_int:
  assumes "w AND kAsciiWordMask = w"
  shows "int (count_high_bits w) = high_sum (uint w)"
proof -
  have "uint (w AND kAsciiWordMask) \<le> uint kAsciiWordMask" unfolding uint_and by (rule AND_upper2) simp
  then have l: "uint w \<le> 0x8080808080808080" unfolding assms by (simp add: kAsciiWordMask_def)
  define a where "a = w + drop_bit 32 w"
  define b where "b = a + drop_bit 16 a"
  define c where "c = b + drop_bit 8 b"
  have a: "uint a = uint w + uint w div 4294967296"
    using l uint_add_shifted [of w 32] unfolding a_def by simp
  have la: "uint a \<le> 0x8080808101010100" using l unfolding a by linarith
  have b: "uint b = uint a + uint a div 65536"
    using la uint_add_shifted [of a 16] unfolding b_def by simp
  have "uint b \<le> 0x8081010201820201" using la unfolding b by linarith
  then have c: "uint c = uint b + uint b div 256"
    using uint_add_shifted [of b 8] unfolding c_def by simp
  have "uint (drop_bit 7 c AND 0xf) = take_bit 4 (uint (drop_bit 7 c))"
    unfolding and_numeral_take_bit by (rule unsigned_take_bit_eq)
  also have "\<dots> = uint c div 128 mod 16" unfolding uint_drop_bit by (simp add: take_bit_eq_mod)
  finally have "int (unat (drop_bit 7 c AND 0xf)) = high_sum (uint w)"
    by (simp only: uint_nat [symmetric] high_sum_def Let_def a b c)
  moreover have "high_sum 0 = 0" by (simp add: high_sum_def)
  ultimately show ?thesis using assms by (auto simp: count_high_bits_def Let_def a_def b_def c_def)
qed

lemma uint_le_word:
  "length bs \<le> 8 \<Longrightarrow> uint (le_word bs) = foldr (\<lambda>b n. b + 256 * n) (map uint bs) 0 \<and> uint (le_word bs) < 256 ^ length bs"
proof (induction bs)
  case Nil
  then show ?case by (simp add: le_word_def)
next
  case (Cons b bs)
  have b: "uint b < 256" using unsigned_less [of b] by simp
  then have ub: "uint (ucast b :: u64) = uint b" by (simp add: unsigned_ucast_eq take_bit_int_eq_self)
  have u: "uint (le_word bs) < 256 ^ length bs" using Cons by simp
  have "256 ^ length (b # bs) \<le> (256 :: int) ^ 8" using Cons.prems by (intro power_increasing) simp_all
  then have p: "256 * (256 :: int) ^ length bs \<le> 2 ^ 64" by simp
  have "256 * uint (le_word bs) \<le> 256 * (256 ^ length bs - 1)" using u by simp
  then have s: "uint b + 256 * uint (le_word bs) < 256 * 256 ^ length bs" using b by (simp add: algebra_simps)
  have m: "uint (push_bit 8 (le_word bs)) = 256 * uint (le_word bs)"
  proof -
    have "0 \<le> uint b" by simp
    then have "256 * uint (le_word bs) < 2 ^ 64" using s p by linarith
    then show ?thesis unfolding unsigned_push_bit_eq by (simp add: push_bit_eq_mult take_bit_int_eq_self mult.commute)
  qed
  have w: "le_word (b # bs) = ucast b + push_bit 8 (le_word bs)" by (simp add: le_word_def)
  have "uint (le_word (b # bs)) = uint b + 256 * uint (le_word bs)"
    unfolding w using s p uint_add_small [of "ucast b" "push_bit 8 (le_word bs)"] unfolding ub m by linarith
  then show ?case using Cons s by simp
qed
lemma count_high_bits_masks:
  assumes "length cs = 8" "set cs \<subseteq> {0, 0x80}"
  shows "count_high_bits (le_word cs) = length (filter (\<lambda>c. c \<noteq> 0) cs)"
proof -
  have "map (\<lambda>b. b AND 0x80) cs = map id cs" using assms(2) by (intro map_cong) auto
  then have "le_word cs AND kAsciiWordMask = le_word cs" by (simp add: le_word_mask)
  then have "int (count_high_bits (le_word cs)) = high_sum (foldr (\<lambda>b n. b + 256 * n) (map uint cs) 0)"
    using assms(1) by (simp add: count_high_bits_int uint_le_word)
  moreover have "\<dots> * 128 = sum_list (map uint cs)"
    by (rule high_sum_masks) (use assms in auto)
  moreover have "set cs \<subseteq> {0, 0x80} \<Longrightarrow> sum_list (map uint cs) = 128 * int (length (filter (\<lambda>c. c \<noteq> 0) cs))"
    by (induction cs) auto
  ultimately show ?thesis using assms(2) by simp
qed

lemma count_high_bits_mask: "count_high_bits (w AND kAsciiWordMask) = count_high_bits w"
  by (simp add: count_high_bits_def and.assoc)

lemma count_high_bits_le: "length bs = 8 \<Longrightarrow> count_high_bits (le_word bs) = length (filter non_ascii bs)"
proof -
  assume l: "length bs = 8"
  have "count_high_bits (le_word bs) = count_high_bits (le_word (map (\<lambda>b. b AND 0x80) bs))"
    by (simp only: le_word_mask [symmetric] count_high_bits_mask)
  also have "\<dots> = length (filter (\<lambda>c. c \<noteq> 0) (map (\<lambda>b. b AND 0x80) bs))"
    by (rule count_high_bits_masks) (use l non_ascii_iff(2) in auto)
  also have "\<dots> = length (filter non_ascii bs)" by (simp add: filter_map comp_def non_ascii_iff(1))
  finally show ?thesis .
qed

lemma ascii_word: "length bs = 8 \<Longrightarrow> le_word bs AND kAsciiWordMask = 0 \<Longrightarrow> list_all (\<lambda>b. \<not> non_ascii b) bs"
proof -
  assume l: "length bs = 8" and z: "le_word bs AND kAsciiWordMask = 0"
  have "count_high_bits (le_word bs) = 0" using z by (simp add: count_high_bits_def)
  then show ?thesis using count_high_bits_le [OF l] by (simp add: filter_empty_conv list_all_iff)
qed


text \<open>A character below 128 is one byte, any other character two.\<close>

lemma Latin1_char: "IsLatin1 (ucast (b :: u8))" "\<not> IsOutOfRange (ucast b)" "sint (ucast b :: u32) = uint b" "uint b < 256"
proof -
  have b: "b = of_nat (unat b)" by simp
  obtain n where n: "n < 256" "b = of_nat n" using that [OF unat_byte b] .
  have c: "(ucast b :: u32) = of_nat n" "n < 2 ^ 31" using n by (simp_all add: byte_of_nat)
  have u: "uint b = int n" using n by (simp add: unsigned_of_nat take_bit_nat_eq_self)
  show "IsLatin1 (ucast b)" "\<not> IsOutOfRange (ucast b)" "sint (ucast b :: u32) = uint b" "uint b < 256"
    unfolding c(1) u using n(1) c(2) by (simp_all add: classes_of_nat range_of_nat sint_of_nat_32)
qed

lemma ucast_char: "(ucast (ucast (b :: u8) :: u16) :: u32) = ucast b" "(ucast (ucast b :: u32) :: u8) = b"
  by (rule bit_word_eqI, auto simp: bit_simps dest: bit_imp_le_length)+

lemma Latin1_length: "Utf8_Length (ucast (b :: u8)) = (if non_ascii b then 2 else 1)"
  using Latin1_char(4) [of b] by (auto simp: Utf8_Length_def Latin1_char(3) non_ascii_def)

lemma Latin1_ascii: "\<not> non_ascii b \<Longrightarrow> Utf8_Encode (ucast b) = [b]"
  by (simp add: Utf8_Encode_def Let_def Latin1_char(3) non_ascii_def ucast_char)

lemma Latin1_encode_length: "length (encode_all (map ucast (bs :: u8 list))) = length bs + length (filter non_ascii bs)"
  by (induction bs) (simp_all add: Utf8_Encode_length Latin1_length)

lemma Latin1_encode_ascii: "list_all (\<lambda>b. \<not> non_ascii b) bs \<Longrightarrow> encode_all (map ucast bs) = bs"
  by (induction bs) (simp_all add: Latin1_ascii)

lemma encode_all_append: "encode_all (xs @ ys) = encode_all xs @ encode_all ys"
  by (simp add: encode_all_def)

lemma Length_tail_eq: "i \<le> length cs \<Longrightarrow> Length_tail cs i n = n + length (filter non_ascii (drop i cs))"
proof (induction cs i n rule: Length_tail.induct)
  case (1 cs i n)
  show ?case
  proof (cases "i < length cs")
    case True
    have c: "sint (ucast (CharAt (OneByteString cs) i) :: u32) > 0x7F \<longleftrightarrow> non_ascii (cs ! i)"
      using Latin1_char(3) [of "cs ! i"] by (auto simp: non_ascii_def ucast_char)
    have "drop i cs = cs ! i # drop (i + 1) cs" using True by (simp add: Cons_nth_drop_Suc)
    then show ?thesis using 1 True c by (subst Length_tail.simps) simp
  next
    case False
    then show ?thesis using 1(2) by (simp add: Length_tail.simps)
  qed
qed

lemma Length_chunks_eq:
  "8 \<le> i \<Longrightarrow> i \<le> length cs + 8 \<Longrightarrow>
   (case Length_chunks cs i n of (i', n') \<Rightarrow> Length_tail cs (i' - 8) n') = n + length (filter non_ascii (drop (i - 8) cs))"
proof (induction cs i n rule: Length_chunks.induct)
  case (1 cs i n)
  show ?case
  proof (cases "i \<le> length cs")
    case True
    have d: "drop (i - 8) cs = take 8 (drop (i - 8) cs) @ drop i cs"
      using 1(2) append_take_drop_id [of 8 "drop (i - 8) cs"] by simp
    have "count_high_bits (load_word cs (i - 8)) = length (filter non_ascii (take 8 (drop (i - 8) cs)))"
      unfolding load_word_le by (rule count_high_bits_le) (use True 1(2) in simp)
    then have "n + length (filter non_ascii (drop (i - 8) cs)) = n + count_high_bits (load_word cs (i - 8)) + length (filter non_ascii (drop i cs))"
      by (subst d) simp
    then show ?thesis using 1(1) [OF True] 1(2) True by (subst Length_chunks.simps) simp
  next
    case False
    then show ?thesis using 1(2,3) by (subst Length_chunks.simps) (simp add: Length_tail_eq)
  qed
qed

lemma Utf8_LengthString_one_byte: "Utf8_LengthString (OneByteString cs) = length (encode_all (map ucast cs))"
  using Length_chunks_eq [of 8 cs "length cs"] by (simp add: Latin1_encode_length)

lemma Encode_bytes_eq:
  "length dst + length (encode_all (map ucast cs)) \<le> n \<Longrightarrow> Encode_bytes cs n dst = (False, dst @ encode_all (map ucast cs))"
  by (induction cs arbitrary: dst) (simp_all add: Let_def Utf8_Encode_length)

lemma Encode_bytes_bound: "length dst \<le> n \<Longrightarrow> length (snd (Encode_bytes cs n dst)) \<le> n"
  by (induction cs arbitrary: dst) (simp_all add: Let_def Utf8_Encode_length)

text \<open>The fast path copies eight plain characters at once.\<close>

lemma Encode_words_fast:
  assumes "i + 8 \<le> length cs" "load_word cs i AND kAsciiWordMask = 0"
  shows "word_bytes (load_word cs i) = encode_all (map ucast (take 8 (drop i cs)))"
proof -
  have l: "length (take 8 (drop i cs)) = 8" using assms(1) by simp
  then have "word_bytes (load_word cs i) = take 8 (drop i cs)" unfolding load_word_le by (rule word_bytes_le)
  then show ?thesis using ascii_word [OF l] assms(2) by (simp add: load_word_le Latin1_encode_ascii)
qed

lemma Encode_words_eq:
  "length dst + length (encode_all (map ucast (drop i cs))) \<le> n \<Longrightarrow>
   Encode_words cs n i dst = (False, dst @ encode_all (map ucast (drop i cs)))"
proof (induction cs n i dst rule: Encode_words.induct)
  case (1 cs n i dst)
  let ?fast = "i + 8 \<le> length cs \<and> load_word cs i AND kAsciiWordMask = 0 \<and> length dst + 8 \<le> n"
  show ?case
  proof (cases "i < length cs")
    case True
    have "map ucast (drop i cs) = map ucast (take 8 (drop i cs)) @ (map ucast (drop (i + 8) cs) :: u32 list)"
      using append_take_drop_id [of 8 "drop i cs"] by (simp add: add.commute flip: map_append)
    then have d: "encode_all (map ucast (drop i cs)) = encode_all (map ucast (take 8 (drop i cs))) @ encode_all (map ucast (drop (i + 8) cs))"
      by (simp only: encode_all_append)
    have t: "take (min 8 (length cs - i)) (drop i cs) = take 8 (drop i cs)" by (simp add: min_def)
    have b: "Encode_bytes (take 8 (drop i cs)) n dst = (False, dst @ encode_all (map ucast (take 8 (drop i cs))))"
      using 1(3) unfolding d by (intro Encode_bytes_eq) simp
    show ?thesis
    proof (cases ?fast)
      case f: True
      then show ?thesis using 1(1) [OF True f] 1(3) Encode_words_fast [of i cs] True
        unfolding d by (subst Encode_words.simps) simp
    next
      case f: False
      have "Encode_words cs n (i + 8) (dst @ encode_all (map ucast (take 8 (drop i cs)))) = (False, dst @ encode_all (map ucast (drop i cs)))"
        using 1(2) [OF True f] b 1(3) unfolding d t by auto
      then show ?thesis using f b True by (subst Encode_words.simps) (auto simp: t)
    qed
  next
    case False
    then show ?thesis by (simp add: Encode_words.simps)
  qed
qed

lemma Encode_words_bound: "length dst \<le> n \<Longrightarrow> length (snd (Encode_words cs n i dst)) \<le> n"
proof (induction cs n i dst rule: Encode_words.induct)
  case (1 cs n i dst)
  have "length (word_bytes w) = 8" for w by (simp add: word_bytes_def)
  then show ?case
    using 1 Encode_bytes_bound [of dst n "take (min 8 (length cs - i)) (drop i cs)"]
    by (subst Encode_words.simps) (auto split: prod.splits bool.splits)
qed


section \<open>Encoding a string\<close>

definition string_code_points :: "DartString \<Rightarrow> u32 list" where
  "string_code_points s = utf16_decode (units s)"

lemma string_code_points_in_range: "code_points (string_code_points s)" "code_points (map scrub (string_code_points s))"
  using utf16_decode_code_points [of "units s"] scrub_in_range(1) by (auto simp: string_code_points_def code_points_def)

lemma Latin1_not_surrogate: "\<not> IsSurrogate (ucast (b :: u8))" "\<not> IsLeadSurrogate (ucast b)"
proof -
  have "(ucast b :: u32) = of_nat (unat b)" "unat b < 256" using unat_byte by simp_all
  moreover have "n < 256 \<Longrightarrow> \<not> IsSurrogate (of_nat n)" for n by (subst surrogate_nat) auto
  ultimately show "\<not> IsSurrogate (ucast b)" by metis
  then show "\<not> IsLeadSurrogate (ucast b)" using lead_is_surrogate by blast
qed

lemma one_byte_code_points: "string_code_points (OneByteString cs) = map ucast cs"
proof -
  have "utf16_decode (map ucast cs) = map ucast cs"
    by (induction cs) (simp_all add: utf16_decode_single ucast_char Latin1_not_surrogate)
  then show ?thesis by (simp add: string_code_points_def)
qed

lemma map_scrub: "list_all (\<lambda>cp. \<not> IsSurrogate cp) cps \<Longrightarrow> map scrub cps = cps"
  by (induction cps) (simp_all add: scrub_def)

lemma one_byte_scrub: "map scrub (string_code_points (OneByteString cs)) = map ucast cs"
  by (simp add: one_byte_code_points scrub_def Latin1_not_surrogate)

lemma length_encode_scrub: "code_points cps \<Longrightarrow> length (encode_all (map scrub cps)) = length (encode_all cps)"
  by (induction cps) (simp_all add: Utf8_Encode_length Utf8_Length_scrub)

lemma Utf8_LengthString_eq: "Utf8_LengthString s = length (encode_all (map scrub (string_code_points s)))"
proof (cases s)
  case (OneByteString cs)
  then show ?thesis by (simp only: Utf8_LengthString_one_byte one_byte_scrub)
next
  case (TwoByteString cs)
  then show ?thesis
    using Length_code_points_eq [OF iterator_new(1,2), of s 0] length_encode_scrub [OF string_code_points_in_range(1), of s]
    by (simp add: string_code_points_def)
qed

lemma Utf8_EncodeString_eq:
  assumes "Utf8_LengthString s \<le> len"
  shows "Utf8_EncodeString s len =
    (case s of OneByteString _ \<Rightarrow> 0 | TwoByteString _ \<Rightarrow> Utf8_LengthString s, encode_all (map scrub (string_code_points s)))"
proof (cases s)
  case (OneByteString cs)
  then show ?thesis using assms Encode_words_eq [of "[]" 0 cs len] one_byte_scrub [of cs]
    by (simp add: Utf8_LengthString_eq del: Utf8_LengthString.simps)
next
  case (TwoByteString cs)
  have "Encode_code_points (CodePointIterator_new s) len [] = encode_all (map scrub (string_code_points s))"
    using Encode_code_points_eq [OF iterator_new(1,2), of "[]" s len] assms by (simp add: Utf8_LengthString_eq string_code_points_def)
  then show ?thesis using TwoByteString by (simp add: Utf8_LengthString_eq Let_def del: Utf8_LengthString.simps)
qed

lemma Utf8_EncodeString_bound: "length (snd (Utf8_EncodeString s len)) \<le> len"
proof (cases s)
  case (OneByteString cs)
  then show ?thesis using Encode_words_bound [of "[]" len cs 0] by (auto split: prod.splits bool.splits)
next
  case (TwoByteString cs)
  then show ?thesis using Encode_code_points_bound [of "[]" len] by (simp add: Let_def)
qed

lemma IsValid_encode: "code_points cps \<Longrightarrow> IsValid (encode_all cps)"
  unfolding IsValid_iff by auto

lemma string_utf16:
  assumes "list_all (\<lambda>cp. \<not> IsSurrogate cp) (string_code_points s)"
  shows "DecodeToUTF16 (encode_all (map scrub (string_code_points s))) (StringLength s) = (True, units s)"
  unfolding map_scrub [OF assms] DecodeToUTF16_iff
  using utf16_decode_units [of "units s"] string_code_points_in_range(1) [of s]
  by (intro exI [of _ "string_code_points s"]) (simp add: string_code_points_def)

end
