(* ===== verification/CaseMapping.thy ===== *)
theory CaseMapping
  imports Prelude
begin

text \<open>
  The simple case mapping of code points: \<^verbatim>\<open>class CaseMapping\<close> of \<^verbatim>\<open>runtime/platform/unicode.h\<close> with the tables of
  \<^verbatim>\<open>runtime/vm/unicode_data.cc\<close>. The tables are lists with the entries of the source. An access outside of a table, undefined
  in C++, is \<open>None\<close>. A code point is an integer; the numbers stay far below the bounds of 32 bits.

  The lookups stay inside the tables for every code point but one: the limit of the first table is
  compared with \<open>\<le>\<close>, so \<open>U+10500\<close> reads one entry behind its end.
\<close>

section \<open>Tables\<close>

definition stage1_m :: "int list" where
  "stage1_m =
    [0, 1, 2, 3, 4, 5, 6, 6, 6, 6, 6, 6, 6, 6, 6, 6, 7, 6, 6, 6,
     6, 6, 6, 6, 6, 6, 6, 6, 6, 8, 9, 10, 6, 11, 6, 6, 12, 6, 6, 6,
     6, 6, 6, 6, 13, 14, 6, 6, 6, 6, 6, 6, 6, 6, 6, 6, 6, 6, 6, 6,
     6, 6, 6, 6, 6, 6, 6, 6, 6, 6, 6, 6, 6, 6, 6, 6, 6, 6, 6, 6,
     6, 6, 6, 6, 6, 6, 6, 6, 6, 6, 6, 6, 6, 6, 6, 6, 6, 6, 6, 6,
     6, 6, 6, 6, 6, 6, 6, 6, 6, 6, 6, 6, 6, 6, 6, 6, 6, 6, 6, 6,
     6, 6, 6, 6, 6, 6, 6, 6, 6, 6, 6, 6, 6, 6, 6, 6, 6, 6, 6, 6,
     6, 6, 6, 6, 6, 6, 6, 6, 6, 6, 6, 6, 6, 6, 6, 6, 6, 6, 6, 6,
     6, 6, 6, 6, 6, 6, 15, 16, 6, 6, 6, 6, 6, 6, 6, 6, 6, 6, 6, 6,
     6, 6, 6, 6, 6, 6, 6, 6, 6, 6, 6, 6, 6, 6, 6, 6, 6, 6, 6, 6,
     6, 6, 6, 6, 6, 6, 6, 6, 6, 6, 6, 6, 6, 6, 6, 6, 6, 6, 6, 6,
     6, 6, 6, 6, 6, 6, 6, 6, 6, 6, 6, 6, 6, 6, 6, 6, 6, 6, 6, 6,
     6, 6, 6, 6, 6, 6, 6, 6, 6, 6, 6, 6, 6, 6, 6, 17, 6, 6, 6, 6,
     18]"

definition stage2_block_0 :: "int list" where
  "stage2_block_0 =
    [0, 0, 0, 0, 0, 0, 0, 0, 0, 0, 0, 0, 0, 0, 0, 0,
     0, 0, 0, 0, 0, 0, 0, 0, 0, 0, 0, 0, 0, 0, 0, 0,
     0, 0, 0, 0, 0, 0, 0, 0, 0, 0, 0, 0, 0, 0, 0, 0,
     0, 0, 0, 0, 0, 0, 0, 0, 0, 0, 0, 0, 0, 0, 0, 0,
     0, 130, 130, 130, 130, 130, 130, 130, 130, 130, 130, 130, 130, 130, 130, 130,
     130, 130, 130, 130, 130, 130, 130, 130, 130, 130, 130, 0, 0, 0, 0, 0,
     0, -127, -127, -127, -127, -127, -127, -127, -127, -127, -127, -127, -127, -127, -127, -127,
     -127, -127, -127, -127, -127, -127, -127, -127, -127, -127, -127, 0, 0, 0, 0, 0,
     0, 0, 0, 0, 0, 0, 0, 0, 0, 0, 0, 0, 0, 0, 0, 0,
     0, 0, 0, 0, 0, 0, 0, 0, 0, 0, 0, 0, 0, 0, 0, 0,
     0, 0, 0, 0, 0, 0, 0, 0, 0, 0, 0, 0, 0, 0, 0, 0,
     0, 0, 0, 0, 0, 2973, 0, 0, 0, 0, 0, 0, 0, 0, 0, 0,
     130, 130, 130, 130, 130, 130, 130, 130, 130, 130, 130, 130, 130, 130, 130, 130,
     130, 130, 130, 130, 130, 130, 130, 0, 130, 130, 130, 130, 130, 130, 130, 0,
     -127, -127, -127, -127, -127, -127, -127, -127, -127, -127, -127, -127, -127, -127, -127, -127,
     -127, -127, -127, -127, -127, -127, -127, 0, -127, -127, -127, -127, -127, -127, -127, 485]"

definition stage2_block_1 :: "int list" where
  "stage2_block_1 =
    [6, -3, 6, -3, 6, -3, 6, -3, 6, -3, 6, -3, 6, -3, 6, -3,
     6, -3, 6, -3, 6, -3, 6, -3, 6, -3, 6, -3, 6, -3, 6, -3,
     6, -3, 6, -3, 6, -3, 6, -3, 6, -3, 6, -3, 6, -3, 6, -3,
     -794, -927, 6, -3, 6, -3, 6, -3, 0, 6, -3, 6, -3, 6, -3, 6,
     -3, 6, -3, 6, -3, 6, -3, 6, -3, 0, 6, -3, 6, -3, 6, -3,
     6, -3, 6, -3, 6, -3, 6, -3, 6, -3, 6, -3, 6, -3, 6, -3,
     6, -3, 6, -3, 6, -3, 6, -3, 6, -3, 6, -3, 6, -3, 6, -3,
     6, -3, 6, -3, 6, -3, 6, -3, -482, 6, -3, 6, -3, 6, -3, -1199,
     781, 842, 6, -3, 6, -3, 826, 6, -3, 822, 822, 6, -3, 0, 318, 810,
     814, 6, -3, 822, 830, 389, 846, 838, 6, -3, 653, 0, 846, 854, 521, 858,
     6, -3, 6, -3, 6, -3, 874, 6, -3, 874, 0, 0, 6, -3, 874, 6,
     -3, 870, 870, 6, -3, 6, -3, 878, 6, -3, 0, 0, 6, -3, 0, 225,
     0, 0, 0, 0, 10, 3, -7, 10, 7, -7, 10, 11, -7, 6, -3, 6,
     -3, 6, -3, 6, -3, 6, -3, 6, -3, 6, -3, 6, -3, -315, 6, -3,
     6, -3, 6, -3, 6, -3, 6, -3, 6, -3, 6, -3, 6, -3, 6, -3,
     0, 10, 15, -7, 6, -3, -386, -222, 6, -3, 6, -3, 6, -3, 6, -3]"

definition stage2_block_2 :: "int list" where
  "stage2_block_2 =
    [6, -3, 6, -3, 6, -3, 6, -3, 6, -3, 6, -3, 6, -3, 6, -3,
     6, -3, 6, -3, 6, -3, 6, -3, 6, -3, 6, -3, 6, -3, 6, -3,
     -518, 0, 6, -3, 6, -3, 6, -3, 6, -3, 6, -3, 6, -3, 6, -3,
     6, -3, 6, -3, 0, 0, 0, 0, 0, 0, 19, 6, -3, -650, 23, 0,
     0, 6, -3, -778, 278, 286, 6, -3, 6, -3, 6, -3, 6, -3, 6, -3,
     27, 31, 0, -839, -823, 0, -819, -819, 0, -807, 0, -811, 0, 0, 0, 0,
     -819, 0, 0, -827, 0, 0, 0, 0, -835, -843, 0, 35, 0, 0, 0, -843,
     0, 39, -851, 0, 0, -855, 0, 0, 0, 0, 0, 0, 0, 43, 0, 0,
     -871, 0, 0, -871, 0, 0, 0, 0, -871, -275, -867, -867, -283, 0, 0, 0,
     0, 0, -875, 0, 0, 0, 0, 0, 0, 0, 0, 0, 0, 0, 0, 0,
     0, 0, 0, 0, 0, 0, 0, 0, 0, 0, 0, 0, 0, 0, 0, 0,
     0, 0, 0, 0, 0, 0, 0, 0, 0, 0, 0, 0, 0, 0, 0, 0,
     0, 0, 0, 0, 0, 0, 0, 0, 0, 0, 0, 0, 0, 0, 0, 0,
     0, 0, 0, 0, 0, 0, 0, 0, 0, 0, 0, 0, 0, 0, 0, 0,
     0, 0, 0, 0, 0, 0, 0, 0, 0, 0, 0, 0, 0, 0, 0, 0,
     0, 0, 0, 0, 0, 0, 0, 0, 0, 0, 0, 0, 0, 0, 0, 0]"

definition stage2_block_3 :: "int list" where
  "stage2_block_3 =
    [0, 0, 0, 0, 0, 0, 0, 0, 0, 0, 0, 0, 0, 0, 0, 0,
     0, 0, 0, 0, 0, 0, 0, 0, 0, 0, 0, 0, 0, 0, 0, 0,
     0, 0, 0, 0, 0, 0, 0, 0, 0, 0, 0, 0, 0, 0, 0, 0,
     0, 0, 0, 0, 0, 0, 0, 0, 0, 0, 0, 0, 0, 0, 0, 0,
     0, 0, 0, 0, 0, 337, 0, 0, 0, 0, 0, 0, 0, 0, 0, 0,
     0, 0, 0, 0, 0, 0, 0, 0, 0, 0, 0, 0, 0, 0, 0, 0,
     0, 0, 0, 0, 0, 0, 0, 0, 0, 0, 0, 0, 0, 0, 0, 0,
     6, -3, 6, -3, 0, 0, 6, -3, 0, 0, 0, 521, 521, 521, 0, 0,
     0, 0, 0, 0, 0, 0, 154, 0, 150, 150, 150, 0, 258, 0, 254, 254,
     0, 130, 130, 130, 130, 130, 130, 130, 130, 130, 130, 130, 130, 130, 130, 130,
     130, 130, 0, 130, 130, 130, 130, 130, 130, 130, 130, 130, -151, -147, -147, -147,
     0, -127, -127, -127, -127, -127, -127, -127, -127, -127, -127, -127, -127, -127, -127, -127,
     -127, -127, -123, -127, -127, -127, -127, -127, -127, -127, -127, -127, -255, -251, -251, 34,
     -247, -227, 0, 0, 0, -187, -215, -31, 6, -3, 6, -3, 6, -3, 6, -3,
     6, -3, 6, -3, 6, -3, 6, -3, 6, -3, 6, -3, 6, -3, 6, -3,
     -343, -319, 29, 0, -238, -383, 0, 6, -3, -26, 6, -3, 0, -518, -518, -518]"

definition stage2_block_4 :: "int list" where
  "stage2_block_4 =
    [322, 322, 322, 322, 322, 322, 322, 322, 322, 322, 322, 322, 322, 322, 322, 322,
     130, 130, 130, 130, 130, 130, 130, 130, 130, 130, 130, 130, 130, 130, 130, 130,
     130, 130, 130, 130, 130, 130, 130, 130, 130, 130, 130, 130, 130, 130, 130, 130,
     -127, -127, -127, -127, -127, -127, -127, -127, -127, -127, -127, -127, -127, -127, -127, -127,
     -127, -127, -127, -127, -127, -127, -127, -127, -127, -127, -127, -127, -127, -127, -127, -127,
     -319, -319, -319, -319, -319, -319, -319, -319, -319, -319, -319, -319, -319, -319, -319, -319,
     6, -3, 6, -3, 6, -3, 6, -3, 6, -3, 6, -3, 6, -3, 6, -3,
     6, -3, 6, -3, 6, -3, 6, -3, 6, -3, 6, -3, 6, -3, 6, -3,
     6, -3, 0, 0, 0, 0, 0, 0, 0, 0, 6, -3, 6, -3, 6, -3,
     6, -3, 6, -3, 6, -3, 6, -3, 6, -3, 6, -3, 6, -3, 6, -3,
     6, -3, 6, -3, 6, -3, 6, -3, 6, -3, 6, -3, 6, -3, 6, -3,
     6, -3, 6, -3, 6, -3, 6, -3, 6, -3, 6, -3, 6, -3, 6, -3,
     62, 6, -3, 6, -3, 6, -3, 6, -3, 6, -3, 6, -3, 6, -3, -59,
     6, -3, 6, -3, 6, -3, 6, -3, 6, -3, 6, -3, 6, -3, 6, -3,
     6, -3, 6, -3, 6, -3, 6, -3, 6, -3, 6, -3, 6, -3, 6, -3,
     6, -3, 6, -3, 6, -3, 6, -3, 6, -3, 6, -3, 6, -3, 6, -3]"

definition stage2_block_5 :: "int list" where
  "stage2_block_5 =
    [6, -3, 6, -3, 6, -3, 6, -3, 6, -3, 6, -3, 6, -3, 6, -3,
     6, -3, 6, -3, 6, -3, 6, -3, 6, -3, 6, -3, 6, -3, 6, -3,
     6, -3, 6, -3, 0, 0, 0, 0, 0, 0, 0, 0, 0, 0, 0, 0,
     0, 194, 194, 194, 194, 194, 194, 194, 194, 194, 194, 194, 194, 194, 194, 194,
     194, 194, 194, 194, 194, 194, 194, 194, 194, 194, 194, 194, 194, 194, 194, 194,
     194, 194, 194, 194, 194, 194, 194, 0, 0, 0, 0, 0, 0, 0, 0, 0,
     0, -191, -191, -191, -191, -191, -191, -191, -191, -191, -191, -191, -191, -191, -191, -191,
     -191, -191, -191, -191, -191, -191, -191, -191, -191, -191, -191, -191, -191, -191, -191, -191,
     -191, -191, -191, -191, -191, -191, -191, 0, 0, 0, 0, 0, 0, 0, 0, 0,
     0, 0, 0, 0, 0, 0, 0, 0, 0, 0, 0, 0, 0, 0, 0, 0,
     0, 0, 0, 0, 0, 0, 0, 0, 0, 0, 0, 0, 0, 0, 0, 0,
     0, 0, 0, 0, 0, 0, 0, 0, 0, 0, 0, 0, 0, 0, 0, 0,
     0, 0, 0, 0, 0, 0, 0, 0, 0, 0, 0, 0, 0, 0, 0, 0,
     0, 0, 0, 0, 0, 0, 0, 0, 0, 0, 0, 0, 0, 0, 0, 0,
     0, 0, 0, 0, 0, 0, 0, 0, 0, 0, 0, 0, 0, 0, 0, 0,
     0, 0, 0, 0, 0, 0, 0, 0, 0, 0, 0, 0, 0, 0, 0, 0]"

definition stage2_block_6 :: "int list" where
  "stage2_block_6 =
    [0, 0, 0, 0, 0, 0, 0, 0, 0, 0, 0, 0, 0, 0, 0, 0,
     0, 0, 0, 0, 0, 0, 0, 0, 0, 0, 0, 0, 0, 0, 0, 0,
     0, 0, 0, 0, 0, 0, 0, 0, 0, 0, 0, 0, 0, 0, 0, 0,
     0, 0, 0, 0, 0, 0, 0, 0, 0, 0, 0, 0, 0, 0, 0, 0,
     0, 0, 0, 0, 0, 0, 0, 0, 0, 0, 0, 0, 0, 0, 0, 0,
     0, 0, 0, 0, 0, 0, 0, 0, 0, 0, 0, 0, 0, 0, 0, 0,
     0, 0, 0, 0, 0, 0, 0, 0, 0, 0, 0, 0, 0, 0, 0, 0,
     0, 0, 0, 0, 0, 0, 0, 0, 0, 0, 0, 0, 0, 0, 0, 0,
     0, 0, 0, 0, 0, 0, 0, 0, 0, 0, 0, 0, 0, 0, 0, 0,
     0, 0, 0, 0, 0, 0, 0, 0, 0, 0, 0, 0, 0, 0, 0, 0,
     0, 0, 0, 0, 0, 0, 0, 0, 0, 0, 0, 0, 0, 0, 0, 0,
     0, 0, 0, 0, 0, 0, 0, 0, 0, 0, 0, 0, 0, 0, 0, 0,
     0, 0, 0, 0, 0, 0, 0, 0, 0, 0, 0, 0, 0, 0, 0, 0,
     0, 0, 0, 0, 0, 0, 0, 0, 0, 0, 0, 0, 0, 0, 0, 0,
     0, 0, 0, 0, 0, 0, 0, 0, 0, 0, 0, 0, 0, 0, 0, 0,
     0, 0, 0, 0, 0, 0, 0, 0, 0, 0, 0, 0, 0, 0, 0, 0]"

definition stage2_block_7 :: "int list" where
  "stage2_block_7 =
    [0, 0, 0, 0, 0, 0, 0, 0, 0, 0, 0, 0, 0, 0, 0, 0,
     0, 0, 0, 0, 0, 0, 0, 0, 0, 0, 0, 0, 0, 0, 0, 0,
     0, 0, 0, 0, 0, 0, 0, 0, 0, 0, 0, 0, 0, 0, 0, 0,
     0, 0, 0, 0, 0, 0, 0, 0, 0, 0, 0, 0, 0, 0, 0, 0,
     0, 0, 0, 0, 0, 0, 0, 0, 0, 0, 0, 0, 0, 0, 0, 0,
     0, 0, 0, 0, 0, 0, 0, 0, 0, 0, 0, 0, 0, 0, 0, 0,
     0, 0, 0, 0, 0, 0, 0, 0, 0, 0, 0, 0, 0, 0, 0, 0,
     0, 0, 0, 0, 0, 0, 0, 0, 0, 0, 0, 0, 0, 0, 0, 0,
     0, 0, 0, 0, 0, 0, 0, 0, 0, 0, 0, 0, 0, 0, 0, 0,
     0, 0, 0, 0, 0, 0, 0, 0, 0, 0, 0, 0, 0, 0, 0, 0,
     29058, 29058, 29058, 29058, 29058, 29058, 29058, 29058, 29058, 29058, 29058, 29058, 29058, 29058, 29058, 29058,
     29058, 29058, 29058, 29058, 29058, 29058, 29058, 29058, 29058, 29058, 29058, 29058, 29058, 29058, 29058, 29058,
     29058, 29058, 29058, 29058, 29058, 29058, 0, 0, 0, 0, 0, 0, 0, 0, 0, 0,
     0, 0, 0, 0, 0, 0, 0, 0, 0, 0, 0, 0, 0, 0, 0, 0,
     0, 0, 0, 0, 0, 0, 0, 0, 0, 0, 0, 0, 0, 0, 0, 0,
     0, 0, 0, 0, 0, 0, 0, 0, 0, 0, 0, 0, 0, 0, 0, 0]"

definition stage2_block_8 :: "int list" where
  "stage2_block_8 =
    [0, 0, 0, 0, 0, 0, 0, 0, 0, 0, 0, 0, 0, 0, 0, 0,
     0, 0, 0, 0, 0, 0, 0, 0, 0, 0, 0, 0, 0, 0, 0, 0,
     0, 0, 0, 0, 0, 0, 0, 0, 0, 0, 0, 0, 0, 0, 0, 0,
     0, 0, 0, 0, 0, 0, 0, 0, 0, 0, 0, 0, 0, 0, 0, 0,
     0, 0, 0, 0, 0, 0, 0, 0, 0, 0, 0, 0, 0, 0, 0, 0,
     0, 0, 0, 0, 0, 0, 0, 0, 0, 0, 0, 0, 0, 0, 0, 0,
     0, 0, 0, 0, 0, 0, 0, 0, 0, 0, 0, 0, 0, 0, 0, 0,
     0, 0, 0, 0, 0, 0, 0, 0, 0, 47, 0, 0, 0, 15257, 0, 0,
     0, 0, 0, 0, 0, 0, 0, 0, 0, 0, 0, 0, 0, 0, 0, 0,
     0, 0, 0, 0, 0, 0, 0, 0, 0, 0, 0, 0, 0, 0, 0, 0,
     0, 0, 0, 0, 0, 0, 0, 0, 0, 0, 0, 0, 0, 0, 0, 0,
     0, 0, 0, 0, 0, 0, 0, 0, 0, 0, 0, 0, 0, 0, 0, 0,
     0, 0, 0, 0, 0, 0, 0, 0, 0, 0, 0, 0, 0, 0, 0, 0,
     0, 0, 0, 0, 0, 0, 0, 0, 0, 0, 0, 0, 0, 0, 0, 0,
     0, 0, 0, 0, 0, 0, 0, 0, 0, 0, 0, 0, 0, 0, 0, 0,
     0, 0, 0, 0, 0, 0, 0, 0, 0, 0, 0, 0, 0, 0, 0, 0]"

definition stage2_block_9 :: "int list" where
  "stage2_block_9 =
    [6, -3, 6, -3, 6, -3, 6, -3, 6, -3, 6, -3, 6, -3, 6, -3,
     6, -3, 6, -3, 6, -3, 6, -3, 6, -3, 6, -3, 6, -3, 6, -3,
     6, -3, 6, -3, 6, -3, 6, -3, 6, -3, 6, -3, 6, -3, 6, -3,
     6, -3, 6, -3, 6, -3, 6, -3, 6, -3, 6, -3, 6, -3, 6, -3,
     6, -3, 6, -3, 6, -3, 6, -3, 6, -3, 6, -3, 6, -3, 6, -3,
     6, -3, 6, -3, 6, -3, 6, -3, 6, -3, 6, -3, 6, -3, 6, -3,
     6, -3, 6, -3, 6, -3, 6, -3, 6, -3, 6, -3, 6, -3, 6, -3,
     6, -3, 6, -3, 6, -3, 6, -3, 6, -3, 6, -3, 6, -3, 6, -3,
     6, -3, 6, -3, 6, -3, 6, -3, 6, -3, 6, -3, 6, -3, 6, -3,
     6, -3, 6, -3, 6, -3, 0, 0, 0, 0, 0, -235, 0, 0, -30458, 0,
     6, -3, 6, -3, 6, -3, 6, -3, 6, -3, 6, -3, 6, -3, 6, -3,
     6, -3, 6, -3, 6, -3, 6, -3, 6, -3, 6, -3, 6, -3, 6, -3,
     6, -3, 6, -3, 6, -3, 6, -3, 6, -3, 6, -3, 6, -3, 6, -3,
     6, -3, 6, -3, 6, -3, 6, -3, 6, -3, 6, -3, 6, -3, 6, -3,
     6, -3, 6, -3, 6, -3, 6, -3, 6, -3, 6, -3, 6, -3, 6, -3,
     6, -3, 6, -3, 6, -3, 6, -3, 6, -3, 6, -3, 6, -3, 6, -3]"

definition stage2_block_10 :: "int list" where
  "stage2_block_10 =
    [33, 33, 33, 33, 33, 33, 33, 33, -30, -30, -30, -30, -30, -30, -30, -30,
     33, 33, 33, 33, 33, 33, 0, 0, -30, -30, -30, -30, -30, -30, 0, 0,
     33, 33, 33, 33, 33, 33, 33, 33, -30, -30, -30, -30, -30, -30, -30, -30,
     33, 33, 33, 33, 33, 33, 33, 33, -30, -30, -30, -30, -30, -30, -30, -30,
     33, 33, 33, 33, 33, 33, 0, 0, -30, -30, -30, -30, -30, -30, 0, 0,
     0, 33, 0, 33, 0, 33, 0, 33, 0, -30, 0, -30, 0, -30, 0, -30,
     33, 33, 33, 33, 33, 33, 33, 33, -30, -30, -30, -30, -30, -30, -30, -30,
     297, 297, 345, 345, 345, 345, 401, 401, 513, 513, 449, 449, 505, 505, 0, 0,
     33, 33, 33, 33, 33, 33, 33, 33, -30, -30, -30, -30, -30, -30, -30, -30,
     33, 33, 33, 33, 33, 33, 33, 33, -30, -30, -30, -30, -30, -30, -30, -30,
     33, 33, 33, 33, 33, 33, 33, 33, -30, -30, -30, -30, -30, -30, -30, -30,
     33, 33, 0, 37, 0, 0, 0, 0, -30, -30, -294, -294, -34, 0, -28819, 0,
     0, 0, 0, 37, 0, 0, 0, 0, -342, -342, -342, -342, -34, 0, 0, 0,
     33, 33, 0, 0, 0, 0, 0, 0, -30, -30, -398, -398, 0, 0, 0, 0,
     33, 33, 0, 0, 0, 29, 0, 0, -30, -30, -446, -446, -26, 0, 0, 0,
     0, 0, 0, 37, 0, 0, 0, 0, -510, -510, -502, -502, -34, 0, 0, 0]"

definition stage2_block_11 :: "int list" where
  "stage2_block_11 =
    [0, 0, 0, 0, 0, 0, 0, 0, 0, 0, 0, 0, 0, 0, 0, 0,
     0, 0, 0, 0, 0, 0, 0, 0, 0, 0, 0, 0, 0, 0, 0, 0,
     0, 0, 0, 0, 0, 0, -30066, 0, 0, 0, 51, 55, 0, 0, 0, 0,
     0, 0, 114, 0, 0, 0, 0, 0, 0, 0, 0, 0, 0, 0, 0, 0,
     0, 0, 0, 0, 0, 0, 0, 0, 0, 0, 0, 0, 0, 0, -111, 0,
     0, 0, 0, 0, 0, 0, 0, 0, 0, 0, 0, 0, 0, 0, 0, 0,
     66, 66, 66, 66, 66, 66, 66, 66, 66, 66, 66, 66, 66, 66, 66, 66,
     -63, -63, -63, -63, -63, -63, -63, -63, -63, -63, -63, -63, -63, -63, -63, -63,
     0, 0, 0, 6, -3, 0, 0, 0, 0, 0, 0, 0, 0, 0, 0, 0,
     0, 0, 0, 0, 0, 0, 0, 0, 0, 0, 0, 0, 0, 0, 0, 0,
     0, 0, 0, 0, 0, 0, 0, 0, 0, 0, 0, 0, 0, 0, 0, 0,
     0, 0, 0, 0, 0, 0, 0, 0, 0, 0, 0, 0, 0, 0, 0, 0,
     0, 0, 0, 0, 0, 0, 0, 0, 0, 0, 0, 0, 0, 0, 0, 0,
     0, 0, 0, 0, 0, 0, 0, 0, 0, 0, 0, 0, 0, 0, 0, 0,
     0, 0, 0, 0, 0, 0, 0, 0, 0, 0, 0, 0, 0, 0, 0, 0,
     0, 0, 0, 0, 0, 0, 0, 0, 0, 0, 0, 0, 0, 0, 0, 0]"

definition stage2_block_12 :: "int list" where
  "stage2_block_12 =
    [0, 0, 0, 0, 0, 0, 0, 0, 0, 0, 0, 0, 0, 0, 0, 0,
     0, 0, 0, 0, 0, 0, 0, 0, 0, 0, 0, 0, 0, 0, 0, 0,
     0, 0, 0, 0, 0, 0, 0, 0, 0, 0, 0, 0, 0, 0, 0, 0,
     0, 0, 0, 0, 0, 0, 0, 0, 0, 0, 0, 0, 0, 0, 0, 0,
     0, 0, 0, 0, 0, 0, 0, 0, 0, 0, 0, 0, 0, 0, 0, 0,
     0, 0, 0, 0, 0, 0, 0, 0, 0, 0, 0, 0, 0, 0, 0, 0,
     0, 0, 0, 0, 0, 0, 0, 0, 0, 0, 0, 0, 0, 0, 0, 0,
     0, 0, 0, 0, 0, 0, 0, 0, 0, 0, 0, 0, 0, 0, 0, 0,
     0, 0, 0, 0, 0, 0, 0, 0, 0, 0, 0, 0, 0, 0, 0, 0,
     0, 0, 0, 0, 0, 0, 0, 0, 0, 0, 0, 0, 0, 0, 0, 0,
     0, 0, 0, 0, 0, 0, 0, 0, 0, 0, 0, 0, 0, 0, 0, 0,
     0, 0, 0, 0, 0, 0, 106, 106, 106, 106, 106, 106, 106, 106, 106, 106,
     106, 106, 106, 106, 106, 106, 106, 106, 106, 106, 106, 106, 106, 106, 106, 106,
     -103, -103, -103, -103, -103, -103, -103, -103, -103, -103, -103, -103, -103, -103, -103, -103,
     -103, -103, -103, -103, -103, -103, -103, -103, -103, -103, 0, 0, 0, 0, 0, 0,
     0, 0, 0, 0, 0, 0, 0, 0, 0, 0, 0, 0, 0, 0, 0, 0]"

definition stage2_block_13 :: "int list" where
  "stage2_block_13 =
    [194, 194, 194, 194, 194, 194, 194, 194, 194, 194, 194, 194, 194, 194, 194, 194,
     194, 194, 194, 194, 194, 194, 194, 194, 194, 194, 194, 194, 194, 194, 194, 194,
     194, 194, 194, 194, 194, 194, 194, 194, 194, 194, 194, 194, 194, 194, 194, 0,
     -191, -191, -191, -191, -191, -191, -191, -191, -191, -191, -191, -191, -191, -191, -191, -191,
     -191, -191, -191, -191, -191, -191, -191, -191, -191, -191, -191, -191, -191, -191, -191, -191,
     -191, -191, -191, -191, -191, -191, -191, -191, -191, -191, -191, -191, -191, -191, -191, 0,
     6, -3, 59, -15254, 63, 67, 71, 6, -3, 6, -3, 6, -3, 75, 79, 83,
     0, 0, 6, -3, 0, 6, -3, 0, 0, 0, 0, 0, 0, 0, 0, 0,
     6, -3, 6, -3, 6, -3, 6, -3, 6, -3, 6, -3, 6, -3, 6, -3,
     6, -3, 6, -3, 6, -3, 6, -3, 6, -3, 6, -3, 6, -3, 6, -3,
     6, -3, 6, -3, 6, -3, 6, -3, 6, -3, 6, -3, 6, -3, 6, -3,
     6, -3, 6, -3, 6, -3, 6, -3, 6, -3, 6, -3, 6, -3, 6, -3,
     6, -3, 6, -3, 6, -3, 6, -3, 6, -3, 6, -3, 6, -3, 6, -3,
     6, -3, 6, -3, 6, -3, 6, -3, 6, -3, 6, -3, 6, -3, 6, -3,
     6, -3, 6, -3, 0, 0, 0, 0, 0, 0, 0, 0, 0, 0, 0, 0,
     0, 0, 0, 0, 0, 0, 0, 0, 0, 0, 0, 0, 0, 0, 0, 0]"

definition stage2_block_14 :: "int list" where
  "stage2_block_14 =
    [-29055, -29055, -29055, -29055, -29055, -29055, -29055, -29055, -29055, -29055, -29055, -29055, -29055, -29055, -29055, -29055,
     -29055, -29055, -29055, -29055, -29055, -29055, -29055, -29055, -29055, -29055, -29055, -29055, -29055, -29055, -29055, -29055,
     -29055, -29055, -29055, -29055, -29055, -29055, 0, 0, 0, 0, 0, 0, 0, 0, 0, 0,
     0, 0, 0, 0, 0, 0, 0, 0, 0, 0, 0, 0, 0, 0, 0, 0,
     0, 0, 0, 0, 0, 0, 0, 0, 0, 0, 0, 0, 0, 0, 0, 0,
     0, 0, 0, 0, 0, 0, 0, 0, 0, 0, 0, 0, 0, 0, 0, 0,
     0, 0, 0, 0, 0, 0, 0, 0, 0, 0, 0, 0, 0, 0, 0, 0,
     0, 0, 0, 0, 0, 0, 0, 0, 0, 0, 0, 0, 0, 0, 0, 0,
     0, 0, 0, 0, 0, 0, 0, 0, 0, 0, 0, 0, 0, 0, 0, 0,
     0, 0, 0, 0, 0, 0, 0, 0, 0, 0, 0, 0, 0, 0, 0, 0,
     0, 0, 0, 0, 0, 0, 0, 0, 0, 0, 0, 0, 0, 0, 0, 0,
     0, 0, 0, 0, 0, 0, 0, 0, 0, 0, 0, 0, 0, 0, 0, 0,
     0, 0, 0, 0, 0, 0, 0, 0, 0, 0, 0, 0, 0, 0, 0, 0,
     0, 0, 0, 0, 0, 0, 0, 0, 0, 0, 0, 0, 0, 0, 0, 0,
     0, 0, 0, 0, 0, 0, 0, 0, 0, 0, 0, 0, 0, 0, 0, 0,
     0, 0, 0, 0, 0, 0, 0, 0, 0, 0, 0, 0, 0, 0, 0, 0]"

definition stage2_block_15 :: "int list" where
  "stage2_block_15 =
    [0, 0, 0, 0, 0, 0, 0, 0, 0, 0, 0, 0, 0, 0, 0, 0,
     0, 0, 0, 0, 0, 0, 0, 0, 0, 0, 0, 0, 0, 0, 0, 0,
     0, 0, 0, 0, 0, 0, 0, 0, 0, 0, 0, 0, 0, 0, 0, 0,
     0, 0, 0, 0, 0, 0, 0, 0, 0, 0, 0, 0, 0, 0, 0, 0,
     6, -3, 6, -3, 6, -3, 6, -3, 6, -3, 6, -3, 6, -3, 6, -3,
     6, -3, 6, -3, 6, -3, 6, -3, 6, -3, 6, -3, 6, -3, 6, -3,
     0, 0, 6, -3, 6, -3, 6, -3, 6, -3, 6, -3, 6, -3, 0, 0,
     0, 0, 0, 0, 0, 0, 0, 0, 0, 0, 0, 0, 0, 0, 0, 0,
     6, -3, 6, -3, 6, -3, 6, -3, 6, -3, 6, -3, 6, -3, 6, -3,
     6, -3, 6, -3, 6, -3, 6, -3, 0, 0, 0, 0, 0, 0, 0, 0,
     0, 0, 0, 0, 0, 0, 0, 0, 0, 0, 0, 0, 0, 0, 0, 0,
     0, 0, 0, 0, 0, 0, 0, 0, 0, 0, 0, 0, 0, 0, 0, 0,
     0, 0, 0, 0, 0, 0, 0, 0, 0, 0, 0, 0, 0, 0, 0, 0,
     0, 0, 0, 0, 0, 0, 0, 0, 0, 0, 0, 0, 0, 0, 0, 0,
     0, 0, 0, 0, 0, 0, 0, 0, 0, 0, 0, 0, 0, 0, 0, 0,
     0, 0, 0, 0, 0, 0, 0, 0, 0, 0, 0, 0, 0, 0, 0, 0]"

definition stage2_block_16 :: "int list" where
  "stage2_block_16 =
    [0, 0, 0, 0, 0, 0, 0, 0, 0, 0, 0, 0, 0, 0, 0, 0,
     0, 0, 0, 0, 0, 0, 0, 0, 0, 0, 0, 0, 0, 0, 0, 0,
     0, 0, 6, -3, 6, -3, 6, -3, 6, -3, 6, -3, 6, -3, 6, -3,
     0, 0, 6, -3, 6, -3, 6, -3, 6, -3, 6, -3, 6, -3, 6, -3,
     6, -3, 6, -3, 6, -3, 6, -3, 6, -3, 6, -3, 6, -3, 6, -3,
     6, -3, 6, -3, 6, -3, 6, -3, 6, -3, 6, -3, 6, -3, 6, -3,
     6, -3, 6, -3, 6, -3, 6, -3, 6, -3, 6, -3, 6, -3, 6, -3,
     0, 0, 0, 0, 0, 0, 0, 0, 0, 6, -3, 6, -3, 87, 6, -3,
     6, -3, 6, -3, 6, -3, 6, -3, 0, 0, 0, 6, -3, 0, 0, 0,
     0, 0, 0, 0, 0, 0, 0, 0, 0, 0, 0, 0, 0, 0, 0, 0,
     0, 0, 0, 0, 0, 0, 0, 0, 0, 0, 0, 0, 0, 0, 0, 0,
     0, 0, 0, 0, 0, 0, 0, 0, 0, 0, 0, 0, 0, 0, 0, 0,
     0, 0, 0, 0, 0, 0, 0, 0, 0, 0, 0, 0, 0, 0, 0, 0,
     0, 0, 0, 0, 0, 0, 0, 0, 0, 0, 0, 0, 0, 0, 0, 0,
     0, 0, 0, 0, 0, 0, 0, 0, 0, 0, 0, 0, 0, 0, 0, 0,
     0, 0, 0, 0, 0, 0, 0, 0, 0, 0, 0, 0, 0, 0, 0, 0]"

definition stage2_block_17 :: "int list" where
  "stage2_block_17 =
    [0, 0, 0, 0, 0, 0, 0, 0, 0, 0, 0, 0, 0, 0, 0, 0,
     0, 0, 0, 0, 0, 0, 0, 0, 0, 0, 0, 0, 0, 0, 0, 0,
     0, 130, 130, 130, 130, 130, 130, 130, 130, 130, 130, 130, 130, 130, 130, 130,
     130, 130, 130, 130, 130, 130, 130, 130, 130, 130, 130, 0, 0, 0, 0, 0,
     0, -127, -127, -127, -127, -127, -127, -127, -127, -127, -127, -127, -127, -127, -127, -127,
     -127, -127, -127, -127, -127, -127, -127, -127, -127, -127, -127, 0, 0, 0, 0, 0,
     0, 0, 0, 0, 0, 0, 0, 0, 0, 0, 0, 0, 0, 0, 0, 0,
     0, 0, 0, 0, 0, 0, 0, 0, 0, 0, 0, 0, 0, 0, 0, 0,
     0, 0, 0, 0, 0, 0, 0, 0, 0, 0, 0, 0, 0, 0, 0, 0,
     0, 0, 0, 0, 0, 0, 0, 0, 0, 0, 0, 0, 0, 0, 0, 0,
     0, 0, 0, 0, 0, 0, 0, 0, 0, 0, 0, 0, 0, 0, 0, 0,
     0, 0, 0, 0, 0, 0, 0, 0, 0, 0, 0, 0, 0, 0, 0, 0,
     0, 0, 0, 0, 0, 0, 0, 0, 0, 0, 0, 0, 0, 0, 0, 0,
     0, 0, 0, 0, 0, 0, 0, 0, 0, 0, 0, 0, 0, 0, 0, 0,
     0, 0, 0, 0, 0, 0, 0, 0, 0, 0, 0, 0, 0, 0, 0, 0,
     0, 0, 0, 0, 0, 0, 0, 0, 0, 0, 0, 0, 0, 0, 0, 0]"

definition stage2_block_18 :: "int list" where
  "stage2_block_18 =
    [162, 162, 162, 162, 162, 162, 162, 162, 162, 162, 162, 162, 162, 162, 162, 162,
     162, 162, 162, 162, 162, 162, 162, 162, 162, 162, 162, 162, 162, 162, 162, 162,
     162, 162, 162, 162, 162, 162, 162, 162, -159, -159, -159, -159, -159, -159, -159, -159,
     -159, -159, -159, -159, -159, -159, -159, -159, -159, -159, -159, -159, -159, -159, -159, -159,
     -159, -159, -159, -159, -159, -159, -159, -159, -159, -159, -159, -159, -159, -159, -159, -159,
     0, 0, 0, 0, 0, 0, 0, 0, 0, 0, 0, 0, 0, 0, 0, 0,
     0, 0, 0, 0, 0, 0, 0, 0, 0, 0, 0, 0, 0, 0, 0, 0,
     0, 0, 0, 0, 0, 0, 0, 0, 0, 0, 0, 0, 0, 0, 0, 0,
     0, 0, 0, 0, 0, 0, 0, 0, 0, 0, 0, 0, 0, 0, 0, 0,
     0, 0, 0, 0, 0, 0, 0, 0, 0, 0, 0, 0, 0, 0, 0, 0,
     0, 0, 0, 0, 0, 0, 0, 0, 0, 0, 0, 0, 0, 0, 0, 0,
     0, 0, 0, 0, 0, 0, 0, 0, 0, 0, 0, 0, 0, 0, 0, 0,
     0, 0, 0, 0, 0, 0, 0, 0, 0, 0, 0, 0, 0, 0, 0, 0,
     0, 0, 0, 0, 0, 0, 0, 0, 0, 0, 0, 0, 0, 0, 0, 0,
     0, 0, 0, 0, 0, 0, 0, 0, 0, 0, 0, 0, 0, 0, 0, 0,
     0, 0, 0, 0, 0, 0, 0, 0, 0, 0, 0, 0, 0, 0, 0, 0]"

definition stage2_m :: "int list" where
  "stage2_m = concat
    [stage2_block_0, stage2_block_1, stage2_block_2, stage2_block_3, stage2_block_4,
     stage2_block_5, stage2_block_6, stage2_block_7, stage2_block_8, stage2_block_9,
     stage2_block_10, stage2_block_11, stage2_block_12, stage2_block_13, stage2_block_14,
     stage2_block_15, stage2_block_16, stage2_block_17, stage2_block_18]"

definition stage2_exception_m :: "int list list" where
  "stage2_exception_m =
    [[-1, 1], [-1, 1], [-1, 1], [-1, 1], [0, 10795], [0, 10792],
     [10783, 0], [10780, 0], [10743, 0], [10749, 0], [10727, 0], [35332, 0],
     [0, -8383], [0, -8262], [0, -10743], [0, -10727], [-10795, 0], [-10792, 0],
     [0, -10780], [0, -10749], [0, -10783], [0, -35332]]"

section \<open>The lookup\<close>

definition read_at :: "'a list \<Rightarrow> int \<Rightarrow> 'a option" where
  "read_at xs i = (if 0 \<le> i \<and> i < int (length xs) then Some (xs ! nat i) else None)"

definition kUppercase :: int where
  "kUppercase = 1"

definition kLowercase :: int where
  "kLowercase = 2"

definition kException :: int where
  "kException = 3"

definition kStage1Size :: int where
  "kStage1Size = 261"

text \<open>The low two bits of an entry are its type, the others a difference or the index of an exception: \<open>info & 3\<close> is
  \<open>info mod 4\<close>, the arithmetic shift by 2 is \<open>info div 4\<close>.\<close>

definition Convert :: "int \<Rightarrow> int \<Rightarrow> int option" where
  "Convert ch mapping =
     (if 0 \<le> ch \<and> ch \<le> 0xFF then
        case read_at stage2_m ch of
          None \<Rightarrow> None
        | Some info \<Rightarrow> Some (if info mod 4 = mapping then ch + info div 4 else ch)
      else if ch \<le> kStage1Size * 256 then
        case read_at stage1_m (ch div 256) of
          None \<Rightarrow> None
        | Some block \<Rightarrow>
            (case read_at stage2_m (block * 256 + ch mod 256) of
               None \<Rightarrow> None
             | Some info \<Rightarrow>
                 if info mod 4 = mapping then Some (ch + info div 4)
                 else if info mod 4 = kException then
                   (case read_at stage2_exception_m (info div 4) of
                      None \<Rightarrow> None
                    | Some row \<Rightarrow> map_option (\<lambda>delta. ch + delta) (read_at row (mapping - 1)))
                 else Some ch)
      else Some ch)"

definition ToUpper :: "int \<Rightarrow> int option" where
  "ToUpper code_point = Convert code_point kUppercase"

definition ToLower :: "int \<Rightarrow> int option" where
  "ToLower code_point = Convert code_point kLowercase"

section \<open>Bounds of the tables\<close>

lemmas stage2_blocks = stage2_block_0_def stage2_block_1_def stage2_block_2_def stage2_block_3_def stage2_block_4_def
  stage2_block_5_def stage2_block_6_def stage2_block_7_def stage2_block_8_def stage2_block_9_def stage2_block_10_def
  stage2_block_11_def stage2_block_12_def stage2_block_13_def stage2_block_14_def stage2_block_15_def stage2_block_16_def
  stage2_block_17_def stage2_block_18_def

lemma stage1_size: "length stage1_m = 261" "list_all (\<lambda>b. 0 \<le> b \<and> b < 19) stage1_m"
  by (simp_all add: stage1_m_def)

definition exception_ok :: "int list \<Rightarrow> bool" where
  "exception_ok = list_all (\<lambda>info. info mod 4 = 3 \<longrightarrow> 0 \<le> info div 4 \<and> info div 4 < 22)"

lemma stage2_size: "length stage2_m = 4864"
  by (simp add: stage2_m_def stage2_blocks)

lemma stage2_exceptions: "exception_ok stage2_m"
  by (simp add: exception_ok_def stage2_m_def stage2_blocks)

lemma entry_Some: "0 \<le> i \<Longrightarrow> i < int (length xs) \<Longrightarrow> read_at xs i = Some (xs ! nat i)"
  by (simp add: read_at_def)

lemma list_all_entry: "list_all P xs \<Longrightarrow> read_at xs i = Some x \<Longrightarrow> P x"
  by (auto simp: read_at_def list_all_length split: if_splits)

lemma stage2_exception_rows: "length stage2_exception_m = 22" "list_all (\<lambda>row. length row = 2) stage2_exception_m"
  by (simp_all add: stage2_exception_m_def)

lemma stage2_lookup:
  assumes "0 \<le> i" "i < 4864" "mapping = kUppercase \<or> mapping = kLowercase"
  obtains info where "read_at stage2_m i = Some info"
    "info mod 4 = kException \<longrightarrow> (\<exists>delta. (case read_at stage2_exception_m (info div 4) of None \<Rightarrow> None
       | Some row \<Rightarrow> map_option (\<lambda>delta. ch + delta) (read_at row (mapping - 1))) = Some (ch + delta))"
proof -
  have e: "read_at stage2_m i = Some (stage2_m ! nat i)" using assms(1,2) by (simp add: entry_Some stage2_size)
  have "\<exists>delta. (case read_at stage2_exception_m (info div 4) of None \<Rightarrow> None
       | Some row \<Rightarrow> map_option (\<lambda>delta. ch + delta) (read_at row (mapping - 1))) = Some (ch + delta)"
    if "info = stage2_m ! nat i" "info mod 4 = kException" for info
  proof -
    have "0 \<le> info div 4 \<and> info div 4 < 22"
      using list_all_entry [OF stage2_exceptions [unfolded exception_ok_def] e] that by (simp add: kException_def)
    then have r: "read_at stage2_exception_m (info div 4) = Some (stage2_exception_m ! nat (info div 4))"
      by (simp add: entry_Some stage2_exception_rows)
    have "length (stage2_exception_m ! nat (info div 4)) = 2" by (rule list_all_entry [OF stage2_exception_rows(2) r])
    then show ?thesis unfolding r using assms(3) by (auto simp: read_at_def kUppercase_def kLowercase_def)
  qed
  from that [OF e impI [OF this [OF refl]]] show ?thesis .
qed

text \<open>One code point is looked up outside of the first table.\<close>

lemma Convert_U_10500: "Convert 0x10500 mapping = None"
  by (simp add: Convert_def kStage1Size_def read_at_def stage1_size)

lemma Convert_defined:
  assumes "0 \<le> ch" "ch \<noteq> 0x10500" "mapping = kUppercase \<or> mapping = kLowercase"
  shows "Convert ch mapping \<noteq> None"
proof -
  consider "ch \<le> 0xFF" | "0xFF < ch" "ch < 0x10500" | "0x10500 < ch" using assms(2) by linarith
  then show ?thesis
  proof cases
    case 1
    then show ?thesis using assms(1) by (simp add: Convert_def read_at_def stage2_size)
  next
    case 2
    have d: "0 \<le> ch div 256" "ch div 256 < 261" using 2 by auto
    obtain b where b: "read_at stage1_m (ch div 256) = Some b" using d by (simp add: entry_Some stage1_size)
    have "0 \<le> b" "b < 19" using list_all_entry [OF stage1_size(2) b] by simp_all
    then have i: "0 \<le> b * 256 + ch mod 256" "b * 256 + ch mod 256 < 4864"
      using pos_mod_bound [of 256 ch] pos_mod_sign [of 256 ch] by linarith+
    obtain info where "read_at stage2_m (b * 256 + ch mod 256) = Some info"
      "info mod 4 = kException \<longrightarrow> (\<exists>delta. (case read_at stage2_exception_m (info div 4) of None \<Rightarrow> None
         | Some row \<Rightarrow> map_option (\<lambda>delta. ch + delta) (read_at row (mapping - 1))) = Some (ch + delta))"
      using i assms(3) by (rule stage2_lookup [where ch = ch])
    then show ?thesis using 2 b by (auto simp: Convert_def kStage1Size_def)
  next
    case 3
    then show ?thesis by (simp add: Convert_def kStage1Size_def)
  qed
qed

text \<open>The letters of ASCII.\<close>

definition ascii_info :: "nat \<Rightarrow> int" where
  "ascii_info n = (if 97 \<le> n \<and> n \<le> 122 then - 127 else if 65 \<le> n \<and> n \<le> 90 then 130 else 0)"

lemma stage2_ascii: "take 128 stage2_m = map ascii_info [0..<128]"
proof -
  have "take 128 stage2_m = take 128 stage2_block_0" by (simp add: stage2_m_def stage2_block_0_def)
  moreover have "take 128 stage2_block_0 = map ascii_info [0..<128]" by code_simp
  ultimately show ?thesis by simp
qed

lemma Convert_ASCII:
  assumes "0 \<le> ch" "ch < 128"
  shows "ToUpper ch = Some (if 97 \<le> ch \<and> ch \<le> 122 then ch - 32 else ch)"
    "ToLower ch = Some (if 65 \<le> ch \<and> ch \<le> 90 then ch + 32 else ch)"
proof -
  have "nat ch < 128" using assms by simp
  then have "stage2_m ! nat ch = ascii_info (nat ch)"
    using arg_cong [OF stage2_ascii, of "\<lambda>xs. xs ! nat ch"] by simp
  then have "read_at stage2_m ch = Some (ascii_info (nat ch))"
    using assms by (simp add: read_at_def stage2_size)
  then show "ToUpper ch = Some (if 97 \<le> ch \<and> ch \<le> 122 then ch - 32 else ch)"
    "ToLower ch = Some (if 65 \<le> ch \<and> ch \<le> 90 then ch + 32 else ch)"
    using assms by (auto simp: ToUpper_def ToLower_def Convert_def ascii_info_def kUppercase_def kLowercase_def)
qed

end
