(* ===== verification/DataStream.thy ===== *)
theory DataStream
  imports PlatformUtils "HOL-Library.Sublist"
begin

text \<open>
  The byte streams of \<^verbatim>\<open>runtime/vm/datastream.h\<close> and \<^verbatim>\<open>runtime/vm/datastream.cc\<close>, with which snapshots are written and read:
  the variable length encodings of signed and unsigned numbers, LEB128 and SLEB128, the encoding of
  object references, and the buffers behind the writers.

  A reader is the buffer with an index, \<open>None\<close> is a read behind its end. A writer calls the virtual function
  \<open>WriteByte\<close>, which is an argument here; \<open>None\<close> is the out of memory exception. The template parameter of an operation
  is the length of a word type. Shift counts are natural numbers here and \<open>uint8_t\<close> in the code; they differ only where the count
  exceeds the width of the type, which does not happen for what the writers write.
\<close>

section \<open>Constants\<close>

definition kDataBitsPerByte :: nat where
  "kDataBitsPerByte = 7"

definition kMaxUnsignedDataPerByte :: "'a::len word" where
  "kMaxUnsignedDataPerByte = 127"

definition kMinDataPerByte :: int where
  "kMinDataPerByte = - 64"

definition kMaxDataPerByte :: int where
  "kMaxDataPerByte = 63"

definition kEndByteMarker :: u8 where
  "kEndByteMarker = 192"

definition kEndUnsignedByteMarker :: u8 where
  "kEndUnsignedByteMarker = 128"

section \<open>Reading\<close>

record ReadStream =
  read_buffer_m :: "u8 list"
  read_current_m :: nat

definition ReadStream_new :: "u8 list \<Rightarrow> ReadStream" where
  "ReadStream_new buffer = \<lparr>read_buffer_m = buffer, read_current_m = 0\<rparr>"

definition ReadPosition :: "ReadStream \<Rightarrow> nat" where
  "ReadPosition st = read_current_m st"

definition SetReadPosition :: "nat \<Rightarrow> ReadStream \<Rightarrow> ReadStream" where
  "SetReadPosition value st = st\<lparr>read_current_m := value\<rparr>"

definition Advance :: "nat \<Rightarrow> ReadStream \<Rightarrow> ReadStream" where
  "Advance value st = st\<lparr>read_current_m := read_current_m st + value\<rparr>"

definition PendingBytes :: "ReadStream \<Rightarrow> nat" where
  "PendingBytes st = length (read_buffer_m st) - read_current_m st"

text \<open>Rounding up. The source asserts that the alignment is a power of two and the offset less than it, under which
  clearing the low bits is the division below.\<close>

definition StreamRoundUp :: "nat \<Rightarrow> nat \<Rightarrow> nat \<Rightarrow> nat" where
  "StreamRoundUp x alignment offset = (x + alignment - 1 + offset) div alignment * alignment - offset"

definition ReadAlign :: "nat \<Rightarrow> nat \<Rightarrow> ReadStream \<Rightarrow> ReadStream" where
  "ReadAlign alignment offset st =
     (let position_before = ReadPosition st;
          position_after = StreamRoundUp position_before alignment offset
      in Advance (position_after - position_before) st)"

definition ReadByte :: "ReadStream \<Rightarrow> (u8 \<times> ReadStream) option" where
  "ReadByte st =
     (if read_current_m st < length (read_buffer_m st)
      then Some (read_buffer_m st ! read_current_m st, st\<lparr>read_current_m := read_current_m st + 1\<rparr>)
      else None)"

definition ReadBytes :: "nat \<Rightarrow> ReadStream \<Rightarrow> (u8 list \<times> ReadStream) option" where
  "ReadBytes len st =
     (if len \<le> PendingBytes st
      then Some (take len (drop (read_current_m st) (read_buffer_m st)), Advance len st)
      else None)"

lemma ReadByte_progress: "ReadByte st = Some (b, st') \<Longrightarrow> PendingBytes st' < PendingBytes st"
  by (auto simp: ReadByte_def PendingBytes_def split: if_splits)

text \<open>The loop of \<open>Read<T>\<close>: \<open>b\<close> is the byte that has been read last.\<close>

function Read_loop :: "u8 \<Rightarrow> 'a::len word \<Rightarrow> nat \<Rightarrow> 'a word \<Rightarrow> ReadStream \<Rightarrow> ('a word \<times> ReadStream) option" where
  "Read_loop end_byte_marker r s b st =
     (let r = r OR push_bit s b;
          s = s + kDataBitsPerByte
      in case ReadByte st of
           None \<Rightarrow> None
         | Some (byte, st) \<Rightarrow>
             let b = ucast byte
             in if b \<le> kMaxUnsignedDataPerByte then Read_loop end_byte_marker r s b st
                else Some (r OR push_bit s (b - ucast end_byte_marker), st))"
  by pat_completeness auto
termination
  by (relation "measure (\<lambda>(_, _, _, _, st). PendingBytes st)") (auto dest: ReadByte_progress)
declare Read_loop.simps [simp del]

definition Read :: "u8 \<Rightarrow> ReadStream \<Rightarrow> ('a::len word \<times> ReadStream) option" where
  "Read end_byte_marker st =
     (case ReadByte st of
        None \<Rightarrow> None
      | Some (byte, st) \<Rightarrow>
          let b = ucast byte
          in if b > kMaxUnsignedDataPerByte then Some (b - ucast end_byte_marker, st)
             else Read_loop end_byte_marker 0 0 b st)"

definition ReadUnsigned :: "ReadStream \<Rightarrow> ('a::len word \<times> ReadStream) option" where
  "ReadUnsigned st = Read kEndUnsignedByteMarker st"

text \<open>The unrolled readers. The macros become functions of what follows them.\<close>

definition UNROLLED_INIT ::
  "u8 \<Rightarrow> ('a::len word \<Rightarrow> ReadStream \<Rightarrow> ('a word \<times> ReadStream) option) \<Rightarrow> ReadStream \<Rightarrow> ('a word \<times> ReadStream) option" where
  "UNROLLED_INIT end_byte_marker continue st =
     (case ReadByte st of
        None \<Rightarrow> None
      | Some (byte, st) \<Rightarrow>
          let b = ucast byte
          in if b > kMaxUnsignedDataPerByte then Some (b - ucast end_byte_marker, st) else continue b st)"

definition UNROLLED_BODY ::
  "u8 \<Rightarrow> nat \<Rightarrow> ('a::len word \<Rightarrow> ReadStream \<Rightarrow> ('a word \<times> ReadStream) option) \<Rightarrow>
   'a word \<Rightarrow> ReadStream \<Rightarrow> ('a word \<times> ReadStream) option" where
  "UNROLLED_BODY end_byte_marker bit_start continue r st =
     (case ReadByte st of
        None \<Rightarrow> None
      | Some (byte, st) \<Rightarrow>
          let b = ucast byte
          in if b > kMaxUnsignedDataPerByte then Some (r OR push_bit bit_start (b - ucast end_byte_marker), st)
             else continue (r OR push_bit bit_start b) st)"

definition UNROLLED_END :: "u8 \<Rightarrow> nat \<Rightarrow> 'a::len word \<Rightarrow> ReadStream \<Rightarrow> ('a word \<times> ReadStream) option" where
  "UNROLLED_END end_byte_marker bit_start r st =
     (case ReadByte st of
        None \<Rightarrow> None
      | Some (byte, st) \<Rightarrow> Some (r OR push_bit bit_start (ucast byte - ucast end_byte_marker), st))"

definition ReadStream_Read16 :: "u8 \<Rightarrow> ReadStream \<Rightarrow> (u16 \<times> ReadStream) option" where
  "ReadStream_Read16 m = UNROLLED_INIT m (UNROLLED_BODY m 7 (UNROLLED_END m 14))"

definition ReadStream_Read32 :: "u8 \<Rightarrow> ReadStream \<Rightarrow> (u32 \<times> ReadStream) option" where
  "ReadStream_Read32 m = UNROLLED_INIT m (UNROLLED_BODY m 7 (UNROLLED_BODY m 14 (UNROLLED_BODY m 21 (UNROLLED_END m 28))))"

definition ReadStream_Read64 :: "u8 \<Rightarrow> ReadStream \<Rightarrow> (u64 \<times> ReadStream) option" where
  "ReadStream_Read64 m =
     UNROLLED_INIT m (UNROLLED_BODY m 7 (UNROLLED_BODY m 14 (UNROLLED_BODY m 21 (UNROLLED_BODY m 28 (UNROLLED_BODY m 35
       (UNROLLED_BODY m 42 (UNROLLED_BODY m 49 (UNROLLED_BODY m 56 (UNROLLED_END m 63)))))))))"

definition ReadWordWith32BitReads :: "ReadStream \<Rightarrow> (u64 \<times> ReadStream) option" where
  "ReadWordWith32BitReads st =
     (case ReadStream_Read32 kEndByteMarker st of
        None \<Rightarrow> None
      | Some (p0, st) \<Rightarrow>
          (case ReadStream_Read32 kEndByteMarker st of
             None \<Rightarrow> None
           | Some (p1, st) \<Rightarrow> Some (push_bit 0 (ucast p0) OR push_bit 32 (ucast p1), st)))"

text \<open>Up to four bytes, the first one that is negative as a signed number ends the reference.\<close>

fun ReadRefId_stages :: "nat \<Rightarrow> intx \<Rightarrow> ReadStream \<Rightarrow> (intx \<times> ReadStream) option" where
  "ReadRefId_stages 0 result st = Some (result, st)"
| "ReadRefId_stages (Suc n) result st =
     (case ReadByte st of
        None \<Rightarrow> None
      | Some (b, st) \<Rightarrow>
          let byte = scast b;
              result = byte + push_bit 7 result
          in if sint byte < 0 then Some (result, st) else ReadRefId_stages n result st)"

definition ReadRefId :: "ReadStream \<Rightarrow> (intx \<times> ReadStream) option" where
  "ReadRefId st = map_option (\<lambda>(result, st). (result + 128, st)) (ReadRefId_stages 4 0 st)"

function ReadLEB128_loop :: "'a::len word \<Rightarrow> nat \<Rightarrow> ReadStream \<Rightarrow> (('a word \<times> nat \<times> u8) \<times> ReadStream) option" where
  "ReadLEB128_loop r s st =
     (case ReadByte st of
        None \<Rightarrow> None
      | Some (b, st) \<Rightarrow>
          let r = r OR push_bit s (ucast (b AND 127));
              s = s + kDataBitsPerByte
          in if b AND 128 \<noteq> 0 then ReadLEB128_loop r s st else Some ((r, s, b), st))"
  by pat_completeness auto
termination
  by (relation "measure (\<lambda>(_, _, st). PendingBytes st)") (auto dest: ReadByte_progress)
declare ReadLEB128_loop.simps [simp del]

definition ReadLEB128 :: "ReadStream \<Rightarrow> ('a::len word \<times> ReadStream) option" where
  "ReadLEB128 st = map_option (\<lambda>((r, s, b), st). (r, st)) (ReadLEB128_loop 0 0 st)"

definition ReadSLEB128 :: "ReadStream \<Rightarrow> ('a::len word \<times> ReadStream) option" where
  "ReadSLEB128 st =
     (case ReadLEB128_loop (0 :: 'a word) 0 st of
        None \<Rightarrow> None
      | Some ((r, s, b), st) \<Rightarrow>
          let sign_bits = (if b AND 64 \<noteq> 0 \<and> s < LENGTH('a) then NOT (push_bit s 1 - 1) else 0)
          in Some (r OR sign_bits, st))"

section \<open>Writing\<close>

text \<open>The operations on top of the virtual function \<open>WriteByte\<close>.\<close>

type_synonym 's writer = "u8 \<Rightarrow> 's \<Rightarrow> 's option"

function WriteLEB128 :: "'s writer \<Rightarrow> 'a::len word \<Rightarrow> 's \<Rightarrow> 's option" where
  "WriteLEB128 WriteByte remainder st =
     (let part = ucast (remainder AND 127);
          remainder = drop_bit kDataBitsPerByte remainder;
          is_last_part = (remainder = 0);
          part = (if \<not> is_last_part then part OR 128 else part)
      in case WriteByte part st of
           None \<Rightarrow> None
         | Some st \<Rightarrow> if \<not> is_last_part then WriteLEB128 WriteByte remainder st else Some st)"
  by pat_completeness auto
termination
proof (relation "measure (\<lambda>(_, r, _). unat r)", goal_cases)
  case (2 WriteByte r st x xa xb xc xd)
  then have r: "drop_bit 7 r \<noteq> 0" by (simp add: kDataBitsPerByte_def)
  then have "r \<noteq> 0" by auto
  then have "unat r div 128 < unat r" by (simp add: unat_gt_0)
  moreover have "unat (drop_bit 7 r) \<le> unat r div 128"
    unfolding unsigned_drop_bit_eq by (simp add: drop_bit_eq_div div_le_mono)
  ultimately show ?case using 2 by (simp add: kDataBitsPerByte_def)
qed simp
declare WriteLEB128.simps [simp del]

definition WriteFixed5LEB128 :: "'s writer \<Rightarrow> intx \<Rightarrow> 's \<Rightarrow> 's option" where
  "WriteFixed5LEB128 WriteByte value st =
     (case WriteByte (ucast ((value AND 127) OR 128)) st of None \<Rightarrow> None | Some st \<Rightarrow>
     (let value = signed_drop_bit 7 value in case WriteByte (ucast ((value AND 127) OR 128)) st of None \<Rightarrow> None | Some st \<Rightarrow>
     (let value = signed_drop_bit 7 value in case WriteByte (ucast ((value AND 127) OR 128)) st of None \<Rightarrow> None | Some st \<Rightarrow>
     (let value = signed_drop_bit 7 value in case WriteByte (ucast ((value AND 127) OR 128)) st of None \<Rightarrow> None | Some st \<Rightarrow>
     (let value = signed_drop_bit 7 value in WriteByte (ucast (value AND 127)) st)))))"

partial_function (option) WriteSLEB128_loop :: "'s writer \<Rightarrow> bool \<Rightarrow> 'a::len word \<Rightarrow> 's \<Rightarrow> 's option" where
  "WriteSLEB128_loop WriteByte is_negative remainder st =
     (let part = ucast (remainder AND 127) :: u8;
          remainder = signed_drop_bit 7 remainder;
          sign_extend = NOT (push_bit (LENGTH('a) - 7) 1 - 1);
          remainder = (if is_negative then remainder OR sign_extend else remainder);
          is_last_part =
            (if is_negative then remainder = NOT 0 \<and> part AND 64 \<noteq> 0 else remainder = 0 \<and> part AND 64 = 0);
          part = (if \<not> is_last_part then part OR 128 else part)
      in case WriteByte part st of
           None \<Rightarrow> None
         | Some st \<Rightarrow> if \<not> is_last_part then WriteSLEB128_loop WriteByte is_negative remainder st else Some st)"

definition WriteSLEB128 :: "'s writer \<Rightarrow> 'a::len word \<Rightarrow> 's \<Rightarrow> 's option" where
  "WriteSLEB128 WriteByte value st = WriteSLEB128_loop WriteByte (sint value < 0) value st"

lemma signed_shift_smaller:
  "sint (v :: 'a::len word) < kMinDataPerByte \<or> sint v > kMaxDataPerByte \<Longrightarrow> nat \<bar>sint (signed_drop_bit 7 v)\<bar> < nat \<bar>sint v\<bar>"
  unfolding sint_signed_drop_bit kMinDataPerByte_def kMaxDataPerByte_def by simp linarith

function Write :: "'s writer \<Rightarrow> 'a::len word \<Rightarrow> 's \<Rightarrow> 's option" where
  "Write WriteByte v st =
     (if sint v < kMinDataPerByte \<or> sint v > kMaxDataPerByte then
        case WriteByte (ucast (v AND 127)) st of
          None \<Rightarrow> None
        | Some st \<Rightarrow> Write WriteByte (signed_drop_bit kDataBitsPerByte v) st
      else WriteByte (ucast v + kEndByteMarker) st)"
  by pat_completeness auto
termination
  by (relation "measure (\<lambda>(_, v, _). nat \<bar>sint v\<bar>)")
    (use signed_shift_smaller in \<open>auto simp: kDataBitsPerByte_def\<close>)
declare Write.simps [simp del]

text \<open>For a signed \<open>T\<close>, such as the default \<open>intptr_t\<close>.\<close>

function WriteUnsigned :: "'s writer \<Rightarrow> 'a::len word \<Rightarrow> 's \<Rightarrow> 's option" where
  "WriteUnsigned WriteByte value st =
     (if sint value > 127 then
        case WriteByte (ucast (value AND 127)) st of
          None \<Rightarrow> None
        | Some st \<Rightarrow> WriteUnsigned WriteByte (signed_drop_bit kDataBitsPerByte value) st
      else WriteByte (ucast value + kEndUnsignedByteMarker) st)"
  by pat_completeness auto
termination
  by (relation "measure (\<lambda>(_, v, _). nat \<bar>sint v\<bar>)")
    (auto simp: kDataBitsPerByte_def sint_signed_drop_bit)
declare WriteUnsigned.simps [simp del]

definition WriteWordWith32BitWrites :: "'s writer \<Rightarrow> u64 \<Rightarrow> 's \<Rightarrow> 's option" where
  "WriteWordWith32BitWrites WriteByte value st =
     (let mask = - 1 :: u32
      in case Write WriteByte (ucast (drop_bit 0 value) AND mask) st of
           None \<Rightarrow> None
         | Some st \<Rightarrow> Write WriteByte (ucast (drop_bit 32 value) AND mask) st)"

section \<open>The buffers\<close>

text \<open>The capacity is the length of the buffer. A streaming writer hands its buffer to a callback from time to time;
  \<open>flushed_m\<close> is what the callback has received. \<open>alloc n\<close> says whether \<open>realloc\<close> to \<open>n\<close> bytes
  succeeds, and what the new bytes hold.\<close>

datatype StreamKind = MallocWriteStream | ZoneWriteStream | StreamingWriteStream

record WriteStream =
  kind_m :: StreamKind
  initial_size_m :: nat
  write_buffer_m :: "u8 list"
  write_current_m :: nat
  flushed_m :: "u8 list"

type_synonym allocator = "nat \<Rightarrow> u8 option"

definition WriteStream_new :: "StreamKind \<Rightarrow> nat \<Rightarrow> WriteStream" where
  "WriteStream_new kind initial_size =
     \<lparr>kind_m = kind, initial_size_m = RoundUpToPowerOfTwo initial_size, write_buffer_m = [], write_current_m = 0, flushed_m = []\<rparr>"

abbreviation capacity_m :: "WriteStream \<Rightarrow> nat" where
  "capacity_m st \<equiv> length (write_buffer_m st)"

definition WritePosition :: "WriteStream \<Rightarrow> nat" where
  "WritePosition st = length (flushed_m st) + write_current_m st"

definition Remaining :: "WriteStream \<Rightarrow> nat" where
  "Remaining st = capacity_m st - write_current_m st"

definition realloc :: "allocator \<Rightarrow> u8 list \<Rightarrow> nat \<Rightarrow> u8 list option" where
  "realloc alloc buffer new_size =
     map_option (\<lambda>junk. take new_size buffer @ replicate (new_size - length buffer) junk) (alloc new_size)"

definition Flush :: "WriteStream \<Rightarrow> WriteStream" where
  "Flush st = st\<lparr>flushed_m := flushed_m st @ take (write_current_m st) (write_buffer_m st), write_current_m := 0\<rparr>"

definition StreamingRealloc :: "allocator \<Rightarrow> nat \<Rightarrow> WriteStream \<Rightarrow> WriteStream option" where
  "StreamingRealloc alloc new_size st =
     (let st = Flush st
      in if new_size \<le> capacity_m st then Some st
         else
           let new_capacity = StreamRoundUp new_size (64 * 1024) 0
           in map_option (\<lambda>buffer. st\<lparr>write_buffer_m := buffer, write_current_m := 0\<rparr>)
                (realloc alloc (write_buffer_m st) new_capacity))"

definition Realloc :: "allocator \<Rightarrow> nat \<Rightarrow> WriteStream \<Rightarrow> WriteStream option" where
  "Realloc alloc new_size st =
     (case kind_m st of
        StreamingWriteStream \<Rightarrow> StreamingRealloc alloc new_size st
      | _ \<Rightarrow> map_option (\<lambda>buffer. st\<lparr>write_buffer_m := buffer\<rparr>) (realloc alloc (write_buffer_m st) new_size))"

definition EnsureSpace :: "allocator \<Rightarrow> nat \<Rightarrow> WriteStream \<Rightarrow> WriteStream option" where
  "EnsureSpace alloc size_needed st =
     (if Remaining st \<ge> size_needed then Some st
      else
        let increment_size = capacity_m st;
            increment_size =
              (if size_needed > increment_size then StreamRoundUp size_needed (initial_size_m st) 0 else increment_size);
            new_size = capacity_m st + increment_size
        in Realloc alloc new_size st)"

definition WriteByte :: "allocator \<Rightarrow> WriteStream writer" where
  "WriteByte alloc value st =
     map_option (\<lambda>st. st\<lparr>write_buffer_m := (write_buffer_m st)[write_current_m st := value], write_current_m := write_current_m st + 1\<rparr>)
       (EnsureSpace alloc 1 st)"

text \<open>\<open>memmove\<close> of \<open>bytes\<close> to the index \<open>i\<close>.\<close>

definition copy_to :: "u8 list \<Rightarrow> nat \<Rightarrow> u8 list \<Rightarrow> u8 list" where
  "copy_to buffer i bytes = take i buffer @ bytes @ drop (i + length bytes) buffer"

definition WriteBytes :: "allocator \<Rightarrow> u8 list \<Rightarrow> WriteStream \<Rightarrow> WriteStream option" where
  "WriteBytes alloc bytes st =
     (if bytes \<noteq> [] then
        map_option (\<lambda>st. st\<lparr>write_buffer_m := copy_to (write_buffer_m st) (write_current_m st) bytes,
            write_current_m := write_current_m st + length bytes\<rparr>)
          (EnsureSpace alloc (length bytes) st)
      else Some st)"

definition WriteWord :: "allocator \<Rightarrow> u64 \<Rightarrow> WriteStream \<Rightarrow> WriteStream option" where
  "WriteWord alloc value st = WriteBytes alloc (map (\<lambda>k. ucast (drop_bit (8 * k) value)) [0..<8]) st"

definition store_byte :: "intx \<Rightarrow> WriteStream \<Rightarrow> WriteStream" where
  "store_byte value st =
     st\<lparr>write_buffer_m := (write_buffer_m st)[write_current_m st := ucast value], write_current_m := write_current_m st + 1\<rparr>"

definition WriteRefId :: "allocator \<Rightarrow> intx \<Rightarrow> WriteStream \<Rightarrow> WriteStream option" where
  "WriteRefId alloc value st =
     (case EnsureSpace alloc 4 st of
        None \<Rightarrow> None
      | Some st \<Rightarrow>
          let st = (if signed_drop_bit 21 value \<noteq> 0 then store_byte (signed_drop_bit 21 value AND 127) st else st);
              st = (if signed_drop_bit 14 value \<noteq> 0 then store_byte (signed_drop_bit 14 value AND 127) st else st);
              st = (if signed_drop_bit 7 value \<noteq> 0 then store_byte (signed_drop_bit 7 value AND 127) st else st)
          in Some (store_byte ((signed_drop_bit 0 value AND 127) OR 128) st))"

definition BaseSetPosition :: "allocator \<Rightarrow> nat \<Rightarrow> WriteStream \<Rightarrow> WriteStream option" where
  "BaseSetPosition alloc value st =
     map_option (\<lambda>st. st\<lparr>write_current_m := value\<rparr>) (EnsureSpace alloc (value - write_current_m st) st)"

definition SetPosition :: "allocator \<Rightarrow> nat \<Rightarrow> WriteStream \<Rightarrow> WriteStream option" where
  "SetPosition alloc value st = BaseSetPosition alloc (value - length (flushed_m st)) st"

definition WriteAlign :: "allocator \<Rightarrow> nat \<Rightarrow> nat \<Rightarrow> u8 \<Rightarrow> WriteStream \<Rightarrow> (nat \<times> WriteStream) option" where
  "WriteAlign alloc alignment offset fill_byte st =
     (let position_before = WritePosition st;
          position_after = StreamRoundUp position_before alignment offset;
          len = position_after - position_before
      in if len \<noteq> 0 then
           case EnsureSpace alloc len st of
             None \<Rightarrow> None
           | Some st \<Rightarrow>
               let st = st\<lparr>write_buffer_m := copy_to (write_buffer_m st) (write_current_m st) (replicate len fill_byte)\<rparr>
               in map_option (\<lambda>st. (len, st)) (SetPosition alloc position_after st)
         else Some (len, st))"

definition Steal :: "WriteStream \<Rightarrow> u8 list \<times> nat \<times> WriteStream" where
  "Steal st = (write_buffer_m st, WritePosition st, st\<lparr>write_buffer_m := [], write_current_m := 0\<rparr>)"

section \<open>What is written and what is read\<close>

text \<open>The bytes that lie before a reader.\<close>

definition pending_bytes :: "ReadStream \<Rightarrow> u8 list" where
  "pending_bytes st = drop (read_current_m st) (read_buffer_m st)"

lemma ReadByte_pending:
  assumes "pending_bytes st = b # rest"
  shows "ReadByte st = Some (b, Advance 1 st)" "pending_bytes (Advance 1 st) = rest"
proof -
  have "read_current_m st < length (read_buffer_m st)" using assms by (cases "read_current_m st < length (read_buffer_m st)") (auto simp: pending_bytes_def)
  moreover from this have "read_buffer_m st ! read_current_m st # drop (Suc (read_current_m st)) (read_buffer_m st) = b # rest"
    using assms by (simp add: pending_bytes_def Cons_nth_drop_Suc)
  ultimately show "ReadByte st = Some (b, Advance 1 st)" "pending_bytes (Advance 1 st) = rest"
    by (simp_all add: ReadByte_def Advance_def pending_bytes_def)
qed

lemma Advance_Advance [simp]: "Advance m (Advance n st) = Advance (n + m) st" "Advance 0 st = st"
  by (simp_all add: Advance_def)

text \<open>Writing a list of bytes, one at a time.\<close>

fun WriteAll :: "'s writer \<Rightarrow> u8 list \<Rightarrow> 's \<Rightarrow> 's option" where
  "WriteAll W [] st = Some st"
| "WriteAll W (b # bs) st = (case W b st of None \<Rightarrow> None | Some st \<Rightarrow> WriteAll W bs st)"

lemma WriteAll_append: "WriteAll W (xs @ ys) st = (case WriteAll W xs st of None \<Rightarrow> None | Some st \<Rightarrow> WriteAll W ys st)"
  by (induction xs arbitrary: st) (auto split: option.splits)

lemma WriteAll_single [simp]: "WriteAll W [b] st = W b st"
  by (simp split: option.splits)

text \<open>The bytes of each encoding.\<close>

function leb128 :: "'a::len word \<Rightarrow> u8 list" where
  "leb128 v = (if drop_bit 7 v = 0 then [ucast (v AND 127)] else (ucast (v AND 127) OR 128) # leb128 (drop_bit 7 v))"
  by pat_completeness auto
termination
proof (relation "measure unat", goal_cases)
  case (2 r)
  then have "r \<noteq> 0" by auto
  then have "unat r div 128 < unat r" by (simp add: unat_gt_0)
  moreover have "unat (drop_bit 7 r) \<le> unat r div 128"
    unfolding unsigned_drop_bit_eq by (simp add: drop_bit_eq_div div_le_mono)
  ultimately show ?case by simp
qed simp
declare leb128.simps [simp del]

lemma WriteLEB128_eq: "WriteLEB128 W v st = WriteAll W (leb128 v) st"
proof (induction v arbitrary: st rule: leb128.induct)
  case (1 v)
  then show ?case
    by (subst WriteLEB128.simps, subst leb128.simps) (auto simp: Let_def kDataBitsPerByte_def split: option.splits)
qed

lemma bit_128: "bit (128 :: u8) n \<longleftrightarrow> n = 7"
proof -
  have "(128 :: u8) = push_bit 7 1" by simp
  then show ?thesis by (simp only: bit_push_bit_iff bit_1_iff) auto
qed

lemma seven_bits:
  fixes v :: "'a::len word"
  shows "ucast ((ucast (v AND 127) :: u8) AND 127) = take_bit 7 v"
    "ucast (((ucast (v AND 127) :: u8) OR 128) AND 127) = take_bit 7 v"
    "(ucast (v AND 127) :: u8) AND 128 = 0" "((ucast (v AND 127) :: u8) OR 128) AND 128 \<noteq> 0"
proof -
  show "ucast ((ucast (v AND 127) :: u8) AND 127) = take_bit 7 v"
    "ucast (((ucast (v AND 127) :: u8) OR 128) AND 127) = take_bit 7 v"
    unfolding and_numeral_take_bit by (rule bit_word_eqI, auto simp: bit_simps bit_128)+
  show "(ucast (v AND 127) :: u8) AND 128 = 0"
    unfolding and_numeral_take_bit by (rule bit_word_eqI) (unfold bit_and_iff bit_128, auto simp: bit_simps)
  have "bit (((ucast (v AND 127) :: u8) OR 128) AND 128) 7" by (simp add: bit_and_iff bit_or_iff bit_128)
  then show "((ucast (v AND 127) :: u8) OR 128) AND 128 \<noteq> 0" by auto
qed

lemma split_seven: "take_bit 7 v OR push_bit 7 (drop_bit 7 v) = (v :: 'a::len word)" (is "?l = v")
proof (rule bit_word_eqI)
  show "bit ?l n = bit v n" if "n < LENGTH('a)" for n using that by (cases "n < 7") (auto simp: bit_simps)
qed

lemma push_bit_split: "(r OR push_bit s (take_bit 7 v)) OR push_bit (s + 7) (drop_bit 7 v) = r OR push_bit s (v :: 'a::len word)"
proof -
  have "push_bit s v = push_bit s (take_bit 7 v OR push_bit 7 (drop_bit 7 v))" by (simp only: split_seven)
  also have "\<dots> = push_bit s (take_bit 7 v) OR push_bit (s + 7) (drop_bit 7 v)" by (simp add: push_bit_or add.commute)
  finally show ?thesis by (simp add: or.assoc)
qed

lemma split_seven_signed: "take_bit 7 v OR push_bit 7 (signed_drop_bit 7 v) = (v :: 'a::len word)" (is "?l = v")
proof (rule bit_word_eqI)
  show "bit ?l n = bit v n" if "n < LENGTH('a)" for n
    using that by (cases "n < 7") (auto simp: bit_simps max_def min_def)
qed

lemma push_bit_split_signed:
  "(r OR push_bit s (take_bit 7 v)) OR push_bit (s + 7) (signed_drop_bit 7 v) = r OR push_bit s (v :: 'a::len word)"
proof -
  have "push_bit s v = push_bit s (take_bit 7 v OR push_bit 7 (signed_drop_bit 7 v))" by (simp only: split_seven_signed)
  also have "\<dots> = push_bit s (take_bit 7 v) OR push_bit (s + 7) (signed_drop_bit 7 v)" by (simp add: push_bit_or add.commute)
  finally show ?thesis by (simp add: or.assoc)
qed

lemma ReadLEB128_more:
  fixes w :: "'a::len word" and r :: "'a word"
  assumes "pending_bytes st = (ucast (w AND 127) OR 128) # rest"
  shows "ReadLEB128_loop r s st = ReadLEB128_loop (r OR push_bit s (take_bit 7 w)) (s + 7) (Advance 1 st)"
  by (subst ReadLEB128_loop.simps) (simp add: ReadByte_pending [OF assms] Let_def seven_bits kDataBitsPerByte_def)

lemma ReadLEB128_last:
  fixes w :: "'a::len word" and r :: "'a word"
  assumes "pending_bytes st = ucast (w AND 127) # rest"
  shows "ReadLEB128_loop r s st = Some ((r OR push_bit s (take_bit 7 w), s + 7, ucast (w AND 127)), Advance 1 st)"
  by (subst ReadLEB128_loop.simps) (simp add: ReadByte_pending [OF assms] Let_def seven_bits kDataBitsPerByte_def)

lemma ReadLEB128_loop_eq:
  fixes v :: "'a::len word"
  assumes "pending_bytes st = leb128 v @ rest"
  shows "\<exists>s' b. ReadLEB128_loop r s st = Some ((r OR push_bit s v, s', b), Advance (length (leb128 v)) st)"
  using assms
proof (induction v arbitrary: r s st rule: leb128.induct)
  case (1 v)
  show ?case
  proof (cases "drop_bit 7 v = 0")
    case True
    have "take_bit 7 v = v" using split_seven [of v] True by simp
    moreover have l: "leb128 v = [ucast (v AND 127)]" using True by (subst leb128.simps) simp
    ultimately show ?thesis using ReadLEB128_last [of st v rest r s] 1(2) by simp
  next
    case False
    have l: "leb128 v = (ucast (v AND 127) OR 128) # leb128 (drop_bit 7 v)" using False by (subst leb128.simps) simp
    have p: "pending_bytes st = (ucast (v AND 127) OR 128) # leb128 (drop_bit 7 v) @ rest" using 1(2) by (simp add: l)
    have "\<exists>s' b. ReadLEB128_loop (r OR push_bit s (take_bit 7 v)) (s + 7) (Advance 1 st) =
        Some (((r OR push_bit s (take_bit 7 v)) OR push_bit (s + 7) (drop_bit 7 v), s', b), Advance (length (leb128 (drop_bit 7 v))) (Advance 1 st))"
      by (rule 1(1) [OF False ReadByte_pending(2) [OF p]])
    then show ?thesis unfolding push_bit_split ReadLEB128_more [OF p] by (simp add: l)
  qed
qed

lemma ReadLEB128_eq:
  "pending_bytes st = leb128 v @ rest \<Longrightarrow> ReadLEB128 st = Some (v, Advance (length (leb128 v)) st)"
  using ReadLEB128_loop_eq [of st v rest 0 0] by (auto simp: ReadLEB128_def)

text \<open>A fixed number of bytes: the high bytes may be zero.\<close>

definition fixed5_leb128 :: "intx \<Rightarrow> u8 list" where
  "fixed5_leb128 v =
     [ucast (v AND 127) OR 128, ucast (signed_drop_bit 7 v AND 127) OR 128, ucast (signed_drop_bit 14 v AND 127) OR 128,
      ucast (signed_drop_bit 21 v AND 127) OR 128, ucast (signed_drop_bit 28 v AND 127)]"

lemma ucast_or_128: "(ucast ((v :: intx) AND 127 OR 128) :: u8) = ucast (v AND 127) OR 128"
  by (rule bit_word_eqI) (auto simp: bit_simps)

lemma WriteFixed5LEB128_eq: "WriteFixed5LEB128 W v st = WriteAll W (fixed5_leb128 v) st"
  by (simp add: WriteFixed5LEB128_def fixed5_leb128_def Let_def ucast_or_128 split: option.splits)

lemma take_bit_top: "0 \<le> sint (v :: intx) \<Longrightarrow> sint v < 2 ^ 35 \<Longrightarrow> take_bit 7 (signed_drop_bit 28 v) = signed_drop_bit 28 v"
proof -
  assume v: "0 \<le> sint v" "sint v < 2 ^ 35"
  have s: "sint (signed_drop_bit 28 v) = sint v div 2 ^ 28" by (rule sint_signed_drop_bit)
  then have "0 \<le> sint (signed_drop_bit 28 v)" "sint (signed_drop_bit 28 v) < 2 ^ 7" using v by auto
  then have "IsUint 7 (signed_drop_bit 28 v)" by (simp add: IsUint_iff)
  then show ?thesis by (simp add: IsUint_take_bit)
qed

lemma ReadFixed5LEB128_eq:
  assumes "0 \<le> sint v" "sint v < 2 ^ 35" "pending_bytes st = fixed5_leb128 v @ rest"
  shows "ReadLEB128 st = Some (v, Advance 5 st)"
proof -
  note p = assms(3) [unfolded fixed5_leb128_def append_Cons]
  note p1 = ReadByte_pending(2) [OF p]
  note p2 = ReadByte_pending(2) [OF p1]
  note p3 = ReadByte_pending(2) [OF p2]
  note p4 = ReadByte_pending(2) [OF p3]
  have d: "signed_drop_bit 14 v = signed_drop_bit 7 (signed_drop_bit 7 v)"
    "signed_drop_bit 21 v = signed_drop_bit 7 (signed_drop_bit 7 (signed_drop_bit 7 v))"
    "signed_drop_bit 28 v = signed_drop_bit 7 (signed_drop_bit 7 (signed_drop_bit 7 (signed_drop_bit 7 v)))" by simp_all
  note t = take_bit_top [OF assms(1,2), unfolded d]
  have "ReadLEB128_loop 0 0 st =
      Some ((0 OR push_bit 0 v, 0 + 7 + 7 + 7 + 7 + 7, ucast (signed_drop_bit 28 v AND 127)), Advance 1 (Advance 1 (Advance 1 (Advance 1 (Advance 1 st)))))"
    unfolding ReadLEB128_more [OF p] ReadLEB128_more [OF p1] ReadLEB128_more [OF p2] ReadLEB128_more [OF p3] ReadLEB128_last [OF p4]
      d t push_bit_split_signed
    by (rule refl)
  then show ?thesis by (simp add: ReadLEB128_def Advance_def)
qed

section \<open>Numbers with an end marker\<close>

text \<open>The encodings of \<open>Write\<close> and \<open>WriteUnsigned\<close>: seven bits in every byte but the last one, which holds the rest and is
  above 127.\<close>

inductive marked :: "u8 \<Rightarrow> 'a::len word \<Rightarrow> u8 list \<Rightarrow> bool" for m where
  marked_last: "127 < unat b \<Longrightarrow> v = ucast b - ucast m \<Longrightarrow> marked m v [b]"
| marked_more: "unat b \<le> 127 \<Longrightarrow> ucast b = take_bit 7 v \<Longrightarrow> marked m (signed_drop_bit 7 v) bs \<Longrightarrow> marked m v (b # bs)"

inductive_cases marked_Nil: "marked m v []"

inductive_simps marked_Cons: "marked m v (b # bs)"

text \<open>The comparison with 127 in the width of the template parameter.\<close>

lemma byte_le_127:
  fixes b :: u8
  assumes "8 \<le> LENGTH('a::len)"
  shows "(ucast b :: 'a word) \<le> kMaxUnsignedDataPerByte \<longleftrightarrow> unat b \<le> 127"
    "kMaxUnsignedDataPerByte < (ucast b :: 'a word) \<longleftrightarrow> 127 < unat b"
proof -
  have "unat b < 2 ^ 8" using unsigned_less [of b] by simp
  also have "(2 :: nat) ^ 8 \<le> 2 ^ LENGTH('a)" using assms by (rule power_increasing) simp
  finally have u: "unat (ucast b :: 'a word) = unat b" by (simp add: unsigned_ucast_eq take_bit_nat_eq_self)
  have "(127 :: nat) < 2 ^ LENGTH('a)" using \<open>2 ^ 8 \<le> 2 ^ LENGTH('a)\<close> by simp
  then have "unat (kMaxUnsignedDataPerByte :: 'a word) = 127"
    by (simp add: kMaxUnsignedDataPerByte_def unsigned_numeral take_bit_nat_eq_self)
  then show "(ucast b :: 'a word) \<le> kMaxUnsignedDataPerByte \<longleftrightarrow> unat b \<le> 127"
    "kMaxUnsignedDataPerByte < (ucast b :: 'a word) \<longleftrightarrow> 127 < unat b"
    by (simp_all add: word_le_nat_alt word_less_nat_alt u)
qed

lemma Read_loop_marked:
  fixes v :: "'a::len word"
  assumes "marked m v bs" "8 \<le> LENGTH('a)" "pending_bytes st = bs @ rest"
  shows "Read_loop m r s b st = Some ((r OR push_bit s b) OR push_bit (s + 7) v, Advance (length bs) st)"
  using assms
proof (induction v bs arbitrary: r s b st rule: marked.induct)
  case (marked_last c v)
  then have "\<not> (ucast c :: 'a word) \<le> kMaxUnsignedDataPerByte" by (simp add: byte_le_127)
  then show ?case using marked_last ReadByte_pending(1) [of st c rest]
    by (subst Read_loop.simps) (simp add: Let_def kDataBitsPerByte_def)
next
  case (marked_more c v bs)
  then have p: "pending_bytes st = c # bs @ rest" by simp
  have c: "(ucast c :: 'a word) \<le> kMaxUnsignedDataPerByte" using marked_more.hyps(1) marked_more.prems(1) by (simp add: byte_le_127)
  have "Read_loop m (r OR push_bit s b) (s + 7) (ucast c) (Advance 1 st) =
      Some (((r OR push_bit s b) OR push_bit (s + 7) (ucast c)) OR push_bit (s + 7 + 7) (signed_drop_bit 7 v), Advance (length bs) (Advance 1 st))"
    using marked_more.prems(1) ReadByte_pending(2) [OF p] by (rule marked_more.IH)
  then have "Read_loop m (r OR push_bit s b) (s + 7) (ucast c) (Advance 1 st) =
      Some ((r OR push_bit s b) OR push_bit (s + 7) v, Advance (length (c # bs)) st)"
    unfolding marked_more.hyps(2) push_bit_split_signed by simp
  then show ?case
    using c by (subst Read_loop.simps) (simp add: ReadByte_pending [OF p] Let_def kDataBitsPerByte_def)
qed

lemma Read_marked:
  fixes v :: "'a::len word"
  assumes "marked m v bs" "8 \<le> LENGTH('a)" "pending_bytes st = bs @ rest"
  shows "Read m st = Some (v, Advance (length bs) st)"
proof (cases bs)
  case Nil
  then show ?thesis using assms(1) by (auto elim: marked_Nil)
next
  case (Cons b cs)
  then have p: "pending_bytes st = b # cs @ rest" using assms(3) by simp
  have k: "kMaxUnsignedDataPerByte < (ucast b :: 'a word) \<longleftrightarrow> 127 < unat b" using assms(2) by (rule byte_le_127)
  have m: "marked m v (b # cs)" using assms(1) Cons by simp
  then show ?thesis unfolding marked_Cons
  proof (elim disjE conjE)
    assume "cs = []" "127 < unat b" "v = ucast b - ucast m"
    then show ?thesis by (simp add: Read_def ReadByte_pending [OF p] Let_def k Cons)
  next
    assume b: "unat b \<le> 127" "ucast b = take_bit 7 v" "marked m (signed_drop_bit 7 v) cs"
    have "Read_loop m 0 0 (take_bit 7 v) (Advance 1 st) =
        Some ((0 OR push_bit 0 (take_bit 7 v)) OR push_bit (0 + 7) (signed_drop_bit 7 v), Advance (length cs) (Advance 1 st))"
      using b(3) assms(2) ReadByte_pending(2) [OF p] by (rule Read_loop_marked)
    then have "Read_loop m 0 0 (take_bit 7 v) (Advance 1 st) = Some (v, Advance (Suc (length cs)) st)"
      unfolding push_bit_split_signed by simp
    then show ?thesis using b(1) by (simp add: Read_def ReadByte_pending [OF p] Let_def k Cons flip: b(2))
  qed
qed

text \<open>The unrolled readers do the same as long as the number has no more bytes than they expect.\<close>

definition continues :: "u8 \<Rightarrow> nat \<Rightarrow> nat \<Rightarrow> ('a::len word \<Rightarrow> ReadStream \<Rightarrow> ('a word \<times> ReadStream) option) \<Rightarrow> bool" where
  "continues m n s k = (\<forall>v bs rest r st. marked m v bs \<longrightarrow> pending_bytes st = bs @ rest \<longrightarrow> length bs \<le> n \<longrightarrow>
     k r st = Some (r OR push_bit s v, Advance (length bs) st))"

lemma continues_END: "continues m 1 s (UNROLLED_END m s)"
  unfolding continues_def
proof (intro allI impI)
  fix v :: "'a::len word" and bs rest r st
  assume a: "marked m v bs" "pending_bytes st = bs @ rest" "length bs \<le> 1"
  then obtain b where "bs = [b]" by (cases bs) (auto elim: marked_Nil)
  then show "UNROLLED_END m s r st = Some (r OR push_bit s v, Advance (length bs) st)"
    using a ReadByte_pending(1) [of st b rest] by (auto simp: marked_Cons UNROLLED_END_def elim: marked_Nil)
qed

lemma continues_BODY:
  assumes "continues m n (s + 7) (k :: 'a::len word \<Rightarrow> _)" "8 \<le> LENGTH('a)"
  shows "continues m (Suc n) s (UNROLLED_BODY m s k)"
  unfolding continues_def
proof (intro allI impI)
  fix v :: "'a word" and bs rest r st
  assume a: "marked m v bs" "pending_bytes st = bs @ rest" "length bs \<le> Suc n"
  then obtain b cs where bs: "bs = b # cs" by (cases bs) (auto elim: marked_Nil)
  have p: "pending_bytes st = b # cs @ rest" using a(2) bs by simp
  have c: "kMaxUnsignedDataPerByte < (ucast b :: 'a word) \<longleftrightarrow> 127 < unat b" using assms(2) by (rule byte_le_127)
  from a(1) show "UNROLLED_BODY m s k r st = Some (r OR push_bit s v, Advance (length bs) st)"
    unfolding bs marked_Cons
  proof (elim disjE conjE)
    assume "cs = []" "127 < unat b" "v = ucast b - ucast m"
    then show "UNROLLED_BODY m s k r st = Some (r OR push_bit s v, Advance (length (b # cs)) st)"
      by (simp add: UNROLLED_BODY_def ReadByte_pending [OF p] Let_def c)
  next
    assume b: "unat b \<le> 127" "ucast b = take_bit 7 v" "marked m (signed_drop_bit 7 v) cs"
    have "k (r OR push_bit s (take_bit 7 v)) (Advance 1 st) =
        Some ((r OR push_bit s (take_bit 7 v)) OR push_bit (s + 7) (signed_drop_bit 7 v), Advance (length cs) (Advance 1 st))"
      using assms(1) b(3) ReadByte_pending(2) [OF p] a(3) bs unfolding continues_def by auto
    then have "k (r OR push_bit s (take_bit 7 v)) (Advance 1 st) = Some (r OR push_bit s v, Advance (length (b # cs)) st)"
      unfolding push_bit_split_signed by simp
    then show "UNROLLED_BODY m s k r st = Some (r OR push_bit s v, Advance (length (b # cs)) st)"
      using b(1) by (simp add: UNROLLED_BODY_def ReadByte_pending [OF p] Let_def c flip: b(2))
  qed
qed

function signed_bytes :: "'a::len word \<Rightarrow> u8 list" where
  "signed_bytes v =
     (if sint v < kMinDataPerByte \<or> sint v > kMaxDataPerByte then ucast (v AND 127) # signed_bytes (signed_drop_bit 7 v)
      else [ucast v + kEndByteMarker])"
  by pat_completeness auto
termination
  by (relation "measure (\<lambda>v. nat \<bar>sint v\<bar>)") (use signed_shift_smaller in auto)
declare signed_bytes.simps [simp del]

function unsigned_bytes :: "'a::len word \<Rightarrow> u8 list" where
  "unsigned_bytes v =
     (if sint v > 127 then ucast (v AND 127) # unsigned_bytes (signed_drop_bit 7 v)
      else [ucast v + kEndUnsignedByteMarker])"
  by pat_completeness auto
termination
  by (relation "measure (\<lambda>v. nat \<bar>sint v\<bar>)") (auto simp: sint_signed_drop_bit)
declare unsigned_bytes.simps [simp del]

lemma Write_eq: "Write W v st = WriteAll W (signed_bytes v) st"
proof (induction v arbitrary: st rule: signed_bytes.induct)
  case (1 v)
  then show ?case
    by (subst Write.simps, subst signed_bytes.simps) (auto simp: kDataBitsPerByte_def split: option.splits)
qed

lemma WriteUnsigned_eq: "WriteUnsigned W v st = WriteAll W (unsigned_bytes v) st"
proof (induction v arbitrary: st rule: unsigned_bytes.induct)
  case (1 v)
  then show ?case
    by (subst WriteUnsigned.simps, subst unsigned_bytes.simps) (auto simp: kDataBitsPerByte_def split: option.splits)
qed

lemma data_byte:
  fixes v :: "'a::len word"
  shows "unat (ucast (v AND 127) :: u8) \<le> 127" "(ucast (ucast (v AND 127) :: u8) :: 'a word) = take_bit 7 v"
proof -
  have e: "(ucast (v AND 127) :: u8) = take_bit 7 (ucast v)"
    unfolding and_numeral_take_bit by (rule bit_word_eqI) (auto simp: bit_simps)
  have "unat (take_bit 7 (ucast v :: u8)) < 2 ^ 7" unfolding unsigned_take_bit_eq by (rule take_bit_nat_less_exp)
  then show "unat (ucast (v AND 127) :: u8) \<le> 127" unfolding e by simp
  show "(ucast (ucast (v AND 127) :: u8) :: 'a word) = take_bit 7 v"
    unfolding and_numeral_take_bit by (rule bit_word_eqI) (auto simp: bit_simps)
qed

lemma ucast_sint: "8 \<le> LENGTH('a) \<Longrightarrow> (ucast (v :: 'a::len word) :: u8) = word_of_int (sint v)"
proof (rule bit_word_eqI)
  fix n
  assume l: "8 \<le> LENGTH('a)" and "n < LENGTH(8)"
  then have "n < LENGTH('a)" "n < 8" "min n (LENGTH('a) - 1) = n" by auto
  then show "bit (ucast v :: u8) n = bit (word_of_int (sint v) :: u8) n"
    by (auto simp: bit_simps)
qed

lemma end_byte:
  fixes v :: "'a::len word" and m :: int
  assumes "8 \<le> LENGTH('a)" "128 \<le> sint v + m" "sint v + m < 256" "0 \<le> m" "m < 256"
  shows "127 < unat (ucast v + word_of_int m :: u8)" "ucast (ucast v + word_of_int m :: u8) - ucast (word_of_int m :: u8) = v"
proof -
  have b: "ucast v + word_of_int m = (word_of_int (sint v + m) :: u8)" using assms(1) by (simp add: ucast_sint)
  have wu: "0 \<le> k \<Longrightarrow> k < 256 \<Longrightarrow> uint (word_of_int k :: u8) = k" for k by (simp add: unsigned_of_int take_bit_int_eq_self)
  have u: "uint (word_of_int (sint v + m) :: u8) = sint v + m" "uint (word_of_int m :: u8) = m"
    using assms by (intro wu; linarith)+
  then have "int (unat (word_of_int (sint v + m) :: u8)) = sint v + m" by (simp only: uint_nat [symmetric])
  then show "127 < unat (ucast v + word_of_int m :: u8)" unfolding b using assms(2) by linarith
  have w: "(ucast x :: 'a word) = word_of_int (uint x)" for x :: u8 by simp
  have "ucast (ucast v + word_of_int m :: u8) - ucast (word_of_int m :: u8) = (word_of_int (sint v + m) - word_of_int m :: 'a word)"
    unfolding b w u ..
  also have "\<dots> = v" by simp
  finally show "ucast (ucast v + word_of_int m :: u8) - ucast (word_of_int m :: u8) = v" .
qed

lemma signed_bytes_marked:
  fixes v :: "'a::len word"
  assumes "8 \<le> LENGTH('a)"
  shows "marked kEndByteMarker v (signed_bytes v)"
proof (induction v rule: signed_bytes.induct)
  case (1 v)
  show ?case
  proof (cases "sint v < kMinDataPerByte \<or> sint v > kMaxDataPerByte")
    case True
    then have "signed_bytes v = ucast (v AND 127) # signed_bytes (signed_drop_bit 7 v)" by (subst signed_bytes.simps) simp
    then show ?thesis using 1 [OF True] data_byte [of v] by (simp add: marked_more)
  next
    case False
    then have l: "signed_bytes v = [ucast v + kEndByteMarker]" by (subst signed_bytes.simps) simp
    have k: "kEndByteMarker = word_of_int 192" by (simp add: kEndByteMarker_def)
    show ?thesis unfolding l k
      using False end_byte [OF assms, of v 192] by (intro marked_last) (simp_all only: kMinDataPerByte_def kMaxDataPerByte_def, simp_all)
  qed
qed

lemma unsigned_bytes_marked:
  fixes v :: "'a::len word"
  assumes "8 \<le> LENGTH('a)"
  shows "0 \<le> sint v \<Longrightarrow> marked kEndUnsignedByteMarker v (unsigned_bytes v)"
proof (induction v rule: unsigned_bytes.induct)
  case (1 v)
  show ?case
  proof (cases "sint v > 127")
    case True
    then have "unsigned_bytes v = ucast (v AND 127) # unsigned_bytes (signed_drop_bit 7 v)" by (subst unsigned_bytes.simps) simp
    moreover have "0 \<le> sint (signed_drop_bit 7 v)" using 1(2) by (simp add: sint_signed_drop_bit)
    ultimately show ?thesis using 1(1) [OF True] data_byte [of v] by (simp add: marked_more)
  next
    case False
    then have l: "unsigned_bytes v = [ucast v + kEndUnsignedByteMarker]" by (subst unsigned_bytes.simps) simp
    have k: "kEndUnsignedByteMarker = word_of_int 128" by (simp add: kEndUnsignedByteMarker_def)
    show ?thesis unfolding l k
      using False 1(2) end_byte [OF assms, of v 128] by (intro marked_last) simp_all
  qed
qed

lemma signed_bytes_length:
  "- 64 * 128 ^ n \<le> sint v \<Longrightarrow> sint v < 64 * 128 ^ n \<Longrightarrow> length (signed_bytes v) \<le> Suc n"
proof (induction n arbitrary: v)
  case 0
  then show ?case by (subst signed_bytes.simps) (simp add: kMinDataPerByte_def kMaxDataPerByte_def)
next
  case (Suc n)
  have "- 64 * 128 ^ n \<le> sint (signed_drop_bit 7 v)" "sint (signed_drop_bit 7 v) < 64 * 128 ^ n"
    unfolding sint_signed_drop_bit using Suc.prems by auto
  then have "length (signed_bytes (signed_drop_bit 7 v)) \<le> Suc n" by (rule Suc.IH)
  then show ?case by (subst signed_bytes.simps) simp
qed

lemma UNROLLED_INIT_eq: "UNROLLED_INIT m k st = UNROLLED_BODY m 0 k 0 st"
  by (simp add: UNROLLED_INIT_def UNROLLED_BODY_def Let_def split: option.splits)

lemma continues_step:
  "continues m n t (k :: 'a::len word \<Rightarrow> _) \<Longrightarrow> t = s + 7 \<Longrightarrow> 8 \<le> LENGTH('a) \<Longrightarrow> continues m (Suc n) s (UNROLLED_BODY m s k)"
  by (simp add: continues_BODY)

lemma unrolled_marked:
  fixes v :: "'a::len word"
  assumes "continues m n 7 k" "8 \<le> LENGTH('a)" "marked m v bs" "pending_bytes st = bs @ rest" "length bs \<le> Suc n"
  shows "UNROLLED_INIT m k st = Some (v, Advance (length bs) st)"
proof -
  have "continues m (Suc n) 0 (UNROLLED_BODY m 0 k)" using assms(1,2) by (simp add: continues_BODY)
  then have "UNROLLED_BODY m 0 k 0 st = Some (0 OR push_bit 0 v, Advance (length bs) st)"
    using assms(3-5) unfolding continues_def by blast
  then show ?thesis by (simp add: UNROLLED_INIT_eq)
qed

lemma ReadStream_Read16_marked:
  assumes "marked m v bs" "pending_bytes st = bs @ rest" "length bs \<le> 3"
  shows "ReadStream_Read16 m st = Some (v, Advance (length bs) st)"
proof -
  have "continues m (Suc 1) 7 (UNROLLED_BODY m 7 (UNROLLED_END m 14) :: u16 \<Rightarrow> _)"
    by (rule continues_END continues_step | simp)+
  then show ?thesis unfolding ReadStream_Read16_def by (rule unrolled_marked) (use assms in simp_all)
qed

lemma ReadStream_Read32_marked:
  assumes "marked m v bs" "pending_bytes st = bs @ rest" "length bs \<le> 5"
  shows "ReadStream_Read32 m st = Some (v, Advance (length bs) st)"
proof -
  have "continues m (Suc (Suc (Suc 1))) 7 (UNROLLED_BODY m 7 (UNROLLED_BODY m 14 (UNROLLED_BODY m 21 (UNROLLED_END m 28))) :: u32 \<Rightarrow> _)"
    by (rule continues_END continues_step | simp)+
  then show ?thesis unfolding ReadStream_Read32_def by (rule unrolled_marked) (use assms in simp_all)
qed

lemma ReadStream_Read64_marked:
  assumes "marked m v bs" "pending_bytes st = bs @ rest" "length bs \<le> 10"
  shows "ReadStream_Read64 m st = Some (v, Advance (length bs) st)"
proof -
  have "continues m (Suc (Suc (Suc (Suc (Suc (Suc (Suc (Suc 1)))))))) 7 (UNROLLED_BODY m 7 (UNROLLED_BODY m 14 (UNROLLED_BODY m 21 (UNROLLED_BODY m 28
      (UNROLLED_BODY m 35 (UNROLLED_BODY m 42 (UNROLLED_BODY m 49 (UNROLLED_BODY m 56 (UNROLLED_END m 63)))))))) :: u64 \<Rightarrow> _)"
    by (rule continues_END continues_step | simp)+
  then show ?thesis unfolding ReadStream_Read64_def by (rule unrolled_marked) (use assms in simp_all)
qed

lemma signed_bytes_lengths:
  "length (signed_bytes (v16 :: u16)) \<le> 3" "length (signed_bytes (v32 :: u32)) \<le> 5" "length (signed_bytes (v64 :: u64)) \<le> 10"
  using signed_bytes_length [of 2 v16] sint_greater_eq [of v16] sint_less [of v16]
    signed_bytes_length [of 4 v32] sint_greater_eq [of v32] sint_less [of v32]
    signed_bytes_length [of 9 v64] sint_greater_eq [of v64] sint_less [of v64] by simp_all

lemma Read_signed_bytes:
  "pending_bytes st = signed_bytes (v16 :: u16) @ rest \<Longrightarrow> ReadStream_Read16 kEndByteMarker st = Some (v16, Advance (length (signed_bytes v16)) st)"
  "pending_bytes st = signed_bytes (v32 :: u32) @ rest \<Longrightarrow> ReadStream_Read32 kEndByteMarker st = Some (v32, Advance (length (signed_bytes v32)) st)"
  "pending_bytes st = signed_bytes (v64 :: u64) @ rest \<Longrightarrow> ReadStream_Read64 kEndByteMarker st = Some (v64, Advance (length (signed_bytes v64)) st)"
  "8 \<le> LENGTH('a::len) \<Longrightarrow> pending_bytes st = signed_bytes (v :: 'a word) @ rest \<Longrightarrow> Read kEndByteMarker st = Some (v, Advance (length (signed_bytes v)) st)"
  by (rule ReadStream_Read16_marked ReadStream_Read32_marked ReadStream_Read64_marked Read_marked; simp add: signed_bytes_marked signed_bytes_lengths)+

lemma Read_unsigned_bytes:
  "8 \<le> LENGTH('a::len) \<Longrightarrow> 0 \<le> sint v \<Longrightarrow> pending_bytes st = unsigned_bytes (v :: 'a word) @ rest \<Longrightarrow>
   ReadUnsigned st = Some (v, Advance (length (unsigned_bytes v)) st)"
  unfolding ReadUnsigned_def by (rule Read_marked) (simp_all add: unsigned_bytes_marked)

lemma pending_Advance: "pending_bytes st = bs @ rest \<Longrightarrow> pending_bytes (Advance (length bs) st) = rest"
proof -
  assume "pending_bytes st = bs @ rest"
  moreover have "pending_bytes (Advance (length bs) st) = drop (length bs) (pending_bytes st)" by (simp add: pending_bytes_def Advance_def add.commute)
  ultimately show ?thesis by simp
qed

definition word_as_32_bytes :: "u64 \<Rightarrow> u8 list" where
  "word_as_32_bytes v = signed_bytes (ucast v :: u32) @ signed_bytes (ucast (drop_bit 32 v) :: u32)"

lemma WriteWordWith32BitWrites_eq: "WriteWordWith32BitWrites W v st = WriteAll W (word_as_32_bytes v) st"
  by (simp add: WriteWordWith32BitWrites_def word_as_32_bytes_def Write_eq WriteAll_append Let_def split: option.splits)

lemma halves: "push_bit 0 (ucast (ucast v :: u32)) OR push_bit 32 (ucast (ucast (drop_bit 32 v) :: u32)) = (v :: u64)" (is "?l = v")
proof (rule bit_word_eqI)
  show "bit ?l n = bit v n" if "n < LENGTH(64)" for n using that by (cases "n < 32") (auto simp: bit_simps)
qed

lemma ReadWordWith32BitReads_eq:
  assumes "pending_bytes st = word_as_32_bytes v @ rest"
  shows "ReadWordWith32BitReads st = Some (v, Advance (length (word_as_32_bytes v)) st)"
proof -
  have p: "pending_bytes st = signed_bytes (ucast v :: u32) @ signed_bytes (ucast (drop_bit 32 v) :: u32) @ rest"
    using assms by (simp add: word_as_32_bytes_def)
  show ?thesis
    by (simp add: ReadWordWith32BitReads_def Read_signed_bytes(2) [OF p] Read_signed_bytes(2) [OF pending_Advance [OF p]] halves [simplified]
        word_as_32_bytes_def)
qed

section \<open>SLEB128\<close>

function sleb128 :: "'a::len word \<Rightarrow> u8 list" where
  "sleb128 v =
     (if sint v < - 64 \<or> sint v > 63 then (ucast (v AND 127) OR 128) # sleb128 (signed_drop_bit 7 v)
      else [ucast (v AND 127)])"
  by pat_completeness auto
termination
  by (relation "measure (\<lambda>v. nat \<bar>sint v\<bar>)")
    (use signed_shift_smaller in \<open>auto simp: kMinDataPerByte_def kMaxDataPerByte_def\<close>)
declare sleb128.simps [simp del]

lemma bit_64: "bit (64 :: u8) n \<longleftrightarrow> n = 6"
proof -
  have "(64 :: u8) = push_bit 6 1" by simp
  then show ?thesis by (simp only: bit_push_bit_iff bit_1_iff) auto
qed

lemma part_sign: "8 \<le> LENGTH('a) \<Longrightarrow> (ucast ((v :: 'a::len word) AND 127) :: u8) AND 64 \<noteq> 0 \<longleftrightarrow> bit v 6"
proof -
  assume l: "8 \<le> LENGTH('a)"
  have b: "bit ((ucast (v AND 127) :: u8) AND 64) n \<longleftrightarrow> n = 6 \<and> bit v 6" for n
    unfolding bit_and_iff bit_64 and_numeral_take_bit by (auto simp: bit_simps)
  show ?thesis
  proof (cases "bit v 6")
    case True
    then have "bit ((ucast (v AND 127) :: u8) AND 64) 6" unfolding b by simp
    then have "(ucast (v AND 127) :: u8) AND 64 \<noteq> 0" by (metis bit_0_eq bot_apply bot_bool_def)
    then show ?thesis using True by simp
  next
    case False
    then have "(ucast (v AND 127) :: u8) AND 64 = 0" by (intro bit_word_eqI) (unfold b, simp)
    then show ?thesis using False by simp
  qed
qed

lemma bit_sint: "n < LENGTH('a) \<Longrightarrow> bit (v :: 'a::len word) n = odd (sint v div 2 ^ n)"
proof -
  assume "n < LENGTH('a)"
  then have "min n (LENGTH('a) - Suc 0) = n" by simp
  then have "bit (sint v) n = bit v n" by (simp add: bit_simps min.commute)
  then show ?thesis by (simp add: bit_iff_odd)
qed

lemma minus_one_iff: "v = - 1 \<longleftrightarrow> sint (v :: 'a::len word) = - 1"
proof
  assume "sint v = - 1"
  then have "word_of_int (sint v) = (- 1 :: 'a word)" by simp
  then show "v = - 1" by simp
qed simp

lemma zero_iff: "v = 0 \<longleftrightarrow> sint (v :: 'a::len word) = 0"
proof
  assume "sint v = 0"
  then have "word_of_int (sint v) = (0 :: 'a word)" by simp
  then show "v = 0" by simp
qed simp

lemma sleb_last:
  fixes v :: "'a::len word"
  assumes "8 \<le> LENGTH('a)"
  shows "sint v < 0 \<Longrightarrow> signed_drop_bit 7 v = - 1 \<and> (ucast (v AND 127) :: u8) AND 64 \<noteq> 0 \<longleftrightarrow> - 64 \<le> sint v"
    "0 \<le> sint v \<Longrightarrow> signed_drop_bit 7 v = 0 \<and> (ucast (v AND 127) :: u8) AND 64 = 0 \<longleftrightarrow> sint v \<le> 63"
proof -
  have o: "(ucast (v AND 127) :: u8) AND 64 \<noteq> 0 \<longleftrightarrow> odd (sint v div 64)" using assms by (simp add: part_sign bit_sint)
  have d: "sint v div 2 ^ 7 = sint v div 64 div 2" by (simp flip: zdiv_zmult2_eq)
  have y: "y div 2 = - 1 \<and> odd y \<longleftrightarrow> y = - 1" "y div 2 = 0 \<and> even y \<longleftrightarrow> y = 0" for y :: int by presburger+
  have x: "x < 0 \<Longrightarrow> x div 64 = - 1 \<longleftrightarrow> - 64 \<le> x" "0 \<le> x \<Longrightarrow> x div 64 = 0 \<longleftrightarrow> x \<le> 63" for x :: int by linarith+
  show "signed_drop_bit 7 v = - 1 \<and> (ucast (v AND 127) :: u8) AND 64 \<noteq> 0 \<longleftrightarrow> - 64 \<le> sint v" if "sint v < 0"
    unfolding o minus_one_iff sint_signed_drop_bit d y using that by (rule x)
  have e: "(ucast (v AND 127) :: u8) AND 64 = 0 \<longleftrightarrow> even (sint v div 64)" using o by simp
  show "signed_drop_bit 7 v = 0 \<and> (ucast (v AND 127) :: u8) AND 64 = 0 \<longleftrightarrow> sint v \<le> 63" if "0 \<le> sint v"
    unfolding e zero_iff [of "signed_drop_bit 7 v"] sint_signed_drop_bit d y using that by (rule x)
qed

lemma sleb_sign_extended:
  fixes v :: "'a::len word"
  assumes "8 \<le> LENGTH('a)" "sint v < 0"
  shows "signed_drop_bit 7 v OR NOT (push_bit (LENGTH('a) - 7) 1 - 1) = signed_drop_bit 7 v" (is "?l = ?r")
proof (rule bit_word_eqI)
  have "bit v (LENGTH('a) - 1)" using assms(2) by (simp add: bit_last_iff)
  moreover have "(push_bit (LENGTH('a) - 7) 1 - 1 :: 'a word) = mask (LENGTH('a) - 7)" by (simp add: mask_eq_exp_minus_1 push_bit_eq_mult)
  ultimately show "bit ?l n = bit ?r n" if "n < LENGTH('a)" for n using that by (auto simp: bit_simps min_def not_less)
qed

lemma sint_shift_sign: "sint (signed_drop_bit 7 (v :: 'a::len word)) < 0 \<longleftrightarrow> sint v < 0"
  by (simp add: sint_signed_drop_bit pos_imp_zdiv_neg_iff)

lemma WriteSLEB128_eq:
  fixes v :: "'a::len word"
  assumes l: "8 \<le> LENGTH('a)"
  shows "WriteSLEB128 W v st = WriteAll W (sleb128 v) st"
proof -
  have "WriteSLEB128_loop W (sint v < 0) v st = WriteAll W (sleb128 v) st"
  proof (induction v arbitrary: st rule: sleb128.induct)
    case (1 v)
    define part :: u8 where "part = ucast (v AND 127)"
    define r where "r = signed_drop_bit 7 v"
    define last_part where "last_part = (if sint v < 0 then r = NOT 0 \<and> part AND 64 \<noteq> 0 else r = 0 \<and> part AND 64 = 0)"
    have L: "last_part \<longleftrightarrow> - 64 \<le> sint v \<and> sint v \<le> 63"
      using sleb_last [OF l, of v] by (auto simp: last_part_def r_def part_def)
    have e: "(if sint v < 0 then r OR NOT (push_bit (LENGTH('a) - 7) 1 - 1) else r) = r"
      using sleb_sign_extended [OF l, of v] by (simp add: r_def)
    have s: "(sint v < 0) = (sint r < 0)" by (simp add: r_def sint_shift_sign)
    have "WriteSLEB128_loop W (sint v < 0) v st =
        (case W (if \<not> last_part then part OR 128 else part) st of None \<Rightarrow> None
         | Some st \<Rightarrow> if \<not> last_part then WriteSLEB128_loop W (sint v < 0) r st else Some st)"
      by (subst WriteSLEB128_loop.simps) (simp only: Let_def r_def [symmetric] part_def [symmetric] e last_part_def [symmetric])
    also have "\<dots> = WriteAll W (sleb128 v) st"
      using 1 L by (subst sleb128.simps) (auto simp: s part_def r_def split: option.splits)
    finally show ?case .
  qed
  then show ?thesis by (simp add: WriteSLEB128_def)
qed

definition extend_sign :: "'a::len word \<times> nat \<times> u8 \<Rightarrow> 'a word" where
  "extend_sign x = (case x of (r, s, b) \<Rightarrow> r OR (if b AND 64 \<noteq> 0 \<and> s < LENGTH('a) then NOT (push_bit s 1 - 1) else 0))"

lemma extend_sign_mask:
  "extend_sign (r :: 'a::len word, s, b) = r OR (if b AND 64 \<noteq> 0 \<and> s < LENGTH('a) then NOT (mask s) else 0)"
proof -
  have "(push_bit s 1 - 1 :: 'a word) = mask s" by (simp add: mask_eq_exp_minus_1 push_bit_eq_mult)
  then show ?thesis by (simp only: extend_sign_def prod.case)
qed

lemma extend_last:
  fixes v r :: "'a::len word"
  assumes "8 \<le> LENGTH('a)" "- 64 \<le> sint v" "sint v \<le> 63"
  shows "extend_sign (r OR push_bit s (take_bit 7 v), s + 7, ucast (v AND 127)) = r OR push_bit s v" (is "?l = ?r")
proof (rule bit_word_eqI)
  have "sint v div 64 = (if sint v < 0 then - 1 else 0)" using assms(2,3) by auto
  then have b6: "bit v 6 \<longleftrightarrow> sint v < 0" using assms(1) by (simp add: bit_sint)
  have high: "bit v n \<longleftrightarrow> sint v < 0" if "6 \<le> n" "n < LENGTH('a)" for n
  proof -
    have "sint v div 2 ^ n = (if sint v < 0 then - 1 else 0)"
    proof -
      have "(64 :: int) \<le> 2 ^ n" using power_increasing [OF that(1), of "2 :: int"] by simp
      then have "- (2 ^ n) \<le> sint v" "sint v < 2 ^ n" using assms(2,3) by linarith+
      moreover have "(sint v + 2 ^ n) div 2 ^ n = sint v div 2 ^ n + 1" by (rule div_add_self2) simp
      ultimately show ?thesis using div_pos_pos_trivial [of "sint v + 2 ^ n" "2 ^ n"] div_pos_pos_trivial [of "sint v" "2 ^ n"] by auto
    qed
    then show ?thesis using that(2) by (simp add: bit_sint)
  qed
  show "bit ?l n = bit ?r n" if n: "n < LENGTH('a)" for n
  proof (cases "s + 7 \<le> n")
    case True
    then have "bit v (n - s) \<longleftrightarrow> sint v < 0" using high [of "n - s"] n by simp
    then show ?thesis using True n b6 part_sign [OF assms(1), of v]
      by (auto simp: extend_sign_mask bit_simps)
  next
    case False
    then show ?thesis using n by (auto simp: extend_sign_mask bit_simps)
  qed
qed

lemma ReadSLEB128_loop_eq:
  fixes v :: "'a::len word"
  assumes "8 \<le> LENGTH('a)" "pending_bytes st = sleb128 v @ rest"
  shows "\<exists>x. ReadLEB128_loop r s st = Some (x, Advance (length (sleb128 v)) st) \<and> extend_sign x = r OR push_bit s v"
  using assms(2)
proof (induction v arbitrary: r s st rule: sleb128.induct)
  case (1 v)
  show ?case
  proof (cases "sint v < - 64 \<or> sint v > 63")
    case True
    then have l: "sleb128 v = (ucast (v AND 127) OR 128) # sleb128 (signed_drop_bit 7 v)" by (subst sleb128.simps) simp
    have p: "pending_bytes st = (ucast (v AND 127) OR 128) # sleb128 (signed_drop_bit 7 v) @ rest" using 1(2) by (simp add: l)
    have "\<exists>x. ReadLEB128_loop (r OR push_bit s (take_bit 7 v)) (s + 7) (Advance 1 st) =
        Some (x, Advance (length (sleb128 (signed_drop_bit 7 v))) (Advance 1 st)) \<and>
        extend_sign x = (r OR push_bit s (take_bit 7 v)) OR push_bit (s + 7) (signed_drop_bit 7 v)"
      by (rule 1(1) [OF True ReadByte_pending(2) [OF p]])
    then show ?thesis unfolding push_bit_split_signed ReadLEB128_more [OF p] by (simp add: l)
  next
    case False
    then have l: "sleb128 v = [ucast (v AND 127)]" by (subst sleb128.simps) simp
    have p: "pending_bytes st = ucast (v AND 127) # rest" using 1(2) by (simp add: l)
    show ?thesis unfolding ReadLEB128_last [OF p] using extend_last [OF assms(1), of v r s] False by (simp add: l)
  qed
qed

lemma ReadSLEB128_eq:
  fixes v :: "'a::len word"
  assumes "8 \<le> LENGTH('a)" "pending_bytes st = sleb128 v @ rest"
  shows "ReadSLEB128 st = Some (v, Advance (length (sleb128 v)) st)"
  using ReadSLEB128_loop_eq [OF assms, of 0 0] by (auto simp: ReadSLEB128_def extend_sign_def Let_def split: prod.splits)

section \<open>References\<close>

definition ref_bytes :: "intx \<Rightarrow> u8 list" where
  "ref_bytes v =
     (if signed_drop_bit 21 v \<noteq> 0 then [ucast (signed_drop_bit 21 v AND 127)] else []) @
     (if signed_drop_bit 14 v \<noteq> 0 then [ucast (signed_drop_bit 14 v AND 127)] else []) @
     (if signed_drop_bit 7 v \<noteq> 0 then [ucast (signed_drop_bit 7 v AND 127)] else []) @
     [ucast ((v AND 127) OR 128)]"

lemma ref_data_byte: "(ucast ((w :: intx) AND 127) :: u8) = word_of_int (sint w mod 128)"
proof -
  have "(ucast (w AND 127) :: u8) = take_bit 7 (ucast w)"
    unfolding and_numeral_take_bit by (rule bit_word_eqI) (auto simp: bit_simps)
  also have "(ucast w :: u8) = word_of_int (sint w)" by (rule ucast_sint) simp
  also have "take_bit 7 (word_of_int (sint w) :: u8) = word_of_int (take_bit 7 (sint w))"
    by (rule bit_word_eqI) (auto simp: bit_simps)
  finally show ?thesis by (simp only: take_bit_eq_mod) simp
qed

lemma ref_last_byte: "(ucast (((w :: intx) AND 127) OR 128) :: u8) = word_of_int (sint w mod 128 + 128)"
proof -
  have "bit (ucast (w AND 127) :: u8) n \<Longrightarrow> n \<noteq> 7" for n
    unfolding and_numeral_take_bit by (auto simp: bit_simps)
  then have "(ucast (w AND 127) :: u8) + 128 = ucast (w AND 127) OR 128"
    by (intro disjunctive_add) (auto simp only: bit_128)
  then show ?thesis unfolding ucast_or_128 ref_data_byte by simp
qed

lemma sint_small_byte: "- 128 \<le> d \<Longrightarrow> d < 128 \<Longrightarrow> sint (word_of_int d :: u8) = d"
  by (simp add: signed_of_int signed_take_bit_int_eq_self)

lemma ReadRefId_more:
  assumes "pending_bytes st = word_of_int d # rest" "0 \<le> d" "d < 128"
  shows "ReadRefId_stages (Suc n) (word_of_int R) st = ReadRefId_stages n (word_of_int (R * 128 + d)) (Advance 1 st)"
proof -
  have "(scast (word_of_int d :: u8) :: intx) = word_of_int (sint (word_of_int d :: u8))" by simp
  then have b: "(scast (word_of_int d :: u8) :: intx) = word_of_int d" using assms(2,3) by (simp only: sint_small_byte)
  have "sint (word_of_int d :: intx) = d" using assms(2,3) by (simp add: signed_of_int signed_take_bit_int_eq_self)
  moreover have "word_of_int d + push_bit 7 (word_of_int R) = (word_of_int (R * 128 + d) :: intx)"
    by (simp add: push_bit_eq_mult)
  ultimately show ?thesis using assms(2) by (simp only: ReadRefId_stages.simps ReadByte_pending [OF assms(1)] option.case prod.case Let_def b) simp
qed

lemma ReadRefId_last:
  assumes "pending_bytes st = word_of_int (d + 128) # rest" "0 \<le> d" "d < 128"
  shows "ReadRefId_stages (Suc n) (word_of_int R) st = Some (word_of_int (R * 128 + d - 128), Advance 1 st)"
proof -
  define e where "e = d - 128"
  have e: "- 128 \<le> e" "e < 0" using assms(2,3) by (simp_all add: e_def)
  have "(word_of_int (d + 128) :: u8) = word_of_int e" by (simp add: e_def)
  then have "(scast (word_of_int (d + 128) :: u8) :: intx) = word_of_int (sint (word_of_int e :: u8))" by simp
  also have "sint (word_of_int e :: u8) = e" using e by (simp add: sint_small_byte)
  finally have b: "(scast (word_of_int (d + 128) :: u8) :: intx) = word_of_int e" .
  have "sint (word_of_int e :: intx) = e" using e by (simp add: signed_of_int signed_take_bit_int_eq_self)
  moreover have "word_of_int e + push_bit 7 (word_of_int R) = (word_of_int (R * 128 + d - 128) :: intx)"
    by (simp add: push_bit_eq_mult e_def)
  ultimately show ?thesis using e(2) by (simp only: ReadRefId_stages.simps ReadByte_pending [OF assms(1)] option.case prod.case Let_def b if_True)
qed

lemma ReadRefId_digits:
  "list_all (\<lambda>d. 0 \<le> d \<and> d < 128) ds \<Longrightarrow> 0 \<le> d \<Longrightarrow> d < 128 \<Longrightarrow> length ds < n \<Longrightarrow>
   pending_bytes st = map word_of_int ds @ word_of_int (d + 128) # rest \<Longrightarrow>
   ReadRefId_stages n (word_of_int R) st =
     Some (word_of_int (foldl (\<lambda>a c. a * 128 + c) R ds * 128 + d - 128), Advance (length ds + 1) st)"
proof (induction ds arbitrary: n R st)
  case Nil
  then obtain k where n: "n = Suc k" by (cases n) auto
  have p: "pending_bytes st = word_of_int (d + 128) # rest" using Nil.prems by simp
  show ?case unfolding n using ReadRefId_last [OF p] Nil.prems by (simp only: foldl.simps list.size) simp
next
  case (Cons c ds)
  then obtain k where n: "n = Suc k" by (cases n) auto
  have p: "pending_bytes st = word_of_int c # map word_of_int ds @ word_of_int (d + 128) # rest" using Cons.prems(5) by simp
  have "ReadRefId_stages n (word_of_int R) st = ReadRefId_stages k (word_of_int (R * 128 + c)) (Advance 1 st)"
    unfolding n using p Cons.prems(1) by (intro ReadRefId_more) auto
  also have "\<dots> = Some (word_of_int (foldl (\<lambda>a c. a * 128 + c) (R * 128 + c) ds * 128 + d - 128), Advance (length ds + 1) (Advance 1 st))"
    using Cons.prems ReadByte_pending(2) [OF p] n by (intro Cons.IH) simp_all
  finally show ?case by simp
qed

definition ref_digits :: "int \<Rightarrow> int list" where
  "ref_digits x =
     (if x div 2097152 \<noteq> 0 then [x div 2097152 mod 128] else []) @ (if x div 16384 \<noteq> 0 then [x div 16384 mod 128] else []) @
     (if x div 128 \<noteq> 0 then [x div 128 mod 128] else [])"

lemma ref_digits_value:
  assumes "0 \<le> x" "x < 2 ^ 28"
  shows "foldl (\<lambda>a c. a * 128 + c) 0 (ref_digits x) = x div 128"
proof -
  have q: "x div 16384 = x div 128 div 128" "x div 2097152 = x div 128 div 128 div 128" by (simp_all flip: zdiv_zmult2_eq)
  define y where "y = x div 128"
  have y: "0 \<le> y" "y < 2097152" using assms by (auto simp: y_def)
  have e: "y = y div 128 * 128 + y mod 128" "y div 128 = y div 128 div 128 * 128 + y div 128 mod 128" by simp_all
  have t: "y div 128 div 128 mod 128 = y div 128 div 128" using y by simp
  have r: "16384 * (y div 128 div 128) + y div 128 mod 128 * 128 + y mod 128 = y" using e by linarith
  show ?thesis using e y r unfolding ref_digits_def q y_def [symmetric] t by auto
qed

lemma ref_bytes_digits:
  assumes "x = sint v"
  shows "ref_bytes v = map word_of_int (ref_digits x) @ [word_of_int (x mod 128 + 128)]"
proof -
  have z: "signed_drop_bit k v \<noteq> 0 \<longleftrightarrow> x div 2 ^ k \<noteq> 0" for k by (simp add: zero_iff sint_signed_drop_bit assms)
  have d: "(ucast (signed_drop_bit k v AND 127) :: u8) = word_of_int (x div 2 ^ k mod 128)" for k
    by (simp only: ref_data_byte sint_signed_drop_bit assms)
  have l: "(ucast (v AND 127 OR 128) :: u8) = word_of_int (x mod 128 + 128)" by (simp only: ref_last_byte assms)
  have p: "(2 :: int) ^ 7 = 128" "(2 :: int) ^ 14 = 16384" "(2 :: int) ^ 21 = 2097152" by simp_all
  show ?thesis unfolding ref_bytes_def ref_digits_def l d z p by (simp only: map_append if_distrib [of "map _"] list.map append_assoc)
qed

lemma ReadRefId_eq:
  assumes "0 \<le> sint v" "sint v < 2 ^ 28" "pending_bytes st = ref_bytes v @ rest"
  shows "ReadRefId st = Some (v, Advance (length (ref_bytes v)) st)"
proof -
  define x where "x = sint v"
  note b = ref_bytes_digits [OF x_def]
  have m: "0 \<le> y mod 128 \<and> y mod 128 < 128" for y :: int by simp
  have "list_all (\<lambda>d. 0 \<le> d \<and> d < 128) (ref_digits x)" 
    unfolding ref_digits_def by (simp only: list_all_append list.pred_inject m simp_thms split: if_split)
  moreover have "length (ref_digits x) < 4" by (simp add: ref_digits_def)
  ultimately have "ReadRefId_stages 4 (word_of_int 0) st =
      Some (word_of_int (foldl (\<lambda>a c. a * 128 + c) 0 (ref_digits x) * 128 + x mod 128 - 128), Advance (length (ref_digits x) + 1) st)"
    using assms(3) unfolding b by (intro ReadRefId_digits [where rest = rest]) simp_all
  also have "foldl (\<lambda>a c. a * 128 + c) 0 (ref_digits x) * 128 + x mod 128 - 128 = x - 128"
    using ref_digits_value [of x] assms(1,2) by (simp add: x_def)
  finally have "ReadRefId_stages 4 0 st = Some (word_of_int (x - 128), Advance (length (ref_bytes v)) st)" by (simp add: b)
  then show ?thesis by (simp add: ReadRefId_def x_def)
qed

section \<open>What the buffers hold\<close>

text \<open>Everything that has been written: what was flushed and what is in the buffer.\<close>

definition contents :: "WriteStream \<Rightarrow> u8 list" where
  "contents st = flushed_m st @ take (write_current_m st) (write_buffer_m st)"

definition stream_ok :: "WriteStream \<Rightarrow> bool" where
  "stream_ok st = (write_current_m st \<le> capacity_m st \<and> 0 < initial_size_m st \<and> (kind_m st \<noteq> StreamingWriteStream \<longrightarrow> flushed_m st = []))"

lemma WritePosition_contents: "stream_ok st \<Longrightarrow> WritePosition st = length (contents st)"
  by (simp add: WritePosition_def contents_def stream_ok_def)

lemma bit_ceil_pos: "0 < bit_ceil x"
proof (induction x rule: bit_ceil.induct)
  case (1 x)
  then show ?case by (cases "x \<le> 1") (simp_all add: bit_ceil.simps [of x])
qed

lemma WriteStream_new_ok: "0 < initial_size \<Longrightarrow> stream_ok (WriteStream_new kind initial_size)" "contents (WriteStream_new kind initial_size) = []"
  by (simp_all add: stream_ok_def WriteStream_new_def RoundUpToPowerOfTwo_def bit_ceil_pos contents_def)

lemma StreamRoundUp_ge: "0 < a \<Longrightarrow> x \<le> StreamRoundUp x a 0"
proof -
  assume "0 < a"
  then have "(x + a - 1) mod a \<le> a - 1" using mod_less_divisor [of a "x + a - 1"] by linarith
  moreover have "(x + a - 1) div a * a + (x + a - 1) mod a = x + a - 1" by simp
  ultimately have "x \<le> (x + a - 1) div a * a" using \<open>0 < a\<close> by linarith
  then show ?thesis by (simp add: StreamRoundUp_def)
qed

lemma realloc_Some:
  "realloc alloc b n = Some b' \<Longrightarrow> length b \<le> n \<Longrightarrow> length b' = n \<and> take (length b) b' = b"
  by (auto simp: realloc_def)

lemma Realloc_keeps:
  assumes "stream_ok st" "Realloc alloc n st = Some st'" "capacity_m st \<le> n"
  shows "stream_ok st' \<and> contents st' = contents st \<and> kind_m st' = kind_m st \<and> initial_size_m st' = initial_size_m st \<and>
    n - write_current_m st \<le> Remaining st' \<and> n \<le> capacity_m st'"
proof (cases "kind_m st = StreamingWriteStream")
  case True
  have c: "n \<le> StreamRoundUp n 65536 0" by (rule StreamRoundUp_ge) simp
  show ?thesis
  proof (cases "n \<le> capacity_m st")
    case t: True
    then show ?thesis using assms True
      by (auto simp: Realloc_def StreamingRealloc_def Flush_def Let_def stream_ok_def contents_def Remaining_def)
  next
    case False
    then obtain b where b: "realloc alloc (write_buffer_m st) (StreamRoundUp n 65536 0) = Some b"
        "st' = Flush st\<lparr>write_buffer_m := b, write_current_m := 0\<rparr>"
      using assms(2) True by (auto simp: Realloc_def StreamingRealloc_def Flush_def Let_def)
    have "length b = StreamRoundUp n 65536 0" using realloc_Some [OF b(1)] c assms(3) by simp
    then show ?thesis using assms(1) c True
      by (auto simp: b(2) Flush_def stream_ok_def contents_def Remaining_def)
  qed
next
  case False
  then obtain b where b: "realloc alloc (write_buffer_m st) n = Some b" "st' = st\<lparr>write_buffer_m := b\<rparr>"
    using assms(2) by (auto simp: Realloc_def split: StreamKind.splits)
  have l: "length b = n" "take (capacity_m st) b = write_buffer_m st" using realloc_Some [OF b(1)] assms(3) by simp_all
  have "take (write_current_m st) b = take (write_current_m st) (take (capacity_m st) b)"
    using assms(1) by (simp add: stream_ok_def min_def)
  then show ?thesis using assms(1,3) False unfolding l
    by (auto simp: b(2) stream_ok_def contents_def Remaining_def l(1))
qed

lemma EnsureSpace_keeps:
  assumes "stream_ok st" "EnsureSpace alloc n st = Some st'"
  shows "stream_ok st' \<and> contents st' = contents st \<and> kind_m st' = kind_m st \<and> n \<le> Remaining st' \<and> capacity_m st \<le> capacity_m st'"
proof (cases "n \<le> Remaining st")
  case True
  then show ?thesis using assms by (simp add: EnsureSpace_def)
next
  case False
  define inc where "inc = (if n > capacity_m st then StreamRoundUp n (initial_size_m st) 0 else capacity_m st)"
  have i: "n \<le> inc" using StreamRoundUp_ge [of "initial_size_m st" n] assms(1) by (auto simp: inc_def stream_ok_def)
  have r: "Realloc alloc (capacity_m st + inc) st = Some st'" using assms(2) False by (simp add: EnsureSpace_def Let_def inc_def)
  have "n \<le> capacity_m st + inc - write_current_m st" using i assms(1) unfolding stream_ok_def by linarith
  then show ?thesis using Realloc_keeps [OF assms(1) r] by simp
qed

lemma EnsureSpace_defined: "(\<And>m. alloc m \<noteq> None) \<Longrightarrow> EnsureSpace alloc n st \<noteq> None"
  by (auto simp: EnsureSpace_def Realloc_def StreamingRealloc_def realloc_def Let_def split: StreamKind.splits)

text \<open>A full streaming buffer is flushed and nevertheless doubled: the new size is never within the old capacity.\<close>

lemma EnsureSpace_streaming:
  assumes "stream_ok st" "kind_m st = StreamingWriteStream" "Remaining st < n" "EnsureSpace alloc n st = Some st'"
  shows "write_current_m st' = 0 \<and> flushed_m st' = contents st \<and> 2 * capacity_m st \<le> capacity_m st'"
proof -
  define inc where "inc = (if n > capacity_m st then StreamRoundUp n (initial_size_m st) 0 else capacity_m st)"
  have i: "capacity_m st \<le> inc" using StreamRoundUp_ge [of "initial_size_m st" n] assms(1) by (auto simp: inc_def stream_ok_def)
  have r: "Realloc alloc (capacity_m st + inc) st = Some st'" using assms(3,4) by (simp add: EnsureSpace_def Let_def inc_def)
  have "write_current_m st' = 0 \<and> flushed_m st' = contents st"
    using r assms(2) by (auto simp: Realloc_def StreamingRealloc_def Flush_def contents_def Let_def split: if_splits)
  moreover have "capacity_m st + inc \<le> capacity_m st'" using Realloc_keeps [OF assms(1) r] by simp
  ultimately show ?thesis using i by simp
qed

lemma copy_to_length: "i + length bs \<le> length b \<Longrightarrow> length (copy_to b i bs) = length b"
  by (simp add: copy_to_def)

lemma copy_to_take: "i + length bs \<le> length b \<Longrightarrow> take (i + length bs) (copy_to b i bs) = take i b @ bs"
  by (simp add: copy_to_def)

lemma WriteBytes_contents:
  assumes "stream_ok st" "WriteBytes alloc bs st = Some st'"
  shows "stream_ok st' \<and> contents st' = contents st @ bs \<and> kind_m st' = kind_m st"
proof (cases "bs = []")
  case True
  then show ?thesis using assms by (simp add: WriteBytes_def)
next
  case False
  then obtain s where s: "EnsureSpace alloc (length bs) st = Some s"
      "st' = s\<lparr>write_buffer_m := copy_to (write_buffer_m s) (write_current_m s) bs, write_current_m := write_current_m s + length bs\<rparr>"
    using assms(2) by (auto simp: WriteBytes_def)
  note k = EnsureSpace_keeps [OF assms(1) s(1)]
  have l: "write_current_m s + length bs \<le> capacity_m s" using k by (auto simp: stream_ok_def Remaining_def)
  show ?thesis using k copy_to_length [OF l] copy_to_take [OF l] by (auto simp: s(2) stream_ok_def contents_def Remaining_def)
qed

lemma WriteByte_WriteBytes: "stream_ok st \<Longrightarrow> WriteByte alloc b st = WriteBytes alloc [b] st"
proof -
  assume ok: "stream_ok st"
  have "(write_buffer_m s)[write_current_m s := b] = copy_to (write_buffer_m s) (write_current_m s) [b]"
    if "EnsureSpace alloc 1 st = Some s" for s
  proof -
    have "write_current_m s < capacity_m s" using EnsureSpace_keeps [OF ok that] by (auto simp: stream_ok_def Remaining_def)
    then show ?thesis by (simp add: copy_to_def upd_conv_take_nth_drop)
  qed
  then show ?thesis by (cases "EnsureSpace alloc 1 st") (simp_all add: WriteByte_def WriteBytes_def)
qed

section \<open>The writers\<close>

text \<open>What the encoders need of \<open>WriteByte\<close>: it appends.\<close>

locale byte_writer =
  fixes W :: "'s writer"
    and good :: "'s \<Rightarrow> bool"
    and content :: "'s \<Rightarrow> u8 list"
  assumes W_good: "good st \<Longrightarrow> W b st = Some st' \<Longrightarrow> good st'"
    and W_content: "good st \<Longrightarrow> W b st = Some st' \<Longrightarrow> content st' = content st @ [b]"
begin

lemma WriteAll_content: "good st \<Longrightarrow> WriteAll W bs st = Some st' \<Longrightarrow> good st' \<and> content st' = content st @ bs"
proof (induction bs arbitrary: st)
  case (Cons b bs)
  then obtain s where s: "W b st = Some s" "WriteAll W bs s = Some st'" by (auto split: option.splits)
  then show ?case using Cons.IH [of s] W_good [OF Cons.prems(1) s(1)] W_content [OF Cons.prems(1) s(1)] by simp
qed simp

lemma WriteAll_defined: "good st \<Longrightarrow> (\<And>b st. good st \<Longrightarrow> W b st \<noteq> None) \<Longrightarrow> \<exists>st'. WriteAll W bs st = Some st'"
proof (induction bs arbitrary: st)
  case (Cons b bs)
  then obtain s where "W b st = Some s" by fastforce
  then show ?case using Cons.IH [of s] Cons.prems W_good by auto
qed simp

end

definition reader_at :: "u8 list \<Rightarrow> nat \<Rightarrow> ReadStream" where
  "reader_at buffer pos = SetReadPosition pos (ReadStream_new buffer)"

lemma pending_reader_at: "pending_bytes (reader_at (xs @ bs @ ys) (length xs)) = bs @ ys"
  by (simp add: reader_at_def SetReadPosition_def ReadStream_new_def pending_bytes_def)

lemma Advance_reader_at: "Advance n (reader_at buffer pos) = reader_at buffer (pos + n)"
  by (simp add: reader_at_def SetReadPosition_def ReadStream_new_def Advance_def)

text \<open>An operation that writes \<open>bs\<close> and one that reads \<open>bs\<close> as \<open>v\<close> make a round trip.\<close>

definition reads :: "(ReadStream \<Rightarrow> ('v \<times> ReadStream) option) \<Rightarrow> u8 list \<Rightarrow> 'v \<Rightarrow> bool" where
  "reads R bs v = (\<forall>st rest. pending_bytes st = bs @ rest \<longrightarrow> R st = Some (v, Advance (length bs) st))"

lemma reads_at: "reads R bs v \<Longrightarrow> R (reader_at (xs @ bs @ ys) (length xs)) = Some (v, reader_at (xs @ bs @ ys) (length (xs @ bs)))"
  unfolding reads_def using pending_reader_at [of xs bs ys] by (auto simp: Advance_reader_at)

lemma fixed5_length: "length (fixed5_leb128 v) = 5"
  by (simp add: fixed5_leb128_def)

lemma reads_encodings:
  "reads (ReadStream_Read16 kEndByteMarker) (signed_bytes v16) v16"
  "reads (ReadStream_Read32 kEndByteMarker) (signed_bytes v32) v32"
  "reads (ReadStream_Read64 kEndByteMarker) (signed_bytes v64) v64"
  "8 \<le> LENGTH('a::len) \<Longrightarrow> reads (Read kEndByteMarker) (signed_bytes v) (v :: 'a word)"
  "8 \<le> LENGTH('a) \<Longrightarrow> 0 \<le> sint v \<Longrightarrow> reads ReadUnsigned (unsigned_bytes v) v"
  "reads ReadLEB128 (leb128 v) v"
  "8 \<le> LENGTH('a) \<Longrightarrow> reads ReadSLEB128 (sleb128 v) v"
  "0 \<le> sint w \<Longrightarrow> sint w < 2 ^ 35 \<Longrightarrow> reads ReadLEB128 (fixed5_leb128 w) w"
  "0 \<le> sint w \<Longrightarrow> sint w < 2 ^ 28 \<Longrightarrow> reads ReadRefId (ref_bytes w) w"
  "reads ReadWordWith32BitReads (word_as_32_bytes v64) v64"
  unfolding reads_def
  using Read_signed_bytes Read_unsigned_bytes ReadLEB128_eq ReadSLEB128_eq ReadFixed5LEB128_eq ReadRefId_eq ReadWordWith32BitReads_eq
  by (auto simp: fixed5_length)

context byte_writer
begin

lemma roundtrip:
  assumes "reads R bs v" "good st" "WriteAll W bs st = Some st'"
  shows "R (reader_at (content st' @ later) (length (content st))) = Some (v, reader_at (content st' @ later) (length (content st')))"
  using WriteAll_content [OF assms(2,3)] reads_at [OF assms(1), of "content st" later] by simp

end

interpretation stream: byte_writer "WriteByte alloc" stream_ok contents for alloc
  by unfold_locales (auto simp: WriteByte_WriteBytes dest: WriteBytes_contents)

lemma WriteByte_defined: "(\<And>m. alloc m \<noteq> None) \<Longrightarrow> WriteByte alloc b st \<noteq> None"
  using EnsureSpace_defined [of alloc 1 st] by (simp add: WriteByte_def)

lemma stream_defined: "(\<And>m. alloc m \<noteq> None) \<Longrightarrow> stream_ok st \<Longrightarrow> \<exists>st'. WriteAll (WriteByte alloc) bs st = Some st'"
  by (rule stream.WriteAll_defined) (simp_all add: WriteByte_defined)

text \<open>References are stored without \<open>WriteByte\<close>, after one test for four bytes.\<close>

lemma store_byte_contents:
  assumes "stream_ok st" "0 < Remaining st"
  shows "stream_ok (store_byte v st)" "contents (store_byte v st) = contents st @ [ucast v]" "Remaining (store_byte v st) = Remaining st - 1"
  using assms by (auto simp: store_byte_def stream_ok_def contents_def Remaining_def take_Suc_conv_app_nth)

lemma WriteRefId_contents:
  assumes "stream_ok st" "WriteRefId alloc v st = Some st'"
  shows "stream_ok st' \<and> contents st' = contents st @ ref_bytes v"
proof -
  obtain s where s: "EnsureSpace alloc 4 st = Some s" using assms(2) by (auto simp: WriteRefId_def split: option.splits)
  have k: "stream_ok s" "contents s = contents st" "4 \<le> Remaining s" using EnsureSpace_keeps [OF assms(1) s] by auto
  show ?thesis using assms(2) k by (auto simp: WriteRefId_def s Let_def ref_bytes_def store_byte_contents)
qed

lemma WriteRefId_defined: "(\<And>m. alloc m \<noteq> None) \<Longrightarrow> WriteRefId alloc v st \<noteq> None"
  using EnsureSpace_defined [of alloc 4 st] by (auto simp: WriteRefId_def Let_def)

text \<open>\<open>Align\<close> fills up to the next multiple.\<close>

lemma StreamRoundUp_aligns:
  assumes "offset < a" "n = StreamRoundUp x a offset - x"
  shows "n < a" "a dvd x + n + offset"
proof -
  let ?y = "x + offset" and ?q = "(x + offset + a - 1) div a"
  have "?q * a + (?y + a - 1) mod a = ?y + a - 1" by (rule div_mult_mod_eq)
  moreover have "(?y + a - 1) mod a < a" using assms(1) by simp
  ultimately have q: "?y \<le> ?q * a" "?q * a < ?y + a" using assms(1) by linarith+
  have "StreamRoundUp x a offset = ?q * a - offset"
    using assms(1) by (simp add: StreamRoundUp_def ac_simps)
  then have n: "x + n + offset = ?q * a" using assms(2) q(1) by linarith
  then show "n < a" using q(2) by linarith
  show "a dvd x + n + offset" by (simp add: n)
qed

lemma WriteAlign_contents:
  assumes "stream_ok st" "WriteAlign alloc a offset fill st = Some (n, st')"
  shows "stream_ok st' \<and> n = StreamRoundUp (length (contents st)) a offset - length (contents st) \<and> contents st' = contents st @ replicate n fill"
proof -
  let ?n = "StreamRoundUp (WritePosition st) a offset - WritePosition st"
  note w = WritePosition_contents [OF assms(1)]
  show ?thesis
  proof (cases "?n = 0")
    case True
    then show ?thesis using assms w by (auto simp: WriteAlign_def Let_def)
  next
    case False
    then obtain s where s: "EnsureSpace alloc ?n st = Some s" using assms(2) by (auto simp: WriteAlign_def Let_def split: option.splits)
    note k = EnsureSpace_keeps [OF assms(1) s]
    have l: "write_current_m s + length (replicate ?n fill) \<le> capacity_m s" using k by (auto simp: stream_ok_def Remaining_def)
    let ?s = "s\<lparr>write_buffer_m := copy_to (write_buffer_m s) (write_current_m s) (replicate ?n fill)\<rparr>"
    have p: "length (flushed_m s) + write_current_m s = WritePosition st"
      using k w WritePosition_contents [of s] by (simp add: WritePosition_def)
    have q: "StreamRoundUp (WritePosition st) a offset - length (flushed_m s) = write_current_m s + ?n" using p False by simp
    have e: "EnsureSpace alloc ?n ?s = Some ?s"
      using l k copy_to_length [OF l] by (auto simp: EnsureSpace_def Remaining_def)
    have "n = ?n \<and> st' = ?s\<lparr>write_current_m := write_current_m s + ?n\<rparr>"
      using assms(2) False s e q by (auto simp: WriteAlign_def Let_def SetPosition_def BaseSetPosition_def p)
    then show ?thesis using k copy_to_length [OF l] copy_to_take [OF l] l w by (auto simp: stream_ok_def contents_def)
  qed
qed

text \<open>\<open>comes_back alloc W R v st\<close>: if the writing operation \<open>W\<close> returns, the reading operation \<open>R\<close>, started where \<open>W\<close> has started,
  gives \<open>v\<close> and stops where \<open>W\<close> has stopped, whatever is written later; and if the allocator does not fail, \<open>W\<close> returns.\<close>

definition comes_back ::
  "allocator \<Rightarrow> (WriteStream \<Rightarrow> WriteStream option) \<Rightarrow> (ReadStream \<Rightarrow> ('v \<times> ReadStream) option) \<Rightarrow> 'v \<Rightarrow> WriteStream \<Rightarrow> bool" where
  "comes_back alloc W R v st =
     ((\<forall>st' later. W st = Some st' \<longrightarrow>
         stream_ok st' \<and> prefix (contents st) (contents st') \<and>
         R (reader_at (contents st' @ later) (length (contents st))) = Some (v, reader_at (contents st' @ later) (length (contents st')))) \<and>
      ((\<forall>m. alloc m \<noteq> None) \<longrightarrow> W st \<noteq> None))"

lemma comes_back_bytes:
  assumes "stream_ok st" "W st = WriteAll (WriteByte alloc) bs st" "reads R bs v"
  shows "comes_back alloc W R v st"
  unfolding comes_back_def
proof (intro conjI allI impI)
  fix st' later
  assume w: "W st = Some st'"
  then have W: "WriteAll (WriteByte alloc) bs st = Some st'" using assms(2) by simp
  show "stream_ok st'" "prefix (contents st) (contents st')"
    using stream.WriteAll_content [OF assms(1) W] by simp_all
  show "R (reader_at (contents st' @ later) (length (contents st))) = Some (v, reader_at (contents st' @ later) (length (contents st')))"
    by (rule stream.roundtrip [OF assms(3,1) W])
next
  assume "\<forall>m. alloc m \<noteq> None"
  then show "W st \<noteq> None" using stream_defined [of alloc st bs] assms(1,2) by auto
qed

lemma comes_back_RefId:
  assumes "stream_ok st" "0 \<le> sint v" "sint v < 2 ^ 28"
  shows "comes_back alloc (WriteRefId alloc v) ReadRefId v st"
  unfolding comes_back_def
proof (intro conjI allI impI)
  fix st' later
  assume W: "WriteRefId alloc v st = Some st'"
  note c = WriteRefId_contents [OF assms(1) W]
  then show "stream_ok st'" "prefix (contents st) (contents st')"
    by simp_all
  show "ReadRefId (reader_at (contents st' @ later) (length (contents st))) = Some (v, reader_at (contents st' @ later) (length (contents st')))"
    using reads_at [OF reads_encodings(9) [OF assms(2,3)], of "contents st" later] c by simp
next
  assume "\<forall>m. alloc m \<noteq> None"
  then show "WriteRefId alloc v st \<noteq> None" using WriteRefId_defined by blast
qed

end
