(* ===== verification/ParallelMove.thy ===== *)
theory ParallelMove
  imports PlatformUtils
begin

text \<open>
  The resolution of parallel moves into a sequence of moves and swaps, \<^verbatim>\<open>runtime/vm/compiler/backend/parallel_move_resolver.cc\<close>, with
  \<open>class MoveOperands\<close> of \<^verbatim>\<open>il.h\<close> and the part of \<open>class Location\<close> of \<^verbatim>\<open>locations.h\<close> that it uses, and the choice of
  scratch registers while the schedule is emitted. Emitting the single moves and swaps belongs to the target and is not part of this
  theory; here a scheduled operation is a change of a store that maps locations to values.

  The recursion of \<open>PerformMove\<close> has its depth as fuel. The moves that are pending form a stack in which every move but
  the outermost one reads what the one below it writes; this is why a swap never destroys a
  value that has arrived, and why the number of moves bounds the depth.
\<close>

section \<open>Locations and operands\<close>

type_synonym Location = u64

definition NoLocation :: Location where
  "NoLocation = 0"

definition IsInvalid :: "Location \<Rightarrow> bool" where
  "IsInvalid loc = (loc = 0)"

definition IsConstant :: "Location \<Rightarrow> bool" where
  "IsConstant loc = (loc AND 1 = 1)"

definition kRegister :: u64 where
  "kRegister = 20"

definition kFpuRegister :: u64 where
  "kFpuRegister = 24"

definition Location_of :: "u64 \<Rightarrow> u64 \<Rightarrow> Location" where
  "Location_of kind payload = kind OR push_bit 5 payload"

definition MachineRegisterLocation :: "u64 \<Rightarrow> nat \<Rightarrow> Location" where
  "MachineRegisterLocation kind reg = (if kind = kRegister then Location_of kRegister (of_nat reg) else Location_of kFpuRegister (of_nat reg))"

record MoveOperands =
  dest_m :: Location
  src_m :: Location

definition MarkPending :: "MoveOperands \<Rightarrow> MoveOperands" where
  "MarkPending move = move\<lparr>dest_m := NoLocation\<rparr>"

definition ClearPending :: "Location \<Rightarrow> MoveOperands \<Rightarrow> MoveOperands" where
  "ClearPending dest move = move\<lparr>dest_m := dest\<rparr>"

definition IsPending :: "MoveOperands \<Rightarrow> bool" where
  "IsPending move = (IsInvalid (dest_m move) \<and> \<not> IsInvalid (src_m move))"

definition IsEliminated :: "MoveOperands \<Rightarrow> bool" where
  "IsEliminated move = IsInvalid (src_m move)"

definition Blocks :: "MoveOperands \<Rightarrow> Location \<Rightarrow> bool" where
  "Blocks move loc = (\<not> IsEliminated move \<and> src_m move = loc)"

definition IsRedundant :: "MoveOperands \<Rightarrow> bool" where
  "IsRedundant move = (IsEliminated move \<or> IsInvalid (dest_m move) \<or> src_m move = dest_m move)"

definition Eliminate :: "MoveOperands \<Rightarrow> MoveOperands" where
  "Eliminate move = move\<lparr>src_m := NoLocation, dest_m := NoLocation\<rparr>"

section \<open>The resolver\<close>

datatype OpKind = kNop | kMove | kSwap

record Op =
  op_kind_m :: OpKind
  operands_m :: MoveOperands

record ParallelMoveResolver =
  moves_m :: "MoveOperands list"
  scheduled_ops_m :: "Op list"

definition MoveSchedule_From :: "Op list \<Rightarrow> Op list" where
  "MoveSchedule_From ops = filter (\<lambda>op. op_kind_m op \<noteq> kNop) ops"

definition BuildInitialMoveList :: "MoveOperands list \<Rightarrow> MoveOperands list" where
  "BuildInitialMoveList parallel_move = filter (\<lambda>move. \<not> IsRedundant move) parallel_move"

definition update_move :: "nat \<Rightarrow> (MoveOperands \<Rightarrow> MoveOperands) \<Rightarrow> ParallelMoveResolver \<Rightarrow> ParallelMoveResolver" where
  "update_move index f r = r\<lparr>moves_m := (moves_m r)[index := f (moves_m r ! index)]\<rparr>"

definition AddMoveToSchedule :: "nat \<Rightarrow> ParallelMoveResolver \<Rightarrow> ParallelMoveResolver" where
  "AddMoveToSchedule index r =
     update_move index Eliminate
       (r\<lparr>scheduled_ops_m := scheduled_ops_m r @ [\<lparr>op_kind_m = kMove, operands_m = moves_m r ! index\<rparr>]\<rparr>)"

definition swap_source :: "Location \<Rightarrow> Location \<Rightarrow> MoveOperands \<Rightarrow> MoveOperands" where
  "swap_source source destination other_move =
     (if Blocks other_move source then other_move\<lparr>src_m := destination\<rparr>
      else if Blocks other_move destination then other_move\<lparr>src_m := source\<rparr>
      else other_move)"

definition AddSwapToSchedule :: "nat \<Rightarrow> ParallelMoveResolver \<Rightarrow> ParallelMoveResolver" where
  "AddSwapToSchedule index r =
     (let source = src_m (moves_m r ! index);
          destination = dest_m (moves_m r ! index);
          r = r\<lparr>scheduled_ops_m := scheduled_ops_m r @ [\<lparr>op_kind_m = kSwap, operands_m = moves_m r ! index\<rparr>]\<rparr>;
          r = update_move index Eliminate r
      in r\<lparr>moves_m := map (swap_source source destination) (moves_m r)\<rparr>)"

text \<open>The loop that performs the blocking moves first, with the recursive call as an argument.\<close>

fun PerformBlocking ::
  "(nat \<Rightarrow> ParallelMoveResolver \<Rightarrow> ParallelMoveResolver option) \<Rightarrow> Location \<Rightarrow> nat list \<Rightarrow> ParallelMoveResolver \<Rightarrow> ParallelMoveResolver option" where
  "PerformBlocking perform destination [] r = Some r"
| "PerformBlocking perform destination (i # is) r =
     (let other_move = moves_m r ! i
      in if Blocks other_move destination \<and> \<not> IsPending other_move then
           case perform i r of
             None \<Rightarrow> None
           | Some r \<Rightarrow> PerformBlocking perform destination is r
         else PerformBlocking perform destination is r)"

primrec PerformMove :: "nat \<Rightarrow> nat \<Rightarrow> ParallelMoveResolver \<Rightarrow> ParallelMoveResolver option" where
  "PerformMove 0 index r = None"
| "PerformMove (Suc fuel) index r =
     (let destination = dest_m (moves_m r ! index);
          r = update_move index MarkPending r
      in case PerformBlocking (PerformMove fuel) destination [0..<length (moves_m r)] r of
           None \<Rightarrow> None
         | Some r \<Rightarrow>
             let r = update_move index (ClearPending destination) r
             in if src_m (moves_m r ! index) = destination then Some (update_move index Eliminate r)
                else if list_ex (\<lambda>other_move. Blocks other_move destination) (moves_m r) then Some (AddSwapToSchedule index r)
                else Some (AddMoveToSchedule index r))"

fun PerformAll :: "nat \<Rightarrow> nat list \<Rightarrow> ParallelMoveResolver \<Rightarrow> ParallelMoveResolver option" where
  "PerformAll fuel [] r = Some r"
| "PerformAll fuel (i # is) r =
     (let move = moves_m r ! i
      in if \<not> IsEliminated move \<and> \<not> IsConstant (src_m move) then
           case PerformMove fuel i r of
             None \<Rightarrow> None
           | Some r \<Rightarrow> PerformAll fuel is r
         else PerformAll fuel is r)"

definition constant_moves :: "MoveOperands list \<Rightarrow> Op list" where
  "constant_moves moves = map (\<lambda>move. \<lparr>op_kind_m = kMove, operands_m = move\<rparr>) (filter (\<lambda>move. \<not> IsEliminated move) moves)"

text \<open>The schedule of a parallel move; \<open>None\<close> if the recursion is deeper than \<open>fuel\<close>.\<close>

definition Resolve_fuel :: "nat \<Rightarrow> MoveOperands list \<Rightarrow> Op list option" where
  "Resolve_fuel fuel parallel_move =
     (let moves = BuildInitialMoveList parallel_move
      in case PerformAll fuel [0..<length moves] \<lparr>moves_m = moves, scheduled_ops_m = []\<rparr> of
           None \<Rightarrow> None
         | Some r \<Rightarrow> Some (MoveSchedule_From (scheduled_ops_m r @ constant_moves (moves_m r))))"

definition Resolve :: "MoveOperands list \<Rightarrow> Op list option" where
  "Resolve parallel_move = Resolve_fuel (length parallel_move) parallel_move"

section \<open>Scratch registers\<close>

definition IsScratchLocation :: "Op list \<Rightarrow> nat \<Rightarrow> Location \<Rightarrow> bool" where
  "IsScratchLocation move_schedule current_move loc =
     (if list_ex (\<lambda>op. src_m (operands_m op) = loc \<or> op_kind_m op = kSwap \<and> dest_m (operands_m op) = loc) (drop current_move move_schedule)
      then False
      else list_ex (\<lambda>op. op_kind_m op = kMove \<and> dest_m (operands_m op) = loc) (drop (current_move + 1) move_schedule))"

text \<open>The shift is done on 32-bit numbers and extended with its sign to the mask. The result is the
  register, if there is one, and whether it has to be saved.\<close>

definition register_bit :: "nat \<Rightarrow> u64" where
  "register_bit reg = scast (push_bit reg 1 :: u32)"

definition AllocateScratchRegister ::
  "Op list \<Rightarrow> nat \<Rightarrow> u64 \<Rightarrow> u64 \<Rightarrow> nat \<Rightarrow> nat \<Rightarrow> nat option \<times> bool" where
  "AllocateScratchRegister move_schedule current_move kind blocked_mask first_free_register last_free_register =
     (let regs = [first_free_register..<Suc last_free_register]
      in case find (\<lambda>reg. register_bit reg AND blocked_mask = 0 \<and>
             IsScratchLocation move_schedule current_move (MachineRegisterLocation kind reg)) regs of
           Some scratch \<Rightarrow> (Some scratch, False)
         | None \<Rightarrow> (find (\<lambda>reg. register_bit reg AND blocked_mask = 0) regs, True))"

section \<open>What a schedule does\<close>

type_synonym 'v store = "Location \<Rightarrow> 'v"

definition run_op :: "Op \<Rightarrow> 'v store \<Rightarrow> 'v store" where
  "run_op op s =
     (let m = operands_m op
      in case op_kind_m op of
           kNop \<Rightarrow> s
         | kMove \<Rightarrow> s(dest_m m := s (src_m m))
         | kSwap \<Rightarrow> s(dest_m m := s (src_m m), src_m m := s (dest_m m)))"

definition run_schedule :: "Op list \<Rightarrow> 'v store \<Rightarrow> 'v store" where
  "run_schedule ops s = fold run_op ops s"

text \<open>The parallel assignment: all sources are read before any destination is written.\<close>

definition well_formed :: "MoveOperands list \<Rightarrow> bool" where
  "well_formed parallel_move =
     (let moves = BuildInitialMoveList parallel_move
      in distinct (map dest_m moves) \<and> list_all (\<lambda>m. \<not> IsConstant (dest_m m)) moves)"

definition parallel_assignment :: "MoveOperands list \<Rightarrow> 'v store \<Rightarrow> 'v store" where
  "parallel_assignment parallel_move s =
     (\<lambda>loc. case find (\<lambda>m. dest_m m = loc) (BuildInitialMoveList parallel_move) of
        None \<Rightarrow> s loc
      | Some m \<Rightarrow> s (src_m m))"

section \<open>The pending moves form a stack\<close>

text \<open>\<open>D i\<close> is the destination of the move \<open>i\<close> and \<open>V i\<close> the value that it has to bring there; both are fixed at the start.
  \<open>P\<close> is the stack of the pending moves, the outermost first.\<close>

definition src_at :: "ParallelMoveResolver \<Rightarrow> nat \<Rightarrow> Location" where
  "src_at r i = src_m (moves_m r ! i)"

definition dest_at :: "ParallelMoveResolver \<Rightarrow> nat \<Rightarrow> Location" where
  "dest_at r i = dest_m (moves_m r ! i)"

definition targets_ok :: "(nat \<Rightarrow> Location) \<Rightarrow> nat \<Rightarrow> bool" where
  "targets_ok D n = (inj_on D {..<n} \<and> (\<forall>i<n. D i \<noteq> 0 \<and> \<not> IsConstant (D i)))"

definition resolving ::
  "(nat \<Rightarrow> Location) \<Rightarrow> (nat \<Rightarrow> 'v) \<Rightarrow> nat \<Rightarrow> 'v store \<Rightarrow> nat list \<Rightarrow> ParallelMoveResolver \<Rightarrow> bool" where
  "resolving D V n s P r =
     (length (moves_m r) = n \<and> distinct P \<and> set P \<subseteq> {..<n} \<and>
      (\<forall>i<n. dest_at r i = (if src_at r i = 0 \<or> i \<in> set P then 0 else D i)) \<and>
      (\<forall>i<n. src_at r i \<noteq> 0 \<longrightarrow> run_schedule (scheduled_ops_m r) s (src_at r i) = V i) \<and>
      (\<forall>i<n. src_at r i = 0 \<longrightarrow> i \<notin> set P \<and> run_schedule (scheduled_ops_m r) s (D i) = V i) \<and>
      (\<forall>loc. loc \<notin> D ` {..<n} \<longrightarrow> run_schedule (scheduled_ops_m r) s loc = s loc) \<and>
      (\<forall>k. Suc k < length P \<longrightarrow> src_at r (P ! Suc k) = D (P ! k)))"

text \<open>What a call may change: performed moves stay performed, and the source of a move outside \<open>X\<close> becomes at most the destination
  of a performed move.\<close>

definition progress :: "(nat \<Rightarrow> Location) \<Rightarrow> nat \<Rightarrow> nat set \<Rightarrow> ParallelMoveResolver \<Rightarrow> ParallelMoveResolver \<Rightarrow> bool" where
  "progress D n X r r' =
     (\<forall>j<n. (src_at r j = 0 \<longrightarrow> src_at r' j = 0) \<and>
        (j \<notin> X \<longrightarrow> src_at r' j \<noteq> 0 \<longrightarrow> src_at r' j = src_at r j \<or> (\<exists>k<n. src_at r' j = D k \<and> src_at r' k = 0)) \<and>
        (j \<notin> X \<longrightarrow> IsConstant (src_at r j) \<longrightarrow> src_at r' j = src_at r j))"

definition unperformed :: "nat \<Rightarrow> nat set \<Rightarrow> ParallelMoveResolver \<Rightarrow> nat set" where
  "unperformed n X r = {j. j < n \<and> j \<notin> X \<and> src_at r j \<noteq> 0}"

lemma progress_refl [simp]: "progress D n X r r"
  by (simp add: progress_def)

lemma progress_trans:
  assumes "progress D n X r r'" "progress D n X r' r''"
  shows "progress D n X r r''"
  unfolding progress_def
proof (intro allI impI conjI)
  fix j
  assume j: "j < n"
  have a: "src_at r j = 0 \<longrightarrow> src_at r' j = 0" "src_at r' j = 0 \<longrightarrow> src_at r'' j = 0" if "j < n" for j
    using assms that by (simp_all add: progress_def)
  show "src_at r'' j = 0" if "src_at r j = 0"
    using a [OF j] that by simp
  show "src_at r'' j = src_at r j" if "j \<notin> X" "IsConstant (src_at r j)"
    using assms j that by (simp add: progress_def)
  show "src_at r'' j = src_at r j \<or> (\<exists>k<n. src_at r'' j = D k \<and> src_at r'' k = 0)" if x: "j \<notin> X" "src_at r'' j \<noteq> 0"
  proof -
    have n: "src_at r' j \<noteq> 0"
      using a(2) [OF j] x by auto
    consider "src_at r'' j = src_at r' j" | "\<exists>k<n. src_at r'' j = D k \<and> src_at r'' k = 0"
      using assms(2) j x unfolding progress_def by auto
    then show ?thesis
    proof cases
      case 1
      have "src_at r' j = src_at r j \<or> (\<exists>k<n. src_at r' j = D k \<and> src_at r' k = 0)"
        using assms(1) j x n unfolding progress_def by auto
      then show ?thesis
        using 1 a(2) by auto
    qed simp
  qed
qed

lemma progress_drop:
  assumes "progress D n (insert q X) r r'" "src_at r' q = 0" "\<not> IsConstant (src_at r q)"
  shows "progress D n X r r'"
  unfolding progress_def
proof (intro allI impI conjI)
  fix j
  assume j: "j < n"
  show "src_at r' j = 0" if "src_at r j = 0"
    using assms(1) j that by (simp add: progress_def)
  show "src_at r' j = src_at r j \<or> (\<exists>k<n. src_at r' j = D k \<and> src_at r' k = 0)" if "j \<notin> X" "src_at r' j \<noteq> 0"
  proof -
    have "j \<noteq> q"
      using that assms(2) by auto
    then show ?thesis
      using assms(1) j that unfolding progress_def by auto
  qed
  show "src_at r' j = src_at r j" if "j \<notin> X" "IsConstant (src_at r j)"
  proof -
    have "j \<noteq> q"
      using that assms(3) by auto
    then show ?thesis
      using assms(1) j that unfolding progress_def by auto
  qed
qed

lemma unperformed_progress: "progress D n X r r' \<Longrightarrow> unperformed n X r' \<subseteq> unperformed n X r"
  by (auto simp: unperformed_def progress_def)

lemma finite_unperformed [simp]: "finite (unperformed n X r)"
  by (simp add: unperformed_def)

lemma run_schedule_snoc [simp]: "run_schedule (ops @ [op]) s = run_op op (run_schedule ops s)"
  by (simp add: run_schedule_def)

lemma at_update_move:
  assumes "i < length (moves_m r)" "index < length (moves_m r)"
  shows "src_at (update_move index f r) i = (if i = index then src_m (f (moves_m r ! index)) else src_at r i)"
    "dest_at (update_move index f r) i = (if i = index then dest_m (f (moves_m r ! index)) else dest_at r i)"
  using assms by (simp_all add: src_at_def dest_at_def update_move_def nth_list_update)

lemma update_move_other [simp]:
  "length (moves_m (update_move index f r)) = length (moves_m r)"
  "scheduled_ops_m (update_move index f r) = scheduled_ops_m r"
  by (simp_all add: update_move_def)

lemma operand_changes [simp]:
  "src_m (MarkPending m) = src_m m" "dest_m (MarkPending m) = 0"
  "src_m (ClearPending d m) = src_m m" "dest_m (ClearPending d m) = d"
  "src_m (Eliminate m) = 0" "dest_m (Eliminate m) = 0"
  by (simp_all add: MarkPending_def ClearPending_def Eliminate_def NoLocation_def)

text \<open>The facts that a state of the resolution gives.\<close>

lemma resolvingD:
  assumes "resolving D V n s P r"
  shows "length (moves_m r) = n" "distinct P" "set P \<subseteq> {..<n}"
    "i < n \<Longrightarrow> dest_at r i = (if src_at r i = 0 \<or> i \<in> set P then 0 else D i)"
    "i < n \<Longrightarrow> src_at r i \<noteq> 0 \<Longrightarrow> run_schedule (scheduled_ops_m r) s (src_at r i) = V i"
    "i < n \<Longrightarrow> src_at r i = 0 \<Longrightarrow> i \<notin> set P \<and> run_schedule (scheduled_ops_m r) s (D i) = V i"
    "loc \<notin> D ` {..<n} \<Longrightarrow> run_schedule (scheduled_ops_m r) s loc = s loc"
    "Suc k < length P \<Longrightarrow> src_at r (P ! Suc k) = D (P ! k)"
  using assms by (simp_all add: resolving_def)

lemma resolvingI:
  assumes "length (moves_m r) = n" "distinct P" "set P \<subseteq> {..<n}"
    "\<And>i. i < n \<Longrightarrow> dest_at r i = (if src_at r i = 0 \<or> i \<in> set P then 0 else D i)"
    "\<And>i. i < n \<Longrightarrow> src_at r i \<noteq> 0 \<Longrightarrow> run_schedule (scheduled_ops_m r) s (src_at r i) = V i"
    "\<And>i. i < n \<Longrightarrow> src_at r i = 0 \<Longrightarrow> i \<notin> set P \<and> run_schedule (scheduled_ops_m r) s (D i) = V i"
    "\<And>loc. loc \<notin> D ` {..<n} \<Longrightarrow> run_schedule (scheduled_ops_m r) s loc = s loc"
    "\<And>k. Suc k < length P \<Longrightarrow> src_at r (P ! Suc k) = D (P ! k)"
  shows "resolving D V n s P r"
  using assms by (simp add: resolving_def)

lemma resolving_mark:
  assumes r: "resolving D V n s P r"
    and q: "q < n" "q \<notin> set P" "src_at r q \<noteq> 0" "P \<noteq> [] \<Longrightarrow> src_at r q = D (last P)"
  shows "resolving D V n s (P @ [q]) (update_move q MarkPending r)"
proof -
  let ?r = "update_move q MarkPending r"
  note D = resolvingD [OF r]
  have src: "src_at ?r i = src_at r i" if "i < n" for i
    using that q D(1) by (simp add: at_update_move flip: src_at_def)
  have dest: "dest_at ?r i = (if i = q then 0 else dest_at r i)" if "i < n" for i
    using that q D(1) by (simp add: at_update_move)
  show ?thesis
  proof (rule resolvingI)
    show "src_at ?r ((P @ [q]) ! Suc k) = D ((P @ [q]) ! k)" if "Suc k < length (P @ [q])" for k
    proof (cases "Suc k < length P")
      case True
      then have "P ! Suc k \<in> set P" by simp
      then have "P ! Suc k < n"
        using D(3) by auto
      then show ?thesis
        using True D(8) [OF True] by (simp add: nth_append src)
    next
      case False
      with that have k: "Suc k = length P" by simp
      then have "P \<noteq> []" by auto
      moreover have "P ! k = last P"
        unfolding last_conv_nth [OF \<open>P \<noteq> []\<close>] k [symmetric] by simp
      ultimately have "P \<noteq> []" "P ! k = last P" by simp_all
      then show ?thesis
        using k q by (simp add: nth_append src)
    qed
  qed (use D q src dest in \<open>auto split: if_splits\<close>)
qed

lemma swap_source_src:
  assumes "source \<noteq> 0" "destination \<noteq> 0"
  shows "src_m (swap_source source destination m) =
    (if src_m m = source then destination else if src_m m = destination then source else src_m m)"
    "dest_m (swap_source source destination m) = dest_m m"
  using assms by (auto simp: swap_source_def Blocks_def IsEliminated_def IsInvalid_def)

text \<open>The three ways to end a call: the move has become redundant, it is swapped, or it is carried out.\<close>

lemma resolving_eliminate:
  assumes T: "targets_ok D n" and r: "resolving D V n s (P @ [q]) r"
    and eq: "src_at r q = D q"
  shows "resolving D V n s P (update_move q Eliminate r)" (is "resolving D V n s P ?r")
proof -
  note D = resolvingD [OF r]
  have q: "q < n" "q \<notin> set P"
    using D(2,3) by auto
  have src: "src_at ?r i = (if i = q then 0 else src_at r i)" and dest: "dest_at ?r i = (if i = q then 0 else dest_at r i)" if "i < n" for i
    using that q D(1) by (simp_all add: at_update_move)
  have "src_at r q \<noteq> 0"
    using T q eq by (auto simp: targets_ok_def)
  then have V: "run_schedule (scheduled_ops_m r) s (D q) = V q"
    using D(5) [of q] q eq by simp
  show ?thesis
  proof (rule resolvingI)
    show "src_at ?r (P ! Suc k) = D (P ! k)" if k: "Suc k < length P" for k
    proof -
      have "P ! Suc k \<in> set P" using k by simp
      then have "P ! Suc k < n" "P ! Suc k \<noteq> q"
        using D(3) q by auto
      then show ?thesis
        using D(8) [of k] k by (simp add: src nth_append)
    qed
  qed (use D q src dest V in \<open>auto split: if_splits\<close>)
qed

lemma resolving_move:
  assumes T: "targets_ok D n" and r: "resolving D V n s (P @ [q]) r"
    and free: "\<And>j. j < n \<Longrightarrow> src_at r j \<noteq> D q"
  shows "resolving D V n s P (AddMoveToSchedule q (update_move q (ClearPending (D q)) r))" (is "resolving D V n s P ?r")
proof -
  note D = resolvingD [OF r]
  let ?s = "run_schedule (scheduled_ops_m r) s"
  have q: "q < n" "q \<notin> set P"
    using D(2,3) by auto
  have other: "D i \<noteq> D q" if "i < n" "i \<noteq> q" for i
    using T that q by (auto simp: targets_ok_def inj_on_def)
  have src: "src_at ?r i = (if i = q then 0 else src_at r i)" and dest: "dest_at ?r i = (if i = q then 0 else dest_at r i)" if "i < n" for i
    using that q D(1) by (simp_all add: AddMoveToSchedule_def update_move_def src_at_def dest_at_def nth_list_update)
  have "src_at r q \<noteq> 0"
    using D(6) [of q] q by auto
  then have V: "?s (src_m (moves_m r ! q)) = V q"
    using D(5) [of q] q by (simp add: src_at_def)
  have ops: "run_schedule (scheduled_ops_m ?r) s = ?s(D q := V q)"
    using q D(1) V by (simp add: AddMoveToSchedule_def update_move_def run_op_def)
  have len: "length (moves_m ?r) = n"
    using D(1) by (simp add: AddMoveToSchedule_def)
  show ?thesis
  proof (rule resolvingI)
    show "src_at ?r (P ! Suc k) = D (P ! k)" if k: "Suc k < length P" for k
    proof -
      have "P ! Suc k \<in> set P" using k by simp
      then have "P ! Suc k < n" "P ! Suc k \<noteq> q"
        using D(3) q by auto
      then show ?thesis
        using D(8) [of k] k by (simp add: src nth_append)
    qed
    show "run_schedule (scheduled_ops_m ?r) s loc = s loc" if "loc \<notin> D ` {..<n}" for loc
      using that D(7) [of loc] q unfolding ops by auto
    show "run_schedule (scheduled_ops_m ?r) s (src_at ?r i) = V i" if "i < n" "src_at ?r i \<noteq> 0" for i
      using that D(5) [of i] free [of i] src [of i] unfolding ops by (auto split: if_splits)
    show "i \<notin> set P \<and> run_schedule (scheduled_ops_m ?r) s (D i) = V i" if "i < n" "src_at ?r i = 0" for i
      using that D(6) [of i] other [of i] src [of i] q unfolding ops by (auto split: if_splits)
  qed (use D q src dest len in \<open>auto split: if_splits\<close>)
qed

text \<open>A swap exchanges the destination of the move with that of the pending move below it.\<close>

lemma resolving_swap:
  assumes T: "targets_ok D n" and r: "resolving D V n s (P @ [q]) r"
    and P: "P \<noteq> []" and eq: "src_at r q = D (last P)"
  shows "resolving D V n s P (AddSwapToSchedule q (update_move q (ClearPending (D q)) r))" (is "resolving D V n s P ?r")
    and "i < n \<Longrightarrow> src_at (AddSwapToSchedule q (update_move q (ClearPending (D q)) r)) i =
      (if i = q then 0 else if src_at r i = D (last P) then D q else if src_at r i = D q then D (last P) else src_at r i)"
proof -
  note D = resolvingD [OF r]
  let ?s = "run_schedule (scheduled_ops_m r) s"
  have q: "q < n" "q \<notin> set P"
    using D(2,3) by auto
  have "last P \<in> set P"
    using P by simp
  then have l: "last P < n" "last P \<noteq> q" "last P \<in> set P"
    using D(3) q by auto
  have other: "D i \<noteq> D j" if "i < n" "j < n" "i \<noteq> j" for i j
    using T that by (auto simp: targets_ok_def inj_on_def)
  have nz: "D (last P) \<noteq> 0" "D q \<noteq> 0"
    using T q l by (auto simp: targets_ok_def)
  have src: "src_at ?r i = (if i = q then 0 else if src_at r i = D (last P) then D q else if src_at r i = D q then D (last P) else src_at r i)"
    and dest: "dest_at ?r i = (if i = q then 0 else dest_at r i)" if "i < n" for i
    using that q D(1) eq nz
    by (simp_all add: AddSwapToSchedule_def Let_def update_move_def src_at_def dest_at_def nth_list_update swap_source_src)
  show "i < n \<Longrightarrow> src_at ?r i =
      (if i = q then 0 else if src_at r i = D (last P) then D q else if src_at r i = D q then D (last P) else src_at r i)"
    by (rule src)
  have "src_m (moves_m r ! q) = D (last P)" "?s (D (last P)) = V q"
    using D(5) [of q] q eq nz by (simp_all add: src_at_def)
  then have ops: "run_schedule (scheduled_ops_m ?r) s = ?s(D q := V q, D (last P) := ?s (D q))"
    using q D(1) by (simp add: AddSwapToSchedule_def Let_def update_move_def run_op_def)
  have len: "length (moves_m ?r) = n"
    using D(1) by (simp add: AddSwapToSchedule_def Let_def)
  show "resolving D V n s P ?r"
  proof (rule resolvingI)
    show "src_at ?r (P ! Suc k) = D (P ! k)" if k: "Suc k < length P" for k
    proof -
      have "P ! Suc k \<in> set P" "P ! k \<in> set P" using k by simp_all
      moreover have "P ! k \<noteq> last P"
        using D(2) k P by (simp add: last_conv_nth nth_eq_iff_index_eq)
      ultimately have x: "P ! Suc k < n" "P ! Suc k \<noteq> q" "P ! k < n" "P ! k \<noteq> q" "P ! k \<noteq> last P"
        using D(3) q by auto
      have "src_at r (P ! Suc k) = D (P ! k)"
        using D(8) [of k] k by (simp add: nth_append)
      then show ?thesis
        using x other [of "P ! k" q] other [of "P ! k" "last P"] l q by (simp add: src)
    qed
    show "run_schedule (scheduled_ops_m ?r) s loc = s loc" if "loc \<notin> D ` {..<n}" for loc
      using that D(7) [of loc] q l unfolding ops by auto
    show "run_schedule (scheduled_ops_m ?r) s (src_at ?r i) = V i" if "i < n" "src_at ?r i \<noteq> 0" for i
      using that D(5) [of i] D(5) [of q] eq nz other [of q "last P"] l q src [of i] unfolding ops by (auto split: if_splits)
    show "i \<notin> set P \<and> run_schedule (scheduled_ops_m ?r) s (D i) = V i" if "i < n" "src_at ?r i = 0" for i
      using that D(6) [of i] other [of i q] other [of i "last P"] other [of q "last P"] src [of i] q l nz unfolding ops
      by (auto split: if_splits)
  qed (use D q src dest len l nz in \<open>auto split: if_splits\<close>)
qed

lemma active_not_pending:
  assumes r: "resolving D V n s P r" and i: "i < n"
  shows "IsPending (moves_m r ! i) \<longleftrightarrow> i \<in> set P \<or> src_at r i \<noteq> 0 \<and> D i = 0"
    "Blocks (moves_m r ! i) loc \<longleftrightarrow> src_at r i \<noteq> 0 \<and> src_at r i = loc"
  using resolvingD(4,6) [OF r i] i
  by (auto simp: IsPending_def Blocks_def IsEliminated_def IsInvalid_def src_at_def dest_at_def split: if_splits)

text \<open>A pending move that blocks the innermost one is the outermost one, so there are at least two.\<close>

lemma blocked_by_pending:
  assumes T: "targets_ok D n" and r: "resolving D V n s (P @ [q]) r"
    and j: "j \<in> set P" "src_at r j = D q" "src_at r q \<noteq> D q"
  shows "P \<noteq> [] \<and> src_at r q = D (last P)"
proof -
  note D = resolvingD [OF r]
  have P: "P \<noteq> []"
    using j by auto
  have "src_at r ((P @ [q]) ! Suc (length P - 1)) = D ((P @ [q]) ! (length P - 1))"
    using D(8) [of "length P - 1"] P by simp
  then show ?thesis
    using P by (simp add: nth_append last_conv_nth)
qed

lemma finish_correct:
  assumes T: "targets_ok D n" and r: "resolving D V n s (P @ [q]) r"
    and free: "\<And>j. j < n \<Longrightarrow> j \<notin> set (P @ [q]) \<Longrightarrow> src_at r j \<noteq> D q"
  defines "r1 \<equiv> update_move q (ClearPending (D q)) r"
  defines "r2 \<equiv> if src_m (moves_m r1 ! q) = D q then update_move q Eliminate r1
     else if list_ex (\<lambda>m. Blocks m (D q)) (moves_m r1) then AddSwapToSchedule q r1 else AddMoveToSchedule q r1"
  shows "resolving D V n s P r2 \<and> progress D n (set (P @ [q])) r r2 \<and> src_at r2 q = 0"
proof -
  note D = resolvingD [OF r]
  have q: "q < n" "q \<notin> set P"
    using D(2,3) by auto
  have src1: "src_at r1 i = src_at r i" if "i < n" for i
    using that q D(1) by (simp add: r1_def at_update_move flip: src_at_def)
  have len1: "length (moves_m r1) = n"
    using D(1) by (simp add: r1_def)
  have nz: "D q \<noteq> 0"
    using T q by (auto simp: targets_ok_def)
  consider "src_at r q = D q" | "src_at r q \<noteq> D q" "\<exists>j<n. src_at r j = D q" | "\<forall>j<n. src_at r j \<noteq> D q"
    by blast
  then show ?thesis
  proof cases
    case 1
    have e: "r2 = update_move q Eliminate r"
      using 1 src1 [OF q(1)] by (simp add: r2_def src_at_def) (simp add: r1_def update_move_def Eliminate_def ClearPending_def D(1) q)
    have "src_at r2 i = (if i = q then 0 else src_at r i)" if "i < n" for i
      using that q D(1) by (simp add: e at_update_move)
    then show ?thesis
      using resolving_eliminate [OF T r 1] q by (auto simp: e progress_def)
  next
    case 2
    then obtain j where j: "j < n" "src_at r j = D q"
      by auto
    then have "j \<in> set P"
      using free [of j] 2(1) by auto
    from blocked_by_pending [OF T r this j(2) 2(1)] have P: "P \<noteq> []" "src_at r q = D (last P)"
      by simp_all
    have "Blocks (moves_m r1 ! j) (D q)"
      using src1 [OF j(1)] j nz by (simp add: Blocks_def IsEliminated_def IsInvalid_def src_at_def)
    then have "list_ex (\<lambda>m. Blocks m (D q)) (moves_m r1)"
      using j(1) len1 by (auto simp: list_ex_length)
    then have e: "r2 = AddSwapToSchedule q r1"
      using 2 src1 [OF q(1)] by (simp add: r2_def src_at_def)
    note S = resolving_swap [OF T r P, folded r1_def, folded e]
    have "last P \<in> set P"
      using P(1) by simp
    then have "last P < n"
      using D(3) by auto
    then have "\<not> IsConstant (D (last P))" "\<not> IsConstant (D q)" "D (last P) \<noteq> 0"
      using T q by (auto simp: targets_ok_def)
    then have "progress D n (set (P @ [q])) r r2"
      using q nz S(2) [OF q(1)] free unfolding progress_def by (auto simp: S(2))
    then show ?thesis
      using S(1) S(2) [OF q(1)] by simp
  next
    case 3
    have "\<not> list_ex (\<lambda>m. Blocks m (D q)) (moves_m r1)"
      using 3 src1 len1 by (auto simp: list_ex_length Blocks_def src_at_def)
    then have e: "r2 = AddMoveToSchedule q r1"
      using 3 q src1 [OF q(1)] by (simp add: r2_def src_at_def)
    have "src_at r2 i = (if i = q then 0 else src_at r i)" if "i < n" for i
      using that q D(1) by (simp add: e r1_def AddMoveToSchedule_def update_move_def src_at_def nth_list_update)
    then show ?thesis
      using resolving_move [OF T r] 3 q by (auto simp: e r1_def [symmetric] progress_def)
  qed
qed

section \<open>A call performs its move\<close>

text \<open>What a call on the move \<open>q\<close> achieves, below the pending moves \<open>P\<close>.\<close>

definition performs_move ::
  "(nat \<Rightarrow> Location) \<Rightarrow> (nat \<Rightarrow> 'v) \<Rightarrow> nat \<Rightarrow> 'v store \<Rightarrow> nat list \<Rightarrow> nat \<Rightarrow> ParallelMoveResolver \<Rightarrow> ParallelMoveResolver option \<Rightarrow> bool" where
  "performs_move D V n s P q r res =
     (\<exists>r'. res = Some r' \<and> resolving D V n s P r' \<and> progress D n (set P) r r' \<and> src_at r' q = 0)"

text \<open>The loop over the blocking moves, for a callee that performs what it is given.\<close>

lemma PerformBlocking_correct:
  assumes T: "targets_ok D n"
    and perform: "\<And>i r. resolving D V n s (P @ [q]) r \<Longrightarrow> i < n \<Longrightarrow> i \<notin> set (P @ [q]) \<Longrightarrow> src_at r i = D q \<Longrightarrow>
      card (unperformed n (set (P @ [q])) r) \<le> fuel \<Longrightarrow> performs_move D V n s (P @ [q]) i r (perform i r)"
    and r: "resolving D V n s (P @ [q]) r" and fuel: "card (unperformed n (set (P @ [q])) r) \<le> fuel"
    and js: "set js \<subseteq> {..<n}"
  shows "\<exists>r'. PerformBlocking perform (D q) js r = Some r' \<and> resolving D V n s (P @ [q]) r' \<and>
    progress D n (set (P @ [q])) r r' \<and> (\<forall>j\<in>set js. j \<notin> set (P @ [q]) \<longrightarrow> src_at r' j \<noteq> D q)"
  using r fuel js
proof (induction js arbitrary: r)
  case Nil
  then show ?case by simp
next
  case (Cons i js r)
  have i: "i < n" and q: "q < n"
    using Cons.prems(3) resolvingD(3) [OF Cons.prems(1)] by auto
  have nz: "D k \<noteq> 0" if "k < n" for k
    using T that by (auto simp: targets_ok_def)
  have other: "k = q" if "k < n" "D k = D q" for k
    using T that q by (auto simp: targets_ok_def inj_on_def)
  have rest: "\<exists>r'. PerformBlocking perform (D q) js r1 = Some r' \<and> resolving D V n s (P @ [q]) r' \<and>
      progress D n (set (P @ [q])) r r' \<and> (\<forall>j\<in>set (i # js). j \<notin> set (P @ [q]) \<longrightarrow> src_at r' j \<noteq> D q)"
    if r1: "resolving D V n s (P @ [q]) r1" "progress D n (set (P @ [q])) r r1"
      and fin: "i \<notin> set (P @ [q]) \<longrightarrow> src_at r1 i \<noteq> D q" for r1
  proof -
    have "card (unperformed n (set (P @ [q])) r1) \<le> fuel"
      using card_mono [OF finite_unperformed unperformed_progress [OF r1(2)]] Cons.prems(2) by simp
    from Cons.IH [OF r1(1) this] Cons.prems(3) obtain r' where
      r': "PerformBlocking perform (D q) js r1 = Some r'" "resolving D V n s (P @ [q]) r'"
        "progress D n (set (P @ [q])) r1 r'" "\<forall>j\<in>set js. j \<notin> set (P @ [q]) \<longrightarrow> src_at r' j \<noteq> D q"
      by auto
    have "src_at r' i \<noteq> D q" if "i \<notin> set (P @ [q])"
    proof (cases "src_at r' i = 0")
      case False
      then have "src_at r' i = src_at r1 i \<or> (\<exists>k<n. src_at r' i = D k \<and> src_at r' k = 0)"
        using r'(3) i that by (simp add: progress_def)
      moreover have "src_at r' q \<noteq> 0"
        using resolvingD(6) [OF r'(2) q] by auto
      ultimately show ?thesis
        using fin that other by metis
    qed (use nz [OF q] in simp)
    then show ?thesis
      using r' progress_trans [OF r1(2) r'(3)] by auto
  qed
  note P = active_not_pending [OF Cons.prems(1) i]
  show ?case
  proof (cases "src_at r i = D q \<and> i \<notin> set (P @ [q])")
    case True
    then have "performs_move D V n s (P @ [q]) i r (perform i r)"
      using perform Cons.prems i by simp
    then obtain r1 where r1: "perform i r = Some r1" "resolving D V n s (P @ [q]) r1" "progress D n (set (P @ [q])) r r1" "src_at r1 i = 0"
      by (auto simp: performs_move_def)
    have "Blocks (moves_m r ! i) (D q) \<and> \<not> IsPending (moves_m r ! i)"
      using P True nz [OF i] nz [OF q] by simp
    then show ?thesis
      using rest [OF r1(2,3)] r1(1,4) nz [OF q] by simp
  next
    case False
    then have "\<not> (Blocks (moves_m r ! i) (D q) \<and> \<not> IsPending (moves_m r ! i))"
      using P nz [OF i] by auto
    then show ?thesis
      using rest [OF Cons.prems(1) progress_refl] False by auto
  qed
qed

lemma unperformed_mark:
  assumes "q < n" "q \<notin> X" "src_at r q \<noteq> 0" "length (moves_m r) = n"
  shows "card (unperformed n (insert q X) (update_move q MarkPending r)) < card (unperformed n X r)"
proof -
  have "unperformed n (insert q X) (update_move q MarkPending r) = unperformed n X r - {q}"
    using assms by (auto simp: unperformed_def at_update_move)
  moreover have "q \<in> unperformed n X r"
    using assms by (simp add: unperformed_def)
  ultimately show ?thesis
    by (simp only: card_Diff1_less finite_unperformed)
qed

theorem PerformMove_correct:
  assumes T: "targets_ok D n"
  shows "resolving D V n s P r \<Longrightarrow> q < n \<Longrightarrow> q \<notin> set P \<Longrightarrow> src_at r q \<noteq> 0 \<Longrightarrow> \<not> IsConstant (src_at r q) \<Longrightarrow>
    (P \<noteq> [] \<Longrightarrow> src_at r q = D (last P)) \<Longrightarrow> card (unperformed n (set P) r) \<le> fuel \<Longrightarrow>
    performs_move D V n s P q r (PerformMove fuel q r)"
proof (induction fuel arbitrary: P q r)
  case 0
  then have "q \<in> unperformed n (set P) r"
    by (simp add: unperformed_def)
  then show ?case
    using 0 by (auto simp: card_eq_0_iff)
next
  case (Suc fuel)
  let ?r0 = "update_move q MarkPending r"
  have len: "length (moves_m r) = n"
    using resolvingD(1) [OF Suc.prems(1)] .
  have dest: "dest_m (moves_m r ! q) = D q"
    using resolvingD(4) [OF Suc.prems(1,2)] Suc.prems by (simp add: dest_at_def)
  have r0: "resolving D V n s (P @ [q]) ?r0"
    using resolving_mark [OF Suc.prems(1-4,6)] .
  have f0: "card (unperformed n (set (P @ [q])) ?r0) \<le> fuel"
    using unperformed_mark [OF Suc.prems(2-4) len] Suc.prems(7) by simp
  have callee: "performs_move D V n s (P @ [q]) i r (PerformMove fuel i r)"
    if "resolving D V n s (P @ [q]) r" "i < n" "i \<notin> set (P @ [q])" "src_at r i = D q" "card (unperformed n (set (P @ [q])) r) \<le> fuel" for i r
    using Suc.IH [OF that(1-3)] that T Suc.prems(2) by (simp add: targets_ok_def)
  have "\<exists>r1. PerformBlocking (PerformMove fuel) (D q) [0..<n] ?r0 = Some r1 \<and> resolving D V n s (P @ [q]) r1 \<and>
      progress D n (set (P @ [q])) ?r0 r1 \<and> (\<forall>j\<in>set [0..<n]. j \<notin> set (P @ [q]) \<longrightarrow> src_at r1 j \<noteq> D q)"
    by (rule PerformBlocking_correct [where perform = "PerformMove fuel", OF T callee r0 f0]) auto
  then obtain r1 where
    r1: "PerformBlocking (PerformMove fuel) (D q) [0..<n] ?r0 = Some r1" "resolving D V n s (P @ [q]) r1"
      "progress D n (set (P @ [q])) ?r0 r1" "\<forall>j\<in>set [0..<n]. j \<notin> set (P @ [q]) \<longrightarrow> src_at r1 j \<noteq> D q"
    by (elim exE conjE)
  from r1(4) have free: "src_at r1 j \<noteq> D q" if "j < n" "j \<notin> set (P @ [q])" for j
    using that by simp
  let ?r2 = "update_move q (ClearPending (D q)) r1"
  let ?r3 = "if src_m (moves_m ?r2 ! q) = D q then update_move q Eliminate ?r2
     else if list_ex (\<lambda>m. Blocks m (D q)) (moves_m ?r2) then AddSwapToSchedule q ?r2 else AddMoveToSchedule q ?r2"
  have F: "resolving D V n s P ?r3" "progress D n (set (P @ [q])) r1 ?r3" "src_at ?r3 q = 0"
    using finish_correct [OF T r1(2) free] by simp_all
  have res: "PerformMove (Suc fuel) q r = Some ?r3"
    using r1(1) by (simp add: dest len Let_def)
  have src0: "src_at ?r0 i = src_at r i" if "i < n" for i
    using that Suc.prems(2) len by (simp add: at_update_move flip: src_at_def)
  have "progress D n (insert q (set P)) ?r0 ?r3"
    using progress_trans [OF r1(3) F(2)] by simp
  then have "progress D n (insert q (set P)) r ?r3"
    using src0 by (simp add: progress_def)
  then have "progress D n (set P) r ?r3"
    by (rule progress_drop [OF _ F(3) Suc.prems(5)])
  with F(1,3) show ?case
    unfolding res performs_move_def by simp
qed

section \<open>The schedule implements the parallel move\<close>

lemma find_Some_set: "find Q xs = Some x \<Longrightarrow> x \<in> set xs \<and> Q x"
  by (induction xs) (auto split: if_splits)

lemma find_None_set: "find Q xs = None \<longleftrightarrow> (\<forall>x\<in>set xs. \<not> Q x)"
  by (induction xs) auto

lemma PerformAll_correct:
  assumes T: "targets_ok D n"
  shows "resolving D V n s [] r \<Longrightarrow> set js \<subseteq> {..<n} \<Longrightarrow> n \<le> fuel \<Longrightarrow>
    \<exists>r'. PerformAll fuel js r = Some r' \<and> resolving D V n s [] r' \<and> progress D n {} r r' \<and>
      (\<forall>j\<in>set js. src_at r' j = 0 \<or> IsConstant (src_at r' j))"
proof (induction js arbitrary: r)
  case Nil
  then show ?case by simp
next
  case (Cons i js r)
  have i: "i < n"
    using Cons.prems(2) by simp
  have rest: "\<exists>r'. PerformAll fuel js r1 = Some r' \<and> resolving D V n s [] r' \<and> progress D n {} r r' \<and>
      (\<forall>j\<in>set (i # js). src_at r' j = 0 \<or> IsConstant (src_at r' j))"
    if r1: "resolving D V n s [] r1" "progress D n {} r r1" and fin: "src_at r1 i = 0 \<or> IsConstant (src_at r1 i)" for r1
  proof -
    have "\<exists>r'. PerformAll fuel js r1 = Some r' \<and> resolving D V n s [] r' \<and> progress D n {} r1 r' \<and>
      (\<forall>j\<in>set js. src_at r' j = 0 \<or> IsConstant (src_at r' j))"
      by (rule Cons.IH [OF r1(1)]) (use Cons.prems in simp_all)
    then obtain r' where r': "PerformAll fuel js r1 = Some r'" "resolving D V n s [] r'" "progress D n {} r1 r'"
      "\<forall>j\<in>set js. src_at r' j = 0 \<or> IsConstant (src_at r' j)"
      by (elim exE conjE)
    have "src_at r' i = 0 \<or> IsConstant (src_at r' i)"
      using r'(3) i fin by (auto simp: progress_def)
    then show ?thesis
      using r' progress_trans [OF r1(2) r'(3)] by simp
  qed
  show ?case
  proof (cases "src_at r i \<noteq> 0 \<and> \<not> IsConstant (src_at r i)")
    case True
    have "card (unperformed n (set []) r) \<le> card {..<n}"
      by (rule card_mono) (auto simp: unperformed_def)
    then have "performs_move D V n s [] i r (PerformMove fuel i r)"
      using PerformMove_correct [OF T Cons.prems(1) i] True Cons.prems(3) by simp
    then obtain r1 where r1: "PerformMove fuel i r = Some r1" "resolving D V n s [] r1" "progress D n {} r r1" "src_at r1 i = 0"
      by (auto simp: performs_move_def)
    have "PerformAll fuel (i # js) r = PerformAll fuel js r1"
      using True r1(1) by (simp add: IsEliminated_def IsInvalid_def src_at_def)
    then show ?thesis
      using rest [OF r1(2,3)] r1(4) by simp
  next
    case False
    then have "PerformAll fuel (i # js) r = PerformAll fuel js r"
      by (auto simp: IsEliminated_def IsInvalid_def src_at_def)
    then show ?thesis
      using rest [OF Cons.prems(1) progress_refl] False by auto
  qed
qed

text \<open>Moves whose sources nobody writes can be carried out one after another.\<close>

lemma run_independent_moves:
  assumes "distinct (map dest_m ms)" "\<And>m m'. m \<in> set ms \<Longrightarrow> m' \<in> set ms \<Longrightarrow> src_m m \<noteq> dest_m m'"
  shows "run_schedule (map (\<lambda>m. \<lparr>op_kind_m = kMove, operands_m = m\<rparr>) ms) s loc =
    (case find (\<lambda>m. dest_m m = loc) ms of None \<Rightarrow> s loc | Some m \<Rightarrow> s (src_m m))"
  using assms
proof (induction ms arbitrary: s)
  case Nil
  then show ?case by (simp add: run_schedule_def)
next
  case (Cons m ms)
  let ?s = "s(dest_m m := s (src_m m))"
  have IH: "run_schedule (map (\<lambda>m. \<lparr>op_kind_m = kMove, operands_m = m\<rparr>) ms) ?s loc =
      (case find (\<lambda>m. dest_m m = loc) ms of None \<Rightarrow> ?s loc | Some m \<Rightarrow> ?s (src_m m))"
    by (rule Cons.IH) (use Cons.prems in simp_all)
  have step: "run_schedule (map (\<lambda>m. \<lparr>op_kind_m = kMove, operands_m = m\<rparr>) (m # ms)) s =
      run_schedule (map (\<lambda>m. \<lparr>op_kind_m = kMove, operands_m = m\<rparr>) ms) ?s"
    by (simp add: run_schedule_def run_op_def)
  show ?case
  proof (cases "dest_m m = loc")
    case True
    then have "find (\<lambda>m. dest_m m = loc) ms = None"
      using Cons.prems(1) by (auto simp: find_None_set image_iff)
    then show ?thesis
      unfolding step IH using True by simp
  next
    case False
    have "src_m x \<noteq> dest_m m" if "find (\<lambda>m. dest_m m = loc) ms = Some x" for x
      using that Cons.prems(2) by (auto simp: find_Some_iff)
    then show ?thesis
      unfolding step IH using False by (auto split: option.splits)
  qed
qed

lemma run_schedule_append: "run_schedule (xs @ ys) s = run_schedule ys (run_schedule xs s)"
  by (simp add: run_schedule_def)

lemma run_schedule_filter_nop: "run_schedule (MoveSchedule_From ops) s = run_schedule ops s"
  by (induction ops arbitrary: s) (auto simp: run_schedule_def MoveSchedule_From_def run_op_def)

definition remaining_moves :: "ParallelMoveResolver \<Rightarrow> MoveOperands list" where
  "remaining_moves r = filter (\<lambda>m. \<not> IsEliminated m) (moves_m r)"

lemma in_remaining_moves:
  assumes r: "resolving D V n s [] r"
  shows "m \<in> set (remaining_moves r) \<longleftrightarrow> (\<exists>j<n. m = moves_m r ! j \<and> src_m m = src_at r j \<and> dest_m m = D j \<and> src_at r j \<noteq> 0)"
  using resolvingD(1,4) [OF r]
  by (fastforce simp: remaining_moves_def in_set_conv_nth IsEliminated_def IsInvalid_def src_at_def dest_at_def)

lemma remaining_moves_independent:
  assumes T: "targets_ok D n" and r: "resolving D V n s [] r"
    and rest: "\<And>j. j < n \<Longrightarrow> src_at r j = 0 \<or> IsConstant (src_at r j)"
  shows "distinct (map dest_m (remaining_moves r))"
    and "m \<in> set (remaining_moves r) \<Longrightarrow> m' \<in> set (remaining_moves r) \<Longrightarrow> src_m m \<noteq> dest_m m'"
proof -
  note D = resolvingD [OF r]
  have e: "remaining_moves r = map (\<lambda>j. moves_m r ! j) (filter (\<lambda>j. src_at r j \<noteq> 0) [0..<n])"
    using D(1) unfolding remaining_moves_def
    by (subst map_nth [of "moves_m r", symmetric]) (simp add: filter_map o_def IsEliminated_def IsInvalid_def src_at_def)
  have "map dest_m (remaining_moves r) = map D (filter (\<lambda>j. src_at r j \<noteq> 0) [0..<n])"
    unfolding e using D(4) by (auto simp: dest_at_def)
  moreover have "inj_on D (set (filter (\<lambda>j. src_at r j \<noteq> 0) [0..<n]))"
    using T by (auto simp: targets_ok_def inj_on_def)
  ultimately show "distinct (map dest_m (remaining_moves r))"
    by (simp add: distinct_map)
  assume m: "m \<in> set (remaining_moves r)" "m' \<in> set (remaining_moves r)"
  moreover have "\<forall>j<n. src_at r j \<noteq> 0 \<longrightarrow> IsConstant (src_at r j)"
    using rest by auto
  ultimately have "IsConstant (src_m m)" "\<not> IsConstant (dest_m m')"
    using T by (auto simp: in_remaining_moves [OF r] targets_ok_def)
  then show "src_m m \<noteq> dest_m m'" by auto
qed

lemma constant_moves_correct:
  assumes T: "targets_ok D n" and r: "resolving D V n s [] r"
    and rest: "\<And>j. j < n \<Longrightarrow> src_at r j = 0 \<or> IsConstant (src_at r j)"
  defines "s' \<equiv> run_schedule (scheduled_ops_m r @ constant_moves (moves_m r)) s"
  shows "i < n \<Longrightarrow> s' (D i) = V i" "loc \<notin> D ` {..<n} \<Longrightarrow> s' loc = s loc"
proof -
  note D = resolvingD [OF r]
  let ?s = "run_schedule (scheduled_ops_m r) s"
  have run: "s' loc = (case find (\<lambda>m. dest_m m = loc) (remaining_moves r) of None \<Rightarrow> ?s loc | Some m \<Rightarrow> ?s (src_m m))" for loc
    unfolding s'_def run_schedule_append constant_moves_def remaining_moves_def [symmetric]
    by (rule run_independent_moves [OF remaining_moves_independent [OF T r rest]])
  show "s' (D i) = V i" if i: "i < n"
  proof (cases "find (\<lambda>m. dest_m m = D i) (remaining_moves r)")
    case None
    have "moves_m r ! i \<in> set (remaining_moves r)" "dest_m (moves_m r ! i) = D i" if "src_at r i \<noteq> 0"
      using i that D(1) D(4) [OF i] by (simp_all add: remaining_moves_def IsEliminated_def IsInvalid_def src_at_def dest_at_def)
    with None have "src_at r i = 0"
      by (auto simp: find_None_set)
    then show ?thesis
      using run [of "D i"] None D(6) [OF i] by simp
  next
    case (Some m)
    then obtain j where j: "j < n" "src_m m = src_at r j" "D j = D i" "src_at r j \<noteq> 0"
      using find_Some_set [OF Some] by (auto simp: in_remaining_moves [OF r])
    then have "j = i"
      using i T by (auto simp: targets_ok_def inj_on_def)
    then show ?thesis
      using run [of "D i"] Some j D(5) [OF i] by simp
  qed
  show "s' loc = s loc" if loc: "loc \<notin> D ` {..<n}"
  proof -
    have "find (\<lambda>m. dest_m m = loc) (remaining_moves r) = None"
      using loc by (auto simp: find_None_set in_remaining_moves [OF r])
    then show ?thesis
      using run [of loc] D(7) [OF loc] by simp
  qed
qed

lemma resolving_start:
  assumes "length ms = n" "\<And>i. i < n \<Longrightarrow> \<not> IsRedundant (ms ! i)"
  shows "resolving (\<lambda>i. dest_m (ms ! i)) (\<lambda>i. s (src_m (ms ! i))) n s [] \<lparr>moves_m = ms, scheduled_ops_m = []\<rparr>"
  using assms by (auto simp: resolving_def src_at_def dest_at_def run_schedule_def IsRedundant_def IsEliminated_def IsInvalid_def)

lemma parallel_assignment_eq:
  assumes "well_formed pm" "BuildInitialMoveList pm = ms"
    and "\<And>i. i < length ms \<Longrightarrow> s' (dest_m (ms ! i)) = s (src_m (ms ! i))"
    and "\<And>loc. loc \<notin> (\<lambda>i. dest_m (ms ! i)) ` {..<length ms} \<Longrightarrow> s' loc = s loc"
  shows "s' = parallel_assignment pm s"
proof
  fix loc
  show "s' loc = parallel_assignment pm s loc"
  proof (cases "find (\<lambda>m. dest_m m = loc) ms")
    case None
    then have "loc \<notin> (\<lambda>i. dest_m (ms ! i)) ` {..<length ms}"
      by (force simp: find_None_set)
    then show ?thesis
      using assms(2,4) None by (simp add: parallel_assignment_def)
  next
    case (Some m)
    then obtain i where "i < length ms" "ms ! i = m" "dest_m m = loc"
      by (auto simp: find_Some_iff)
    then show ?thesis
      using assms(2) assms(3) [of i] Some by (simp add: parallel_assignment_def)
  qed
qed

theorem Resolve_fuel_correct:
  assumes wf: "well_formed pm" and fuel: "length pm \<le> fuel"
  shows "\<exists>ops. Resolve_fuel fuel pm = Some ops \<and> (\<forall>s :: 'v store. run_schedule ops s = parallel_assignment pm s)"
proof -
  define ms n where "ms = BuildInitialMoveList pm" and "n = length ms"
  let ?D = "\<lambda>i. dest_m (ms ! i)" and ?r = "\<lparr>moves_m = ms, scheduled_ops_m = []\<rparr>"
  have red: "\<not> IsRedundant (ms ! i)" if "i < n" for i
    using that nth_mem [of i ms] by (auto simp: ms_def n_def BuildInitialMoveList_def)
  have T: "targets_ok ?D n"
    using wf red unfolding targets_ok_def well_formed_def Let_def ms_def [symmetric]
    by (auto simp: inj_on_def distinct_conv_nth n_def list_all_length IsRedundant_def IsInvalid_def)
  have "n \<le> fuel"
    using fuel le_trans [OF length_filter_le] by (simp add: n_def ms_def BuildInitialMoveList_def)
  then have all: "\<exists>r'. PerformAll fuel [0..<n] ?r = Some r' \<and> resolving ?D (\<lambda>i. s (src_m (ms ! i))) n s [] r' \<and> progress ?D n {} ?r r' \<and>
      (\<forall>j\<in>set [0..<n]. src_at r' j = 0 \<or> IsConstant (src_at r' j))" for s :: "'v store"
    by (intro PerformAll_correct [OF T] resolving_start red) (auto simp: n_def)
  then obtain r' where r': "PerformAll fuel [0..<n] ?r = Some r'" by blast
  have "run_schedule (scheduled_ops_m r' @ constant_moves (moves_m r')) s = parallel_assignment pm s" for s :: "'v store"
  proof -
    have R: "resolving ?D (\<lambda>i. s (src_m (ms ! i))) n s [] r'" and C: "\<And>j. j < n \<Longrightarrow> src_at r' j = 0 \<or> IsConstant (src_at r' j)"
      using all [of s] r' by auto
    show ?thesis
      by (rule parallel_assignment_eq [OF wf ms_def [symmetric]]) (use constant_moves_correct [OF T R C] in \<open>auto simp: n_def\<close>)
  qed
  moreover have "Resolve_fuel fuel pm = Some (MoveSchedule_From (scheduled_ops_m r' @ constant_moves (moves_m r')))"
    using r' by (simp add: Resolve_fuel_def ms_def n_def Let_def)
  ultimately show ?thesis
    by (simp add: run_schedule_filter_nop)
qed

text \<open>More fuel does not change the schedule, so the depth chosen in \<open>Resolve\<close> is as good as any larger one.\<close>

lemma PerformBlocking_mono:
  assumes "\<And>i r r'. perform i r = Some r' \<Longrightarrow> perform' i r = Some r'"
  shows "PerformBlocking perform d js r = Some r' \<Longrightarrow> PerformBlocking perform' d js r = Some r'"
  by (induction js arbitrary: r) (auto simp: Let_def assms split: option.splits if_splits)

lemma PerformMove_mono: "PerformMove fuel i r = Some r' \<Longrightarrow> PerformMove (Suc fuel) i r = Some r'"
proof (induction fuel arbitrary: i r r')
  case (Suc fuel)
  show ?case
    using Suc.prems PerformBlocking_mono [where perform = "PerformMove fuel" and perform' = "PerformMove (Suc fuel)", OF Suc.IH]
    by (auto simp: Let_def simp del: PerformMove.simps(2) simp: PerformMove.simps(2) [of fuel] PerformMove.simps(2) [of "Suc fuel"]
        split: option.splits)
qed simp

lemma PerformAll_mono: "PerformAll fuel js r = Some r' \<Longrightarrow> PerformAll (Suc fuel) js r = Some r'"
  by (induction js arbitrary: r) (auto simp: Let_def PerformMove_mono simp del: PerformMove.simps split: option.splits if_splits)

lemma Resolve_fuel_mono: "Resolve_fuel fuel pm = Some ops \<Longrightarrow> Resolve_fuel (fuel + k) pm = Some ops"
  by (induction k) (auto simp: Resolve_fuel_def Let_def PerformAll_mono split: option.splits)

lemma Resolve_enough:
  assumes "well_formed pm" "length pm \<le> fuel"
  shows "Resolve_fuel fuel pm = Resolve pm"
proof -
  obtain ops where "Resolve_fuel (length pm) pm = Some ops"
    using Resolve_fuel_correct [OF assms(1) le_refl, where 'v = unit] by blast
  then show ?thesis
    using Resolve_fuel_mono [of "length pm" pm ops "fuel - length pm"] assms(2) by (simp add: Resolve_def)
qed

lemma Resolve_correct:
  assumes "well_formed pm" "Resolve pm = Some ops"
  shows "run_schedule ops s = parallel_assignment pm s"
  using Resolve_fuel_correct [OF assms(1) le_refl] assms(2) by (auto simp: Resolve_def)

section \<open>Scratch registers are dead\<close>

lemma run_schedule_Cons: "run_schedule (op # ops) s = run_schedule ops (run_op op s)"
  by (simp add: run_schedule_def)

lemma dead_location:
  assumes "\<And>op. op \<in> set ops \<Longrightarrow> src_m (operands_m op) \<noteq> loc \<and> (op_kind_m op = kSwap \<longrightarrow> dest_m (operands_m op) \<noteq> loc)"
    and "\<exists>op\<in>set ops. op_kind_m op = kMove \<and> dest_m (operands_m op) = loc"
  shows "run_schedule ops (s(loc := x)) = run_schedule ops s"
  using assms
proof (induction ops arbitrary: s)
  case (Cons op ops)
  have head: "src_m (operands_m op) \<noteq> loc" "op_kind_m op = kSwap \<longrightarrow> dest_m (operands_m op) \<noteq> loc"
    using Cons.prems(1) by simp_all
  show ?case
  proof (cases "op_kind_m op = kMove \<and> dest_m (operands_m op) = loc")
    case True
    then have "run_op op (s(loc := x)) = run_op op s"
      using head by (simp add: run_op_def)
    then show ?thesis
      by (simp only: run_schedule_Cons)
  next
    case False
    then have "run_op op (s(loc := x)) = (run_op op s)(loc := x)"
      using head by (cases "op_kind_m op") (auto simp: run_op_def Let_def fun_eq_iff)
    moreover have "run_schedule ops ((run_op op s)(loc := x)) = run_schedule ops (run_op op s)"
      by (rule Cons.IH) (use Cons.prems False in auto)
    ultimately show ?thesis
      by (simp only: run_schedule_Cons)
  qed
qed simp

lemma IsScratchLocation_dead:
  assumes scratch: "IsScratchLocation ops c loc"
  shows "run_schedule (drop c ops) (s(loc := x)) = run_schedule (drop c ops) s"
    and "run_schedule (drop (c + 1) ops) (s(loc := x)) = run_schedule (drop (c + 1) ops) s"
    and "c < length ops"
proof -
  have later: "set (drop (c + 1) ops) \<subseteq> set (drop c ops)"
    by (rule set_drop_subset_set_drop) simp
  have reads: "\<not> (src_m (operands_m op) = loc \<or> op_kind_m op = kSwap \<and> dest_m (operands_m op) = loc)" if "op \<in> set (drop c ops)" for op
    using scratch that by (auto simp: IsScratchLocation_def list_ex_iff split: if_splits)
  have writes: "\<exists>op\<in>set (drop (c + 1) ops). op_kind_m op = kMove \<and> dest_m (operands_m op) = loc"
    using scratch by (auto simp: IsScratchLocation_def list_ex_iff split: if_splits)
  show "run_schedule (drop c ops) (s(loc := x)) = run_schedule (drop c ops) s"
    by (rule dead_location) (use reads writes later in blast)+
  show "run_schedule (drop (c + 1) ops) (s(loc := x)) = run_schedule (drop (c + 1) ops) s"
    by (rule dead_location) (use reads writes later in blast)+
  show "c < length ops"
    using writes by (rule contrapos_pp) simp
qed

lemma AllocateScratchRegister_cases:
  assumes "AllocateScratchRegister ops c kind blocked lo hi = (res, spilled)"
  shows "\<And>reg. res = Some reg \<Longrightarrow> lo \<le> reg \<and> reg \<le> hi \<and> register_bit reg AND blocked = 0"
    and "\<And>reg. \<not> spilled \<Longrightarrow> res = Some reg \<Longrightarrow> IsScratchLocation ops c (MachineRegisterLocation kind reg)"
    and "\<not> spilled \<Longrightarrow> res \<noteq> None"
    and "spilled \<longleftrightarrow> (\<forall>reg. lo \<le> reg \<and> reg \<le> hi \<and> register_bit reg AND blocked = 0 \<longrightarrow>
      \<not> IsScratchLocation ops c (MachineRegisterLocation kind reg))"
    and "res = None \<longleftrightarrow> (\<forall>reg. lo \<le> reg \<and> reg \<le> hi \<longrightarrow> register_bit reg AND blocked \<noteq> 0)"
proof -
  define regs where "regs = [lo..<Suc hi]"
  have in_regs: "reg \<in> set regs \<longleftrightarrow> lo \<le> reg \<and> reg \<le> hi" for reg
    by (auto simp: regs_def)
  let ?free = "\<lambda>reg. register_bit reg AND blocked = 0"
  let ?scratch = "\<lambda>reg. ?free reg \<and> IsScratchLocation ops c (MachineRegisterLocation kind reg)"
  have res: "(case find ?scratch regs of Some reg \<Rightarrow> (Some reg, False) | None \<Rightarrow> (find ?free regs, True)) = (res, spilled)"
    using assms unfolding AllocateScratchRegister_def Let_def regs_def .
  show "lo \<le> reg \<and> reg \<le> hi \<and> ?free reg" if "res = Some reg" for reg
  proof (cases "find ?scratch regs")
    case None
    then show ?thesis
      using res that find_Some_set [of ?free regs reg] in_regs by simp
  next
    case (Some reg')
    then show ?thesis
      using res that find_Some_set [OF Some] in_regs by simp
  qed
  show "IsScratchLocation ops c (MachineRegisterLocation kind reg)" if "\<not> spilled" "res = Some reg" for reg
  proof (cases "find ?scratch regs")
    case (Some reg')
    then show ?thesis
      using res that find_Some_set [OF Some] by simp
  qed (use res that in simp)
  show "res \<noteq> None" if "\<not> spilled"
    using res that by (cases "find ?scratch regs"; cases res) simp_all
  have "spilled \<longleftrightarrow> find ?scratch regs = None"
    using res by (cases "find ?scratch regs"; cases res) simp_all
  then show "spilled \<longleftrightarrow> (\<forall>reg. lo \<le> reg \<and> reg \<le> hi \<and> ?free reg \<longrightarrow> \<not> IsScratchLocation ops c (MachineRegisterLocation kind reg))"
    unfolding find_None_set using in_regs by blast
  have "res = None \<longleftrightarrow> find ?scratch regs = None \<and> find ?free regs = None"
    using res by (cases res; cases "find ?scratch regs") auto
  then show "res = None \<longleftrightarrow> (\<forall>reg. lo \<le> reg \<and> reg \<le> hi \<longrightarrow> register_bit reg AND blocked \<noteq> 0)"
    unfolding find_None_set using in_regs by blast
qed

end
