(* ===== verification/Spec2Isabelle.thy ===== *)
theory Spec2Isabelle
  imports RiscvBits UnicodeStrings CaseMapping DataStream ParallelMove
begin

text \<open>
  Verification of parts of the Dart virtual machine: the RISC-V back end in its RV64 variant, the resolver of parallel moves that the compiler back ends share, the
  byte streams of snapshots, and the conversions between strings and UTF-8.

  \<^bold>\<open>The program.\<close> The VM generates machine code with an assembler and, on a development host, runs
  it on an instruction-set simulator. Both are in \<^verbatim>\<open>src/runtime/vm\<close> and share the instruction formats of
  \<^verbatim>\<open>constants_riscv.h\<close>. The assembler has two layers: \<open>MicroAssembler\<close> emits single instructions and
  manages labels, and \<open>Assembler\<close> adds macro instructions, which use the constant pool
  (\<^verbatim>\<open>object_pool_builder.h\<close>), which in turn uses the hash map of \<^verbatim>\<open>hash_map.h\<close> and the bit fields of
  \<^verbatim>\<open>bitfield.h\<close>. The simulator reads code from host memory and accesses data through the store buffer of
  \<^verbatim>\<open>simulator_memory.h\<close>. Before code is emitted for the moves between the locations of an instruction and its successor, \<^verbatim>\<open>parallel_move_resolver.cc\<close>
  orders them. Snapshots are written and read with the streams of \<^verbatim>\<open>datastream.h\<close>; strings enter and leave the VM through
  \<^verbatim>\<open>platform/unicode.cc\<close> and \<^verbatim>\<open>unicode.cc\<close>.

  \<^bold>\<open>Theories.\<close>
  \<^item> \<open>Prelude\<close>: word types, generic lemmas on words, lists and bit fields.
  \<^item> \<open>PlatformUtils\<close>: the helpers of \<^verbatim>\<open>runtime/platform/utils.h\<close> that the other parts use.
  \<^item> \<open>RiscvEncoding\<close>, \<open>RiscvCEncoding\<close>: \<^verbatim>\<open>constants_riscv.h\<close>; registers, opcodes, the encoders, decoders
    and range tests of all 32-bit and 16-bit formats, extension sets. Encoding is inverted by decoding.
  \<^item> \<open>SimMemory\<close>: \<^verbatim>\<open>simulator_memory.h\<close>; direct memory, the store buffer with its three ways of flushing, atomic
    accesses, and the switch between the two. The locale \<open>client_memory\<close> is the contract of a memory;
    it is interpreted on direct, on buffered and on switched memory.
  \<^item> \<open>RiscvArith\<close>: the arithmetic helper functions of \<^verbatim>\<open>simulator_riscv.cc\<close> with their mathematical meaning.
  \<^item> \<open>RiscvSimulator\<close>: \<open>class Simulator\<close>; one function per \<open>Interpret*\<close> method, the decoding
    switches, the execution loop (a \<open>partial_function\<close>: code need not end) and calls. The collection
    \<open>sim_keeps\<close> shows what every handler leaves invariant.
  \<^item> \<open>RiscvAssembler\<close>: \<open>class MicroAssembler\<close>; one function per instruction, appending bytes to the buffer.
  \<^item> \<open>RiscvMicro\<close>: assembler against simulator. \<open>computes a a' g\<close>, \<open>performs a a' T\<close>: the bytes appended
    between \<open>a\<close> and \<open>a'\<close> make the simulator change its registers by \<open>g\<close>, or its state by \<open>T\<close>. Locales
    \<open>binary_instruction\<close>, \<open>unary_instruction\<close>, \<open>immediate_instruction\<close>, \<open>load_instruction\<close> and
    \<open>store_instruction\<close> are interpreted on the instructions.
  \<^item> \<open>RiscvLabel\<close>: \<open>class Label\<close>, branches, jumps and \<open>Bind\<close>. The unresolved branches of a label are lists
    threaded through the code; locale \<open>branch_class\<close> is interpreted on the five classes of branches, locale
    \<open>branch_instruction\<close> on the six conditional branches. \<open>branch_reach\<close> and \<open>back_branch_reach\<close> are the distances that the chosen form of a branch
    can span, to a label that is bound later and to one that is bound already.
  \<^item> \<open>HashMap\<close>: \<open>BaseDirectChainedHashMap\<close> and the hash functions of \<^verbatim>\<open>hash.h\<close>; locale
    \<open>key_value_trait\<close> is the contract of the traits class and is interpreted on the traits of the code.
  \<^item> \<open>BitField\<close>, \<open>ObjectPool\<close>: bit fields, entries of the constant pool and its builder.
  \<^item> \<open>RiscvCodegen\<close>: macro instructions of \<open>class Assembler\<close>; \<open>writes a r rd f C\<close> says that generating
    succeeds and that the code sets \<open>rd\<close> to \<open>f\<close> of the registers and clobbers at most \<open>C\<close>. Code that loads a constant is covered if
    \<open>imm_ok\<close> holds of it: the constant is not taken from the object pool, and it is not the least integer on a processor with single-bit instructions.
  \<^item> \<open>RiscvBranch\<close>: the comparisons that the assembler records and the macros that consume them
    (\<open>BranchIf\<close>, \<open>SetIf\<close>, \<open>ZeroIf\<close>), the arithmetic macros that branch on overflow, the range check and the
    branches on tags and bits. \<open>conditional_jump\<close> says where the code of such a macro goes, for labels that are bound
    before or afterwards; it follows from the contract \<open>branch_instruction\<close> of the branch that is emitted last.
  \<^item> \<open>RiscvBits\<close>: the macro that counts leading zeroes, with its binary search for processors without the instruction; \<open>block\<close>
    composes code that contains forward branches.
  \<^item> \<open>ParallelMove\<close>: \<^verbatim>\<open>parallel_move_resolver.cc\<close> with \<open>MoveOperands\<close> of \<^verbatim>\<open>il.h\<close> and the part of \<^verbatim>\<open>locations.h\<close> it uses.
    \<open>resolving\<close> is the invariant of the recursion; a schedule acts on a store that maps locations to values.
  \<^item> \<open>Unicode\<close>, \<open>UnicodeStrings\<close>: \<^verbatim>\<open>platform/unicode.h\<close>, \<^verbatim>\<open>platform/unicode.cc\<close>, \<^verbatim>\<open>vm/unicode.cc\<close> and
    \<open>String::CodePointIterator\<close>. Locale \<open>utf8_conversion\<close> is the contract of a conversion loop and is interpreted on
    the conversions to Latin-1, UTF-16 and UTF-32.
  \<^item> \<open>CaseMapping\<close>: \<open>class CaseMapping\<close> with the tables of \<^verbatim>\<open>unicode_data.cc\<close>; an access outside a table is \<open>None\<close>.
  \<^item> \<open>DataStream\<close>: \<^verbatim>\<open>datastream.h\<close> and \<^verbatim>\<open>datastream.cc\<close>; readers, writers and their buffers. Locale \<open>byte_writer\<close> is the contract of the virtual
    function \<open>WriteByte\<close>, interpreted on the buffers; \<open>reads R bs v\<close> says that \<open>R\<close> reads the bytes \<open>bs\<close> as \<open>v\<close>.

  \<^bold>\<open>Conventions.\<close> A data member \<open>x_\<close> is the record field \<open>x_m\<close>. Registers are 5-bit words, \<open>intptr_t\<close>
  and \<open>uword\<close> are 64-bit words read with \<open>sint\<close> and \<open>unat\<close>, positions in the code buffer are integers.
  A method that changes its object takes the record and returns it. \<open>FATAL\<close>, \<open>UNREACHABLE\<close> and the
  bailout for branch offsets are error values. \<open>ASSERT\<close> is empty in a release build and absent from the
  definitions; where correctness rests on one it is a hypothesis of the theorem. An access outside the code
  buffer, undefined in C++, is an error value. The byte order is little-endian.

  \<^bold>\<open>Parameters.\<close> What the simulator does in the runtime on \<open>ECALL\<close>, the floating-point
  instructions, and the freedom of a weak compare-and-exchange to fail are fields of the record \<open>host\<close>; theorems
  hold for every host, with the named hypothesis \<open>host_keeps\<close> where a handler could break the
  claim. The identity hash of objects, the parent pool, the layout of the object pool in memory and the VM flag that limits
  hash map probes are fields of the record \<open>Assembler\<close> or arguments. The allocator behind the write streams is an argument
  that may fail; the hypothesis that it does not fail is needed only for the claim that writing returns.

  \<^bold>\<open>Bounds.\<close> The loops of the hash map run under the limit on probes that the code has (a table with that many
  probes is a fatal error there); theorems assume that the table size stays below it and show that it is never reached.
  Theorems on labels assume a buffer of less than 2 GB, since label positions are 32-bit in the code.
  The recursion of the move resolver has its depth as fuel; the number of moves is enough, and more fuel changes nothing.

  \<^bold>\<open>Not modelled.\<close> Floating-point arithmetic, the debugger and tracing of the simulator, RV32, code
  that only exists with \<open>DEBUG\<close>, macro instructions on objects, classes, write barriers and calls into the
  runtime, the emission of single moves by the target of the move resolver, the formatted output of streams, string objects as they lie in the
  heap (a string is its list of characters here), and the rest of the SDK.
\<close>

section \<open>Samples for the examples\<close>

lemmas branch_instructions =
  beq_i.branch_instruction_axioms bne_i.branch_instruction_axioms blt_i.branch_instruction_axioms
  bge_i.branch_instruction_axioms bltu_i.branch_instruction_axioms bgeu_i.branch_instruction_axioms

text \<open>An assembler state with an empty buffer and no constant pool, for the examples.\<close>

definition sample_assembler :: "ExtensionSet \<Rightarrow> unit Assembler" where
  "sample_assembler exts =
     \<lparr>buffer_m = [], extensions_m = exts, far_branch_level_m = 0, constant_pool_allowed_m = False,
      object_pool_builder_m = \<lparr>base_index_m = 0, used_from_parent_m = [], object_pool_m = [],
        object_pool_index_table_m = empty_map (ObjIndexPair_trait (\<lambda>_. 0)) 16\<rparr>, deferred_compare_m = kNone,
      deferred_left_m = ZR, deferred_reg_m = ZR, deferred_imm_m = 0, pool_parent = None, ObjectHash_of = \<lambda>_. 0,
      hash_map_probes_limit = 100, element_offset = \<lambda>i. of_int (16 + 8 * i)\<rparr>"

text \<open>A simulator with some code at address 0 and a host without handlers, for the examples.\<close>

definition sample_simulator :: "u8 list \<Rightarrow> Simulator" where
  "sample_simulator bs =
     \<lparr>pc_m = 0, xregs_m = (\<lambda>r. if r = RA then kEndSimulatingPC else 0), instret_m = 0,
      reserved_address_m = 0, reserved_value_m = 0, fregs_m = \<lambda>_. 0, fcsr_m = 0, lp_enabled_m = False, ss_enabled_m = False, ssp_m = 0, vregs_m = \<lambda>_. 0,
      vl_m = 0, vtype_m = 0, random_m = 0,
      memory_m = \<lparr>host_m = \<lambda>i. if unat i < length bs then bs ! unat i else 0, BufferedSimulatorMemory.buffer_m = [],
        use_buffered_m = False\<rparr>\<rparr>"

definition no_host :: host where
  "no_host = \<lparr>host_ECALL = \<lambda>_. Inr, host_FP = \<lambda>_. Inr, host_weak_fails = \<lambda>_. False\<rparr>"

lemma returns_state:
  assumes "case r of Some (Inr s) \<Rightarrow> P s | _ \<Rightarrow> False"
  obtains s where "r = Some (Inr s)" "P s"
  using assms by (auto split: option.splits sum.splits)

section \<open>Properties\<close>

text \<open>C1. A conditional branch to a new label that is bound later, in a buffer of less than 2 GB, arrives there. For each of the six branch
  instructions, any registers, and whatever code is emitted in between, if the distance is one that the chosen
  form of the branch can span, then binding the label succeeds, changes nothing but the branch, and
  the patched branch, when the simulator runs it, continues at the label exactly when the comparison
  of the two registers holds and behind the branch otherwise, with no register but FAR_TMP changed.
  The condition on the distance is by the form: the range of the compressed branch for a near jump that has a compressed form, that of
  the B-type branch for the other near jumps and at far branch level 0, that of the jump at level 1 and that of
  the two-instruction far jump from level 2 on, the last two counted from behind the inverted branch.\<close>

theorem forward_branch_reaches_label:
  assumes "(emit, func) \<in> {(beq, BEQ), (bne, BNE), (blt, BLT), (bge, BGE), (bltu, BLTU), (bgeu, BGEU)}"
    and "emit rs1 rs2 new_label distance a = Inr (l1, a1)" "buffer_m a2 = buffer_m a1 @ cs"
    and "length (buffer_m a2) < 2 ^ 31" "branch_reach func rs1 rs2 distance a (offset_between (Position a) (Position a2))"
  shows "\<exists>bs. Bind l1 a2 = Some (Inr (bound_at (Position a2), a2\<lparr>buffer_m := buffer_m a @ bs @ cs\<rparr>)) \<and>
    length (buffer_m a @ bs) = length (buffer_m a1) \<and>
    goes bs (\<lambda>R. taken func (R rs1) (R rs2)) (offset_between (Position a) (Position a2)) {FAR_TMP}"
proof -
  have "branch_instruction emit func" using assms(1) by (auto simp: branch_instructions)
  then show ?thesis using assms by (intro branch_instruction.forward_then_bind)
qed

theorem forward_branch_reaches_label_witness:
  "\<exists>l1 a1 bs. beq A0 A1 new_label kFarJump \<lparr>buffer_m = [], extensions_m = RV_G, far_branch_level_m = 0\<rparr> = Inr (l1, a1) \<and>
     Bind l1 \<lparr>buffer_m = buffer_m a1 @ bytes_le 4 0x13, extensions_m = RV_G, far_branch_level_m = 0\<rparr> =
       Some (Inr (bound_at 8, \<lparr>buffer_m = bs @ bytes_le 4 0x13, extensions_m = RV_G, far_branch_level_m = 0\<rparr>)) \<and>
     goes bs (\<lambda>R. R A0 = R A1) 8 {FAR_TMP}"
proof -
  let ?a = "\<lparr>buffer_m = [], extensions_m = RV_G, far_branch_level_m = 0\<rparr>"
  have d: "link_offset (-1) 0 = 0" "offset_between 0 8 = 8" by (simp_all add: link_offset_def offset_between_def)
  obtain l1 a1 where e: "beq A0 A1 new_label kFarJump ?a = Inr (l1, a1)" and n: "length (buffer_m a1) = 4"
    by (simp add: beq_def EmitBranch_def new_label_def IsBound_def link_b_def near_c_branch_def
        emit_words b_word_def Position_def d IsBTypeImm_def IsInt_iff IsAligned_def)
  let ?a2 = "\<lparr>buffer_m = buffer_m a1 @ bytes_le 4 0x13, extensions_m = RV_G, far_branch_level_m = 0\<rparr>"
  have "branch_reach BEQ A0 A1 kFarJump ?a 8" by (simp add: branch_reach_def IsBTypeImm_def IsInt_iff IsAligned_def)
  then show ?thesis
    using forward_branch_reaches_label [of beq BEQ A0 A1 kFarJump ?a l1 a1 ?a2 "bytes_le 4 0x13", OF _ e] n e
    by (simp add: Position_def d taken.simps) blast
qed

text \<open>C2. A conditional branch to a label that is already bound emits code that continues at the label
  exactly when the comparison holds: the compressed form, the B-type form, the inverted branch around a jump, and
  the inverted branch around the two-instruction far jump all have the same effect. Of the distances in a
  buffer of less than 2 GB (by 4 KB) the hypotheses leave out two kinds: a near branch that has a compressed form has to be in the range of that
  form, beyond which the code is a fatal error; and for every other branch the narrow window is excluded in which the jump behind the inverted
  branch is chosen although its offset does not fit.\<close>

theorem backward_branch_reaches_label:
  assumes "(emit, func) \<in> {(beq, BEQ), (bne, BNE), (blt, BLT), (bge, BGE), (bltu, BLTU), (bgeu, BGEU)}"
    and "IsBound label" "back_distance (Position a) (position_m label)"
    and "back_branch_reach func rs1 rs2 distance a (offset_between (Position a) (position_m label))"
  shows "\<exists>bs. emit rs1 rs2 label distance a = Inr (label, a\<lparr>buffer_m := buffer_m a @ bs\<rparr>) \<and>
    goes bs (\<lambda>R. taken func (R rs1) (R rs2)) (offset_between (Position a) (position_m label)) {FAR_TMP}"
proof -
  have "branch_instruction emit func" using assms(1) by (auto simp: branch_instructions)
  then show ?thesis using assms by (intro branch_instruction.backward)
qed

theorem backward_branch_reaches_label_witness:
  "\<exists>bs. bltu A0 A1 (bound_at 0) kFarJump \<lparr>buffer_m = replicate 8 0, extensions_m = RV_G, far_branch_level_m = 0\<rparr>
      = Inr (bound_at 0, \<lparr>buffer_m = replicate 8 0 @ bs, extensions_m = RV_G, far_branch_level_m = 0\<rparr>) \<and>
    goes bs (\<lambda>R. R A0 < R A1) (-8) {FAR_TMP}"
  using backward_branch_reaches_label [of bltu BLTU "bound_at 0"
      "\<lparr>buffer_m = replicate 8 0, extensions_m = RV_G, far_branch_level_m = 0\<rparr>" A0 A1 kFarJump]
  by (simp add: bound_at_def new_label_def IsBound_def Position_def back_distance_def back_branch_reach_def has_c_branch_def
      offset_between_def IsBTypeImm_def IsInt_iff IsAligned_def taken.simps)

text \<open>C3. Binding a label terminates and patches all branches that wait for it: the five lists of
  unresolved branches that are threaded through the code are walked to their ends, every branch on them
  then holds the encoding of the distance to the current position with its registers and function code
  unchanged, and no byte outside these branches changes.\<close>

theorem bind_patches_every_branch:
  assumes "linked_to l (buffer_m a) P" "disjoint_branches P" "length (buffer_m a) < 2 ^ 31"
    and "in_reach (Position a) P"
  shows "\<exists>buf. Bind l a = Some (Inr (bound_at (Position a), a\<lparr>buffer_m := buf\<rparr>)) \<and>
    resolved (Position a) buf P \<and> keeps_outside (all_spans P) (buffer_m a) buf"
  by (rule Bind_correct [OF assms])

theorem bind_patches_every_branch_witness:
  "\<exists>buf. Bind (new_label\<lparr>unresolved_j_m := 4\<rparr>)
       \<lparr>buffer_m = j_word ZR 0 @ j_word RA 4 @ bytes_le 4 0x13, extensions_m = RV_G, far_branch_level_m = 1\<rparr> =
     Some (Inr (bound_at 12, \<lparr>buffer_m = buf, extensions_m = RV_G, far_branch_level_m = 1\<rparr>)) \<and>
     holds buf 0 (j_word ZR 12) \<and> holds buf 4 (j_word RA 8)"
proof -
  let ?P = "\<lparr>cb_list = [], cj_list = [], b_list = [], j_list = [(4, RA), (0, ZR)], far_list = []\<rparr>"
  let ?a = "\<lparr>buffer_m = j_word ZR 0 @ j_word RA 4 @ bytes_le 4 0x13, extensions_m = RV_G, far_branch_level_m = 1\<rparr>"
  have n: "length (j_word r d) = 4" for r d by (simp add: j_word_def)
  have o: "offset_between 4 12 = 8" "offset_between 0 12 = 12" "offset_between 0 4 = 4" by (simp_all add: offset_between_def)
  have "linked_to (new_label\<lparr>unresolved_j_m := 4\<rparr>) (buffer_m ?a) ?P"
    by (simp add: linked_to_def new_label_def head_of_def holds_def nth_append n o link_offset_def
        IsJTypeImm_def IsInt_iff IsAligned_def)
  moreover have "disjoint_branches ?P" by (simp add: disjoint_branches_def span_def)
  moreover have "in_reach (Position ?a) ?P"
    by (simp add: in_reach_def Position_def n o IsJTypeImm_def IsInt_iff IsAligned_def)
  ultimately show ?thesis
    using bind_patches_every_branch [of "new_label\<lparr>unresolved_j_m := 4\<rparr>" ?a ?P] o
    by (simp add: Position_def n resolved_def) blast
qed

text \<open>C4. Binding never patches a branch with a truncated distance: if any branch that waits for
  the label is too far from the current position for its form, the operation ends with an error: FATAL if one of the
  compressed branches and jumps is too far, which are patched first, and otherwise the bailout that requests longer branches.
  The buffer is 4 KB below 2 GB, where the far form always reaches.\<close>

theorem bind_rejects_distant_branches:
  assumes "linked_to l (buffer_m a) P" "disjoint_branches P" "length (buffer_m a) < 2 ^ 31 - 4096"
    and "\<not> in_reach (Position a) P"
  shows "Bind l a = Some (Inl (if compressed_in_reach (Position a) P then BranchOffsetError else Fatal))"
  by (rule Bind_rejects [OF assms])

theorem bind_rejects_distant_branches_witness:
  "Bind (new_label\<lparr>unresolved_cj_m := 0\<rparr>)
      \<lparr>buffer_m = cj_word () 0 @ replicate 4096 0, extensions_m = RV_GC, far_branch_level_m = 0\<rparr> = Some (Inl Fatal) \<and>
   Bind (new_label\<lparr>unresolved_b_m := 0\<rparr>)
      \<lparr>buffer_m = b_word (A1, A0, BEQ) 0 @ replicate 4096 0, extensions_m = RV_GC, far_branch_level_m = 0\<rparr> = Some (Inl BranchOffsetError)"
proof (rule conjI)
  let ?P = "\<lparr>cb_list = [], cj_list = [(0, ())], b_list = [], j_list = [], far_list = []\<rparr>"
  let ?a = "\<lparr>buffer_m = cj_word () 0 @ replicate 4096 0, extensions_m = RV_GC, far_branch_level_m = 0\<rparr>"
  have n: "length (cj_word r d) = 2" "length (b_word f d) = 4" for r f d by (simp_all add: cj_word_def b_word_def split: prod.split)
  have "linked_to (new_label\<lparr>unresolved_cj_m := 0\<rparr>) (buffer_m ?a) ?P"
    by (simp add: linked_to_def new_label_def head_of_def holds_def nth_append n link_offset_def
        IsCJImm_def IsInt_iff IsAligned_def)
  moreover have "disjoint_branches ?P" by (simp add: disjoint_branches_def span_def)
  moreover have "\<not> in_reach (Position ?a) ?P" "\<not> compressed_in_reach (Position ?a) ?P"
    by (simp_all add: in_reach_def compressed_in_reach_def Position_def n IsCJImm_def IsInt_iff offset_between_def)
  ultimately show "Bind (new_label\<lparr>unresolved_cj_m := 0\<rparr>) ?a = Some (Inl Fatal)"
    using bind_rejects_distant_branches [of "new_label\<lparr>unresolved_cj_m := 0\<rparr>" ?a ?P] n by simp
  let ?P = "\<lparr>cb_list = [], cj_list = [], b_list = [(0, (A1, A0, BEQ))], j_list = [], far_list = []\<rparr>"
  let ?a = "\<lparr>buffer_m = b_word (A1, A0, BEQ) 0 @ replicate 4096 0, extensions_m = RV_GC, far_branch_level_m = 0\<rparr>"
  have "linked_to (new_label\<lparr>unresolved_b_m := 0\<rparr>) (buffer_m ?a) ?P"
    by (simp add: linked_to_def new_label_def head_of_def holds_def nth_append n link_offset_def b_fields_def IsFunct3_def
        IsBTypeImm_def IsInt_iff IsAligned_def)
  moreover have "disjoint_branches ?P" by (simp add: disjoint_branches_def span_def)
  moreover have "\<not> in_reach (Position ?a) ?P" "compressed_in_reach (Position ?a) ?P"
    by (simp_all add: in_reach_def compressed_in_reach_def Position_def n IsBTypeImm_def IsInt_iff offset_between_def)
  ultimately show "Bind (new_label\<lparr>unresolved_b_m := 0\<rparr>) ?a = Some (Inl BranchOffsetError)"
    using bind_rejects_distant_branches [of "new_label\<lparr>unresolved_b_m := 0\<rparr>" ?a ?P] n by simp
qed

text \<open>C5. The schedule that the parallel move resolver produces has the effect of the parallel move: carried out one after
  another, its moves and swaps leave in every destination the value that its source held at the start, and they leave every other location as it
  was, chains, fans and cycles of moves included. The destinations have to be distinct and must not be constants. A schedule always exists.\<close>

theorem parallel_move_schedule_correct:
  fixes s :: "'v store"
  assumes "well_formed parallel_move"
  shows "\<exists>ops. Resolve parallel_move = Some ops \<and> run_schedule ops s = parallel_assignment parallel_move s"
  using Resolve_fuel_correct [OF assms le_refl] by (auto simp: Resolve_def)

theorem parallel_move_schedule_correct_witness:
  "\<exists>ops. Resolve [\<lparr>dest_m = 8, src_m = 16\<rparr>, \<lparr>dest_m = 16, src_m = 24\<rparr>, \<lparr>dest_m = 24, src_m = 8\<rparr>, \<lparr>dest_m = 32, src_m = 8\<rparr>] = Some ops \<and>
     map (run_schedule ops (unat :: u64 \<Rightarrow> nat)) [8, 16, 24, 32, 40] = [16, 24, 8, 8, 40]"
proof -
  let ?m = "[\<lparr>dest_m = 8, src_m = 16\<rparr>, \<lparr>dest_m = 16, src_m = 24\<rparr>, \<lparr>dest_m = 24, src_m = 8\<rparr>, \<lparr>dest_m = 32, src_m = 8\<rparr>] :: MoveOperands list"
  have "well_formed ?m" by code_simp
  moreover have "map (parallel_assignment ?m (unat :: u64 \<Rightarrow> nat)) [8, 16, 24, 32, 40] = [16, 24, 8, 8, 40]" by code_simp
  ultimately show ?thesis
    using parallel_move_schedule_correct [of ?m "unat :: u64 \<Rightarrow> nat"] by auto
qed

text \<open>C6. The recursion of the resolver ends: it is never deeper than the number of moves, since each nested call marks one more move as
  pending. With any fuel of at least that many levels the resolver returns, and it returns the same schedule.\<close>

theorem parallel_move_resolution_terminates:
  assumes "well_formed parallel_move" "length parallel_move \<le> fuel"
  shows "\<exists>ops. Resolve_fuel fuel parallel_move = Some ops \<and> Resolve parallel_move = Some ops"
  using Resolve_enough [OF assms] Resolve_fuel_correct [OF assms, where 'v = unit] by auto

theorem parallel_move_resolution_terminates_witness:
  "\<exists>ops. Resolve_fuel 7 [\<lparr>dest_m = 8, src_m = 16\<rparr>, \<lparr>dest_m = 16, src_m = 8\<rparr>] = Some ops \<and>
     Resolve [\<lparr>dest_m = 8, src_m = 16\<rparr>, \<lparr>dest_m = 16, src_m = 8\<rparr>] = Some ops"
proof (rule parallel_move_resolution_terminates)
  show "well_formed [\<lparr>dest_m = 8, src_m = 16\<rparr>, \<lparr>dest_m = 16, src_m = 8\<rparr>]" by code_simp
qed simp



text \<open>C8. A comparison or test that is recorded and then consumed by a conditional branch behaves as one
  conditional jump: for registers and for constants, for all ten comparison conditions and both test
  conditions, the emitted code goes to the label exactly if the condition holds of the operands, otherwise
  it falls through, and no register changes except the two scratch registers. This holds for a
  label that is bound later, after any further code, and for one that is bound already.
  Hypotheses: if a constant other than zero is compared, or a constant is tested that is not a 12-bit immediate, a power of two or one less than a power
  of two, then the left operand is not TMP2, the constant is not one that has to be loaded from the object pool (the pool may be used, and the constant neither has 32 bits nor is a
  shifted 12-bit or upper immediate), and it is not the least integer on a processor with the single-bit extension.
  The notion of a conditional jump asks for a label within the range of every form of the branch, from every place in the emitted code:
  the compressed range for a near jump, otherwise the range of the far branch level (bound later) or all but the
  narrow window of the backward branch (bound already), in a buffer below 2 GB.\<close>

theorem conditional_branch_correct:
  assumes "answers a c"
    and "deferred_compare_m a = kCompareImm \<Longrightarrow> deferred_imm_m a \<noteq> 0 \<Longrightarrow>
      imm_ok a (deferred_imm_m a) \<and> deferred_left_m a \<noteq> TMP2"
    and "deferred_compare_m a = kTestImm \<Longrightarrow> \<not> IsITypeImm (deferred_imm_m a) \<Longrightarrow> \<not> IsPowerOfTwo (deferred_imm_m a) \<Longrightarrow>
      \<not> IsPowerOfTwo (deferred_imm_m a + 1) \<Longrightarrow> imm_ok a (deferred_imm_m a) \<and> deferred_left_m a \<noteq> TMP2"
  shows "conditional_jump a distance (\<lambda>label. BranchIf c label distance a) (\<lambda>R. R) (deferred_holds a c) {TMP2}"
proof -
  have "operand_ok a" using assms(2,3) by (auto simp: operand_ok_def loadable_def split: DeferredCompareType.split)
  then show ?thesis by (rule branch_code_jump [OF BranchIf_code [OF assms(1)]])
qed

theorem conditional_branch_correct_witness:
  "conditional_jump (CompareImmediate A0 5000 kEightBytes (sample_assembler RV_GC)) kFarJump
     (\<lambda>label. BranchIf UNSIGNED_GREATER label kFarJump (CompareImmediate A0 5000 kEightBytes (sample_assembler RV_GC)))
     (\<lambda>R. R) (\<lambda>R. 5000 < R A0) {TMP2} \<and>
   conditional_jump (TestImmediate A1 0x10000 kEightBytes (sample_assembler RV_GC)) kNearJump
     (\<lambda>label. BranchIf ZERO label kNearJump (TestImmediate A1 0x10000 kEightBytes (sample_assembler RV_GC)))
     (\<lambda>R. R) (\<lambda>R. R A1 AND 0x10000 = 0) {TMP2}"
proof (rule conjI)
  let ?a = "CompareImmediate A0 5000 kEightBytes (sample_assembler RV_GC)"
  have "answers ?a UNSIGNED_GREATER" "imm_ok ?a (deferred_imm_m ?a) \<and> deferred_left_m ?a \<noteq> TMP2"
    "deferred_compare_m ?a = kCompareImm" "deferred_holds ?a UNSIGNED_GREATER = (\<lambda>R. 5000 < R A0)"
    by (simp_all add: CompareImmediate_def answers_def comparison_def imm_ok_def not_pooled_def sample_assembler_def
        deferred_holds_def compare_holds_def fun_eq_iff)
  then show "conditional_jump ?a kFarJump (\<lambda>label. BranchIf UNSIGNED_GREATER label kFarJump ?a) (\<lambda>R. R) (\<lambda>R. 5000 < R A0) {TMP2}"
    using conditional_branch_correct [of ?a UNSIGNED_GREATER kFarJump] by simp
  let ?b = "TestImmediate A1 0x10000 kEightBytes (sample_assembler RV_GC)"
  have "answers ?b ZERO" "imm_ok ?b (deferred_imm_m ?b) \<and> deferred_left_m ?b \<noteq> TMP2"
    "deferred_compare_m ?b = kTestImm" "deferred_holds ?b ZERO = (\<lambda>R. R A1 AND 0x10000 = 0)"
    by (simp_all add: TestImmediate_def answers_def test_condition_def imm_ok_def not_pooled_def sample_assembler_def
        deferred_holds_def test_holds_def fun_eq_iff)
  then show "conditional_jump ?b kNearJump (\<lambda>label. BranchIf ZERO label kNearJump ?b) (\<lambda>R. R) (\<lambda>R. R A1 AND 0x10000 = 0) {TMP2}"
    using conditional_branch_correct [of ?b ZERO kNearJump] by simp
qed

text \<open>C9. The other two consumers of a recorded comparison: the conditional set leaves one in its destination if
  the condition holds and zero otherwise, the conditional zero leaves zero if it holds and the given
  register otherwise. They succeed on every condition that the comparison answers, consume the comparison and change
  only the destination and one scratch register. Hypotheses: the destination is not the zero register; the other operand of
  the conditional zero is neither the destination nor TMP2; a constant in a comparison is not -2048 for equality or inequality, where the code needs the constant 2048 as a 12-bit immediate,
  and not -1 for "unsigned less or equal" and "unsigned greater", where the code adds one to the constant; and the left operand is not TMP2 and the constant is neither taken from the object pool nor the least integer with the single-bit
  extension, if a constant other than zero is compared or a constant is tested that is not a 12-bit immediate, a power of two or one less.\<close>

theorem conditional_set_and_zero_correct:
  assumes "answers a c" "rd \<noteq> ZR" "otherwise \<notin> {rd, TMP2}"
    and "deferred_compare_m a = kCompareImm \<Longrightarrow> deferred_imm_m a \<noteq> 0 \<Longrightarrow>
      imm_ok a (deferred_imm_m a) \<and> deferred_left_m a \<noteq> TMP2"
    and "deferred_compare_m a = kTestImm \<Longrightarrow> \<not> IsITypeImm (deferred_imm_m a) \<Longrightarrow> \<not> IsPowerOfTwo (deferred_imm_m a) \<Longrightarrow>
      \<not> IsPowerOfTwo (deferred_imm_m a + 1) \<Longrightarrow> imm_ok a (deferred_imm_m a) \<and> deferred_left_m a \<noteq> TMP2"
    and "deferred_compare_m a = kCompareImm \<Longrightarrow> \<not> (deferred_imm_m a = - 2048 \<and> (c = EQUAL \<or> c = NOT_EQUAL)) \<and>
      \<not> (deferred_imm_m a = - 1 \<and> (c = UNSIGNED_LESS_EQUAL \<or> c = UNSIGNED_GREATER))"
  shows "sets a (SetIf c rd a) rd (\<lambda>R. if deferred_holds a c R then 1 else 0) {TMP2} \<and>
    sets a (ZeroIf c rd otherwise a) rd (\<lambda>R. if deferred_holds a c R then 0 else R otherwise) {TMP2}"
proof -
  have ok: "operand_ok a" using assms(4,5) by (auto simp: operand_ok_def loadable_def split: DeferredCompareType.split)
  have ex: "deferred_compare_m a = kCompareImm \<Longrightarrow> imm_exact c (deferred_imm_m a)" using assms(6) by (simp add: imm_exact_def)
  show ?thesis using SetIf_sets [OF assms(1) ok assms(2) ex] ZeroIf_sets [OF assms(1) ok assms(2,3) ex] by blast
qed

theorem conditional_set_and_zero_correct_witness:
  "sets (CompareImmediate A1 7 kEightBytes (sample_assembler RV_GC)) (SetIf LESS_EQUAL A0 (CompareImmediate A1 7 kEightBytes (sample_assembler RV_GC))) A0
     (\<lambda>R. if sint (R A1) \<le> 7 then 1 else 0) {TMP2} \<and>
   sets (CompareImmediate A1 7 kEightBytes (sample_assembler RV_GC)) (ZeroIf LESS_EQUAL A0 A2 (CompareImmediate A1 7 kEightBytes (sample_assembler RV_GC))) A0
     (\<lambda>R. if sint (R A1) \<le> 7 then 0 else R A2) {TMP2}"
proof -
  let ?a = "CompareImmediate A1 7 kEightBytes (sample_assembler RV_GC)"
  have "answers ?a LESS_EQUAL" "imm_ok ?a (deferred_imm_m ?a) \<and> deferred_left_m ?a \<noteq> TMP2"
    "deferred_compare_m ?a = kCompareImm" "deferred_holds ?a LESS_EQUAL = (\<lambda>R. sint (R A1) \<le> 7)"
    by (simp_all add: CompareImmediate_def answers_def comparison_def imm_ok_def not_pooled_def sample_assembler_def
        deferred_holds_def compare_holds_def fun_eq_iff)
  then show ?thesis using conditional_set_and_zero_correct [of ?a LESS_EQUAL A0 A2] by simp
qed

text \<open>C10. Adding, multiplying and, for three different registers, subtracting with a branch on overflow: the
  destination receives the result modulo 2 to the 64, and control goes to the label exactly if the
  mathematical result is not a signed 64-bit number. Addition and multiplication are right whichever of the operands is
  the destination. No operand is a scratch register and the destination is not the zero register. With a constant operand the same holds of the product if the constant is neither taken from the object
  pool nor the least integer with the single-bit extension, and of the sum with a constant other than zero if the constant is a 12-bit immediate, or the
  destination is not the source and the constant is again of that kind.\<close>

theorem overflow_branches_correct:
  assumes "rd \<notin> {ZR, TMP, TMP2}" "rs1 \<notin> {TMP, TMP2}" "rs2 \<notin> {TMP, TMP2}"
  shows "conditional_jump a kFarJump (\<lambda>label. AddBranchOverflow rd rs1 rs2 label a) (\<lambda>R. wr rd (R rs1 + R rs2) R)
      (\<lambda>R. signed_overflow (sint (R rs1) + sint (R rs2))) {TMP, TMP2} \<and>
    conditional_jump a kFarJump (\<lambda>label. MultiplyBranchOverflow rd rs1 rs2 label a) (\<lambda>R. wr rd (R rs1 * R rs2) R)
      (\<lambda>R. signed_overflow (sint (R rs1) * sint (R rs2))) {TMP, TMP2} \<and>
    (imm_ok a imm \<longrightarrow>
      conditional_jump a kFarJump (\<lambda>label. MultiplyImmediateBranchOverflow rd rs1 imm label a) (\<lambda>R. wr rd (R rs1 * imm) R)
        (\<lambda>R. signed_overflow (sint (R rs1) * sint imm)) {TMP, TMP2}) \<and>
    (rd \<noteq> rs1 \<and> rd \<noteq> rs2 \<and> rs1 \<noteq> rs2 \<longrightarrow>
      conditional_jump a kFarJump (\<lambda>label. SubtractBranchOverflow rd rs1 rs2 label a) (\<lambda>R. wr rd (R rs1 - R rs2) R)
        (\<lambda>R. signed_overflow (sint (R rs1) - sint (R rs2))) {TMP, TMP2}) \<and>
    (imm \<noteq> 0 \<and> (IsITypeImm imm \<or> rd \<noteq> rs1 \<and> imm_ok a imm) \<longrightarrow>
      conditional_jump a kFarJump (\<lambda>label. AddImmediateBranchOverflow rd rs1 imm label a) (\<lambda>R. wr rd (R rs1 + imm) R)
        (\<lambda>R. signed_overflow (sint (R rs1) + sint imm)) {TMP2})"
proof -
  have "conditional_jump a kFarJump (\<lambda>label. SubtractBranchOverflow rd rs1 rs2 label a) (\<lambda>R. wr rd (R rs1 - R rs2) R)
      (\<lambda>R. signed_overflow (sint (R rs1) - sint (R rs2))) {TMP, TMP2}" if "rd \<noteq> rs1 \<and> rd \<noteq> rs2 \<and> rs1 \<noteq> rs2"
    using that branch_code_jump [OF SubtractBranchOverflow_code [OF assms(1-3), of a]] by (simp add: subtract_branches_def)
  moreover have "conditional_jump a kFarJump (\<lambda>label. AddImmediateBranchOverflow rd rs1 imm label a) (\<lambda>R. wr rd (R rs1 + imm) R)
      (\<lambda>R. signed_overflow (sint (R rs1) + sint imm)) {TMP2}" if "imm \<noteq> 0 \<and> (IsITypeImm imm \<or> rd \<noteq> rs1 \<and> imm_ok a imm)"
    using that assms branch_code_jump [OF AddImmediateBranchOverflow_code [of rd rs1 imm a]] by (auto simp: add_immediate_branches_def)
  ultimately show ?thesis
    using branch_code_jump [OF AddBranchOverflow_code [OF assms(1-3), of a]] branch_code_jump [OF MultiplyBranchOverflow_code [OF assms(1-3), of a]]
      branch_code_jump [OF MultiplyImmediateBranchOverflow_code [OF assms(1,2), of a imm]] by blast
qed

theorem overflow_branches_correct_witness:
  "conditional_jump (sample_assembler RV_GC) kFarJump (\<lambda>label. AddBranchOverflow A0 A0 A1 label (sample_assembler RV_GC)) (\<lambda>R. wr A0 (R A0 + R A1) R)
     (\<lambda>R. signed_overflow (sint (R A0) + sint (R A1))) {TMP, TMP2} \<and>
   conditional_jump (sample_assembler RV_GC) kFarJump (\<lambda>label. AddImmediateBranchOverflow A0 A1 100000 label (sample_assembler RV_GC))
     (\<lambda>R. wr A0 (R A1 + 100000) R) (\<lambda>R. signed_overflow (sint (R A1) + 100000)) {TMP2} \<and>
   conditional_jump (sample_assembler RV_GC) kFarJump (\<lambda>label. SubtractBranchOverflow A0 A1 A2 label (sample_assembler RV_GC)) (\<lambda>R. wr A0 (R A1 - R A2) R)
     (\<lambda>R. signed_overflow (sint (R A1) - sint (R A2))) {TMP, TMP2}"
  using overflow_branches_correct [of A0 A0 A1 "sample_assembler RV_GC" 100000] overflow_branches_correct [of A0 A1 A2 "sample_assembler RV_GC" 100000]
  by (simp add: imm_ok_def not_pooled_def sample_assembler_def)

text \<open>C11. Where a source is also the destination, or both sources are the same register, subtraction with a branch on overflow goes to the
  overflow label without an overflow: for 1 - 3 with the destination in the first source, for 3 - 1 with the
  destination in the second, and for every difference of a negative number with itself. Addition of a
  constant that needs a scratch register does so too if the source is the destination: for -1 + 4096.\<close>

theorem aliased_overflow_branches_wrong:
  "conditional_jump (a :: 'o Assembler) kFarJump (\<lambda>label. SubtractBranchOverflow A0 A0 A1 label a) (\<lambda>R. wr A0 (R A0 - R A1) R)
      (\<lambda>R. subtract_branches A0 A0 A1 (R A0) (R A1)) {TMP, TMP2} \<and> subtract_branches A0 A0 A1 1 3 \<and>
   conditional_jump a kFarJump (\<lambda>label. SubtractBranchOverflow A0 A1 A0 label a) (\<lambda>R. wr A0 (R A1 - R A0) R)
      (\<lambda>R. subtract_branches A0 A1 A0 (R A1) (R A0)) {TMP, TMP2} \<and> subtract_branches A0 A1 A0 3 1 \<and>
   conditional_jump a kFarJump (\<lambda>label. SubtractBranchOverflow A0 A1 A1 label a) (\<lambda>R. wr A0 0 R)
      (\<lambda>R. sint (R A1) < 0) {TMP, TMP2} \<and>
   conditional_jump (sample_assembler RV_GC) kFarJump (\<lambda>label. AddImmediateBranchOverflow A0 A0 4096 label (sample_assembler RV_GC))
      (\<lambda>R. wr A0 (R A0 + 4096) R) (\<lambda>R. add_immediate_branches A0 A0 4096 (R A0)) {TMP2} \<and> add_immediate_branches A0 A0 4096 (- 1) \<and>
   \<not> signed_overflow (1 - 3) \<and> \<not> signed_overflow (3 - 1) \<and> \<not> signed_overflow (x - x) \<and> \<not> signed_overflow (- 1 + 4096)"
proof -
  have sub: "conditional_jump a kFarJump (\<lambda>label. SubtractBranchOverflow A0 rs1 rs2 label a) (\<lambda>R. wr A0 (R rs1 - R rs2) R)
      (\<lambda>R. subtract_branches A0 rs1 rs2 (R rs1) (R rs2)) {TMP, TMP2}" if "rs1 \<in> {A0, A1}" "rs2 \<in> {A0, A1}" for rs1 rs2
    by (rule branch_code_jump [OF SubtractBranchOverflow_code]) (use that in auto)
  have "conditional_jump (sample_assembler RV_GC) kFarJump (\<lambda>label. AddImmediateBranchOverflow A0 A0 4096 label (sample_assembler RV_GC))
      (\<lambda>R. wr A0 (R A0 + 4096) R) (\<lambda>R. add_immediate_branches A0 A0 4096 (R A0)) {TMP2}"
    by (rule branch_code_jump [OF AddImmediateBranchOverflow_code]) (simp_all add: imm_ok_def not_pooled_def sample_assembler_def)
  moreover have "add_immediate_branches A0 A0 4096 (- 1)" by (simp add: add_immediate_branches_def IsITypeImm_iff)
  moreover have "subtract_branches A0 A0 A1 1 3" "subtract_branches A0 A1 A0 3 1" by (simp_all add: subtract_branches_def)
  moreover have "conditional_jump a kFarJump (\<lambda>label. SubtractBranchOverflow A0 A1 A1 label a) (\<lambda>R. wr A0 0 R) (\<lambda>R. sint (R A1) < 0) {TMP, TMP2}"
    using sub [of A1 A1] by (simp add: subtract_branches_def)
  ultimately show ?thesis using sub [of A0 A1] sub [of A1 A0] by (simp add: signed_overflow_def)
qed

text \<open>C12. After a comparison with the constant -1, the largest unsigned number, the conditional set for "unsigned less or
  equal" always yields zero, although the condition always holds: the code adds one to the constant, which
  wraps around to zero.\<close>

theorem unsigned_set_after_minus_one_wrong:
  assumes "rd \<noteq> ZR"
  shows "sets a (SetIf UNSIGNED_LESS_EQUAL rd (CompareImmediate rn (- 1) sz a)) rd (\<lambda>R. 0) {} \<and>
    (\<forall>R. deferred_holds (CompareImmediate rn (- 1) sz a) UNSIGNED_LESS_EQUAL R)"
  using SetIf_minus_one [OF assms] by (simp add: deferred_holds_def CompareImmediate_def compare_holds_def)

theorem unsigned_set_after_minus_one_wrong_witness:
  "sets (sample_assembler RV_GC) (SetIf UNSIGNED_LESS_EQUAL A0 (CompareImmediate A1 (- 1) kEightBytes (sample_assembler RV_GC))) A0 (\<lambda>R. 0) {}"
  using unsigned_set_after_minus_one_wrong [of A0 "sample_assembler RV_GC" A1 kEightBytes] by simp

text \<open>C13. The range check, one subtraction and one unsigned comparison, decides membership in the signed interval from the
  lower to the upper bound, for every pair of ordered 64-bit bounds, also where their difference exceeds the
  signed range: control goes to the label exactly if the value is in the range, or exactly if it is not,
  as requested. The value survives if another register is given as a temporary. The register that is compared is neither the zero register nor TMP2, the value is not in
  TMP2, and the two constants that the code needs, the negated lower bound and the difference of the bounds, are neither taken from the object pool (the pool may be used, and the constant neither has
  32 bits nor is a shifted 12-bit or upper immediate) nor the least integer on a processor with the single-bit extension.\<close>

theorem range_check_correct:
  assumes "to_check = (case temp of Some t \<Rightarrow> t | None \<Rightarrow> value)" "to_check \<notin> {ZR, TMP2}" "value \<noteq> TMP2"
    and "imm_ok a (- low)" "imm_ok a (high - low)" "sint low \<le> sint high"
  shows "conditional_jump a kFarJump (\<lambda>label. RangeCheck value temp low high condition label a) (\<lambda>R. wr to_check (R value - low) R)
    (\<lambda>R. (sint low \<le> sint (R value) \<and> sint (R value) \<le> sint high) = (condition = kIfInRange)) {TMP2}"
  by (rule branch_code_jump [OF RangeCheck_code [OF assms]])

theorem range_check_correct_witness:
  "conditional_jump (sample_assembler RV_GC) kFarJump (\<lambda>label. RangeCheck A0 (Some A1) (- 5) 300 kIfNotInRange label (sample_assembler RV_GC))
     (\<lambda>R. wr A1 (R A0 + 5) R) (\<lambda>R. \<not> (- 5 \<le> sint (R A0) \<and> sint (R A0) \<le> 300)) {TMP2}"
  using range_check_correct [of A1 A0 "Some A1" "sample_assembler RV_GC" "- 5" 300 kIfNotInRange]
  by (simp add: imm_ok_def not_pooled_def sample_assembler_def)

text \<open>C14. The macro that counts leading zeroes is the same function with and without the bit-manipulation extension: the
  single instruction, or the binary search over shifts and branches that replaces it, puts the number of leading zero bits of rs into rd, 64 for zero.
  The code is at most 124 bytes, runs to its end, and changes no other registers than rs and the three temporaries.\<close>

theorem count_leading_zeroes_correct:
  assumes "rs \<notin> {ZR, TMP, TMP2, FAR_TMP}" "rd \<notin> {ZR, TMP, TMP2, FAR_TMP}" "length (buffer_m a) + 124 < 2 ^ 31"
  shows "\<exists>a' bs. CountLeadingZeroes rd rs a = Some (Inr a') \<and> buffer_m a' = buffer_m a @ bs \<and> length bs \<le> 124 \<and>
    (\<forall>h s. code_at bs (host_m (memory_m s)) (pc_m s) \<and> zr_zero s \<and> \<not> lp_enabled_m s \<longrightarrow>
      (\<exists>n R. run h n s = Inr (s\<lparr>pc_m := pc_m s + of_nat (length bs), xregs_m := R, instret_m := instret_m s + of_nat n\<rparr>) \<and>
        R rd = of_nat (countl_zero (xregs_m s rs)) \<and> (\<forall>r. r \<notin> {rd, rs, TMP, TMP2, FAR_TMP} \<longrightarrow> R r = xregs_m s r)))"
proof -
  obtain a' bs where code: "CountLeadingZeroes rd rs a = Some (Inr a')" "buffer_m a' = buffer_m a @ bs" "length bs \<le> 124"
    and runs: "transfers bs (\<lambda>R. wr rd (sim_clz (R rs)) R) (\<lambda>_. False) 0 ({rs, TMP, TMP2, FAR_TMP} - {rd})"
    using CountLeadingZeroes_block [OF assms] by (auto simp: block_def)
  have "\<exists>n R. run h n s = Inr (s\<lparr>pc_m := pc_m s + of_nat (length bs), xregs_m := R, instret_m := instret_m s + of_nat n\<rparr>) \<and>
      R rd = of_nat (countl_zero (xregs_m s rs)) \<and> (\<forall>r. r \<notin> {rd, rs, TMP, TMP2, FAR_TMP} \<longrightarrow> R r = xregs_m s r)"
    if s: "code_at bs (host_m (memory_m s)) (pc_m s)" "zr_zero s" "\<not> lp_enabled_m s" for h s
  proof -
    obtain n R where "run h n s = Inr (s\<lparr>pc_m := pc_m s + of_nat (length bs), xregs_m := R, instret_m := instret_m s + of_nat n\<rparr>)"
      and R: "\<forall>r. r \<notin> {rs, TMP, TMP2, FAR_TMP} - {rd} \<longrightarrow> R r = wr rd (sim_clz (xregs_m s rs)) (xregs_m s) r"
      by (rule transfers_endE [OF runs s, where h = h])
    moreover have "R rd = of_nat (countl_zero (xregs_m s rs))"
      using R [rule_format, of rd] assms(2) by (simp add: wr_def sim_clz_def)
    moreover have "\<forall>r. r \<notin> {rd, rs, TMP, TMP2, FAR_TMP} \<longrightarrow> R r = xregs_m s r"
      using R by (auto simp: wr_def)
    ultimately show ?thesis by blast
  qed
  then show ?thesis
    using code by blast
qed

theorem count_leading_zeroes_correct_witness:
  "\<exists>a' bs. CountLeadingZeroes A0 A1 (sample_assembler RV_G) = Some (Inr a') \<and> buffer_m a' = bs \<and> length bs \<le> 124 \<and>
    (\<forall>h s. code_at bs (host_m (memory_m s)) (pc_m s) \<and> zr_zero s \<and> \<not> lp_enabled_m s \<and> xregs_m s A1 = 5 \<longrightarrow>
      (\<exists>n s'. run h n s = Inr s' \<and> xregs_m s' A0 = 61))"
proof -
  have *: "A1 \<notin> {ZR, TMP, TMP2, FAR_TMP}" "A0 \<notin> {ZR, TMP, TMP2, FAR_TMP}" "length (buffer_m (sample_assembler RV_G)) + 124 < 2 ^ 31"
    by (simp_all add: sample_assembler_def)
  have "countl_zero (5 :: u64) = 61" by code_simp
  then show ?thesis
    using count_leading_zeroes_correct [OF *] by (fastforce simp: sample_assembler_def)
qed

text \<open>C15. The three-register arithmetic instructions of the assembler (the base integer set, multiplication and division, address generation,
  the bit-manipulation instructions, the carry-less products and the conditional zeros; 55 in all) compute on the
  simulator the functions that are written out below: whatever encoding the assembler chooses (compressed, commuted, or the full 32-bit word),
  running the emitted bytes sets rd to the function of rs1 and rs2, leaves every other register, the memory
  and the control state alone, keeps x0 zero, and retires at the next instruction. The functions are those of the instruction set, not the helpers of the
  simulator: exact products and their upper halves, quotients rounded toward zero with the results for a zero divisor, rotations, single bits at
  a position modulo 64, and the bits of the product of polynomials over the field with two elements.\<close>

theorem register_instructions_correct:
  "list_all (\<lambda>(emit, f). \<forall>a rd rs1 rs2. computes a (emit rd rs1 rs2 a) (\<lambda>R. wr rd (f (R rs1) (R rs2)) R))
    [(add, \<lambda>x y. x + y), (sub, \<lambda>x y. x - y), (and_r, \<lambda>x y. x AND y), (or_r, \<lambda>x y. x OR y), (xor_r, \<lambda>x y. x XOR y),
     (sll, \<lambda>x y. push_bit (unat (y AND 63)) x), (srl, \<lambda>x y. drop_bit (unat (y AND 63)) x),
     (sra, \<lambda>x y. signed_drop_bit (unat (y AND 63)) x),
     (slt, \<lambda>x y. if sint x < sint y then 1 else 0), (sltu, \<lambda>x y. if x < y then 1 else 0),
     (addw, \<lambda>x y. sign_extend (ucast x + ucast y)), (subw, \<lambda>x y. sign_extend (ucast x - ucast y)),
     (sllw, \<lambda>x y. sign_extend (push_bit (unat (y AND 31)) (ucast x))),
     (srlw, \<lambda>x y. sign_extend (drop_bit (unat (y AND 31)) (ucast x))),
     (sraw, \<lambda>x y. sign_extend (signed_drop_bit (unat (y AND 31)) (ucast x))),
     (mul, \<lambda>x y. x * y), (mulh, \<lambda>x y. word_of_int (sint x * sint y div 2 ^ 64)),
     (mulhsu, \<lambda>x y. word_of_int (sint x * uint y div 2 ^ 64)), (mulhu, \<lambda>x y. word_of_int (uint x * uint y div 2 ^ 64)),
     (div_r, \<lambda>x y. if y = 0 then - 1 else word_of_int (sint x sdiv sint y)), (divu, \<lambda>x y. if y = 0 then - 1 else x div y),
     (rem_r, \<lambda>x y. if y = 0 then x else word_of_int (sint x smod sint y)), (remu, \<lambda>x y. x mod y),
     (mulw, \<lambda>x y. sign_extend (ucast x * ucast y)),
     (divw, \<lambda>x y. sign_extend (if ucast y = (0 :: u32) then - 1 else word_of_int (sint (ucast x :: u32) sdiv sint (ucast y :: u32)))),
     (divuw, \<lambda>x y. sign_extend (if ucast y = (0 :: u32) then - 1 else ucast x div ucast y)),
     (remw, \<lambda>x y. sign_extend (if ucast y = (0 :: u32) then ucast x else word_of_int (sint (ucast x :: u32) smod sint (ucast y :: u32)))),
     (remuw, \<lambda>x y. sign_extend (ucast x mod ucast y)),
     (max_r, \<lambda>x y. if sint x > sint y then x else y), (maxu, \<lambda>x y. max x y),
     (min_r, \<lambda>x y. if sint x < sint y then x else y), (minu, \<lambda>x y. min x y),
     (rol, \<lambda>x y. word_rotl (unat y mod 64) x), (rolw, \<lambda>x y. scast (word_rotl (unat y mod 32) (ucast x :: u32))),
     (ror, \<lambda>x y. word_rotr (unat y mod 64) x), (rorw, \<lambda>x y. scast (word_rotr (unat y mod 32) (ucast x :: u32))),
     (clmul, \<lambda>x y. horner_sum of_bool 2 (map (clmul_bit x y) [0..<64])),
     (clmulh, \<lambda>x y. horner_sum of_bool 2 (map (clmul_bit x y) [64..<128])),
     (clmulr, \<lambda>x y. horner_sum of_bool 2 (map (clmul_bit x y) [63..<127])),
     (bclr, \<lambda>x y. unset_bit (unat y mod 64) x), (bext, \<lambda>x y. of_bool (bit x (unat y mod 64))),
     (binv, \<lambda>x y. flip_bit (unat y mod 64) x), (bset, \<lambda>x y. set_bit (unat y mod 64) x),
     (sh1add, \<lambda>x y. 2 * x + y), (sh2add, \<lambda>x y. 4 * x + y), (sh3add, \<lambda>x y. 8 * x + y),
     (adduw, \<lambda>x y. take_bit 32 x + y), (sh1adduw, \<lambda>x y. 2 * take_bit 32 x + y), (sh2adduw, \<lambda>x y. 4 * take_bit 32 x + y),
     (sh3adduw, \<lambda>x y. 8 * take_bit 32 x + y), (andn, \<lambda>x y. x AND NOT y), (orn, \<lambda>x y. x OR NOT y), (xnor, \<lambda>x y. x XOR NOT y),
     (czeroeqz, \<lambda>x y. if y = 0 then 0 else x), (czeronez, \<lambda>x y. if y \<noteq> 0 then 0 else x)]"
proof -
  have s: "2 * x = push_bit 1 x" "4 * x = push_bit 2 x" "8 * x = push_bit 3 x" "take_bit 32 x = ucast (ucast x :: u32)" for x :: u64
    by (simp_all add: push_bit_eq_mult ucast_ucast_32)
  note functional = mul_i.correct mulh_i.correct mulhsu_i.correct mulhu_i.correct div_r_i.correct divu_i.correct rem_r_i.correct
    remu_i.correct mulw_i.correct divw_i.correct divuw_i.correct remw_i.correct remuw_i.correct max_r_i.correct maxu_i.correct
    min_r_i.correct minu_i.correct rol_i.correct rolw_i.correct ror_i.correct rorw_i.correct clmul_i.correct clmulh_i.correct
    clmulr_i.correct bclr_i.correct bext_i.correct binv_i.correct bset_i.correct
  show ?thesis
    unfolding list.pred_inject(2) prod.case s
    by (intro conjI allI list.pred_inject(1) add_i.correct sub_i.correct and_r_i.correct or_r_i.correct xor_r_i.correct sll_i.correct
        srl_i.correct sra_i.correct slt_i.correct sltu_i.correct addw_i.correct subw_i.correct sllw_i.correct
        srlw_i.correct sraw_i.correct functional [unfolded sim_functions] sh1add_i.correct sh2add_i.correct sh3add_i.correct
        adduw_i.correct sh1adduw_i.correct sh2adduw_i.correct sh3adduw_i.correct andn_i.correct
        orn_i.correct xnor_i.correct czeroeqz_i.correct czeronez_i.correct)
qed

text \<open>C16. Every integer load and store of the assembler accesses base plus offset with its size on the simulator,
  for every offset of the encoding and every choice of compressed form: a load writes the sign-extended or
  zero-extended value to rd, a store writes the low bytes of its register through the simulator memory.\<close>

theorem memory_instructions_correct:
  "(IsITypeImm (addr_offset addr) \<longrightarrow>
      list_all (\<lambda>(emit, n, f). \<forall>(a :: 'z MicroAssembler_scheme) rd. performs a (emit rd addr a) (loads n f rd addr))
        [(lb, 1, sext 1), (lh, 2, sext 2), (lw, 4, sext 4), (lbu, 1, id), (lhu, 2, id), (lwu, 4, id), (ld, 8, id)]) \<and>
   (IsSTypeImm (addr_offset addr) \<longrightarrow>
      list_all (\<lambda>(emit, n). \<forall>(a :: 'z MicroAssembler_scheme) rs2. performs a (emit rs2 addr a) (stores n rs2 addr))
        [(sb, 1), (sh, 2), (sw, 4), (sd, 8)])"
  unfolding list.pred_inject(2) prod.case
  by (intro conjI allI impI list.pred_inject(1) lb_i.correct lh_i.correct lw_i.correct lbu_i.correct lhu_i.correct lwu_i.correct
      ld_i.correct sb_i.correct sh_i.correct sw_i.correct sd_i.correct)

theorem memory_instructions_correct_witness:
  "\<forall>a :: MicroAssembler. performs a (ld A0 (Address SP 16) a) (loads 8 id A0 (Address SP 16)) \<and>
   performs a (sw A1 (Address A0 (-4)) a) (stores 4 A1 (Address A0 (-4)))"
  using memory_instructions_correct [where 'z = unit, of "Address SP 16"] memory_instructions_correct [where 'z = unit, of "Address A0 (-4)"]
  by (simp add: IsITypeImm_def IsSTypeImm_def IsInt_iff del: One_nat_def)

text \<open>C17. LoadImmediate materialises every 64-bit constant: the recursion terminates, and the emitted
  sequence of lui, addi, addiw, slli and bseti, in compressed or full encodings, sets exactly the target
  register to exactly the constant. The hypotheses exclude the constant pool, which is then not used, and
  the one constant that the single-bit shortcut gets wrong.\<close>

theorem load_immediate_correct:
  assumes "\<not> constant_pool_allowed_m a" "\<not> (Supports a RV_Zbs \<and> imm = 0x8000000000000000)"
  shows "\<exists>a'. LoadImmediate reg imm a = Inr a' \<and> computes a a' (\<lambda>R. wr reg imm R)"
  by (rule LoadImmediate_correct) (use assms in \<open>simp add: imm_ok_def not_pooled_def\<close>)

theorem load_immediate_correct_witness:
  "\<exists>a'. LoadImmediate A0 0x123456789ABCDEF0 (sample_assembler RV_GC) = Inr a' \<and>
     computes (sample_assembler RV_GC) a' (\<lambda>R. wr A0 0x123456789ABCDEF0 R)"
  by (rule load_immediate_correct) (simp_all add: sample_assembler_def)

text \<open>C18. With the single-bit extension and without use of the constant pool, LoadImmediate of the
  smallest 64-bit integer loads 1. The value is a power of two as an unsigned number, and the shift is
  computed by a loop over the signed value, which ends at once for a negative number and returns 0.\<close>

theorem load_immediate_min_int_wrong:
  assumes "Supports a RV_Zbs" "reg \<noteq> ZR"
  shows "\<exists>a'. LoadImmediate reg 0x8000000000000000 a = Inr a' \<and> computes a a' (\<lambda>R. wr reg 1 R)"
proof -
  have p: "IsPowerOfTwo (0x8000000000000000 :: u64)" by (subst IsPowerOfTwo_iff) (intro exI [of _ 63], simp)
  have "LoadImmediate reg 0x8000000000000000 a = Inr (bseti reg ZR 0 a)"
    by (subst LoadImmediate.simps) (simp add: IsInt_iff assms(1) p ShiftForPowerOfTwo_signed.simps)
  then show ?thesis
    using computes_cong [OF bseti_i.correct [of 0 a reg ZR], of "\<lambda>R. wr reg 1 R"]
    by (simp add: sim_bset_def)
qed

theorem load_immediate_min_int_wrong_witness:
  "\<exists>a'. LoadImmediate A0 0x8000000000000000 (sample_assembler (ExtensionSet_of RV_Zbs)) = Inr a' \<and>
     computes (sample_assembler (ExtensionSet_of RV_Zbs)) a' (\<lambda>R. wr A0 1 R)"
  by (rule load_immediate_min_int_wrong)
    (simp_all add: sample_assembler_def Supports_def ExtensionSet_Includes_def ExtensionSet_of_def)

text \<open>C19. The macro instructions with a constant operand are right in each of their forms: adding,
  and-ing, or-ing, xor-ing or multiplying by a constant gives the 64-bit result in rd whether the code
  uses the immediate form, a shift, a bit-field extraction, a single-bit instruction, or
  materialises the constant in a scratch register, and only that scratch register is clobbered. The source is not a scratch register. Excluded are the constants
  that have to be loaded from the object pool (the pool may be used, and the constant neither has 32 bits nor is a shifted 12-bit or upper immediate); for adding and and-ing the
  least 64-bit integer on a processor with the single-bit extension; and for multiplying the least integer, and 1, for which the code asks for a shift by zero against an assertion of the shift instruction.\<close>

theorem immediate_macros_correct:
  assumes "not_pooled a imm" "rs1 \<noteq> TMP" "rs1 \<noteq> TMP2"
  shows "(imm_ok a imm \<longrightarrow>
      writes a (RiscvCodegen.AddImmediate rd rs1 imm kEightBytes a) rd (\<lambda>R. R rs1 + imm) {TMP2} \<and>
      writes a (AndImmediate rd rs1 imm kEightBytes a) rd (\<lambda>R. R rs1 AND imm) {TMP2}) \<and>
    writes a (OrImmediate rd rs1 imm a) rd (\<lambda>R. R rs1 OR imm) {TMP2} \<and>
    writes a (XorImmediate rd rs1 imm a) rd (\<lambda>R. R rs1 XOR imm) {TMP2} \<and>
    (imm \<noteq> 1 \<and> imm \<noteq> 0x8000000000000000 \<longrightarrow>
      writes a (MulImmediate rd rs1 imm kEightBytes a) rd (\<lambda>R. R rs1 * imm) {TMP})"
proof -
  have "writes a (RiscvCodegen.AddImmediate rd rs1 imm kEightBytes a) rd (\<lambda>R. R rs1 + imm) {TMP2}" if "imm_ok a imm"
    using AddImmediate_writes [of imm a rs1 rd kEightBytes] that assms by simp
  moreover have "writes a (AndImmediate rd rs1 imm kEightBytes a) rd (\<lambda>R. R rs1 AND imm) {TMP2}" if "imm_ok a imm"
    using AndImmediate_writes [of kEightBytes imm a rs1 "{TMP2}" rd] that assms by (simp add: and_mask_def)
  moreover have "writes a (OrImmediate rd rs1 imm a) rd (\<lambda>R. R rs1 OR imm) {TMP2}"
    "writes a (XorImmediate rd rs1 imm a) rd (\<lambda>R. R rs1 XOR imm) {TMP2}"
    using OrImmediate_writes [of imm a rs1 rd] XorImmediate_writes [of imm a rs1 rd] assms by simp_all
  moreover have "writes a (MulImmediate rd rs1 imm kEightBytes a) rd (\<lambda>R. R rs1 * imm) {TMP}" if "imm \<noteq> 0x8000000000000000"
    using MulImmediate_writes [of kEightBytes imm a rs1 rd] that assms by simp
  ultimately show ?thesis by blast
qed

theorem immediate_macros_correct_witness:
  "writes (sample_assembler RV_GC) (MulImmediate A0 A1 10 kEightBytes (sample_assembler RV_GC)) A0 (\<lambda>R. R A1 * 10) {TMP} \<and>
   writes (sample_assembler RV_GC) (AndImmediate A0 A1 0xFFFF kEightBytes (sample_assembler RV_GC)) A0 (\<lambda>R. R A1 AND 0xFFFF) {TMP2}"
  using immediate_macros_correct [of "sample_assembler RV_GC" 10 A1 A0]
    immediate_macros_correct [of "sample_assembler RV_GC" "0xFFFF" A1 A0]
  by (simp add: imm_ok_def not_pooled_def sample_assembler_def)

text \<open>C20. The hash code that generated code computes is the one the runtime computes: the instruction
  sequences emitted for combining a hash with another value and for finalising it to a number of bits
  leave in the hash register the sign extension of what the C++ functions return on the low 32 bits
  of the operands, for every size from 1 to 32.\<close>

theorem emitted_hash_code_matches_runtime:
  assumes "hash \<noteq> other" "hash \<noteq> ZR" "other \<noteq> ZR" "0 < bit_size" "bit_size \<le> 32"
  shows "writes a (Inr (emit_CombineHashes hash other a)) hash
      (\<lambda>R. sign_extend (CombineHashes (ucast (R hash)) (ucast (R other)))) {other} \<and>
    writes a (FinalizeHashForSize bit_size hash other a) hash
      (\<lambda>R. sign_extend (FinalizeHash (ucast (R hash)) bit_size)) {other}"
  by (rule conjI, rule emit_CombineHashes_writes [OF assms(1-3)], rule FinalizeHashForSize_writes [OF assms(4,5,1-3)])

theorem emitted_hash_code_matches_runtime_witness:
  "writes (sample_assembler RV_GC) (FinalizeHashForSize 30 A0 A1 (sample_assembler RV_GC)) A0
     (\<lambda>R. sign_extend (FinalizeHash (ucast (R A0)) 30)) {A1}"
  using emitted_hash_code_matches_runtime [of A0 A1 30 "sample_assembler RV_GC"] by simp

text \<open>C21. The store buffer of the simulator memory is invisible to the program: for every sequence of loads
  and stores of 1, 2, 4 and 8 bytes, aligned or not, the buffered memory returns at every load the value that
  plain memory would return, whatever entries the pseudo-random flushing writes back and
  in whatever order, and the memory seen through the buffer at the end is the plain memory. The
  buffer stays within its capacity and holds at most one entry per word.\<close>

theorem buffered_memory_refines_direct:
  assumes "memory_ok s" "list_all mem_op_ok ops"
  shows "fst (run_ops Memory_Load Memory_Store ops s) = fst (run_ops Direct_Load Direct_Store ops (memory_view s)) \<and>
    memory_view (snd (run_ops Memory_Load Memory_Store ops s)) = snd (run_ops Direct_Load Direct_Store ops (memory_view s)) \<and>
    memory_ok (snd (run_ops Memory_Load Memory_Store ops s))"
  using sim_mem.run_ops_view [OF assms] by blast

theorem buffered_memory_refines_direct_witness:
  "fst (run_ops Memory_Load Memory_Store [St 8 16 0x1122334455667788, St 1 17 0xAA, Ld 4 16]
     \<lparr>host_m = (\<lambda>_. 0), BufferedSimulatorMemory.buffer_m = [], use_buffered_m = True\<rparr>) = [0x5566AA88]"
proof -
  let ?s = "\<lparr>host_m = (\<lambda>_. 0), BufferedSimulatorMemory.buffer_m = [], use_buffered_m = True\<rparr>"
  let ?ops = "[St 8 16 0x1122334455667788, St 1 17 0xAA, Ld 4 16]"
  have "memory_ok ?s" by (simp add: memory_ok_def buffered_ok_def buffer_ok_def)
  moreover have "list_all mem_op_ok ?ops" by simp
  ultimately have "fst (run_ops Memory_Load Memory_Store ?ops ?s) = fst (run_ops Direct_Load Direct_Store ?ops (memory_view ?s))"
    using buffered_memory_refines_direct by blast
  also have "\<dots> = [0x5566AA88]"
    by code_simp
  finally show ?thesis .
qed

text \<open>C22. Atomic accesses of an aligned 8-byte word are coherent with the buffered stores: the word is
  flushed first, so an atomic load returns the last stored value, an atomic store replaces it, and neither
  loses or resurrects any other buffered store.\<close>

theorem atomic_accesses_see_buffered_stores:
  assumes "buffered_ok s" "addr AND 7 = 0"
  shows "fst (Buffered_Load_atomic 8 s addr) = load_le 8 (buffered_view s) addr \<and>
    buffered_view (snd (Buffered_Load_atomic 8 s addr)) = buffered_view s \<and>
    buffered_view (Buffered_Store_atomic 8 s addr v) = store_le 8 (buffered_view s) addr v \<and>
    buffered_ok (snd (Buffered_Load_atomic 8 s addr)) \<and> buffered_ok (Buffered_Store_atomic 8 s addr v)"
  using Buffered_Load_atomic_correct [OF assms, of 8] Buffered_Store_atomic_correct [OF assms, of 8] by simp

theorem atomic_accesses_see_buffered_stores_witness:
  "fst (Buffered_Load_atomic 8 \<lparr>host_m = (\<lambda>_. 0), BufferedSimulatorMemory.buffer_m = [Entry 16 7]\<rparr> 16) = 7"
proof -
  let ?s = "\<lparr>host_m = (\<lambda>_. 0), BufferedSimulatorMemory.buffer_m = [Entry 16 7]\<rparr>"
  have "buffered_ok ?s" by (simp add: buffered_ok_def buffer_ok_def)
  then have "fst (Buffered_Load_atomic 8 ?s 16) = load_le 8 (buffered_view ?s) 16"
    using atomic_accesses_see_buffered_stores [of ?s 16] by simp
  also have "\<dots> = 7" by code_simp
  finally show ?thesis .
qed

text \<open>C23. A 4-byte atomic load of the upper half of a buffered word returns the stale value in memory: the buffer
  entry is keyed by the address of the word, and flushing compares it with the unmasked address,
  so the entry stays in the buffer and the load bypasses it. A plain load at the same place returns
  the stored value.\<close>

theorem narrow_atomic_misses_buffered_store:
  "let s = Buffered_Store 4 \<lparr>host_m = m, BufferedSimulatorMemory.buffer_m = []\<rparr> 12 v
   in fst (Buffered_Load_atomic 4 s 12) = load_le 4 m 12 \<and> fst (Buffered_Load 4 s 12) = take_bit 32 v"
proof -
  define s where "s = Buffered_Store 4 \<lparr>host_m = m, BufferedSimulatorMemory.buffer_m = []\<rparr> 12 v"
  let ?s0 = "\<lparr>host_m = m, BufferedSimulatorMemory.buffer_m = []\<rparr>"
  have ok: "buffered_ok ?s0" by (simp add: buffered_ok_def buffer_ok_def)
  have s: "s = \<lparr>host_m = m, BufferedSimulatorMemory.buffer_m = [Entry 8 (put_bytes 4 (load_le 8 m 8) 4 v)]\<rparr>"
    by (simp add: s_def Buffered_Store_def needs_flush_def Let_def)
  have "FlushAddress s 12 = s"
    by (simp add: s FlushAddress_def FlushAddress_loop_absent)
  then have "fst (Buffered_Load_atomic 4 s 12) = load_le 4 m 12"
    by (simp add: Buffered_Load_atomic_def s Direct_Load_def)
  moreover have "fst (Buffered_Load 4 s 12) = take_bit 32 v"
    using buffered_mem.load_after_store [OF ok, of 4 12 v] by (simp add: s_def)
  ultimately show ?thesis by (simp add: s_def)
qed

text \<open>C24. Register x0 reads as zero throughout a run of the simulator: for every program, 32-bit and compressed
  instructions mixed, x0 holds zero in the state after any number of executed instructions, in the state in which the execution loop
  returns, and in the state in which a call returns, if it held zero at the start and the handlers of calls into the runtime and of floating-point instructions leave it so.
  (An instruction that ends in a simulator error leaves no state in the model, and nothing is said about one.)\<close>

theorem zero_register_stays_zero:
  assumes "xregs_m s ZR = 0" "host_keeps (\<lambda>t. xregs_m t ZR = 0) h"
  shows "(\<forall>n t. run h n s = Inr t \<longrightarrow> xregs_m t ZR = 0) \<and>
    (\<forall>t. ExecuteNoTrace h s = Some (Inr t) \<longrightarrow> xregs_m t ZR = 0) \<and>
    (\<forall>entry t. RunCall h entry s = Some (Inr t) \<longrightarrow> xregs_m t ZR = 0)"
proof -
  have z: "zr_zero s" "host_keeps zr_zero h" using assms by (simp_all add: zr_zero_def [abs_def])
  have run: "zr_zero t" if "run h n s = Inr t" for n t using zr_zero_run [OF z, of n] that by (simp add: keeps_def)
  have loop: "zr_zero t" if "ExecuteNoTrace h u = Some (Inr t)" "zr_zero u" for u t
    using zr_zero_ExecuteNoTrace [OF that z(2)] by (simp add: keeps_def)
  have "zr_zero t" if "RunCall h entry s = Some (Inr t)" for entry t
    using that loop z(1) by (auto simp: RunCall_def Let_def split: option.splits sum.splits)
  then show ?thesis using run loop z(1) by (simp add: zr_zero_def)
qed

theorem zero_register_stays_zero_witness:
  "case ExecuteNoTrace no_host (sample_simulator (bytes_le 2 0x0505 @ bytes_le 2 0x8082)) of
     Some (Inr s) \<Rightarrow> xregs_m s A0 = 1 \<and> xregs_m s ZR = 0
   | _ \<Rightarrow> False"
proof -
  let ?s = "sample_simulator (bytes_le 2 0x0505 @ bytes_le 2 0x8082)"
  have "case ExecuteNoTrace no_host ?s of Some (Inr s) \<Rightarrow> xregs_m s A0 = 1 | _ \<Rightarrow> False" by code_simp
  then obtain t where t: "ExecuteNoTrace no_host ?s = Some (Inr t)" "xregs_m t A0 = 1" by (rule returns_state)
  have "xregs_m ?s ZR = 0" by (simp add: sample_simulator_def)
  moreover have "host_keeps (\<lambda>t. xregs_m t ZR = 0) no_host" by (simp add: host_keeps_def no_host_def)
  ultimately have "xregs_m t ZR = 0"
    using zero_register_stays_zero [of ?s no_host, THEN conjunct2, THEN conjunct1] t(1) by blast
  then show ?thesis unfolding t(1) option.case sum.case using t(2) by blast
qed

text \<open>C25. The arithmetic helpers of the simulator compute what the instruction set defines, for all operands. The high products are
  the upper 64 bits of the exact 128-bit product, although they are computed on 32-bit halves. Division never traps: dividing by zero gives
  all ones and the dividend as remainder, the overflowing signed division gives the dividend and remainder zero,
  and otherwise quotient and remainder satisfy the division identity, with a remainder that is smaller than the divisor and has the sign of the
  dividend. The carry-less products are the low, the high and the reversed part of the
  product of the operands as polynomials over the field with two elements.\<close>

theorem simulator_arithmetic_exact:
  "sim_mulh a b = word_of_int (sint a * sint b div 2 ^ 64) \<and>
   sim_mulhu a b = word_of_int (uint a * uint b div 2 ^ 64) \<and>
   sim_mulhsu a b = word_of_int (sint a * uint b div 2 ^ 64) \<and>
   (b = 0 \<longrightarrow> sim_div a b = -1 \<and> sim_rem a b = a \<and> sim_divu a b = -1 \<and> sim_remu a b = a) \<and>
   (b = -1 \<and> sint a = - (2 ^ 63) \<longrightarrow> sim_div a b = a \<and> sim_rem a b = 0) \<and>
   (b \<noteq> 0 \<longrightarrow> sim_div a b * b + sim_rem a b = a \<and> \<bar>sint (sim_rem a b)\<bar> < \<bar>sint b\<bar> \<and>
      (sint (sim_rem a b) = 0 \<or> sgn (sint (sim_rem a b)) = sgn (sint a)) \<and>
      sim_divu a b * b + sim_remu a b = a \<and> sim_remu a b < b) \<and>
   (\<forall>i<64. (bit (sim_clmul a b) i \<longleftrightarrow> clmul_bit a b i) \<and> (bit (sim_clmulh a b) i \<longleftrightarrow> clmul_bit a b (64 + i)) \<and>
      (bit (sim_clmulr a b) i \<longleftrightarrow> clmul_bit a b (63 + i)))"
proof -
  have "sim_divu a b * b + sim_remu a b = a" "b \<noteq> 0 \<Longrightarrow> sim_remu a b < b"
    by (simp_all add: sim_divu_def sim_remu_def word_mod_less_divisor word_gt_0 word_mod_div_equality)
  moreover have "sint b \<noteq> 0" if "b \<noteq> 0" using that by (metis word_of_int_sint of_int_0)
  then have "b \<noteq> 0 \<longrightarrow> \<bar>sint (sim_rem a b)\<bar> < \<bar>sint b\<bar> \<and>
      (sint (sim_rem a b) = 0 \<or> sgn (sint (sim_rem a b)) = sgn (sint a))"
    using sint_sim_rem [of b a] smod_bounds [of "sint b" "sint a"] by simp
  moreover have "a = kMinIntX" if "sint a = - (2 ^ 63)" using that word_of_int_sint [of a] by simp
  ultimately have "(b = 0 \<longrightarrow> sim_div a b = -1 \<and> sim_rem a b = a \<and> sim_divu a b = -1 \<and> sim_remu a b = a) \<and>
   (b = -1 \<and> sint a = - (2 ^ 63) \<longrightarrow> sim_div a b = a \<and> sim_rem a b = 0) \<and>
   (b \<noteq> 0 \<longrightarrow> sim_div a b * b + sim_rem a b = a \<and> \<bar>sint (sim_rem a b)\<bar> < \<bar>sint b\<bar> \<and>
      (sint (sim_rem a b) = 0 \<or> sgn (sint (sim_rem a b)) = sgn (sint a)) \<and>
      sim_divu a b * b + sim_remu a b = a \<and> sim_remu a b < b)"
    using sim_div_rem [of b a] by (auto simp: sim_div_def sim_rem_def sim_divu_def sim_remu_def)
  moreover have "\<forall>i<64. (bit (sim_clmul a b) i \<longleftrightarrow> clmul_bit a b i) \<and> (bit (sim_clmulh a b) i \<longleftrightarrow> clmul_bit a b (64 + i)) \<and>
      (bit (sim_clmulr a b) i \<longleftrightarrow> clmul_bit a b (63 + i))"
    using bit_sim_clmul [of _ a b] by blast
  ultimately show ?thesis
    by (intro conjI sim_mulh_eq sim_mulhu_eq sim_mulhsu_eq) blast+
qed

theorem simulator_arithmetic_exact_witness:
  "sim_div 7 (-2) * (-2) + sim_rem 7 (-2) = 7 \<and> sim_div 7 0 = -1 \<and> (bit (sim_clmul 7 (-2)) 1 \<longleftrightarrow> clmul_bit 7 (-2) 1)"
  using simulator_arithmetic_exact [of 7 0] simulator_arithmetic_exact [of 7 "-2"] by simp

text \<open>C26. The open-addressing hash map implements a finite map: starting from a new map, every sequence of insertions of
  fresh keys, updates and removals runs to completion, through all the growing and rehashing it
  causes and with deleted slots left in the probe chains, and afterwards a lookup returns for every key what the finite map says and the
  size is the number of its keys.\<close>

theorem hash_map_refines_finite_map:
  assumes "fits limit initial_size" "0 < initial_size" "fits limit (2 * length ops)" "valid_ops novalue Map.empty ops"
  shows "\<exists>m0 m. new_map (IntKeyRawPointerValueTrait novalue) limit initial_size = Some (Inr m0) \<and>
    each_pair (apply_op novalue limit) ops m0 = Some (Inr m) \<and>
    Size m = card (dom (fold spec_op ops Map.empty)) \<and>
    (\<forall>k. IntMap_Lookup novalue limit m k =
       Some (Inr (case fold spec_op ops Map.empty k of None \<Rightarrow> novalue | Some v \<Rightarrow> v)))"
proof -
  obtain m0 where m0: "new_map (IntKeyRawPointerValueTrait novalue) limit initial_size = Some (Inr m0)"
      "map_ok (IntKeyRawPointerValueTrait novalue) limit m0" "live (IntKeyRawPointerValueTrait novalue) m0 = []"
    using new_map_correct [OF assms(1,2)] by blast
  then have "implements novalue limit m0 Map.empty" by (simp add: implements_def)
  from apply_ops_implements [OF this assms(4)] m0(3) assms(3) obtain m
    where "each_pair (apply_op novalue limit) ops m0 = Some (Inr m)" "implements novalue limit m (fold spec_op ops Map.empty)"
    by auto
  then show ?thesis
    using m0(1) Size_implements [of novalue limit m] IntMap_Lookup_implements [of novalue limit m]
    by (intro exI [of _ m0] exI [of _ m]) simp
qed

theorem hash_map_refines_finite_map_witness:
  "\<exists>m0 m. new_map (IntKeyRawPointerValueTrait (0 :: u64)) 1000 4 = Some (Inr m0) \<and>
    each_pair (apply_op 0 1000) [OpInsert 5 50, OpUpdate 6 60, OpRemove 5, OpInsert 5 51] m0 = Some (Inr m) \<and>
    IntMap_Lookup 0 1000 m 5 = Some (Inr 51) \<and> Size m = 2"
proof -
  let ?ops = "[OpInsert 5 50, OpUpdate 6 60, OpRemove 5, OpInsert 5 51] :: u64 map_op list"
  have "fits 1000 4" "fits 1000 (2 * length ?ops)" by (simp_all add: fits_def table_size_def bit_ceil.simps)
  moreover have "valid_ops 0 Map.empty ?ops" by simp
  moreover have "dom (fold spec_op ?ops Map.empty) = {5, 6}" by auto
  then have "card (dom (fold spec_op ?ops Map.empty)) = 2" by (simp only:) simp
  ultimately show ?thesis
    using hash_map_refines_finite_map [of 1000 4 ?ops 0] by (fastforce dest: spec [of _ 5])
qed

text \<open>C27. Probing always ends below the limit on probes: in every well-formed table, however many deleted slots it
  has, a search for any key either finds a pair with that key or proves that there is none, and a
  removal deletes exactly one such pair and keeps the order of all others. This holds for any
  trait whose key comparison agrees with its hash.\<close>

theorem hash_map_probing_ends:
  assumes "key_value_trait t" "map_ok t limit m"
  shows "((\<exists>j. Lookup t limit m key = Some (Inr (Some j)) \<and> pairs_m m ! j \<in> set (live t m) \<and> IsKeyEqual t (pairs_m m ! j) key) \<or>
      Lookup t limit m key = Some (Inr None) \<and> (\<forall>p \<in> set (live t m). \<not> IsKeyEqual t p key)) \<and>
    ((\<exists>m' ps p qs. Remove t limit key m = Some (Inr (True, m')) \<and> map_ok t limit m' \<and>
        IsKeyEqual t p key \<and> live t m = ps @ p # qs \<and> live t m' = ps @ qs) \<or>
      Remove t limit key m = Some (Inr (False, m)) \<and> (\<forall>p \<in> set (live t m). \<not> IsKeyEqual t p key))"
proof -
  have "wf_sizes m" using assms(2) by (simp add: map_ok_def wf_map_def)
  then show ?thesis
    using key_value_trait.Lookup_correct [OF assms, of key] key_value_trait.Remove_correct [OF assms, of key] set_live [of m t]
    by blast
qed

theorem hash_map_probing_ends_witness:
  "Lookup (RawPointerKeyValueTrait (0 :: nat)) 100 (empty_map (RawPointerKeyValueTrait 0) 4) 7 = Some (Inr None)"
proof -
  let ?t = "RawPointerKeyValueTrait (0 :: nat)"
  have "fits 100 4" by (simp add: fits_def table_size_def bit_ceil.simps)
  then have m: "map_ok ?t 100 (empty_map ?t 4)" "live ?t (empty_map ?t 4) = []"
    using empty_map_ok [of 100 4 ?t] by simp_all
  show ?thesis
    using hash_map_probing_ends [OF raw_pointer_key.key_value_trait_axioms m(1), of 7] by (simp add: m(2))
qed

text \<open>C28. Inserting always succeeds and never loses a pair: the resulting well-formed map holds the previous pairs in their order of insertion followed by the new
  one. If the array of pairs has become full, the table is rebuilt: it has room for twice the number of live pairs, its hash table has the power-of-two size for that number, and
  the slots of removed pairs are gone; otherwise the sizes stay and one more slot is used. A rebuild does not resize again: its
  result does not depend on the resizing function that its insertions would call. The rebuilt table has to fit, in
  2 to the 31 slots and below the limit on probes.\<close>

theorem hash_map_growth_keeps_pairs:
  assumes "map_ok t limit m" "ValueOf t kv \<noteq> NoValue t"
    and "Suc (next_pair_index_m m) = pairs_size_m m \<Longrightarrow> fits limit (2 * Suc (length (live t m)))"
  shows "(\<exists>m'. Insert t limit kv m = Some (Inr m') \<and> map_ok t limit m' \<and> live t m' = live t m @ [kv] \<and>
      (if Suc (next_pair_index_m m) = pairs_size_m m then
         pairs_size_m m' = 2 * Suc (length (live t m)) \<and> hash_table_size_m m' = table_size (2 * Suc (length (live t m))) \<and>
         next_pair_index_m m' = Suc (length (live t m))
       else pairs_size_m m' = pairs_size_m m \<and> hash_table_size_m m' = hash_table_size_m m \<and>
         next_pair_index_m m' = Suc (next_pair_index_m m))) \<and>
    (\<forall>resize n. length (live t m) < n \<and> fits limit n \<longrightarrow>
      Resize_with (Insert_with resize t limit) t n m = Resize t limit n m)"
proof (intro conjI allI impI)
  show "\<exists>m'. Insert t limit kv m = Some (Inr m') \<and> map_ok t limit m' \<and> live t m' = live t m @ [kv] \<and>
      (if Suc (next_pair_index_m m) = pairs_size_m m then
         pairs_size_m m' = 2 * Suc (length (live t m)) \<and> hash_table_size_m m' = table_size (2 * Suc (length (live t m))) \<and>
         next_pair_index_m m' = Suc (length (live t m))
       else pairs_size_m m' = pairs_size_m m \<and> hash_table_size_m m' = hash_table_size_m m \<and>
         next_pair_index_m m' = Suc (next_pair_index_m m))"
    by (rule Insert_sizes [OF assms])
  fix resize n assume n: "length (live t m) < n \<and> fits limit n"
  have "next_pair_index_m m \<le> length (pairs_m m)" using assms(1) by (simp add: map_ok_def wf_map_def wf_sizes_def)
  then show "Resize_with (Insert_with resize t limit) t n m = Resize t limit n m"
    using Resize_rebuilds [of m t n limit] n by auto
qed

theorem hash_map_growth_keeps_pairs_witness:
  "\<exists>m'. Insert (RawPointerKeyValueTrait (0 :: nat)) 100 (7, 1) (empty_map (RawPointerKeyValueTrait 0) 1) = Some (Inr m') \<and>
     live (RawPointerKeyValueTrait 0) m' = [(7, 1)] \<and> pairs_size_m m' = 2 \<and> hash_table_size_m m' = 4"
proof -
  let ?t = "RawPointerKeyValueTrait (0 :: nat)" and ?e = "empty_map (RawPointerKeyValueTrait (0 :: nat)) 1"
  have f: "fits 100 1" "fits 100 2" "table_size 2 = 4" by (simp_all add: fits_def table_size_def bit_ceil.simps)
  then have e: "map_ok ?t 100 ?e" "live ?t ?e = []" "next_pair_index_m ?e = 0" "pairs_size_m ?e = 1"
    using empty_map_ok [of 100 1 ?t] by simp_all
  have "ValueOf ?t (7, 1) \<noteq> NoValue ?t" by (simp add: RawPointerKeyValueTrait_def NoValue_def)
  from hash_map_growth_keeps_pairs [OF e(1) this, THEN conjunct1, unfolded e(2-4)] show ?thesis
    using f(2,3) by (auto simp del: One_nat_def)
qed

text \<open>C29. Bit fields that satisfy the static assertions of their template are independent variables. The range check of a field accepts exactly the numbers that fit its size, from -(2 to the size - 1) to below 2 to the size - 1 for a
  sign-extended field and below 2 to the size otherwise. Each of these is read back unchanged,
  sign included, after it was stored in its field of any word, and storing any value changes no field that does not overlap.\<close>

theorem bit_field_roundtrip:
  fixes w :: "'s::len word"
  assumes "fits_container TYPE('s) f"
  shows "(is_valid TYPE('s) f v \<longleftrightarrow>
      (if sign_extended f then - (2 ^ (bitsize f - 1)) \<le> sint v \<and> sint v < 2 ^ (bitsize f - 1) else uint v < 2 ^ bitsize f)) \<and>
    ((if sign_extended f then - (2 ^ (bitsize f - 1)) \<le> sint v \<and> sint v < 2 ^ (bitsize f - 1) else uint v < 2 ^ bitsize f) \<longrightarrow>
      decode f (update f v w) = v) \<and>
    (\<forall>g. fits_container TYPE('s) g \<longrightarrow> kNextBit f \<le> position g \<or> kNextBit g \<le> position f \<longrightarrow>
      decode g (update f v w) = decode g w)"
  using is_valid_in_field_range [OF assms, of v, unfolded in_field_range_def] decode_update_same [OF assms] decode_update_other [OF assms] by blast

theorem bit_field_roundtrip_witness:
  "decode \<lparr>position = 3, bitsize = 5, sign_extended = True\<rparr>
     (update \<lparr>position = 3, bitsize = 5, sign_extended = True\<rparr> (-7) (0xFFFF :: 16 word)) = -7"
proof -
  let ?f = "\<lparr>position = 3, bitsize = 5, sign_extended = True\<rparr>"
  have "fits_container TYPE(16) ?f" by (simp add: fits_container_def kNextBit_def)
  then show ?thesis using bit_field_roundtrip [of ?f "-7" "0xFFFF :: 16 word"] by simp
qed

text \<open>C30. The byte of traits of an object pool entry keeps its three components apart: the entry type, the patchability and the
  snapshot behaviour that are packed into it are read back by the entry's accessors.\<close>

theorem pool_traits_keep_types:
  assumes "take_bit 4 ty = ty" "take_bit 1 p = p" "take_bit 3 behavior = behavior"
  shows "entry_type \<lparr>entry_value = v, entry_bits = EncodeTraits ty p behavior\<rparr> = ty \<and>
    patchable \<lparr>entry_value = v, entry_bits = EncodeTraits ty p behavior\<rparr> = p \<and>
    snapshot_behavior \<lparr>entry_value = v, entry_bits = EncodeTraits ty p behavior\<rparr> = behavior"
  using decode_traits [OF assms] by (simp add: entry_type_def patchable_def snapshot_behavior_def)

theorem pool_traits_keep_types_witness:
  "entry_type \<lparr>entry_value = Imm 0 :: unit entry_value, entry_bits = EncodeTraits kNativeFunction kPatchable kSetToZero\<rparr> = kNativeFunction"
  using pool_traits_keep_types [of kNativeFunction kPatchable kSetToZero "Imm 0 :: unit entry_value"] by simp

text \<open>C31. Looking an entry up in the object pool, adding it if it is absent, returns an index at which the
  entry is stored, in this pool or in its parent, and keeps the pool consistent and all earlier indices valid. A patchable entry is always added anew, at the end of the
  pool. Asking again for an unpatchable entry returns the same index and changes nothing, except that an entry of the parent is once more recorded as used from there.
  The index table has to have room to grow by the three pairs that an entry may need.\<close>

theorem pool_entry_found_where_it_is:
  assumes "pool_ok H limit b" "pred_option (pool_ok H limit) parent"
    and "fits limit (2 * (length (table_pairs H b) + 3))"
  shows "\<exists>i b'. FindEntry H limit parent entry b = Some (Inr (i, b')) \<and> pool_ok H limit b' \<and>
    (holds_at b' entry i \<or> (\<exists>p. parent = Some p \<and> holds_at p entry i)) \<and>
    (\<forall>e j. holds_at b e j \<longrightarrow> holds_at b' e j) \<and>
    (patchable entry \<noteq> kNotPatchable \<longrightarrow>
      i = int (base_index_m b + length (object_pool_m b)) \<and> object_pool_m b' = object_pool_m b @ entry_words entry) \<and>
    (patchable entry = kNotPatchable \<longrightarrow>
      FindEntry H limit parent entry b' = Some (Inr (i,
        if in_parent H parent entry then b'\<lparr>used_from_parent_m := used_from_parent_m b' @ [i]\<rparr> else b')))"
proof -
  have again: "patchable entry = kNotPatchable \<longrightarrow> FindEntry H limit parent entry b' = Some (Inr (i,
        if in_parent H parent entry then b'\<lparr>used_from_parent_m := used_from_parent_m b' @ [i]\<rparr> else b'))"
    if "FindEntry H limit parent entry b = Some (Inr (i, b'))" for i b'
    using FindEntry_again [OF assms _ that] by blast
  consider (p) p i where "parent = Some p" "holds_at p entry i" "patchable entry = kNotPatchable"
      "FindEntry H limit parent entry b = Some (Inr (i, b\<lparr>used_from_parent_m := used_from_parent_m b @ [i]\<rparr>))"
    | (own) i where "holds_at b entry i" "patchable entry = kNotPatchable" "FindEntry H limit parent entry b = Some (Inr (i, b))"
    | (new) "FindEntry H limit parent entry b = AddObject H limit entry b"
    using FindEntry_cases [OF assms(1,2), of entry] by blast
  then show ?thesis
  proof cases
    case p
    have "pool_ok H limit (b\<lparr>used_from_parent_m := used_from_parent_m b @ [i]\<rparr>)"
      "\<And>e j. holds_at (b\<lparr>used_from_parent_m := used_from_parent_m b @ [i]\<rparr>) e j = holds_at b e j"
      using assms(1) by (simp_all add: pool_ok_def holds_at_def)
    then show ?thesis using p again [OF p(4)] by blast
  next
    case own
    then show ?thesis using assms(1) again [OF own(3)] by blast
  next
    case new
    obtain b' where a: "AddObject H limit entry b = Some (Inr (int (base_index_m b + length (object_pool_m b)), b'))"
      "pool_ok H limit b'" "object_pool_m b' = object_pool_m b @ entry_words entry" "base_index_m b' = base_index_m b"
      using AddObject_ok [OF assms(1,3), of entry] by blast
    have "holds_at b' entry (int (base_index_m b + length (object_pool_m b)))" using a(3,4) by (simp add: holds_at_def)
    moreover have "holds_at b' e j" if "holds_at b e j" for e j
      using holds_at_append [OF that _ a(4,3)] by simp
    moreover have f: "FindEntry H limit parent entry b = Some (Inr (int (base_index_m b + length (object_pool_m b)), b'))"
      using a(1) new by simp
    ultimately show ?thesis using again [OF f] a(2,3) f by blast
  qed
qed

theorem pool_entry_found_where_it_is_witness:
  "\<exists>i b'. FindEntry (\<lambda>_ :: unit. 0) 100 None (word_entry 42 kImmediate kNotPatchable kSnapshotable)
     (object_pool_builder_m (sample_assembler RV_G)) = Some (Inr (i, b')) \<and>
     holds_at b' (word_entry 42 kImmediate kNotPatchable kSnapshotable) i \<and>
     FindEntry (\<lambda>_ :: unit. 0) 100 None (word_entry 42 kImmediate kNotPatchable kSnapshotable) b' = Some (Inr (i, b'))"
proof -
  let ?H = "\<lambda>_ :: unit. 0" and ?b = "object_pool_builder_m (sample_assembler RV_G)"
  let ?e = "word_entry 42 kImmediate kNotPatchable kSnapshotable :: unit ObjectPoolBuilderEntry"
  have "fits 100 16" "fits 100 6" by (simp_all add: fits_def table_size_def bit_ceil.simps)
  then have "pool_ok ?H 100 ?b" "table_pairs ?H ?b = []"
    using empty_map_ok [of 100 16 "ObjIndexPair_trait ?H"] by (simp_all add: pool_ok_def sample_assembler_def)
  moreover have "patchable ?e = kNotPatchable" by (simp add: word_entry_def patchable_def decode_traits)
  moreover have "\<not> in_parent ?H None ?e" by (simp add: in_parent_def)
  ultimately show ?thesis
    using pool_entry_found_where_it_is [of ?H 100 ?b None ?e] \<open>fits 100 6\<close> by auto
qed

text \<open>C32. Committing a child pool to its parent is all or nothing: if the parent has grown since the child was created, nothing
  changes and false is returned. Otherwise the entries of the child are appended to the parent in order, which keeps its own entries at their indices, and true is
  returned. Every entry that the child holds at an index is then held at the same index by the parent, if the indices of the parent start behind the entries that it has
  taken from a parent of its own; this is what the assertion in the loop needs, and it is so for every parent that has no parent itself. The index table of the parent has to have room for the entries.\<close>

theorem pool_commit_is_all_or_nothing:
  assumes "pool_ok H limit parent" "pool_ok H limit b"
    and "fits limit (2 * (length (table_pairs H parent) + length (object_pool_m b) + 3))"
  shows "(CurrentLength parent \<noteq> base_index_m b \<longrightarrow> TryCommitToParent H limit parent b = Some (Inr (False, parent))) \<and>
    (CurrentLength parent = base_index_m b \<longrightarrow>
      (\<exists>parent'. TryCommitToParent H limit parent b = Some (Inr (True, parent')) \<and> pool_ok H limit parent' \<and>
         object_pool_m parent' = object_pool_m parent @ object_pool_m b \<and>
         base_index_m parent' = base_index_m parent \<and> used_from_parent_m parent' = used_from_parent_m parent \<and>
         (\<forall>e i. holds_at parent e i \<longrightarrow> holds_at parent' e i) \<and>
         (base_index_m parent = length (used_from_parent_m parent) \<longrightarrow> (\<forall>e i. holds_at b e i \<longrightarrow> holds_at parent' e i))))"
proof (intro conjI impI)
  assume "CurrentLength parent \<noteq> base_index_m b"
  then show "TryCommitToParent H limit parent b = Some (Inr (False, parent))" using TryCommitToParent_ok [OF assms] by blast
next
  assume c: "CurrentLength parent = base_index_m b"
  then obtain p where p: "TryCommitToParent H limit parent b = Some (Inr (True, p))" "pool_ok H limit p"
      "object_pool_m p = object_pool_m parent @ object_pool_m b" "base_index_m p = base_index_m parent"
      "used_from_parent_m p = used_from_parent_m parent"
    using TryCommitToParent_ok [OF assms] by blast
  have "holds_at p e i" if "holds_at parent e i" for e i using holds_at_append [OF that _ p(4,3)] by simp
  moreover have "holds_at p e i" if "base_index_m parent = length (used_from_parent_m parent)" "holds_at b e i" for e i
    by (rule commit_keeps_indices [OF c that(1) p(4,3) that(2)])
  ultimately show "\<exists>parent'. TryCommitToParent H limit parent b = Some (Inr (True, parent')) \<and> pool_ok H limit parent' \<and>
         object_pool_m parent' = object_pool_m parent @ object_pool_m b \<and>
         base_index_m parent' = base_index_m parent \<and> used_from_parent_m parent' = used_from_parent_m parent \<and>
         (\<forall>e i. holds_at parent e i \<longrightarrow> holds_at parent' e i) \<and>
         (base_index_m parent = length (used_from_parent_m parent) \<longrightarrow> (\<forall>e i. holds_at b e i \<longrightarrow> holds_at parent' e i))"
    using p by blast
qed

theorem pool_commit_is_all_or_nothing_witness:
  "\<exists>p c parent'. AddObject (\<lambda>_ :: unit. 0) 100 (imm_entry 42) (object_pool_builder_m (sample_assembler RV_G)) = Some (Inr (0, p)) \<and>
     AddObject (\<lambda>_ :: unit. 0) 100 (imm_entry 43) ((object_pool_builder_m (sample_assembler RV_G))\<lparr>base_index_m := 1\<rparr>) = Some (Inr (1, c)) \<and>
     TryCommitToParent (\<lambda>_ :: unit. 0) 100 p c = Some (Inr (True, parent')) \<and> object_pool_m parent' = [imm_entry 42, imm_entry 43] \<and>
     holds_at parent' (imm_entry 42) 0 \<and> holds_at parent' (imm_entry 43) 1"
proof -
  let ?H = "\<lambda>_ :: unit. 0" and ?b = "object_pool_builder_m (sample_assembler RV_G)"
  let ?c = "?b\<lparr>base_index_m := 1\<rparr>"
  have f: "fits 100 16" "fits 100 6" "fits 100 14" by (simp_all add: fits_def table_size_def bit_ceil.simps)
  then have ok: "pool_ok ?H 100 ?b" "table_pairs ?H ?b = []" "pool_ok ?H 100 ?c" "table_pairs ?H ?c = []"
    and e: "base_index_m ?b = 0" "object_pool_m ?b = []" "used_from_parent_m ?b = []"
    using empty_map_ok [of 100 16 "ObjIndexPair_trait ?H"] by (simp_all add: pool_ok_def sample_assembler_def)
  obtain p n where p: "AddObject ?H 100 (imm_entry 42) ?b = Some (Inr (0, p))" "pool_ok ?H 100 p" "object_pool_m p = [imm_entry 42]"
      "base_index_m p = 0" "used_from_parent_m p = []" "table_pairs ?H p = n" "length n \<le> 3"
    using AddObject_ok [OF ok(1), of "imm_entry 42"] f(2) by (auto simp: ok e)
  obtain c where c: "AddObject ?H 100 (imm_entry 43) ?c = Some (Inr (1, c))" "pool_ok ?H 100 c" "object_pool_m c = [imm_entry 43]"
      "base_index_m c = 1"
    using AddObject_ok [OF ok(3), of "imm_entry 43"] f(2) by (auto simp: ok e)
  have "fits 100 (2 * (length (table_pairs ?H p) + length (object_pool_m c) + 3))"
    using f(3) by (rule fits_mono [rotated]) (use p(6,7) c(3) in simp)
  moreover have "holds_at p (imm_entry 42) 0" "holds_at c (imm_entry 43) 1" using p(3,4) c(3,4) by (simp_all add: holds_at_def)
  moreover have "CurrentLength p = base_index_m c" by (simp add: CurrentLength_def p(3,5) c(4))
  ultimately show ?thesis
    using pool_commit_is_all_or_nothing [OF p(2) c(2)] p(1,3,4,5) c(1,3) by auto
qed

text \<open>C33. The six basic 32-bit instruction formats, R, I, S, B, U and J, are decoded to what was encoded: for all registers, function codes and opcodes
  of their widths and all immediates the range tests accept, the simulator's accessors return each
  field of the assembled word, although the fields are packed and the immediates split and reordered.\<close>

theorem instruction_words_roundtrip:
  assumes "IsFunct7 f7" "IsFunct3 f3" "IsOpcode opc"
  shows "(let w = RTypeWord f7 rs2 rs1 f3 rd opc in Instr_opcode w = opc \<and> Instr_rd w = rd \<and> Instr_funct3 w = f3 \<and>
      Instr_rs1 w = rs1 \<and> Instr_rs2 w = rs2 \<and> Instr_funct7 w = f7) \<and>
    (IsITypeImm imm \<longrightarrow> (let w = ITypeWord imm rs1 f3 rd opc in Instr_opcode w = opc \<and> Instr_rd w = rd \<and>
      Instr_funct3 w = f3 \<and> Instr_rs1 w = rs1 \<and> Instr_itype_imm w = imm)) \<and>
    (IsSTypeImm imm \<longrightarrow> (let w = STypeWord imm rs2 rs1 f3 opc in Instr_opcode w = opc \<and> Instr_rs2 w = rs2 \<and>
      Instr_funct3 w = f3 \<and> Instr_rs1 w = rs1 \<and> Instr_stype_imm w = imm)) \<and>
    (IsBTypeImm imm \<longrightarrow> (let w = BTypeWord imm rs2 rs1 f3 opc in Instr_opcode w = opc \<and> Instr_rs2 w = rs2 \<and>
      Instr_funct3 w = f3 \<and> Instr_rs1 w = rs1 \<and> Instr_btype_imm w = imm)) \<and>
    (IsUTypeImm imm \<longrightarrow> (let w = UTypeWord imm rd opc in Instr_opcode w = opc \<and> Instr_rd w = rd \<and> Instr_utype_imm w = imm)) \<and>
    (IsJTypeImm imm \<longrightarrow> (let w = JTypeWord imm rd opc in Instr_opcode w = opc \<and> Instr_rd w = rd \<and> Instr_jtype_imm w = imm))"
  using assms
  by (simp add: Let_def Instr_defs RTypeWord_decode ITypeWord_decode_fields ITypeWord_decode_imm
      STypeWord_decode_fields STypeWord_decode_imm BTypeWord_decode_fields BTypeWord_decode_imm UTypeWord_decode JTypeWord_decode JTypeWord_decode_imm)

theorem instruction_words_roundtrip_witness:
  "Instr_itype_imm (ITypeWord (-5) A1 ADDI A0 OPIMM) = -5 \<and> Instr_rd (ITypeWord (-5) A1 ADDI A0 OPIMM) = A0"
  using instruction_words_roundtrip [of 0 ADDI OPIMM A2 A1 A0 "-5"]
  by (simp add: IsFunct7_def IsFunct3_def IsOpcode_def IsITypeImm_def IsInt_iff Let_def)

text \<open>C34. UTF-8 decoding is exactly the inverse of encoding. Every code point, whatever bytes follow it, is decoded back with its length; and
  if decoding at some bytes succeeds, these bytes start with the encoding of the result, which is a code point. Everything else is rejected:
  overlong forms, truncated sequences, stray trail bytes and values above U+10FFFF give -1 and consume nothing.\<close>

theorem utf8_decoding_inverts_encoding:
  "(\<not> IsOutOfRange cp \<longrightarrow> Utf8_Decode (Utf8_Encode cp @ rest) = Some (length (Utf8_Encode cp), cp) \<and> length (Utf8_Encode cp) = Utf8_Length cp) \<and>
   (xs \<noteq> [] \<longrightarrow> (\<exists>ch. \<not> IsOutOfRange ch \<and> take (length (Utf8_Encode ch)) xs = Utf8_Encode ch \<and> Utf8_Decode xs = Some (length (Utf8_Encode ch), ch)) \<or>
     Utf8_Decode xs = Some (0, -1) \<and> (\<forall>ch. \<not> IsOutOfRange ch \<longrightarrow> take (length (Utf8_Encode ch)) xs \<noteq> Utf8_Encode ch))"
proof -
  have inverse: "Utf8_Decode xs = Some (length (Utf8_Encode ch), ch)"
    if "\<not> IsOutOfRange ch" "take (length (Utf8_Encode ch)) xs = Utf8_Encode ch" for ch
    using Utf8_Decode_Encode [OF that(1), of "drop (length (Utf8_Encode ch)) xs"] append_take_drop_id [of "length (Utf8_Encode ch)" xs] that(2) by simp
  have "(\<exists>ch. \<not> IsOutOfRange ch \<and> take (length (Utf8_Encode ch)) xs = Utf8_Encode ch \<and> Utf8_Decode xs = Some (length (Utf8_Encode ch), ch)) \<or>
     Utf8_Decode xs = Some (0, -1) \<and> (\<forall>ch. \<not> IsOutOfRange ch \<longrightarrow> take (length (Utf8_Encode ch)) xs \<noteq> Utf8_Encode ch)" if "xs \<noteq> []"
  proof (rule Utf8_Decode_cases [OF that])
    assume e: "Utf8_Decode xs = Some (0, -1)"
    have "take (length (Utf8_Encode ch)) xs \<noteq> Utf8_Encode ch" if "\<not> IsOutOfRange ch" for ch
      using inverse [OF that] e that by (auto simp: IsOutOfRange_def)
    then show ?thesis using e by blast
  next
    fix k ch
    assume "Utf8_Decode xs = Some (k, ch)" "ch \<noteq> -1"
    with Utf8_Decode_sound [OF this] show ?thesis by auto
  qed
  then show ?thesis
    using Utf8_Decode_Encode [of cp rest] Utf8_Encode_length [of cp] by blast
qed

theorem utf8_decoding_inverts_encoding_witness:
  "Utf8_Decode (Utf8_Encode 0x1F600 @ [65]) = Some (4, 0x1F600) \<and> Utf8_Decode [0xC0, 0x80] = Some (0, -1)"
proof -
  have "\<not> IsOutOfRange 0x1F600" "length (Utf8_Encode 0x1F600) = 4" "Utf8_Decode [0xC0, 0x80] = Some (0, -1)"
    by code_simp+
  then show ?thesis
    using utf8_decoding_inverts_encoding [of "0x1F600" "[65]" "[]"] by simp
qed

text \<open>C35. Validation and the three conversions agree. Bytes are valid if and only if they are the concatenated encodings of
  some code points, and for valid bytes the conversions to UTF-16 and UTF-32 succeed with a buffer of the size that CodeUnitCount returns,
  which is exactly the size of the UTF-16 text; if the reported type is Latin-1, the conversion to Latin-1 succeeds, too, and gives the same characters.
  Malformed bytes make all of them fail, and a smaller buffer makes the conversion to UTF-16 fail.\<close>

theorem utf8_conversions_exact:
  "(IsValid xs \<longleftrightarrow> (\<exists>cps. code_points cps \<and> xs = concat (map Utf8_Encode cps))) \<and>
   (\<forall>cps. code_points cps \<and> xs = concat (map Utf8_Encode cps) \<longrightarrow>
     (let (n, t) = CodeUnitCount xs
      in n = length (concat (map utf16 cps)) \<and> t = foldl widen kLatin1 cps \<and>
         (\<forall>len. (n \<le> len \<longrightarrow> DecodeToUTF16 xs len = (True, concat (map utf16 cps))) \<and> (len < n \<longrightarrow> \<not> fst (DecodeToUTF16 xs len))) \<and>
         DecodeToUTF32 xs n = (True, cps) \<and>
         (t = kLatin1 \<longleftrightarrow> list_all IsLatin1 cps) \<and>
         (t = kLatin1 \<longrightarrow> DecodeToLatin1 xs n = (True, map ucast cps)))) \<and>
   (\<not> IsValid xs \<longrightarrow> \<not> fst (DecodeToUTF16 xs len) \<and> \<not> fst (DecodeToUTF32 xs len) \<and> \<not> fst (DecodeToLatin1 xs len))"
proof -
  have valid: "IsValid xs \<longleftrightarrow> (\<exists>cps. code_points cps \<and> xs = concat (map Utf8_Encode cps))"
    using IsValid_iff [of xs] by (simp add: encode_all_def)
  have sized: "let (n, t) = CodeUnitCount xs
      in n = length (concat (map utf16 cps)) \<and> t = foldl widen kLatin1 cps \<and>
         (\<forall>len. (n \<le> len \<longrightarrow> DecodeToUTF16 xs len = (True, concat (map utf16 cps))) \<and> (len < n \<longrightarrow> \<not> fst (DecodeToUTF16 xs len))) \<and>
         DecodeToUTF32 xs n = (True, cps) \<and>
         (t = kLatin1 \<longleftrightarrow> list_all IsLatin1 cps) \<and>
         (t = kLatin1 \<longrightarrow> DecodeToLatin1 xs n = (True, map ucast cps))"
    if cps: "code_points cps" and xs: "xs = concat (map Utf8_Encode cps)" for cps
  proof -
    have e: "xs = encode_all cps" using xs by (simp add: encode_all_def)
    have latin1: "foldl widen kLatin1 cps = kLatin1 \<longleftrightarrow> list_all IsLatin1 cps"
      using foldl_widen [OF cps, of kLatin1] by (auto simp: list_all_iff IsLatin1_def IsSupplementary_def)
    have "length cps \<le> length (concat (map utf16 cps))"
      by (rule units_at_least)
    moreover have "length (concat (map utf16 cps)) \<le> len \<Longrightarrow> DecodeToUTF16 xs len = (True, concat (map utf16 cps))" for len
      using cps e by (auto simp: DecodeToUTF16_iff)
    moreover have "length (concat (map utf16 cps)) \<le> len" if "fst (DecodeToUTF16 xs len)" for len
      using that DecodeToUTF16_iff [of xs len "snd (DecodeToUTF16 xs len)"] CodeUnitCount_encode_all [OF cps] CodeUnitCount_encode_all
      by (auto simp: e prod_eq_iff)
    moreover have "list_all IsLatin1 cps \<Longrightarrow> DecodeToLatin1 xs (length (concat (map utf16 cps))) = (True, map ucast cps)"
      using cps e latin1_utf16 [of cps] by (auto simp: DecodeToLatin1_iff)
    ultimately show ?thesis
      using cps by (auto simp: e CodeUnitCount_encode_all [OF cps] DecodeToUTF32_iff latin1 not_le [symmetric])
  qed
  have "\<not> fst (DecodeToUTF16 xs len) \<and> \<not> fst (DecodeToUTF32 xs len) \<and> \<not> fst (DecodeToLatin1 xs len)" if "\<not> IsValid xs"
    using that DecodeToUTF16_iff [of xs len "snd (DecodeToUTF16 xs len)"] DecodeToUTF32_iff [of xs len "snd (DecodeToUTF32 xs len)"]
      DecodeToLatin1_iff [of xs len "snd (DecodeToLatin1 xs len)"] unfolding IsValid_iff by (auto simp: prod_eq_iff)
  then show ?thesis
    using valid sized by blast
qed

theorem utf8_conversions_exact_witness:
  "CodeUnitCount [0x41, 0xF0, 0x9F, 0x98, 0x80] = (3, kSupplementary) \<and>
   DecodeToUTF16 [0x41, 0xF0, 0x9F, 0x98, 0x80] 3 = (True, [0x41, 0xD83D, 0xDE00]) \<and> \<not> fst (DecodeToUTF16 [0x80] 9)"
proof -
  let ?xs = "[0x41, 0xF0, 0x9F, 0x98, 0x80] :: u8 list"
  have cps: "code_points [0x41, 0x1F600] \<and> ?xs = concat (map Utf8_Encode [0x41, 0x1F600])"
    by code_simp
  have units: "concat (map utf16 [0x41, 0x1F600]) = [0x41, 0xD83D, 0xDE00]" and type: "foldl widen kLatin1 [0x41, 0x1F600] = kSupplementary"
    and malformed: "\<not> IsValid [0x80]"
    by code_simp+
  obtain n t where nt: "CodeUnitCount ?xs = (n, t)"
    by (cases "CodeUnitCount ?xs")
  note exact = utf8_conversions_exact [of ?xs 0, THEN conjunct2, THEN conjunct1, rule_format, OF cps, unfolded nt units type Let_def case_prod_conv]
  have "n = 3" "t = kSupplementary"
    using exact [THEN conjunct1] exact [THEN conjunct2, THEN conjunct1] by simp_all
  moreover have "DecodeToUTF16 ?xs 3 = (True, [0x41, 0xD83D, 0xDE00])"
    using exact [THEN conjunct2, THEN conjunct2, THEN conjunct1, THEN spec, of 3, THEN conjunct1] \<open>n = 3\<close> by simp
  moreover have "\<not> fst (DecodeToUTF16 [0x80] 9)"
    using utf8_conversions_exact [of "[0x80]" 9, THEN conjunct2, THEN conjunct2] malformed by simp
  ultimately show ?thesis
    using nt by simp
qed

text \<open>C36. Encoding a string works: the length computed in advance, by counting high bits eight characters at a time for one-byte strings, is the
  number of bytes that are written, these never exceed the buffer, they are valid UTF-8, and decoding them gives
  back the code units of the string, if it has no unpaired surrogates; those become replacement characters. The returned
  number of bytes is right for two-byte strings, but it is 0 for one-byte strings, whose number of bytes is kept in a variable that hides the returned one.\<close>

theorem string_encoding_correct:
  "length (snd (Utf8_EncodeString s len)) \<le> len \<and>
   (Utf8_LengthString s \<le> len \<longrightarrow>
     (let (n, bytes) = Utf8_EncodeString s len
      in bytes = concat (map Utf8_Encode (map scrub (string_code_points s))) \<and>
         length bytes = Utf8_LengthString s \<and> IsValid bytes \<and>
         (list_all (\<lambda>cp. \<not> IsSurrogate cp) (string_code_points s) \<longrightarrow> DecodeToUTF16 bytes (StringLength s) = (True, units s)) \<and>
         n = (case s of OneByteString _ \<Rightarrow> 0 | TwoByteString _ \<Rightarrow> length bytes)))"
proof -
  let ?bs = "encode_all (map scrub (string_code_points s))"
  have "IsValid ?bs"
    by (rule IsValid_encode [OF string_code_points_in_range(2)])
  then show ?thesis
    using Utf8_EncodeString_bound [of s len] Utf8_EncodeString_eq [of s len] Utf8_LengthString_eq [of s] string_utf16 [of s]
    by (auto simp: Let_def encode_all_def split: DartString.splits)
qed

theorem string_encoding_correct_witness:
  "Utf8_EncodeString (TwoByteString [0x41, 0xD83D, 0xDE00, 0xD800]) 8 = (8, [0x41, 0xF0, 0x9F, 0x98, 0x80, 0xEF, 0xBF, 0xBD]) \<and>
   fst (Utf8_EncodeString (OneByteString [0x41, 0xE9]) 9) = 0"
proof -
  have "Utf8_LengthString (TwoByteString [0x41, 0xD83D, 0xDE00, 0xD800]) = 8" "Utf8_LengthString (OneByteString [0x41, 0xE9]) = 3"
    "concat (map Utf8_Encode (map scrub (string_code_points (TwoByteString [0x41, 0xD83D, 0xDE00, 0xD800])))) =
       [0x41, 0xF0, 0x9F, 0x98, 0x80, 0xEF, 0xBF, 0xBD]"
    by code_simp+
  then show ?thesis
    using string_encoding_correct [of "TwoByteString [0x41, 0xD83D, 0xDE00, 0xD800]" 8] string_encoding_correct [of "OneByteString [0x41, 0xE9]" 9]
    by (simp add: Let_def case_prod_beta prod_eq_iff del: concat.simps list.map)
qed

text \<open>C37. The case conversion reads outside its tables for exactly one code point: U+10500, the first one behind the first-stage table, passes the
  range test, which should be strict, and its index is one past the end. For every other code point all table accesses are in
  bounds, including the second stage and the exception table, and for ASCII the result is the usual one.\<close>

theorem case_mapping_reads_in_bounds:
  assumes "0 \<le> ch" "mapping = kUppercase \<or> mapping = kLowercase"
  shows "(Convert ch mapping = None \<longleftrightarrow> ch = 0x10500) \<and>
    (ch < 128 \<longrightarrow> ToUpper ch = Some (if 97 \<le> ch \<and> ch \<le> 122 then ch - 32 else ch) \<and>
       ToLower ch = Some (if 65 \<le> ch \<and> ch \<le> 90 then ch + 32 else ch))"
  using Convert_U_10500 [of mapping] Convert_defined [OF assms(1) _ assms(2)] Convert_ASCII [OF assms(1)] by blast

theorem case_mapping_reads_in_bounds_witness:
  "Convert 0x10500 kUppercase = None \<and> Convert 0x10FFFF kLowercase \<noteq> None \<and> ToUpper 97 = Some 65"
  using case_mapping_reads_in_bounds [of "0x10500" kUppercase] case_mapping_reads_in_bounds [of "0x10FFFF" kLowercase]
    case_mapping_reads_in_bounds [of 97 kLowercase] by simp

text \<open>C38. What is written to a stream is read back. For each of the encodings of numbers (the signed and unsigned variable-length
  encodings, with the unrolled readers for 16, 32 and 64 bits as well as with the loop, LEB128, the fixed five-byte form, SLEB128, object references of up to 28 bits and words in
  two halves), whatever the stream holds before and gets later, the reader that starts where the writer started returns the same number
  and stops where the writer stopped. The writers return for every number, unless memory runs out.\<close>

theorem stream_numbers_roundtrip:
  fixes v :: "'a::len word"
  assumes "stream_ok st" "8 \<le> LENGTH('a)"
  shows "comes_back alloc (Write (WriteByte alloc) vh) (ReadStream_Read16 kEndByteMarker) vh st \<and>
    comes_back alloc (Write (WriteByte alloc) vw) (ReadStream_Read32 kEndByteMarker) vw st \<and>
    comes_back alloc (Write (WriteByte alloc) vd) (ReadStream_Read64 kEndByteMarker) vd st \<and>
    comes_back alloc (Write (WriteByte alloc) v) (Read kEndByteMarker) v st \<and>
    (0 \<le> sint v \<longrightarrow> comes_back alloc (WriteUnsigned (WriteByte alloc) v) ReadUnsigned v st) \<and>
    comes_back alloc (WriteLEB128 (WriteByte alloc) v) ReadLEB128 v st \<and>
    comes_back alloc (WriteSLEB128 (WriteByte alloc) v) ReadSLEB128 v st \<and>
    (0 \<le> sint w \<and> sint w < 2 ^ 35 \<longrightarrow> comes_back alloc (WriteFixed5LEB128 (WriteByte alloc) w) ReadLEB128 w st) \<and>
    (0 \<le> sint w \<and> sint w < 2 ^ 28 \<longrightarrow> comes_back alloc (WriteRefId alloc w) ReadRefId w st) \<and>
    comes_back alloc (WriteWordWith32BitWrites (WriteByte alloc) vd) ReadWordWith32BitReads vd st"
proof (intro conjI)
  note encoded = comes_back_bytes [OF assms(1)]
  show "comes_back alloc (Write (WriteByte alloc) vh) (ReadStream_Read16 kEndByteMarker) vh st"
    "comes_back alloc (Write (WriteByte alloc) vw) (ReadStream_Read32 kEndByteMarker) vw st"
    "comes_back alloc (Write (WriteByte alloc) vd) (ReadStream_Read64 kEndByteMarker) vd st"
    by (rule encoded, rule Write_eq, rule reads_encodings)+
  show "comes_back alloc (Write (WriteByte alloc) v) (Read kEndByteMarker) v st"
    by (rule encoded, rule Write_eq, rule reads_encodings(4) [OF assms(2)])
  show "0 \<le> sint v \<longrightarrow> comes_back alloc (WriteUnsigned (WriteByte alloc) v) ReadUnsigned v st"
    by (intro impI, rule encoded, rule WriteUnsigned_eq, rule reads_encodings(5) [OF assms(2)])
  show "comes_back alloc (WriteLEB128 (WriteByte alloc) v) ReadLEB128 v st"
    by (rule encoded, rule WriteLEB128_eq, rule reads_encodings)
  show "comes_back alloc (WriteSLEB128 (WriteByte alloc) v) ReadSLEB128 v st"
    by (rule encoded, rule WriteSLEB128_eq [OF assms(2)], rule reads_encodings(7) [OF assms(2)])
  show "0 \<le> sint w \<and> sint w < 2 ^ 35 \<longrightarrow> comes_back alloc (WriteFixed5LEB128 (WriteByte alloc) w) ReadLEB128 w st"
    by (intro impI, elim conjE, rule encoded, rule WriteFixed5LEB128_eq, rule reads_encodings)
  show "0 \<le> sint w \<and> sint w < 2 ^ 28 \<longrightarrow> comes_back alloc (WriteRefId alloc w) ReadRefId w st"
    using comes_back_RefId [OF assms(1)] by blast
  show "comes_back alloc (WriteWordWith32BitWrites (WriteByte alloc) vd) ReadWordWith32BitReads vd st"
    by (rule encoded, rule WriteWordWith32BitWrites_eq, rule reads_encodings)
qed

theorem stream_numbers_roundtrip_witness:
  "\<exists>st. WriteSLEB128 (WriteByte (\<lambda>_. Some 0)) (-300 :: 64 word) (WriteStream_new MallocWriteStream 16) = Some st \<and>
     ReadSLEB128 (reader_at (contents st @ [1, 2]) 0) = Some (-300 :: 64 word, reader_at (contents st @ [1, 2]) (length (contents st)))"
proof -
  have new: "stream_ok (WriteStream_new MallocWriteStream 16)" "contents (WriteStream_new MallocWriteStream 16) = []"
    using WriteStream_new_ok(1) [of 16 MallocWriteStream] WriteStream_new_ok(2) by simp_all
  have "comes_back (\<lambda>_. Some 0) (WriteSLEB128 (WriteByte (\<lambda>_. Some 0)) (-300 :: 64 word)) ReadSLEB128 (-300 :: 64 word) (WriteStream_new MallocWriteStream 16)"
    using stream_numbers_roundtrip [OF new(1), where 'a = 64 and v = "-300" and vh = 0 and vw = 0 and vd = 0 and w = 0 and alloc = "\<lambda>_. Some 0"] by simp
  then show ?thesis
    using new(2) by (fastforce simp: comes_back_def)
qed

text \<open>C39. The three kinds of write streams implement an append-only list of bytes: a new stream is empty, writing a byte, a block of bytes or a
  reference appends it, and the position is the length of the list, although buffers are reallocated and the
  streaming writer hands full buffers over. Aligning, for a power of two and an offset below it, appends fewer copies of the given byte than the alignment, after which the position plus the
  offset is a multiple of the alignment. Making room never loses a byte, and gives the room asked for. A full
  buffer of a streaming writer is always handed over and at least doubled, so the test whether handing over made enough room never succeeds.\<close>

theorem stream_buffers_refine_byte_lists:
  assumes "stream_ok st"
  shows "WritePosition st = length (contents st) \<and>
    (\<forall>b st'. WriteByte alloc b st = Some st' \<longrightarrow> stream_ok st' \<and> contents st' = contents st @ [b]) \<and>
    (\<forall>bs st'. WriteBytes alloc bs st = Some st' \<longrightarrow> stream_ok st' \<and> contents st' = contents st @ bs) \<and>
    (\<forall>v st'. WriteRefId alloc v st = Some st' \<longrightarrow> stream_ok st' \<and> contents st' = contents st @ ref_bytes v) \<and>
    (\<forall>k offset fill n st'. offset < 2 ^ k \<and> WriteAlign alloc (2 ^ k) offset fill st = Some (n, st') \<longrightarrow>
       stream_ok st' \<and> contents st' = contents st @ replicate n fill \<and> n < 2 ^ k \<and>
       2 ^ k dvd length (contents st') + offset) \<and>
    (\<forall>n st'. EnsureSpace alloc n st = Some st' \<longrightarrow>
       stream_ok st' \<and> contents st' = contents st \<and> n \<le> Remaining st' \<and> capacity_m st \<le> capacity_m st' \<and>
       (kind_m st = StreamingWriteStream \<and> Remaining st < n \<longrightarrow>
         write_current_m st' = 0 \<and> flushed_m st' = contents st \<and> 2 * capacity_m st \<le> capacity_m st')) \<and>
    (\<forall>kind size. 0 < size \<longrightarrow> stream_ok (WriteStream_new kind size) \<and> contents (WriteStream_new kind size) = [])"
proof -
  have "stream_ok st' \<and> contents st' = contents st @ replicate n fill \<and> n < 2 ^ k \<and> 2 ^ k dvd length (contents st') + offset"
    if "offset < 2 ^ k \<and> WriteAlign alloc (2 ^ k) offset fill st = Some (n, st')" for k offset fill n st'
  proof -
    have w: "stream_ok st'" "n = StreamRoundUp (length (contents st)) (2 ^ k) offset - length (contents st)" "contents st' = contents st @ replicate n fill"
      using WriteAlign_contents [OF assms] that by blast+
    then show ?thesis using StreamRoundUp_aligns [OF _ w(2)] that by simp
  qed
  then show ?thesis
    using WritePosition_contents [OF assms] stream.W_good [OF assms, of alloc] stream.W_content [OF assms, of alloc] WriteBytes_contents [OF assms, of alloc]
      WriteRefId_contents [OF assms, of alloc] EnsureSpace_keeps [OF assms, of alloc] EnsureSpace_streaming [OF assms, of _ alloc] WriteStream_new_ok
    by (intro conjI allI impI) blast+
qed

theorem stream_buffers_refine_byte_lists_witness:
  "let st = (WriteStream_new StreamingWriteStream 4)\<lparr>write_buffer_m := [7, 8], write_current_m := 2\<rparr>
   in \<exists>st'. EnsureSpace (\<lambda>_. Some 0) 1 st = Some st' \<and> flushed_m st' = [7, 8] \<and> 4 \<le> capacity_m st'"
proof -
  let ?st = "(WriteStream_new StreamingWriteStream 4)\<lparr>write_buffer_m := [7, 8], write_current_m := 2\<rparr>"
  have ok: "stream_ok ?st" and st: "kind_m ?st = StreamingWriteStream" "Remaining ?st < 1" "contents ?st = [7, 8]"
    using WriteStream_new_ok(1) [of 4 StreamingWriteStream] by (simp_all add: stream_ok_def Remaining_def WriteStream_new_def contents_def)
  obtain st' where e: "EnsureSpace (\<lambda>_. Some 0) 1 ?st = Some st'"
    using EnsureSpace_defined [of "\<lambda>_. Some 0" 1 ?st] by auto
  show ?thesis
    using stream_buffers_refine_byte_lists [OF ok, of "\<lambda>_. Some 0"] e st by (auto simp: Let_def)
qed

section \<open>Further results\<close>

text \<open>Every register-immediate instruction computes its function for every immediate that its
  encoding admits, again whatever compressed form is chosen: the immediate survives being split
  over the fields of the instruction word, and the choice between c.addi, c.addi16sp, c.addi4spn, c.li, c.mv
  and the full encoding of addi is never observable.\<close>

theorem immediate_instructions_correct:
  "(IsITypeImm imm \<longrightarrow>
      list_all (\<lambda>(emit, f). \<forall>(a :: 'z MicroAssembler_scheme) rd rs1. computes a (emit rd rs1 imm a) (\<lambda>R. wr rd (f (R rs1)) R))
        [(addi, \<lambda>x. x + imm), (slti, \<lambda>x. if sint x < sint imm then 1 else 0), (sltiu, \<lambda>x. if x < imm then 1 else 0),
         (xori, \<lambda>x. x XOR imm), (ori, \<lambda>x. x OR imm), (andi, \<lambda>x. x AND imm),
         (addiw, \<lambda>x. sign_extend (ucast x + ucast imm))]) \<and>
   (unat imm < 64 \<longrightarrow>
      list_all (\<lambda>(emit, f). \<forall>(a :: 'z MicroAssembler_scheme) rd rs1. computes a (emit rd rs1 imm a) (\<lambda>R. wr rd (f (R rs1)) R))
        [(slli, push_bit (unat imm)), (srli, drop_bit (unat imm)), (srai, signed_drop_bit (unat imm)),
         (rori, \<lambda>x. sim_ror x imm), (bclri, \<lambda>x. sim_bclr x imm), (bexti, \<lambda>x. sim_bext x imm),
         (binvi, \<lambda>x. sim_binv x imm), (bseti, \<lambda>x. sim_bset x imm)]) \<and>
   (unat imm < 32 \<longrightarrow>
      list_all (\<lambda>(emit, f). \<forall>(a :: 'z MicroAssembler_scheme) rd rs1. computes a (emit rd rs1 imm a) (\<lambda>R. wr rd (f (R rs1)) R))
        [(slliw, \<lambda>x. sign_extend (push_bit (unat imm) (ucast x))), (srliw, \<lambda>x. sign_extend (drop_bit (unat imm) (ucast x))),
         (sraiw, \<lambda>x. sign_extend (signed_drop_bit (unat imm) (ucast x)))])"
  unfolding list.pred_inject(2) prod.case
  by (intro conjI allI impI list.pred_inject(1) addi_i.correct slti_i.correct sltiu_i.correct xori_i.correct ori_i.correct
      andi_i.correct addiw_i.correct slli_i.correct srli_i.correct srai_i.correct rori_i.correct bclri_i.correct
      bexti_i.correct binvi_i.correct bseti_i.correct slliw_i.correct srliw_i.correct sraiw_i.correct)

theorem immediate_instructions_correct_witness:
  "\<forall>a :: MicroAssembler. computes a (addi A0 SP (-32) a) (\<lambda>R. wr A0 (R SP - 32) R) \<and>
     computes a (sraiw A1 A2 7 a) (\<lambda>R. wr A1 (sign_extend (signed_drop_bit 7 (ucast (R A2)))) R)"
  using immediate_instructions_correct [where 'z = unit, of "-32"] immediate_instructions_correct [where 'z = unit, of 7]
  by (simp add: IsITypeImm_def IsInt_iff)

text \<open>Widening a value from any operand size, widening and tagging it as a small integer, and extracting
  an unsigned bit field have the same effect in every form the available extensions select: the
  result is the sign or zero extension, twice that extension, and the selected bits, and no other
  register changes.\<close>

theorem extension_macros_correct:
  assumes "sz \<in> {kByte, kUnsignedByte, kTwoBytes, kUnsignedTwoBytes, kFourBytes, kUnsignedFourBytes, kEightBytes}"
    and "0 < width" "low_bit + width \<le> 64"
  shows "writes a (ExtendValue rd rn sz a) rd (\<lambda>R. extended sz (R rn)) {} \<and>
    writes a (ExtendAndSmiTagValue rd rn sz a) rd (\<lambda>R. 2 * extended sz (R rn)) {} \<and>
    writes a (ExtractBitField rd rn low_bit width a) rd (\<lambda>R. take_bit width (drop_bit low_bit (R rn))) {}"
proof -
  have g: "general_size sz" using assms(1) by (simp add: general_size_def)
  have d: "push_bit 1 x = 2 * x" for x :: u64 by (simp add: push_bit_eq_mult)
  have "writes a (ExtendValue rd rn sz a) rd (\<lambda>R. extended sz (R rn)) {}"
    "writes a (ExtendAndSmiTagValue rd rn sz a) rd (\<lambda>R. 2 * extended sz (R rn)) {}"
    using ExtendValue_writes [OF g, of a rd rn "{}"] ExtendAndSmiTagValue_writes [OF g, of a rd rn "{}"]
    unfolding d by simp_all
  moreover have "writes a (ExtractBitField rd rn low_bit width a) rd (\<lambda>R. take_bit width (drop_bit low_bit (R rn))) {}"
    using ExtractBitField_writes [OF assms(2,3), of a rd rn "{}"] .
  ultimately show ?thesis by blast
qed

theorem extension_macros_correct_witness:
  "writes (sample_assembler RV_GC) (ExtendValue A0 A1 kTwoBytes (sample_assembler RV_GC)) A0
     (\<lambda>R. signed_take_bit 15 (R A1)) {}"
  using extension_macros_correct [of kTwoBytes 1 0 "sample_assembler RV_GC" A0 A1] by simp

text \<open>The buffer never overruns its array: partial flushing picks an index inside the live entries for
  every random value although the value is reduced as a signed integer, leaves at most half of the capacity in use, and a
  store leaves a free slot for the next one.\<close>

theorem flush_keeps_capacity:
  assumes "buffered_ok s" "n \<in> {1, 2, 4, 8}"
  shows "length (BufferedSimulatorMemory.buffer_m (FlushSome s)) \<le> 8 \<and>
    length (BufferedSimulatorMemory.buffer_m (Buffered_Store n s addr v)) < kCapacity \<and>
    (\<forall>r k. 0 < k \<longrightarrow> 0 \<le> flush_index r k \<and> flush_index r k < int k)"
proof -
  have "buffer_ok (BufferedSimulatorMemory.buffer_m s)" using assms(1) by (simp add: buffered_ok_def)
  then have "length (BufferedSimulatorMemory.buffer_m (FlushSome s)) \<le> 8"
    using FlushSome_loop_view [of "BufferedSimulatorMemory.buffer_m s" "host_m s"]
    by (auto simp: FlushSome_def split: prod.splits)
  moreover have "length (BufferedSimulatorMemory.buffer_m (Buffered_Store n s addr v)) < kCapacity"
    using Buffered_Store_correct [OF assms, of addr v] by (simp add: buffered_ok_def)
  ultimately show ?thesis using flush_index_range by blast
qed

theorem flush_keeps_capacity_witness:
  "length (BufferedSimulatorMemory.buffer_m (Buffered_Store 2
      \<lparr>host_m = (\<lambda>_. 0), BufferedSimulatorMemory.buffer_m = [Entry 0 1, Entry 8 2]\<rparr> 200 5)) < kCapacity"
proof -
  have "buffered_ok \<lparr>host_m = (\<lambda>_. 0), BufferedSimulatorMemory.buffer_m = [Entry 0 1, Entry 8 2]\<rparr>"
    by (simp add: buffered_ok_def buffer_ok_def)
  from flush_keeps_capacity [OF this, of 2 200 5] show ?thesis by simp
qed

text \<open>The range check of a bit field is exact: it accepts precisely the values between the smallest and the
  largest value of the field, read as signed numbers for a sign-extended field and as unsigned
  numbers otherwise.\<close>

theorem bit_field_range_check_exact:
  assumes "fits_container TYPE('s::len) f"
  shows "is_valid TYPE('s) f v \<longleftrightarrow>
    (if sign_extended f then sint (min_value f) \<le> sint v \<and> sint v \<le> sint (max_value f) else v \<le> max_value f)"
  by (rule is_valid_range [OF assms])

theorem bit_field_range_check_exact_witness:
  "\<not> is_valid TYPE(32) \<lparr>position = 0, bitsize = 4, sign_extended = False\<rparr> 16"
proof -
  have "fits_container TYPE(32) \<lparr>position = 0, bitsize = 4, sign_extended = False\<rparr>"
    by (simp add: fits_container_def kNextBit_def)
  from bit_field_range_check_exact [OF this, of 16] show ?thesis by (simp add: max_value_def NBitMask_def)
qed

text \<open>The split immediate of the 32-bit branch format survives assembly: the word
  that the assembler builds for a conditional branch, with any registers and function code,
  decodes in the simulator to the branch offset that was encoded, whenever the assembler's own
  range test accepted the offset.\<close>

theorem btype_branch_roundtrip:
  assumes "IsBTypeImm imm" "IsFunct3 f3"
  shows "Instr_btype_imm (BTypeWord imm rs2 rs1 f3 BRANCH) = imm"
  using assms BTypeWord_decode_imm [of f3 BRANCH imm rs2 rs1]
  by (simp add: Instr_btype_imm_def rv_consts)

theorem btype_branch_roundtrip_witness:
  "Instr_btype_imm (BTypeWord (-2048) A0 ZR BNE BRANCH) = -2048"
proof -
  have "IsBTypeImm (-2048)" "IsFunct3 BNE"
    by (simp_all add: IsBTypeImm_def IsInt_def IsAligned_def IsFunct3_def)
  then show ?thesis by (rule btype_branch_roundtrip)
qed

text \<open>All fourteen scrambled immediate formats of the compressed instruction set are round trips on exactly the
  values their range tests accept: decoding an encoded immediate gives it back, sign included.\<close>

theorem compressed_immediates_roundtrip:
  "list_all (\<lambda>(valid, enc, dec). valid imm \<longrightarrow> dec (enc imm) = imm)
    [(IsCSPLoad4Imm, EncodeCSPLoad4Imm, DecodeCSPLoad4Imm), (IsCSPLoad8Imm, EncodeCSPLoad8Imm, DecodeCSPLoad8Imm),
     (IsCSPStore4Imm, EncodeCSPStore4Imm, DecodeCSPStore4Imm), (IsCSPStore8Imm, EncodeCSPStore8Imm, DecodeCSPStore8Imm),
     (IsCMem1Imm, EncodeCMem1Imm, DecodeCMem1Imm), (IsCMem2Imm, EncodeCMem2Imm, DecodeCMem2Imm),
     (IsCMem4Imm, EncodeCMem4Imm, DecodeCMem4Imm), (IsCMem8Imm, EncodeCMem8Imm, DecodeCMem8Imm),
     (IsCJImm, EncodeCJImm, DecodeCJImm), (IsCBImm, EncodeCBImm, DecodeCBImm), (IsCIImm, EncodeCIImm, DecodeCIImm),
     (IsCUImm, EncodeCUImm, DecodeCUImm), (IsCI16Imm, EncodeCI16Imm, DecodeCI16Imm), (IsCI4SPNImm, EncodeCI4SPNImm, DecodeCI4SPNImm)]"
  by (simp add: c_roundtrip)

theorem compressed_immediates_roundtrip_witness:
  "DecodeCBImm (EncodeCBImm (-6)) = -6 \<and> DecodeCI16Imm (EncodeCI16Imm (-64)) = -64"
  using compressed_immediates_roundtrip [of "-6"] compressed_immediates_roundtrip [of "-64"]
  by (simp add: IsCBImm_def IsCI16Imm_def IsInt_iff IsAligned_def)

text \<open>Every 32-bit constant splits into an upper part for lui and auipc and a lower part for addi: the parts are in
  the range of their formats for every constant, and the 32-bit sum of the parts, sign-extended, is the constant.\<close>

theorem immediate_split_recomposes:
  assumes "IsInt 32 imm"
  shows "IsITypeImm (ImmLo imm) \<and> IsUTypeImm (ImmHi imm) \<and> signed_take_bit 31 (ImmHi imm + ImmLo imm) = imm"
  using IsInt32_split(1) [OF assms] IsITypeImm_ImmLo IsUTypeImm_ImmHi by blast

theorem immediate_split_recomposes_witness:
  "signed_take_bit 31 (ImmHi 0x12345FFF + ImmLo 0x12345FFF) = 0x12345FFF"
  using immediate_split_recomposes [of "0x12345FFF"] by (simp add: IsInt_iff)

text \<open>The compressed instruction extension does not change the behaviour of the arithmetic instructions: for the nineteen listed ones
  two assemblers that differ in any way, in particular in the supported extensions,
  emit codes that have the same effect on the registers. (It is not so for lui with the immediate zero, whose compressed form is a reserved encoding.)\<close>

theorem compressed_code_is_equivalent:
  assumes "IsITypeImm imm" "unat shamt < 64"
  shows "list_all (\<lambda>emit. \<forall>a b :: MicroAssembler. \<exists>g. computes a (emit a) g \<and> computes b (emit b) g)
    [add rd rs1 rs2, sub rd rs1 rs2, and_r rd rs1 rs2, or_r rd rs1 rs2, xor_r rd rs1 rs2, addw rd rs1 rs2,
     subw rd rs1 rs2, mul rd rs1 rs2, addi rd rs1 imm, andi rd rs1 imm, addiw rd rs1 imm, xori rd rs1 imm,
     slli rd rs1 shamt, srli rd rs1 shamt, srai rd rs1 shamt, sextb rd rs1, sexth rd rs1, zexth rd rs1, adduw rd rs1 rs2]"
  unfolding list.pred_inject(2)
  by (intro conjI allI list.pred_inject(1)) (rule exI, rule conjI, (rule
      add_i.correct sub_i.correct and_r_i.correct or_r_i.correct xor_r_i.correct addw_i.correct subw_i.correct
        mul_i.correct addi_i.correct [OF assms(1)] andi_i.correct [OF assms(1)] addiw_i.correct [OF assms(1)]
        xori_i.correct [OF assms(1)] slli_i.correct [OF assms(2)] srli_i.correct [OF assms(2)]
        srai_i.correct [OF assms(2)] sextb_i.correct sexth_i.correct zexth_i.correct adduw_i.correct)+)+

theorem compressed_code_is_equivalent_witness:
  "\<exists>g. computes \<lparr>buffer_m = [], extensions_m = RV_G, far_branch_level_m = 0\<rparr>
         (addi A0 A0 1 \<lparr>buffer_m = [], extensions_m = RV_G, far_branch_level_m = 0\<rparr>) g \<and>
       computes \<lparr>buffer_m = [], extensions_m = RV_GC, far_branch_level_m = 0\<rparr>
         (addi A0 A0 1 \<lparr>buffer_m = [], extensions_m = RV_GC, far_branch_level_m = 0\<rparr>) g"
  using compressed_code_is_equivalent [of 1 1 A0 A0 A0]
  by (simp add: IsITypeImm_def IsInt_iff)

end
